(* ===== verification/Prelude.thy ===== *)
theory Prelude
  imports Main
begin

text \<open>
  Shared vocabulary of the development: byte strings and the functions of Go's packages
  \<open>strings\<close> and \<open>strconv\<close> that the program calls, and the simp collections.

  A Go string is a list of bytes, here a \<open>string\<close> (a list of 8-bit \<open>char\<close>s), so
  \<open>length\<close> is Go's \<open>len\<close>. The case mappings and the white space test are those of
  ASCII: bytes from 128 on are left alone by \<open>to_lower\<close> and \<open>to_upper\<close> and are
  never white space. On ASCII text this is exactly what Go computes.
\<close>

named_theorems wf_intros \<open>introduction rules: operations keep a component's invariant\<close>

type_synonym time = int      \<comment> \<open>nanoseconds since Go's zero time; 0 is \<open>time.Time{}\<close>\<close>
type_synonym duration = int  \<comment> \<open>nanoseconds\<close>

abbreviation second :: duration where "second \<equiv> 1000000000"
abbreviation minute :: duration where "minute \<equiv> 60 * second"
abbreviation hour :: duration where "hour \<equiv> 60 * minute"

subsection \<open>Bytes\<close>

abbreviation byte :: "char \<Rightarrow> nat" where "byte c \<equiv> of_char c"

definition is_digit :: "char \<Rightarrow> bool" where
  "is_digit c \<longleftrightarrow> 48 \<le> byte c \<and> byte c \<le> 57"

definition is_upper :: "char \<Rightarrow> bool" where
  "is_upper c \<longleftrightarrow> 65 \<le> byte c \<and> byte c \<le> 90"

definition is_lower :: "char \<Rightarrow> bool" where
  "is_lower c \<longleftrightarrow> 97 \<le> byte c \<and> byte c \<le> 122"

definition is_space :: "char \<Rightarrow> bool" where
  "is_space c \<longleftrightarrow> byte c = 32 \<or> (9 \<le> byte c \<and> byte c \<le> 13)"

definition lower_char :: "char \<Rightarrow> char" where
  "lower_char c = (if is_upper c then char_of (byte c + 32) else c)"

definition upper_char :: "char \<Rightarrow> char" where
  "upper_char c = (if is_lower c then char_of (byte c - 32) else c)"

definition digit_val :: "char \<Rightarrow> nat" where
  "digit_val c = byte c - 48"

definition digit_char :: "nat \<Rightarrow> char" where
  "digit_char n = char_of (48 + n)"

lemma byte_bound: "byte c < 256"
  by (rule nat_of_char_less_256)

lemma byte_char_of: "n < 256 \<Longrightarrow> byte (char_of n) = n"
  by simp

lemma digit_val_bound: "is_digit c \<Longrightarrow> digit_val c < 10"
  unfolding is_digit_def digit_val_def by linarith

lemma byte_lower_char: "byte (lower_char c) = (if is_upper c then byte c + 32 else byte c)"
  by (simp add: lower_char_def is_upper_def byte_char_of)

lemma byte_digit_char: "n < 10 \<Longrightarrow> byte (digit_char n) = 48 + n"
  by (simp add: digit_char_def byte_char_of)

lemma is_digit_digit_char [simp]: "n < 10 \<Longrightarrow> is_digit (digit_char n)"
  by (simp add: is_digit_def byte_digit_char)

lemma digit_val_digit_char [simp]: "n < 10 \<Longrightarrow> digit_val (digit_char n) = n"
  by (simp add: digit_val_def byte_digit_char)

lemma lower_char_idem [simp]: "lower_char (lower_char c) = lower_char c"
proof -
  have "\<not> is_upper (lower_char c)"
    by (auto simp: is_upper_def byte_lower_char)
  then show ?thesis by (subst lower_char_def) simp
qed

lemma is_space_lower_char [simp]: "is_space (lower_char c) = is_space c"
  by (auto simp: is_space_def byte_lower_char is_upper_def)

lemma is_digit_lower_char [simp]: "is_digit (lower_char c) = is_digit c"
  by (auto simp: is_digit_def byte_lower_char is_upper_def)

lemma digit_not_space: "is_digit c \<Longrightarrow> \<not> is_space c"
  by (simp add: is_digit_def is_space_def)

subsection \<open>Package strings\<close>

definition to_lower :: "string \<Rightarrow> string" where
  "to_lower s = map lower_char s"

definition to_upper :: "string \<Rightarrow> string" where
  "to_upper s = map upper_char s"

definition trim_left_where :: "(char \<Rightarrow> bool) \<Rightarrow> string \<Rightarrow> string" where
  "trim_left_where p s = dropWhile p s"

definition trim_right_where :: "(char \<Rightarrow> bool) \<Rightarrow> string \<Rightarrow> string" where
  "trim_right_where p s = rev (dropWhile p (rev s))"

definition trim_where :: "(char \<Rightarrow> bool) \<Rightarrow> string \<Rightarrow> string" where
  "trim_where p s = trim_right_where p (trim_left_where p s)"

definition trim_space :: "string \<Rightarrow> string" where
  "trim_space s = trim_where is_space s"

definition has_prefix :: "string \<Rightarrow> string \<Rightarrow> bool" where
  "has_prefix s p \<longleftrightarrow> take (length p) s = p"

definition has_suffix :: "string \<Rightarrow> string \<Rightarrow> bool" where
  "has_suffix s p \<longleftrightarrow> has_prefix (rev s) (rev p)"

definition trim_prefix :: "string \<Rightarrow> string \<Rightarrow> string" where
  "trim_prefix s p = (if has_prefix s p then drop (length p) s else s)"

definition trim_suffix :: "string \<Rightarrow> string \<Rightarrow> string" where
  "trim_suffix s p = (if has_suffix s p then take (length s - length p) s else s)"

fun contains_sub :: "string \<Rightarrow> string \<Rightarrow> bool" where
  "contains_sub [] p \<longleftrightarrow> p = []"
| "contains_sub (c # s) p \<longleftrightarrow> has_prefix (c # s) p \<or> contains_sub s p"

lemmas go_str = to_lower_def to_upper_def trim_left_where_def trim_right_where_def trim_where_def
  has_prefix_def has_suffix_def trim_prefix_def trim_suffix_def

text \<open>\<open>strings.Split\<close> with a one-byte separator: never the empty list.\<close>

fun split_on :: "char \<Rightarrow> string \<Rightarrow> string list" where
  "split_on c [] = [[]]"
| "split_on c (x # xs) =
     (if x = c then [] # split_on c xs
      else case split_on c xs of [] \<Rightarrow> [[x]] | y # ys \<Rightarrow> (x # y) # ys)"

fun join :: "string \<Rightarrow> string list \<Rightarrow> string" where
  "join sep [] = []"
| "join sep [x] = x"
| "join sep (x # y # ys) = x @ sep @ join sep (y # ys)"

lemma split_on_ne [simp]: "split_on c s \<noteq> []"
  by (induction s) (auto split: list.splits)

lemma join_split [simp]: "join [c] (split_on c s) = s"
proof (induction s)
  case (Cons x xs)
  then show ?case
    by (cases "split_on c xs"; cases "tl (split_on c xs)") auto
qed simp

lemma split_on_no_sep: "p \<in> set (split_on c s) \<Longrightarrow> c \<notin> set p"
  by (induction s arbitrary: p) (auto split: if_splits list.splits)

lemma split_on_subset: "p \<in> set (split_on c s) \<Longrightarrow> set p \<subseteq> set s"
  by (induction s arbitrary: p) (fastforce split: if_splits list.splits)+

lemma split_on_absent: "c \<notin> set s \<Longrightarrow> split_on c s = [s]"
  by (induction s) auto

lemma split_on_append: "c \<notin> set x \<Longrightarrow> split_on c (x @ c # s) = x # split_on c s"
  by (induction x) auto

lemma split_join: "xs \<noteq> [] \<Longrightarrow> \<forall>x\<in>set xs. c \<notin> set x \<Longrightarrow> split_on c (join [c] xs) = xs"
proof (induction "[c]" xs rule: join.induct)
  case (2 x)
  then show ?case by (simp add: split_on_absent)
next
  case (3 x y ys)
  then show ?case by (simp add: split_on_append)
qed simp

lemma has_prefix_iff: "has_prefix s p \<longleftrightarrow> (\<exists>r. s = p @ r)"
  by (metis append_eq_conv_conj append_take_drop_id has_prefix_def)

lemma has_prefix_append [simp]: "has_prefix (p @ r) p"
  by (simp add: has_prefix_def)

lemma trim_prefix_append [simp]: "trim_prefix (p @ r) p = r"
  by (simp add: trim_prefix_def)

lemma contains_sub_iff: "contains_sub s p \<longleftrightarrow> (\<exists>a b. s = a @ p @ b)"
proof (induction s)
  case (Cons c s)
  have "(\<exists>a b. c # s = a @ p @ b) \<longleftrightarrow>
        (\<exists>b. c # s = p @ b) \<or> (\<exists>a b. s = a @ p @ b)" (is "?l \<longleftrightarrow> ?r")
  proof
    assume ?l
    then obtain a b where ab: "c # s = a @ p @ b" by blast
    show ?r
    proof (cases a)
      case Nil
      with ab show ?thesis by auto
    next
      case (Cons d a')
      with ab show ?thesis by auto
    qed
  next
    assume ?r
    then show ?l by (metis append_Cons append_Nil)
  qed
  then show ?case using Cons.IH by (simp add: has_prefix_iff)
qed auto

lemma length_to_lower [simp]: "length (to_lower s) = length s"
  by (simp add: to_lower_def)

lemma to_lower_idem [simp]: "to_lower (to_lower s) = to_lower s"
  by (simp add: to_lower_def)

lemma to_lower_append [simp]: "to_lower (a @ b) = to_lower a @ to_lower b"
  by (simp add: to_lower_def)

lemma dropWhile_hd: "s \<noteq> [] \<Longrightarrow> \<not> p (hd s) \<Longrightarrow> dropWhile p s = s"
  by (cases s) simp_all

lemma trim_where_clean:
  assumes "s \<noteq> []" "\<not> p (hd s)" "\<not> p (last s)"
  shows "trim_where p s = s"
proof -
  have "dropWhile p (rev s) = rev s"
    using assms by (intro dropWhile_hd) (simp_all add: hd_rev)
  then show ?thesis using assms by (simp add: go_str dropWhile_hd)
qed

lemma trim_where_id: "\<forall>c\<in>set s. \<not> p c \<Longrightarrow> trim_where p s = s"
proof (cases "s = []")
  case False
  then show "\<forall>c\<in>set s. \<not> p c \<Longrightarrow> trim_where p s = s"
    by (intro trim_where_clean) simp_all
qed (simp add: go_str)

lemma trim_space_id: "\<forall>c\<in>set s. \<not> is_space c \<Longrightarrow> trim_space s = s"
  by (simp add: trim_space_def trim_where_id)

lemma trim_where_ends:
  assumes "trim_where p s \<noteq> []"
  shows "\<not> p (hd (trim_where p s)) \<and> \<not> p (last (trim_where p s))"
proof -
  define t where "t = dropWhile p s"
  have eq: "trim_where p s = rev (dropWhile p (rev t))"
    by (simp add: go_str t_def)
  with assms have ne: "dropWhile p (rev t) \<noteq> []" by simp
  then have l: "\<not> p (last (trim_where p s))"
    by (simp add: eq last_rev hd_dropWhile)
  obtain z where z: "t = trim_where p s @ z"
    by (metis eq rev_append rev_rev_ident takeWhile_dropWhile_id)
  then have "t \<noteq> []" using assms by auto
  then have "\<not> p (hd t)" by (simp add: t_def hd_dropWhile)
  with z assms have "\<not> p (hd (trim_where p s))" by (metis hd_append2)
  with l show ?thesis by simp
qed

lemma trim_where_Nil [simp]: "trim_where p [] = []"
  by (simp add: go_str)

lemma trim_where_idem [simp]: "trim_where p (trim_where p s) = trim_where p s"
  using trim_where_ends [of p s] by (cases "trim_where p s = []") (simp_all add: trim_where_clean)

lemma trim_space_idem [simp]: "trim_space (trim_space s) = trim_space s"
  by (simp add: trim_space_def)

lemma set_trim_space: "set (trim_space s) \<subseteq> set s"
proof -
  have d: "set (dropWhile p xs) \<subseteq> set xs" for p and xs :: string
    by (auto dest: set_dropWhileD)
  show ?thesis
    unfolding trim_space_def go_str using d by (metis set_rev subset_trans)
qed

subsection \<open>Package strconv\<close>

definition dec_val :: "string \<Rightarrow> nat" where
  "dec_val s = foldl (\<lambda>n c. 10 * n + digit_val c) 0 s"

definition all_digits :: "string \<Rightarrow> bool" where
  "all_digits s \<longleftrightarrow> s \<noteq> [] \<and> list_all is_digit s"

text \<open>\<open>strconv.ParseUint(s, 10, bits)\<close>: digits only, no sign, and the value must fit.\<close>

definition parse_uint :: "nat \<Rightarrow> string \<Rightarrow> nat option" where
  "parse_uint bits s =
     (if all_digits s \<and> dec_val s < 2 ^ bits then Some (dec_val s) else None)"

text \<open>\<open>strconv.Atoi\<close>: an optional sign, digits, and the value must fit a 64-bit \<open>int\<close>.\<close>

definition atoi :: "string \<Rightarrow> int option" where
  "atoi s =
     (let neg = has_prefix s ''-'';
          r = (if neg \<or> has_prefix s ''+'' then tl s else s)
      in if \<not> all_digits r then None
         else let n = int (dec_val r); v = (if neg then - n else n)
              in if - (2 ^ 63) \<le> v \<and> v < 2 ^ 63 then Some v else None)"

fun itoa_nat :: "nat \<Rightarrow> string" where
  "itoa_nat n = (if n < 10 then [digit_char n]
                 else itoa_nat (n div 10) @ [digit_char (n mod 10)])"

declare itoa_nat.simps [simp del]

definition itoa_int :: "int \<Rightarrow> string" where
  "itoa_int i = (if i < 0 then ''-'' @ itoa_nat (nat (- i)) else itoa_nat (nat i))"

lemma dec_val_snoc: "dec_val (s @ [c]) = 10 * dec_val s + digit_val c"
  by (simp add: dec_val_def)

lemma dec_val_itoa [simp]: "dec_val (itoa_nat n) = n"
proof (induction n rule: itoa_nat.induct)
  case (1 n)
  then show ?case
    by (cases "n < 10") (simp_all add: itoa_nat.simps [of n] dec_val_snoc dec_val_def)
qed

lemma all_digits_itoa [simp]: "all_digits (itoa_nat n)"
proof (induction n rule: itoa_nat.induct)
  case (1 n)
  then show ?case
    by (cases "n < 10") (auto simp: itoa_nat.simps [of n] all_digits_def)
qed

lemma parse_uint_itoa: "n < 2 ^ bits \<Longrightarrow> parse_uint bits (itoa_nat n) = Some n"
  by (simp add: parse_uint_def)

lemma parse_uint_bound: "parse_uint bits s = Some n \<Longrightarrow> n < 2 ^ bits"
  by (auto simp: parse_uint_def split: if_splits)

subsection \<open>64-bit integers\<close>

text \<open>A Go \<open>int\<close> or \<open>int64\<close> is a mathematical integer here; where a result can leave the range it
  is wrapped as Go wraps it.\<close>

definition wrap64 :: "int \<Rightarrow> int" where
  "wrap64 x = (x + 2 ^ 63) mod 2 ^ 64 - 2 ^ 63"

lemma wrap64_id: "- (2 ^ 63) \<le> x \<Longrightarrow> x < 2 ^ 63 \<Longrightarrow> wrap64 x = x"
  by (simp add: wrap64_def mod_pos_pos_trivial)

lemma wrap64_over: "2 ^ 63 \<le> x \<Longrightarrow> x < 2 ^ 64 \<Longrightarrow> wrap64 x = x - 2 ^ 64"
proof -
  assume x: "2 ^ 63 \<le> x" "x < 2 ^ 64"
  have "(x + 2 ^ 63) mod 2 ^ 64 = (x - 2 ^ 63 + 2 ^ 64) mod 2 ^ 64"
    by (rule arg_cong [where f = "\<lambda>y. y mod 2 ^ 64"]) simp
  also have "\<dots> = x - 2 ^ 63"
    unfolding mod_add_self2 using x by (intro mod_pos_pos_trivial) auto
  finally show ?thesis by (simp add: wrap64_def)
qed

subsection \<open>Options and association lists\<close>

definition opt_or :: "'a option \<Rightarrow> 'a \<Rightarrow> 'a" where
  "opt_or x d = (case x of None \<Rightarrow> d | Some y \<Rightarrow> y)"

lemma opt_or_simps [simp]: "opt_or None d = d" "opt_or (Some x) d = x"
  by (simp_all add: opt_or_def)

text \<open>Update of a Go map kept as an association list with distinct keys.\<close>

fun upd :: "'k \<Rightarrow> 'v \<Rightarrow> ('k \<times> 'v) list \<Rightarrow> ('k \<times> 'v) list" where
  "upd k v [] = [(k, v)]"
| "upd k v ((k', v') # m) = (if k' = k then (k, v) # m else (k', v') # upd k v m)"

definition del :: "'k \<Rightarrow> ('k \<times> 'v) list \<Rightarrow> ('k \<times> 'v) list" where
  "del k m = filter (\<lambda>(k', v). k' \<noteq> k) m"

abbreviation keys :: "('k \<times> 'v) list \<Rightarrow> 'k list" where
  "keys m \<equiv> map fst m"

lemma map_of_upd [simp]: "map_of (upd k v m) = (map_of m)(k \<mapsto> v)"
  by (induction m) (auto simp: fun_eq_iff)

lemma map_of_del [simp]: "map_of (del k m) = (map_of m)(k := None)"
  by (induction m) (auto simp: del_def fun_eq_iff)

lemma set_keys_upd [simp]: "set (keys (upd k v m)) = insert k (set (keys m))"
  by (induction k v m rule: upd.induct) auto

lemma distinct_upd [wf_intros]: "distinct (keys m) \<Longrightarrow> distinct (keys (upd k v m))"
proof (induction m)
  case (Cons a m)
  obtain k' v' where a: "a = (k', v')" by (cases a)
  show ?case
  proof (cases "k' = k")
    case False
    have "k' \<notin> set (keys (upd k v m))"
      using Cons.prems False by (simp only: set_keys_upd) (simp add: a)
    then show ?thesis using Cons False by (simp add: a)
  qed (use Cons in \<open>simp add: a\<close>)
qed simp

lemma distinct_filter_keys [wf_intros]: "distinct (keys m) \<Longrightarrow> distinct (keys (filter P m))"
  by (rule distinct_map_filter)

lemma distinct_del [wf_intros]: "distinct (keys m) \<Longrightarrow> distinct (keys (del k m))"
  unfolding del_def by (rule distinct_filter_keys)

lemma map_of_filter_keys:
  "distinct (keys m) \<Longrightarrow>
   map_of (filter P m) k = (case map_of m k of None \<Rightarrow> None
                            | Some v \<Rightarrow> if P (k, v) then Some v else None)"
proof (induction m)
  case (Cons a m)
  obtain k' v' where a: "a = (k', v')" by (cases a)
  have "k' \<notin> set (keys m)" using Cons.prems a by simp
  then have "map_of m k' = None" by (simp add: map_of_eq_None_iff)
  then show ?case using Cons a by (auto split: option.splits if_splits)
qed simp

lemma length_upd: "length (upd k v m) = (if k \<in> set (keys m) then length m else Suc (length m))"
proof (induction m)
  case (Cons a m)
  then show ?case by (cases a; cases "k \<in> set (keys m)") auto
qed simp

subsection \<open>Evaluation on concrete strings\<close>

text \<open>
  Tables and rule bundles with which \<open>simp\<close> evaluates the string functions on literals; the
  witnesses of the properties use them.
\<close>

lemma lower_char_table:
  "lower_char CHR ''A'' = CHR ''a''"  "lower_char CHR ''B'' = CHR ''b''"  "lower_char CHR ''C'' = CHR ''c''"
  "lower_char CHR ''D'' = CHR ''d''"  "lower_char CHR ''E'' = CHR ''e''"  "lower_char CHR ''F'' = CHR ''f''"
  "lower_char CHR ''G'' = CHR ''g''"  "lower_char CHR ''H'' = CHR ''h''"  "lower_char CHR ''I'' = CHR ''i''"
  "lower_char CHR ''J'' = CHR ''j''"  "lower_char CHR ''K'' = CHR ''k''"  "lower_char CHR ''L'' = CHR ''l''"
  "lower_char CHR ''M'' = CHR ''m''"  "lower_char CHR ''N'' = CHR ''n''"  "lower_char CHR ''O'' = CHR ''o''"
  "lower_char CHR ''P'' = CHR ''p''"  "lower_char CHR ''Q'' = CHR ''q''"  "lower_char CHR ''R'' = CHR ''r''"
  "lower_char CHR ''S'' = CHR ''s''"  "lower_char CHR ''T'' = CHR ''t''"  "lower_char CHR ''U'' = CHR ''u''"
  "lower_char CHR ''V'' = CHR ''v''"  "lower_char CHR ''W'' = CHR ''w''"  "lower_char CHR ''X'' = CHR ''x''"
  "lower_char CHR ''Y'' = CHR ''y''"  "lower_char CHR ''Z'' = CHR ''z''"
  by (simp_all add: lower_char_def is_upper_def char_of_eq_iff)

lemma upper_char_table:
  "upper_char CHR ''a'' = CHR ''A''"  "upper_char CHR ''b'' = CHR ''B''"  "upper_char CHR ''c'' = CHR ''C''"
  "upper_char CHR ''d'' = CHR ''D''"  "upper_char CHR ''e'' = CHR ''E''"  "upper_char CHR ''f'' = CHR ''F''"
  "upper_char CHR ''g'' = CHR ''G''"  "upper_char CHR ''h'' = CHR ''H''"  "upper_char CHR ''i'' = CHR ''I''"
  "upper_char CHR ''j'' = CHR ''J''"  "upper_char CHR ''k'' = CHR ''K''"  "upper_char CHR ''l'' = CHR ''L''"
  "upper_char CHR ''m'' = CHR ''M''"  "upper_char CHR ''n'' = CHR ''N''"  "upper_char CHR ''o'' = CHR ''O''"
  "upper_char CHR ''p'' = CHR ''P''"  "upper_char CHR ''q'' = CHR ''Q''"  "upper_char CHR ''r'' = CHR ''R''"
  "upper_char CHR ''s'' = CHR ''S''"  "upper_char CHR ''t'' = CHR ''T''"  "upper_char CHR ''u'' = CHR ''U''"
  "upper_char CHR ''v'' = CHR ''V''"  "upper_char CHR ''w'' = CHR ''W''"  "upper_char CHR ''x'' = CHR ''X''"
  "upper_char CHR ''y'' = CHR ''Y''"  "upper_char CHR ''z'' = CHR ''Z''"
  by (simp_all add: upper_char_def is_lower_def char_of_eq_iff)

lemma lower_char_other: "\<not> is_upper c \<Longrightarrow> lower_char c = c"
  by (simp add: lower_char_def)

lemma upper_char_other: "\<not> is_lower c \<Longrightarrow> upper_char c = c"
  by (simp add: upper_char_def)

lemma replicate_numeral_eval: "replicate (numeral k) x = x # replicate (pred_numeral k) x"
  by (simp add: numeral_eq_Suc)

lemma take_numeral_eval: "take (numeral k) (x # xs) = x # take (pred_numeral k) xs"
  by (simp add: numeral_eq_Suc)

lemma drop_numeral_eval: "drop (numeral k) (x # xs) = drop (pred_numeral k) xs"
  by (simp add: numeral_eq_Suc)

lemmas str_evals =
  lower_char_table upper_char_table lower_char_other upper_char_other
  is_upper_def is_lower_def is_digit_def is_space_def
  to_lower_def to_upper_def trim_left_where_def trim_right_where_def trim_where_def trim_space_def
  has_prefix_def has_suffix_def trim_prefix_def trim_suffix_def
  digit_val_def dec_val_def all_digits_def parse_uint_def atoi_def
  replicate_numeral_eval take_numeral_eval drop_numeral_eval Let_def

subsection \<open>Hexadecimal texts\<close>

definition hex_low :: "nat \<Rightarrow> char" where
  "hex_low n = char_of (if n < 10 then 48 + n else 87 + n)"

text \<open>\<open>hex.EncodeToString\<close>.\<close>

definition hex_encode :: "string \<Rightarrow> string" where
  "hex_encode s = concat (map (\<lambda>c. [hex_low (byte c div 16), hex_low (byte c mod 16)]) s)"

end
