(* ===== verification/Regex.thy ===== *)
theory Regex
  imports Prelude
begin

text \<open>
  The fragment of Go's package \<open>regexp\<close> that the program's patterns use. \<open>rems e s\<close>
  lists what is left of \<open>s\<close> after a match of \<open>e\<close> at its start, in the order of
  preference of the leftmost-first rule (greedy repetitions first, alternatives from left to
  right), so the submatch of a capturing group that ends the pattern is determined by the first
  suitable remainder. \<open>lang\<close> is the textbook semantics, and \<open>rems_lang\<close> shows that
  the matcher finds exactly the splits that it allows.
\<close>

datatype rx =
    Cls "char \<Rightarrow> bool"   \<comment> \<open>one byte of a class\<close>
  | Eps
  | Cat rx rx
  | Or rx rx
  | Star rx

text \<open>\<open>r?\<close>, \<open>r+\<close>, a literal, a case-insensitive literal and \<open>\s*\<close>.\<close>

abbreviation Opt :: "rx \<Rightarrow> rx" where "Opt r \<equiv> Or r Eps"
abbreviation Plus :: "rx \<Rightarrow> rx" where "Plus r \<equiv> Cat r (Star r)"

definition cats :: "rx list \<Rightarrow> rx" where
  "cats rs = foldr Cat rs Eps"

fun ors :: "rx list \<Rightarrow> rx" where
  "ors [] = Cls (\<lambda>_. False)"
| "ors [r] = r"
| "ors (r # q # rs) = Or r (ors (q # rs))"

definition lit :: "string \<Rightarrow> rx" where
  "lit s = cats (map (\<lambda>c. Cls (\<lambda>x. x = c)) s)"

definition lit_ci :: "string \<Rightarrow> rx" where
  "lit_ci s = cats (map (\<lambda>c. Cls (\<lambda>x. lower_char x = c)) s)"

text \<open>\<open>\s\<close> of the RE2 syntax: tab, newline, form feed, carriage return, space.\<close>

definition rx_space :: "char \<Rightarrow> bool" where
  "rx_space c \<longleftrightarrow> byte c \<in> {9, 10, 12, 13, 32}"

definition sps :: rx where
  "sps = Star (Cls rx_space)"

subsection \<open>The matcher\<close>

text \<open>
  Greedy repetition: an iteration that consumes nothing is not repeated, so as many rounds as
  the input has bytes are enough.
\<close>

fun star_iter :: "nat \<Rightarrow> (string \<Rightarrow> string list) \<Rightarrow> string \<Rightarrow> string list" where
  "star_iter 0 f s = [s]"
| "star_iter (Suc n) f s =
     concat (map (star_iter n f) (filter (\<lambda>r. length r < length s) (f s))) @ [s]"

primrec rems :: "rx \<Rightarrow> string \<Rightarrow> string list" where
  "rems (Cls p) s = (case s of [] \<Rightarrow> [] | c # r \<Rightarrow> if p c then [r] else [])"
| "rems Eps s = [s]"
| "rems (Cat a b) s = concat (map (rems b) (rems a s))"
| "rems (Or a b) s = rems a s @ rems b s"
| "rems (Star a) s = star_iter (length s) (rems a) s"

text \<open>\<open>^e$\<close> matches the whole text.\<close>

definition rx_full :: "rx \<Rightarrow> string \<Rightarrow> bool" where
  "rx_full e s \<longleftrightarrow> list_ex (\<lambda>r. r = []) (rems e s)"

text \<open>
  \<open>FindStringSubmatch\<close> of \<open>^e(g)$\<close>, where the group \<open>g\<close> matches exactly the texts of
  which \<open>p\<close> holds: the preferred split whose rest satisfies \<open>p\<close>.
\<close>

definition submatch :: "rx \<Rightarrow> (string \<Rightarrow> bool) \<Rightarrow> string \<Rightarrow> string option" where
  "submatch e p s = List.find p (rems e s)"

subsection \<open>Soundness and completeness\<close>

primrec lang :: "rx \<Rightarrow> string set" where
  "lang (Cls p) = {[c] | c. p c}"
| "lang Eps = {[]}"
| "lang (Cat a b) = {u @ v | u v. u \<in> lang a \<and> v \<in> lang b}"
| "lang (Or a b) = lang a \<union> lang b"
| "lang (Star a) = {concat us | us. set us \<subseteq> lang a}"

lemma lang_starI: "set us \<subseteq> lang a \<Longrightarrow> concat us \<in> lang (Star a)"
  by auto

lemma star_iter_sound:
  assumes f: "\<And>s r. r \<in> set (f s) \<Longrightarrow> \<exists>u. s = u @ r \<and> u \<in> L"
  shows "r \<in> set (star_iter n f s) \<Longrightarrow> \<exists>us. s = concat us @ r \<and> set us \<subseteq> L"
proof (induction n arbitrary: s)
  case 0
  then show ?case by (intro exI [of _ "[]"]) simp
next
  case (Suc n)
  then consider "r = s" | t where "t \<in> set (f s)" "r \<in> set (star_iter n f t)"
    by auto
  then show ?case
  proof cases
    case 1
    then show ?thesis by (intro exI [of _ "[]"]) simp
  next
    case 2
    obtain u where "s = u @ t" "u \<in> L" using f [OF 2(1)] by blast
    moreover obtain us where "t = concat us @ r" "set us \<subseteq> L"
      using Suc.IH [OF 2(2)] by blast
    ultimately show ?thesis by (intro exI [of _ "u # us"]) simp
  qed
qed

lemma star_iter_self: "s \<in> set (star_iter n f s)"
  by (cases n) auto

lemma star_iter_complete:
  assumes f: "\<And>u r. u \<in> L \<Longrightarrow> r \<in> set (f (u @ r))"
  shows "set us \<subseteq> L \<Longrightarrow> length (concat us @ r) \<le> n \<Longrightarrow>
         r \<in> set (star_iter n f (concat us @ r))"
proof (induction us arbitrary: n)
  case Nil
  then show ?case by (simp add: star_iter_self)
next
  case (Cons u us)
  show ?case
  proof (cases "u = []")
    case True
    then show ?thesis using Cons by simp
  next
    case False
    then obtain m where n: "n = Suc m" using Cons.prems(2) by (cases n) auto
    have "concat us @ r \<in> set (f (u @ concat us @ r))"
      using Cons.prems(1) by (intro f) simp
    moreover have "r \<in> set (star_iter m f (concat us @ r))"
      using Cons.prems False n by (intro Cons.IH) (cases u; auto)+
    ultimately show ?thesis using False n by auto
  qed
qed

lemma rems_sound: "r \<in> set (rems e s) \<Longrightarrow> \<exists>u. s = u @ r \<and> u \<in> lang e"
proof (induction e arbitrary: s r)
  case (Cls p)
  then show ?case by (auto split: list.splits if_splits)
next
  case (Cat a b)
  then obtain t where t: "t \<in> set (rems a s)" "r \<in> set (rems b t)" by auto
  obtain u where "s = u @ t" "u \<in> lang a" using Cat.IH(1) [OF t(1)] by blast
  moreover obtain v where "t = v @ r" "v \<in> lang b" using Cat.IH(2) [OF t(2)] by blast
  ultimately show ?case by auto
next
  case (Or a b)
  then consider "r \<in> set (rems a s)" | "r \<in> set (rems b s)" by auto
  then show ?case
    by cases (use Or.IH in \<open>fastforce+\<close>)
next
  case (Star a)
  then obtain us where "s = concat us @ r" "set us \<subseteq> lang a"
    using star_iter_sound [of "rems a" "lang a", OF Star.IH] by (metis rems.simps(5))
  then show ?case using lang_starI by blast
qed simp

lemma rems_complete: "u \<in> lang e \<Longrightarrow> r \<in> set (rems e (u @ r))"
proof (induction e arbitrary: u r)
  case (Cat a b)
  then obtain v w where vw: "u = v @ w" "v \<in> lang a" "w \<in> lang b" by auto
  have "w @ r \<in> set (rems a (v @ w @ r))" by (rule Cat.IH(1) [OF vw(2)])
  moreover have "r \<in> set (rems b (w @ r))" by (rule Cat.IH(2) [OF vw(3)])
  ultimately show ?case using vw(1) by auto
next
  case (Star a)
  then obtain us where "u = concat us" "set us \<subseteq> lang a" by auto
  then show ?case
    using star_iter_complete [of "lang a" "rems a" us r] Star.IH by auto
qed auto

theorem rems_lang: "r \<in> set (rems e s) \<longleftrightarrow> (\<exists>u. s = u @ r \<and> u \<in> lang e)"
  using rems_sound rems_complete by blast

corollary rx_full_lang: "rx_full e s \<longleftrightarrow> s \<in> lang e"
  by (auto simp: rx_full_def list_ex_iff rems_lang)

lemma lang_star_cls: "s \<in> lang (Star (Cls p)) \<longleftrightarrow> list_all p s"
proof
  assume "s \<in> lang (Star (Cls p))"
  then obtain us where us: "s = concat us" "set us \<subseteq> {[c] | c. p c}" by auto
  show "list_all p s" unfolding us(1) list_all_iff using us(2) by fastforce
next
  assume p: "list_all p s"
  have "s = concat (map (\<lambda>c. [c]) s)" by (induction s) auto
  moreover have "set (map (\<lambda>c. [c]) s) \<subseteq> lang (Cls p)" using p by (auto simp: list_all_iff)
  ultimately show "s \<in> lang (Star (Cls p))" using lang_starI [of "map (\<lambda>c. [c]) s" "Cls p"] by simp
qed

declare lang.simps(5) [simp del]

lemma lang_cls_cat: "s \<in> lang (Cat (Cls p) b) \<longleftrightarrow> (\<exists>c r. s = c # r \<and> p c \<and> r \<in> lang b)"
proof
  assume "s \<in> lang (Cat (Cls p) b)"
  then show "\<exists>c r. s = c # r \<and> p c \<and> r \<in> lang b" by auto
next
  assume "\<exists>c r. s = c # r \<and> p c \<and> r \<in> lang b"
  then obtain c r where cr: "s = [c] @ r" "p c" "r \<in> lang b" by auto
  then have "[c] \<in> lang (Cls p)" by simp
  with cr show "s \<in> lang (Cat (Cls p) b)" unfolding lang.simps(3) by blast
qed

lemma rx_full_plus: "rx_full (Plus (Cls p)) s \<longleftrightarrow> s \<noteq> [] \<and> list_all p s"
  by (cases s) (simp_all only: rx_full_lang lang_cls_cat lang_star_cls, auto)

lemma submatch_Some: "submatch e p s = Some r \<Longrightarrow> p r \<and> (\<exists>u. s = u @ r \<and> u \<in> lang e)"
  by (auto simp: submatch_def find_Some_iff rems_lang [symmetric] in_set_conv_nth)

lemma submatch_None: "submatch e p s = None \<longleftrightarrow> (\<forall>u r. s = u @ r \<longrightarrow> u \<in> lang e \<longrightarrow> \<not> p r)"
  by (auto simp: submatch_def find_None_iff rems_lang)

lemmas rx_evals = rx_full_def lit_def lit_ci_def cats_def sps_def rx_space_def submatch_def

end
