(* ===== verification/Net.thy ===== *)
theory Net
  imports Prelude "HOL-Library.Word"
begin

text \<open>
  What the program uses of Go's package \<open>net\<close>: \<open>ParseIP\<close>, \<open>IP.To4\<close>, \<open>ParseCIDR\<close>,
  \<open>IPNet.Contains\<close> and \<open>JoinHostPort\<close>. An address is the list of its 16 (or, inside a
  network, 4) bytes, most significant first. The parsers follow \<open>netip.parseIPv4Fields\<close>
  and \<open>netip.parseIPv6\<close> loop by loop.
\<close>

unbundle bit_operations_syntax

type_synonym ip = "nat list"

subsection \<open>IPv4\<close>

text \<open>
  State of the loop: whether the last byte read was a dot (or nothing has been read), the value
  and the number of digits of the current octet, and the finished octets in reverse.
\<close>

fun v4_loop :: "bool \<Rightarrow> nat \<Rightarrow> nat \<Rightarrow> nat list \<Rightarrow> string \<Rightarrow> nat list option" where
  "v4_loop dot v dl acc [] = (if length acc < 3 then None else Some (rev (v # acc)))"
| "v4_loop dot v dl acc (c # s) =
     (if is_digit c then
        (if dl = 1 \<and> v = 0 then None
         else let v' = 10 * v + digit_val c
              in if 255 < v' then None else v4_loop False v' (dl + 1) acc s)
      else if c = CHR ''.'' then
        (if dot \<or> s = [] then None
         else if length acc = 3 then None
         else v4_loop True 0 0 (v # acc) s)
      else None)"

definition parse_ipv4_fields :: "string \<Rightarrow> nat list option" where
  "parse_ipv4_fields s = v4_loop True 0 0 [] s"

lemma v4_loop_bytes:
  "v4_loop dot v dl acc s = Some bs \<Longrightarrow> v < 256 \<Longrightarrow> \<forall>b\<in>set acc. b < 256 \<Longrightarrow> length acc \<le> 3 \<Longrightarrow>
   length bs = 4 \<and> (\<forall>b\<in>set bs. b < 256)"
  by (induction dot v dl acc s rule: v4_loop.induct) (auto simp: Let_def split: if_splits)

lemma v4_loop_chars:
  "v4_loop dot v dl acc s = Some bs \<Longrightarrow> c \<in> set s \<Longrightarrow> is_digit c \<or> c = CHR ''.''"
  by (induction dot v dl acc s rule: v4_loop.induct) (auto simp: Let_def split: if_splits)

subsection \<open>IPv6\<close>

definition is_hex :: "char \<Rightarrow> bool" where
  "is_hex c \<longleftrightarrow> is_digit c \<or> (97 \<le> byte c \<and> byte c \<le> 102) \<or> (65 \<le> byte c \<and> byte c \<le> 70)"

definition hex_digit :: "char \<Rightarrow> nat" where
  "hex_digit c = (if is_digit c then digit_val c
                  else if 97 \<le> byte c then byte c - 97 + 10 else byte c - 65 + 10)"

definition hex_val :: "string \<Rightarrow> nat" where
  "hex_val s = foldl (\<lambda>n c. 16 * n + hex_digit c) 0 s"

text \<open>
  The loop over the groups: the text left, the position of the ellipsis and the bytes read.
  \<open>None\<close> is a parse error.
\<close>

function v6_loop :: "string \<Rightarrow> nat option \<Rightarrow> nat list \<Rightarrow> (nat list \<times> nat option \<times> string) option" where
  "v6_loop s ell acc =
     (if 16 \<le> length acc then Some (acc, ell, s)
      else let h = takeWhile is_hex s; r = dropWhile is_hex s; v = hex_val h
      in if h = [] \<or> 4 < length h then None
      else if r \<noteq> [] \<and> hd r = CHR ''.'' then
        (if ell = None \<and> length acc \<noteq> 12 then None
         else if 16 < length acc + 4 then None
         else case parse_ipv4_fields s of None \<Rightarrow> None | Some f \<Rightarrow> Some (acc @ f, ell, []))
      else let acc' = acc @ [v div 256, v mod 256]
      in if r = [] then Some (acc', ell, [])
      else if hd r \<noteq> CHR '':'' then None
      else if tl r = [] then None
      else if hd (tl r) = CHR '':'' then
        (if ell \<noteq> None then None
         else if tl (tl r) = [] then Some (acc', Some (length acc'), [])
         else v6_loop (tl (tl r)) (Some (length acc')) acc')
      else v6_loop (tl r) ell acc')"
  by pat_completeness auto
termination
proof (relation "measure (\<lambda>(s, ell, acc). length s)", goal_cases)
  case (2 s ell acc)
  have "length (dropWhile is_hex s) \<le> length s" by (rule length_dropWhile_le)
  with 2 show ?case by (cases "dropWhile is_hex s") auto
next
  case (3 s ell acc)
  have "length (dropWhile is_hex s) \<le> length s" by (rule length_dropWhile_le)
  with 3 show ?case by (cases "dropWhile is_hex s") auto
qed simp

declare v6_loop.simps [simp del]

definition parse_ipv6 :: "string \<Rightarrow> ip option" where
  "parse_ipv6 s =
     (let lead = has_prefix s ''::'';
          s1 = (if lead then drop 2 s else s);
          ell0 = (if lead then Some 0 else None)
      in if lead \<and> s1 = [] then Some (replicate 16 0)
      else case v6_loop s1 ell0 [] of
             None \<Rightarrow> None
           | Some (acc, ell, rest) \<Rightarrow>
               if rest \<noteq> [] then None
               else if length acc < 16 then
                 (case ell of None \<Rightarrow> None
                  | Some e \<Rightarrow> Some (take e acc @ replicate (16 - length acc) 0 @ drop e acc))
               else if ell \<noteq> None then None else Some acc)"

subsection \<open>ParseIP and To4\<close>

definition v4in6 :: "nat list" where
  "v4in6 = [0, 0, 0, 0, 0, 0, 0, 0, 0, 0, 255, 255]"

definition is_addr_mark :: "char \<Rightarrow> bool" where
  "is_addr_mark c \<longleftrightarrow> c = CHR ''.'' \<or> c = CHR '':'' \<or> c = CHR ''%''"

text \<open>
  \<open>net.ParseIP\<close>: the first of the bytes \<open>.\<close>, \<open>:\<close> and \<open>%\<close> decides the family; an address
  with a zone is refused, and an IPv4 address becomes its 16-byte form.
\<close>

definition parse_ip :: "string \<Rightarrow> ip option" where
  "parse_ip s =
     (case List.find is_addr_mark s of
        None \<Rightarrow> None
      | Some c \<Rightarrow>
          if CHR ''%'' \<in> set s then None
          else if c = CHR ''.'' then map_option (\<lambda>f. v4in6 @ f) (parse_ipv4_fields s)
          else parse_ipv6 s)"

definition to4 :: "ip \<Rightarrow> ip option" where
  "to4 a = (if length a = 4 then Some a
            else if length a = 16 \<and> take 12 a = v4in6 then Some (drop 12 a) else None)"

lemma length_v4in6 [simp]: "length v4in6 = 12"
  by (simp add: v4in6_def)

lemma to4_v4in6 [simp]: "length f = 4 \<Longrightarrow> to4 (v4in6 @ f) = Some f"
  by (simp add: to4_def)

subsection \<open>Every parsed address has 16 bytes\<close>

lemma is_hex_digit_bound: "is_hex c \<Longrightarrow> hex_digit c < 16"
proof (cases "is_digit c")
  case True
  then show ?thesis using digit_val_bound [OF True] by (simp add: hex_digit_def)
next
  case False
  moreover assume "is_hex c"
  ultimately have "(97 \<le> byte c \<and> byte c \<le> 102) \<or> (65 \<le> byte c \<and> byte c \<le> 70)"
    by (simp add: is_hex_def)
  with False show ?thesis unfolding hex_digit_def by (cases "97 \<le> byte c") auto
qed

lemma hex_val_bound: "list_all is_hex s \<Longrightarrow> hex_val s < 16 ^ length s"
proof (induction s rule: rev_induct)
  case Nil
  then show ?case by (simp add: hex_val_def)
next
  case (snoc c s)
  then have "hex_val s < 16 ^ length s" "hex_digit c < 16" by (auto intro: is_hex_digit_bound)
  then show ?case by (simp add: hex_val_def)
qed

lemma v6_group_bound:
  assumes "\<not> 4 < length (takeWhile is_hex s)"
  shows "hex_val (takeWhile is_hex s) div 256 < 256"
proof -
  have "hex_val (takeWhile is_hex s) < 16 ^ length (takeWhile is_hex s)"
    by (rule hex_val_bound) (auto simp: list_all_iff dest: set_takeWhileD)
  also have "\<dots> \<le> 16 ^ 4" using assms by (intro power_increasing) auto
  finally show ?thesis by simp
qed

lemma parse_ipv4_fields_bytes:
  "parse_ipv4_fields s = Some f \<Longrightarrow> length f = 4 \<and> (\<forall>b\<in>set f. b < 256)"
  unfolding parse_ipv4_fields_def by (drule v4_loop_bytes) auto

definition v6_state_ok :: "nat option \<Rightarrow> nat list \<Rightarrow> bool" where
  "v6_state_ok ell acc \<longleftrightarrow> even (length acc) \<and> length acc \<le> 16 \<and> (\<forall>b\<in>set acc. b < 256) \<and>
     (\<forall>e. ell = Some e \<longrightarrow> e \<le> length acc)"

lemma v6_loop_ok:
  "v6_loop s ell acc = Some (acc', ell', rest) \<Longrightarrow> v6_state_ok ell acc \<Longrightarrow>
   length acc' \<le> 16 \<and> (\<forall>b\<in>set acc'. b < 256) \<and> (\<forall>e. ell' = Some e \<longrightarrow> e \<le> length acc')"
proof (induction s ell acc rule: v6_loop.induct)
  case (1 s ell acc)
  show ?case
  proof (cases "16 \<le> length acc")
    case True
    with 1(3,4) show ?thesis by (auto simp: v6_loop.simps [of s ell acc] v6_state_ok_def)
  next
    case len: False
    define h where "h = takeWhile is_hex s"
    define r where "r = dropWhile is_hex s"
    define acc1 where "acc1 = acc @ [hex_val h div 256, hex_val h mod 256]"
    have h: "h \<noteq> []" "\<not> 4 < length h"
      using 1(3) len by (auto simp: v6_loop.simps [of s ell acc] h_def Let_def split: if_splits)
    have ok1: "v6_state_ok ell acc1" "v6_state_ok (Some (length acc1)) acc1"
      using 1(4) len v6_group_bound [of s] h(2)
      by (auto simp: v6_state_ok_def acc1_def h_def)
    show ?thesis
    proof (cases "r \<noteq> [] \<and> hd r = CHR ''.''")
      case True
      then obtain f where "parse_ipv4_fields s = Some f" "acc' = acc @ f" "ell' = ell"
        "length acc + 4 \<le> 16"
        using 1(3) len h
        by (auto simp: v6_loop.simps [of s ell acc] Let_def r_def [symmetric] h_def [symmetric]
            split: if_splits option.splits)
      then show ?thesis using parse_ipv4_fields_bytes 1(4) by (fastforce simp: v6_state_ok_def)
    next
      case False
      note eq = 1(3) [unfolded v6_loop.simps [of s ell acc] Let_def,
          folded h_def r_def, folded acc1_def]
      have nn: "\<not> (h = [] \<or> 4 < length h)" using h by simp
      show ?thesis
        using eq len False nn ok1 1(1) [OF len h_def r_def refl _ False acc1_def]
          1(2) [OF len h_def r_def refl _ False acc1_def]
        by (auto simp: v6_state_ok_def split: if_splits)
    qed
  qed
qed

lemma parse_ipv6_SomeE:
  assumes "parse_ipv6 s = Some a"
  obtains "a = replicate 16 0"
  | s1 ell0 acc e where "v6_loop s1 ell0 [] = Some (acc, Some e, [])" "v6_state_ok ell0 []"
      "length acc < 16" "a = take e acc @ replicate (16 - length acc) 0 @ drop e acc"
  | s1 ell0 where "v6_loop s1 ell0 [] = Some (a, None, [])" "v6_state_ok ell0 []" "16 \<le> length a"
proof -
  define ell0 where "ell0 = (if has_prefix s ''::'' then Some (0::nat) else None)"
  define s1 where "s1 = (if has_prefix s ''::'' then drop 2 s else s)"
  have ok: "v6_state_ok ell0 []" by (simp add: v6_state_ok_def ell0_def)
  note eq = assms [unfolded parse_ipv6_def Let_def, folded ell0_def s1_def]
  show ?thesis
  proof (cases "has_prefix s ''::'' \<and> s1 = []")
    case True
    with eq show ?thesis by (auto intro: that(1))
  next
    case False
    then obtain acc ell where "v6_loop s1 ell0 [] = Some (acc, ell, [])"
      "(if length acc < 16 then
          (case ell of None \<Rightarrow> None
           | Some e \<Rightarrow> Some (take e acc @ replicate (16 - length acc) 0 @ drop e acc))
        else if ell \<noteq> None then None else Some acc) = Some a"
      using eq by (auto split: option.splits if_split_asm)
    then show ?thesis
      using ok that(2) [of s1 ell0 acc] that(3) [of s1 ell0]
      by (cases ell) (auto split: if_split_asm)
  qed
qed

lemma parse_ipv6_bytes:
  assumes "parse_ipv6 s = Some a"
  shows "length a = 16 \<and> (\<forall>b\<in>set a. b < 256)"
  using assms
proof (cases rule: parse_ipv6_SomeE)
  case (2 s1 ell0 acc e)
  have "e \<le> length acc" "\<forall>b\<in>set acc. b < 256" using v6_loop_ok [OF 2(1,2)] by auto
  then show ?thesis using 2(3,4) by (auto dest: in_set_takeD in_set_dropD)
next
  case (3 s1 ell0)
  then show ?thesis using v6_loop_ok [OF 3(1,2)] by auto
qed auto

theorem parse_ip_bytes: "parse_ip s = Some a \<Longrightarrow> length a = 16 \<and> (\<forall>b\<in>set a. b < 256)"
  using parse_ipv6_bytes parse_ipv4_fields_bytes
  by (auto simp: parse_ip_def v4in6_def split: option.splits if_splits)

lemmas net_evals =
  parse_ip_def is_addr_mark_def parse_ipv4_fields_def parse_ipv6_def v6_loop.simps
  is_hex_def hex_val_def hex_digit_def to4_def v4in6_def

subsection \<open>Package net: host and port\<close>

text \<open>
  \<open>net.SplitHostPort\<close>: the port follows the last colon; a host in brackets may contain colons.
  Every error of the Go function is \<open>None\<close>.
\<close>

definition split_host_port :: "string \<Rightarrow> (string \<times> string) option" where
  "split_host_port s =
     (if CHR '':'' \<notin> set s then None
      else let port = rev (takeWhile (\<lambda>c. c \<noteq> CHR '':'') (rev s));
               before = take (length s - length port - 1) s
           in if hd s = CHR ''['' then
                let inner = takeWhile (\<lambda>c. c \<noteq> CHR '']'') s
                in if CHR '']'' \<notin> set s \<or> length inner + 1 \<noteq> length before then None
                   else if CHR ''['' \<in> set (drop 1 s) \<or> CHR '']'' \<in> set (drop (length inner + 1) s)
                   then None
                   else Some (drop 1 inner, port)
              else if CHR '':'' \<in> set before \<or> CHR ''['' \<in> set s \<or> CHR '']'' \<in> set s then None
              else Some (before, port))"

subsection \<open>Package net: networks\<close>

text \<open>
  \<open>net.ParseCIDR\<close>: the address and the number of leading one bits of the mask. The mask of an
  address in IPv4 notation has 4 bytes, and so has the network; any other has 16.
\<close>

type_synonym ipnet = "ip \<times> nat list"

definition cidr_mask :: "nat \<Rightarrow> nat \<Rightarrow> nat list" where
  "cidr_mask ones bytes =
     map (\<lambda>i. if 8 * i + 8 \<le> ones then 255
               else if ones \<le> 8 * i then 0 else 256 - 2 ^ (8 - (ones - 8 * i))) [0..<bytes]"

definition and_bytes :: "nat list \<Rightarrow> nat list \<Rightarrow> nat list" where
  "and_bytes xs ys = map2 (AND) xs ys"

definition is_v4_text :: "string \<Rightarrow> bool" where
  "is_v4_text s \<longleftrightarrow> List.find is_addr_mark s = Some CHR ''.''"

text \<open>The mask length is read by \<open>dtoi\<close>, which gives up at 2^24 - 1.\<close>

definition parse_cidr :: "string \<Rightarrow> ipnet option" where
  "parse_cidr s =
     (if CHR ''/'' \<notin> set s then None
      else let addr = takeWhile (\<lambda>c. c \<noteq> CHR ''/'') s; mask = tl (dropWhile (\<lambda>c. c \<noteq> CHR ''/'') s);
               bits = (if is_v4_text addr then 32 else 128)
      in case parse_ip addr of
           None \<Rightarrow> None
         | Some a \<Rightarrow>
             if \<not> all_digits mask \<or> 16777215 \<le> dec_val mask \<or> bits < dec_val mask then None
             else let m = cidr_mask (dec_val mask) (bits div 8);
                      a' = (if bits = 32 then drop 12 a else a)
                  in Some (and_bytes a' m, m))"

text \<open>
  \<open>IPNet.Contains\<close>: an address with an IPv4 form is compared in that form, so it is in no network
  of 16 bytes unless that network is itself in the IPv4-mapped range; the network's own number is
  brought to 4 bytes when it is.
\<close>

definition net_number_mask :: "ipnet \<Rightarrow> (ip \<times> nat list) option" where
  "net_number_mask n =
     (let num = (case to4 (fst n) of Some f \<Rightarrow> f | None \<Rightarrow> fst n)
      in if length num \<noteq> 4 \<and> length num \<noteq> 16 then None
         else if length (snd n) = 4 then (if length num \<noteq> 4 then None else Some (num, snd n))
         else if length (snd n) = 16 then
           Some (num, if length num = 4 then drop 12 (snd n) else snd n)
         else None)"

definition net_contains :: "ipnet \<Rightarrow> ip \<Rightarrow> bool" where
  "net_contains n a =
     (let x = (case to4 a of Some f \<Rightarrow> f | None \<Rightarrow> a)
      in case net_number_mask n of
           None \<Rightarrow> x = []
         | Some (num, m) \<Rightarrow> length x = length num \<and> and_bytes num m = and_bytes x m)"

lemma length_and_bytes [simp]: "length (and_bytes a m) = min (length a) (length m)"
  by (simp add: and_bytes_def)

lemma and_bytes_idem [simp]: "and_bytes (and_bytes a m) m = and_bytes a m"
  by (rule nth_equalityI) (auto simp: and_bytes_def ac_simps)

lemma length_cidr_mask [simp]: "length (cidr_mask k n) = n"
  by (simp add: cidr_mask_def)

end
