(* ===== verification/Validate.thy ===== *)
theory Validate
  imports Regex Net
begin

text \<open>
  Query classification and validation: \<open>src/src/whois/validate.go\<close> and the query types and
  \<open>DetectQueryType\<close> of \<open>src/src/whois/whois.go\<close>. A Go \<open>error\<close> is a
  \<open>validation_error option\<close>, with \<open>None\<close> for \<open>nil\<close>.
\<close>

subsection \<open>Types\<close>

datatype query_type =
    QueryTypeDomain | QueryTypeIPv4 | QueryTypeIPv6 | QueryTypeASN | QueryTypeUnknown

fun query_type_string :: "query_type \<Rightarrow> string" where
  "query_type_string QueryTypeDomain = ''domain''"
| "query_type_string QueryTypeIPv4 = ''ipv4''"
| "query_type_string QueryTypeIPv6 = ''ipv6''"
| "query_type_string QueryTypeASN = ''asn''"
| "query_type_string QueryTypeUnknown = ''unknown''"

record validation_error =
  Field :: string
  Message :: string

definition verr :: "string \<Rightarrow> string \<Rightarrow> validation_error option" where
  "verr f m = Some \<lparr>Field = f, Message = m\<rparr>"

definition quoted :: "string \<Rightarrow> string" where
  "quoted s = CHR 0x27 # s @ [CHR 0x27]"

definition validation_error_text :: "validation_error \<Rightarrow> string" where
  "validation_error_text e = Field e @ '': '' @ Message e"

subsection \<open>The patterns\<close>

definition alnum :: "char \<Rightarrow> bool" where
  "alnum c \<longleftrightarrow> is_lower c \<or> is_digit c"

definition alnum_dash :: "char \<Rightarrow> bool" where
  "alnum_dash c \<longleftrightarrow> alnum c \<or> c = CHR ''-''"

definition domainLabelRegex :: rx where
  "domainLabelRegex = Cat (Cls alnum) (Opt (Cat (Star (Cls alnum_dash)) (Cls alnum)))"

definition domainRegex :: rx where
  "domainRegex = Cat domainLabelRegex (Star (Cat (lit ''.'') domainLabelRegex))"

definition asnRegex :: rx where
  "asnRegex = Cat (Opt (Or (lit ''AS'') (lit ''as''))) (Plus (Cls is_digit))"

subsection \<open>DetectQueryType\<close>

definition detect_query_type :: "string \<Rightarrow> query_type" where
  "detect_query_type q0 =
     (let q = trim_space q0
      in if rx_full asnRegex q then QueryTypeASN
         else if (case parse_ip q of None \<Rightarrow> False | Some a \<Rightarrow> to4 a \<noteq> None) then QueryTypeIPv4
         else if (case parse_ip q of None \<Rightarrow> False | Some a \<Rightarrow> to4 a = None) then QueryTypeIPv6
         else if rx_full domainRegex (to_lower q) then QueryTypeDomain
         else QueryTypeUnknown)"

subsection \<open>The validators\<close>

definition validate_domain_label :: "string \<Rightarrow> validation_error option" where
  "validate_domain_label label =
     (if label = [] then verr ''label'' ''label cannot be empty''
      else if 63 < length label then
        verr ''label'' (''label '' @ quoted label @ '' exceeds maximum length of 63 characters'')
      else if \<not> rx_full domainLabelRegex label then
        verr ''label'' (''invalid label format: '' @ quoted label)
      else None)"

text \<open>The loop over the labels returns the first error.\<close>

fun first_error :: "('a \<Rightarrow> validation_error option) \<Rightarrow> 'a list \<Rightarrow> validation_error option" where
  "first_error f [] = None"
| "first_error f (x # xs) = (case f x of Some e \<Rightarrow> Some e | None \<Rightarrow> first_error f xs)"

definition validate_domain :: "string \<Rightarrow> validation_error option" where
  "validate_domain d0 =
     (if d0 = [] then verr ''domain'' ''domain cannot be empty''
      else let d = to_lower d0
      in if 253 < length d then
           verr ''domain'' ''domain exceeds maximum length of 253 characters''
         else if \<not> rx_full domainRegex d then verr ''domain'' ''invalid domain format''
         else let labels = split_on CHR ''.'' d
         in if length labels < 2 then
              verr ''domain'' ''domain must have at least two labels (e.g., example.com)''
            else first_error validate_domain_label labels)"

definition validate_ipv4 :: "string \<Rightarrow> validation_error option" where
  "validate_ipv4 s =
     (if s = [] then verr ''ipv4'' ''IPv4 address cannot be empty''
      else case parse_ip s of
             None \<Rightarrow> verr ''ipv4'' ''invalid IP address format''
           | Some a \<Rightarrow> if to4 a = None then verr ''ipv4'' ''not a valid IPv4 address'' else None)"

definition validate_ipv6 :: "string \<Rightarrow> validation_error option" where
  "validate_ipv6 s =
     (if s = [] then verr ''ipv6'' ''IPv6 address cannot be empty''
      else case parse_ip s of
             None \<Rightarrow> verr ''ipv6'' ''invalid IP address format''
           | Some a \<Rightarrow> if to4 a \<noteq> None then verr ''ipv6'' ''not a valid IPv6 address'' else None)"

definition validate_asn :: "string \<Rightarrow> validation_error option" where
  "validate_asn s =
     (if s = [] then verr ''asn'' ''ASN cannot be empty''
      else case parse_uint 32 (trim_prefix (to_upper s) ''AS'') of
             None \<Rightarrow> verr ''asn'' ''ASN must be a valid number''
           | Some n \<Rightarrow>
               if n = 0 then verr ''asn'' ''ASN must be greater than 0''
               else if 4294967295 < n then verr ''asn'' ''ASN exceeds maximum value''
               else None)"

definition validate_query :: "string \<Rightarrow> validation_error option" where
  "validate_query q =
     (case detect_query_type q of
        QueryTypeDomain \<Rightarrow> validate_domain q
      | QueryTypeIPv4 \<Rightarrow> validate_ipv4 q
      | QueryTypeIPv6 \<Rightarrow> validate_ipv6 q
      | QueryTypeASN \<Rightarrow> validate_asn q
      | QueryTypeUnknown \<Rightarrow> verr ''query'' ''unable to determine query type'')"

lemmas validate_evals =
  str_evals rx_evals net_evals domainLabelRegex_def domainRegex_def asnRegex_def alnum_def
  alnum_dash_def detect_query_type_def validate_domain_label_def validate_domain_def
  validate_ipv4_def validate_ipv6_def validate_asn_def validate_query_def verr_def

subsection \<open>The languages of the patterns\<close>

definition label_ok :: "string \<Rightarrow> bool" where
  "label_ok s \<longleftrightarrow> s \<noteq> [] \<and> alnum (hd s) \<and> alnum (last s) \<and> list_all alnum_dash s"

lemma lang_cat_cls: "s \<in> lang (Cat a (Cls p)) \<longleftrightarrow> (\<exists>u c. s = u @ [c] \<and> p c \<and> u \<in> lang a)"
  unfolding lang.simps(1,3) mem_Collect_eq by blast

lemma label_lang: "s \<in> lang domainLabelRegex \<longleftrightarrow> label_ok s"
proof
  assume "s \<in> lang domainLabelRegex"
  then obtain c t where s: "s = c # t" "alnum c"
    and t: "t = [] \<or> (\<exists>u d. t = u @ [d] \<and> list_all alnum_dash u \<and> alnum d)"
    unfolding domainLabelRegex_def lang_cls_cat lang.simps(4) Un_iff lang_cat_cls lang_star_cls by auto
  then show "label_ok s"
    by (auto simp: label_ok_def alnum_dash_def)
next
  assume ok: "label_ok s"
  show "s \<in> lang domainLabelRegex"
  proof (cases s)
    case (Cons c t)
    show ?thesis
    proof (cases t rule: rev_cases)
      case Nil
      with Cons ok show ?thesis by (auto simp: domainLabelRegex_def label_ok_def)
    next
      case (snoc u d)
      with Cons ok show ?thesis
        unfolding domainLabelRegex_def lang_cls_cat lang.simps(4) Un_iff lang_cat_cls lang_star_cls
        by (auto simp: label_ok_def)
    qed
  qed (use ok in \<open>simp add: label_ok_def\<close>)
qed

lemma label_no_dot: "label_ok s \<Longrightarrow> CHR ''.'' \<notin> set s"
  by (auto simp: label_ok_def list_all_iff alnum_dash_def alnum_def is_lower_def is_digit_def)

lemma concat_dotted: "concat (map (\<lambda>l. c # l) ls) = (if ls = [] then [] else c # join [c] ls)"
  by (induction "[c]" ls rule: join.induct) auto

lemma lang_lit: "s \<in> lang (lit w) \<longleftrightarrow> s = w"
  by (induction w arbitrary: s) (auto simp: lit_def cats_def)

lemma lang_dotted_star:
  "t \<in> lang (Star (Cat (lit ''.'') domainLabelRegex)) \<longleftrightarrow>
   (\<exists>ls. t = concat (map (\<lambda>l. CHR ''.'' # l) ls) \<and> (\<forall>l\<in>set ls. label_ok l))"
proof
  assume "t \<in> lang (Star (Cat (lit ''.'') domainLabelRegex))"
  then obtain us where us: "t = concat us" "\<forall>u\<in>set us. \<exists>l. u = CHR ''.'' # l \<and> label_ok l"
    by (fastforce simp: lang.simps(5) lang_lit label_lang)
  then have "us = map (\<lambda>l. CHR ''.'' # l) (map tl us)" "\<forall>l\<in>set (map tl us). label_ok l"
    by (auto simp: map_idI intro!: map_idI [symmetric])
  then show "\<exists>ls. t = concat (map (\<lambda>l. CHR ''.'' # l) ls) \<and> (\<forall>l\<in>set ls. label_ok l)"
    using us(1) by metis
next
  assume "\<exists>ls. t = concat (map (\<lambda>l. CHR ''.'' # l) ls) \<and> (\<forall>l\<in>set ls. label_ok l)"
  then obtain ls where "t = concat (map (\<lambda>l. CHR ''.'' # l) ls)" "\<forall>l\<in>set ls. label_ok l" by blast
  then show "t \<in> lang (Star (Cat (lit ''.'') domainLabelRegex))"
    by (auto intro!: lang_starI simp: lang_lit label_lang)
qed

lemma domain_lang: "s \<in> lang domainRegex \<longleftrightarrow> (\<forall>l\<in>set (split_on CHR ''.'' s). label_ok l)"
proof
  assume "s \<in> lang domainRegex"
  then obtain l ls where ls: "s = l @ concat (map (\<lambda>l. CHR ''.'' # l) ls)" "\<forall>x\<in>set (l # ls). label_ok x"
    by (auto simp: domainRegex_def lang_dotted_star label_lang)
  have "s = join ''.'' (l # ls)" unfolding ls(1) concat_dotted by (cases ls) auto
  moreover have "split_on CHR ''.'' (join ''.'' (l # ls)) = l # ls"
    using ls(2) label_no_dot by (intro split_join) auto
  ultimately show "\<forall>l\<in>set (split_on CHR ''.'' s). label_ok l" using ls(2) by simp
next
  assume ok: "\<forall>l\<in>set (split_on CHR ''.'' s). label_ok l"
  obtain l ls where sp: "split_on CHR ''.'' s = l # ls" by (cases "split_on CHR ''.'' s") simp_all
  have "s = join ''.'' (l # ls)" using join_split [of "CHR ''.''" s] by (simp add: sp)
  also have "\<dots> = l @ concat (map (\<lambda>l. CHR ''.'' # l) ls)" unfolding concat_dotted by (cases ls) auto
  finally show "s \<in> lang domainRegex"
    using ok sp by (auto simp: domainRegex_def lang_dotted_star label_lang)
qed

lemma asn_lang:
  "s \<in> lang asnRegex \<longleftrightarrow> (\<exists>p d. s = p @ d \<and> p \<in> {'''', ''AS'', ''as''} \<and> all_digits d)"
proof -
  have d: "d \<in> lang (Plus (Cls is_digit)) \<longleftrightarrow> all_digits d" for d
    unfolding lang_cls_cat lang_star_cls by (cases d) (auto simp: all_digits_def)
  have p: "p \<in> lang (Opt (Or (lit ''AS'') (lit ''as''))) \<longleftrightarrow> p \<in> {'''', ''AS'', ''as''}" for p
    by (auto simp: lang_lit)
  show ?thesis
    unfolding asnRegex_def lang.simps(3) [of "Opt (Or (lit ''AS'') (lit ''as''))"]
    by (simp only: d p mem_Collect_eq)
qed

lemmas rx_lang = rx_full_lang label_lang domain_lang asn_lang

subsection \<open>What the validators accept\<close>

lemma verr_ne_None [simp]: "verr f m \<noteq> None" "None \<noteq> verr f m"
  by (simp_all add: verr_def)

lemma first_error_None [simp]: "first_error f xs = None \<longleftrightarrow> (\<forall>x\<in>set xs. f x = None)"
  by (induction xs) (auto split: option.splits)

lemma validate_domain_label_None:
  "validate_domain_label l = None \<longleftrightarrow> label_ok l \<and> length l \<le> 63"
  by (auto simp: validate_domain_label_def rx_lang label_ok_def)

lemma validate_domain_None:
  "validate_domain d = None \<longleftrightarrow>
     length d \<le> 253 \<and> 2 \<le> length (split_on CHR ''.'' (to_lower d)) \<and>
     (\<forall>l\<in>set (split_on CHR ''.'' (to_lower d)). label_ok l \<and> length l \<le> 63)"
  by (auto simp: validate_domain_def Let_def rx_lang validate_domain_label_None to_lower_def)

lemma parse_ip_Nil [simp]: "parse_ip [] = None"
  by (simp add: parse_ip_def)

lemma validate_ipv4_None: "validate_ipv4 s = None \<longleftrightarrow> (\<exists>a. parse_ip s = Some a \<and> to4 a \<noteq> None)"
  by (cases "s = []") (auto simp: validate_ipv4_def split: option.splits)

lemma validate_ipv6_None: "validate_ipv6 s = None \<longleftrightarrow> (\<exists>a. parse_ip s = Some a \<and> to4 a = None)"
  by (cases "s = []") (auto simp: validate_ipv6_def split: option.splits)

lemma validate_asn_None:
  "validate_asn s = None \<longleftrightarrow>
     (\<exists>n. parse_uint 32 (trim_prefix (to_upper s) ''AS'') = Some n \<and> 0 < n)"
proof (cases "s = []")
  case True
  then show ?thesis by (simp add: validate_asn_def to_upper_def trim_prefix_def has_prefix_def
        parse_uint_def all_digits_def)
next
  case False
  then show ?thesis
    by (auto simp: validate_asn_def split: option.splits dest: parse_uint_bound)
qed

lemmas validators_None =
  validate_domain_None validate_ipv4_None validate_ipv6_None validate_asn_None

lemma detect_trim [simp]: "detect_query_type (trim_space q) = detect_query_type q"
  by (simp add: detect_query_type_def)

lemma detect_ASN: "detect_query_type q = QueryTypeASN \<longleftrightarrow> rx_full asnRegex (trim_space q)"
  by (simp add: detect_query_type_def Let_def)

lemma detect_Unknown:
  "detect_query_type q = QueryTypeUnknown \<longleftrightarrow>
     \<not> rx_full asnRegex (trim_space q) \<and> parse_ip (trim_space q) = None \<and>
     \<not> rx_full domainRegex (to_lower (trim_space q))"
  by (auto simp: detect_query_type_def Let_def split: option.splits)

lemma detect_domain_regex:
  "detect_query_type q = QueryTypeDomain \<Longrightarrow> rx_full domainRegex (to_lower (trim_space q))"
  by (auto simp: detect_query_type_def Let_def split: if_splits)

subsection \<open>The bytes of an accepted query\<close>

text \<open>
  \<open>plain_char c\<close>: neither a space or control byte, nor one of the bytes that have a meaning
  in a URL, a header, HTML or a shell.
\<close>

definition plain_char :: "char \<Rightarrow> bool" where
  "plain_char c \<longleftrightarrow> 32 < byte c \<and> c \<notin> set ''%/?#@<>&;|='' \<and> byte c \<notin> {34, 39, 92, 96}"

lemma byte_eqI: "c = d \<Longrightarrow> byte c = byte d" by simp

lemma plain_digit: "is_digit c \<Longrightarrow> plain_char c"
  by (auto simp: is_digit_def plain_char_def)

lemma plain_upper: "is_upper c \<Longrightarrow> plain_char c"
  by (auto simp: is_upper_def plain_char_def)

lemma plain_alnum_dash: "alnum_dash c \<Longrightarrow> plain_char c"
  by (auto simp: alnum_dash_def alnum_def is_lower_def is_digit_def plain_char_def)

lemma plain_lowered: "plain_char (lower_char c) \<Longrightarrow> plain_char c"
  by (cases "is_upper c") (auto simp: plain_upper lower_char_def)

lemma plain_punct [simp]: "plain_char CHR ''.''" "plain_char CHR '':''"
  by (simp_all add: plain_char_def)

lemma plain_hex: "is_hex c \<Longrightarrow> plain_char c"
  by (auto simp: is_hex_def plain_digit) (auto simp: plain_char_def)

lemma plain_not_space: "plain_char c \<Longrightarrow> \<not> is_space c"
  by (auto simp: plain_char_def is_space_def)

lemma plain_split:
  assumes "\<forall>l\<in>set (split_on CHR ''.'' s). \<forall>c\<in>set l. plain_char c"
  shows "\<forall>c\<in>set s. plain_char c"
proof -
  have "set s \<subseteq> insert CHR ''.'' (\<Union>l\<in>set (split_on CHR ''.'' s). set l)"
  proof (induction s)
    case (Cons x xs)
    then show ?case by (cases "split_on CHR ''.'' xs") auto
  qed simp
  with assms show ?thesis by auto
qed

lemma plain_domain: "rx_full domainRegex (to_lower s) \<Longrightarrow> \<forall>c\<in>set s. plain_char c"
proof -
  assume "rx_full domainRegex (to_lower s)"
  then have "\<forall>c\<in>set (to_lower s). plain_char c"
    by (intro plain_split) (auto simp: rx_lang label_ok_def list_all_iff intro: plain_alnum_dash)
  then show ?thesis by (auto simp: to_lower_def intro: plain_lowered)
qed

lemma v4_plain: "parse_ipv4_fields s = Some f \<Longrightarrow> \<forall>c\<in>set s. plain_char c"
  unfolding parse_ipv4_fields_def using v4_loop_chars plain_digit by (metis plain_punct(1))

lemma v6_loop_plain:
  "v6_loop s ell acc = Some (acc', ell', []) \<Longrightarrow> \<forall>c\<in>set s. plain_char c"
proof (induction s ell acc rule: v6_loop.induct)
  case (1 s ell acc)
  define h where "h = takeWhile is_hex s"
  define r where "r = dropWhile is_hex s"
  have s: "s = h @ r" by (simp add: h_def r_def)
  have ph: "\<forall>c\<in>set h. plain_char c" by (auto simp: h_def dest: set_takeWhileD plain_hex)
  note eq = 1(3) [unfolded v6_loop.simps [of s ell acc] Let_def, folded h_def r_def]
  show ?case
  proof (cases "16 \<le> length acc")
    case True
    with eq show ?thesis by auto
  next
    case len: False
    then have nh: "\<not> (h = [] \<or> 4 < length h)" using eq by (auto split: if_splits)
    show ?thesis
    proof (cases "r \<noteq> [] \<and> hd r = CHR ''.''")
      case True
      then show ?thesis using eq len nh by (auto split: if_splits option.splits dest: v4_plain)
    next
      case dot: False
      show ?thesis
      proof (cases "r = []")
        case True
        then show ?thesis using s ph by simp
      next
        case False
        then obtain r' where r: "r = CHR '':'' # r'" using eq len nh dot by (cases r) (auto split: if_splits)
        show ?thesis
        proof (cases "r' \<noteq> [] \<and> hd r' = CHR '':''")
          case True
          then obtain r'' where r'': "r' = CHR '':'' # r''" by (cases r') auto
          have "\<forall>c\<in>set r''. plain_char c"
            using eq len nh dot r r'' 1(1) [OF len h_def r_def refl nh dot refl]
            by (auto split: if_splits)
          then show ?thesis using s ph r r'' by auto
        next
          case False
          have "\<forall>c\<in>set r'. plain_char c"
            using eq len nh dot r False 1(2) [OF len h_def r_def refl nh dot refl]
            by (auto split: if_splits)
          then show ?thesis using s ph r by auto
        qed
      qed
    qed
  qed
qed

lemma parse_ip_plain: "parse_ip s = Some a \<Longrightarrow> \<forall>c\<in>set s. plain_char c"
proof -
  assume a: "parse_ip s = Some a"
  then consider f where "parse_ipv4_fields s = Some f" | "parse_ipv6 s = Some a"
    by (auto simp: parse_ip_def split: option.splits if_splits)
  then show ?thesis
  proof cases
    case 1
    then show ?thesis by (rule v4_plain)
  next
    case 2
    have ds: "has_prefix s ''::'' \<Longrightarrow> s = ''::'' @ drop 2 s"
      by (metis append_take_drop_id has_prefix_def length_Cons list.size(3) numeral_2_eq_2)
    define s1 where "s1 = (if has_prefix s ''::'' then drop 2 s else s)"
    define e where "e = (if has_prefix s ''::'' then Some (0::nat) else None)"
    have "s1 = [] \<or> (\<exists>acc ell. v6_loop s1 e [] = Some (acc, ell, []))"
      using 2 by (auto simp: parse_ipv6_def Let_def s1_def e_def split: option.splits if_split_asm)
    then have "\<forall>c\<in>set s1. plain_char c" using v6_loop_plain by (metis empty_iff list.set(1))
    then have "\<forall>c\<in>set (if has_prefix s ''::'' then drop 2 s else s). plain_char c"
      by (simp only: s1_def)
    moreover have "has_prefix s ''::'' \<Longrightarrow> set s = set ''::'' \<union> set (drop 2 s)"
      using ds by (metis set_append)
    ultimately show ?thesis by (cases "has_prefix s ''::''") auto
  qed
qed

lemma asn_plain: "rx_full asnRegex s \<Longrightarrow> \<forall>c\<in>set s. plain_char c"
proof -
  assume "rx_full asnRegex s"
  then obtain p d where s: "s = p @ d" "p \<in> {'''', ''AS'', ''as''}" "all_digits d"
    by (auto simp: rx_lang)
  then have "\<forall>c\<in>set d. plain_char c" by (auto simp: all_digits_def list_all_iff plain_digit)
  moreover have "\<forall>c\<in>set p. plain_char c" using s(2) by (auto simp: plain_char_def)
  ultimately show ?thesis using s(1) by auto
qed

lemma parse_uint_plain: "parse_uint b s = Some n \<Longrightarrow> \<forall>c\<in>set s. plain_char c"
  by (auto simp: parse_uint_def all_digits_def list_all_iff plain_digit split: if_splits)

lemma plain_uppered: "plain_char (upper_char c) \<Longrightarrow> plain_char c"
proof (cases "is_lower c")
  case True
  then show ?thesis by (intro plain_alnum_dash) (simp add: alnum_dash_def alnum_def)
qed (simp add: upper_char_def)

lemma validate_asn_plain: "validate_asn q = None \<Longrightarrow> \<forall>c\<in>set q. plain_char c"
proof -
  assume "validate_asn q = None"
  then obtain n where n: "parse_uint 32 (trim_prefix (to_upper q) ''AS'') = Some n"
    by (auto simp: validate_asn_None)
  have t: "set (to_upper q) \<subseteq> set ''AS'' \<union> set (trim_prefix (to_upper q) ''AS'')"
    by (metis Un_upper2 append_take_drop_id has_prefix_def order_refl set_append trim_prefix_def)
  have "\<forall>c\<in>set ''AS''. plain_char c" by (simp add: plain_char_def)
  with t parse_uint_plain [OF n] have "\<forall>c\<in>set (to_upper q). plain_char c" by blast
  then show ?thesis by (auto simp: to_upper_def intro: plain_uppered)
qed

lemma accepted_query_plain: "validate_query q = None \<Longrightarrow> \<forall>c\<in>set q. plain_char c"
proof -
  assume v: "validate_query q = None"
  show ?thesis
  proof (cases "detect_query_type q")
    case QueryTypeDomain
    with v have "rx_full domainRegex (to_lower q)"
      by (auto simp: validate_query_def validate_domain_def Let_def split: if_splits)
    then show ?thesis by (rule plain_domain)
  next
    case QueryTypeASN
    with v show ?thesis by (intro validate_asn_plain) (simp add: validate_query_def)
  qed (use v parse_ip_plain in \<open>auto simp: validate_query_def validators_None\<close>)
qed

lemma validate_query_detect: "validate_query q = None \<Longrightarrow> detect_query_type q \<noteq> QueryTypeUnknown"
  by (auto simp: validate_query_def)

subsection \<open>Canonical queries are recognised\<close>

lemma digit_not_dot [simp]: "is_digit c \<Longrightarrow> c \<noteq> CHR ''.''"
  by (auto simp: is_digit_def)

lemma v4_loop_digit:
  "d < 10 \<Longrightarrow> dl \<noteq> 1 \<or> v \<noteq> 0 \<Longrightarrow> 10 * v + d \<le> 255 \<Longrightarrow>
   v4_loop dot v dl acc (digit_char d # s) = v4_loop False (10 * v + d) (Suc dl) acc s"
  by (auto simp: Let_def)

lemma v4_loop_itoa:
  assumes "n < 256"
  shows "v4_loop dot 0 0 acc (itoa_nat n @ s) = v4_loop False n (length (itoa_nat n)) acc s"
proof -
  consider "n < 10" | "10 \<le> n" "n < 100" | "100 \<le> n" by linarith
  then show ?thesis
  proof cases
    case 1
    then have "itoa_nat n = [digit_char n]" by (simp add: itoa_nat.simps [of n])
    with 1 show ?thesis by (simp add: v4_loop_digit del: v4_loop.simps)
  next
    case 2
    then have d: "n div 10 < 10" "n div 10 \<noteq> 0" by auto
    with 2 have "itoa_nat n = [digit_char (n div 10), digit_char (n mod 10)]"
      by (simp add: itoa_nat.simps [of n] itoa_nat.simps [of "n div 10"])
    with 2 d show ?thesis by (simp add: v4_loop_digit del: v4_loop.simps)
  next
    case 3
    define m where "m = n div 10"
    have d: "\<not> m < 10" "m div 10 < 10" "m div 10 \<noteq> 0" "\<not> n < 10" "m < 26"
      using 3 assms by (auto simp: m_def)
    then have "itoa_nat n = [digit_char (m div 10), digit_char (m mod 10), digit_char (n mod 10)]"
      by (simp add: itoa_nat.simps [of n] itoa_nat.simps [of m] itoa_nat.simps [of "m div 10"]
          m_def [symmetric])
    moreover have "10 * (m div 10) + m mod 10 = m" "10 * m + n mod 10 = n" by (simp_all add: m_def)
    ultimately show ?thesis using d assms by (simp add: v4_loop_digit del: v4_loop.simps)
  qed
qed

definition dotted :: "nat \<Rightarrow> nat \<Rightarrow> nat \<Rightarrow> nat \<Rightarrow> string" where
  "dotted a b c d = join ''.'' (map itoa_nat [a, b, c, d])"

lemma itoa_ne [simp]: "itoa_nat n \<noteq> []"
  by (subst itoa_nat.simps) simp

lemma itoa_digits: "c \<in> set (itoa_nat n) \<Longrightarrow> is_digit c"
  using all_digits_itoa [of n] by (auto simp: all_digits_def list_all_iff)

lemma is_digit_dot [simp]: "\<not> is_digit CHR ''.''"
  by (simp add: is_digit_def)

lemma parse_ipv4_dotted:
  "a < 256 \<Longrightarrow> b < 256 \<Longrightarrow> c < 256 \<Longrightarrow> d < 256 \<Longrightarrow>
   parse_ipv4_fields (dotted a b c d) = Some [a, b, c, d]"
  using v4_loop_itoa [of d False "[c, b, a]" "[]"]
  by (simp add: parse_ipv4_fields_def dotted_def v4_loop_itoa)
     (metis append_Nil2 append_self_conv2 v4_loop.simps(1) v4_loop_itoa)

lemma find_append_skip: "\<forall>x\<in>set xs. \<not> p x \<Longrightarrow> p y \<Longrightarrow> List.find p (xs @ y # ys) = Some y"
  by (induction xs) auto

lemma digit_not_mark: "is_digit c \<Longrightarrow> \<not> is_addr_mark c"
  by (auto simp: is_digit_def is_addr_mark_def)

lemma parse_ip_dotted:
  assumes "a < 256" "b < 256" "c < 256" "d < 256"
  shows "parse_ip (dotted a b c d) = Some (v4in6 @ [a, b, c, d])"
proof -
  have "List.find is_addr_mark (dotted a b c d) = Some CHR ''.''"
    unfolding dotted_def
    by (auto intro!: find_append_skip dest!: itoa_digits digit_not_mark simp: is_addr_mark_def)
  moreover have "CHR ''%'' \<notin> set (dotted a b c d)"
    by (auto simp: dotted_def is_digit_def dest!: itoa_digits)
  ultimately show ?thesis using assms by (simp add: parse_ip_def parse_ipv4_dotted)
qed

lemma dotted_clean [simp]: "trim_space (dotted a b c d) = dotted a b c d"
  by (intro trim_space_id) (auto simp: dotted_def is_space_def is_digit_def dest!: itoa_digits)

lemma dotted_not_asn: "\<not> rx_full asnRegex (dotted a b c d)"
proof -
  have "CHR ''.'' \<notin> set s" if "rx_full asnRegex s" for s
    using that by (auto simp: rx_lang all_digits_def list_all_iff) (metis is_digit_dot)+
  then show ?thesis by (force simp: dotted_def)
qed

lemma to_upper_digits: "all_digits s \<Longrightarrow> to_upper s = s"
  by (auto simp: to_upper_def all_digits_def list_all_iff upper_char_def is_lower_def is_digit_def
      intro!: map_idI)

lemma to_upper_as: "to_upper ''as'' = ''AS''"
  by code_simp

lemma asn_number_part:
  assumes "q = p @ d" "p \<in> {'''', ''AS'', ''as''}" "all_digits d"
  shows "trim_prefix (to_upper q) ''AS'' = d"
proof -
  have nA: "\<not> has_prefix d ''AS''"
    using assms(3) by (auto simp: has_prefix_iff is_digit_def all_digits_def)
  have up: "to_upper q = to_upper p @ d"
    using to_upper_digits [OF assms(3)] assms(1) by (simp add: to_upper_def)
  have "to_upper p \<in> {'''', ''AS''}"
    using assms(2) to_upper_as by (auto simp: to_upper_def upper_char_def is_lower_def)
  then show ?thesis
    using nA by (auto simp: up trim_prefix_def has_prefix_def)
qed

lemma asn_query_accepted:
  assumes "p \<in> {'''', ''AS'', ''as''}" "0 < n" "n < 2 ^ 32"
  shows "detect_query_type (p @ itoa_nat n) = QueryTypeASN \<and> validate_query (p @ itoa_nat n) = None"
proof -
  have rx: "rx_full asnRegex (p @ itoa_nat n)"
    unfolding rx_lang using assms(1) all_digits_itoa by blast
  have "trim_space (p @ itoa_nat n) = p @ itoa_nat n"
    using asn_plain [OF rx] by (intro trim_space_id) (auto dest: plain_not_space)
  with rx have det: "detect_query_type (p @ itoa_nat n) = QueryTypeASN" by (simp add: detect_ASN)
  have "validate_asn (p @ itoa_nat n) = None"
    using assms(2,3) asn_number_part [OF refl assms(1) all_digits_itoa]
    by (simp add: validate_asn_None parse_uint_itoa)
  with det show ?thesis by (simp add: validate_query_def)
qed

subsection \<open>Properties\<close>

text \<open>
  C2: every query that \<open>ValidateQuery\<close> accepts consists of plain bytes only: no space or control
  byte (so no line break to smuggle a second WHOIS command into the connection), and none of the
  bytes with a meaning in URLs, HTML, headers or a shell. Its type is known.
\<close>

theorem validate_query_safe:
  assumes "validate_query q = None"
  shows "(\<forall>c\<in>set q. plain_char c) \<and> detect_query_type q \<noteq> QueryTypeUnknown"
  using accepted_query_plain [OF assms] validate_query_detect [OF assms] by blast

theorem validate_query_safe_witness:
  "plain_char CHR ''-'' \<and> detect_query_type ''ab-1.de'' \<noteq> QueryTypeUnknown"
proof -
  have "validate_query ''ab-1.de'' = None" by (simp add: validate_evals)
  from validate_query_safe [OF this] show ?thesis by simp
qed

text \<open>
  \<open>ValidateDomain\<close> accepts exactly the names of at most 253 bytes with two or more labels, each
  of 1 to 63 letters, digits and hyphens that neither starts nor ends with a hyphen.
\<close>

theorem validate_domain_spec:
  "validate_domain d = None \<longleftrightarrow>
     length d \<le> 253 \<and> 2 \<le> length (split_on CHR ''.'' (to_lower d)) \<and>
     (\<forall>l\<in>set (split_on CHR ''.'' (to_lower d)).
        1 \<le> length l \<and> length l \<le> 63 \<and> alnum (hd l) \<and> alnum (last l) \<and> list_all alnum_dash l)"
proof -
  have "l \<noteq> [] \<longleftrightarrow> 1 \<le> length l" for l :: string by (cases l) auto
  then show ?thesis unfolding validate_domain_None label_ok_def by blast
qed

theorem validate_domain_spec_witness:
  "validate_domain ''A.b-c'' = None \<and> validate_domain ''a.-b'' \<noteq> None"
  using validate_domain_spec [of "''A.b-c''"] validate_domain_spec [of "''a.-b''"]
  by (simp add: validate_evals)

text \<open>
  what \<open>ValidateQuery\<close> decides on a query without surrounding white space: every address
  literal is accepted, an AS number when it is between 1 and 2^32 - 1, a name when it keeps the
  length limits and has two labels, and nothing else.
\<close>

theorem validate_query_spec:
  assumes "trim_space q = q"
  shows "validate_query q = None \<longleftrightarrow>
    (case detect_query_type q of
       QueryTypeIPv4 \<Rightarrow> True
     | QueryTypeIPv6 \<Rightarrow> True
     | QueryTypeASN \<Rightarrow> dec_val (trim_prefix (to_upper q) ''AS'') \<in> {1..<2 ^ 32}
     | QueryTypeDomain \<Rightarrow>
         length q \<le> 253 \<and> 2 \<le> length (split_on CHR ''.'' (to_lower q)) \<and>
         list_all (\<lambda>l. length l \<le> 63) (split_on CHR ''.'' (to_lower q))
     | QueryTypeUnknown \<Rightarrow> False)"
proof (cases "detect_query_type q")
  case QueryTypeDomain
  then have "rx_full domainRegex (to_lower q)"
    using detect_domain_regex [of q] assms by simp
  then show ?thesis
    using QueryTypeDomain by (auto simp: validate_query_def validate_domain_None rx_lang list_all_iff)
next
  case QueryTypeASN
  then have "rx_full asnRegex q" using assms by (simp add: detect_ASN)
  then obtain p d where s: "q = p @ d" "p \<in> {'''', ''AS'', ''as''}" "all_digits d"
    unfolding rx_lang by blast
  have "trim_prefix (to_upper q) ''AS'' = d"
    using s by (rule asn_number_part)
  then show ?thesis
    using QueryTypeASN s(3) by (auto simp: validate_query_def validate_asn_None parse_uint_def)
qed (use assms in \<open>auto simp: validate_query_def validators_None detect_query_type_def Let_def
       split: if_splits option.splits\<close>)

theorem validate_query_spec_witness:
  "validate_query ''AS15169'' = None \<and> validate_query ''AS0'' \<noteq> None \<and> validate_query ''com'' \<noteq> None"
  using validate_query_spec [of "''AS15169''"] validate_query_spec [of "''AS0''"]
    validate_query_spec [of "''com''"]
  by (simp add: validate_evals)

text \<open>
  every IPv4 address in dotted decimal notation is classified as an IPv4 query and accepted.
\<close>

theorem dotted_quad_is_ipv4:
  assumes "a < 256" "b < 256" "c < 256" "d < 256"
  shows "detect_query_type (dotted a b c d) = QueryTypeIPv4 \<and>
         validate_query (dotted a b c d) = None"
  using parse_ip_dotted [OF assms] dotted_not_asn
  by (simp add: detect_query_type_def validate_query_def validate_ipv4_None)

theorem dotted_quad_is_ipv4_witness:
  "detect_query_type (dotted 192 0 2 255) = QueryTypeIPv4 \<and> validate_query (dotted 192 0 2 255) = None"
  by (rule dotted_quad_is_ipv4) simp_all

text \<open>
  every AS number from 1 to 2^32 - 1, written in decimal with no prefix, \<open>AS\<close> or \<open>as\<close>, is
  classified as an AS query and accepted.
\<close>

theorem asn_query_valid:
  assumes "p \<in> {'''', ''AS'', ''as''}" "0 < n" "n < 2 ^ 32"
  shows "detect_query_type (p @ itoa_nat n) = QueryTypeASN \<and> validate_query (p @ itoa_nat n) = None"
  using assms by (rule asn_query_accepted)

theorem asn_query_valid_witness:
  "detect_query_type (''as'' @ itoa_nat 4294967295) = QueryTypeASN \<and>
   validate_query (''as'' @ itoa_nat 4294967295) = None"
  by (rule asn_query_valid) simp_all

text \<open>
  the two mixed-case prefixes are not recognised: \<open>ValidateASN\<close> accepts them, but the pattern
  of \<open>DetectQueryType\<close> does not, so such a query is taken for a one-label domain and refused.
\<close>

theorem mixed_case_asn_refused:
  "validate_asn ''As15169'' = None \<and> validate_asn ''aS15169'' = None \<and>
   detect_query_type ''As15169'' = QueryTypeDomain \<and> detect_query_type ''aS15169'' = QueryTypeDomain \<and>
   validate_query ''As15169'' \<noteq> None \<and> validate_query ''aS15169'' \<noteq> None"
  by (simp add: validate_evals)

end
