(* ===== verification/Servers.thy ===== *)
theory Servers
  imports Validate
begin

text \<open>
  WHOIS server selection: \<open>src/src/whois/servers.go\<close> and \<open>SelectServer\<close> of
  \<open>src/src/whois/whois.go\<close>. The maps are association lists in the order of the source.
\<close>

record server =
  Host :: string
  Port :: string

definition DefaultPort :: string where "DefaultPort = ''43''"

definition mk_server :: "string \<Rightarrow> server" where
  "mk_server h = \<lparr>Host = h, Port = DefaultPort\<rparr>"

definition IANAServer :: server where "IANAServer = mk_server ''whois.iana.org''"
definition ARINServer :: server where "ARINServer = mk_server ''whois.arin.net''"
definition RIPEServer :: server where "RIPEServer = mk_server ''whois.ripe.net''"
definition APNICServer :: server where "APNICServer = mk_server ''whois.apnic.net''"
definition LACNICServer :: server where "LACNICServer = mk_server ''whois.lacnic.net''"
definition AFRINICServer :: server where "AFRINICServer = mk_server ''whois.afrinic.net''"

definition tldServers :: "(string \<times> server) list" where
  "tldServers = map (\<lambda>(t, h). (t, mk_server h))
    [(''com'', ''whois.verisign-grs.com''), (''net'', ''whois.verisign-grs.com''),
     (''org'', ''whois.pir.org''), (''info'', ''whois.afilias.net''), (''biz'', ''whois.biz''),
     (''name'', ''whois.nic.name''), (''io'', ''whois.nic.io''), (''me'', ''whois.nic.me''),
     (''co'', ''whois.nic.co''), (''dev'', ''whois.nic.google''), (''app'', ''whois.nic.google''),
     (''uk'', ''whois.nic.uk''), (''de'', ''whois.denic.de''), (''fr'', ''whois.afnic.fr''),
     (''nl'', ''whois.domain-registry.nl''), (''au'', ''whois.auda.org.au''),
     (''ca'', ''whois.cira.ca''), (''jp'', ''whois.jprs.jp''), (''cn'', ''whois.cnnic.cn''),
     (''ru'', ''whois.tcinet.ru''), (''br'', ''whois.registro.br'')]"

text \<open>\<open>net.JoinHostPort\<close> brackets a host with a colon.\<close>

definition join_host_port :: "string \<Rightarrow> string \<Rightarrow> string" where
  "join_host_port h p =
     (if CHR '':'' \<in> set h then ''['' @ h @ '']:'' @ p else h @ '':'' @ p)"

definition address :: "server \<Rightarrow> string" where
  "address s = join_host_port (Host s) (Port s)"

definition get_tld_server :: "string \<Rightarrow> server option" where
  "get_tld_server tld = map_of tldServers (to_lower (trim_prefix tld ''.''))"

definition get_server_for_domain :: "string \<Rightarrow> server" where
  "get_server_for_domain d =
     (let parts = split_on CHR ''.'' d
      in if length parts < 2 then IANAServer
         else case get_tld_server (last parts) of Some s \<Rightarrow> s | None \<Rightarrow> IANAServer)"

definition arin_octets :: "nat list" where
  "arin_octets = [3, 4, 7, 8, 9, 11, 12, 13, 15, 16, 17, 18, 19, 20, 23, 24, 32, 33, 34, 35, 38, 40,
    44, 45, 47, 48, 50, 52, 53, 54, 63, 64, 65, 66, 67, 68, 69, 70, 71, 72, 73, 74, 75, 76, 96, 97,
    98, 99, 100, 104, 107, 108, 128, 129, 130, 131, 132, 134, 135, 136, 137, 138, 139, 140, 142, 143,
    144, 146, 147, 148, 149, 152, 155, 158, 159, 162, 164, 165, 166, 167, 168, 169, 170, 172, 173,
    174, 184, 192, 198, 199, 204, 205, 206, 207, 208, 209, 216]"

definition ripe_octets :: "nat list" where
  "ripe_octets = [2, 5, 25, 31, 37, 46, 51, 57, 62, 77, 78, 79, 80, 81, 82, 83, 84, 85, 86, 87, 88,
    89, 90, 91, 92, 93, 94, 95, 176, 178, 185, 188, 193, 194, 195, 212, 213, 217]"

definition apnic_octets :: "nat list" where
  "apnic_octets = [1, 14, 27, 36, 39, 42, 43, 49, 58, 59, 60, 61, 101, 103, 106, 110, 111, 112, 113,
    114, 115, 116, 117, 118, 119, 120, 121, 122, 123, 124, 125, 126, 150, 175, 180, 182, 183, 202,
    203, 210, 211, 218, 219, 220, 221, 222, 223]"

definition lacnic_octets :: "nat list" where
  "lacnic_octets = [177, 179, 181, 186, 187, 189, 190, 191, 200, 201]"

definition afrinic_octets :: "nat list" where
  "afrinic_octets = [41, 102, 105, 154, 156, 160, 161, 163, 196, 197]"

text \<open>The loops store one server per octet; a later store overwrites an earlier one.\<close>

definition set_octets :: "nat list \<Rightarrow> server \<Rightarrow> (nat \<times> server) list \<Rightarrow> (nat \<times> server) list" where
  "set_octets os s m = fold (\<lambda>oc. upd oc s) os m"

definition firstOctetRIR :: "(nat \<times> server) list" where
  "firstOctetRIR =
     set_octets afrinic_octets AFRINICServer
      (set_octets lacnic_octets LACNICServer
       (set_octets apnic_octets APNICServer
        (set_octets ripe_octets RIPEServer
         (set_octets arin_octets ARINServer []))))"

definition get_server_for_ip :: "string \<Rightarrow> server" where
  "get_server_for_ip s =
     (case parse_ip s of
        None \<Rightarrow> IANAServer
      | Some a \<Rightarrow>
          (case to4 a of
             None \<Rightarrow> IANAServer
           | Some a4 \<Rightarrow> (case map_of firstOctetRIR (a4 ! 0) of Some s \<Rightarrow> s | None \<Rightarrow> IANAServer)))"

definition get_server_for_asn :: "string \<Rightarrow> server" where
  "get_server_for_asn s = IANAServer"

definition get_all_rir_servers :: "server list" where
  "get_all_rir_servers = [ARINServer, RIPEServer, APNICServer, LACNICServer, AFRINICServer]"

definition select_server :: "query_type \<Rightarrow> string \<Rightarrow> string" where
  "select_server qt v =
     (case qt of
        QueryTypeDomain \<Rightarrow> address (get_server_for_domain v)
      | QueryTypeIPv4 \<Rightarrow> address (get_server_for_ip v)
      | QueryTypeIPv6 \<Rightarrow> address (get_server_for_ip v)
      | QueryTypeASN \<Rightarrow> address (get_server_for_asn v)
      | QueryTypeUnknown \<Rightarrow> '''')"

subsection \<open>The servers that can be contacted\<close>

definition known_servers :: "server list" where
  "known_servers = IANAServer # get_all_rir_servers @ map snd tldServers"

lemma map_of_set_octets:
  "map_of (set_octets os s m) k = (if k \<in> set os then Some s else map_of m k)"
  unfolding set_octets_def by (induction os arbitrary: m) auto

lemma map_of_firstOctetRIR:
  "map_of firstOctetRIR k =
     (if k \<in> set afrinic_octets then Some AFRINICServer
      else if k \<in> set lacnic_octets then Some LACNICServer
      else if k \<in> set apnic_octets then Some APNICServer
      else if k \<in> set ripe_octets then Some RIPEServer
      else if k \<in> set arin_octets then Some ARINServer else None)"
  by (simp add: firstOctetRIR_def map_of_set_octets)

lemma get_server_for_domain_known: "get_server_for_domain d \<in> set known_servers"
  by (auto simp: get_server_for_domain_def get_tld_server_def known_servers_def Let_def
      split: option.splits dest!: map_of_SomeD intro: rev_image_eqI)

lemma get_server_for_ip_known: "get_server_for_ip s \<in> set known_servers"
  by (auto simp: get_server_for_ip_def map_of_firstOctetRIR known_servers_def
      get_all_rir_servers_def split: option.splits if_split_asm)

lemma known_servers_address: "s \<in> set known_servers \<Longrightarrow> address s \<noteq> ''''"
  by (auto simp: address_def join_host_port_def)

lemma IANAServer_known: "IANAServer \<in> set known_servers"
  by (simp add: known_servers_def)

lemma select_server_known:
  "select_server qt v = '''' \<and> qt = QueryTypeUnknown \<or>
   qt \<noteq> QueryTypeUnknown \<and> (\<exists>s\<in>set known_servers. select_server qt v = address s)"
  using get_server_for_domain_known [of v] get_server_for_ip_known [of v] IANAServer_known
  by (cases qt) (auto simp: select_server_def get_server_for_asn_def)

lemma select_server_empty: "select_server qt v = '''' \<longleftrightarrow> qt = QueryTypeUnknown"
  using select_server_known [of qt v] known_servers_address by metis

text \<open>The five octet tables do not overlap, so the order of the loops does not matter.\<close>

lemma octets_disjoint:
  "distinct (arin_octets @ ripe_octets @ apnic_octets @ lacnic_octets @ afrinic_octets)"
  by (simp add: arin_octets_def ripe_octets_def apnic_octets_def lacnic_octets_def
      afrinic_octets_def)

lemma map_of_tldServers: "(t, s) \<in> set tldServers \<Longrightarrow> map_of tldServers t = Some s"
  by (intro map_of_is_SomeI) (simp_all add: tldServers_def)

lemma length_split_on: "length (split_on c s) = Suc (count_list s c)"
  by (induction s) (auto split: list.splits)

lemma last_split_on: "c \<notin> set l \<Longrightarrow> last (split_on c (x @ c # l)) = l"
proof (induction x)
  case (Cons a x)
  have "length (split_on c (x @ c # l)) = Suc (Suc (count_list x c + count_list l c))"
    by (simp add: length_split_on)
  with Cons show ?case by (auto split: list.splits)
qed (simp add: split_on_absent)

lemma tld_no_dot: "(t, s) \<in> set tldServers \<Longrightarrow> CHR ''.'' \<notin> set t"
  by (auto simp: tldServers_def)

lemma tld_no_dot_prefix: "CHR ''.'' \<notin> set l \<Longrightarrow> trim_prefix l ''.'' = l"
  by (auto simp: trim_prefix_def has_prefix_iff)

subsection \<open>Properties\<close>

text \<open>
  whatever the query, \<open>SelectServer\<close> only ever names one of the WHOIS servers of the source's
  tables: no text of the query reaches the address that is dialled. Exactly for a query of unknown
  type it names none.
\<close>

theorem select_server_fixed:
  "if qt = QueryTypeUnknown then select_server qt v = ''''
   else select_server qt v \<in> address ` set known_servers \<and> select_server qt v \<noteq> ''''"
  using select_server_known [of qt v] select_server_empty [of qt v] by auto

text \<open>
  the server for a domain is the one of the table under its last label, whatever the case of
  that label and the labels before it.
\<close>

theorem domain_server_by_tld:
  assumes "(t, s) \<in> set tldServers" "to_lower l = t"
  shows "get_server_for_domain (x @ ''.'' @ l) = s"
proof -
  have nd: "CHR ''.'' \<notin> set l"
  proof
    assume "CHR ''.'' \<in> set l"
    then have "lower_char CHR ''.'' \<in> set (to_lower l)" by (auto simp: to_lower_def)
    moreover have "lower_char CHR ''.'' = CHR ''.''" by (simp add: str_evals)
    ultimately show False using tld_no_dot [OF assms(1)] assms(2) by simp
  qed
  then have "last (split_on CHR ''.'' (x @ ''.'' @ l)) = l" by (simp add: last_split_on)
  moreover have "2 \<le> length (split_on CHR ''.'' (x @ ''.'' @ l))" by (simp add: length_split_on)
  moreover have "get_tld_server l = Some s"
    using assms nd by (simp add: get_tld_server_def tld_no_dot_prefix map_of_tldServers)
  ultimately show ?thesis by (simp add: get_server_for_domain_def Let_def)
qed

theorem domain_server_by_tld_witness:
  "get_server_for_domain (''www.example'' @ ''.'' @ ''UK'') = mk_server ''whois.nic.uk''"
  by (rule domain_server_by_tld [of "''uk''"]) (simp_all add: tldServers_def str_evals)

text \<open>
  the registry asked for an IPv4 address is decided by its first octet alone, and the five
  tables of octets do not overlap; an octet in none of them leads to IANA, and so does every IPv6
  address.
\<close>

theorem ip_server_by_octet:
  assumes "a < 256" "b < 256" "c < 256" "d < 256"
  shows "get_server_for_ip (dotted a b c d) =
      (if a \<in> set arin_octets then ARINServer
       else if a \<in> set ripe_octets then RIPEServer
       else if a \<in> set apnic_octets then APNICServer
       else if a \<in> set lacnic_octets then LACNICServer
       else if a \<in> set afrinic_octets then AFRINICServer else IANAServer) \<and>
    distinct (arin_octets @ ripe_octets @ apnic_octets @ lacnic_octets @ afrinic_octets) \<and>
    (detect_query_type v = QueryTypeIPv6 \<longrightarrow> get_server_for_ip (trim_space v) = IANAServer)"
proof (intro conjI impI)
  have "to4 (v4in6 @ [a, b, c, d]) = Some [a, b, c, d]"
    by (simp add: to4_def v4in6_def)
  then have "get_server_for_ip (dotted a b c d) =
      (case map_of firstOctetRIR a of Some s \<Rightarrow> s | None \<Rightarrow> IANAServer)"
    by (simp add: get_server_for_ip_def parse_ip_dotted [OF assms])
  then show "get_server_for_ip (dotted a b c d) =
      (if a \<in> set arin_octets then ARINServer
       else if a \<in> set ripe_octets then RIPEServer
       else if a \<in> set apnic_octets then APNICServer
       else if a \<in> set lacnic_octets then LACNICServer
       else if a \<in> set afrinic_octets then AFRINICServer else IANAServer)"
    using octets_disjoint by (auto simp: map_of_firstOctetRIR)
next
  assume "detect_query_type v = QueryTypeIPv6"
  then show "get_server_for_ip (trim_space v) = IANAServer"
    by (auto simp: detect_query_type_def get_server_for_ip_def Let_def split: if_splits option.splits)
qed (rule octets_disjoint)

theorem ip_server_by_octet_witness:
  "get_server_for_ip (dotted 193 0 6 139) = RIPEServer \<and>
   get_server_for_ip (dotted 127 0 0 1) = IANAServer"
  using ip_server_by_octet [of 193 0 6 139 "''::1''"] ip_server_by_octet [of 127 0 0 1 "''::1''"]
  by (simp add: arin_octets_def ripe_octets_def apnic_octets_def lacnic_octets_def afrinic_octets_def)

end
