(* ===== verification/CacheIface.thy ===== *)
theory CacheIface
  imports Prelude
begin

text \<open>
  The \<open>Cache\<close> interface of \<open>src/src/cache/cache.go\<close> as locales, with what its clients may
  rely on. \<open>view t c k\<close> is what a read of \<open>k\<close> at time \<open>t\<close> sees. Every backend is
  \<^emph>\<open>coherent\<close> (\<open>cache_iface\<close>): it may lose an entry at any moment, but never answers with
  anything but the value stored last. A backend that stores (\<open>storing_cache\<close>) moreover keeps a
  fresh entry until its time to live has passed.
\<close>

locale cache_iface =
  fixes get :: "time \<Rightarrow> string \<Rightarrow> 'c \<Rightarrow> string option \<times> 'c"
    and set_val :: "time \<Rightarrow> string \<Rightarrow> string \<Rightarrow> duration \<Rightarrow> 'c \<Rightarrow> 'c"
    and delete :: "string \<Rightarrow> 'c \<Rightarrow> 'c"
    and clear :: "'c \<Rightarrow> 'c"
    and exists :: "time \<Rightarrow> string \<Rightarrow> 'c \<Rightarrow> bool"
    and inv :: "'c \<Rightarrow> bool"
    and view :: "time \<Rightarrow> 'c \<Rightarrow> string \<Rightarrow> string option"
  assumes inv_get: "inv c \<Longrightarrow> inv (snd (get t k c))"
    and inv_set: "inv c \<Longrightarrow> inv (set_val t k v ttl c)"
    and inv_delete: "inv c \<Longrightarrow> inv (delete k c)"
    and inv_clear: "inv c \<Longrightarrow> inv (clear c)"
    and get_view: "inv c \<Longrightarrow> fst (get t k c) = view t c k"
    and exists_view: "inv c \<Longrightarrow> exists t k c \<longleftrightarrow> view t c k \<noteq> None"
    and view_get: "inv c \<Longrightarrow> view t' (snd (get t k c)) = view t' c"
    and view_set_same: "inv c \<Longrightarrow> view t' (set_val t k v ttl c) k \<in> {None, Some v}"
    and view_set_other: "inv c \<Longrightarrow> k' \<noteq> k \<Longrightarrow> view t' (set_val t k v ttl c) k' \<in> {None, view t' c k'}"
    and view_delete: "inv c \<Longrightarrow> view t' (delete k c) k' \<in> {None, if k' = k then None else view t' c k'}"
    and view_clear: "inv c \<Longrightarrow> view t' (clear c) k' = None"
    and view_later: "inv c \<Longrightarrow> t \<le> t' \<Longrightarrow> view t' c k \<in> {None, view t c k}"

locale storing_cache = cache_iface +
  assumes view_set_fresh:
      "inv c \<Longrightarrow> 0 < ttl \<Longrightarrow> t' \<le> t + ttl \<Longrightarrow> view t' (set_val t k v ttl c) k = Some v"
    and view_set_expired:
      "inv c \<Longrightarrow> 0 < ttl \<Longrightarrow> t + ttl < t' \<Longrightarrow> view t' (set_val t k v ttl c) k = None"

subsection \<open>Histories\<close>

datatype cache_op =
    OpGet string
  | OpSet string string duration
  | OpDelete string
  | OpClear

text \<open>What the operations up to now have stored under a key, however long ago.\<close>

fun stored :: "(time \<times> cache_op) list \<Rightarrow> string \<Rightarrow> string option" where
  "stored [] k = None"
| "stored ((t, OpGet k') # h) k = stored h k"
| "stored ((t, OpSet k' v ttl) # h) k = (if k = k' then Some v else stored h k)"
| "stored ((t, OpDelete k') # h) k = (if k = k' then None else stored h k)"
| "stored ((t, OpClear) # h) k = None"

context cache_iface
begin

text \<open>A run from the newest operation backwards.\<close>

fun apply_op :: "time \<Rightarrow> cache_op \<Rightarrow> 'c \<Rightarrow> 'c" where
  "apply_op t (OpGet k) c = snd (get t k c)"
| "apply_op t (OpSet k v ttl) c = set_val t k v ttl c"
| "apply_op t (OpDelete k) c = delete k c"
| "apply_op t OpClear c = clear c"

fun replay :: "(time \<times> cache_op) list \<Rightarrow> 'c \<Rightarrow> 'c" where
  "replay [] c = c"
| "replay ((t, op) # h) c = apply_op t op (replay h c)"

lemma inv_replay: "inv c \<Longrightarrow> inv (replay h c)"
proof (induction h c rule: replay.induct)
  case (2 t op h c)
  then show ?case by (cases op) (simp_all add: inv_get inv_set inv_delete inv_clear)
qed simp

text \<open>Coherence: a hit is the value stored last.\<close>

lemma replay_coherent:
  assumes "inv c" "\<And>t k. view t c k = None"
  shows "view t (replay h c) k \<in> {None, stored h k}"
  using assms(1)
proof (induction h k rule: stored.induct)
  case (1 k)
  then show ?case by (simp add: assms(2))
next
  case (2 t' k' h k)
  then show ?case by (simp add: view_get inv_replay)
next
  case (3 t' k' v ttl h k)
  have inv: "inv (replay h c)" using 3 by (simp add: inv_replay)
  show ?case
  proof (cases "k = k'")
    case True
    then show ?thesis using view_set_same [OF inv, of t t' k v ttl] by simp
  next
    case False
    then show ?thesis
      using view_set_other [OF inv, of k k' t t' v ttl] 3 by auto
  qed
next
  case (4 t' k' h k)
  have inv: "inv (replay h c)" using 4 by (simp add: inv_replay)
  show ?case using view_delete [OF inv, of t k' k] 4 by (auto split: if_split_asm)
next
  case (5 t' h k)
  then show ?case by (simp add: view_clear inv_replay)
qed

lemma get_coherent:
  "inv c \<Longrightarrow> (\<And>t k. view t c k = None) \<Longrightarrow> fst (get t k (replay h c)) = Some v \<Longrightarrow> stored h k = Some v"
  using replay_coherent [of c t h k] by (simp add: get_view inv_replay)

end

context storing_cache
begin

lemma get_set_fresh: "inv c \<Longrightarrow> 0 < ttl \<Longrightarrow> t' \<le> t + ttl \<Longrightarrow> fst (get t' k (set_val t k v ttl c)) = Some v"
  by (simp add: get_view inv_set view_set_fresh)

lemma exists_set_fresh: "inv c \<Longrightarrow> 0 < ttl \<Longrightarrow> t' \<le> t + ttl \<Longrightarrow> exists t' k (set_val t k v ttl c)"
  by (simp add: exists_view inv_set view_set_fresh)

lemma exists_set_expired: "inv c \<Longrightarrow> 0 < ttl \<Longrightarrow> t + ttl < t' \<Longrightarrow> \<not> exists t' k (set_val t k v ttl c)"
  by (simp add: exists_view inv_set view_set_expired)

text \<open>
  The pattern of the clients: a read of \<open>rk\<close> finds nothing of use, and a mark is stored under
  another key \<open>fk\<close>. While the mark is fresh it is there, and \<open>rk\<close> still has nothing of use.
\<close>

lemma mark_stays:
  assumes "inv c" "0 < ttl" "t2 \<le> ts + ttl" "rk \<noteq> fk" "t0 \<le> t1"
  shows "exists t2 fk (snd (get t1 rk (set_val ts fk v ttl (snd (get t0 rk c))))) \<and>
    fst (get t1 rk (set_val ts fk v ttl (snd (get t0 rk c)))) \<in> {None, fst (get t0 rk c)}"
proof
  let ?c1 = "snd (get t0 rk c)"
  let ?c2 = "set_val ts fk v ttl ?c1"
  have i: "inv ?c1" "inv ?c2" "inv (snd (get t1 rk ?c2))" using assms(1) by (simp_all add: inv_get inv_set)
  show "exists t2 fk (snd (get t1 rk ?c2))"
    using i view_set_fresh [OF i(1) assms(2,3), of fk v] by (simp add: exists_view view_get)
  have "view t1 ?c2 rk \<in> {None, view t1 c rk}"
    using view_set_other [OF i(1) assms(4), of t1 ts v ttl] assms(1) by (simp add: view_get)
  moreover have "view t1 c rk \<in> {None, view t0 c rk}" by (rule view_later [OF assms(1,5)])
  ultimately show "fst (get t1 rk ?c2) \<in> {None, fst (get t0 rk c)}"
    using assms(1) i by (auto simp: get_view)
qed

end

end
