(* ===== verification/Cache.thy ===== *)
theory Cache
  imports CacheIface Complex_Main "HOL-Library.Multiset"
begin

text \<open>
  The caches of \<open>src/src/cache\<close>: the in-memory cache (\<open>memory.go\<close>), the disabled cache
  (\<open>noop.go\<close>), the keys and times to live of \<open>cache.go\<close>, and the dispatch over them. A Go map
  is an association list with distinct keys; the order in which the runtime iterates over it is
  the field \<open>map_order\<close>, of which only that it is a permutation is known. Each operation
  reads the clock once and is atomic (the code holds the mutex). Sizes and counters are
  mathematical integers.
\<close>

subsection \<open>cache.go\<close>

record ttls =
  DomainTTL :: duration
  IPTTL :: duration
  ASNTTL :: duration
  FailureTTL :: duration

definition DefaultTTLs :: ttls where
  "DefaultTTLs = \<lparr>DomainTTL = 24 * hour, IPTTL = 7 * 24 * hour, ASNTTL = 7 * 24 * hour,
                   FailureTTL = 5 * minute\<rparr>"

record stats =
  Hits :: int
  Misses :: int
  Evictions :: int
  Size :: int
  Keys :: int
  HitRate :: rat
  Memory :: int
  AvgItemSize :: int
  Uptime :: duration

datatype err_not_found = ErrNotFound string

fun err_not_found_text :: "err_not_found \<Rightarrow> string" where
  "err_not_found_text (ErrNotFound k) = ''cache: key not found: '' @ k"

definition key_prefix :: "string \<Rightarrow> string \<Rightarrow> string" where
  "key_prefix p k = (if p = [] then k else p @ '':'' @ k)"

definition whois_key :: "string \<Rightarrow> string" where
  "whois_key q = ''whois:'' @ q"

definition whois_failure_key :: "string \<Rightarrow> string" where
  "whois_failure_key q = ''whois:failure:'' @ q"

subsection \<open>memory.go\<close>

record cache_item =
  item_value :: string
  expiration :: time

type_synonym items = "(string \<times> cache_item) list"

record memory_cache =
  items :: items
  hits :: int
  misses :: int
  evictions :: int
  startTime :: time
  maxSize :: int
  cleanupInt :: duration
  stopped :: bool
  map_order :: "time \<Rightarrow> items \<Rightarrow> items"

definition new_memory_cache ::
  "(time \<Rightarrow> items \<Rightarrow> items) \<Rightarrow> time \<Rightarrow> int \<Rightarrow> duration \<Rightarrow> memory_cache" where
  "new_memory_cache ord now mx ci =
     \<lparr>items = [], hits = 0, misses = 0, evictions = 0, startTime = now,
      maxSize = (if mx \<le> 0 then 100 * 1024 * 1024 else mx),
      cleanupInt = (if ci \<le> 0 then 5 * minute else ci),
      stopped = False, map_order = ord\<rparr>"

definition mc_get :: "time \<Rightarrow> string \<Rightarrow> memory_cache \<Rightarrow> (err_not_found + string) \<times> memory_cache" where
  "mc_get now k mc =
     (case map_of (items mc) k of
        None \<Rightarrow> (Inl (ErrNotFound k), mc\<lparr>misses := misses mc + 1\<rparr>)
      | Some it \<Rightarrow>
          if expiration it < now then (Inl (ErrNotFound k), mc\<lparr>misses := misses mc + 1\<rparr>)
          else (Inr (item_value it), mc\<lparr>hits := hits mc + 1\<rparr>))"

definition item_size :: "string \<times> cache_item \<Rightarrow> int" where
  "item_size e = int (length (fst e) + length (item_value (snd e)))"

definition current_size :: "items \<Rightarrow> int" where
  "current_size m = sum_list (map item_size m)"

text \<open>
  The loop of \<open>evictOldest\<close>: the first expired entry met is the victim; otherwise the entry
  with the earliest expiration (no victim when that entry's key is empty).
\<close>

fun evict_scan :: "time \<Rightarrow> string \<Rightarrow> time \<Rightarrow> items \<Rightarrow> string option" where
  "evict_scan now oldestKey oldestTime [] = (if oldestKey \<noteq> [] then Some oldestKey else None)"
| "evict_scan now oldestKey oldestTime ((k, it) # r) =
     (if expiration it < now then Some k
      else if oldestTime = 0 \<or> expiration it < oldestTime then evict_scan now k (expiration it) r
      else evict_scan now oldestKey oldestTime r)"

definition evict_oldest :: "time \<Rightarrow> memory_cache \<Rightarrow> memory_cache" where
  "evict_oldest now mc =
     (case evict_scan now [] 0 (map_order mc now (items mc)) of
        None \<Rightarrow> mc
      | Some k \<Rightarrow> mc\<lparr>items := del k (items mc), evictions := evictions mc + 1\<rparr>)"

definition mc_set :: "time \<Rightarrow> string \<Rightarrow> string \<Rightarrow> duration \<Rightarrow> memory_cache \<Rightarrow> memory_cache" where
  "mc_set now k v ttl0 mc =
     (let ttl = (if ttl0 \<le> 0 then hour else ttl0);
          newItemSize = int (length k + length v);
          mc1 = (if current_size (items mc) + newItemSize > maxSize mc then evict_oldest now mc else mc)
      in mc1\<lparr>items := upd k \<lparr>item_value = v, expiration = now + ttl\<rparr> (items mc1)\<rparr>)"

definition mc_delete :: "string \<Rightarrow> memory_cache \<Rightarrow> memory_cache" where
  "mc_delete k mc = mc\<lparr>items := del k (items mc)\<rparr>"

definition mc_clear :: "memory_cache \<Rightarrow> memory_cache" where
  "mc_clear mc = mc\<lparr>items := []\<rparr>"

definition mc_exists :: "time \<Rightarrow> string \<Rightarrow> memory_cache \<Rightarrow> bool" where
  "mc_exists now k mc =
     (case map_of (items mc) k of
        None \<Rightarrow> False
      | Some it \<Rightarrow> if expiration it < now then False else True)"

fun mc_get_multi_loop ::
  "time \<Rightarrow> string list \<Rightarrow> (string \<times> string) list \<Rightarrow> memory_cache \<Rightarrow> (string \<times> string) list \<times> memory_cache"
where
  "mc_get_multi_loop now [] res mc = (res, mc)"
| "mc_get_multi_loop now (k # ks) res mc =
     (case map_of (items mc) k of
        Some it \<Rightarrow>
          if now < expiration it
          then mc_get_multi_loop now ks (upd k (item_value it) res) (mc\<lparr>hits := hits mc + 1\<rparr>)
          else mc_get_multi_loop now ks res (mc\<lparr>misses := misses mc + 1\<rparr>)
      | None \<Rightarrow> mc_get_multi_loop now ks res (mc\<lparr>misses := misses mc + 1\<rparr>))"

definition mc_get_multi ::
  "time \<Rightarrow> string list \<Rightarrow> memory_cache \<Rightarrow> (string \<times> string) list \<times> memory_cache" where
  "mc_get_multi now ks mc = mc_get_multi_loop now ks [] mc"

definition mc_set_multi ::
  "time \<Rightarrow> (string \<times> string) list \<Rightarrow> duration \<Rightarrow> memory_cache \<Rightarrow> memory_cache" where
  "mc_set_multi now kvs ttl0 mc =
     (let ttl = (if ttl0 \<le> 0 then hour else ttl0); e = now + ttl
      in mc\<lparr>items := fold (\<lambda>(k, v). upd k \<lparr>item_value = v, expiration = e\<rparr>) kvs (items mc)\<rparr>)"

definition mc_stats :: "time \<Rightarrow> memory_cache \<Rightarrow> stats" where
  "mc_stats now mc =
     (let total = hits mc + misses mc;
          size = current_size (items mc);
          n = int (length (items mc))
      in \<lparr>Hits = hits mc, Misses = misses mc, Evictions = evictions mc, Size = size, Keys = n,
          HitRate = (if 0 < total then of_int (hits mc) / of_int total else 0),
          Memory = size, AvgItemSize = (if 0 < n then size div n else 0),
          Uptime = now - startTime mc\<rparr>)"

text \<open>Closing a closed channel panics: \<open>None\<close>.\<close>

definition mc_close :: "memory_cache \<Rightarrow> memory_cache option" where
  "mc_close mc = (if stopped mc then None else Some (mc\<lparr>stopped := True\<rparr>))"

definition mc_cleanup :: "time \<Rightarrow> memory_cache \<Rightarrow> memory_cache" where
  "mc_cleanup now mc =
     (let dead = filter (\<lambda>(k, it). expiration it < now) (items mc)
      in mc\<lparr>items := filter (\<lambda>(k, it). \<not> expiration it < now) (items mc),
             evictions := evictions mc + int (length dead)\<rparr>)"

text \<open>One round of \<open>cleanupLoop\<close>: a tick of the ticker, or the stop channel, after which it ends.\<close>

datatype loop_event = Tick time | Stopped

fun mc_cleanup_loop :: "loop_event list \<Rightarrow> memory_cache \<Rightarrow> memory_cache" where
  "mc_cleanup_loop [] mc = mc"
| "mc_cleanup_loop (Tick now # es) mc = mc_cleanup_loop es (mc_cleanup now mc)"
| "mc_cleanup_loop (Stopped # es) mc = mc"

subsection \<open>noop.go\<close>

record noop_cache =
  noop_start :: time

definition noop_get :: "time \<Rightarrow> string \<Rightarrow> noop_cache \<Rightarrow> (err_not_found + string) \<times> noop_cache" where
  "noop_get now k nc = (Inl (ErrNotFound k), nc)"

definition noop_set :: "time \<Rightarrow> string \<Rightarrow> string \<Rightarrow> duration \<Rightarrow> noop_cache \<Rightarrow> noop_cache" where
  "noop_set now k v ttl nc = nc"

definition noop_delete :: "string \<Rightarrow> noop_cache \<Rightarrow> noop_cache" where
  "noop_delete k nc = nc"

definition noop_clear :: "noop_cache \<Rightarrow> noop_cache" where
  "noop_clear nc = nc"

definition noop_exists :: "time \<Rightarrow> string \<Rightarrow> noop_cache \<Rightarrow> bool" where
  "noop_exists now k nc = False"

definition noop_get_multi ::
  "time \<Rightarrow> string list \<Rightarrow> noop_cache \<Rightarrow> (string \<times> string) list \<times> noop_cache" where
  "noop_get_multi now ks nc = ([], nc)"

definition noop_set_multi ::
  "time \<Rightarrow> (string \<times> string) list \<Rightarrow> duration \<Rightarrow> noop_cache \<Rightarrow> noop_cache" where
  "noop_set_multi now kvs ttl nc = nc"

definition noop_stats :: "time \<Rightarrow> noop_cache \<Rightarrow> stats" where
  "noop_stats now nc =
     \<lparr>Hits = 0, Misses = 0, Evictions = 0, Size = 0, Keys = 0, HitRate = 0, Memory = 0,
      AvgItemSize = 0, Uptime = now - noop_start nc\<rparr>"

subsection \<open>A value of the interface type\<close>

datatype any_cache = MemoryBackend memory_cache | NoopBackend noop_cache

fun cache_get :: "time \<Rightarrow> string \<Rightarrow> any_cache \<Rightarrow> (err_not_found + string) \<times> any_cache" where
  "cache_get now k (MemoryBackend mc) = map_prod id MemoryBackend (mc_get now k mc)"
| "cache_get now k (NoopBackend nc) = map_prod id NoopBackend (noop_get now k nc)"

fun cache_set :: "time \<Rightarrow> string \<Rightarrow> string \<Rightarrow> duration \<Rightarrow> any_cache \<Rightarrow> any_cache" where
  "cache_set now k v ttl (MemoryBackend mc) = MemoryBackend (mc_set now k v ttl mc)"
| "cache_set now k v ttl (NoopBackend nc) = NoopBackend (noop_set now k v ttl nc)"

fun cache_delete :: "string \<Rightarrow> any_cache \<Rightarrow> any_cache" where
  "cache_delete k (MemoryBackend mc) = MemoryBackend (mc_delete k mc)"
| "cache_delete k (NoopBackend nc) = NoopBackend (noop_delete k nc)"

fun cache_clear :: "any_cache \<Rightarrow> any_cache" where
  "cache_clear (MemoryBackend mc) = MemoryBackend (mc_clear mc)"
| "cache_clear (NoopBackend nc) = NoopBackend (noop_clear nc)"

fun cache_exists :: "time \<Rightarrow> string \<Rightarrow> any_cache \<Rightarrow> bool" where
  "cache_exists now k (MemoryBackend mc) = mc_exists now k mc"
| "cache_exists now k (NoopBackend nc) = noop_exists now k nc"

subsection \<open>Invariant and view of the in-memory cache\<close>

definition mc_inv :: "memory_cache \<Rightarrow> bool" where
  "mc_inv mc \<longleftrightarrow> distinct (keys (items mc)) \<and> (\<forall>t m. mset (map_order mc t m) = mset m)"

definition mc_view :: "time \<Rightarrow> memory_cache \<Rightarrow> string \<Rightarrow> string option" where
  "mc_view t mc k =
     (case map_of (items mc) k of
        None \<Rightarrow> None
      | Some it \<Rightarrow> if expiration it < t then None else Some (item_value it))"

definition ok_of :: "'e + 'a \<Rightarrow> 'a option" where
  "ok_of r = (case r of Inl _ \<Rightarrow> None | Inr x \<Rightarrow> Some x)"

lemma ok_of_simps [simp]: "ok_of (Inl e) = None" "ok_of (Inr x) = Some x"
  by (simp_all add: ok_of_def)

lemma mc_inv_new [wf_intros]:
  "(\<And>t m. mset (ord t m) = mset m) \<Longrightarrow> mc_inv (new_memory_cache ord now mx ci)"
  by (simp add: mc_inv_def new_memory_cache_def)

lemma mc_get_eq:
  "fst (mc_get t k mc) = (case mc_view t mc k of None \<Rightarrow> Inl (ErrNotFound k) | Some v \<Rightarrow> Inr v)"
  "items (snd (mc_get t k mc)) = items mc"
  "map_order (snd (mc_get t k mc)) = map_order mc"
  by (auto simp: mc_get_def mc_view_def split: option.splits)

lemma mc_exists_eq: "mc_exists t k mc \<longleftrightarrow> mc_view t mc k \<noteq> None"
  by (auto simp: mc_exists_def mc_view_def split: option.splits)

lemma mc_view_cong: "items mc = items mc' \<Longrightarrow> mc_view t mc k = mc_view t mc' k"
  by (simp add: mc_view_def)

lemma evict_oldest_frame [simp]:
  "map_order (evict_oldest now mc) = map_order mc" "maxSize (evict_oldest now mc) = maxSize mc"
  by (auto simp: evict_oldest_def split: option.splits)

lemma evict_oldest_items:
  "items (evict_oldest now mc) = items mc \<or> (\<exists>k. items (evict_oldest now mc) = del k (items mc))"
  by (auto simp: evict_oldest_def split: option.splits)

lemma mc_inv_evict [wf_intros]: "mc_inv mc \<Longrightarrow> mc_inv (evict_oldest now mc)"
  using evict_oldest_items [of now mc] by (auto simp: mc_inv_def intro: wf_intros)

lemma mc_set_parts:
  obtains mc1 where "mc1 = mc \<or> mc1 = evict_oldest now mc"
    "mc_set now k v ttl mc =
       mc1\<lparr>items := upd k \<lparr>item_value = v, expiration = now + (if ttl \<le> 0 then hour else ttl)\<rparr> (items mc1)\<rparr>"
proof -
  define mc1 where "mc1 = (if current_size (items mc) + int (length k + length v) > maxSize mc
                           then evict_oldest now mc else mc)"
  show ?thesis
    by (rule that [of mc1]) (auto simp: mc_set_def Let_def mc1_def)
qed

lemma mc_inv_get [wf_intros]: "mc_inv mc \<Longrightarrow> mc_inv (snd (mc_get t k mc))"
  by (simp add: mc_inv_def mc_get_eq)

lemma mc_inv_set [wf_intros]: "mc_inv mc \<Longrightarrow> mc_inv (mc_set t k v ttl mc)"
proof -
  assume inv: "mc_inv mc"
  obtain mc1 where mc1: "mc1 = mc \<or> mc1 = evict_oldest t mc"
    and eq: "mc_set t k v ttl mc = mc1\<lparr>items := upd k \<lparr>item_value = v,
               expiration = t + (if ttl \<le> 0 then hour else ttl)\<rparr> (items mc1)\<rparr>"
    by (rule mc_set_parts)
  have "mc_inv mc1" using mc1 inv mc_inv_evict by blast
  then show ?thesis by (simp add: eq mc_inv_def wf_intros)
qed

lemma mc_inv_delete [wf_intros]: "mc_inv mc \<Longrightarrow> mc_inv (mc_delete k mc)"
  by (simp add: mc_inv_def mc_delete_def wf_intros)

lemma mc_inv_clear [wf_intros]: "mc_inv mc \<Longrightarrow> mc_inv (mc_clear mc)"
  by (simp add: mc_inv_def mc_clear_def)

lemma mc_inv_cleanup [wf_intros]: "mc_inv mc \<Longrightarrow> mc_inv (mc_cleanup t mc)"
  by (simp add: mc_inv_def mc_cleanup_def Let_def wf_intros)

lemma distinct_fold_upd: "distinct (keys m) \<Longrightarrow> distinct (keys (fold (\<lambda>(k, v). upd k (f v)) kvs m))"
  by (induction kvs arbitrary: m) (auto intro: distinct_upd)

lemma mc_inv_set_multi [wf_intros]: "mc_inv mc \<Longrightarrow> mc_inv (mc_set_multi t kvs ttl mc)"
  by (simp add: mc_inv_def mc_set_multi_def Let_def distinct_fold_upd)

lemma mc_view_evict: "mc_view t (evict_oldest now mc) k \<in> {None, mc_view t mc k}"
  using evict_oldest_items [of now mc] by (auto simp: mc_view_def)

lemma mc_view_set_same:
  "mc_view t' (mc_set t k v ttl mc) k =
     (if t + (if ttl \<le> 0 then hour else ttl) < t' then None else Some v)"
  by (rule mc_set_parts [of mc t k v ttl]) (simp add: mc_view_def)

lemma mc_view_set_other:
  assumes "k' \<noteq> k"
  shows "mc_view t' (mc_set t k v ttl mc) k' \<in> {None, mc_view t' mc k'}"
proof (rule mc_set_parts [of mc t k v ttl])
  fix mc1
  assume mc1: "mc1 = mc \<or> mc1 = evict_oldest t mc"
    and eq: "mc_set t k v ttl mc = mc1\<lparr>items := upd k \<lparr>item_value = v,
               expiration = t + (if ttl \<le> 0 then hour else ttl)\<rparr> (items mc1)\<rparr>"
  have "mc_view t' (mc_set t k v ttl mc) k' = mc_view t' mc1 k'"
    using assms by (simp add: eq mc_view_def)
  then show ?thesis using mc1 mc_view_evict [of t' t mc k'] by auto
qed

text \<open>A write that fits leaves every other entry alone.\<close>

lemma mc_view_set_fits:
  assumes "k' \<noteq> k" "current_size (items mc) + int (length k + length v) \<le> maxSize mc"
  shows "mc_view t' (mc_set t k v ttl mc) k' = mc_view t' mc k'"
  using assms by (simp add: mc_set_def mc_view_def Let_def)

lemma mc_view_delete: "mc_view t (mc_delete k mc) k' = (if k' = k then None else mc_view t mc k')"
  by (simp add: mc_view_def mc_delete_def)

lemma mc_view_clear [simp]: "mc_view t (mc_clear mc) k = None"
  by (simp add: mc_view_def mc_clear_def)

lemma mc_view_later: "t \<le> t' \<Longrightarrow> mc_view t' mc k \<in> {None, mc_view t mc k}"
  by (auto simp: mc_view_def split: option.splits)

interpretation mem: storing_cache
  "\<lambda>t k c. apfst ok_of (mc_get t k c)" mc_set mc_delete mc_clear mc_exists mc_inv mc_view
proof (unfold_locales, goal_cases)
  case (5 c t k)
  then show ?case by (simp add: mc_get_eq split: option.splits)
next
  case (7 c t' t k)
  then show ?case by (intro ext) (simp add: mc_view_def mc_get_eq)
next
  case (9 c k' k t' t v ttl)
  then show ?case using mc_view_set_other by blast
next
  case (12 c t t' k)
  then show ?case using mc_view_later by blast
qed (auto intro: wf_intros simp: mc_exists_eq mc_view_set_same mc_view_delete)

interpretation noop: cache_iface
  "\<lambda>t k c. apfst ok_of (noop_get t k c)" noop_set noop_delete noop_clear noop_exists
  "\<lambda>_. True" "\<lambda>_ _ _. None"
  by unfold_locales (simp_all add: noop_get_def noop_exists_def)

fun cache_inv :: "any_cache \<Rightarrow> bool" where
  "cache_inv (MemoryBackend mc) \<longleftrightarrow> mc_inv mc"
| "cache_inv (NoopBackend nc) \<longleftrightarrow> True"

fun cache_view :: "time \<Rightarrow> any_cache \<Rightarrow> string \<Rightarrow> string option" where
  "cache_view t (MemoryBackend mc) k = mc_view t mc k"
| "cache_view t (NoopBackend nc) k = None"

lemma cache_view_set_cases:
  "k' \<noteq> k \<Longrightarrow> cache_view t' (cache_set t k v ttl c) k' \<in> {None, cache_view t' c k'}"
  using mc_view_set_other by (cases c) (auto simp: noop_set_def)

interpretation any: cache_iface
  "\<lambda>t k c. apfst ok_of (cache_get t k c)" cache_set cache_delete cache_clear cache_exists
  cache_inv cache_view
proof (unfold_locales, goal_cases)
  case (1 c t k)
  then show ?case using mem.inv_get by (cases c) (auto simp: noop_get_def)
next
  case (2 c t k v ttl)
  then show ?case using mem.inv_set by (cases c) auto
next
  case (3 c k)
  then show ?case using mem.inv_delete by (cases c) auto
next
  case (4 c)
  then show ?case using mem.inv_clear by (cases c) auto
next
  case (5 c t k)
  then show ?case using mem.get_view by (cases c) (auto simp: noop_get_def)
next
  case (6 c t k)
  then show ?case using mem.exists_view by (cases c) (auto simp: noop_exists_def)
next
  case (7 c t' t k)
  then show ?case using mem.view_get by (cases c) (auto simp: noop_get_def)
next
  case (8 c t' t k v ttl)
  then show ?case using mem.view_set_same by (cases c) auto
next
  case (9 c k' k t' t v ttl)
  then show ?case by (intro cache_view_set_cases)
next
  case (10 c t' k k')
  then show ?case by (cases c) (auto simp: mc_view_delete noop_delete_def)
next
  case (11 c t' k')
  then show ?case by (cases c) auto
next
  case (12 c t t' k)
  then show ?case using mc_view_later by (cases c) auto
qed

subsection \<open>Eviction\<close>

definition evictable :: "items \<Rightarrow> bool" where
  "evictable m \<longleftrightarrow> (\<forall>(k, it)\<in>set m. k \<noteq> [] \<and> 0 < expiration it)"

lemma evict_scan_expired:
  "\<exists>(k, it)\<in>set m. expiration it < now \<Longrightarrow>
   \<exists>k it. evict_scan now ok ot m = Some k \<and> (k, it) \<in> set m \<and> expiration it < now"
  by (induction now ok ot m rule: evict_scan.induct) auto

lemma evict_scan_earliest:
  "\<forall>(k, it)\<in>set m. now \<le> expiration it \<Longrightarrow> evictable m \<Longrightarrow> (ok = [] \<longleftrightarrow> ot = 0) \<Longrightarrow> 0 \<le> ot \<Longrightarrow>
   (m = [] \<and> evict_scan now ok ot m = (if ok = [] then None else Some ok)) \<or>
   (ok \<noteq> [] \<and> evict_scan now ok ot m = Some ok \<and> (\<forall>(k, it)\<in>set m. ot \<le> expiration it)) \<or>
   (\<exists>k it. evict_scan now ok ot m = Some k \<and> (k, it) \<in> set m \<and> (ok \<noteq> [] \<longrightarrow> expiration it < ot) \<and>
           (\<forall>(k', it')\<in>set m. expiration it \<le> expiration it'))"
proof (induction now ok ot m rule: evict_scan.induct)
  case (1 now ok ot)
  then show ?case by simp
next
  case (2 now ok ot k it r)
  then have pos: "k \<noteq> []" "0 < expiration it" "\<not> expiration it < now"
    and r: "\<forall>(k, it)\<in>set r. now \<le> expiration it" "evictable r"
    by (auto simp: evictable_def)
  show ?case
  proof (cases "ot = 0 \<or> expiration it < ot")
    case True
    then show ?thesis using 2(1) [OF pos(3) True r] 2(5) pos by (auto 4 4)
  next
    case False
    then show ?thesis using 2(2) [OF pos(3) False r] 2(5,6) pos by (auto 4 4)
  qed
qed

text \<open>The victim: an expired entry when there is one, otherwise one that expires first.\<close>

lemma evict_scan_victim:
  assumes "m \<noteq> []" "evictable m"
  shows "\<exists>k it. evict_scan now [] 0 m = Some k \<and> (k, it) \<in> set m \<and>
          (expiration it < now \<or> (\<forall>(k', it')\<in>set m. now \<le> expiration it' \<and> expiration it \<le> expiration it'))"
proof (cases "\<exists>(k, it)\<in>set m. expiration it < now")
  case True
  then show ?thesis using evict_scan_expired [of m now "[]" 0] by blast
next
  case False
  then have later: "\<forall>(k, it)\<in>set m. now \<le> expiration it" by (auto simp: not_less)
  with evict_scan_earliest [of m now "[]" 0] assms obtain k it
    where "evict_scan now [] 0 m = Some k" "(k, it) \<in> set m"
      "\<forall>(k', it')\<in>set m. expiration it \<le> expiration it'"
    by blast
  then show ?thesis using later by (intro exI [of _ k] exI [of _ it]) auto
qed

lemma current_size_del:
  "distinct (keys m) \<Longrightarrow> (k, it) \<in> set m \<Longrightarrow> current_size (del k m) = current_size m - item_size (k, it)"
proof (induction m)
  case (Cons a m)
  obtain k' it' where a: "a = (k', it')" by (cases a)
  show ?case
  proof (cases "k' = k")
    case True
    have no: "k \<notin> set (keys m)" using Cons.prems(1) a True by simp
    then have m: "filter (\<lambda>(k', v). k' \<noteq> k) m = m"
      by (intro filter_True) (auto simp: image_iff)
    have "it = it'" using Cons.prems(2) a True no by (auto simp: image_iff)
    then show ?thesis using a True m by (simp add: del_def current_size_def)
  next
    case False
    then show ?thesis using Cons a by (auto simp: del_def current_size_def)
  qed
qed simp

lemma item_size_nonneg: "0 \<le> item_size e"
  by (simp add: item_size_def)

lemma current_size_del_le: "current_size (del k m) \<le> current_size m"
  by (induction m) (auto simp: del_def current_size_def item_size_nonneg add_increasing)

lemma current_size_upd_le: "current_size (upd k it m) \<le> current_size m + item_size (k, it)"
  by (induction k it m rule: upd.induct) (auto simp: current_size_def item_size_nonneg)

lemma current_size_evict_le: "current_size (items (evict_oldest now mc)) \<le> current_size (items mc)"
  using evict_oldest_items [of now mc] current_size_del_le by auto

lemma current_size_set_le:
  "current_size (items (mc_set t k v ttl mc)) \<le> current_size (items mc) + int (length k + length v)"
proof -
  obtain mc1 where mc1: "mc1 = mc \<or> mc1 = evict_oldest t mc"
    and eq: "mc_set t k v ttl mc = mc1\<lparr>items := upd k \<lparr>item_value = v,
               expiration = t + (if ttl \<le> 0 then hour else ttl)\<rparr> (items mc1)\<rparr>"
    by (rule mc_set_parts)
  have "current_size (items mc1) \<le> current_size (items mc)"
    using mc1 current_size_evict_le by auto
  then show ?thesis
    using current_size_upd_le [of k "\<lparr>item_value = v,
      expiration = t + (if ttl \<le> 0 then hour else ttl)\<rparr>" "items mc1"]
    by (simp add: eq item_size_def del: split_paired_All split: if_split_asm)
qed

subsection \<open>Statistics and clean-up\<close>

lemma mc_get_counts:
  "hits (snd (mc_get t k mc)) + misses (snd (mc_get t k mc)) = hits mc + misses mc + 1"
  by (simp add: mc_get_def split: option.splits)

lemma mc_get_multi_loop_frame:
  "items (snd (mc_get_multi_loop now ks res mc)) = items mc \<and>
   hits (snd (mc_get_multi_loop now ks res mc)) + misses (snd (mc_get_multi_loop now ks res mc)) =
     hits mc + misses mc + int (length ks)"
  by (induction now ks res mc rule: mc_get_multi_loop.induct) (auto split: option.splits)

lemma mc_get_multi_loop_val:
  "map_of (fst (mc_get_multi_loop now ks res mc)) k =
     (if k \<in> set ks \<and> (\<exists>it. map_of (items mc) k = Some it \<and> now < expiration it)
      then map_option item_value (map_of (items mc) k) else map_of res k)"
proof (induction now ks res mc rule: mc_get_multi_loop.induct)
  case (2 now k0 ks res mc)
  then show ?case by (cases "map_of (items mc) k0") auto
qed simp

text \<open>
  \<open>GetMulti\<close> finds what \<open>Get\<close> finds, except for an entry that expires at this very instant:
  one compares with \<open>now.Before\<close>, the other with \<open>now.After\<close>.
\<close>

lemma mc_get_multi_view:
  assumes "k \<in> set ks" "\<And>it. map_of (items mc) k = Some it \<Longrightarrow> expiration it \<noteq> now"
  shows "map_of (fst (mc_get_multi now ks mc)) k = mc_view now mc k"
  using assms(1) assms(2) [of "the (map_of (items mc) k)"]
  by (auto simp: mc_get_multi_def mc_get_multi_loop_val mc_view_def split: option.splits)

lemma mc_cleanup_view: "mc_inv mc \<Longrightarrow> now \<le> t \<Longrightarrow> mc_view t (mc_cleanup now mc) k = mc_view t mc k"
  by (auto simp: mc_cleanup_def Let_def mc_view_def mc_inv_def map_of_filter_keys split: option.splits)

lemma mc_cleanup_live: "(k, it) \<in> set (items (mc_cleanup now mc)) \<Longrightarrow> now \<le> expiration it"
  by (auto simp: mc_cleanup_def Let_def)

lemma mc_cleanup_evictions:
  "evictions (mc_cleanup now mc) + int (length (items (mc_cleanup now mc))) =
   evictions mc + int (length (items mc))"
  using sum_length_filter_compl [of "\<lambda>(k, it). expiration it < now" "items mc"]
  by (simp add: mc_cleanup_def Let_def case_prod_unfold)

lemmas cache_evals =
  mc_get_def mc_set_def mc_exists_def mc_delete_def mc_clear_def evict_oldest_def current_size_def
  item_size_def del_def new_memory_cache_def mc_view_def Let_def

subsection \<open>Runs of a cache\<close>

fun cache_apply :: "time \<Rightarrow> cache_op \<Rightarrow> any_cache \<Rightarrow> any_cache" where
  "cache_apply t (OpGet k) c = snd (cache_get t k c)"
| "cache_apply t (OpSet k v ttl) c = cache_set t k v ttl c"
| "cache_apply t (OpDelete k) c = cache_delete k c"
| "cache_apply t OpClear c = cache_clear c"

definition cache_run :: "(time \<times> cache_op) list \<Rightarrow> any_cache \<Rightarrow> any_cache" where
  "cache_run h c = fold (\<lambda>(t, op). cache_apply t op) h c"

lemma cache_apply_any: "cache_apply t op c = any.apply_op t op c"
  by (cases op) simp_all

lemma cache_run_replay: "cache_run h c = any.replay (rev h) c"
proof (induction h arbitrary: c rule: rev_induct)
  case (snoc e h)
  obtain t op where e: "e = (t, op)" by (cases e)
  have "cache_run (h @ [e]) c = cache_apply t op (cache_run h c)"
    by (simp add: cache_run_def e)
  then show ?case by (simp add: snoc e cache_apply_any)
qed (simp add: cache_run_def)

lemma cache_inv_run: "cache_inv c \<Longrightarrow> cache_inv (cache_run h c)"
  by (simp add: cache_run_replay any.inv_replay)

lemma ok_of_Some: "ok_of r = Some v \<longleftrightarrow> r = Inr v"
  by (cases r) simp_all

subsection \<open>Properties\<close>

text \<open>
  C3: whatever sequence of operations has run on a fresh in-memory cache, with whatever clock
  readings, capacity and map iteration order, a hit returns the value stored last under that key,
  and that value has neither been deleted nor cleared since.
\<close>

theorem memory_cache_coherent:
  assumes "\<And>t m. mset (ord t m) = mset m"
    and "fst (cache_get t k (cache_run h (MemoryBackend (new_memory_cache ord t0 mx ci)))) = Inr v"
  shows "stored (rev h) k = Some v"
proof (rule any.get_coherent)
  show "cache_inv (MemoryBackend (new_memory_cache ord t0 mx ci))"
    using assms(1) by (simp add: mc_inv_new)
  show "cache_view t' (MemoryBackend (new_memory_cache ord t0 mx ci)) k' = None" for t' k'
    by (simp add: mc_view_def new_memory_cache_def)
  show "fst (apfst ok_of (cache_get t k
          (any.replay (rev h) (MemoryBackend (new_memory_cache ord t0 mx ci))))) = Some v"
    using assms(2) by (simp add: cache_run_replay)
qed

theorem memory_cache_coherent_witness:
  "stored (rev [(1, OpSet ''a'' ''x'' 10), (2, OpSet ''a'' ''y'' 10), (3, OpSet ''b'' ''z'' 10)]) ''a''
     = Some ''y''"
  by (rule memory_cache_coherent [where ord = "\<lambda>t m. m" and t = 5 and mx = 1000 and ci = 0 and t0 = 0])
    (simp_all add: cache_run_def cache_evals)

text \<open>
  after \<open>Set(k, v, ttl)\<close> at time \<open>t\<close> the key reads back \<open>v\<close> up to and including
  \<open>t + ttl\<close> and is gone afterwards; a ttl of zero or less means one hour.
\<close>

theorem memory_set_then_get:
  "fst (mc_get t' k (mc_set t k v ttl mc)) =
     (if t' \<le> t + (if ttl \<le> 0 then hour else ttl) then Inr v else Inl (ErrNotFound k))"
  by (simp add: mc_get_eq mc_view_set_same)

text \<open>
  a write that fits replaces or adds its own entry and nothing else. A write that does not fit
  first removes exactly one entry, an expired one when there is any and otherwise one with the
  earliest expiration, and counts one eviction.
\<close>

theorem memory_set_eviction:
  assumes "mc_inv mc" "evictable (items mc)" "items mc \<noteq> []"
    and new: "new = \<lparr>item_value = v, expiration = t + (if ttl \<le> 0 then hour else ttl)\<rparr>"
  shows "if current_size (items mc) + int (length k + length v) \<le> maxSize mc
         then items (mc_set t k v ttl mc) = upd k new (items mc) \<and>
              evictions (mc_set t k v ttl mc) = evictions mc
         else \<exists>e it. (e, it) \<in> set (items mc) \<and>
                items (mc_set t k v ttl mc) = upd k new (del e (items mc)) \<and>
                evictions (mc_set t k v ttl mc) = evictions mc + 1 \<and>
                (expiration it < t \<or>
                 (\<forall>(e', it')\<in>set (items mc). t \<le> expiration it' \<and> expiration it \<le> expiration it'))"
proof (cases "current_size (items mc) + int (length k + length v) \<le> maxSize mc")
  case True
  then show ?thesis by (simp add: mc_set_def Let_def new)
next
  case False
  define m where "m = map_order mc t (items mc)"
  have "mset m = mset (items mc)" using assms(1) by (simp add: m_def mc_inv_def)
  then have sm: "set m = set (items mc)" by (metis set_mset_mset)
  have ne: "m \<noteq> []" "evictable m" using sm assms(2,3) by (auto simp: evictable_def)
  obtain e it where e: "evict_scan t [] 0 m = Some e" "(e, it) \<in> set (items mc)"
    "expiration it < t \<or> (\<forall>(k', it')\<in>set (items mc). t \<le> expiration it' \<and> expiration it \<le> expiration it')"
    using evict_scan_victim [OF ne, of t] unfolding sm by blast
  have ev: "evict_oldest t mc = mc\<lparr>items := del e (items mc), evictions := evictions mc + 1\<rparr>"
    using e(1) by (simp add: evict_oldest_def m_def)
  show ?thesis unfolding if_not_P [OF False]
    by (rule exI [of _ e], rule exI [of _ it])
      (use False e in \<open>simp add: mc_set_def Let_def new ev\<close>)
qed

definition full_cache :: memory_cache where
  "full_cache = \<lparr>items = [(''a'', \<lparr>item_value = ''xy'', expiration = 30\<rparr>),
                         (''b'', \<lparr>item_value = ''z'', expiration = 20\<rparr>)],
    hits = 0, misses = 0, evictions = 0, startTime = 1, maxSize = 6, cleanupInt = minute,
    stopped = False, map_order = \<lambda>t m. m\<rparr>"

theorem memory_set_eviction_witness:
  "evictions (mc_set 10 ''c'' ''v'' 5 full_cache) = evictions full_cache + 1 \<and>
   keys (items (mc_set 10 ''c'' ''v'' 5 full_cache)) = [''a'', ''c'']"
proof
  have "\<not> current_size (items full_cache) + int (length ''c'' + length ''v'') \<le> maxSize full_cache"
    by (simp add: full_cache_def cache_evals)
  moreover have "mc_inv full_cache" "evictable (items full_cache)" "items full_cache \<noteq> []"
    by (simp_all add: full_cache_def mc_inv_def evictable_def)
  ultimately show "evictions (mc_set 10 ''c'' ''v'' 5 full_cache) = evictions full_cache + 1"
    using memory_set_eviction [of full_cache _ "''v''" 10 5 "''c''"] by auto
qed (simp add: full_cache_def cache_evals)

text \<open>
  the capacity is not a hard bound. A write adds at most its own size to the total, and the
  total stays within the capacity when the write fits; but one write evicts at most one entry, so
  the total can end above the capacity.
\<close>

theorem memory_set_size:
  "current_size (items (mc_set t k v ttl mc)) \<le> current_size (items mc) + int (length k + length v) \<and>
   (current_size (items mc) + int (length k + length v) \<le> maxSize mc \<longrightarrow>
    current_size (items (mc_set t k v ttl mc)) \<le> maxSize (mc_set t k v ttl mc)) \<and>
   current_size (items (mc_set 10 ''c'' ''12345'' 5 full_cache)) = 9 \<and>
   maxSize (mc_set 10 ''c'' ''12345'' 5 full_cache) = 6"
proof (intro conjI impI)
  show le: "current_size (items (mc_set t k v ttl mc)) \<le> current_size (items mc) + int (length k + length v)"
    by (rule current_size_set_le)
  have "maxSize (mc_set t k v ttl mc) = maxSize mc"
    by (simp add: mc_set_def Let_def)
  then show "current_size (items mc) + int (length k + length v) \<le> maxSize mc \<Longrightarrow>
    current_size (items (mc_set t k v ttl mc)) \<le> maxSize (mc_set t k v ttl mc)"
    using le by simp
qed (simp_all add: full_cache_def cache_evals)

theorem memory_set_size_witness:
  "current_size (items (mc_set 10 ''c'' ''v'' 5 (full_cache\<lparr>maxSize := 100\<rparr>))) \<le> 100"
proof -
  have m: "maxSize (mc_set 10 ''c'' ''v'' 5 (full_cache\<lparr>maxSize := 100\<rparr>)) = 100"
    by (simp add: full_cache_def cache_evals)
  have "current_size (items (full_cache\<lparr>maxSize := 100\<rparr>)) + int (length ''c'' + length ''v'') \<le>
        maxSize (full_cache\<lparr>maxSize := 100\<rparr>)"
    by (simp add: full_cache_def cache_evals)
  then show ?thesis
    using memory_set_size [of 10 "''c''" "''v''" 5 "full_cache\<lparr>maxSize := 100\<rparr>"] m by auto
qed

text \<open>
  \<open>GetMulti\<close> answers a requested key with what \<open>Get\<close> would answer, except at the instant the
  entry expires, and counts one lookup per key.
\<close>

theorem memory_get_multi:
  "map_of (fst (mc_get_multi now ks mc)) k =
     (if k \<in> set ks \<and> (\<forall>it. map_of (items mc) k = Some it \<longrightarrow> expiration it \<noteq> now)
      then ok_of (fst (mc_get now k mc)) else None) \<and>
   hits (snd (mc_get_multi now ks mc)) + misses (snd (mc_get_multi now ks mc)) =
     hits mc + misses mc + int (length ks)"
  using mc_get_multi_loop_frame [of now ks "[]" mc]
  by (auto simp: mc_get_multi_def mc_get_multi_loop_val mc_get_eq mc_view_def split: option.splits)

theorem memory_get_multi_witness:
  "fst (mc_get_multi 20 [''a''] full_cache) = [(''a'', ''xy'')] \<and>
   map_of (fst (mc_get_multi 20 [''a'', ''b'']  full_cache)) ''b'' = None \<and>
   ok_of (fst (mc_get 20 ''b'' full_cache)) = Some ''z''"
  using memory_get_multi [of 20 "[''a'', ''b'']" full_cache "''b''"]
  by (simp add: full_cache_def cache_evals mc_get_multi_def)

text \<open>
  the periodic clean-up drops exactly the expired entries and counts them as evictions: no
  read at that time or later can tell that it ran.
\<close>

theorem memory_cleanup:
  assumes "mc_inv mc"
  shows "mc_inv (mc_cleanup now mc) \<and>
    (\<forall>e\<in>set (items (mc_cleanup now mc)). now \<le> expiration (snd e)) \<and>
    (\<forall>t k. now \<le> t \<longrightarrow> fst (mc_get t k (mc_cleanup now mc)) = fst (mc_get t k mc)) \<and>
    evictions (mc_cleanup now mc) + int (length (items (mc_cleanup now mc))) =
      evictions mc + int (length (items mc))"
  using assms mc_cleanup_evictions [of now mc]
  by (auto simp: mc_get_eq mc_cleanup_view mc_inv_cleanup dest: mc_cleanup_live)

theorem memory_cleanup_witness:
  "fst (mc_get 25 ''a'' (mc_cleanup 25 full_cache)) = fst (mc_get 25 ''a'' full_cache) \<and>
   items (mc_cleanup 25 full_cache) = [(''a'', \<lparr>item_value = ''xy'', expiration = 30\<rparr>)]"
proof -
  have "mc_inv full_cache" by (simp add: full_cache_def mc_inv_def)
  then show ?thesis
    using memory_cleanup [of full_cache 25] by (simp add: full_cache_def mc_cleanup_def)
qed

end
