(* ===== verification/RateLimit.thy ===== *)
theory RateLimit
  imports Net
begin

text \<open>
  The request limiter of \<open>src/src/ratelimit/ratelimit.go\<close>: one window per key, the periodic
  clean-up, and the extraction of the client address that serves as the key. Every operation holds
  the mutex from start to end, so a run is a sequence of operations with their clock readings; the
  clock is Go's monotonic one, so readings do not decrease along a run.
\<close>

subsection \<open>The limiter\<close>

record window =
  win_requests :: int
  windowTime :: time

record limiter =
  windows :: "(string \<times> window) list"
  lim_requests :: int
  lim_duration :: duration
  lim_cleanupInt :: duration
  lim_closed :: bool

definition new_limiter :: "int \<Rightarrow> duration \<Rightarrow> limiter" where
  "new_limiter reqs dur =
     \<lparr>windows = [], lim_requests = (if reqs \<le> 0 then 60 else reqs),
      lim_duration = (if dur \<le> 0 then 1 * minute else dur),
      lim_cleanupInt = 1 * minute, lim_closed = False\<rparr>"

definition allow :: "time \<Rightarrow> string \<Rightarrow> limiter \<Rightarrow> bool \<times> limiter" where
  "allow now key l =
     (case map_of (windows l) key of
        None \<Rightarrow> (True, l\<lparr>windows := upd key \<lparr>win_requests = 1, windowTime = now\<rparr> (windows l)\<rparr>)
      | Some w \<Rightarrow>
          if now - windowTime w \<ge> lim_duration l then
            (True, l\<lparr>windows := upd key \<lparr>win_requests = 1, windowTime = now\<rparr> (windows l)\<rparr>)
          else if win_requests w \<ge> lim_requests l then (False, l)
          else (True, l\<lparr>windows := upd key (w\<lparr>win_requests := win_requests w + 1\<rparr>) (windows l)\<rparr>))"

definition cleanup_expired :: "time \<Rightarrow> limiter \<Rightarrow> limiter" where
  "cleanup_expired now l =
     l\<lparr>windows := filter (\<lambda>(k, w). \<not> now - windowTime w > lim_duration l * 2) (windows l)\<rparr>"

text \<open>Closing a closed channel panics: \<open>None\<close>.\<close>

definition lim_close :: "limiter \<Rightarrow> limiter option" where
  "lim_close l = (if lim_closed l then None else Some (l\<lparr>lim_closed := True\<rparr>))"

record lim_stats =
  TotalKeys :: int
  LimRequests :: int
  LimDuration :: duration
  WindowCount :: int

definition lim_stats_of :: "limiter \<Rightarrow> lim_stats" where
  "lim_stats_of l = \<lparr>TotalKeys = int (length (windows l)), LimRequests = lim_requests l,
     LimDuration = lim_duration l, WindowCount = int (length (windows l))\<rparr>"

subsection \<open>The client address\<close>

text \<open>
  What the code reads of a request: \<open>header n\<close> is the result of \<open>r.Header.Get(n)\<close>, the empty
  string when there is no such header.
\<close>

record request =
  header :: "string \<Rightarrow> string"
  RemoteAddr :: string

definition blank :: "char \<Rightarrow> bool" where
  "blank c \<longleftrightarrow> byte c = 32 \<or> byte c = 9"

text \<open>The two inner loops: they stop at the first byte to keep and do nothing when there is none.\<close>

definition skip_blank :: "string \<Rightarrow> string" where
  "skip_blank ip = (if list_all blank ip then ip else dropWhile blank ip)"

definition drop_blank :: "string \<Rightarrow> string" where
  "drop_blank ip = (if list_all blank ip then ip else rev (dropWhile blank (rev ip)))"

function parse_x_forwarded_for :: "string \<Rightarrow> string list" where
  "parse_x_forwarded_for h =
     (if h = [] then []
      else let ip = drop_blank (skip_blank (takeWhile (\<lambda>c. c \<noteq> CHR '','') h));
               rest = drop 1 (dropWhile (\<lambda>c. c \<noteq> CHR '','') h)
           in (if ip \<noteq> [] then [ip] else []) @ parse_x_forwarded_for rest)"
  by pat_completeness auto
termination
proof (relation "measure length")
  show "(rest, h) \<in> measure length"
    if "h \<noteq> []" "rest = drop 1 (dropWhile (\<lambda>c. c \<noteq> CHR '','') h)" for h ip rest
  proof -
    have "length (dropWhile (\<lambda>c. c \<noteq> CHR '','') h) \<le> length h" by (rule length_dropWhile_le)
    with that show ?thesis by (cases h) auto
  qed
qed simp

declare parse_x_forwarded_for.simps [simp del]

definition get_client_ip :: "request \<Rightarrow> string" where
  "get_client_ip r =
     (let xff = header r ''X-Forwarded-For''; xri = header r ''X-Real-IP''
      in if xff \<noteq> [] \<and> parse_x_forwarded_for xff \<noteq> [] then hd (parse_x_forwarded_for xff)
         else if xri \<noteq> [] then xri
         else case split_host_port (RemoteAddr r) of
                None \<Rightarrow> RemoteAddr r
              | Some (ip, port) \<Rightarrow> ip)"

definition get_key :: "request \<Rightarrow> string" where
  "get_key r = get_client_ip r"

subsection \<open>Runs\<close>

datatype lim_event = Request time string | CleanupTick time

fun ev_time :: "lim_event \<Rightarrow> time" where
  "ev_time (Request t k) = t"
| "ev_time (CleanupTick t) = t"

text \<open>A run with its log: per request its time, key and answer, in order.\<close>

fun lim_run :: "lim_event list \<Rightarrow> limiter \<Rightarrow> (time \<times> string \<times> bool) list \<times> limiter" where
  "lim_run [] l = ([], l)"
| "lim_run (Request t k # es) l =
     (let (b, l') = allow t k l; (lg, l'') = lim_run es l' in ((t, k, b) # lg, l''))"
| "lim_run (CleanupTick t # es) l = lim_run es (cleanup_expired t l)"

subsection \<open>One key\<close>

text \<open>
  The reference: a fixed window per key, and nothing is ever cleaned up.
\<close>

definition win_allow :: "int \<Rightarrow> duration \<Rightarrow> time \<Rightarrow> window option \<Rightarrow> bool \<times> window" where
  "win_allow L d now w =
     (case w of
        None \<Rightarrow> (True, \<lparr>win_requests = 1, windowTime = now\<rparr>)
      | Some w \<Rightarrow>
          if d \<le> now - windowTime w then (True, \<lparr>win_requests = 1, windowTime = now\<rparr>)
          else if L \<le> win_requests w then (False, w)
          else (True, w\<lparr>win_requests := win_requests w + 1\<rparr>))"

fun spec_run :: "int \<Rightarrow> duration \<Rightarrow> lim_event list \<Rightarrow> (string \<Rightarrow> window option) \<Rightarrow>
    (time \<times> string \<times> bool) list" where
  "spec_run L d [] m = []"
| "spec_run L d (Request t k # es) m =
     (t, k, fst (win_allow L d t (m k))) # spec_run L d es (m(k \<mapsto> snd (win_allow L d t (m k))))"
| "spec_run L d (CleanupTick t # es) m = spec_run L d es m"

text \<open>A limiter represents a spec state when it lacks at most windows that are over anyway.\<close>

definition lim_rel :: "time \<Rightarrow> limiter \<Rightarrow> (string \<Rightarrow> window option) \<Rightarrow> bool" where
  "lim_rel now l m \<longleftrightarrow>
     distinct (keys (windows l)) \<and> 0 < lim_duration l \<and> 
     (\<forall>k. map_of (windows l) k = m k \<or>
          map_of (windows l) k = None \<and> (\<exists>w. m k = Some w \<and> lim_duration l \<le> now - windowTime w))"

lemma allow_frame [simp]:
  "lim_duration (snd (allow t k l)) = lim_duration l" "lim_requests (snd (allow t k l)) = lim_requests l"
  by (auto simp: allow_def split: option.splits)

lemma cleanup_frame [simp]:
  "lim_duration (cleanup_expired t l) = lim_duration l" "lim_requests (cleanup_expired t l) = lim_requests l"
  by (simp_all add: cleanup_expired_def)

lemma allow_map:
  "map_of (windows (snd (allow t k l))) =
     (map_of (windows l))(k \<mapsto> snd (win_allow (lim_requests l) (lim_duration l) t (map_of (windows l) k)))"
  "fst (allow t k l) = fst (win_allow (lim_requests l) (lim_duration l) t (map_of (windows l) k))"
  by (auto simp: allow_def win_allow_def split: option.splits)

lemma allow_distinct: "distinct (keys (windows l)) \<Longrightarrow> distinct (keys (windows (snd (allow t k l))))"
  by (auto simp: allow_def split: option.splits intro: distinct_upd)

lemma lim_rel_allow:
  assumes "lim_rel now l m" "now \<le> t"
  shows "fst (allow t k l) = fst (win_allow (lim_requests l) (lim_duration l) t (m k)) \<and>
         lim_rel t (snd (allow t k l)) (m(k \<mapsto> snd (win_allow (lim_requests l) (lim_duration l) t (m k))))"
proof -
  have same: "win_allow (lim_requests l) (lim_duration l) t (map_of (windows l) k) =
        win_allow (lim_requests l) (lim_duration l) t (m k)"
  proof (cases "map_of (windows l) k = m k")
    case False
    with assms obtain w where "map_of (windows l) k = None" "m k = Some w" "lim_duration l \<le> t - windowTime w"
      unfolding lim_rel_def by (smt (verit))
    then show ?thesis by (simp add: win_allow_def)
  qed simp
  have rel: "map_of (windows l) k' = m k' \<or>
        map_of (windows l) k' = None \<and> (\<exists>w. m k' = Some w \<and> lim_duration l \<le> t - windowTime w)" for k'
    using assms by (auto simp: lim_rel_def dest!: spec [of _ k'])
  show ?thesis
    using assms(1) same rel by (auto simp: lim_rel_def allow_map intro: allow_distinct)
qed

lemma lim_rel_cleanup:
  assumes "lim_rel now l m" "now \<le> t"
  shows "lim_rel t (cleanup_expired t l) m"
proof -
  have "map_of (windows (cleanup_expired t l)) k = m k \<or>
        map_of (windows (cleanup_expired t l)) k = None \<and>
          (\<exists>w. m k = Some w \<and> lim_duration l \<le> t - windowTime w)" for k
  proof (cases "map_of (windows l) k")
    case None
    with assms show ?thesis
      unfolding lim_rel_def by (smt (verit) cleanup_expired_def limiter.select_convs(1) limiter.surjective
          limiter.update_convs(1) map_of_filter_keys option.simps(4))
  next
    case (Some w)
    with assms(1) have "m k = Some w" unfolding lim_rel_def by (metis option.distinct(1))
    then show ?thesis
      using assms Some by (auto simp: lim_rel_def cleanup_expired_def map_of_filter_keys)
  qed
  then show ?thesis using assms(1) by (auto simp: lim_rel_def cleanup_expired_def distinct_filter_keys)
qed

lemma lim_run_spec:
  assumes "lim_rel now l m" "sorted (now # map ev_time es)"
  shows "fst (lim_run es l) = spec_run (lim_requests l) (lim_duration l) es m"
  using assms
proof (induction es arbitrary: now l m)
  case (Cons e es)
  show ?case
  proof (cases e)
    case (Request t k)
    have le: "now \<le> t" and s: "sorted (t # map ev_time es)" using Cons.prems(2) Request by auto
    show ?thesis
      using Cons.IH [OF conjunct2 [OF lim_rel_allow [OF Cons.prems(1) le, of k]] s]
        conjunct1 [OF lim_rel_allow [OF Cons.prems(1) le, of k]]
      by (simp add: Request case_prod_unfold del: fun_upd_apply)
  next
    case (CleanupTick t)
    have le: "now \<le> t" and s: "sorted (t # map ev_time es)" using Cons.prems(2) CleanupTick by auto
    show ?thesis
      using Cons.IH [OF lim_rel_cleanup [OF Cons.prems(1) le] s] by (simp add: CleanupTick)
  qed
qed simp

lemma lim_rel_new: "lim_rel now (new_limiter L d) (\<lambda>_. None)"
  by (simp add: lim_rel_def new_limiter_def)

lemma lim_run_new:
  "sorted (map ev_time es) \<Longrightarrow>
   fst (lim_run es (new_limiter L d)) =
     spec_run (lim_requests (new_limiter L d)) (lim_duration (new_limiter L d)) es (\<lambda>_. None)"
  by (cases es) (auto intro!: lim_run_spec [where now = "ev_time (hd es)"] lim_rel_new)

subsection \<open>How many requests pass\<close>

definition cnt :: "(time \<Rightarrow> bool) \<Rightarrow> time list \<Rightarrow> int" where
  "cnt P al = int (length (filter P al))"

lemma cnt_simps [simp]:
  "cnt P [] = 0" "cnt P (x # al) = (if P x then 1 else 0) + cnt P al"
  by (simp_all add: cnt_def)

lemma cnt_mono: "(\<And>x. x \<in> set al \<Longrightarrow> P x \<Longrightarrow> Q x) \<Longrightarrow> cnt P al \<le> cnt Q al"
  by (induction al) (force simp: cnt_def)+

lemma cnt_split: "(\<And>x. P x \<longleftrightarrow> Q x \<or> R x) \<Longrightarrow> (\<And>x. \<not> (Q x \<and> R x)) \<Longrightarrow> cnt P al = cnt Q al + cnt R al"
  by (induction al) (force simp: cnt_def)+

lemma cnt_strict:
  assumes "w \<in> set al" "Q w" "\<not> P w" "\<And>x. x \<in> set al \<Longrightarrow> P x \<Longrightarrow> Q x"
  shows "cnt P al + 1 \<le> cnt Q al"
  using assms
proof (induction al)
  case (Cons a al)
  show ?case
  proof (cases "a = w")
    case True
    have "cnt P al \<le> cnt Q al" using Cons.prems(4) by (intro cnt_mono) auto
    with True Cons.prems show ?thesis by simp
  next
    case False
    with Cons show ?thesis by auto
  qed
qed simp

lemma cnt_zero: "(\<And>x. x \<in> set al \<Longrightarrow> \<not> P x) \<Longrightarrow> cnt P al = 0"
  by (induction al) simp_all

text \<open>
  The accepted requests of one key so far (\<open>al\<close>) and its window: the window counts those since its
  start, and the ones before are few enough near the start.
\<close>

definition win_ok :: "int \<Rightarrow> duration \<Rightarrow> time \<Rightarrow> time list \<Rightarrow> window option \<Rightarrow> bool" where
  "win_ok L d now al w \<longleftrightarrow>
     (case w of
        None \<Rightarrow> al = []
      | Some w \<Rightarrow>
          windowTime w \<in> set al \<and> windowTime w \<le> now \<and> (\<forall>x\<in>set al. x < windowTime w + d) \<and>
          cnt (\<lambda>x. windowTime w \<le> x) al = win_requests w \<and> win_requests w \<le> L \<and>
          (\<forall>s. cnt (\<lambda>x. s \<le> x \<and> x < s + d \<and> x < windowTime w) al \<le> 2 * L - 1) \<and>
          (\<forall>s. windowTime w - d < s \<longrightarrow> cnt (\<lambda>x. s \<le> x \<and> x < windowTime w) al \<le> L - 1))"

lemma win_ok_bound:
  assumes "win_ok L d now al w" "0 < L"
  shows "cnt (\<lambda>x. s \<le> x \<and> x < s + d) al \<le> 2 * L - 1"
proof (cases w)
  case None
  with assms show ?thesis by (simp add: win_ok_def)
next
  case (Some v)
  have sp: "cnt (\<lambda>x. s \<le> x \<and> x < s + d) al =
        cnt (\<lambda>x. s \<le> x \<and> x < s + d \<and> x < windowTime v) al +
        cnt (\<lambda>x. s \<le> x \<and> x < s + d \<and> windowTime v \<le> x) al"
    by (rule cnt_split) auto
  show ?thesis
  proof (cases "windowTime v < s + d")
    case True
    have "cnt (\<lambda>x. s \<le> x \<and> x < s + d \<and> x < windowTime v) al \<le> cnt (\<lambda>x. s \<le> x \<and> x < windowTime v) al"
      by (rule cnt_mono) auto
    moreover have "cnt (\<lambda>x. s \<le> x \<and> x < windowTime v) al \<le> L - 1"
      using assms(1) Some True by (simp add: win_ok_def)
    moreover have "cnt (\<lambda>x. s \<le> x \<and> x < s + d \<and> windowTime v \<le> x) al \<le> cnt (\<lambda>x. windowTime v \<le> x) al"
      by (rule cnt_mono) auto
    moreover have "cnt (\<lambda>x. windowTime v \<le> x) al \<le> L" using assms(1) Some by (simp add: win_ok_def)
    ultimately show ?thesis using sp by linarith
  next
    case False
    then have "cnt (\<lambda>x. s \<le> x \<and> x < s + d \<and> windowTime v \<le> x) al = 0"
      by (intro cnt_zero) auto
    moreover have "cnt (\<lambda>x. s \<le> x \<and> x < s + d \<and> x < windowTime v) al \<le> 2 * L - 1"
      using assms(1) Some by (simp add: win_ok_def)
    ultimately show ?thesis using sp by linarith
  qed
qed

lemma win_ok_first:
  assumes "0 < L" "0 < d"
  shows "win_ok L d t [t] (Some \<lparr>win_requests = 1, windowTime = t\<rparr>)"
  using assms by (simp add: win_ok_def)

lemma win_ok_restart:
  assumes ok: "win_ok L d now al (Some v)" and L: "0 < L" "0 < d" and t: "d \<le> t - windowTime v"
  shows "win_ok L d t (t # al) (Some \<lparr>win_requests = 1, windowTime = t\<rparr>)"
proof -
  have v: "windowTime v \<in> set al" "\<forall>x\<in>set al. x < windowTime v + d"
    "cnt (\<lambda>x. windowTime v \<le> x) al \<le> L"
    using ok by (auto simp: win_ok_def)
  have early: "x < t" if "x \<in> set al" for x using v(2) t that by force
  have "cnt (\<lambda>x. t \<le> x) al = 0" using early by (intro cnt_zero) (auto simp: not_le)
  moreover have "cnt (\<lambda>x. s \<le> x \<and> x < s + d \<and> x < t) al \<le> 2 * L - 1" for s
    using win_ok_bound [OF ok L(1), of s] cnt_mono [of al "\<lambda>x. s \<le> x \<and> x < s + d \<and> x < t"
        "\<lambda>x. s \<le> x \<and> x < s + d"] by force
  moreover have "cnt (\<lambda>x. s \<le> x \<and> x < t) al \<le> L - 1" if "t - d < s" for s
  proof -
    have "cnt (\<lambda>x. s \<le> x \<and> x < t) al + 1 \<le> cnt (\<lambda>x. windowTime v \<le> x) al"
      by (rule cnt_strict [OF v(1)]) (use t that in auto)
    with v(3) show ?thesis by linarith
  qed
  moreover have "x < t + d" if "x \<in> set al" for x using early [OF that] L(2) by linarith
  ultimately show ?thesis using L by (auto simp: win_ok_def)
qed

lemma win_ok_count:
  assumes ok: "win_ok L d now al (Some v)" and "now \<le> t" "t - windowTime v < d" "win_requests v < L"
  shows "win_ok L d t (t # al) (Some (v\<lparr>win_requests := win_requests v + 1\<rparr>))"
  using assms by (auto simp: win_ok_def)

lemma win_ok_step:
  assumes ok: "win_ok L d now al w" and "now \<le> t" and L: "0 < L" "0 < d"
  shows "win_ok L d t (if fst (win_allow L d t w) then t # al else al) (Some (snd (win_allow L d t w)))"
proof (cases w)
  case None
  then have "al = []" using ok by (simp add: win_ok_def)
  then show ?thesis using None win_ok_first [OF L, of t] by (simp add: win_allow_def)
next
  case (Some v)
  consider "d \<le> t - windowTime v" | "t - windowTime v < d" "L \<le> win_requests v"
    | "t - windowTime v < d" "win_requests v < L" by linarith
  then show ?thesis
  proof cases
    case 1
    then show ?thesis using ok Some win_ok_restart [OF _ L] by (simp add: win_allow_def)
  next
    case 2
    then show ?thesis using ok Some assms(2) by (auto simp: win_allow_def win_ok_def)
  next
    case 3
    then show ?thesis using ok Some win_ok_count [OF _ assms(2)] by (simp add: win_allow_def)
  qed
qed

definition passed :: "string \<Rightarrow> (time \<times> string \<times> bool) list \<Rightarrow> time list" where
  "passed k lg = map fst (filter (\<lambda>(t, k', b). k' = k \<and> b) lg)"

lemma cnt_append: "cnt P (xs @ ys) = cnt P xs + cnt P ys"
  by (simp add: cnt_def)

lemma spec_run_bound:
  assumes "win_ok L d now al (m k)" "sorted (now # map ev_time es)" "0 < L" "0 < d"
  shows "cnt (\<lambda>x. s \<le> x \<and> x < s + d) al + cnt (\<lambda>x. s \<le> x \<and> x < s + d) (passed k (spec_run L d es m))
           \<le> 2 * L - 1"
  using assms(1,2)
proof (induction es arbitrary: now al m)
  case Nil
  then show ?case using win_ok_bound [OF _ assms(3)] by (simp add: passed_def)
next
  case (Cons e es)
  show ?case
  proof (cases e)
    case (Request t k')
    have le: "now \<le> t" and s: "sorted (t # map ev_time es)" using Cons.prems(2) Request by auto
    show ?thesis
    proof (cases "k' = k")
      case True
      have "win_ok L d t (if fst (win_allow L d t (m k)) then t # al else al)
              ((m(k \<mapsto> snd (win_allow L d t (m k)))) k)"
        using win_ok_step [OF Cons.prems(1) le assms(3,4)] by simp
      from Cons.IH [where al = "if fst (win_allow L d t (m k)) then t # al else al"
            and m = "m(k \<mapsto> snd (win_allow L d t (m k)))" and now = t, OF this s]
      show ?thesis
        by (auto simp add: Request True passed_def simp del: fun_upd_apply split: if_split_asm)
    next
      case False
      have "win_ok L d t al ((m(k' \<mapsto> snd (win_allow L d t (m k')))) k)"
        using Cons.prems(1) le False by (auto simp: win_ok_def split: option.splits)
      from Cons.IH [where al = al and m = "m(k' \<mapsto> snd (win_allow L d t (m k')))" and now = t,
            OF this s]
      show ?thesis
        by (simp add: Request False passed_def del: fun_upd_apply)
    qed
  next
    case (CleanupTick t)
    have "now \<le> t" and s: "sorted (t # map ev_time es)" using Cons.prems(2) CleanupTick by auto
    then have "win_ok L d t al (m k)" using Cons.prems(1) by (auto simp: win_ok_def split: option.splits)
    from Cons.IH [where al = al and m = m and now = t, OF this s] show ?thesis
      by (simp add: CleanupTick)
  qed
qed

text \<open>A key that stays below the limit is never refused.\<close>

definition asked :: "string \<Rightarrow> lim_event list \<Rightarrow> time list" where
  "asked k es = map ev_time (filter (\<lambda>e. case e of Request t k' \<Rightarrow> k' = k | CleanupTick t \<Rightarrow> False) es)"

text \<open>The window's count never exceeds the requests made since its start.\<close>

definition win_below :: "time list \<Rightarrow> window option \<Rightarrow> bool" where
  "win_below rs w \<longleftrightarrow> (case w of None \<Rightarrow> True
     | Some w \<Rightarrow> win_requests w \<le> cnt (\<lambda>x. windowTime w \<le> x) rs)"

lemma win_below_step:
  assumes "win_below rs w" "\<And>v. w = Some v \<Longrightarrow> windowTime v \<le> t"
  shows "win_below (t # rs) (Some (snd (win_allow L d t w)))"
  using assms cnt_mono [of rs "\<lambda>_. False"]
  by (cases w) (auto simp: win_below_def win_allow_def cnt_def)

lemma win_allow_under:
  assumes "win_below rs w" "\<forall>x\<in>set rs. x \<le> u" "\<And>v. w = Some v \<Longrightarrow> windowTime v \<le> u"
    and "\<forall>s. cnt (\<lambda>x. s \<le> x \<and> x < s + d) (u # rs) \<le> L" "0 < d"
  shows "fst (win_allow L d u w)"
proof (rule ccontr)
  assume "\<not> fst (win_allow L d u w)"
  then obtain v where v: "w = Some v" "u - windowTime v < d" "L \<le> win_requests v"
    by (auto simp: win_allow_def not_le split: option.splits if_splits)
  have "win_requests v \<le> cnt (\<lambda>x. windowTime v \<le> x) rs"
    using assms(1) v(1) by (simp add: win_below_def)
  also have "\<dots> \<le> cnt (\<lambda>x. windowTime v \<le> x \<and> x < windowTime v + d) rs"
    using assms(2) v(2) by (intro cnt_mono) force
  also have "\<dots> + 1 = cnt (\<lambda>x. windowTime v \<le> x \<and> x < windowTime v + d) (u # rs)"
    using v(2) assms(3) [OF v(1)] by simp
  also have "\<dots> \<le> L" using assms(4) by blast
  finally show False using v(3) by linarith
qed

lemma spec_run_under:
  assumes "\<forall>s. cnt (\<lambda>x. s \<le> x \<and> x < s + d) (rs @ asked k es) \<le> L"
    and "win_below rs (m k)" "\<And>v. m k = Some v \<Longrightarrow> windowTime v \<le> now" "\<forall>x\<in>set rs. x \<le> now"
    and "sorted (now # map ev_time es)" "0 < d" "(t, k, b) \<in> set (spec_run L d es m)"
  shows "b"
  using assms
proof (induction es arbitrary: now rs m)
  case (Cons e es)
  show ?case
  proof (cases e)
    case (CleanupTick u)
    have "now \<le> u" "sorted (u # map ev_time es)" using Cons.prems(5) CleanupTick by auto
    moreover have "windowTime v \<le> u" if "m k = Some v" for v
      using Cons.prems(3) [OF that] \<open>now \<le> u\<close> by linarith
    ultimately show ?thesis
      using Cons.IH [of rs m u] Cons.prems by (force simp: CleanupTick asked_def)
  next
    case (Request u k')
    have le: "now \<le> u" and s: "sorted (u # map ev_time es)" using Cons.prems(5) Request by auto
    define m' where "m' = m(k' \<mapsto> snd (win_allow L d u (m k')))"
    define rs' where "rs' = (if k' = k then u # rs else rs)"
    have c: "cnt P (rs' @ asked k es) = cnt P (rs @ asked k (e # es))" for P
      by (simp add: rs'_def asked_def Request cnt_append)
    have old: "windowTime v \<le> u" if "m k = Some v" for v using Cons.prems(3) [OF that] le by linarith
    have le': "windowTime v \<le> u" if "m' k = Some v" for v
      using that old by (auto simp: m'_def win_allow_def split: if_splits option.splits)
    have below: "win_below rs' (m' k)"
      using Cons.prems(2) win_below_step [of rs "m k" u L d] old by (auto simp: rs'_def m'_def)
    have past: "\<forall>x\<in>set rs'. x \<le> u" using Cons.prems(4) le by (auto simp: rs'_def intro: order_trans)
    have run: "spec_run L d (e # es) m = (u, k', fst (win_allow L d u (m k'))) # spec_run L d es m'"
      by (simp add: Request m'_def)
    show ?thesis
    proof (cases "(t, k, b) \<in> set (spec_run L d es m')")
      case True
      then show ?thesis
        using Cons.IH [of rs' m' u] Cons.prems(1) c below le' past s Cons.prems(6) by simp
    next
      case False
      then have k: "k' = k" "b = fst (win_allow L d u (m k))" using Cons.prems(7) run by auto
      have "cnt P (u # rs) \<le> cnt P (rs @ asked k (e # es))" for P
        unfolding c [symmetric] by (simp add: rs'_def k(1) cnt_def)
      then have "\<forall>s. cnt (\<lambda>x. s \<le> x \<and> x < s + d) (u # rs) \<le> L"
        using Cons.prems(1) by (meson order_trans)
      moreover have "\<forall>x\<in>set rs. x \<le> u" using Cons.prems(4) le by (auto intro: order_trans)
      ultimately show ?thesis
        unfolding k(2) using Cons.prems(2) old Cons.prems(6) by (intro win_allow_under)
    qed
  qed
qed simp

subsection \<open>The forwarded addresses\<close>

definition xff_trim :: "string \<Rightarrow> string" where
  "xff_trim s = drop_blank (skip_blank s)"

lemma xff_trim_Nil [simp]: "xff_trim [] = []"
  by (simp add: xff_trim_def drop_blank_def skip_blank_def)

lemma split_on_unfold:
  "split_on c s = takeWhile (\<lambda>x. x \<noteq> c) s #
     (if c \<in> set s then split_on c (drop 1 (dropWhile (\<lambda>x. x \<noteq> c) s)) else [])"
  by (induction s) (auto split: list.splits)

lemma parse_xff_eq:
  "parse_x_forwarded_for h = filter (\<lambda>s. s \<noteq> []) (map xff_trim (split_on CHR '','' h))"
proof (induction h rule: parse_x_forwarded_for.induct)
  case (1 h)
  show ?case
  proof (cases "h = []")
    case True
    then show ?thesis by (simp add: parse_x_forwarded_for.simps)
  next
    case False
    define rest where "rest = drop (Suc 0) (dropWhile (\<lambda>c. c \<noteq> CHR '','') h)"
    have IH: "parse_x_forwarded_for rest = filter (\<lambda>s. s \<noteq> []) (map xff_trim (split_on CHR '','' rest))"
      using 1 [OF False refl] by (simp add: rest_def)
    have "rest = []" if "CHR '','' \<notin> set h"
    proof -
      have "\<forall>x\<in>set h. x \<noteq> CHR '',''" using that by blast
      then have "dropWhile (\<lambda>c. c \<noteq> CHR '','') h = []" by (simp only: dropWhile_eq_Nil_conv)
      then show ?thesis by (simp only: rest_def drop_Nil)
    qed
    then show ?thesis
      using False IH
      by (subst split_on_unfold) (auto simp: parse_x_forwarded_for.simps [of h] Let_def xff_trim_def
          [symmetric] rest_def [symmetric])
  qed
qed

lemma xff_trim_clean: "s \<noteq> [] \<Longrightarrow> \<not> blank (hd s) \<Longrightarrow> \<not> blank (last s) \<Longrightarrow> xff_trim s = s"
proof -
  assume s: "s \<noteq> []" "\<not> blank (hd s)" "\<not> blank (last s)"
  then have "\<not> list_all blank s" by (cases s) simp_all
  moreover have "dropWhile blank (rev s) = rev s" using s by (intro dropWhile_hd) (simp_all add: hd_rev)
  ultimately show ?thesis using s by (simp add: xff_trim_def skip_blank_def drop_blank_def dropWhile_hd)
qed

subsection \<open>Properties\<close>

text \<open>
  C1: however requests of any keys and clean-ups are interleaved, at most 2L - 1 requests of one
  key pass in any interval as long as the window, L being the limit. (The code's window starts with
  the first request and is then fixed; a sliding window would allow L.)
\<close>

theorem rate_limit_bound:
  assumes "sorted (map ev_time es)"
  shows "cnt (\<lambda>x. s \<le> x \<and> x < s + lim_duration (new_limiter L d))
           (passed k (fst (lim_run es (new_limiter L d)))) \<le> 2 * lim_requests (new_limiter L d) - 1"
proof -
  have pos: "0 < lim_requests (new_limiter L d)" "0 < lim_duration (new_limiter L d)"
    by (simp_all add: new_limiter_def)
  have "sorted ((if es = [] then 0 else ev_time (hd es)) # map ev_time es)"
    using assms by (cases es) simp_all
  from spec_run_bound [where al = "[]" and m = "\<lambda>_. None" and k = k and s = s, OF _ this pos]
  show ?thesis unfolding lim_run_new [OF assms] by (simp add: win_ok_def)
qed

theorem rate_limit_bound_witness:
  "cnt (\<lambda>x. 9 \<le> x \<and> x < 9 + lim_duration (new_limiter 2 10))
     (passed ''a'' (fst (lim_run [Request 0 ''a'', Request 9 ''a'', Request 10 ''a'', Request 11 ''a'']
        (new_limiter 2 10)))) \<le> 2 * lim_requests (new_limiter 2 10) - 1"
  by (rule rate_limit_bound) simp

text \<open>
  the bound is reached: with a limit of 2 per 10 ticks three requests pass within 10 ticks, more
  than the documented sliding window would let through.
\<close>

theorem rate_limit_not_sliding:
  "lim_requests (new_limiter 2 10) = 2 \<and> lim_duration (new_limiter 2 10) = 10 \<and>
   cnt (\<lambda>x. 9 \<le> x \<and> x < 9 + 10)
     (passed ''a'' (fst (lim_run [Request 0 ''a'', Request 9 ''a'', Request 10 ''a'', Request 11 ''a'']
        (new_limiter 2 10)))) = 3"
  by (simp add: new_limiter_def allow_def passed_def)

text \<open>
  a key that never makes more than L requests in an interval as long as the window is never
  refused, whatever the other keys do and whenever the clean-up runs.
\<close>

theorem rate_limit_fair:
  assumes "sorted (map ev_time es)"
    and "\<forall>s. cnt (\<lambda>x. s \<le> x \<and> x < s + lim_duration (new_limiter L d)) (asked k es)
              \<le> lim_requests (new_limiter L d)"
    and "(t, k, b) \<in> set (fst (lim_run es (new_limiter L d)))"
  shows "b"
proof -
  have pos: "0 < lim_duration (new_limiter L d)" by (simp add: new_limiter_def)
  have "sorted ((if es = [] then 0 else ev_time (hd es)) # map ev_time es)"
    using assms(1) by (cases es) simp_all
  from spec_run_under [where rs = "[]" and m = "\<lambda>_. None" and k = k, OF _ _ _ _ this pos]
  show ?thesis using assms(2,3) unfolding lim_run_new [OF assms(1)] by (simp add: win_below_def)
qed

theorem rate_limit_fair_witness:
  "fst (lim_run [Request 0 ''a'', Request 1 ''b''] (new_limiter 1 10)) = [(0, ''a'', True), (1, ''b'', True)] \<and>
   snd (snd (hd (fst (lim_run [Request 0 ''a'', Request 1 ''b''] (new_limiter 1 10)))))"
proof -
  have "True = snd (snd (hd (fst (lim_run [Request 0 ''a'', Request 1 ''b''] (new_limiter 1 10)))))"
    by (simp add: new_limiter_def allow_def)
  moreover have "snd (snd (hd (fst (lim_run [Request 0 ''a'', Request 1 ''b''] (new_limiter 1 10)))))"
    by (rule rate_limit_fair [where es = "[Request 0 ''a'', Request 1 ''b'']" and L = 1 and d = 10
          and k = "''a''" and t = 0])
      (simp_all add: new_limiter_def allow_def asked_def)
  ultimately show ?thesis by (simp add: new_limiter_def allow_def)
qed

text \<open>
  C37: the clean-up is invisible: running it at any point of a run changes no later answer.
\<close>

theorem rate_limit_cleanup_invisible:
  assumes "sorted (map ev_time es)"
  shows "fst (lim_run es (new_limiter L d)) =
         fst (lim_run (filter (\<lambda>e. case e of Request t k \<Rightarrow> True | CleanupTick t \<Rightarrow> False) es) (new_limiter L d))"
proof -
  have "spec_run L' d' es m = spec_run L' d' (filter (\<lambda>e. case e of Request t k \<Rightarrow> True | CleanupTick t \<Rightarrow> False) es) m"
    for L' d' m
    by (induction es arbitrary: m) (auto split: lim_event.splits)
  moreover have "sorted (map ev_time (filter P es))" for P
    using assms by (rule sorted_filter)
  ultimately show ?thesis using assms by (simp add: lim_run_new)
qed

theorem rate_limit_cleanup_invisible_witness:
  "fst (lim_run [Request 0 ''a'', CleanupTick 25, Request 26 ''a''] (new_limiter 1 10)) =
   fst (lim_run [Request 0 ''a'', Request 26 ''a''] (new_limiter 1 10))"
  using rate_limit_cleanup_invisible [of "[Request 0 ''a'', CleanupTick 25, Request 26 ''a'']" 1 10] by simp

text \<open>
  the hand-written parser of \<open>X-Forwarded-For\<close> is splitting at commas, trimming blanks and
  dropping empty items, except that an item of blanks only is kept as it is.
\<close>

theorem parse_x_forwarded_for_spec:
  "parse_x_forwarded_for h = filter (\<lambda>s. s \<noteq> []) (map xff_trim (split_on CHR '','' h)) \<and>
   xff_trim s = (if list_all blank s then s else trim_where blank s)"
proof
  show "parse_x_forwarded_for h = filter (\<lambda>s. s \<noteq> []) (map xff_trim (split_on CHR '','' h))"
    by (rule parse_xff_eq)
  have "\<not> list_all blank s \<Longrightarrow> \<not> list_all blank (dropWhile blank s)"
    by (metis list_all_append list_all_iff set_takeWhileD takeWhile_dropWhile_id)
  then show "xff_trim s = (if list_all blank s then s else trim_where blank s)"
    by (auto simp: xff_trim_def skip_blank_def drop_blank_def go_str)
qed

text \<open>
  the key is what the client chooses: any header value without commas that does not start or end
  with a blank becomes the key, whatever address the connection comes from.
\<close>

theorem client_ip_spoofable:
  assumes "header r ''X-Forwarded-For'' = v" "v \<noteq> []" "CHR '','' \<notin> set v"
    "\<not> blank (hd v)" "\<not> blank (last v)"
  shows "get_key r = v"
  using assms by (simp add: get_key_def get_client_ip_def parse_xff_eq split_on_absent xff_trim_clean)

theorem client_ip_spoofable_witness:
  "get_key \<lparr>header = (\<lambda>n. if n = ''X-Forwarded-For'' then ''10.0.0.1'' else ''''), RemoteAddr = ''192.0.2.7:4711''\<rparr>
     = ''10.0.0.1''"
  by (rule client_ip_spoofable) (simp_all add: blank_def)

end
