(* ===== verification/GoTime.thy ===== *)
theory GoTime
  imports Prelude
begin

text \<open>
  What the program uses of Go's package \<open>time\<close>: the civil calendar, \<open>time.Date\<close> and \<open>AddDate\<close> in
  a location, \<open>Truncate\<close>, and \<open>ParseDuration\<close>; and \<open>strings.Fields\<close>.

  Times are nanoseconds since the zero time, midnight of 1 January of year 1 in UTC, so \<open>t div day\<close>
  is a day number and 0 the number of that day, a Monday. A location is a function \<open>off\<close> from an
  absolute time to the offset of local time from UTC at that time.
\<close>

abbreviation day :: duration where "day \<equiv> 24 * hour"

subsection \<open>The calendar\<close>

definition leap :: "int \<Rightarrow> bool" where
  "leap y \<longleftrightarrow> y mod 4 = 0 \<and> (y mod 100 \<noteq> 0 \<or> y mod 400 = 0)"

definition year_start :: "int \<Rightarrow> int" where
  "year_start y = 365 * (y - 1) + (y - 1) div 4 - (y - 1) div 100 + (y - 1) div 400"

definition days_before :: "bool \<Rightarrow> int \<Rightarrow> int" where
  "days_before l m =
     (if m = 1 then 0 else if m = 2 then 31
      else (if l then 1 else 0) +
        (if m = 3 then 59 else if m = 4 then 90 else if m = 5 then 120 else if m = 6 then 151
         else if m = 7 then 181 else if m = 8 then 212 else if m = 9 then 243
         else if m = 10 then 273 else if m = 11 then 304 else if m = 12 then 334 else 365))"

text \<open>The number of a day; days outside the month run over into the months around it.\<close>

definition days_of :: "int \<Rightarrow> int \<Rightarrow> int \<Rightarrow> int" where
  "days_of y m d = year_start y + days_before (leap y) m + (d - 1)"

text \<open>The year of a day number, by cycles of 400, 100, 4 and 1 years.\<close>

definition year_of :: "int \<Rightarrow> int" where
  "year_of n =
     (let a = n div 146097; r = n mod 146097;
          b = min 3 (r div 36524); r1 = r - 36524 * b;
          c = r1 div 1461; r2 = r1 mod 1461;
          e = min 3 (r2 div 365)
      in 400 * a + 100 * b + 4 * c + e + 1)"

definition month_of :: "bool \<Rightarrow> int \<Rightarrow> int" where
  "month_of l yd =
     (if yd < days_before l 2 then 1 else if yd < days_before l 3 then 2
      else if yd < days_before l 4 then 3 else if yd < days_before l 5 then 4
      else if yd < days_before l 6 then 5 else if yd < days_before l 7 then 6
      else if yd < days_before l 8 then 7 else if yd < days_before l 9 then 8
      else if yd < days_before l 10 then 9 else if yd < days_before l 11 then 10
      else if yd < days_before l 12 then 11 else 12)"

definition date_of :: "int \<Rightarrow> int \<times> int \<times> int" where
  "date_of n =
     (let y = year_of n; yd = n - year_start y; m = month_of (leap y) yd
      in (y, m, yd - days_before (leap y) m + 1))"

text \<open>Sunday is 0.\<close>

definition weekday :: "int \<Rightarrow> int" where
  "weekday n = (n + 1) mod 7"

lemma year_start_cycle:
  assumes "0 \<le> b" "b \<le> 3" "0 \<le> c" "c \<le> 24" "0 \<le> e" "e \<le> 3"
  shows "year_start (400 * a + 100 * b + 4 * c + e + 1) = 146097 * a + 36524 * b + 1461 * c + 365 * e"
proof -
  define k where "k = 400 * a + 100 * b + 4 * c + e"
  have "k div 4 = 100 * a + 25 * b + c" "k div 100 = 4 * a + b" "k div 400 = a"
    using assms by (simp_all add: k_def)
  then show ?thesis unfolding year_start_def k_def [symmetric] by (simp add: k_def)
qed

lemma mod_zero_top: "0 < v \<Longrightarrow> v \<le> q \<Longrightarrow> v mod q = 0 \<longleftrightarrow> v = (q::int)"
  by (cases "v = q") (simp_all add: mod_pos_pos_trivial)

lemma year_start_Suc: "year_start (y + 1) = year_start y + 365 + (if leap y then 1 else 0)"
proof -
  have d: "y div q = (y - 1) div q + (if y mod q = 0 then 1 else 0)" if "0 < q" for q :: int
  proof -
    have "(y - 1) div q = y div q + (y mod q - 1) div q"
    proof -
      have "y - 1 = (y mod q - 1) + q * (y div q)" by simp
      then have "(y - 1) div q = ((y mod q - 1) + q * (y div q)) div q" by (rule arg_cong)
      also have "\<dots> = y div q + (y mod q - 1) div q" using that by (intro div_mult_self2) simp
      finally show ?thesis .
    qed
    moreover have "(y mod q - 1) div q = (if y mod q = 0 then -1 else 0)"
    proof (cases "y mod q = 0")
      case True
      then show ?thesis using that by (simp add: div_eq_minus1)
    next
      case False
      then have "0 \<le> y mod q - 1" "y mod q - 1 < q"
        using pos_mod_sign [OF that, of y] pos_mod_bound [OF that, of y] by linarith+
      then show ?thesis using False by (simp add: div_pos_pos_trivial)
    qed
    ultimately show ?thesis by simp
  qed
  have m: "y mod 400 = 0 \<Longrightarrow> y mod 100 = 0" "y mod 100 = 0 \<Longrightarrow> y mod 4 = 0"
    using dvd_trans [of 100 400 y] dvd_trans [of 4 100 y] by (auto simp: dvd_eq_mod_eq_0)
  show ?thesis
  proof -
    have aux: "365 * Y + A - B + C =
        365 * (Y - 1) + A' - B' + C' + 365 + (if p \<and> (\<not> q \<or> r) then 1 else 0)"
      if "A = A' + (if p then 1 else 0)" "B = B' + (if q then 1 else 0)"
        "C = C' + (if r then 1 else 0)" "r \<Longrightarrow> q" "q \<Longrightarrow> p"
      for A A' B B' C C' Y :: int and p q r
      using that by (cases p; cases q; cases r) simp_all
    have "year_start (y + 1) = 365 * y + y div 4 - y div 100 + y div 400"
      by (simp add: year_start_def)
    then show ?thesis
      unfolding year_start_def [of y] leap_def by (simp only: aux [OF d [of 4] d [of 100] d [of 400] m] simp_thms)
  qed
qed

lemma year_of_bounds: "year_start (year_of n) \<le> n" "n < year_start (year_of n + 1)"
proof -
  define a where "a = n div 146097"
  define r where "r = n mod 146097"
  define b where "b = min 3 (r div 36524)"
  define r1 where "r1 = r - 36524 * b"
  define c where "c = r1 div 1461"
  define r2 where "r2 = r1 mod 1461"
  define e where "e = min 3 (r2 div 365)"
  have y: "year_of n = 400 * a + 100 * b + 4 * c + e + 1"
    unfolding year_of_def Let_def a_def r_def b_def r1_def c_def r2_def e_def ..
  have r: "0 \<le> r" "r < 146097" "n = 146097 * a + r" by (simp_all add: r_def a_def)
  have b: "0 \<le> b" "b \<le> 3" "0 \<le> r1" "r1 < (if b = 3 then 36525 else 36524)"
    using r by (auto simp: b_def r1_def min_def)
  have c: "0 \<le> c" "c \<le> 24" "r1 = 1461 * c + r2" "0 \<le> r2" "r2 < 1461"
    using b by (auto simp: c_def r2_def split: if_splits)
  have c24: "c = 24 \<Longrightarrow> b \<noteq> 3 \<Longrightarrow> r2 < 1460" using b c by auto
  have e: "0 \<le> e" "e \<le> 3" "365 * e \<le> r2" "e < 3 \<Longrightarrow> r2 < 365 * e + 365"
    using c by (auto simp: e_def min_def)
  note ys = year_start_cycle [OF b(1,2) c(1,2) e(1,2), of a]
  have n: "n = 146097 * a + 36524 * b + 1461 * c + r2" using r c by (simp add: r1_def)
  show "year_start (year_of n) \<le> n" unfolding y ys using n e by simp
  have l: "e = 3 \<Longrightarrow> leap (year_of n) \<longleftrightarrow> c \<noteq> 24 \<or> b = 3"
  proof -
    assume e3: "e = 3"
    have pos: "0 < 100 * b + 4 * c + 4" and le: "100 * b + 4 * c + 4 \<le> 400"
      using b(1,2) c(1,2) by linarith+
    have f1: "(400 * a + 100 * b + 4 * c + 4) mod 4 = 0"
      using mod_mult_self2_is_0 [of "100 * a + 25 * b + c + 1" 4] by (simp add: algebra_simps)
    have f2: "(400 * a + 100 * b + 4 * c + 4) mod 100 = (4 * c + 4) mod 100"
      using mod_mult_self2 [of "4 * c + 4" 100 "4 * a + b"] by (simp add: algebra_simps)
    have f3: "(400 * a + 100 * b + 4 * c + 4) mod 400 = (100 * b + 4 * c + 4) mod 400"
      using mod_mult_self2 [of "100 * b + 4 * c + 4" 400 a] by (simp add: algebra_simps)
    have f4: "(4 * c + 4) mod 100 = 0 \<longleftrightarrow> c = 24"
      using mod_zero_top [of "4 * c + 4" 100] c(1,2) by auto
    have f5: "(100 * b + 4 * c + 4) mod 400 = 0 \<longleftrightarrow> b = 3 \<and> c = 24"
      unfolding mod_zero_top [of "100 * b + 4 * c + 4" 400, OF pos le]
    proof
      assume "100 * b + 4 * c + 4 = 400"
      then have "c = 99 - 25 * b" by linarith
      then show "b = 3 \<and> c = 24" using b(1,2) c(1,2) by (cases "b = 3") auto
    qed simp
    have yy: "400 * a + 100 * b + 4 * c + 3 + 1 = 400 * a + 100 * b + 4 * c + 4" by simp
    show ?thesis unfolding y e3 yy leap_def f1 f2 f3 f4 f5 by blast
  qed
  show "n < year_start (year_of n + 1)"
    unfolding year_start_Suc unfolding y ys
    using n e c l [unfolded y] c24 by (cases "e = 3") (auto split: if_splits)
qed

lemma year_start_mono_Suc: "year_start y < year_start (y + 1)"
  by (simp add: year_start_Suc)

lemma year_start_strict: "y < y' \<Longrightarrow> year_start y < year_start y'"
proof (induction "nat (y' - y)" arbitrary: y')
  case (Suc k)
  show ?case
  proof (cases "y' = y + 1")
    case True
    then show ?thesis by (simp add: year_start_mono_Suc)
  next
    case False
    then have "year_start y < year_start (y' - 1)" using Suc by (intro Suc(1)) auto
    then show ?thesis using year_start_mono_Suc [of "y' - 1"] by simp
  qed
qed simp

lemma year_of_unique:
  assumes "year_start y \<le> n" "n < year_start (y + 1)"
  shows "year_of n = y"
proof (rule ccontr)
  assume "year_of n \<noteq> y"
  then consider "year_of n + 1 \<le> y" | "y + 1 \<le> year_of n" by linarith
  then show False
    using year_of_bounds [of n] assms year_start_strict
    by cases (smt (verit))+
qed

definition month_len :: "bool \<Rightarrow> int \<Rightarrow> int" where
  "month_len l m = days_before l (m + 1) - days_before l m"

definition valid_date :: "int \<Rightarrow> int \<Rightarrow> int \<Rightarrow> bool" where
  "valid_date y m d \<longleftrightarrow> 1 \<le> m \<and> m \<le> 12 \<and> 1 \<le> d \<and> d \<le> month_len (leap y) m"

lemma twelve: "1 \<le> m \<Longrightarrow> m \<le> (12::int) \<Longrightarrow> m \<in> {1, 2, 3, 4, 5, 6, 7, 8, 9, 10, 11, 12}"
  by (simp only: insert_iff empty_iff) presburger

lemma month_of_before:
  assumes "1 \<le> m" "m \<le> 12" "days_before l m \<le> yd" "yd < days_before l (m + 1)"
  shows "month_of l yd = m"
  using twelve [OF assms(1,2)] assms(3,4) by (auto simp: month_of_def days_before_def split: if_splits)

text \<open>The two directions of the calendar are inverse to each other.\<close>

lemma days_of_date: "date_of n = (y, m, d) \<Longrightarrow> days_of y m d = n"
  by (auto simp: date_of_def days_of_def Let_def)

lemma date_of_days:
  assumes "valid_date y m d"
  shows "date_of (days_of y m d) = (y, m, d)"
proof -
  have m: "1 \<le> m" "m \<le> 12" and d: "1 \<le> d" "d \<le> month_len (leap y) m"
    using assms by (auto simp: valid_date_def)
  define yd where "yd = days_before (leap y) m + (d - 1)"
  have yd: "0 \<le> yd" "yd < 365 + (if leap y then 1 else 0)" "days_before (leap y) m \<le> yd"
    "yd < days_before (leap y) (m + 1)"
    using twelve [OF m] d by (auto simp: yd_def month_len_def days_before_def split: if_splits)
  have eq: "days_of y m d = year_start y + yd" by (simp add: days_of_def yd_def)
  then have "year_of (days_of y m d) = y"
    using yd by (intro year_of_unique) (auto simp: year_start_Suc)
  then show ?thesis
    using month_of_before [OF m yd(3,4)] by (simp add: date_of_def eq Let_def yd_def)
qed

lemma valid_date_of: "date_of n = (y, m, d) \<Longrightarrow> valid_date y m d"
proof -
  assume dt: "date_of n = (y, m, d)"
  then have y: "y = year_of n" by (simp add: date_of_def Let_def)
  define yd where "yd = n - year_start y"
  have yd: "0 \<le> yd" "yd < 365 + (if leap y then 1 else 0)"
    using year_of_bounds [of n] by (auto simp: yd_def y year_start_Suc)
  have m: "m = month_of (leap y) yd" "d = yd - days_before (leap y) m + 1"
    using dt by (auto simp: date_of_def Let_def yd_def)
  show ?thesis
    using yd unfolding m valid_date_def month_len_def
    by (auto simp: month_of_def days_before_def split: if_splits)
qed

lemma weekday_bounds: "0 \<le> weekday n" "weekday n \<le> 6"
  by (simp_all add: weekday_def pos_mod_bound [of 7, simplified zle_diff1_eq [symmetric]] less_imp_le)

subsection \<open>Instants and locations\<close>

text \<open>
  \<open>time.Date\<close> at midnight of a day plus a clock time: the local reading \<open>u\<close>, taken as if it were
  UTC, is corrected by the offset looked up the way Go does it, with a second look-up because the
  first one uses the wrong instant. In a zone of offset 0 at \<open>u\<close> there is no second look-up.
\<close>

definition resolve :: "(time \<Rightarrow> duration) \<Rightarrow> int \<Rightarrow> time" where
  "resolve off u = (let o1 = off u in if o1 = 0 then u else u - off (u - o1))"

definition time_date :: "(time \<Rightarrow> duration) \<Rightarrow> int \<Rightarrow> int \<Rightarrow> int \<Rightarrow> duration \<Rightarrow> time" where
  "time_date off y m d clock = resolve off (days_of y m d * day + clock)"

definition local :: "(time \<Rightarrow> duration) \<Rightarrow> time \<Rightarrow> int" where
  "local off t = t + off t"

text \<open>\<open>t.AddDate(years, 0, days)\<close> in the location of \<open>t\<close>.\<close>

definition add_date :: "(time \<Rightarrow> duration) \<Rightarrow> time \<Rightarrow> int \<Rightarrow> int \<Rightarrow> time" where
  "add_date off t years days =
     (let lt = local off t; (y, m, d) = date_of (lt div day)
      in time_date off (y + years) m (d + days) (lt mod day))"

definition truncate_time :: "time \<Rightarrow> duration \<Rightarrow> time" where
  "truncate_time t d = t - t mod d"

lemma resolve_const [simp]: "resolve (\<lambda>_. c) u = u - c"
  by (simp add: resolve_def)

lemma add_days_const: "add_date (\<lambda>_. c) t 0 k = t + k * day"
proof -
  obtain y m d where dt: "date_of ((t + c) div day) = (y, m, d)" by (cases "date_of ((t + c) div day)")
  have "days_of y m (d + k) = (t + c) div day + k"
    using days_of_date [OF dt] by (simp add: days_of_def)
  then have "add_date (\<lambda>_. c) t 0 k = ((t + c) div day + k) * day + (t + c) mod day - c"
    by (simp add: add_date_def local_def dt [simplified] time_date_def Let_def)
  also have "\<dots> = t + k * day"
    using div_mult_mod_eq [of "t + c" day] by (simp add: algebra_simps)
  finally show ?thesis .
qed

lemma year_start_5: "year_start (y + 5) \<le> year_start y + 1830"
  using year_start_Suc [of y] year_start_Suc [of "y + 1"] year_start_Suc [of "y + 2"]
    year_start_Suc [of "y + 3"] year_start_Suc [of "y + 4"]
  by (simp add: algebra_simps split: if_split_asm)

lemma days_before_leap: "days_before l m \<le> days_before l' m + 1"
  by (simp add: days_before_def)

lemma add_5_years_const: "add_date (\<lambda>_. c) t 5 0 \<le> t + 1831 * day"
proof -
  obtain y m d where dt: "date_of ((t + c) div day) = (y, m, d)" by (cases "date_of ((t + c) div day)")
  have "days_of (y + 5) m d \<le> (t + c) div day + 1831"
    using days_of_date [OF dt] year_start_5 [of y] days_before_leap [of "leap (y + 5)" m "leap y"]
    by (simp add: days_of_def)
  then have "days_of (y + 5) m d * day \<le> ((t + c) div day + 1831) * day" by simp
  moreover have "add_date (\<lambda>_. c) t 5 0 = days_of (y + 5) m d * day + (t + c) mod day - c"
    by (simp add: add_date_def local_def dt [simplified] time_date_def Let_def)
  moreover have "((t + c) div day + 1831) * day + (t + c) mod day = t + c + 1831 * day"
    using div_mult_mod_eq [of "t + c" day] by (simp add: algebra_simps)
  ultimately show ?thesis by linarith
qed

subsection \<open>strings.Fields\<close>

function str_fields :: "string \<Rightarrow> string list" where
  "str_fields s =
     (let r = dropWhile is_space s
      in if r = [] then []
         else takeWhile (\<lambda>c. \<not> is_space c) r # str_fields (dropWhile (\<lambda>c. \<not> is_space c) r))"
  by pat_completeness auto
termination
proof (relation "measure length")
  show "(dropWhile (\<lambda>c. \<not> is_space c) r, s) \<in> measure length"
    if "r = dropWhile is_space s" "r \<noteq> []" for s r
  proof -
    have "\<not> is_space (hd r)" using that hd_dropWhile by blast
    then have "length (dropWhile (\<lambda>c. \<not> is_space c) r) < length r"
      using that(2) by (cases r) (simp_all add: le_imp_less_Suc length_dropWhile_le)
    also have "length r \<le> length s" by (simp add: that(1) length_dropWhile_le)
    finally show ?thesis by simp
  qed
qed simp

declare str_fields.simps [simp del]

subsection \<open>time.ParseDuration\<close>

text \<open>
  A sign and one or more decimal numbers with a unit. The fraction is computed exactly here; Go
  does it in floating point.
\<close>

definition duration_units :: "(string \<times> nat) list" where
  "duration_units =
     [(''ns'', 1), (''us'', 1000), ([CHR 0xC2, CHR 0xB5, CHR ''s''], 1000),
      ([CHR 0xCE, CHR 0xBC, CHR ''s''], 1000), (''ms'', 1000000), (''s'', 1000000000),
      (''m'', 60000000000), (''h'', 3600000000000)]"

definition is_dec :: "char \<Rightarrow> bool" where
  "is_dec c \<longleftrightarrow> is_digit c \<or> c = CHR ''.''"

text \<open>One number with its unit, in nanoseconds, and the rest.\<close>

definition duration_item :: "string \<Rightarrow> (nat \<times> string) option" where
  "duration_item s =
     (let ip = takeWhile is_digit s; s1 = dropWhile is_digit s;
          frac = has_prefix s1 ''.'';
          fp = (if frac then takeWhile is_digit (tl s1) else []);
          s2 = (if frac then dropWhile is_digit (tl s1) else s1);
          u = takeWhile (\<lambda>c. \<not> is_dec c) s2; s3 = dropWhile (\<lambda>c. \<not> is_dec c) s2
      in if ip = [] \<and> fp = [] then None
         else if 2 ^ 63 < dec_val ip then None
         else case map_of duration_units u of
                None \<Rightarrow> None
              | Some unit \<Rightarrow>
                  (if 2 ^ 63 div unit < dec_val ip then None
                   else let v = dec_val ip * unit + dec_val fp * unit div 10 ^ length fp
                        in if 2 ^ 63 < v then None else Some (v, s3)))"

lemma duration_item_shorter: "duration_item s = Some (v, r) \<Longrightarrow> length r < length s"
proof -
  assume d: "duration_item s = Some (v, r)"
  define s1 where "s1 = dropWhile is_digit s"
  define s2 where "s2 = (if has_prefix s1 ''.'' then dropWhile is_digit (tl s1) else s1)"
  define u where "u = takeWhile (\<lambda>c. \<not> is_dec c) s2"
  have r: "r = dropWhile (\<lambda>c. \<not> is_dec c) s2" and u: "map_of duration_units u \<noteq> None"
    using d unfolding duration_item_def Let_def s1_def s2_def u_def
    by (auto split: if_splits option.splits)
  have "u \<noteq> []" using u by (auto simp: duration_units_def)
  moreover have "length s2 = length u + length r"
    using takeWhile_dropWhile_id [of "\<lambda>c. \<not> is_dec c" s2] unfolding u_def r by (metis length_append)
  moreover have "length s2 \<le> length s1"
  proof -
    have "length (dropWhile is_digit (tl s1)) \<le> length (tl s1)" by (rule length_dropWhile_le)
    then show ?thesis by (cases s1) (auto simp: s2_def)
  qed
  moreover have "length s1 \<le> length s" unfolding s1_def by (rule length_dropWhile_le)
  ultimately show ?thesis by (cases u) auto
qed

function duration_loop :: "nat \<Rightarrow> string \<Rightarrow> nat option" where
  "duration_loop d s =
     (if s = [] then Some d
      else case duration_item s of
             None \<Rightarrow> None
           | Some (v, r) \<Rightarrow> if 2 ^ 63 < d + v then None else duration_loop (d + v) r)"
  by pat_completeness auto
termination
  by (relation "measure (\<lambda>(d, s). length s)") (auto dest: duration_item_shorter)

declare duration_loop.simps [simp del]

definition parse_duration :: "string \<Rightarrow> duration option" where
  "parse_duration s0 =
     (let neg = has_prefix s0 ''-'';
          s = (if neg \<or> has_prefix s0 ''+'' then tl s0 else s0)
      in if s = ''0'' then Some 0
         else if s = [] then None
         else case duration_loop 0 s of
                None \<Rightarrow> None
              | Some d \<Rightarrow> if neg then Some (- int d)
                           else if 2 ^ 63 - 1 < d then None else Some (int d))"

end
