(* ===== verification/Cron.thy ===== *)
theory Cron
  imports GoTime "HOL-Library.Word"
begin

text \<open>
  Cron schedules: \<open>src/src/scheduler/cron.go\<close>. The set of values of a field (a Go map to \<open>true\<close>) is
  the list of its values. An \<open>int\<close> has 64 bits: the only sum that can leave that range, the step of
  the inner loop, is wrapped as Go wraps it.
\<close>

subsection \<open>Fields\<close>

record cron_field =
  vals :: "int list"
  wildcard :: bool
  fmin :: int
  fmax :: int

datatype field_error =
    EmptyItem
  | InvalidStep string
  | InvalidRange string
  | InvalidValue string
  | OutOfRange int int int int
  | NoValues

text \<open>
  The loop \<open>for value := lo; value <= hi; value += step\<close>, with fuel; \<open>cron_values_enough\<close> shows that
  200 rounds are enough for every field.
\<close>

fun cron_values :: "nat \<Rightarrow> int \<Rightarrow> int \<Rightarrow> int \<Rightarrow> int list" where
  "cron_values 0 v hi step = []"
| "cron_values (Suc n) v hi step =
     (if v \<le> hi then v # cron_values n (wrap64 (v + step)) hi step else [])"

text \<open>The base and step of an item, then its bounds.\<close>

definition item_base :: "string \<Rightarrow> field_error + (string \<times> int)" where
  "item_base item =
     (let parts = split_on CHR ''/'' item
      in if 2 < length parts then Inl (InvalidStep item)
         else if length parts = 2 then
           (case atoi (parts ! 1) of
              None \<Rightarrow> Inl (InvalidStep item)
            | Some n \<Rightarrow> if n \<le> 0 then Inl (InvalidStep item) else Inr (parts ! 0, n))
         else Inr (item, 1))"

definition item_bounds :: "int \<Rightarrow> int \<Rightarrow> string \<Rightarrow> string \<Rightarrow> field_error + (int \<times> int)" where
  "item_bounds mn mx item base =
     (if base = ''*'' then Inr (mn, mx)
      else let bounds = split_on CHR ''-'' base
      in if 2 < length bounds then Inl (InvalidRange item)
         else case atoi (bounds ! 0) of
                None \<Rightarrow> Inl (InvalidValue (bounds ! 0))
              | Some lo \<Rightarrow>
                  (if length bounds = 2 then
                     (case atoi (bounds ! 1) of
                        None \<Rightarrow> Inl (InvalidValue (bounds ! 1))
                      | Some hi \<Rightarrow> Inr (lo, hi))
                   else if length bounds = 1 \<and> length (split_on CHR ''/'' item) = 2 then Inr (lo, mx)
                   else Inr (lo, lo)))"

definition parse_item :: "int \<Rightarrow> int \<Rightarrow> string \<Rightarrow> field_error + int list" where
  "parse_item mn mx item =
     (if item = [] then Inl EmptyItem
      else case item_base item of
             Inl e \<Rightarrow> Inl e
           | Inr (base, step) \<Rightarrow>
               (case item_bounds mn mx item base of
                  Inl e \<Rightarrow> Inl e
                | Inr (lo, hi) \<Rightarrow>
                    if lo < mn \<or> hi > mx \<or> hi < lo then Inl (OutOfRange lo hi mn mx)
                    else Inr (cron_values 200 lo hi step)))"

fun parse_items :: "int \<Rightarrow> int \<Rightarrow> string list \<Rightarrow> int list \<Rightarrow> field_error + int list" where
  "parse_items mn mx [] vs = Inr vs"
| "parse_items mn mx (item # items) vs =
     (case parse_item mn mx item of
        Inl e \<Rightarrow> Inl e
      | Inr ws \<Rightarrow> parse_items mn mx items (vs @ ws))"

definition parse_cron_field :: "string \<Rightarrow> int \<Rightarrow> int \<Rightarrow> bool \<Rightarrow> field_error + cron_field" where
  "parse_cron_field spec mn mx sundayAlias =
     (case parse_items mn mx (split_on CHR '','' spec) [] of
        Inl e \<Rightarrow> Inl e
      | Inr vs0 \<Rightarrow>
          (let vs = (if sundayAlias \<and> 7 \<in> set vs0 then vs0 @ [0] else vs0)
           in if vs = [] then Inl NoValues
              else Inr \<lparr>vals = vs, wildcard = (spec = ''*'' \<or> has_prefix spec ''*/''),
                        fmin = mn, fmax = mx\<rparr>))"

subsection \<open>Names\<close>

definition month_names :: "(string \<times> int) list" where
  "month_names = [(''JAN'', 1), (''FEB'', 2), (''MAR'', 3), (''APR'', 4), (''MAY'', 5), (''JUN'', 6),
     (''JUL'', 7), (''AUG'', 8), (''SEP'', 9), (''OCT'', 10), (''NOV'', 11), (''DEC'', 12)]"

definition day_names :: "(string \<times> int) list" where
  "day_names = [(''SUN'', 0), (''MON'', 1), (''TUE'', 2), (''WED'', 3), (''THU'', 4), (''FRI'', 5),
     (''SAT'', 6)]"

definition replace_name :: "(string \<times> int) list \<Rightarrow> string \<Rightarrow> string" where
  "replace_name names b = (case map_of names b of Some n \<Rightarrow> itoa_int n | None \<Rightarrow> b)"

definition normalize_item :: "(string \<times> int) list \<Rightarrow> string \<Rightarrow> string" where
  "normalize_item names item =
     (let parts = split_on CHR ''/'' item;
          bounds = map (replace_name names) (split_on CHR ''-'' (hd parts))
      in join ''/'' (join ''-'' bounds # tl parts))"

definition normalize_cron_field :: "string \<Rightarrow> nat \<Rightarrow> string" where
  "normalize_cron_field spec i =
     (if i = 3 then join '','' (map (normalize_item month_names) (split_on CHR '','' (to_upper spec)))
      else if i = 4 then join '','' (map (normalize_item day_names) (split_on CHR '','' (to_upper spec)))
      else spec)"

subsection \<open>The next run\<close>

definition cron_day_matches :: "cron_field \<Rightarrow> cron_field \<Rightarrow> int \<Rightarrow> int \<Rightarrow> bool" where
  "cron_day_matches dofm dofw mday wday =
     (let dayMatch = mday \<in> set (vals dofm);
          weekMatch = wday \<in> set (vals dofw) \<or> (wday = 0 \<and> 7 \<in> set (vals dofw))
      in if wildcard dofm then weekMatch
         else if wildcard dofw then dayMatch
         else dayMatch \<or> weekMatch)"

datatype cron_error =
    InvalidInterval string
  | NotFiveFields
  | FieldError nat field_error
  | NoOccurrence string

definition expand_macro :: "string \<Rightarrow> string" where
  "expand_macro s =
     (if s = ''@hourly'' then ''0 * * * *''
      else if s = ''@daily'' \<or> s = ''@midnight'' then ''0 0 * * *''
      else if s = ''@weekly'' then ''0 0 * * 0''
      else if s = ''@monthly'' then ''0 0 1 * *''
      else if s = ''@yearly'' \<or> s = ''@annually'' then ''0 0 1 1 *''
      else s)"

definition cron_ranges :: "(int \<times> int) list" where
  "cron_ranges = [(0, 59), (0, 23), (1, 31), (1, 12), (0, 7)]"

fun parse_fields :: "nat \<Rightarrow> string list \<Rightarrow> cron_field list \<Rightarrow> cron_error + cron_field list" where
  "parse_fields i [] fs = Inr fs"
| "parse_fields i (part # parts) fs =
     (case parse_cron_field (normalize_cron_field part i) (fst (cron_ranges ! i))
             (snd (cron_ranges ! i)) (i = 4) of
        Inl e \<Rightarrow> Inl (FieldError (i + 1) e)
      | Inr f \<Rightarrow> parse_fields (i + 1) parts (fs @ [f]))"

definition parse_cron :: "string \<Rightarrow> cron_error + cron_field list" where
  "parse_cron schedule =
     (let parts = str_fields (expand_macro schedule)
      in if length parts \<noteq> 5 then Inl NotFiveFields else parse_fields 0 parts [])"

text \<open>The clock times of one day in the order in which the two inner loops try them.\<close>

definition clock_times :: "cron_field list \<Rightarrow> duration list" where
  "clock_times fs =
     concat (map (\<lambda>h. map (\<lambda>m. h * hour + m * minute)
                        (filter (\<lambda>m. m \<in> set (vals (fs ! 0))) [0..59]))
              (filter (\<lambda>h. h \<in> set (vals (fs ! 1))) [0..23]))"

definition day_matches :: "cron_field list \<Rightarrow> int \<Rightarrow> bool" where
  "day_matches fs n =
     (let (y, m, d) = date_of n
      in m \<in> set (vals (fs ! 3)) \<and> cron_day_matches (fs ! 2) (fs ! 4) d (weekday n))"

definition day_run :: "(time \<Rightarrow> duration) \<Rightarrow> cron_field list \<Rightarrow> time \<Rightarrow> time \<Rightarrow> int \<Rightarrow> time option" where
  "day_run off fs after start n =
     (if \<not> day_matches fs n then None
      else let (y, m, d) = date_of n
           in List.find (\<lambda>c. after < c \<and> \<not> c < start) (map (time_date off y m d) (clock_times fs)))"

text \<open>
  The loop over the days. The outer \<open>None\<close> is lack of fuel (\<open>next_scheduled_time_returns\<close> shows
  that it does not happen for a location with a fixed offset), the inner one the end of the loop.
\<close>

fun cron_days :: "nat \<Rightarrow> (time \<Rightarrow> duration) \<Rightarrow> cron_field list \<Rightarrow> time \<Rightarrow> time \<Rightarrow> time \<Rightarrow> time
    \<Rightarrow> time option option" where
  "cron_days 0 off fs after start limit d = None"
| "cron_days (Suc n) off fs after start limit d =
     (if \<not> d < limit then Some None
      else case day_run off fs after start (local off d div day) of
             Some c \<Rightarrow> Some (Some c)
           | None \<Rightarrow> cron_days n off fs after start limit (add_date off d 0 1))"

definition next_cron :: "(time \<Rightarrow> duration) \<Rightarrow> cron_field list \<Rightarrow> time \<Rightarrow> time option option" where
  "next_cron off fs after =
     (let start = truncate_time after minute + minute;
          (y, m, d) = date_of (local off start div day)
      in cron_days 2000 off fs after start (add_date off start 5 0) (time_date off y m d 0))"

definition next_scheduled_time ::
  "(time \<Rightarrow> duration) \<Rightarrow> string \<Rightarrow> time \<Rightarrow> (cron_error + time) option" where
  "next_scheduled_time off schedule0 after =
     (let schedule = trim_space schedule0
      in if has_prefix schedule ''@every '' then
           Some (case parse_duration (trim_space (trim_prefix schedule ''@every '')) of
                   Some d \<Rightarrow> if d \<le> 0 then Inl (InvalidInterval schedule) else Inr (after + d)
                 | None \<Rightarrow> Inl (InvalidInterval schedule))
         else case parse_cron schedule of
                Inl e \<Rightarrow> Some (Inl e)
              | Inr fs \<Rightarrow>
                  (case next_cron off fs after of
                     None \<Rightarrow> None
                   | Some None \<Rightarrow> Some (Inl (NoOccurrence schedule))
                   | Some (Some c) \<Rightarrow> Some (Inr c)))"

subsection \<open>The values of an item\<close>

lemma cron_values_stop:
  "length (cron_values n v hi step) < n \<Longrightarrow> cron_values (n + k) v hi step = cron_values n v hi step"
  by (induction n v hi step rule: cron_values.induct) auto

lemma cron_values_bounds:
  assumes "0 < step" "hi + step < 2 ^ 63" "- (2 ^ 63) \<le> v" "v \<le> hi"
  shows "length (cron_values n v hi step) \<le> nat (hi - v + 1) \<and>
    (\<forall>x\<in>set (cron_values n v hi step). v \<le> x \<and> x \<le> hi \<and> step dvd x - v)"
  using assms
proof (induction n v hi step rule: cron_values.induct)
  case (2 n v hi step)
  have w: "wrap64 (v + step) = v + step" using 2 by (intro wrap64_id) auto
  show ?case
  proof (cases "v + step \<le> hi")
    case True
    have IH: "length (cron_values n (v + step) hi step) \<le> nat (hi - (v + step) + 1)"
      "\<forall>x\<in>set (cron_values n (v + step) hi step). v + step \<le> x \<and> x \<le> hi \<and> step dvd x - (v + step)"
      using 2 True w by auto
    have dv: "step dvd x - v" if "step dvd x - (v + step)" for x
    proof -
      have "x - v = (x - (v + step)) + step" by simp
      then show ?thesis using that by (metis dvd_add dvd_refl)
    qed
    show ?thesis using IH 2(2,5) w dv by auto
  next
    case False
    then have "cron_values n (v + step) hi step = []" by (cases n) simp_all
    then show ?thesis using 2 w by simp
  qed
qed simp

lemma cron_values_all:
  assumes "0 < step" "hi + step < 2 ^ 63" "- (2 ^ 63) \<le> v" "v \<le> x" "x \<le> hi" "step dvd x - v"
    "nat (hi - v) < n"
  shows "x \<in> set (cron_values n v hi step)"
  using assms
proof (induction n v hi step rule: cron_values.induct)
  case (2 n v hi step)
  have w: "wrap64 (v + step) = v + step" using 2 by (intro wrap64_id) auto
  show ?case
  proof (cases "x = v")
    case False
    obtain k where k: "x - v = step * k" using 2 by (elim dvdE)
    with False 2(2,5) have "1 \<le> k"
      by (metis diff_ge_0_iff_ge eq_iff_diff_eq_0 int_one_le_iff_zero_less mult_zero_right not_le
          order_le_less zero_le_mult_iff)
    then have "step * 1 \<le> step * k" using 2(2) by (intro mult_left_mono) auto
    then have le: "v + step \<le> x" using k by simp
    have "x - (v + step) = step * (k - 1)" using k by (simp add: algebra_simps)
    then have "step dvd x - (v + step)" by simp
    then show ?thesis using 2 le w by auto
  qed (use 2 in auto)
qed simp

lemma cron_values_wrapping:
  assumes "step = 2 ^ 63 - k" "1 \<le> k" "k \<le> 59" "hi \<le> 59" "- 118 \<le> v" "v \<le> hi"
  shows "length (cron_values n v hi step) \<le> (if v < k then 1 else nat v + 2)"
  using assms(5,6)
proof (induction n arbitrary: v rule: less_induct)
  case (less n)
  show ?case
  proof (cases n)
    case (Suc m)
    show ?thesis
    proof (cases "v < k")
      case True
      have w: "wrap64 (v + step) = v + step" using True less.prems assms by (intro wrap64_id) auto
      have "\<not> v + step \<le> hi" using less.prems assms by simp
      then have "cron_values m (v + step) hi step = []" by (cases m) simp_all
      then show ?thesis using True Suc less.prems w by simp
    next
      case False
      have w: "wrap64 (v + step) = v - k - 2 ^ 63"
        using wrap64_over [of "v + step"] False less.prems assms by simp
      show ?thesis
      proof (cases m)
        case 0
        then show ?thesis using Suc False by simp
      next
        case (Suc m')
        have w2: "wrap64 (v - k - 2 ^ 63 + step) = v - 2 * k"
          using wrap64_id [of "v - k - 2 ^ 63 + step"] False less.prems assms by simp
        have IH: "v - 2 * k \<le> hi \<Longrightarrow>
            length (cron_values m' (v - 2 * k) hi step) \<le> (if v - 2 * k < k then 1 else nat (v - 2 * k) + 2)"
          using less.IH [of m' "v - 2 * k"] less.prems assms Suc \<open>n = Suc m\<close> False by auto
        have "v - 2 * k \<le> hi" using less.prems assms by simp
        from IH [OF this] have "length (cron_values m' (v - 2 * k) hi step) + 2 \<le> nat v + 2"
          using False assms(2) by (auto split: if_splits)
        then show ?thesis
          using Suc \<open>n = Suc m\<close> False less.prems assms w w2 by simp
      qed
    qed
  qed simp
qed

lemma cron_values_enough:
  assumes "0 < step" "step < 2 ^ 63" "0 \<le> v" "v \<le> hi" "hi \<le> 59"
  shows "cron_values (200 + k) v hi step = cron_values 200 v hi step"
proof (rule cron_values_stop)
  show "length (cron_values 200 v hi step) < 200"
  proof (cases "hi + step < 2 ^ 63")
    case True
    have "- (2 ^ 63) \<le> v" using assms(3) by simp
    note conjunct1 [OF cron_values_bounds [OF assms(1) True this assms(4)]]
    moreover have "nat (hi - v + 1) < 200" using assms(3,5) by simp
    ultimately show ?thesis by (rule le_less_trans)
  next
    case False
    have k: "step = 2 ^ 63 - (2 ^ 63 - step)" "1 \<le> 2 ^ 63 - step" "2 ^ 63 - step \<le> 59" "- 118 \<le> v"
      using False assms by simp_all
    have "length (cron_values 200 v hi step) \<le> (if v < 2 ^ 63 - step then 1 else nat v + 2)"
      by (rule cron_values_wrapping [OF k(1-3) assms(5) k(4) assms(4)])
    also have "\<dots> < 200" using assms(3-5) by (simp add: nat_less_iff)
    finally show ?thesis .
  qed
qed

subsection \<open>A field\<close>

lemma dec_val_bound: "list_all is_digit s \<Longrightarrow> dec_val s < 10 ^ length s"
proof (induction s rule: rev_induct)
  case (snoc c s)
  then have "dec_val s < 10 ^ length s" "digit_val c < 10" by (auto intro: digit_val_bound)
  then show ?case by (simp add: dec_val_snoc)
qed (simp add: dec_val_def)

lemma atoi_bound: "atoi s = Some n \<Longrightarrow> n < 10 ^ length s"
proof -
  assume a: "atoi s = Some n"
  define r where "r = (if has_prefix s ''-'' \<or> has_prefix s ''+'' then tl s else s)"
  have r: "all_digits r" "n \<le> int (dec_val r)" "length r \<le> length s"
    using a by (auto simp: atoi_def Let_def r_def split: if_splits)
  have "dec_val r < 10 ^ length r" using r(1) by (intro dec_val_bound) (simp add: all_digits_def)
  then have "int (dec_val r) < 10 ^ length r" by (simp add: of_nat_less_iff [symmetric] del: of_nat_less_iff)
  also have "(10::int) ^ length r \<le> 10 ^ length s" using r(3) by (intro power_increasing) simp_all
  finally have "int (dec_val r) < 10 ^ length s" .
  with r(2) show ?thesis by (rule le_less_trans)
qed

lemma split_on_length: "p \<in> set (split_on c s) \<Longrightarrow> length p \<le> length s"
  by (induction s arbitrary: p) (fastforce split: if_splits list.splits)+

lemma item_base_step:
  assumes "item_base item = Inr (base, step)" "length item \<le> 18"
  shows "0 < step \<and> step < 2 ^ 63 - 60"
proof (cases "length (split_on CHR ''/'' item) = 2")
  case True
  then have a: "atoi (split_on CHR ''/'' item ! 1) = Some step" "0 < step"
    using assms(1) by (auto simp: item_base_def Let_def split: option.splits if_splits)
  have "split_on CHR ''/'' item ! 1 \<in> set (split_on CHR ''/'' item)" using True by (intro nth_mem) simp
  then have "length (split_on CHR ''/'' item ! 1) \<le> 18" using split_on_length assms(2) le_trans by blast
  then have "(10::int) ^ length (split_on CHR ''/'' item ! 1) \<le> 10 ^ 18" by (intro power_increasing) simp_all
  then show ?thesis using atoi_bound [OF a(1)] a(2) by simp
next
  case False
  then have "step = 1" using assms(1) by (auto simp: item_base_def Let_def split: if_splits)
  then show ?thesis by simp
qed

lemma parse_item_spec:
  assumes "parse_item mn mx item = Inr vs" "0 \<le> mn" "mx \<le> 59" "length item \<le> 18"
  obtains base step lo hi where
    "item_base item = Inr (base, step)" "item_bounds mn mx item base = Inr (lo, hi)"
    "mn \<le> lo" "lo \<le> hi" "hi \<le> mx" "0 < step"
    "set vs = {x. lo \<le> x \<and> x \<le> hi \<and> step dvd x - lo}"
proof -
  obtain base step lo hi where p:
    "item_base item = Inr (base, step)" "item_bounds mn mx item base = Inr (lo, hi)"
    "mn \<le> lo" "lo \<le> hi" "hi \<le> mx" "vs = cron_values 200 lo hi step"
    using assms(1) by (auto simp: parse_item_def not_less split: if_splits sum.splits)
  have st: "0 < step" "hi + step < 2 ^ 63" "- (2 ^ 63) \<le> lo"
    using item_base_step [OF p(1) assms(4)] p assms by auto
  have "set vs = {x. lo \<le> x \<and> x \<le> hi \<and> step dvd x - lo}"
  proof (intro set_eqI iffI)
    fix x assume "x \<in> set vs"
    then show "x \<in> {x. lo \<le> x \<and> x \<le> hi \<and> step dvd x - lo}"
      using conjunct2 [OF cron_values_bounds [OF st p(4)]] unfolding p(6) by blast
  next
    fix x assume "x \<in> {x. lo \<le> x \<and> x \<le> hi \<and> step dvd x - lo}"
    moreover have "nat (hi - lo) < 200" using p assms by simp
    ultimately show "x \<in> set vs" unfolding p(6) using cron_values_all [OF st] by blast
  qed
  with p st that show ?thesis by blast
qed

lemma parse_item_range:
  assumes "parse_item mn mx item = Inr vs" "0 \<le> mn" "mx \<le> 59" "length item \<le> 18"
  shows "vs \<noteq> [] \<and> set vs \<subseteq> {mn..mx}"
proof -
  obtain base step lo hi where p: "mn \<le> lo" "lo \<le> hi" "hi \<le> mx"
    "set vs = {x. lo \<le> x \<and> x \<le> hi \<and> step dvd x - lo}"
    using parse_item_spec [OF assms] by metis
  then have "lo \<in> set vs" by simp
  with p show ?thesis by auto
qed

lemma parse_items_range:
  "parse_items mn mx items vs0 = Inr vs \<Longrightarrow> 0 \<le> mn \<Longrightarrow> mx \<le> 59 \<Longrightarrow> \<forall>i\<in>set items. length i \<le> 18 \<Longrightarrow>
   set vs0 \<subseteq> {mn..mx} \<Longrightarrow> set vs \<subseteq> {mn..mx} \<and> (items \<noteq> [] \<longrightarrow> vs \<noteq> []) \<and> (vs0 \<noteq> [] \<longrightarrow> vs \<noteq> [])"
proof (induction mn mx items vs0 rule: parse_items.induct)
  case (2 mn mx item items vs0)
  from 2(2) obtain ws where ws: "parse_item mn mx item = Inr ws" "parse_items mn mx items (vs0 @ ws) = Inr vs"
    by (auto split: sum.splits)
  then have r: "ws \<noteq> []" "set ws \<subseteq> {mn..mx}" using parse_item_range [OF ws(1)] 2 by auto
  then show ?case using 2(1) [OF ws] 2(3-6) by auto
qed auto

lemma parse_items_mem:
  "parse_items mn mx items vs0 = Inr vs \<Longrightarrow>
   x \<in> set vs \<longleftrightarrow> x \<in> set vs0 \<or> (\<exists>i\<in>set items. \<exists>ws. parse_item mn mx i = Inr ws \<and> x \<in> set ws)"
  by (induction mn mx items vs0 rule: parse_items.induct) (auto split: sum.splits)

subsection \<open>The search in a location with a fixed offset\<close>

lemma find_sorted:
  "sorted xs \<Longrightarrow> List.find P xs = Some c \<Longrightarrow> c \<in> set xs \<and> P c \<and> (\<forall>x\<in>set xs. P x \<longrightarrow> c \<le> x)"
  by (induction xs) (auto split: if_splits)

lemma find_None: "List.find P xs = None \<Longrightarrow> x \<in> set xs \<Longrightarrow> \<not> P x"
  by (auto simp: find_None_iff)

definition cron_matches :: "(time \<Rightarrow> duration) \<Rightarrow> cron_field list \<Rightarrow> time \<Rightarrow> bool" where
  "cron_matches off fs c \<longleftrightarrow>
     (let l = local off c
      in l mod minute = 0 \<and> day_matches fs (l div day) \<and>
         l mod day div hour \<in> set (vals (fs ! 1)) \<and> l mod hour div minute \<in> set (vals (fs ! 0)))"

lemma clock_times_mem:
  "x \<in> set (clock_times fs) \<longleftrightarrow>
     (\<exists>h m. x = h * hour + m * minute \<and> 0 \<le> h \<and> h \<le> 23 \<and> 0 \<le> m \<and> m \<le> 59 \<and>
            h \<in> set (vals (fs ! 1)) \<and> m \<in> set (vals (fs ! 0)))"
  unfolding clock_times_def by fastforce

lemma sorted_concat_map:
  assumes "\<And>x. x \<in> set xs \<Longrightarrow> sorted (f x)"
    and "\<And>x y a b. x \<in> set xs \<Longrightarrow> y \<in> set xs \<Longrightarrow> x < y \<Longrightarrow> a \<in> set (f x) \<Longrightarrow> b \<in> set (f y) \<Longrightarrow> a \<le> b"
    and "sorted xs" "distinct xs"
  shows "sorted (concat (map f xs) :: int list)"
  using assms
proof (induction xs)
  case (Cons x xs)
  have "sorted (concat (map f xs))"
  proof (rule Cons.IH)
    show "a \<le> b" if "x \<in> set xs" "y \<in> set xs" "x < y" "a \<in> set (f x)" "b \<in> set (f y)" for x y a b
      using that by (intro Cons.prems(2) [of x y]) auto
  qed (use Cons.prems in auto)
  moreover have "a \<le> b" if "a \<in> set (f x)" "y \<in> set xs" "b \<in> set (f y)" for a y b
  proof -
    have "x < y" using Cons.prems(3,4) that by (metis distinct.simps(2) le_neq_trans sorted_simps(2))
    then show ?thesis using Cons.prems(2) that by auto
  qed
  ultimately show ?case using Cons.prems(1) by (auto simp: sorted_append)
qed simp

lemma sorted_clock_times: "sorted (clock_times fs)"
  unfolding clock_times_def
proof (rule sorted_concat_map)
  show "sorted (map (\<lambda>m. h * hour + m * minute) (filter (\<lambda>m. m \<in> set (vals (fs ! 0))) [0..59]))" for h
    by (rule sorted_map_mono) (auto simp: mono_on_def sorted_wrt_filter)
qed (auto simp: sorted_wrt_filter)

lemma div_mod_step:
  assumes "0 < b" "0 \<le> x" "x < (b::int)"
  shows "(n * b + x) div b = n" "(n * b + x) mod b = x"
  using assms by (simp_all add: div_mult_self3 mod_mult_self3 div_pos_pos_trivial mod_pos_pos_trivial)

lemma clock_parts:
  assumes "0 \<le> h" "h \<le> 23" "0 \<le> m" "m \<le> (59::int)"
  shows "(n * day + (h * hour + m * minute)) div day = n"
    "(n * day + (h * hour + m * minute)) mod day div hour = h"
    "(n * day + (h * hour + m * minute)) mod hour div minute = m"
    "(n * day + (h * hour + m * minute)) mod minute = 0"
proof -
  have x: "0 \<le> h * hour + m * minute" "h * hour + m * minute < day"
    and y: "0 \<le> m * minute" "m * minute < hour" and d: "0 < day" "0 < hour" "0 < minute"
    using assms by simp_all
  show "(n * day + (h * hour + m * minute)) div day = n"
    by (rule div_mod_step(1) [OF d(1) x])
  show "(n * day + (h * hour + m * minute)) mod day div hour = h"
    unfolding div_mod_step(2) [OF d(1) x] by (rule div_mod_step(1) [OF d(2) y])
  have e: "n * day + (h * hour + m * minute) = (24 * n + h) * hour + m * minute" by simp
  show "(n * day + (h * hour + m * minute)) mod hour div minute = m"
    unfolding e div_mod_step(2) [OF d(2) y] by simp
  have e2: "n * day + (h * hour + m * minute) = (1440 * n + 60 * h + m) * minute" by simp
  show "(n * day + (h * hour + m * minute)) mod minute = 0"
    unfolding e2 by (rule mod_mult_self2_is_0)
qed

text \<open>For a fixed offset the instants tried for day \<open>n\<close> are those of that day that match.\<close>

lemma day_run_instants:
  assumes "date_of n = (y, m, d)"
  shows "c \<in> set (map (time_date (\<lambda>_. o1) y m d) (clock_times fs)) \<longleftrightarrow>
    (c + o1) div day = n \<and> (c + o1) mod minute = 0 \<and> (c + o1) mod day div hour \<in> set (vals (fs ! 1)) \<and>
    (c + o1) mod hour div minute \<in> set (vals (fs ! 0))" (is "?l \<longleftrightarrow> ?r")
proof
  have td: "time_date (\<lambda>_. o1) y m d x = n * day + x - o1" for x
    using days_of_date [OF assms] by (simp add: time_date_def)
  show "?l \<Longrightarrow> ?r"
  proof -
    assume ?l
    then obtain h mi where c: "c + o1 = n * day + (h * hour + mi * minute)"
      and b: "0 \<le> h" "h \<le> 23" "0 \<le> mi" "mi \<le> 59" "h \<in> set (vals (fs ! 1))" "mi \<in> set (vals (fs ! 0))"
      unfolding set_map image_iff td by (auto simp: clock_times_mem)
    show ?r unfolding c clock_parts [OF b(1-4)] using b by simp
  qed
  show "?r \<Longrightarrow> ?l"
  proof -
    assume r: ?r
    define l where "l = c + o1"
    define h where "h = l mod day div hour"
    define mi where "mi = l mod hour div minute"
    have "l mod hour mod minute = l mod minute" by (rule mod_mod_cancel) (simp add: dvd_def)
    then have lm: "l mod hour = mi * minute"
      using r div_mult_mod_eq [of "l mod hour" minute] by (simp add: l_def mi_def)
    have "l mod day mod hour = l mod hour" by (rule mod_mod_cancel) (simp add: dvd_def)
    then have ld: "l mod day = h * hour + mi * minute"
      using div_mult_mod_eq [of "l mod day" hour] lm by (simp only: h_def)
    have l: "l = n * day + (h * hour + mi * minute)"
      using div_mult_mod_eq [of l day] ld r by (simp only: l_def)
    have "0 \<le> l mod day" "l mod day < day" "0 \<le> l mod hour" "l mod hour < hour"
      by (rule pos_mod_sign pos_mod_bound, simp)+
    then have b: "0 \<le> h" "h \<le> 23" "0 \<le> mi" "mi \<le> 59"
      using ld lm by simp_all
    have "h * hour + mi * minute \<in> set (clock_times fs)"
      unfolding clock_times_mem using b r by (auto simp: h_def mi_def l_def)
    moreover have "c = time_date (\<lambda>_. o1) y m d (h * hour + mi * minute)"
      using l by (simp add: td l_def)
    ultimately show ?l by (auto simp del: time_date_def)
  qed
qed

lemma day_run_const:
  "day_run (\<lambda>_. o1) fs after start n = Some c \<Longrightarrow>
     cron_matches (\<lambda>_. o1) fs c \<and> (c + o1) div day = n \<and> after < c \<and> start \<le> c \<and>
     (\<forall>c'. cron_matches (\<lambda>_. o1) fs c' \<and> (c' + o1) div day = n \<and> after < c' \<and> start \<le> c' \<longrightarrow> c \<le> c')"
  "day_run (\<lambda>_. o1) fs after start n = None \<Longrightarrow>
     cron_matches (\<lambda>_. o1) fs c' \<Longrightarrow> (c' + o1) div day = n \<Longrightarrow> after < c' \<Longrightarrow> \<not> start \<le> c'"
proof -
  obtain y m d where dt: "date_of n = (y, m, d)" by (cases "date_of n")
  define cs where "cs = map (time_date (\<lambda>_. o1) y m d) (clock_times fs)"
  have run: "day_run (\<lambda>_. o1) fs after start n =
      (if day_matches fs n then List.find (\<lambda>c. after < c \<and> \<not> c < start) cs else None)"
    by (simp add: day_run_def dt cs_def del: date_of_def)
  have mem: "c \<in> set cs \<longleftrightarrow>
    (c + o1) div day = n \<and> (c + o1) mod minute = 0 \<and> (c + o1) mod day div hour \<in> set (vals (fs ! 1)) \<and>
    (c + o1) mod hour div minute \<in> set (vals (fs ! 0))" for c
    unfolding cs_def by (rule day_run_instants [OF dt])
  have mt: "cron_matches (\<lambda>_. o1) fs c \<and> (c + o1) div day = n \<longleftrightarrow> day_matches fs n \<and> c \<in> set cs" for c
    unfolding mem cron_matches_def local_def Let_def by blast
  have "sorted cs"
    unfolding cs_def by (rule sorted_map_mono [OF sorted_clock_times]) (simp add: mono_on_def time_date_def)
  show "cron_matches (\<lambda>_. o1) fs c \<and> (c + o1) div day = n \<and> after < c \<and> start \<le> c \<and>
     (\<forall>c'. cron_matches (\<lambda>_. o1) fs c' \<and> (c' + o1) div day = n \<and> after < c' \<and> start \<le> c' \<longrightarrow> c \<le> c')"
    if "day_run (\<lambda>_. o1) fs after start n = Some c"
  proof -
    have dm: "day_matches fs n" and f: "List.find (\<lambda>c. after < c \<and> \<not> c < start) cs = Some c"
      using that run by (simp_all split: if_splits)
    show ?thesis using find_sorted [OF \<open>sorted cs\<close> f] dm mt by (auto simp: not_less)
  qed
  show "\<not> start \<le> c'" if "day_run (\<lambda>_. o1) fs after start n = None" "cron_matches (\<lambda>_. o1) fs c'"
    "(c' + o1) div day = n" "after < c'"
  proof -
    have "day_matches fs n" "c' \<in> set cs" using that mt by blast+
    then have "\<not> (after < c' \<and> \<not> c' < start)"
      using that(1) run find_None [of "\<lambda>c. after < c \<and> \<not> c < start" cs c'] by simp
    then show ?thesis using that(4) by simp
  qed
qed

lemma cron_days_step:
  "cron_days (Suc k) (\<lambda>_. o1) fs after start limit (n * day - o1) =
     (if \<not> n * day - o1 < limit then Some None
      else case day_run (\<lambda>_. o1) fs after start n of
             Some c \<Rightarrow> Some (Some c)
           | None \<Rightarrow> cron_days k (\<lambda>_. o1) fs after start limit ((n + 1) * day - o1))"
proof -
  have ld: "local (\<lambda>_. o1) (n * day - o1) div day = n" by (simp add: local_def)
  have nx: "add_date (\<lambda>_. o1) (n * day - o1) 0 1 = (n + 1) * day - o1"
    by (simp add: add_days_const)
  show ?thesis by (simp only: cron_days.simps ld nx)
qed

lemma cron_days_const:
  "cron_days k (\<lambda>_. o1) fs after start limit (n * day - o1) = Some (Some c) \<Longrightarrow>
     cron_matches (\<lambda>_. o1) fs c \<and> after < c \<and> start \<le> c \<and>
     (\<forall>c'. cron_matches (\<lambda>_. o1) fs c' \<and> n \<le> (c' + o1) div day \<and> after < c' \<and> start \<le> c' \<longrightarrow> c \<le> c')"
  "cron_days k (\<lambda>_. o1) fs after start limit (n * day - o1) = Some None \<Longrightarrow>
     cron_matches (\<lambda>_. o1) fs c' \<Longrightarrow> n \<le> (c' + o1) div day \<Longrightarrow> after < c' \<Longrightarrow> start \<le> c' \<Longrightarrow>
     limit \<le> c'"
proof (induction k arbitrary: n)
  case (Suc k)
  {
    case 1
    note step = cron_days_step [of k o1 fs after start limit n]
    show ?case
    proof (cases "day_run (\<lambda>_. o1) fs after start n")
      case (Some c0)
      have "(if \<not> n * day - o1 < limit then Some None else Some (Some c0)) = Some (Some c)"
        using trans [OF step [symmetric] 1] unfolding Some by (simp only: option.case)
      then have "c0 = c" by (simp split: if_splits)
      have "c \<le> c'" if c': "cron_matches (\<lambda>_. o1) fs c' \<and> n \<le> (c' + o1) div day \<and> after < c' \<and> start \<le> c'" for c'
      proof (cases "(c' + o1) div day = n")
        case True
        then show ?thesis using day_run_const(1) [OF Some] c' \<open>c0 = c\<close> by blast
      next
        case False
        have "(c + o1) div day = n" using day_run_const(1) [OF Some] \<open>c0 = c\<close> by blast
        then have "(c + o1) div day < (c' + o1) div day" using False c' by auto
        then have "c + o1 < c' + o1" by (meson linorder_not_less zdiv_mono1 zero_less_numeral mult_pos_pos)
        then show ?thesis by simp
      qed
      then show ?thesis using day_run_const(1) [OF Some] \<open>c0 = c\<close> by blast
    next
      case None
      with 1 have rest: "cron_days k (\<lambda>_. o1) fs after start limit ((n + 1) * day - o1) = Some (Some c)"
        unfolding step by (simp only: option.case option.inject option.distinct split: if_split_asm)
      show ?thesis using Suc.IH(1) [OF rest] day_run_const(2) [OF None] by (smt (verit))
    qed
  next
    case 2
    note step = cron_days_step [of k o1 fs after start limit n]
    show ?case
    proof (cases "n * day - o1 < limit")
      case True
      with 2(1) have none: "day_run (\<lambda>_. o1) fs after start n = None"
        and rest: "cron_days k (\<lambda>_. o1) fs after start limit ((n + 1) * day - o1) = Some None"
        unfolding step by (simp_all split: option.splits)
      have "(c' + o1) div day \<noteq> n" using day_run_const(2) [OF none] 2 by blast
      then show ?thesis using Suc.IH(2) [OF rest] 2 by simp
    next
      case False
      have "n * day \<le> (c' + o1) div day * day" using 2(3) by simp
      also have "\<dots> \<le> c' + o1" using div_mult_mod_eq [of "c' + o1" day] pos_mod_sign [of day "c' + o1"] by linarith
      finally show ?thesis using False by simp
    qed
  }
qed simp_all

lemma cron_days_fuel:
  "limit \<le> n * day - o1 + int k * day \<Longrightarrow>
   cron_days (Suc k) (\<lambda>_. o1) fs after start limit (n * day - o1) \<noteq> None"
proof (induction k arbitrary: n)
  case (Suc k)
  have "limit \<le> (n + 1) * day - o1 + int k * day" using Suc.prems by (simp add: algebra_simps)
  from Suc.IH [OF this] show ?case
    unfolding cron_days_step [of "Suc k"] by (simp only: not_None_eq split: if_split option.split) blast
qed simp

lemma minute_aligned:
  assumes "c mod minute = 0" "after < c"
  shows "truncate_time after minute + minute \<le> c"
proof -
  have a: "after = minute * (after div minute) + after mod minute" and c: "c = minute * (c div minute)"
    using mult_div_mod_eq [of minute after] mult_div_mod_eq [of minute c] assms(1) by linarith+
  have t: "truncate_time after minute + minute = minute * (after div minute + 1)"
    using a unfolding truncate_time_def by (simp only: distrib_left mult_1_right)
  have "0 \<le> after mod minute" by (rule pos_mod_sign) simp
  then have "minute * (after div minute) < minute * (c div minute)" using assms(2) a c by linarith
  then have "after div minute + 1 \<le> c div minute" by simp
  then have "minute * (after div minute + 1) \<le> minute * (c div minute)" by (intro mult_left_mono) auto
  with c show ?thesis unfolding t by (rule ord_le_eq_trans [OF _ sym, rotated])
qed

lemma truncate_minute: "after < truncate_time after minute + minute"
proof -
  have "after mod minute < minute" by (rule pos_mod_bound) simp
  then show ?thesis by (simp add: truncate_time_def)
qed

lemma next_cron_const:
  fixes after o1 :: int
  defines "start \<equiv> truncate_time after minute + minute"
  shows "next_cron (\<lambda>_. o1) fs after \<noteq> None"
    "next_cron (\<lambda>_. o1) fs after = Some (Some c) \<Longrightarrow>
       cron_matches (\<lambda>_. o1) fs c \<and> after < c \<and> start \<le> c \<and>
       (\<forall>c'. cron_matches (\<lambda>_. o1) fs c' \<and> start \<le> c' \<longrightarrow> c \<le> c')"
    "next_cron (\<lambda>_. o1) fs after = Some None \<Longrightarrow> cron_matches (\<lambda>_. o1) fs c' \<Longrightarrow> start \<le> c' \<Longrightarrow>
       add_date (\<lambda>_. o1) start 5 0 \<le> c'"
proof -
  define n where "n = (start + o1) div day"
  obtain y m d where dt: "date_of n = (y, m, d)" by (cases "date_of n")
  have nc: "next_cron (\<lambda>_. o1) fs after =
      cron_days 2000 (\<lambda>_. o1) fs after start (add_date (\<lambda>_. o1) start 5 0) (n * day - o1)"
  proof -
    have "time_date (\<lambda>_. o1) y m d 0 = n * day - o1"
      using days_of_date [OF dt] by (simp add: time_date_def)
    then show ?thesis
      unfolding next_cron_def start_def [symmetric] Let_def local_def n_def [symmetric] dt prod.case by simp
  qed
  have lt: "after < start" unfolding start_def by (rule truncate_minute)
  have le: "n \<le> (c' + o1) div day" if "start \<le> c'" for c'
    unfolding n_def using that by (intro zdiv_mono1) auto
  have "start + o1 < n * day + day"
    unfolding n_def using div_mult_mod_eq [of "start + o1" day] pos_mod_bound [of day "start + o1"] by simp
  then have "add_date (\<lambda>_. o1) start 5 0 \<le> n * day - o1 + int 1999 * day"
    using add_5_years_const [of o1 start] by simp
  from cron_days_fuel [OF this]
  have "cron_days (Suc 1999) (\<lambda>_. o1) fs after start (add_date (\<lambda>_. o1) start 5 0) (n * day - o1) \<noteq> None" .
  moreover have e: "2000 = Suc 1999" by simp
  ultimately show "next_cron (\<lambda>_. o1) fs after \<noteq> None" unfolding nc e by blast
  show "cron_matches (\<lambda>_. o1) fs c \<and> after < c \<and> start \<le> c \<and>
       (\<forall>c'. cron_matches (\<lambda>_. o1) fs c' \<and> start \<le> c' \<longrightarrow> c \<le> c')"
    if "next_cron (\<lambda>_. o1) fs after = Some (Some c)"
    using cron_days_const(1) [OF that [unfolded nc]] le lt by (meson less_le_trans)
  show "add_date (\<lambda>_. o1) start 5 0 \<le> c'"
    if "next_cron (\<lambda>_. o1) fs after = Some None" "cron_matches (\<lambda>_. o1) fs c'" "start \<le> c'"
    using cron_days_const(2) [OF that(1) [unfolded nc] that(2)] le lt that(3) by (meson less_le_trans)
qed

lemma cron_days_after:
  "cron_days k off fs after start limit d = Some (Some c) \<Longrightarrow> after < c \<and> start \<le> c"
proof (induction k off fs after start limit d rule: cron_days.induct)
  case (2 n off fs after start limit d)
  have run: "after < c0 \<and> start \<le> c0" if "day_run off fs after start k = Some c0" for c0 k
    using that by (auto simp: day_run_def find_Some_iff split: if_splits prod.splits)
  show ?case
    using 2 run by (auto split: if_splits option.splits)
qed simp

subsection \<open>Evaluation\<close>

lemma cron_values_eval:
  "cron_values (numeral k) v hi step =
     (if v \<le> hi then v # cron_values (pred_numeral k) (wrap64 (v + step)) hi step else [])"
  by (simp add: numeral_eq_Suc)

lemma cron_days_eval:
  "cron_days (numeral k) off fs after start limit d =
     (if \<not> d < limit then Some None
      else case day_run off fs after start (local off d div day) of
             Some c \<Rightarrow> Some (Some c)
           | None \<Rightarrow> cron_days (pred_numeral k) off fs after start limit (add_date off d 0 1))"
  by (simp add: numeral_eq_Suc)

lemmas field_evals =
  str_evals str_fields.simps expand_macro_def cron_ranges_def parse_cron_def
  normalize_cron_field_def normalize_item_def replace_name_def month_names_def day_names_def
  parse_cron_field_def parse_item_def item_base_def item_bounds_def wrap64_def cron_values_eval
  itoa_int_def itoa_nat.simps digit_char_def char_of_eq_iff

lemma add_date_eval:
  "date_of (local off t div day) = (y, m, d) \<Longrightarrow>
   add_date off t a b = time_date off (y + a) m (d + b) (local off t mod day)"
  by (simp add: add_date_def Let_def)

lemma day_matches_eval:
  "date_of n = (y, m, d) \<Longrightarrow>
   day_matches fs n \<longleftrightarrow> m \<in> set (vals (fs ! 3)) \<and> cron_day_matches (fs ! 2) (fs ! 4) d (weekday n)"
  by (simp add: day_matches_def)

lemma day_run_eval:
  "date_of n = (y, m, d) \<Longrightarrow>
   day_run off fs after start n =
     (if \<not> day_matches fs n then None
      else List.find (\<lambda>c. after < c \<and> \<not> c < start) (map (time_date off y m d) (clock_times fs)))"
  by (simp add: day_run_def)

lemma next_cron_eval:
  "start = truncate_time after minute + minute \<Longrightarrow> date_of (local off start div day) = (y, m, d) \<Longrightarrow>
   next_cron off fs after =
     cron_days 2000 off fs after start (add_date off start 5 0) (time_date off y m d 0)"
  by (simp add: next_cron_def Let_def)

lemmas calendar_evals =
  date_of_def year_of_def year_start_def leap_def month_of_def days_before_def days_of_def
  weekday_def local_def time_date_def resolve_def truncate_time_def Let_def

lemmas cron_evals =
  calendar_evals add_date_eval day_matches_eval day_run_eval next_cron_eval cron_days_eval
  cron_day_matches_def clock_times_def upto.simps

subsection \<open>Properties\<close>

lemma scheduled_later:
  assumes "next_scheduled_time off s after = Some (Inr c)"
  shows "after < c"
proof (cases "has_prefix (trim_space s) ''@every ''")
  case True
  then show ?thesis
    using assms by (auto simp: next_scheduled_time_def Let_def split: option.splits if_splits)
next
  case False
  then obtain fs where "next_cron off fs after = Some (Some c)"
    using assms by (auto simp: next_scheduled_time_def Let_def split: sum.splits option.splits)
  then show ?thesis
    using cron_days_after by (auto simp: next_cron_def Let_def split: prod.splits)
qed

text \<open>
  in every location, whatever its offsets and their changes, a next run lies after the given
  instant; so a task that has been given its next run is not due again at once.
\<close>

theorem next_run_is_later:
  assumes "next_scheduled_time off s after = Some (Inr c)"
  shows "after < c"
  by (rule scheduled_later [OF assms])

theorem next_run_is_later_witness:
  "next_scheduled_time (\<lambda>_. 0) ''@every 15m'' 5 = Some (Inr (5 + 15 * minute)) \<and> (5::int) < 5 + 15 * minute"
proof -
  have n: "next_scheduled_time (\<lambda>_. 0) ''@every 15m'' 5 = Some (Inr (5 + 15 * minute))"
    by (simp add: next_scheduled_time_def str_evals parse_duration_def duration_loop.simps
        duration_item_def is_dec_def duration_units_def)
  show ?thesis using n next_run_is_later [OF n] by simp
qed



text \<open>
  a field that parses has at least one value and all its values lie within the field's range;
  they are those of its items, and an item \<open>lo-hi/step\<close> denotes the progression from \<open>lo\<close> to \<open>hi\<close>.
  (For items of at most 18 bytes: a step near 2^63 overflows the loop variable.)
\<close>

theorem cron_field_values:
  assumes "parse_cron_field spec mn mx False = Inr f" "0 \<le> mn" "mx \<le> 59"
    and "\<forall>i\<in>set (split_on CHR '','' spec). length i \<le> 18"
  shows "vals f \<noteq> [] \<and> set (vals f) \<subseteq> {mn..mx} \<and>
    (\<forall>x. x \<in> set (vals f) \<longleftrightarrow>
       (\<exists>i\<in>set (split_on CHR '','' spec). \<exists>base step lo hi.
          item_base i = Inr (base, step) \<and> item_bounds mn mx i base = Inr (lo, hi) \<and>
          mn \<le> lo \<and> lo \<le> hi \<and> hi \<le> mx \<and> lo \<le> x \<and> x \<le> hi \<and> step dvd x - lo))"
proof -
  have v: "parse_items mn mx (split_on CHR '','' spec) [] = Inr (vals f)" "vals f \<noteq> []"
    using assms(1) by (auto simp: parse_cron_field_def Let_def split: sum.splits if_splits)
  have item: "(\<exists>ws. parse_item mn mx i = Inr ws \<and> x \<in> set ws) \<longleftrightarrow>
      (\<exists>base step lo hi. item_base i = Inr (base, step) \<and> item_bounds mn mx i base = Inr (lo, hi) \<and>
          mn \<le> lo \<and> lo \<le> hi \<and> hi \<le> mx \<and> lo \<le> x \<and> x \<le> hi \<and> step dvd x - lo)" (is "?l \<longleftrightarrow> ?r")
    if i: "i \<in> set (split_on CHR '','' spec)" for i x
  proof
    assume ?l
    then obtain ws where ws: "parse_item mn mx i = Inr ws" "x \<in> set ws" by blast
    have "length i \<le> 18" using assms(4) i by blast
    then obtain base step lo hi where
      "item_base i = Inr (base, step)" "item_bounds mn mx i base = Inr (lo, hi)"
      "mn \<le> lo" "lo \<le> hi" "hi \<le> mx" "0 < step"
      "set ws = {x. lo \<le> x \<and> x \<le> hi \<and> step dvd x - lo}"
      by (rule parse_item_spec [OF ws(1) assms(2,3)])
    then show ?r using ws(2) by blast
  next
    assume ?r
    then obtain base step lo hi where r: "item_base i = Inr (base, step)"
      "item_bounds mn mx i base = Inr (lo, hi)" "mn \<le> lo" "lo \<le> hi" "hi \<le> mx" "lo \<le> x" "x \<le> hi"
      "step dvd x - lo" by blast
    have "i \<noteq> []"
    proof
      assume "i = []"
      then have "base = []" using r(1) by (simp add: item_base_def)
      then show False using r(2) by (simp add: item_bounds_def \<open>i = []\<close> atoi_def all_digits_def has_prefix_def)
    qed
    then have pi: "parse_item mn mx i = Inr (cron_values 200 lo hi step)" using r by (simp add: parse_item_def)
    have "x \<in> set (cron_values 200 lo hi step)"
    proof -
      have "length i \<le> 18" using assms(4) i by blast
      then obtain base' step' lo' hi'
        where "item_base i = Inr (base', step')" "item_bounds mn mx i base' = Inr (lo', hi')"
          "mn \<le> lo'" "lo' \<le> hi'" "hi' \<le> mx" "0 < step'"
          "set (cron_values 200 lo hi step) = {x. lo' \<le> x \<and> x \<le> hi' \<and> step' dvd x - lo'}"
        by (rule parse_item_spec [OF pi assms(2,3)])
      then show ?thesis using r by simp
    qed
    with pi show ?l by blast
  qed
  have mem: "x \<in> set (vals f) \<longleftrightarrow> (\<exists>i\<in>set (split_on CHR '','' spec). \<exists>base step lo hi.
          item_base i = Inr (base, step) \<and> item_bounds mn mx i base = Inr (lo, hi) \<and>
          mn \<le> lo \<and> lo \<le> hi \<and> hi \<le> mx \<and> lo \<le> x \<and> x \<le> hi \<and> step dvd x - lo)" for x
    unfolding parse_items_mem [OF v(1)] list.set empty_iff simp_thms by (rule bex_cong [OF refl item])
  have "set (vals f) \<subseteq> {mn..mx}"
    using conjunct1 [OF parse_items_range [OF v(1) assms(2,3,4)]] by simp
  then show ?thesis using v(2) mem by (intro conjI allI)
qed

theorem cron_field_values_witness:
  "parse_cron_field ''1-7/3,20'' 0 23 False = Inr \<lparr>vals = [1, 4, 7, 20], wildcard = False, fmin = 0, fmax = 23\<rparr> \<and>
   set [1, 4, 7, 20] \<subseteq> {0..(23::int)}"
proof -
  have p: "parse_cron_field ''1-7/3,20'' 0 23 False =
      Inr \<lparr>vals = [1, 4, 7, 20], wildcard = False, fmin = 0, fmax = 23\<rparr>"
    by (simp add: field_evals)
  then show ?thesis using cron_field_values [OF p] by (simp add: str_evals)
qed

text \<open>
  a stepped day of month is not honoured when the day of week is \<open>*\<close>: the field counts as a
  wildcard, so only the day of week decides and the task runs every day. Here \<open>*/2\<close> stands for the
  odd days, yet the run after 1 January is on 2 January.
\<close>

theorem stepped_day_ignored:
  "(\<forall>n. parse_cron_field ''*/2'' 1 31 False = Inr fm \<and> parse_cron_field ''*'' 0 7 True = Inr fw \<longrightarrow>
        2 \<notin> set (vals fm) \<and> cron_day_matches fm fw d (weekday n)) \<and>
   next_scheduled_time (\<lambda>_. 0) ''0 0 */2 * *'' (days_of 2024 1 1 * day) = Some (Inr (days_of 2024 1 2 * day))"
proof (intro conjI allI impI)
  fix n
  assume p: "parse_cron_field ''*/2'' 1 31 False = Inr fm \<and> parse_cron_field ''*'' 0 7 True = Inr fw"
  then have "vals fm = [1, 3, 5, 7, 9, 11, 13, 15, 17, 19, 21, 23, 25, 27, 29, 31]" "wildcard fm"
    "vals fw = [0, 1, 2, 3, 4, 5, 6, 7, 0]"
    by (auto simp: field_evals)
  moreover have "weekday n \<in> {0, 1, 2, 3, 4, 5, 6}" using weekday_bounds [of n] by auto
  ultimately show "2 \<notin> set (vals fm)" "cron_day_matches fm fw d (weekday n)"
    by (auto simp: cron_day_matches_def Let_def)
qed (simp add: next_scheduled_time_def field_evals cron_evals)

theorem stepped_day_ignored_witness:
  "2 \<notin> set [1, 3, 5, 7, 9, 11, 13, 15, 17, 19, 21, 23, 25, 27, 29, 31::int]"
proof -
  have "parse_cron_field ''*/2'' 1 31 False = Inr \<lparr>vals = [1, 3, 5, 7, 9, 11, 13, 15, 17, 19, 21, 23, 25,
      27, 29, 31], wildcard = True, fmin = 1, fmax = 31\<rparr>"
    "parse_cron_field ''*'' 0 7 True = Inr \<lparr>vals = [0, 1, 2, 3, 4, 5, 6, 7, 0], wildcard = True,
      fmin = 0, fmax = 7\<rparr>"
    by (simp_all add: field_evals)
  with stepped_day_ignored [of _ _ 2] show ?thesis by fastforce
qed

text \<open>
  C38: the loop over the values of an item ends within 200 rounds for every field, a step near 2^63
  included; but there the loop variable overflows, and \<open>59/9223372036854775807\<close> selects 57 and
  other values below 59.
\<close>

theorem cron_values_terminate:
  assumes "0 < step" "step < 2 ^ 63" "0 \<le> v" "v \<le> hi" "hi \<le> 59"
  shows "cron_values (200 + k) v hi step = cron_values 200 v hi step \<and>
    57 \<in> set (cron_values 200 59 59 9223372036854775807)"
  using cron_values_enough [OF assms] by (simp add: cron_values_eval wrap64_def)

theorem cron_values_terminate_witness:
  "cron_values (200 + 1) 3 59 7 = cron_values 200 3 59 7"
  using cron_values_terminate [of 7 3 59 1] by simp

subsection \<open>Schedules that come round every week\<close>

lemma add_5_years_least: "t + 1824 * day \<le> add_date (\<lambda>_. c) t 5 0"
proof -
  obtain y m d where dt: "date_of ((t + c) div day) = (y, m, d)" by (cases "date_of ((t + c) div day)")
  have "year_start y + 1825 \<le> year_start (y + 5)"
    using year_start_Suc [of y] year_start_Suc [of "y + 1"] year_start_Suc [of "y + 2"]
      year_start_Suc [of "y + 3"] year_start_Suc [of "y + 4"]
    by (simp add: algebra_simps split: if_split_asm)
  then have "(t + c) div day + 1824 \<le> days_of (y + 5) m d"
    using days_of_date [OF dt] days_before_leap [of "leap y" m "leap (y + 5)"]
    by (simp add: days_of_def)
  then have "((t + c) div day + 1824) * day \<le> days_of (y + 5) m d * day" by simp
  moreover have "add_date (\<lambda>_. c) t 5 0 = days_of (y + 5) m d * day + (t + c) mod day - c"
    by (simp add: add_date_def local_def dt [simplified] time_date_def Let_def)
  moreover have "((t + c) div day + 1824) * day + (t + c) mod day = t + c + 1824 * day"
    using div_mult_mod_eq [of "t + c" day] by (simp add: algebra_simps)
  ultimately show ?thesis by linarith
qed

text \<open>The fields match on every Sunday at the full hour \<open>h\<close>.\<close>

definition sundays_at :: "int \<Rightarrow> cron_field list \<Rightarrow> bool" where
  "sundays_at h fs \<longleftrightarrow> {1, 2, 3, 4, 5, 6, 7, 8, 9, 10, 11, 12} \<subseteq> set (vals (fs ! 3)) \<and> wildcard (fs ! 2) \<and>
     0 \<in> set (vals (fs ! 4)) \<and> 0 \<le> h \<and> h \<le> 23 \<and> h \<in> set (vals (fs ! 1)) \<and> 0 \<in> set (vals (fs ! 0))"

lemma sunday_matches:
  assumes "sundays_at h fs" "weekday n = 0"
  shows "cron_matches (\<lambda>_. c) fs (n * day + h * hour - c)"
proof -
  have h: "0 \<le> h * hour" "h * hour < day" using assms(1) by (simp_all add: sundays_at_def)
  then have n: "(n * day + h * hour) div day = n" "(n * day + h * hour) mod day = h * hour"
    by (simp_all add: div_pos_pos_trivial mod_pos_pos_trivial)
  have "n * day + h * hour = (n * 24 + h) * hour" by simp
  then have mh: "(n * day + h * hour) mod hour = 0" by (metis mod_mult_self2_is_0)
  have "n * day + h * hour = ((n * 24 + h) * 60) * minute" by simp
  then have mm: "(n * day + h * hour) mod minute = 0" by (metis mod_mult_self2_is_0)
  obtain y m d where dt: "date_of n = (y, m, d)" by (cases "date_of n")
  have "1 \<le> m" "m \<le> 12" using valid_date_of [OF dt] by (simp_all add: valid_date_def)
  then have "m \<in> set (vals (fs ! 3))" using twelve [of m] assms(1) by (auto simp: sundays_at_def)
  then have "day_matches fs n"
    using assms by (simp add: day_matches_def dt cron_day_matches_def sundays_at_def)
  then show ?thesis
    using assms(1) n mh mm by (simp add: cron_matches_def local_def Let_def sundays_at_def)
qed

lemma next_sunday: "(q + 1 + (5 - q) mod 7 + 1) mod 7 = (0::int)"
  by presburger

lemma sunday_schedule:
  assumes "o1 mod minute = 0" "\<not> has_prefix (trim_space s) ''@every ''" "parse_cron (trim_space s) = Inr fs"
    and "sundays_at h fs"
  shows "\<exists>c. next_scheduled_time (\<lambda>_. o1) s after = Some (Inr c) \<and> c \<le> after + 9 * day"
proof -
  define start where "start = truncate_time after minute + minute"
  define n where "n = (start + o1) div day + 1 + (5 - (start + o1) div day) mod 7"
  define c where "c = n * day + h * hour - o1"
  have "weekday n = 0" unfolding weekday_def n_def by (rule next_sunday)
  then have m: "cron_matches (\<lambda>_. o1) fs c" unfolding c_def by (rule sunday_matches [OF assms(4)])
  have h: "0 \<le> h" "h \<le> 23" using assms(4) by (simp_all add: sundays_at_def)
  have k: "0 \<le> (5 - (start + o1) div day) mod 7" "(5 - (start + o1) div day) mod 7 \<le> 6" by simp_all
  have d: "(start + o1) div day * day \<le> start + o1" "start + o1 < (start + o1) div day * day + day"
    using div_mult_mod_eq [of "start + o1" day] pos_mod_bound [of day "start + o1"] pos_mod_sign [of day "start + o1"] by simp_all
  have s: "after < start" "start \<le> after + minute"
    using truncate_minute pos_mod_sign [of minute after] by (simp_all add: start_def truncate_time_def)
  have ge: "start \<le> c" using d k h by (simp add: c_def n_def algebra_simps)
  have le: "c \<le> start + 8 * day" using d k h by (simp add: c_def n_def algebra_simps)
  note nc = next_cron_const [of o1 fs after, folded start_def]
  have "next_cron (\<lambda>_. o1) fs after \<noteq> Some None"
    using nc(3) [OF _ m ge] add_5_years_least [of start o1] le by auto
  then obtain c' where c': "next_cron (\<lambda>_. o1) fs after = Some (Some c')" using nc(1) by auto
  then have "c' \<le> c" using nc(2) [OF c'] m ge by blast
  then have "c' \<le> after + 9 * day" using le s by simp
  moreover have "next_scheduled_time (\<lambda>_. o1) s after = Some (Inr c')"
    using assms(2,3) c' by (simp add: next_scheduled_time_def)
  ultimately show ?thesis by blast
qed

end
