(* ===== verification/Bootstrap.thy ===== *)
theory Bootstrap
  imports Net
begin

text \<open>
  RDAP endpoint discovery: \<open>src/src/whois/rdap/bootstrap.go\<close>. The JSON decoder is the parameter
  \<open>decode\<close>: it yields the \<open>services\<close> of a bootstrap file (every service is a pair, since the Go type
  is an array of two), or \<open>None\<close> for text that does not parse. The data directory is a map from
  file names to contents; what the operating system and the network answer are parameters.
\<close>

type_synonym services = "(string list \<times> string list) list"

record asn_range =
  asn_start :: nat
  asn_end :: nat
  asn_urls :: "string list"

record bootstrap =
  dnsServices :: "(string \<times> string list) list"
  ipv4Services :: "(ipnet \<times> string list) list"
  ipv6Services :: "(ipnet \<times> string list) list"
  asnServices :: "asn_range list"

definition new_bootstrap :: bootstrap where
  "new_bootstrap = \<lparr>dnsServices = [], ipv4Services = [], ipv6Services = [], asnServices = []\<rparr>"

datatype file_read = NotExist | ReadError string | Contents string

datatype load_error = LoadRead string string | LoadJSON string

subsection \<open>Loading\<close>

text \<open>The nested loops over services and TLDs: a later entry replaces an earlier one.\<close>

definition dns_key :: "string \<Rightarrow> string" where
  "dns_key tld = to_lower (trim_prefix tld ''.'')"

definition dns_table :: "services \<Rightarrow> (string \<times> string list) list" where
  "dns_table svs =
     fold (\<lambda>(tlds, urls) m. fold (\<lambda>tld. upd (dns_key tld) urls) tlds m) svs []"

text \<open>A CIDR or range that does not parse is skipped.\<close>

definition cidr_table :: "services \<Rightarrow> (ipnet \<times> string list) list" where
  "cidr_table svs =
     concat (map (\<lambda>(cidrs, urls). List.map_filter (\<lambda>c. map_option (\<lambda>n. (n, urls)) (parse_cidr c)) cidrs) svs)"

definition parse_asn_range :: "string \<Rightarrow> (nat \<times> nat) option" where
  "parse_asn_range r =
     (let parts = split_on CHR ''-'' r
      in case parse_uint 32 (parts ! 0) of
           None \<Rightarrow> None
         | Some s \<Rightarrow>
             if length parts = 2 then
               (case parse_uint 32 (parts ! 1) of None \<Rightarrow> None | Some e \<Rightarrow> Some (s, e))
             else Some (s, s))"

definition asn_table :: "services \<Rightarrow> asn_range list" where
  "asn_table svs =
     concat (map (\<lambda>(ranges, urls).
       List.map_filter (\<lambda>r. map_option (\<lambda>(s, e). \<lparr>asn_start = s, asn_end = e, asn_urls = urls\<rparr>)
                                       (parse_asn_range r)) ranges) svs)"

text \<open>One of the four loaders: a missing file is no error and changes nothing.\<close>

definition load_file :: "(string \<Rightarrow> services option) \<Rightarrow> string \<Rightarrow> file_read \<Rightarrow>
    (services \<Rightarrow> bootstrap \<Rightarrow> bootstrap) \<Rightarrow> bootstrap \<Rightarrow> load_error option \<times> bootstrap" where
  "load_file decode name rd store b =
     (case rd of
        NotExist \<Rightarrow> (None, b)
      | ReadError e \<Rightarrow> (Some (LoadRead name e), b)
      | Contents data \<Rightarrow>
          (case decode data of
             None \<Rightarrow> (Some (LoadJSON name), b)
           | Some svs \<Rightarrow> (None, store svs b)))"

definition load_dns where
  "load_dns decode rd b = load_file decode ''dns.json'' rd (\<lambda>svs b. b\<lparr>dnsServices := dns_table svs\<rparr>) b"

definition load_ipv4 where
  "load_ipv4 decode rd b = load_file decode ''ipv4.json'' rd (\<lambda>svs b. b\<lparr>ipv4Services := cidr_table svs\<rparr>) b"

definition load_ipv6 where
  "load_ipv6 decode rd b = load_file decode ''ipv6.json'' rd (\<lambda>svs b. b\<lparr>ipv6Services := cidr_table svs\<rparr>) b"

definition load_asn where
  "load_asn decode rd b = load_file decode ''asn.json'' rd (\<lambda>svs b. b\<lparr>asnServices := asn_table svs\<rparr>) b"

definition boot_load :: "(string \<Rightarrow> services option) \<Rightarrow> (string \<Rightarrow> file_read) \<Rightarrow> bootstrap \<Rightarrow>
    load_error option \<times> bootstrap" where
  "boot_load decode rd b =
     (case load_dns decode (rd ''dns.json'') b of
        (Some e, b1) \<Rightarrow> (Some e, b1)
      | (None, b1) \<Rightarrow>
          (case load_ipv4 decode (rd ''ipv4.json'') b1 of
             (Some e, b2) \<Rightarrow> (Some e, b2)
           | (None, b2) \<Rightarrow>
               (case load_ipv6 decode (rd ''ipv6.json'') b2 of
                  (Some e, b3) \<Rightarrow> (Some e, b3)
                | (None, b3) \<Rightarrow> load_asn decode (rd ''asn.json'') b3)))"

subsection \<open>Updating\<close>

text \<open>
  What happens to one download: the answer of the HTTP client (\<open>None\<close> when there is none), and
  whether the temporary file can be created, filled and renamed.
\<close>

record download =
  response :: "(nat \<times> string) option"
  create_ok :: bool
  copy_ok :: bool
  rename_ok :: bool

datatype download_error = NoResponse | HTTPStatus nat | CreateFailed | CopyFailed | RenameFailed

type_synonym disk = "string \<Rightarrow> string option"

definition download_file :: "download \<Rightarrow> string \<Rightarrow> disk \<Rightarrow> download_error option \<times> disk" where
  "download_file dl dest fs =
     (case response dl of
        None \<Rightarrow> (Some NoResponse, fs)
      | Some (status, body) \<Rightarrow>
          if status \<noteq> 200 then (Some (HTTPStatus status), fs)
          else let tmp = dest @ ''.tmp''
          in if \<not> create_ok dl then (Some CreateFailed, fs)
             else if \<not> copy_ok dl then (Some CopyFailed, fs(tmp := None))
             else if \<not> rename_ok dl then (Some RenameFailed, fs(tmp \<mapsto> body))
             else (None, fs(tmp := None, dest \<mapsto> body)))"

definition boot_files :: "string list" where
  "boot_files = [''dns.json'', ''ipv4.json'', ''ipv6.json'', ''asn.json'']"

text \<open>The files are fetched in the iteration order of a Go map, \<open>names\<close>, up to the first failure.\<close>

fun download_all :: "(string \<Rightarrow> download) \<Rightarrow> string list \<Rightarrow> disk \<Rightarrow> download_error option \<times> disk" where
  "download_all net [] fs = (None, fs)"
| "download_all net (n # ns) fs =
     (case download_file (net n) n fs of
        (Some e, fs') \<Rightarrow> (Some e, fs')
      | (None, fs') \<Rightarrow> download_all net ns fs')"

definition read_disk :: "disk \<Rightarrow> string \<Rightarrow> file_read" where
  "read_disk fs n = (case fs n of None \<Rightarrow> NotExist | Some d \<Rightarrow> Contents d)"

datatype update_error = MkdirFailed | Download download_error | Load load_error

definition boot_update :: "(string \<Rightarrow> services option) \<Rightarrow> bool \<Rightarrow> (string \<Rightarrow> download) \<Rightarrow> string list \<Rightarrow>
    disk \<Rightarrow> bootstrap \<Rightarrow> update_error option \<times> disk \<times> bootstrap" where
  "boot_update decode mkdir_ok net names fs b =
     (if \<not> mkdir_ok then (Some MkdirFailed, fs, b)
      else case download_all net names fs of
             (Some e, fs') \<Rightarrow> (Some (Download e), fs', b)
           | (None, fs') \<Rightarrow>
               (case boot_load decode (read_disk fs') b of
                  (e, b') \<Rightarrow> (map_option Load e, fs', b')))"

subsection \<open>Look-ups\<close>

text \<open>The loop over the suffixes, longest first; \<open>nil\<close> is the empty list.\<close>

fun suffix_lookup :: "(string \<times> string list) list \<Rightarrow> string list \<Rightarrow> string list" where
  "suffix_lookup m [] = []"
| "suffix_lookup m (p # ps) =
     (case map_of m (join ''.'' (p # ps)) of Some urls \<Rightarrow> urls | None \<Rightarrow> suffix_lookup m ps)"

definition get_domain_endpoints :: "bootstrap \<Rightarrow> string \<Rightarrow> string list" where
  "get_domain_endpoints b d = suffix_lookup (dnsServices b) (split_on CHR ''.'' (to_lower d))"

fun first_containing :: "(ipnet \<times> string list) list \<Rightarrow> ip \<Rightarrow> string list" where
  "first_containing [] a = []"
| "first_containing ((n, urls) # rs) a = (if net_contains n a then urls else first_containing rs a)"

definition get_ipv4_endpoints :: "bootstrap \<Rightarrow> string \<Rightarrow> string list" where
  "get_ipv4_endpoints b s =
     (case parse_ip s of None \<Rightarrow> [] | Some a \<Rightarrow> first_containing (ipv4Services b) a)"

definition get_ipv6_endpoints :: "bootstrap \<Rightarrow> string \<Rightarrow> string list" where
  "get_ipv6_endpoints b s =
     (case parse_ip s of None \<Rightarrow> [] | Some a \<Rightarrow> first_containing (ipv6Services b) a)"

fun asn_lookup :: "asn_range list \<Rightarrow> nat \<Rightarrow> string list" where
  "asn_lookup [] n = []"
| "asn_lookup (r # rs) n = (if asn_start r \<le> n \<and> n \<le> asn_end r then asn_urls r else asn_lookup rs n)"

definition get_asn_endpoints :: "bootstrap \<Rightarrow> nat \<Rightarrow> string list" where
  "get_asn_endpoints b n = asn_lookup (asnServices b) n"

definition has_data :: "bootstrap \<Rightarrow> bool" where
  "has_data b \<longleftrightarrow> dnsServices b \<noteq> [] \<or> ipv4Services b \<noteq> [] \<or> ipv6Services b \<noteq> [] \<or> asnServices b \<noteq> []"

subsection \<open>Tables\<close>

lemma map_of_fold_upd:
  "map_of (fold (\<lambda>tld. upd (f tld) urls) tlds m) k = (if k \<in> f ` set tlds then Some urls else map_of m k)"
  by (induction tlds arbitrary: m) auto

definition dns_entries :: "services \<Rightarrow> (string \<times> string list) list" where
  "dns_entries svs = concat (map (\<lambda>(tlds, urls). map (\<lambda>t. (dns_key t, urls)) tlds) svs)"

lemma map_of_pairs: "map_of (rev (map (\<lambda>t. (f t, u)) ts)) k = (if k \<in> f ` set ts then Some u else None)"
  by (induction ts) (auto simp: map_add_def split: option.splits)

lemma dns_table_aux:
  "map_of (fold (\<lambda>(tlds, urls) m. fold (\<lambda>tld. upd (dns_key tld) urls) tlds m) svs m) k =
     (case map_of (rev (dns_entries svs)) k of Some u \<Rightarrow> Some u | None \<Rightarrow> map_of m k)"
proof (induction svs arbitrary: m)
  case (Cons sv svs)
  obtain tlds urls where sv: "sv = (tlds, urls)" by (cases sv)
  have "dns_entries (sv # svs) = map (\<lambda>t. (dns_key t, urls)) tlds @ dns_entries svs"
    by (simp add: dns_entries_def sv)
  then show ?case
    by (simp add: Cons sv map_of_fold_upd map_add_def map_of_pairs split: option.splits)
qed (simp add: dns_entries_def)

lemma dns_table_entries: "map_of (dns_table svs) k = map_of (rev (dns_entries svs)) k"
  unfolding dns_table_def dns_table_aux by (simp split: option.splits)

lemma suffix_lookup_find:
  "suffix_lookup m ps =
     (case List.find (\<lambda>i. map_of m (join ''.'' (drop i ps)) \<noteq> None) [0..<length ps] of
        Some i \<Rightarrow> the (map_of m (join ''.'' (drop i ps))) | None \<Rightarrow> [])"
proof (induction m ps rule: suffix_lookup.induct)
  case (2 m p ps)
  have up: "[0..<length (p # ps)] = 0 # map Suc [0..<length ps]"
    unfolding length_Cons map_Suc_upt by (rule upt_conv_Cons) simp
  have fm: "List.find P (map Suc xs) = map_option Suc (List.find (\<lambda>i. P (Suc i)) xs)" for P xs
    by (induction xs) auto
  show ?case
    using 2 unfolding up by (auto simp: fm split: option.splits)
qed simp

subsection \<open>Networks as prefixes of bits\<close>

definition addr_bit :: "nat list \<Rightarrow> nat \<Rightarrow> bool" where
  "addr_bit a i = bit (a ! (i div 8)) (7 - i mod 8)"

lemma mask_byte_bit:
  assumes "j < 8"
  shows "bit (if 8 \<le> r then 255 else if r = 0 then 0 else (256 :: nat) - 2 ^ (8 - r)) j \<longleftrightarrow> 8 \<le> j + r"
proof -
  have j: "j \<in> {0, 1, 2, 3, 4, 5, 6, 7}" using assms by auto
  show ?thesis
  proof (cases "8 \<le> r")
    case True
    have "bit (255 :: nat) j" using j by (auto simp: bit_iff_odd)
    then show ?thesis using True by simp
  next
    case False
    then have "r \<in> {0, 1, 2, 3, 4, 5, 6, 7}" by auto
    then show ?thesis using j by (auto simp: bit_iff_odd)
  qed
qed

lemma cidr_mask_bit:
  assumes "i < 8 * n"
  shows "addr_bit (cidr_mask k n) i \<longleftrightarrow> i < k"
proof -
  define q where "q = i div 8"
  have q: "q < n" using assms by (simp add: q_def less_mult_imp_div_less mult.commute)
  have i: "i = 8 * q + i mod 8" "i mod 8 < 8" by (simp_all add: q_def)
  have b: "cidr_mask k n ! q =
      (if 8 \<le> k - 8 * q then 255 else if k - 8 * q = 0 then 0 else 256 - 2 ^ (8 - (k - 8 * q)))"
    using q by (auto simp: cidr_mask_def)
  have "addr_bit (cidr_mask k n) i \<longleftrightarrow> 8 \<le> 7 - i mod 8 + (k - 8 * q)"
    unfolding addr_bit_def q_def [symmetric] b by (rule mask_byte_bit) simp
  also have "\<dots> \<longleftrightarrow> i < k" using i by linarith
  finally show ?thesis .
qed

lemma byte_eq_bits: "x < 256 \<Longrightarrow> y < 256 \<Longrightarrow> (\<And>j. j < 8 \<Longrightarrow> bit x j = bit y j) \<Longrightarrow> x = (y :: nat)"
proof (rule bit_eqI)
  fix j assume a: "x < 256" "y < 256" "\<And>j. j < 8 \<Longrightarrow> bit x j = bit y j"
  show "bit x j = bit y j"
  proof (cases "j < 8")
    case False
    then have "(256::nat) \<le> 2 ^ j"
      using power_increasing [of 8 j "2::nat"] by simp
    then have "x < 2 ^ j" "y < 2 ^ j" using a by linarith+
    then show ?thesis by (simp add: bit_iff_odd)
  qed (use a in simp)
qed

lemma and_bytes_eq:
  assumes "length a = n" "length b = n" "\<forall>x\<in>set a. x < 256" "\<forall>x\<in>set b. x < 256"
  shows "and_bytes a (cidr_mask k n) = and_bytes b (cidr_mask k n) \<longleftrightarrow>
         (\<forall>i<8 * n. i < k \<longrightarrow> addr_bit a i = addr_bit b i)" (is "?l \<longleftrightarrow> ?r")
proof
  have nth: "and_bytes x (cidr_mask k n) ! q = x ! q AND cidr_mask k n ! q" if "length x = n" "q < n" for x q
    using that by (simp add: and_bytes_def)
  assume l: ?l
  show ?r
  proof (intro allI impI)
    fix i assume i: "i < 8 * n" "i < k"
    then have q: "i div 8 < n" by (simp add: less_mult_imp_div_less mult.commute)
    have "a ! (i div 8) AND cidr_mask k n ! (i div 8) = b ! (i div 8) AND cidr_mask k n ! (i div 8)"
      using l nth [OF assms(1) q] nth [OF assms(2) q] by simp
    moreover have "bit (cidr_mask k n ! (i div 8)) (7 - i mod 8)"
      using cidr_mask_bit [OF i(1), of k] i(2) by (simp add: addr_bit_def)
    ultimately show "addr_bit a i = addr_bit b i"
      unfolding addr_bit_def by (metis bit_and_iff)
  qed
next
  have nth: "and_bytes x (cidr_mask k n) ! q = x ! q AND cidr_mask k n ! q" if "length x = n" "q < n" for x q
    using that by (simp add: and_bytes_def)
  assume r: ?r
  show ?l
  proof (rule nth_equalityI)
    fix q assume "q < length (and_bytes a (cidr_mask k n))"
    then have q: "q < n" by (simp add: assms)
    have lt: "x AND m < 256" if "x < 256" for x m :: nat
    proof -
      have "int (x AND m) \<le> int x" by (simp add: of_nat_and_eq)
      then show ?thesis using that by linarith
    qed
    have "a ! q AND cidr_mask k n ! q = b ! q AND cidr_mask k n ! q"
    proof (rule byte_eq_bits)
      fix j :: nat assume j: "j < 8"
      define i where "i = 8 * q + (7 - j)"
      have "i mod 8 = (7 - j) mod 8" unfolding i_def by (rule mod_mult_self4)
      then have i: "i div 8 = q" "7 - i mod 8 = j" "i < 8 * n" using j q by (auto simp: i_def)
      have "addr_bit (cidr_mask k n) i \<longleftrightarrow> i < k" by (rule cidr_mask_bit [OF i(3)])
      then show "bit (a ! q AND cidr_mask k n ! q) j = bit (b ! q AND cidr_mask k n ! q) j"
        using r i unfolding addr_bit_def by (auto simp: bit_and_iff)
    qed (use assms q in \<open>auto intro!: lt\<close>)
    then show "and_bytes a (cidr_mask k n) ! q = and_bytes b (cidr_mask k n) ! q"
      using nth [OF assms(1) q] nth [OF assms(2) q] by simp
  qed (simp add: assms)
qed

lemma parse_cidr_v4:
  assumes "parse_cidr c = Some n" "is_v4_text (takeWhile (\<lambda>x. x \<noteq> CHR ''/'') c)"
  obtains f k where "parse_ip (takeWhile (\<lambda>x. x \<noteq> CHR ''/'') c) = Some (v4in6 @ f)" "length f = 4"
    "\<forall>b\<in>set f. b < 256" "k \<le> 32" "n = (and_bytes f (cidr_mask k 4), cidr_mask k 4)"
    "k = dec_val (tl (dropWhile (\<lambda>x. x \<noteq> CHR ''/'') c))"
proof -
  obtain f where f: "parse_ip (takeWhile (\<lambda>x. x \<noteq> CHR ''/'') c) = Some (v4in6 @ f)"
    "parse_ipv4_fields (takeWhile (\<lambda>x. x \<noteq> CHR ''/'') c) = Some f"
    using assms by (auto simp: parse_cidr_def Let_def parse_ip_def is_v4_text_def
        split: if_splits option.splits)
  have l: "length f = 4" "\<forall>b\<in>set f. b < 256" using parse_ipv4_fields_bytes [OF f(2)] by simp_all
  show ?thesis
    using assms f(1) l that [of f "dec_val (tl (dropWhile (\<lambda>x. x \<noteq> CHR ''/'') c))"]
    by (auto simp: parse_cidr_def Let_def split: if_splits)
qed

lemma net_contains_v4:
  assumes "length f = 4"
  shows "net_contains (and_bytes f (cidr_mask k 4), cidr_mask k 4) a \<longleftrightarrow>
    (\<exists>x. to4 a = Some x \<and> and_bytes f (cidr_mask k 4) = and_bytes x (cidr_mask k 4)) \<or>
    to4 a = None \<and> length a = 4 \<and> and_bytes f (cidr_mask k 4) = and_bytes a (cidr_mask k 4)"
proof -
  have "length x = 4" if "to4 a = Some x" for x
    using that by (auto simp: to4_def split: if_splits)
  moreover have "to4 (and_bytes f (cidr_mask k 4)) = Some (and_bytes f (cidr_mask k 4))"
    using assms by (simp add: to4_def)
  ultimately show ?thesis
    using assms by (auto simp: net_contains_def net_number_mask_def Let_def split: option.splits)
qed

lemma first_containing_find:
  "first_containing rs a = (case List.find (\<lambda>(n, urls). net_contains n a) rs of
     Some (n, urls) \<Rightarrow> urls | None \<Rightarrow> [])"
  by (induction rs a rule: first_containing.induct) auto

subsection \<open>Downloads\<close>

lemma download_file_other: "m \<noteq> dest \<Longrightarrow> m \<noteq> dest @ ''.tmp'' \<Longrightarrow> snd (download_file dl dest fs) m = fs m"
  by (auto simp: download_file_def Let_def split: option.splits)

lemma download_file_dest:
  "snd (download_file dl dest fs) dest =
     (if fst (download_file dl dest fs) = None then map_option snd (response dl) else fs dest)"
  by (auto simp: download_file_def Let_def split: option.splits)

lemma boot_files_tmp: "n \<in> set boot_files \<Longrightarrow> m \<in> set boot_files \<Longrightarrow> n \<noteq> m @ ''.tmp''"
  by (auto simp: boot_files_def)

lemma download_all_disk:
  "set ns \<subseteq> set boot_files \<Longrightarrow> distinct ns \<Longrightarrow> n \<in> set boot_files \<Longrightarrow>
   snd (download_all net ns fs) n \<in> {fs n, map_option snd (response (net n))} \<and>
   (fst (download_all net ns fs) = None \<longrightarrow>
      snd (download_all net ns fs) n = (if n \<in> set ns then map_option snd (response (net n)) else fs n))"
proof (induction net ns fs rule: download_all.induct)
  case (2 net m ns fs)
  obtain e fs' where d: "download_file (net m) m fs = (e, fs')" by (cases "download_file (net m) m fs")
  have n: "n \<noteq> m @ ''.tmp''" using 2 by (intro boot_files_tmp) auto
  have fn: "fs' n = (if n = m \<and> e = None then map_option snd (response (net m)) else fs n)"
    using download_file_dest [of "net m" m fs] download_file_other [of n m "net m" fs] n d
    by (cases "n = m") auto
  show ?case
  proof (cases e)
    case None
    have IH: "snd (download_all net ns fs') n \<in> {fs' n, map_option snd (response (net n))} \<and>
      (fst (download_all net ns fs') = None \<longrightarrow>
       snd (download_all net ns fs') n = (if n \<in> set ns then map_option snd (response (net n)) else fs' n))"
      using 2 d None by auto
    then show ?thesis using d None fn 2 by (auto split: if_splits)
  next
    case (Some e')
    then show ?thesis using d fn by auto
  qed
qed simp

subsection \<open>Properties\<close>

text \<open>
  a domain is looked up under its suffixes of whole labels, longest first and ignoring case,
  and the first suffix in the table decides.
\<close>

theorem domain_endpoints_longest_suffix:
  assumes "ps = split_on CHR ''.'' (to_lower d)" "i < length ps"
    and "map_of (dnsServices b) (join ''.'' (drop i ps)) = Some urls"
    and "\<forall>j<i. map_of (dnsServices b) (join ''.'' (drop j ps)) = None"
  shows "get_domain_endpoints b d = urls"
proof -
  have "List.find (\<lambda>i. map_of (dnsServices b) (join ''.'' (drop i ps)) \<noteq> None) [0..<length ps] = Some i"
    unfolding find_Some_iff using assms by (intro exI [of _ i]) auto
  then show ?thesis
    unfolding get_domain_endpoints_def assms(1) [symmetric] suffix_lookup_find by (simp add: assms(3))
qed

theorem domain_endpoints_longest_suffix_witness:
  "get_domain_endpoints (new_bootstrap\<lparr>dnsServices := [(''uk'', [''u'']), (''co.uk'', [''c''])]\<rparr>) ''a.Co.UK'' = [''c'']"
  by (rule domain_endpoints_longest_suffix [where i = 1 and ps = "[''a'', ''co'', ''uk'']"])
    (simp_all add: str_evals)

text \<open>
  after loading, the table holds for each TLD, without its leading dot and in lower case, the
  URLs of the last service of the file that names it.
\<close>

theorem dns_table_last:
  "map_of (dns_table svs) k = map_of (rev (concat (map (\<lambda>(tlds, urls). map (\<lambda>t. (dns_key t, urls)) tlds) svs))) k"
  unfolding dns_table_entries dns_entries_def ..

text \<open>
  a network written in IPv4 notation with prefix length k contains exactly the addresses that
  have an IPv4 form and agree with it in the first k bits. So an IPv6 address is in none of them.
\<close>

theorem cidr_contains_prefix:
  assumes "parse_cidr c = Some n" "is_v4_text (takeWhile (\<lambda>x. x \<noteq> CHR ''/'') c)"
    and "length a = 16" "\<forall>x\<in>set a. x < 256"
  shows "\<exists>f. parse_ip (takeWhile (\<lambda>x. x \<noteq> CHR ''/'') c) = Some (v4in6 @ f) \<and> length f = 4 \<and>
    (net_contains n a \<longleftrightarrow>
      (\<exists>x. to4 a = Some x \<and>
        (\<forall>i<32. i < dec_val (tl (dropWhile (\<lambda>x. x \<noteq> CHR ''/'') c)) \<longrightarrow> addr_bit f i = addr_bit x i)))"
proof -
  obtain f k where f: "parse_ip (takeWhile (\<lambda>x. x \<noteq> CHR ''/'') c) = Some (v4in6 @ f)" "length f = 4"
    "\<forall>b\<in>set f. b < 256" "n = (and_bytes f (cidr_mask k 4), cidr_mask k 4)"
    "k = dec_val (tl (dropWhile (\<lambda>x. x \<noteq> CHR ''/'') c))"
    using parse_cidr_v4 [OF assms(1,2)] by metis
  have "and_bytes f (cidr_mask k 4) = and_bytes x (cidr_mask k 4) \<longleftrightarrow>
      (\<forall>i<32. i < k \<longrightarrow> addr_bit f i = addr_bit x i)" if "to4 a = Some x" for x
  proof -
    have "x = drop 12 a" using that assms(3) by (auto simp: to4_def split: if_splits)
    then have "length x = 4" "\<forall>b\<in>set x. b < 256" using assms(3,4) by (auto dest: in_set_dropD)
    then show ?thesis using and_bytes_eq [OF f(2) _ f(3), of x k] by simp
  qed
  then show ?thesis
    using f net_contains_v4 [OF f(2), of k a] assms(3) by (intro exI [of _ f]) auto
qed

theorem cidr_contains_prefix_witness:
  "net_contains ([10, 0, 0, 0], [255, 0, 0, 0]) (v4in6 @ [10, 1, 2, 3]) \<and>
   parse_cidr ''10.0.0.0/8'' = Some ([10, 0, 0, 0], [255, 0, 0, 0])"
proof
  show n: "parse_cidr ''10.0.0.0/8'' = Some ([10, 0, 0, 0], [255, 0, 0, 0])"
    by (simp add: parse_cidr_def is_v4_text_def str_evals net_evals cidr_mask_def and_bytes_def upt_rec)
  have v: "is_v4_text (takeWhile (\<lambda>x. x \<noteq> CHR ''/'') ''10.0.0.0/8'')"
    and ip: "parse_ip (takeWhile (\<lambda>x. x \<noteq> CHR ''/'') ''10.0.0.0/8'') = Some (v4in6 @ [10, 0, 0, 0])"
    and k: "dec_val (tl (dropWhile (\<lambda>x. x \<noteq> CHR ''/'') ''10.0.0.0/8'')) = 8"
    and t: "to4 (v4in6 @ [10, 1, 2, 3]) = Some [10, 1, 2, 3]"
    by (simp_all add: is_v4_text_def str_evals net_evals)
  have b: "length (v4in6 @ [10, 1, 2, 3]) = 16" "\<forall>x\<in>set (v4in6 @ [10, 1, 2, 3]). x < 256"
    by (simp_all add: v4in6_def)
  have bits: "addr_bit [10, 0, 0, 0] i = addr_bit [10, 1, 2, 3] i" if "i < 8" for i
    using that by (simp add: addr_bit_def)
  show "net_contains ([10, 0, 0, 0], [255, 0, 0, 0]) (v4in6 @ [10, 1, 2, 3])"
    using cidr_contains_prefix [OF n v b] unfolding ip k t by (auto simp: bits)
qed

text \<open>
  the first network of the file that contains the address decides, not the most specific one:
  here the entry of the enclosing /8 hides that of the /16.
\<close>

theorem first_network_wins:
  "get_ipv4_endpoints (new_bootstrap\<lparr>ipv4Services := cidr_table
      [([''10.0.0.0/8''], [''wide'']), ([''10.1.0.0/16''], [''narrow''])]\<rparr>) ''10.1.2.3'' = [''wide''] \<and>
   get_ipv4_endpoints (new_bootstrap\<lparr>ipv4Services := rs\<rparr>) s =
     (case parse_ip s of None \<Rightarrow> []
      | Some a \<Rightarrow> (case List.find (\<lambda>(n, urls). net_contains n a) rs of Some (n, urls) \<Rightarrow> urls | None \<Rightarrow> []))"
proof
  show "get_ipv4_endpoints (new_bootstrap\<lparr>ipv4Services := cidr_table
      [([''10.0.0.0/8''], [''wide'']), ([''10.1.0.0/16''], [''narrow''])]\<rparr>) ''10.1.2.3'' = [''wide'']"
    by (simp add: get_ipv4_endpoints_def cidr_table_def map_filter_simps parse_cidr_def is_v4_text_def
        str_evals net_evals cidr_mask_def and_bytes_def upt_rec net_contains_def net_number_mask_def)
qed (simp add: get_ipv4_endpoints_def first_containing_find split: option.splits)

text \<open>
  C36: every file on disk is at any time either the old one or the complete new one, whatever fails;
  an update that reports success has replaced all four, and one that fails to download leaves the
  services in memory alone.
\<close>

theorem update_atomic:
  assumes "distinct names" "set names = set boot_files"
    and "boot_update decode mk net names fs b = (e, fs', b')"
  shows "(\<forall>n\<in>set boot_files. fs' n \<in> {fs n, map_option snd (response (net n))}) \<and>
    (e = None \<longrightarrow> (\<forall>n\<in>set boot_files. fs' n = map_option snd (response (net n)))) \<and>
    (\<forall>d. e = Some (Download d) \<longrightarrow> b' = b)"
proof -
  have sub: "set names \<subseteq> set boot_files" using assms(2) by simp
  note disk = download_all_disk [OF sub assms(1), of _ net fs]
  show ?thesis
    using assms(3) disk assms(2)
    by (auto simp: boot_update_def split: if_splits prod.splits option.splits)
qed

definition failing_net :: "string \<Rightarrow> download" where
  "failing_net n = \<lparr>response = Some (200, n), create_ok = True, copy_ok = True, rename_ok = n \<noteq> ''asn.json''\<rparr>"

theorem update_atomic_witness:
  "fst (boot_update (\<lambda>_. Some []) True failing_net boot_files (\<lambda>_. None) new_bootstrap) =
     Some (Download RenameFailed) \<and>
   snd (snd (boot_update (\<lambda>_. Some []) True failing_net boot_files (\<lambda>_. None) new_bootstrap)) = new_bootstrap"
proof -
  obtain e fs' b' where u: "boot_update (\<lambda>_. Some []) True failing_net boot_files (\<lambda>_. None) new_bootstrap = (e, fs', b')"
    by (cases "boot_update (\<lambda>_. Some []) True failing_net boot_files (\<lambda>_. None) new_bootstrap")
  have "fst (boot_update (\<lambda>_. Some []) True failing_net boot_files (\<lambda>_. None) new_bootstrap) = Some (Download RenameFailed)"
    by (simp add: boot_update_def boot_files_def download_file_def failing_net_def)
  moreover have "distinct boot_files" by (simp add: boot_files_def)
  ultimately show ?thesis using update_atomic [OF _ refl u] by (simp add: u)
qed

text \<open>
  a range of AS numbers, written with its bounds in decimal, answers for exactly the numbers
  within the bounds.
\<close>

theorem asn_range_lookup:
  assumes "s < 2 ^ 32" "e < 2 ^ 32"
  shows "get_asn_endpoints (b\<lparr>asnServices := asn_table [([itoa_nat s @ ''-'' @ itoa_nat e], urls)]\<rparr>) n =
    (if s \<le> n \<and> n \<le> e then urls else [])"
proof -
  have nd: "CHR ''-'' \<notin> set (itoa_nat k)" for k
    using all_digits_itoa [of k] by (auto simp: all_digits_def list_all_iff is_digit_def)
  have "split_on CHR ''-'' (itoa_nat s @ ''-'' @ itoa_nat e) = [itoa_nat s, itoa_nat e]"
    using nd by (simp add: split_on_append split_on_absent)
  then have "parse_asn_range (itoa_nat s @ ''-'' @ itoa_nat e) = Some (s, e)"
    using assms by (simp add: parse_asn_range_def parse_uint_itoa)
  then show ?thesis by (simp add: get_asn_endpoints_def asn_table_def map_filter_simps)
qed

theorem asn_range_lookup_witness:
  "get_asn_endpoints (new_bootstrap\<lparr>asnServices := asn_table [([itoa_nat 1 @ ''-'' @ itoa_nat 1876], [''a''])]\<rparr>) 701 = [''a'']"
  using asn_range_lookup [where s = 1 and e = 1876 and n = 701 and urls = "[''a'']"] by simp

end
