(* ===== verification/TimeParse.thy ===== *)
theory TimeParse
  imports GoTime
begin

text \<open>
  \<open>time.Parse\<close> for the layouts the program uses. A layout is its list of chunks, as \<open>nextStdChunk\<close>
  cuts it; the steps are those of the loop in Go's \<open>time.parse\<close>. A value that is out of range or
  does not fit the layout is \<open>None\<close>.
\<close>

datatype chunk =
    Lit string
  | Year4        \<comment> \<open>\<open>2006\<close>\<close>
  | Month2       \<comment> \<open>\<open>01\<close>\<close>
  | MonthName    \<comment> \<open>\<open>Jan\<close>\<close>
  | Day2         \<comment> \<open>\<open>02\<close>\<close>
  | Hour24       \<comment> \<open>\<open>15\<close>, one or two digits\<close>
  | Minute2      \<comment> \<open>\<open>04\<close>\<close>
  | Second2      \<comment> \<open>\<open>05\<close>, with an optional fraction in the text\<close>
  | ZoneZ        \<comment> \<open>\<open>Z07:00\<close>\<close>
  | ZoneNum      \<comment> \<open>\<open>-07:00\<close>\<close>

record clock_parts_t =
  cp_year :: int
  cp_month :: int
  cp_day :: int
  cp_hour :: int
  cp_minute :: int
  cp_second :: int
  cp_nanos :: int
  cp_zone :: int

definition no_parts :: clock_parts_t where
  "no_parts = \<lparr>cp_year = 0, cp_month = 1, cp_day = 1, cp_hour = 0, cp_minute = 0, cp_second = 0,
               cp_nanos = 0, cp_zone = 0\<rparr>"

text \<open>\<open>skip\<close>: a blank in the layout stands for any number of blanks.\<close>

definition cut_space :: "string \<Rightarrow> string" where
  "cut_space s = dropWhile (\<lambda>c. c = CHR '' '') s"

function skip_lit :: "string \<Rightarrow> string \<Rightarrow> string option" where
  "skip_lit [] v = Some v"
| "skip_lit (p # ps) v =
     (if p = CHR '' '' then
        (if v \<noteq> [] \<and> hd v \<noteq> CHR '' '' then None else skip_lit (cut_space ps) (cut_space v))
      else if v = [] \<or> hd v \<noteq> p then None
      else skip_lit ps (tl v))"
  by pat_completeness auto
termination
  by (relation "measure (\<lambda>(p, v). length p)")
    (auto simp: cut_space_def le_imp_less_Suc length_dropWhile_le)

text \<open>\<open>getnum\<close>: two digits, or one when not \<open>fixed\<close>.\<close>

definition get_num :: "bool \<Rightarrow> string \<Rightarrow> (int \<times> string) option" where
  "get_num fixed s =
     (case s of
        [] \<Rightarrow> None
      | a # r \<Rightarrow>
          if \<not> is_digit a then None
          else case r of
                 b # r' \<Rightarrow>
                   if is_digit b then Some (10 * int (digit_val a) + int (digit_val b), r')
                   else if fixed then None else Some (int (digit_val a), r)
               | [] \<Rightarrow> if fixed then None else Some (int (digit_val a), []))"

definition month_short :: "(string \<times> int) list" where
  "month_short = [(''jan'', 1), (''feb'', 2), (''mar'', 3), (''apr'', 4), (''may'', 5), (''jun'', 6),
     (''jul'', 7), (''aug'', 8), (''sep'', 9), (''oct'', 10), (''nov'', 11), (''dec'', 12)]"

text \<open>The fraction after the seconds: up to nine digits count.\<close>

definition get_fraction :: "string \<Rightarrow> int \<times> string" where
  "get_fraction s =
     (case s of
        c # r \<Rightarrow>
          if (c = CHR ''.'' \<or> c = CHR '','') \<and> r \<noteq> [] \<and> is_digit (hd r) then
            (let ds = takeWhile is_digit r; d9 = take 9 ds
             in (int (dec_val d9) * 10 ^ (9 - length d9), dropWhile is_digit r))
          else (0, s)
      | [] \<Rightarrow> (0, s))"

text \<open>\<open>[+-]hh:mm\<close>, in seconds.\<close>

definition get_zone :: "string \<Rightarrow> (int \<times> string) option" where
  "get_zone s =
     (if length s < 6 \<or> s ! 3 \<noteq> CHR '':'' then None
      else case (get_num True (take 2 (drop 1 s)), get_num True (take 2 (drop 4 s))) of
             (Some (h, _), Some (m, _)) \<Rightarrow>
               if 24 < h \<or> 60 < m then None
               else if s ! 0 = CHR ''+'' then Some ((h * 60 + m) * 60, drop 6 s)
               else if s ! 0 = CHR ''-'' then Some (- ((h * 60 + m) * 60), drop 6 s)
               else None
           | _ \<Rightarrow> None)"

definition in_range :: "int \<Rightarrow> int \<Rightarrow> (int \<times> string) option \<Rightarrow> (int \<times> string) option" where
  "in_range lo hi r = (case r of Some (n, s) \<Rightarrow> if lo \<le> n \<and> n \<le> hi then r else None | None \<Rightarrow> None)"

fun parse_chunk :: "chunk \<Rightarrow> string \<Rightarrow> clock_parts_t \<Rightarrow> (string \<times> clock_parts_t) option" where
  "parse_chunk (Lit p) s t = map_option (\<lambda>r. (r, t)) (skip_lit p s)"
| "parse_chunk Year4 s t =
     (if length s < 4 \<or> \<not> list_all is_digit (take 4 s) then None
      else Some (drop 4 s, t\<lparr>cp_year := int (dec_val (take 4 s))\<rparr>))"
| "parse_chunk Month2 s t = map_option (\<lambda>(n, r). (r, t\<lparr>cp_month := n\<rparr>)) (in_range 1 12 (get_num True s))"
| "parse_chunk MonthName s t =
     (case map_of month_short (to_lower (take 3 s)) of
        None \<Rightarrow> None | Some n \<Rightarrow> Some (drop 3 s, t\<lparr>cp_month := n\<rparr>))"
| "parse_chunk Day2 s t = map_option (\<lambda>(n, r). (r, t\<lparr>cp_day := n\<rparr>)) (get_num True s)"
| "parse_chunk Hour24 s t = map_option (\<lambda>(n, r). (r, t\<lparr>cp_hour := n\<rparr>)) (in_range 0 23 (get_num False s))"
| "parse_chunk Minute2 s t = map_option (\<lambda>(n, r). (r, t\<lparr>cp_minute := n\<rparr>)) (in_range 0 59 (get_num True s))"
| "parse_chunk Second2 s t =
     map_option (\<lambda>(n, r). let (f, r') = get_fraction r in (r', t\<lparr>cp_second := n, cp_nanos := f\<rparr>))
       (in_range 0 59 (get_num True s))"
| "parse_chunk ZoneZ s t =
     (if has_prefix s ''Z'' then Some (tl s, t\<lparr>cp_zone := 0\<rparr>)
      else map_option (\<lambda>(z, r). (r, t\<lparr>cp_zone := z\<rparr>)) (get_zone s))"
| "parse_chunk ZoneNum s t = map_option (\<lambda>(z, r). (r, t\<lparr>cp_zone := z\<rparr>)) (get_zone s)"

fun parse_chunks :: "chunk list \<Rightarrow> string \<Rightarrow> clock_parts_t \<Rightarrow> clock_parts_t option" where
  "parse_chunks [] s t = (if s = [] then Some t else None)"
| "parse_chunks (c # cs) s t =
     (case parse_chunk c s t of None \<Rightarrow> None | Some (r, t') \<Rightarrow> parse_chunks cs r t')"

definition time_parse :: "chunk list \<Rightarrow> string \<Rightarrow> time option" where
  "time_parse layout s =
     (case parse_chunks layout s no_parts of
        None \<Rightarrow> None
      | Some t \<Rightarrow>
          if cp_day t < 1 \<or> month_len (leap (cp_year t)) (cp_month t) < cp_day t then None
          else Some (days_of (cp_year t) (cp_month t) (cp_day t) * day + cp_hour t * hour +
                     cp_minute t * minute + cp_second t * second + cp_nanos t - cp_zone t * second))"

subsection \<open>The layouts\<close>

definition date_chunks :: "chunk list" where
  "date_chunks = [Year4, Lit ''-'', Month2, Lit ''-'', Day2]"

definition clock_chunks :: "chunk list" where
  "clock_chunks = [Hour24, Lit '':'', Minute2, Lit '':'', Second2]"

definition RFC3339 :: "chunk list" where
  "RFC3339 = date_chunks @ [Lit ''T''] @ clock_chunks @ [ZoneZ]"

text \<open>The first layout that fits decides; the zero time when none does.\<close>

fun parse_first :: "chunk list list \<Rightarrow> string \<Rightarrow> time" where
  "parse_first [] s = 0"
| "parse_first (l # ls) s = (case time_parse l s of Some t \<Rightarrow> t | None \<Rightarrow> parse_first ls s)"

subsection \<open>Dates in ISO notation\<close>

definition pad :: "nat \<Rightarrow> nat \<Rightarrow> string" where
  "pad w n = replicate (w - length (itoa_nat n)) CHR ''0'' @ itoa_nat n"

definition iso_date :: "nat \<Rightarrow> nat \<Rightarrow> nat \<Rightarrow> string" where
  "iso_date y m d = pad 4 y @ ''-'' @ pad 2 m @ ''-'' @ pad 2 d"

lemma digit_char_0: "digit_char 0 = CHR ''0''"
  by (simp add: digit_char_def char_of_eq_iff)

lemma pad2: "n < 100 \<Longrightarrow> pad 2 n = [digit_char (n div 10), digit_char (n mod 10)]"
proof (cases "n < 10")
  case True
  then have "itoa_nat n = [digit_char n]" by (subst itoa_nat.simps) simp
  then show ?thesis using True by (simp add: pad_def digit_char_0)
next
  case False
  assume "n < 100"
  then have "n div 10 < 10" by (simp add: less_mult_imp_div_less)
  then have "itoa_nat (n div 10) = [digit_char (n div 10)]" by (subst itoa_nat.simps) simp
  then have "itoa_nat n = [digit_char (n div 10), digit_char (n mod 10)]"
    using False by (subst itoa_nat.simps) simp
  then show ?thesis by (simp add: pad_def)
qed

lemma dec_val_zeros: "dec_val (replicate k CHR ''0'' @ s) = dec_val s"
proof -
  have "foldl (\<lambda>n c. 10 * n + digit_val c) 0 (replicate k CHR ''0'') = 0"
    by (induction k) (simp_all add: digit_val_def)
  then show ?thesis by (simp add: dec_val_def)
qed

lemma length_itoa: "n < 10 ^ k \<Longrightarrow> 0 < k \<Longrightarrow> length (itoa_nat n) \<le> k"
proof (induction n arbitrary: k rule: itoa_nat.induct)
  case (1 n)
  show ?case
  proof (cases "n < 10")
    case True
    then show ?thesis using 1(3) by (subst itoa_nat.simps) simp
  next
    case False
    then have k: "1 < k" using 1 by (cases "k = 1") auto
    then obtain k' where k': "k = Suc k'" "0 < k'" by (cases k) auto
    then have "n div 10 < 10 ^ k'" using 1(2) by (simp add: less_mult_imp_div_less mult.commute)
    then show ?thesis using 1(1) [OF False _ k'(2)] False k' by (subst itoa_nat.simps) simp
  qed
qed

lemma pad4: "n < 10000 \<Longrightarrow> length (pad 4 n) = 4 \<and> list_all is_digit (pad 4 n) \<and> dec_val (pad 4 n) = n"
  using length_itoa [of n 4] all_digits_itoa [of n]
  by (auto simp: pad_def dec_val_zeros all_digits_def list_all_iff is_digit_def)

lemma get_num_pad2: "n < 100 \<Longrightarrow> get_num b (pad 2 n @ s) = Some (int n, s)"
proof -
  assume "n < 100"
  moreover have "10 * int (n div 10) + int (n mod 10) = int n"
    by (metis mult_div_mod_eq of_nat_add of_nat_mult of_nat_numeral)
  ultimately show ?thesis by (simp add: pad2 get_num_def)
qed

lemma time_parse_iso:
  assumes "y < 10000" "valid_date (int y) (int m) (int d)"
  shows "time_parse date_chunks (iso_date y m d) = Some (days_of (int y) (int m) (int d) * day)"
proof -
  have d: "m < 100" "d < 100" "1 \<le> m" "m \<le> 12" "1 \<le> d" "int d \<le> month_len (leap (int y)) (int m)"
    using assms(2) twelve [of "int m"]
    by (auto simp: valid_date_def month_len_def days_before_def split: if_splits)
  note y = pad4 [OF assms(1)]
  have "parse_chunks date_chunks (iso_date y m d) no_parts =
      Some (no_parts\<lparr>cp_year := int y, cp_month := int m, cp_day := int d\<rparr>)"
    using y d get_num_pad2 [OF d(1)] get_num_pad2 [OF d(2), of _ "[]"]
    by (simp add: date_chunks_def iso_date_def in_range_def no_parts_def)
  then show ?thesis using d by (simp add: time_parse_def no_parts_def)
qed

lemma parse_chunks_date:
  assumes "y < 10000" "m < 100" "d < 100" "1 \<le> m" "m \<le> 12"
  shows "parse_chunks (date_chunks @ cs) (iso_date y m d @ s) t =
    parse_chunks cs s (t\<lparr>cp_year := int y, cp_month := int m, cp_day := int d\<rparr>)"
  using pad4 [OF assms(1)] assms get_num_pad2 [OF assms(2)] get_num_pad2 [OF assms(3)]
  by (simp add: date_chunks_def iso_date_def in_range_def)

definition iso_clock :: "nat \<Rightarrow> nat \<Rightarrow> nat \<Rightarrow> string" where
  "iso_clock h mi s = pad 2 h @ '':'' @ pad 2 mi @ '':'' @ pad 2 s"

lemma parse_chunks_clock:
  assumes "h < 24" "mi < 60" "s < 60" "r = [] \<or> hd r \<notin> {CHR ''.'', CHR '',''}"
  shows "parse_chunks (clock_chunks @ cs) (iso_clock h mi s @ r) t =
    parse_chunks cs r (t\<lparr>cp_hour := int h, cp_minute := int mi, cp_second := int s, cp_nanos := 0\<rparr>)"
proof -
  have "get_fraction r = (0, r)" using assms(4) by (cases r) (auto simp: get_fraction_def)
  then show ?thesis
    using assms get_num_pad2 [of h] get_num_pad2 [of mi] get_num_pad2 [of s]
    by (simp add: clock_chunks_def iso_clock_def in_range_def)
qed

lemma valid_date_small: "valid_date y (int m) (int d) \<Longrightarrow> m < 100 \<and> d < 100 \<and> 1 \<le> m \<and> m \<le> 12"
  using twelve [of "int m"]
  by (auto simp: valid_date_def month_len_def days_before_def split: if_splits)

lemma time_parse_RFC3339:
  assumes "y < 10000" "valid_date (int y) (int m) (int d)" "h < 24" "mi < 60" "s < 60"
  shows "time_parse RFC3339 (iso_date y m d @ ''T'' @ iso_clock h mi s @ ''Z'') =
    Some (days_of (int y) (int m) (int d) * day + int h * hour + int mi * minute + int s * second)"
proof -
  note d = valid_date_small [OF assms(2)]
  have "parse_chunks RFC3339 (iso_date y m d @ ''T'' @ iso_clock h mi s @ ''Z'') no_parts =
    Some (no_parts\<lparr>cp_year := int y, cp_month := int m, cp_day := int d, cp_hour := int h,
      cp_minute := int mi, cp_second := int s, cp_nanos := 0, cp_zone := 0\<rparr>)"
    using d parse_chunks_date [OF assms(1), of m d] parse_chunks_clock [OF assms(3-5), of "''Z''"]
    by (simp add: RFC3339_def has_prefix_def)
  then show ?thesis using assms(2) by (simp add: time_parse_def no_parts_def valid_date_def)
qed

lemma time_parse_date_only:
  assumes "y < 10000" "valid_date (int y) (int m) (int d)"
  shows "time_parse (date_chunks @ Lit ''T'' # cs) (iso_date y m d) = None"
  using valid_date_small [OF assms(2)] parse_chunks_date [OF assms(1), of m d _ "[]"]
  by (simp add: time_parse_def)

end
