(* ===== verification/Rdap.thy ===== *)
theory Rdap
  imports TimeParse
begin

text \<open>
  RDAP responses and their reduction to a flat result: the response types of
  \<open>src/src/whois/rdap/client.go\<close> and \<open>src/src/whois/rdap/parser.go\<close>. A decoded JSON value of
  unknown shape (\<open>interface{}\<close>) is a \<open>json\<close>. A value \<open>None\<close> of \<open>rdap_itoa\<close> and of the functions that
  use it means that the recursion never ends (in Go the process dies of stack exhaustion).
\<close>

subsection \<open>Responses\<close>

datatype json =
    JNull | JBool bool | JNum string | JStr string | JArr "json list" | JObj "(string \<times> json) list"

record event =
  eventAction :: string
  eventDate :: string
  eventActor :: string

record rdap_link =
  link_value :: string
  link_rel :: string
  link_href :: string
  link_type :: string

record public_id =
  pid_type :: string
  pid_identifier :: string

datatype entity =
  Entity (ent_class: string) (ent_handle: string) (ent_roles: "string list") (ent_vcard: "json list")
    (ent_entities: "entity list") (ent_events: "event list") (ent_links: "rdap_link list")
    (ent_pids: "public_id list")

record remark =
  remark_title :: string
  remark_description :: "string list"

record domain_response =
  dr_objectClass :: string
  dr_ldhName :: string
  dr_unicodeName :: string
  dr_handle :: string
  dr_status :: "string list"
  dr_entities :: "entity list"
  dr_events :: "event list"
  dr_nameservers :: "(string \<times> string) list"   \<comment> \<open>\<open>objectClassName\<close> and \<open>ldhName\<close>\<close>
  dr_secureDNS :: "bool option"                 \<comment> \<open>\<open>delegationSigned\<close>\<close>
  dr_links :: "rdap_link list"
  dr_remarks :: "remark list"
  dr_port43 :: string

record cidr0 =
  v4prefix :: string
  v6prefix :: string
  cidr_length :: int

record ip_response =
  ir_objectClass :: string
  ir_handle :: string
  ir_startAddress :: string
  ir_endAddress :: string
  ir_version :: string
  ir_name :: string
  ir_type :: string
  ir_country :: string
  ir_parentHandle :: string
  ir_status :: "string list"
  ir_entities :: "entity list"
  ir_events :: "event list"
  ir_links :: "rdap_link list"
  ir_port43 :: string
  ir_cidrs :: "cidr0 list"

record asn_response =
  ar_objectClass :: string
  ar_handle :: string
  ar_startAutnum :: nat
  ar_endAutnum :: nat
  ar_name :: string
  ar_type :: string
  ar_country :: string
  ar_status :: "string list"
  ar_entities :: "entity list"
  ar_events :: "event list"
  ar_links :: "rdap_link list"
  ar_port43 :: string

record parsed_result =
  pr_query :: string
  pr_queryType :: string
  pr_source :: string
  pr_rdapServer :: string
  pr_registrantName :: string
  pr_registrantOrg :: string
  pr_registrantEmail :: string
  pr_registrantCountry :: string
  pr_registrar :: string
  pr_registrarID :: string
  pr_created :: time
  pr_updated :: time
  pr_expiry :: time
  pr_nameservers :: "string list"
  pr_status :: "string list"
  pr_dnssec :: bool
  pr_networkName :: string
  pr_networkRange :: string
  pr_networkType :: string
  pr_asnNumber :: nat
  pr_asnName :: string
  pr_rir :: string
  pr_raw :: string

definition empty_result :: parsed_result where
  "empty_result = \<lparr>pr_query = [], pr_queryType = [], pr_source = [], pr_rdapServer = [],
     pr_registrantName = [], pr_registrantOrg = [], pr_registrantEmail = [], pr_registrantCountry = [],
     pr_registrar = [], pr_registrarID = [], pr_created = 0, pr_updated = 0, pr_expiry = 0,
     pr_nameservers = [], pr_status = [], pr_dnssec = False, pr_networkName = [], pr_networkRange = [],
     pr_networkType = [], pr_asnNumber = 0, pr_asnName = [], pr_rir = [], pr_raw = []\<rparr>"

subsection \<open>Helpers\<close>

text \<open>\<open>itoa\<close>: the loop over the digits, then the recursion on negative numbers.\<close>

function digit_loop :: "int \<Rightarrow> string \<Rightarrow> string" where
  "digit_loop i acc =
     (if 0 < i then digit_loop (i div 10) (digit_char (nat (i mod 10)) # acc) else acc)"
  by pat_completeness auto
termination
  by (relation "measure (\<lambda>(i, acc). nat i)") auto

declare digit_loop.simps [simp del]

partial_function (option) rdap_itoa :: "int \<Rightarrow> string option" where
  "rdap_itoa i =
     (if i = 0 then Some ''0''
      else if i < 0 then Option.bind (rdap_itoa (wrap64 (- i))) (\<lambda>s. Some (CHR ''-'' # s))
      else Some (digit_loop i []))"

definition parse_rdap_date :: "string \<Rightarrow> time" where
  "parse_rdap_date s =
     (if s = [] then 0
      else parse_first
        [RFC3339,
         date_chunks @ [Lit ''T''] @ clock_chunks @ [Lit ''Z''],
         date_chunks @ [Lit ''T''] @ clock_chunks @ [ZoneNum],
         date_chunks @ [Lit ''T''] @ clock_chunks,
         date_chunks] s)"

definition detect_rir :: "string \<Rightarrow> string" where
  "detect_rir s =
     (let l = to_lower s
      in if contains_sub l ''arin'' then ''ARIN''
         else if contains_sub l ''ripe'' then ''RIPE''
         else if contains_sub l ''apnic'' then ''APNIC''
         else if contains_sub l ''lacnic'' then ''LACNIC''
         else if contains_sub l ''afrinic'' then ''AFRINIC''
         else '''')"

definition detect_rir_from_server :: "string \<Rightarrow> string" where
  "detect_rir_from_server s = detect_rir s"

definition detect_rir_from_endpoint :: "string \<Rightarrow> string" where
  "detect_rir_from_endpoint s = detect_rir s"

text \<open>One property of a jCard: name, organisation and email are overwritten by later ones.\<close>

fun vcard_prop :: "json \<Rightarrow> string \<times> string \<times> string \<Rightarrow> string \<times> string \<times> string" where
  "vcard_prop (JArr arr) (name, org, email) =
     (if length arr < 4 then (name, org, email)
      else case arr ! 0 of
             JStr p \<Rightarrow>
               (let p = to_lower p; v = arr ! 3
                in if p = ''fn'' then (case v of JStr s \<Rightarrow> (s, org, email) | _ \<Rightarrow> (name, org, email))
                   else if p = ''org'' then
                     (case v of
                        JStr s \<Rightarrow> (name, s, email)
                      | JArr (JStr s # _) \<Rightarrow> (name, s, email)
                      | _ \<Rightarrow> (name, org, email))
                   else if p = ''email'' then (case v of JStr s \<Rightarrow> (name, org, s) | _ \<Rightarrow> (name, org, email))
                   else (name, org, email))
           | _ \<Rightarrow> (name, org, email))"
| "vcard_prop _ st = st"

definition parse_vcard :: "json list \<Rightarrow> string \<times> string \<times> string" where
  "parse_vcard vc =
     (if length vc < 2 then ('''', '''', '''')
      else case vc ! 1 of
             JArr props \<Rightarrow> fold vcard_prop props ('''', '''', '''')
           | _ \<Rightarrow> ('''', '''', ''''))"

subsection \<open>Entities\<close>

definition keep :: "string \<Rightarrow> string \<Rightarrow> string" where
  "keep old new = (if old = [] then new else old)"

definition has_role :: "string list \<Rightarrow> string \<Rightarrow> bool" where
  "has_role roles r \<longleftrightarrow> r \<in> set (map to_lower roles)"

text \<open>
  What \<open>parseEntity\<close> does before it descends into the nested entities: the three conditional
  blocks, then their composition.
\<close>

definition registrant_step :: "string list \<Rightarrow> string \<Rightarrow> string \<Rightarrow> string \<Rightarrow> parsed_result \<Rightarrow> parsed_result" where
  "registrant_step roles name org email r =
     (if has_role roles ''registrant'' then
        r\<lparr>pr_registrantName := keep (pr_registrantName r) name,
          pr_registrantOrg := keep (pr_registrantOrg r) org,
          pr_registrantEmail := keep (pr_registrantEmail r) email\<rparr>
      else r)"

definition registrar_name_step :: "string \<Rightarrow> string \<Rightarrow> parsed_result \<Rightarrow> parsed_result" where
  "registrar_name_step name org r =
     (if pr_registrar r = [] then
        (if name \<noteq> [] then r\<lparr>pr_registrar := name\<rparr>
         else if org \<noteq> [] then r\<lparr>pr_registrar := org\<rparr> else r)
      else r)"

definition registrar_step :: "string list \<Rightarrow> string \<Rightarrow> string \<Rightarrow> public_id list \<Rightarrow> parsed_result \<Rightarrow> parsed_result" where
  "registrar_step roles name org pids r =
     (if has_role roles ''registrar'' then
        (case List.find (\<lambda>p. to_lower (pid_type p) = ''iana registrar id'') pids of
           Some p \<Rightarrow> (registrar_name_step name org r)\<lparr>pr_registrarID := pid_identifier p\<rparr>
         | None \<Rightarrow> registrar_name_step name org r)
      else r)"

definition org_fallback :: "string list \<Rightarrow> string \<Rightarrow> parsed_result \<Rightarrow> parsed_result" where
  "org_fallback roles org r =
     (if pr_registrantOrg r = [] \<and> org \<noteq> [] \<and> \<not> has_role roles ''registrar''
      then r\<lparr>pr_registrantOrg := org\<rparr> else r)"

definition entity_own ::
  "string list \<Rightarrow> json list \<Rightarrow> public_id list \<Rightarrow> parsed_result \<Rightarrow> parsed_result" where
  "entity_own roles vc pids r =
     (let (name, org, email) = parse_vcard vc
      in org_fallback roles org (registrar_step roles name org pids
           (registrant_step roles name org email r)))"

fun parse_entity :: "entity \<Rightarrow> parsed_result \<Rightarrow> parsed_result"
and parse_entities :: "entity list \<Rightarrow> parsed_result \<Rightarrow> parsed_result" where
  "parse_entity (Entity cls h roles vc es evs ls pids) r = parse_entities es (entity_own roles vc pids r)"
| "parse_entities [] r = r"
| "parse_entities (e # es) r = parse_entities es (parse_entity e r)"

subsection \<open>The three responses\<close>

definition domain_event :: "event \<Rightarrow> parsed_result \<Rightarrow> parsed_result" where
  "domain_event e r =
     (let t = parse_rdap_date (eventDate e); a = to_lower (eventAction e)
      in if t = 0 then r
         else if a = ''registration'' then r\<lparr>pr_created := t\<rparr>
         else if a = ''last changed'' \<or> a = ''last update of rdap database'' then r\<lparr>pr_updated := t\<rparr>
         else if a = ''expiration'' then r\<lparr>pr_expiry := t\<rparr>
         else r)"

definition number_event :: "event \<Rightarrow> parsed_result \<Rightarrow> parsed_result" where
  "number_event e r =
     (let t = parse_rdap_date (eventDate e); a = to_lower (eventAction e)
      in if t = 0 then r
         else if a = ''registration'' then r\<lparr>pr_created := t\<rparr>
         else if a = ''last changed'' then r\<lparr>pr_updated := t\<rparr>
         else r)"

definition parse_domain_response ::
  "domain_response \<Rightarrow> string \<Rightarrow> string \<Rightarrow> string \<Rightarrow> parsed_result" where
  "parse_domain_response resp query endpoint raw =
     (let r0 = empty_result\<lparr>pr_query := (if dr_ldhName resp \<noteq> [] then to_lower (dr_ldhName resp) else query),
                 pr_queryType := ''domain'', pr_source := ''rdap'', pr_rdapServer := endpoint,
                 pr_raw := raw, pr_status := dr_status resp,
                 pr_nameservers := map to_lower (filter (\<lambda>n. n \<noteq> []) (map snd (dr_nameservers resp))),
                 pr_dnssec := (case dr_secureDNS resp of None \<Rightarrow> False | Some b \<Rightarrow> b)\<rparr>;
          r1 = fold domain_event (dr_events resp) r0;
          r2 = parse_entities (dr_entities resp) r1
      in if dr_port43 resp \<noteq> [] then r2\<lparr>pr_rir := detect_rir_from_server (dr_port43 resp)\<rparr> else r2)"

definition rir_of :: "string \<Rightarrow> string \<Rightarrow> parsed_result \<Rightarrow> parsed_result" where
  "rir_of port43 endpoint r0 =
     (let r1 = (if port43 \<noteq> [] then r0\<lparr>pr_rir := detect_rir_from_server port43\<rparr> else r0)
      in if pr_rir r1 = [] \<and> endpoint \<noteq> [] then r1\<lparr>pr_rir := detect_rir_from_endpoint endpoint\<rparr> else r1)"

text \<open>The texts of the CIDR blocks; \<open>None\<close> when one of the lengths makes \<open>itoa\<close> diverge.\<close>

fun cidr_texts :: "cidr0 list \<Rightarrow> string list option" where
  "cidr_texts [] = Some []"
| "cidr_texts (c # cs) =
     (let txt = (\<lambda>p. if p = [] then Some [] else map_option (\<lambda>l. [p @ ''/'' @ l]) (rdap_itoa (cidr_length c)))
      in case (txt (v4prefix c), txt (v6prefix c), cidr_texts cs) of
           (Some a, Some b, Some r) \<Rightarrow> Some (a @ b @ r)
         | _ \<Rightarrow> None)"

definition parse_ip_response ::
  "ip_response \<Rightarrow> string \<Rightarrow> string \<Rightarrow> string \<Rightarrow> bool \<Rightarrow> parsed_result option" where
  "parse_ip_response resp query endpoint raw isIPv6 =
     map_option (\<lambda>cidrs.
       let r0 = empty_result\<lparr>pr_query := query,
                   pr_queryType := (if isIPv6 then ''ipv6'' else ''ipv4''), pr_source := ''rdap'',
                   pr_rdapServer := endpoint, pr_raw := raw, pr_networkName := ir_name resp,
                   pr_networkType := ir_type resp,
                   pr_registrantCountry := (if ir_country resp \<noteq> [] then to_upper (ir_country resp) else []),
                   pr_networkRange :=
                     (if cidrs \<noteq> [] then join '', '' cidrs
                      else if ir_startAddress resp \<noteq> [] \<and> ir_endAddress resp \<noteq> []
                      then ir_startAddress resp @ '' - '' @ ir_endAddress resp else []),
                   pr_status := ir_status resp\<rparr>;
           r1 = fold number_event (ir_events resp) r0;
           r2 = parse_entities (ir_entities resp) r1
       in rir_of (ir_port43 resp) endpoint r2) (cidr_texts (ir_cidrs resp))"

definition parse_asn_response ::
  "asn_response \<Rightarrow> nat \<Rightarrow> string \<Rightarrow> string \<Rightarrow> parsed_result option" where
  "parse_asn_response resp asn endpoint raw =
     map_option (\<lambda>digits.
       let r0 = empty_result\<lparr>pr_query := ''AS'' @ digits, pr_queryType := ''asn'', pr_source := ''rdap'',
                   pr_rdapServer := endpoint, pr_asnNumber := asn, pr_raw := raw,
                   pr_asnName := ar_name resp, pr_networkType := ar_type resp,
                   pr_registrantCountry := (if ar_country resp \<noteq> [] then to_upper (ar_country resp) else []),
                   pr_status := ar_status resp\<rparr>;
           r1 = fold number_event (ar_events resp) r0;
           r2 = parse_entities (ar_entities resp) r1
       in rir_of (ar_port43 resp) endpoint r2) (rdap_itoa (int asn))"

subsection \<open>Lemmas\<close>

lemma digit_loop_itoa: "digit_loop (int n) acc = (if n = 0 then acc else itoa_nat n @ acc)"
proof (induction n arbitrary: acc rule: less_induct)
  case (less n)
  show ?case
  proof (cases "n = 0")
    case False
    then have "digit_loop (int n) acc = digit_loop (int (n div 10)) (digit_char (n mod 10) # acc)"
    proof -
      have "nat (int n mod 10) = n mod 10" "int n div 10 = int (n div 10)"
        by (simp_all add: zdiv_int nat_mod_distrib)
      then show ?thesis using False by (subst digit_loop.simps) simp
    qed
    also have "\<dots> = (if n div 10 = 0 then digit_char (n mod 10) # acc
                   else itoa_nat (n div 10) @ digit_char (n mod 10) # acc)"
      using False by (intro less) simp
    also have "\<dots> = itoa_nat n @ acc"
      by (subst (2) itoa_nat.simps) (auto simp: div_eq_0_iff)
    finally show ?thesis using False by simp
  qed (simp add: digit_loop.simps)
qed

lemma rdap_itoa_nonneg: "0 \<le> i \<Longrightarrow> rdap_itoa i = Some (itoa_int i)"
  using digit_loop_itoa [of "nat i" "[]"]
  by (subst rdap_itoa.simps) (auto simp: itoa_int_def itoa_nat.simps [of 0] digit_char_0)

lemma rdap_itoa_diverges: "rdap_itoa (- (2 ^ 63)) = None"
proof (cases "rdap_itoa (- (2 ^ 63))")
  case (Some s)
  have w: "wrap64 (- (- (2 ^ 63))) = - (2 ^ 63)" by (simp add: wrap64_def)
  have "rdap_itoa (- (2 ^ 63)) = Option.bind (rdap_itoa (- (2 ^ 63))) (\<lambda>s. Some (CHR ''-'' # s))"
    by (subst rdap_itoa.simps) (simp only: w, simp)
  then have "s = CHR ''-'' # s" using Some by simp
  then show ?thesis by (metis length_Cons n_not_Suc_n)
qed

lemma rdap_itoa_cases:
  assumes "- (2 ^ 63) \<le> i" "i < 2 ^ 63"
  shows "rdap_itoa i = (if i = - (2 ^ 63) then None else Some (itoa_int i))"
proof (cases "i = - (2 ^ 63) \<or> 0 \<le> i")
  case True
  then show ?thesis using rdap_itoa_diverges rdap_itoa_nonneg [of i] by auto
next
  case False
  then have w: "wrap64 (- i) = - i" using assms by (intro wrap64_id) auto
  have "rdap_itoa i = Option.bind (rdap_itoa (wrap64 (- i))) (\<lambda>s. Some (CHR ''-'' # s))"
    using False by (subst rdap_itoa.simps) simp
  then show ?thesis
    using False rdap_itoa_nonneg [of "- i"] by (simp add: w itoa_int_def)
qed

text \<open>What no entity touches, and the fields whose first value stays.\<close>

definition same_frame :: "parsed_result \<Rightarrow> parsed_result \<Rightarrow> bool" where
  "same_frame r r' \<longleftrightarrow> pr_created r' = pr_created r \<and> pr_updated r' = pr_updated r \<and>
     pr_expiry r' = pr_expiry r \<and> pr_nameservers r' = pr_nameservers r \<and> pr_status r' = pr_status r \<and>
     pr_query r' = pr_query r \<and> pr_networkRange r' = pr_networkRange r \<and> pr_dnssec r' = pr_dnssec r"

definition first_kept :: "parsed_result \<Rightarrow> parsed_result \<Rightarrow> bool" where
  "first_kept r r' \<longleftrightarrow>
     pr_registrantName r' = keep (pr_registrantName r) (pr_registrantName r') \<and>
     pr_registrantOrg r' = keep (pr_registrantOrg r) (pr_registrantOrg r') \<and>
     pr_registrantEmail r' = keep (pr_registrantEmail r) (pr_registrantEmail r') \<and>
     pr_registrar r' = keep (pr_registrar r) (pr_registrar r')"

lemma entity_steps:
  "same_frame r (registrant_step roles n o1 e r) \<and> first_kept r (registrant_step roles n o1 e r)"
  "same_frame r (registrar_step roles n o1 pids r) \<and> first_kept r (registrar_step roles n o1 pids r)"
  "same_frame r (org_fallback roles o1 r) \<and> first_kept r (org_fallback roles o1 r)"
  by (simp_all add: registrant_step_def registrar_step_def registrar_name_step_def org_fallback_def
      same_frame_def first_kept_def keep_def split: option.split)

lemma frame_trans: "same_frame r s \<and> first_kept r s \<Longrightarrow> same_frame s t \<and> first_kept s t \<Longrightarrow> same_frame r t \<and> first_kept r t"
  by (auto simp: same_frame_def first_kept_def keep_def split: if_split_asm)

lemma entity_own_frame: "same_frame r (entity_own roles vc pids r) \<and> first_kept r (entity_own roles vc pids r)"
proof -
  obtain n o1 e where v: "parse_vcard vc = (n, o1, e)" by (cases "parse_vcard vc")
  show ?thesis
    unfolding entity_own_def Let_def v prod.case
    by (rule frame_trans [OF entity_steps(1) frame_trans [OF entity_steps(2) entity_steps(3)]])
qed

lemma parse_entities_frame:
  "same_frame r (parse_entity e r) \<and> first_kept r (parse_entity e r)"
  "same_frame r (parse_entities es r) \<and> first_kept r (parse_entities es r)"
proof (induction e r and es r rule: parse_entity_parse_entities.induct)
  case (1 cls h roles vc es evs ls pids r)
  then show ?case unfolding parse_entity.simps by (rule frame_trans [OF entity_own_frame])
next
  case (3 e es r)
  then show ?case unfolding parse_entities.simps by (rule frame_trans)
qed (simp add: same_frame_def first_kept_def keep_def)

text \<open>The dates of the events with one of the given actions, unparsable ones left out.\<close>

definition event_dates :: "string list \<Rightarrow> event list \<Rightarrow> time list" where
  "event_dates acts evs =
     filter (\<lambda>t. t \<noteq> 0) (map (\<lambda>e. parse_rdap_date (eventDate e))
       (filter (\<lambda>e. to_lower (eventAction e) \<in> set acts) evs))"

lemma last_dates: "last (t # event_dates acts (e # evs)) =
   last ((if to_lower (eventAction e) \<in> set acts \<and> parse_rdap_date (eventDate e) \<noteq> 0
          then parse_rdap_date (eventDate e) else t) # event_dates acts evs)"
  by (simp add: event_dates_def)

lemma domain_event_fields:
  "pr_created (domain_event e r) =
     (if to_lower (eventAction e) \<in> set [''registration''] \<and> parse_rdap_date (eventDate e) \<noteq> 0
      then parse_rdap_date (eventDate e) else pr_created r)"
  "pr_updated (domain_event e r) =
     (if to_lower (eventAction e) \<in> set [''last changed'', ''last update of rdap database''] \<and>
         parse_rdap_date (eventDate e) \<noteq> 0
      then parse_rdap_date (eventDate e) else pr_updated r)"
  "pr_expiry (domain_event e r) =
     (if to_lower (eventAction e) \<in> set [''expiration''] \<and> parse_rdap_date (eventDate e) \<noteq> 0
      then parse_rdap_date (eventDate e) else pr_expiry r)"
  by (simp_all add: domain_event_def Let_def)

lemma domain_events:
  "pr_created (fold domain_event evs r) = last (pr_created r # event_dates [''registration''] evs)"
  "pr_updated (fold domain_event evs r) =
     last (pr_updated r # event_dates [''last changed'', ''last update of rdap database''] evs)"
  "pr_expiry (fold domain_event evs r) = last (pr_expiry r # event_dates [''expiration''] evs)"
  by (induction evs arbitrary: r)
    (simp_all only: fold_simps last_dates domain_event_fields, simp_all add: event_dates_def)

subsection \<open>Properties\<close>

text \<open>
  \<open>itoa\<close> prints every 64-bit integer but the least one, and on that one it recurses forever:
  its negation is itself. So a CIDR length of -2^63 in the answer of an RDAP server kills the
  process.
\<close>

theorem rdap_itoa_spec:
  assumes "- (2 ^ 63) \<le> i" "i < 2 ^ 63"
  shows "rdap_itoa i = (if i = - (2 ^ 63) then None else Some (itoa_int i)) \<and>
    parse_ip_response (resp\<lparr>ir_cidrs := [\<lparr>v4prefix = ''10.0.0.0'', v6prefix = [], cidr_length = - (2 ^ 63)\<rparr>]\<rparr>)
      q ep raw v6 = None"
proof
  show "rdap_itoa i = (if i = - (2 ^ 63) then None else Some (itoa_int i))" by (rule rdap_itoa_cases [OF assms])
  show "parse_ip_response (resp\<lparr>ir_cidrs := [\<lparr>v4prefix = ''10.0.0.0'', v6prefix = [], cidr_length = - (2 ^ 63)\<rparr>]\<rparr>)
      q ep raw v6 = None"
    using rdap_itoa_diverges by (simp add: parse_ip_response_def)
qed

theorem rdap_itoa_spec_witness: "rdap_itoa (- 24) = Some (itoa_int (- 24))"
  using rdap_itoa_spec [of "- 24"] by simp

text \<open>
  a registrant name, organisation or email and a registrar once found are kept: neither later
  nor nested entities replace them, and no entity touches dates, status, name servers or ranges.
\<close>

theorem first_entity_wins:
  "(pr_registrantName r \<noteq> [] \<longrightarrow> pr_registrantName (parse_entities es r) = pr_registrantName r) \<and>
   (pr_registrantOrg r \<noteq> [] \<longrightarrow> pr_registrantOrg (parse_entities es r) = pr_registrantOrg r) \<and>
   (pr_registrantEmail r \<noteq> [] \<longrightarrow> pr_registrantEmail (parse_entities es r) = pr_registrantEmail r) \<and>
   (pr_registrar r \<noteq> [] \<longrightarrow> pr_registrar (parse_entities es r) = pr_registrar r) \<and>
   same_frame r (parse_entities es r)"
  using parse_entities_frame(2) [of r es] by (auto simp: first_kept_def keep_def)

theorem first_entity_wins_witness:
  "pr_registrar (parse_entities [Entity [] [] [''registrar''] [JStr ''vcard'', JArr [JArr [JStr ''fn'', JNull, JNull, JStr ''B'']]] [] [] [] []]
     (empty_result\<lparr>pr_registrar := ''A''\<rparr>)) = ''A''"
  using first_entity_wins [of "empty_result\<lparr>pr_registrar := ''A''\<rparr>"]
  by (simp del: parse_entities.simps parse_entity.simps)

text \<open>
  the fallback for the organisation does not wait for the registrant: the organisation of a
  technical contact listed first is reported as the registrant's, although the registrant has one.
\<close>

theorem org_fallback_shadows_registrant:
  assumes "parse_vcard vt = (nt, ot, et)" "ot \<noteq> []" "parse_vcard vr = (nr, ro, er)"
  shows "pr_registrantOrg (parse_entities
      [Entity [] [] [''technical''] vt [] [] [] [], Entity [] [] [''registrant''] vr [] [] [] []] empty_result) = ot"
  using assms
  by (simp add: entity_own_def registrant_step_def registrar_step_def org_fallback_def has_role_def
      keep_def empty_result_def str_evals)

theorem org_fallback_shadows_registrant_witness:
  "pr_registrantOrg (parse_entities
      [Entity [] [] [''technical''] [JNull, JArr [JArr [JStr ''org'', JNull, JNull, JStr ''Host Ltd'']]] [] [] [] [],
       Entity [] [] [''registrant''] [JNull, JArr [JArr [JStr ''org'', JNull, JNull, JStr ''Owner Inc'']]] [] [] [] []]
     empty_result) = ''Host Ltd''"
  by (rule org_fallback_shadows_registrant [where nt = "[]" and et = "[]" and nr = "[]" and ro = "''Owner Inc''" and er = "[]"])
    (simp_all add: parse_vcard_def str_evals)

text \<open>
  the dates of a domain are those of the last event of each kind whose date can be read, and
  the zero time when there is none; entities do not change them.
\<close>

theorem domain_dates:
  "pr_created (parse_domain_response resp q ep raw) = last (0 # event_dates [''registration''] (dr_events resp)) \<and>
   pr_updated (parse_domain_response resp q ep raw) =
     last (0 # event_dates [''last changed'', ''last update of rdap database''] (dr_events resp)) \<and>
   pr_expiry (parse_domain_response resp q ep raw) = last (0 # event_dates [''expiration''] (dr_events resp))"
proof -
  define r0 where "r0 = empty_result\<lparr>pr_query := (if dr_ldhName resp \<noteq> [] then to_lower (dr_ldhName resp) else q),
                 pr_queryType := ''domain'', pr_source := ''rdap'', pr_rdapServer := ep,
                 pr_raw := raw, pr_status := dr_status resp,
                 pr_nameservers := map to_lower (filter (\<lambda>n. n \<noteq> []) (map snd (dr_nameservers resp))),
                 pr_dnssec := (case dr_secureDNS resp of None \<Rightarrow> False | Some b \<Rightarrow> b)\<rparr>"
  have z: "pr_created r0 = 0" "pr_updated r0 = 0" "pr_expiry r0 = 0"
    by (simp_all add: r0_def empty_result_def)
  define r2 where "r2 = parse_entities (dr_entities resp) (fold domain_event (dr_events resp) r0)"
  have p: "parse_domain_response resp q ep raw =
      (if dr_port43 resp \<noteq> [] then r2\<lparr>pr_rir := detect_rir_from_server (dr_port43 resp)\<rparr> else r2)"
    unfolding parse_domain_response_def Let_def r2_def r0_def ..
  have f: "same_frame (fold domain_event (dr_events resp) r0) r2"
    unfolding r2_def using parse_entities_frame(2) by blast
  show ?thesis
    unfolding p using f by (auto simp: same_frame_def domain_events z)
qed

text \<open>
  a date in ISO notation reads as midnight UTC of that day, and a time stamp in RFC 3339
  notation as that instant.
\<close>

theorem rdap_date_roundtrip:
  assumes "y < 10000" "valid_date (int y) (int m) (int d)" "h < 24" "mi < 60" "s < 60"
  shows "parse_rdap_date (iso_date y m d) = days_of (int y) (int m) (int d) * day \<and>
    parse_rdap_date (iso_date y m d @ ''T'' @ iso_clock h mi s @ ''Z'') =
      days_of (int y) (int m) (int d) * day + int h * hour + int mi * minute + int s * second"
proof -
  have rf: "RFC3339 = date_chunks @ Lit ''T'' # (clock_chunks @ [ZoneZ])" by (simp add: RFC3339_def)
  have "time_parse RFC3339 (iso_date y m d) = None"
    unfolding rf by (rule time_parse_date_only [OF assms(1,2)])
  moreover have "iso_date y m d \<noteq> []" by (simp add: iso_date_def)
  ultimately show ?thesis
    using time_parse_iso [OF assms(1,2)] time_parse_date_only [OF assms(1,2)] time_parse_RFC3339 [OF assms]
    by (simp add: parse_rdap_date_def)
qed

theorem rdap_date_roundtrip_witness:
  "parse_rdap_date (iso_date 2024 2 29) = days_of 2024 2 29 * day"
  using rdap_date_roundtrip [of 2024 2 29 0 0 0]
  by (simp add: valid_date_def month_len_def days_before_def leap_def)

end
