(* ===== verification/RdapClient.thy ===== *)
theory RdapClient
  imports Bootstrap Rdap
begin

text \<open>
  RDAP queries: the operations of \<open>src/src/whois/rdap/client.go\<close>. The HTTP client is the parameter
  \<open>net\<close>, from the URL requested to its answer, and the JSON decoders are the fields of \<open>codec\<close>
  (\<open>None\<close> for text that does not decode).
\<close>

datatype http_answer =
    NoAnswer string             \<comment> \<open>no request could be built or sent, or no response came\<close>
  | Answer nat "string option"  \<comment> \<open>the status and the body, \<open>None\<close> when reading it fails\<close>

datatype request_error =
    ReqFailed string
  | ReqAuthRequired nat
  | ReqRDAPError int string
  | ReqStatus nat
  | ReqBodyFailed
  | ReqParseFailed

datatype rdap_error =
    NoEndpoint string
  | AllFailed request_error
  | InvalidASN string
  | UnsupportedType

record codec =
  dec_domain :: "string \<Rightarrow> domain_response option"
  dec_ip :: "string \<Rightarrow> ip_response option"
  dec_asn :: "string \<Rightarrow> asn_response option"
  dec_error :: "string \<Rightarrow> (int \<times> string) option"   \<comment> \<open>error code and title\<close>

subsection \<open>url.PathEscape\<close>

definition hex_char :: "nat \<Rightarrow> char" where
  "hex_char n = (if n < 10 then char_of (48 + n) else char_of (55 + n))"

definition path_plain :: "char \<Rightarrow> bool" where
  "path_plain c \<longleftrightarrow> is_digit c \<or> is_upper c \<or> is_lower c \<or> c \<in> set ''-_.~$&+:=@''"

definition path_escape :: "string \<Rightarrow> string" where
  "path_escape s =
     concat (map (\<lambda>c. if path_plain c then [c]
                       else [CHR ''%'', hex_char (byte c div 16), hex_char (byte c mod 16)]) s)"

subsection \<open>Requests\<close>

definition do_request :: "codec \<Rightarrow> (string \<Rightarrow> http_answer) \<Rightarrow> string \<Rightarrow> request_error + string" where
  "do_request cd net endpoint =
     (case net endpoint of
        NoAnswer e \<Rightarrow> Inl (ReqFailed e)
      | Answer status body \<Rightarrow>
          if status = 401 \<or> status = 403 then Inl (ReqAuthRequired status)
          else if status \<noteq> 200 then
            (case dec_error cd (opt_or body '''') of
               Some (code, title) \<Rightarrow> if code \<noteq> 0 then Inl (ReqRDAPError code title) else Inl (ReqStatus status)
             | None \<Rightarrow> Inl (ReqStatus status))
          else (case body of None \<Rightarrow> Inl ReqBodyFailed | Some b \<Rightarrow> Inr b))"

definition query_endpoint ::
  "codec \<Rightarrow> (string \<Rightarrow> http_answer) \<Rightarrow> (string \<Rightarrow> 'r option) \<Rightarrow> string \<Rightarrow> (request_error + 'r) \<times> string" where
  "query_endpoint cd net dec endpoint =
     (case do_request cd net endpoint of
        Inl e \<Rightarrow> (Inl e, endpoint)
      | Inr body \<Rightarrow> (case dec body of None \<Rightarrow> (Inl ReqParseFailed, endpoint) | Some r \<Rightarrow> (Inr r, endpoint)))"

definition query_domain_endpoint where
  "query_domain_endpoint cd net base d =
     query_endpoint cd net (dec_domain cd) (trim_suffix base ''/'' @ ''/domain/'' @ path_escape d)"

definition query_ip_endpoint where
  "query_ip_endpoint cd net base ip =
     query_endpoint cd net (dec_ip cd) (trim_suffix base ''/'' @ ''/ip/'' @ path_escape ip)"

definition query_asn_endpoint where
  "query_asn_endpoint cd net base n =
     query_endpoint cd net (dec_asn cd) (trim_suffix base ''/'' @ ''/autnum/'' @ itoa_nat n)"

text \<open>The loop over the endpoints: the first success, else the last error.\<close>

fun try_endpoints ::
  "(string \<Rightarrow> (request_error + 'r) \<times> string) \<Rightarrow> request_error option \<Rightarrow> string list \<Rightarrow>
   request_error option + ('r \<times> string)" where
  "try_endpoints q err [] = Inl err"
| "try_endpoints q err (u # us) =
     (case q u of
        (Inr r, ep) \<Rightarrow> Inr (r, ep)
      | (Inl e, ep) \<Rightarrow> try_endpoints q (Some e) us)"

definition query_all ::
  "string \<Rightarrow> (string \<Rightarrow> (request_error + 'r) \<times> string) \<Rightarrow> string list \<Rightarrow> rdap_error + ('r \<times> string)" where
  "query_all what q eps =
     (if eps = [] then Inl (NoEndpoint what)
      else case try_endpoints q None eps of
             Inr r \<Rightarrow> Inr r
           | Inl e \<Rightarrow> Inl (AllFailed (opt_or e (ReqFailed ''''))))"

definition query_domain where
  "query_domain cd net b d = query_all d (\<lambda>u. query_domain_endpoint cd net u d) (get_domain_endpoints b d)"

definition query_ip where
  "query_ip cd net b ip isIPv6 =
     query_all ip (\<lambda>u. query_ip_endpoint cd net u ip)
       (if isIPv6 then get_ipv6_endpoints b ip else get_ipv4_endpoints b ip)"

definition query_asn where
  "query_asn cd net b n =
     query_all (itoa_nat n) (\<lambda>u. query_asn_endpoint cd net u n) (get_asn_endpoints b n)"

subsection \<open>Lemmas\<close>

lemma try_endpoints_Inr:
  "try_endpoints q err us = Inr (r, ep) \<longleftrightarrow>
     (\<exists>as u bs. us = as @ u # bs \<and> q u = (Inr r, ep) \<and> (\<forall>a\<in>set as. \<exists>e x. q a = (Inl e, x)))"
proof (induction q err us rule: try_endpoints.induct)
  case (2 q err u us)
  show ?case
  proof (cases "fst (q u)")
    case (Inl e)
    then obtain x where q: "q u = (Inl e, x)" by (metis prod.collapse)
    have "try_endpoints q err (u # us) = Inr (r, ep) \<longleftrightarrow>
       (\<exists>as v bs. us = as @ v # bs \<and> q v = (Inr r, ep) \<and> (\<forall>a\<in>set as. \<exists>e x. q a = (Inl e, x)))"
      using 2 q by simp
    also have "\<dots> \<longleftrightarrow> (\<exists>as v bs. u # us = as @ v # bs \<and> q v = (Inr r, ep) \<and> (\<forall>a\<in>set as. \<exists>e x. q a = (Inl e, x)))"
      (is "?l \<longleftrightarrow> ?r")
    proof
      assume ?l
      then obtain as v bs where "us = as @ v # bs" "q v = (Inr r, ep)" "\<forall>a\<in>set as. \<exists>e x. q a = (Inl e, x)"
        by blast
      then show ?r using q by (intro exI [of _ "u # as"] exI [of _ v] exI [of _ bs]) auto
    next
      assume ?r
      then obtain as v bs where r: "u # us = as @ v # bs" "q v = (Inr r, ep)" "\<forall>a\<in>set as. \<exists>e x. q a = (Inl e, x)"
        by blast
      then obtain as' where "as = u # as'" using q by (cases as) auto
      then show ?l using r by auto
    qed
    finally show ?thesis .
  next
    case (Inr r')
    then obtain x where q: "q u = (Inr r', x)" by (metis prod.collapse)
    show ?thesis
    proof
      assume "try_endpoints q err (u # us) = Inr (r, ep)"
      then show "\<exists>as v bs. u # us = as @ v # bs \<and> q v = (Inr r, ep) \<and> (\<forall>a\<in>set as. \<exists>e x. q a = (Inl e, x))"
        using q by (intro exI [of _ "[]"] exI [of _ u] exI [of _ us]) auto
    next
      assume "\<exists>as v bs. u # us = as @ v # bs \<and> q v = (Inr r, ep) \<and> (\<forall>a\<in>set as. \<exists>e x. q a = (Inl e, x))"
      then obtain as v bs where r: "u # us = as @ v # bs" "q v = (Inr r, ep)" "\<forall>a\<in>set as. \<exists>e x. q a = (Inl e, x)"
        by blast
      then have "as = []" using q by (cases as) auto
      then show "try_endpoints q err (u # us) = Inr (r, ep)" using r q by simp
    qed
  qed
qed simp

lemma query_endpoint_ok:
  "query_endpoint cd net dec ep = (Inr r, ep') \<Longrightarrow>
     ep' = ep \<and> (\<exists>body. net ep = Answer 200 (Some body) \<and> dec body = Some r)"
  by (auto simp: query_endpoint_def do_request_def split: sum.splits http_answer.splits option.splits if_splits)

lemma query_all_Inr:
  "query_all w q eps = Inr (r, ep) \<longleftrightarrow>
     (\<exists>as u bs. eps = as @ u # bs \<and> q u = (Inr r, ep) \<and> (\<forall>a\<in>set as. \<exists>e x. q a = (Inl e, x)))"
  unfolding try_endpoints_Inr [of q None eps r ep, symmetric] by (auto simp: query_all_def split: sum.splits)

lemma hex_char_plain: "n < 16 \<Longrightarrow> hex_char n \<notin> {CHR ''/'', CHR ''?'', CHR ''#'', CHR '' ''}"
  by (auto simp: hex_char_def dest!: arg_cong [where f = byte])

lemma path_escape_safe: "set (path_escape ip) \<inter> {CHR ''/'', CHR ''?'', CHR ''#'', CHR '' ''} = {}"
proof -
  have p: "\<not> path_plain c" if "c \<in> {CHR ''/'', CHR ''?'', CHR ''#'', CHR '' ''}" for c
    using that by (auto simp: path_plain_def is_digit_def is_upper_def is_lower_def)
  have q: "set (if path_plain d then [d] else [CHR ''%'', hex_char (byte d div 16), hex_char (byte d mod 16)])
     \<inter> {CHR ''/'', CHR ''?'', CHR ''#'', CHR '' ''} = {}" for d
  proof -
    have "byte d div 16 < 16" "byte d mod 16 < 16" using byte_bound [of d] by (simp_all add: less_mult_imp_div_less)
    then show ?thesis using p [of d] hex_char_plain [of "byte d div 16"] hex_char_plain [of "byte d mod 16"]
      by (cases "path_plain d") auto
  qed
  have "set (path_escape ip) =
      (\<Union>d\<in>set ip. set (if path_plain d then [d] else [CHR ''%'', hex_char (byte d div 16), hex_char (byte d mod 16)]))"
    by (simp only: path_escape_def set_concat set_map image_image)
  then show ?thesis using q by (simp only: Int_UN_distrib2 UN_constant) blast
qed

subsection \<open>Properties\<close>

text \<open>
  a domain query asks the endpoints of the bootstrap table in order and reports the first that
  answers with status 200 and a body that decodes; the reported URL is the one that answered, and
  every endpoint before it has failed. In particular endpoints that ask for authentication are
  skipped.
\<close>

theorem query_domain_first_success:
  "query_domain cd net b d = Inr (r, ep) \<longleftrightarrow>
     (\<exists>as u bs. get_domain_endpoints b d = as @ u # bs \<and> query_domain_endpoint cd net u d = (Inr r, ep) \<and>
        (\<forall>a\<in>set as. \<exists>e x. query_domain_endpoint cd net a d = (Inl e, x)))"
  unfolding query_domain_def by (rule query_all_Inr)

definition sample_domain_response :: domain_response where
  "sample_domain_response = \<lparr>dr_objectClass = ''domain'', dr_ldhName = ''x'', dr_unicodeName = [], dr_handle = [],
     dr_status = [], dr_entities = [], dr_events = [], dr_nameservers = [], dr_secureDNS = None, dr_links = [],
     dr_remarks = [], dr_port43 = []\<rparr>"

theorem query_domain_first_success_witness:
  "query_domain \<lparr>dec_domain = (\<lambda>_. Some sample_domain_response), dec_ip = (\<lambda>_. None), dec_asn = (\<lambda>_. None),
       dec_error = (\<lambda>_. None)\<rparr>
     (\<lambda>u. if u = ''b/domain/x.de'' then Answer 200 (Some ''{}'') else Answer 403 None)
     (new_bootstrap\<lparr>dnsServices := [(''de'', [''a'', ''b/''])]\<rparr>) ''x.de'' =
   Inr (sample_domain_response, ''b/domain/x.de'')"
  unfolding query_domain_first_success
  by (rule exI [of _ "[''a'']"], rule exI [of _ "''b/''"], rule exI [of _ "[]"])
    (simp add: get_domain_endpoints_def query_domain_endpoint_def query_endpoint_def do_request_def
      path_escape_def path_plain_def str_evals)

text \<open>
  a successful answer has the status 200 and a body that decodes to the response; the URL is the
  endpoint's with one trailing slash dropped, the kind of object and the escaped query, which holds
  no slash, question mark or blank, so the query cannot leave its path segment.
\<close>

theorem query_ip_request:
  assumes "query_ip cd net b ip v6 = Inr (r, ep)"
  shows "(\<exists>u\<in>set (if v6 then get_ipv6_endpoints b ip else get_ipv4_endpoints b ip). \<exists>body.
      ep = trim_suffix u ''/'' @ ''/ip/'' @ path_escape ip \<and> net ep = Answer 200 (Some body) \<and>
      dec_ip cd body = Some r) \<and>
    set (path_escape ip) \<inter> {CHR ''/'', CHR ''?'', CHR ''#'', CHR '' ''} = {}"
proof
  from assms obtain u where "u \<in> set (if v6 then get_ipv6_endpoints b ip else get_ipv4_endpoints b ip)"
    and q: "query_ip_endpoint cd net u ip = (Inr r, ep)"
    unfolding query_ip_def query_all_Inr by (metis in_set_conv_decomp)
  with query_endpoint_ok [OF q [unfolded query_ip_endpoint_def]]
  show "\<exists>u\<in>set (if v6 then get_ipv6_endpoints b ip else get_ipv4_endpoints b ip). \<exists>body.
      ep = trim_suffix u ''/'' @ ''/ip/'' @ path_escape ip \<and> net ep = Answer 200 (Some body) \<and>
      dec_ip cd body = Some r" by auto
qed (rule path_escape_safe)

definition sample_ip_response :: ip_response where
  "sample_ip_response = \<lparr>ir_objectClass = '''', ir_handle = '''', ir_startAddress = '''', ir_endAddress = '''', ir_version = ''v4'',
     ir_name = ''n'', ir_type = '''', ir_country = '''', ir_parentHandle = '''', ir_status = [], ir_entities = [], ir_events = [],
     ir_links = [], ir_port43 = '''', ir_cidrs = []\<rparr>"

theorem query_ip_request_witness:
  "query_ip \<lparr>dec_domain = (\<lambda>_. None), dec_ip = (\<lambda>_. Some sample_ip_response), dec_asn = (\<lambda>_. None), dec_error = (\<lambda>_. None)\<rparr>
     (\<lambda>u. Answer 200 (Some ''{}'')) (new_bootstrap\<lparr>ipv4Services := cidr_table [([''1.0.0.0/8''], [''a/''])]\<rparr>) ''1.2.3.4'' False =
     Inr (sample_ip_response, ''a/ip/1.2.3.4'') \<and>
   set (path_escape ''1.2.3.4'') \<inter> {CHR ''/'', CHR ''?'', CHR ''#'', CHR '' ''} = {}"
   (is "?q \<and> _")
proof -
  have q: ?q
    by (simp add: query_ip_def get_ipv4_endpoints_def query_all_def query_ip_endpoint_def query_endpoint_def
        do_request_def path_escape_def path_plain_def cidr_table_def map_filter_simps parse_cidr_def is_v4_text_def
        str_evals net_evals cidr_mask_def and_bytes_def upt_rec net_contains_def net_number_mask_def)
  show ?thesis using q query_ip_request [OF q] by simp
qed

end
