(* ===== verification/WhoisParse.thy ===== *)
theory WhoisParse
  imports Regex TimeParse
begin

text \<open>
  The parsers of WHOIS replies, \<open>src/src/whois/parser/\<close>: the patterns (\<open>domain.go\<close>, \<open>ip.go\<close>,
  \<open>asn.go\<close>), the per-line updates of the results and the loops over the lines. The flag
  \<open>(?i)\<close> is that of ASCII. The lemmas give every field of a result as a function of the lines
  that match its pattern.
\<close>

subsection \<open>Results\<close>

record domain_result =
  d_domain :: string
  d_registrar :: string
  d_registrarID :: string
  d_registrant :: string
  d_organization :: string
  d_email :: string
  d_country :: string
  d_nameservers :: "string list"
  d_status :: "string list"
  d_created :: time
  d_updated :: time
  d_expiry :: time
  d_dnssec :: string
  d_raw :: string

record ip_result =
  i_ip :: string
  i_network :: string
  i_cidr :: string
  i_organization :: string
  i_asn :: string
  i_country :: string
  i_abuse :: string
  i_allocated :: time
  i_raw :: string

record asn_result =
  a_asn :: string
  a_organization :: string
  a_description :: string
  a_country :: string
  a_prefixes :: "string list"
  a_raw :: string

subsection \<open>Patterns\<close>

text \<open>\<open>^\s*<label>:\s*\<close>, the groups \<open>(.+)\<close>, \<open>(\d+)\<close> and \<open>([a-z]{2})\<close> that end a pattern.\<close>

definition labelled :: "rx \<Rightarrow> rx" where
  "labelled r = cats [sps, r, lit_ci '':'', sps]"

definition any_rest :: "string \<Rightarrow> bool" where
  "any_rest r \<longleftrightarrow> r \<noteq> [] \<and> CHR 0x0A \<notin> set r"

definition digits_rest :: "string \<Rightarrow> bool" where
  "digits_rest r \<longleftrightarrow> r \<noteq> [] \<and> list_all is_digit r"

definition two_letters :: "string \<Rightarrow> bool" where
  "two_letters r \<longleftrightarrow> length r = 2 \<and> list_all (\<lambda>c. is_lower (lower_char c)) r"

definition dp_domain where "dp_domain = labelled (Or (cats [lit_ci ''domain'', sps, lit_ci ''name'']) (lit_ci ''domain''))"
definition dp_registrar where "dp_registrar = labelled (lit_ci ''registrar'')"
definition dp_registrar_iana where
  "dp_registrar_iana = labelled (cats [lit_ci ''registrar'', sps, lit_ci ''iana'', sps, lit_ci ''id''])"
definition dp_registrant_name where
  "dp_registrant_name = labelled (cats [lit_ci ''registrant'', sps, Opt (lit_ci ''name'')])"
definition dp_registrant_org where
  "dp_registrant_org = labelled (cats [lit_ci ''registrant'', sps, lit_ci ''organi'',
     Cls (\<lambda>c. lower_char c = CHR ''s'' \<or> lower_char c = CHR ''z''), lit_ci ''ation''])"
definition dp_registrant_email where
  "dp_registrant_email = labelled (cats [lit_ci ''registrant'', sps, lit_ci ''email''])"
definition dp_registrant_country where
  "dp_registrant_country = labelled (cats [lit_ci ''registrant'', sps, lit_ci ''country''])"
definition dp_nameserver where
  "dp_nameserver = labelled (Or (cats [lit_ci ''name'', sps, lit_ci ''server'']) (lit_ci ''nserver''))"
definition dp_status where "dp_status = labelled (cats [Opt (cats [lit_ci ''domain'', sps]), lit_ci ''status''])"
definition dp_created where
  "dp_created = labelled (ors [cats [lit_ci ''creation'', sps, lit_ci ''date''], lit_ci ''created'',
     cats [lit_ci ''registered'', sps, lit_ci ''on'']])"
definition dp_updated where
  "dp_updated = labelled (ors [cats [lit_ci ''updated'', sps, lit_ci ''date''],
     cats [lit_ci ''last'', sps, lit_ci ''updated''], lit_ci ''modified''])"
definition dp_expires where
  "dp_expires = labelled (ors [cats [lit_ci ''expir'', Or (lit_ci ''y'') (lit_ci ''ation''), sps, lit_ci ''date''],
     lit_ci ''expires'', cats [lit_ci ''registry'', sps, lit_ci ''expiry'', sps, lit_ci ''date'']])"
definition dp_dnssec where "dp_dnssec = labelled (lit_ci ''dnssec'')"

definition ipp_network where "ipp_network = labelled (ors [lit_ci ''inetnum'', lit_ci ''netrange'', lit_ci ''network''])"
definition ipp_cidr where "ipp_cidr = labelled (lit_ci ''cidr'')"
definition ipp_organization where
  "ipp_organization = labelled (ors [cats [lit_ci ''org'', Opt (lit_ci ''anization'')], lit_ci ''orgname'',
     lit_ci ''owner'', lit_ci ''descr''])"
definition ipp_asn where
  "ipp_asn = Cat (labelled (ors [lit_ci ''origin'', lit_ci ''originas'', cats [lit_ci ''origin'', sps, lit_ci ''as'']]))
     (Opt (lit_ci ''as''))"
definition ipp_country where "ipp_country = labelled (lit_ci ''country'')"
definition ipp_abuse_email where
  "ipp_abuse_email = labelled (Or (cats [lit_ci ''abuse-'', Or (lit_ci ''c'') (lit_ci ''mailbox'')]) (lit_ci ''orgabuseemail''))"
definition ipp_abuse_phone where
  "ipp_abuse_phone = labelled (Or (lit_ci ''abuse-phone'') (lit_ci ''orgabusephone''))"
definition ipp_allocated where
  "ipp_allocated = labelled (ors [lit_ci ''allocated'', lit_ci ''created'', lit_ci ''regdate''])"

definition ap_asn where
  "ap_asn = Cat (labelled (ors [lit_ci ''aut-num'', lit_ci ''as-number'', lit_ci ''asn''])) (Opt (lit_ci ''as''))"
definition ap_as_name where "ap_as_name = labelled (lit_ci ''as-name'')"
definition ap_organization where
  "ap_organization = labelled (ors [cats [lit_ci ''org'', Opt (lit_ci ''anization'')], lit_ci ''as-orgname'', lit_ci ''owner''])"
definition ap_description where "ap_description = labelled (Or (lit_ci ''descr'') (lit_ci ''as-descr''))"
definition ap_country where "ap_country = labelled (lit_ci ''country'')"
definition ap_route where "ap_route = labelled (lit_ci ''route'')"
definition ap_route6 where "ap_route6 = labelled (lit_ci ''route6'')"

subsection \<open>Dates\<close>

definition date_layouts :: "chunk list list" where
  "date_layouts =
     [RFC3339,
      date_chunks @ [Lit ''T''] @ clock_chunks @ [Lit ''Z''],
      date_chunks @ [Lit ''T''] @ clock_chunks @ [ZoneNum],
      date_chunks @ [Lit '' ''] @ clock_chunks,
      date_chunks,
      [Day2, Lit ''-'', MonthName, Lit ''-'', Year4],
      [Day2, Lit ''/'', Month2, Lit ''/'', Year4],
      [Month2, Lit ''/'', Day2, Lit ''/'', Year4],
      [Year4, Lit ''.'', Month2, Lit ''.'', Day2]]"

definition parse_date :: "string \<Rightarrow> time" where
  "parse_date s = parse_first date_layouts (trim_space s)"

subsection \<open>The loops over the lines\<close>

definition skipped :: "string \<Rightarrow> bool" where
  "skipped line \<longleftrightarrow> line = [] \<or> has_prefix line ''%'' \<or> has_prefix line ''#''"

definition add_new :: "'a list \<Rightarrow> 'a \<Rightarrow> 'a list" where
  "add_new xs x = (if x \<in> set xs then xs else xs @ [x])"

text \<open>A text field keeps its first non-empty value; a date field its first date.\<close>

definition text_field :: "rx \<Rightarrow> string \<Rightarrow> string \<Rightarrow> string" where
  "text_field e line cur =
     (if cur = [] then (case submatch e any_rest line of Some m \<Rightarrow> trim_space m | None \<Rightarrow> cur) else cur)"

definition date_field :: "rx \<Rightarrow> string \<Rightarrow> time \<Rightarrow> time" where
  "date_field e line cur =
     (if cur = 0 then
        (case submatch e any_rest line of
           Some m \<Rightarrow> (if parse_date m \<noteq> 0 then parse_date m else cur)
         | None \<Rightarrow> cur)
      else cur)"

text \<open>The body of the loop, and its guard.\<close>

definition domain_step :: "domain_result \<Rightarrow> string \<Rightarrow> domain_result" where
  "domain_step r line = r\<lparr>
           d_domain := text_field dp_domain line (d_domain r),
           d_registrar := text_field dp_registrar line (d_registrar r),
           d_registrarID := text_field dp_registrar_iana line (d_registrarID r),
           d_registrant := text_field dp_registrant_name line (d_registrant r),
           d_organization := text_field dp_registrant_org line (d_organization r),
           d_email := text_field dp_registrant_email line (d_email r),
           d_country := (if d_country r = [] then
               (case submatch dp_registrant_country any_rest line of
                  Some m \<Rightarrow> to_upper (trim_space m) | None \<Rightarrow> d_country r)
             else d_country r),
           d_nameservers :=
             (case submatch dp_nameserver any_rest line of
                Some m \<Rightarrow> add_new (d_nameservers r) (to_lower (trim_space m)) | None \<Rightarrow> d_nameservers r),
           d_status :=
             (case submatch dp_status any_rest line of
                Some m \<Rightarrow> add_new (d_status r) (hd (split_on CHR '' '' (trim_space m))) | None \<Rightarrow> d_status r),
           d_created := date_field dp_created line (d_created r),
           d_updated := date_field dp_updated line (d_updated r),
           d_expiry := date_field dp_expires line (d_expiry r),
           d_dnssec := text_field dp_dnssec line (d_dnssec r)\<rparr>"

definition domain_line :: "domain_result \<Rightarrow> string \<Rightarrow> domain_result" where
  "domain_line r raw_line =
     (let line = trim_space raw_line in if skipped line then r else domain_step r line)"

definition empty_domain :: "string \<Rightarrow> domain_result" where
  "empty_domain raw = \<lparr>d_domain = [], d_registrar = [], d_registrarID = [], d_registrant = [],
     d_organization = [], d_email = [], d_country = [], d_nameservers = [], d_status = [],
     d_created = 0, d_updated = 0, d_expiry = 0, d_dnssec = [], d_raw = raw\<rparr>"

definition parse_domain :: "string \<Rightarrow> domain_result" where
  "parse_domain raw = foldl domain_line (empty_domain raw) (split_on CHR 0x0A raw)"

definition is_generic_org :: "string \<Rightarrow> bool" where
  "is_generic_org org \<longleftrightarrow> to_lower (trim_space org) \<in>
     set ['''', ''---'', ''n/a'', ''na'', ''none'', ''reserved'', ''private'', ''network'']"

definition org_field :: "rx \<Rightarrow> string \<Rightarrow> string \<Rightarrow> string" where
  "org_field e line cur =
     (if cur = [] \<or> is_generic_org cur then
        (case submatch e any_rest line of
           Some m \<Rightarrow> (if \<not> is_generic_org (trim_space m) then trim_space m else cur)
         | None \<Rightarrow> cur)
      else cur)"

definition asn_field :: "rx \<Rightarrow> string \<Rightarrow> string \<Rightarrow> string" where
  "asn_field e line cur =
     (if cur = [] then (case submatch e digits_rest line of Some m \<Rightarrow> ''AS'' @ trim_space m | None \<Rightarrow> cur) else cur)"

definition country_field :: "rx \<Rightarrow> string \<Rightarrow> string \<Rightarrow> string" where
  "country_field e line cur =
     (if cur = [] then (case submatch e two_letters line of Some m \<Rightarrow> to_upper (trim_space m) | None \<Rightarrow> cur) else cur)"

text \<open>The state of the loop of \<open>ParseIP\<close>: the result, the abuse e-mail and phone.\<close>

definition ip_step :: "ip_result \<times> string \<times> string \<Rightarrow> string \<Rightarrow> ip_result \<times> string \<times> string" where
  "ip_step = (\<lambda>(r, email, phone) line.
     (r\<lparr>i_network := text_field ipp_network line (i_network r),
         i_cidr := text_field ipp_cidr line (i_cidr r),
         i_organization := org_field ipp_organization line (i_organization r),
         i_asn := asn_field ipp_asn line (i_asn r),
         i_country := country_field ipp_country line (i_country r),
         i_allocated := date_field ipp_allocated line (i_allocated r)\<rparr>,
      text_field ipp_abuse_email line email,
      text_field ipp_abuse_phone line phone))"

definition ip_line :: "ip_result \<times> string \<times> string \<Rightarrow> string \<Rightarrow> ip_result \<times> string \<times> string" where
  "ip_line s raw_line =
     (let line = trim_space raw_line in if skipped line then s else ip_step s line)"

definition abuse_contact :: "string \<Rightarrow> string \<Rightarrow> string" where
  "abuse_contact email phone =
     (if email \<noteq> [] then (if phone \<noteq> [] then email @ '' / '' @ phone else email)
      else if phone \<noteq> [] then phone else [])"

definition empty_ip :: "string \<Rightarrow> ip_result" where
  "empty_ip raw = \<lparr>i_ip = [], i_network = [], i_cidr = [], i_organization = [], i_asn = [],
     i_country = [], i_abuse = [], i_allocated = 0, i_raw = raw\<rparr>"

definition parse_ip_reply :: "string \<Rightarrow> ip_result" where
  "parse_ip_reply raw =
     (let (r, email, phone) = foldl ip_line (empty_ip raw, [], []) (split_on CHR 0x0A raw)
      in r\<lparr>i_abuse := abuse_contact email phone\<rparr>)"

text \<open>The state of the loop of \<open>ParseASN\<close>: the result and the descriptions.\<close>

definition asn_step :: "asn_result \<times> string list \<Rightarrow> string \<Rightarrow> asn_result \<times> string list" where
  "asn_step = (\<lambda>(r, descriptions) line.
     (r\<lparr>a_asn := asn_field ap_asn line (a_asn r),
         a_organization := org_field ap_organization line (text_field ap_as_name line (a_organization r)),
         a_country := country_field ap_country line (a_country r),
         a_prefixes :=
           (let ps = (case submatch ap_route any_rest line of
                        Some m \<Rightarrow> add_new (a_prefixes r) (trim_space m) | None \<Rightarrow> a_prefixes r)
            in case submatch ap_route6 any_rest line of
                 Some m \<Rightarrow> add_new ps (trim_space m) | None \<Rightarrow> ps)\<rparr>,
      (case submatch ap_description any_rest line of
         Some m \<Rightarrow> (if trim_space m \<noteq> [] then add_new descriptions (trim_space m) else descriptions)
       | None \<Rightarrow> descriptions)))"

definition asn_line :: "asn_result \<times> string list \<Rightarrow> string \<Rightarrow> asn_result \<times> string list" where
  "asn_line s raw_line =
     (let line = trim_space raw_line in if skipped line then s else asn_step s line)"

definition empty_asn :: "string \<Rightarrow> asn_result" where
  "empty_asn raw = \<lparr>a_asn = [], a_organization = [], a_description = [], a_country = [],
     a_prefixes = [], a_raw = raw\<rparr>"

definition parse_asn_reply :: "string \<Rightarrow> asn_result" where
  "parse_asn_reply raw =
     (let (r, descriptions) = foldl asn_line (empty_asn raw, []) (split_on CHR 0x0A raw)
      in if descriptions \<noteq> [] then r\<lparr>a_description := join '' / '' descriptions\<rparr> else r)"

subsection \<open>What the loops compute\<close>

definition content_lines :: "string \<Rightarrow> string list" where
  "content_lines raw = filter (\<lambda>l. \<not> skipped l) (map trim_space (split_on CHR 0x0A raw))"

text \<open>The trimmed texts of the lines that match, in order.\<close>

definition texts :: "rx \<Rightarrow> string list \<Rightarrow> string list" where
  "texts e ls = map trim_space (List.map_filter (submatch e any_rest) ls)"

definition dates :: "rx \<Rightarrow> string list \<Rightarrow> time list" where
  "dates e ls = map parse_date (List.map_filter (submatch e any_rest) ls)"

definition first_not :: "('a \<Rightarrow> bool) \<Rightarrow> 'a \<Rightarrow> 'a list \<Rightarrow> 'a" where
  "first_not P d xs = hd (filter (\<lambda>x. \<not> P x) xs @ [d])"

abbreviation first_text :: "rx \<Rightarrow> string list \<Rightarrow> string" where
  "first_text e ls \<equiv> first_not (\<lambda>x. x = []) [] (texts e ls)"

abbreviation first_date :: "rx \<Rightarrow> string list \<Rightarrow> time" where
  "first_date e ls \<equiv> first_not (\<lambda>t. t = 0) 0 (dates e ls)"

text \<open>The list without the repetitions, in the order of the first occurrences.\<close>

definition firsts :: "'a list \<Rightarrow> 'a list" where
  "firsts xs = rev (remdups (rev xs))"

lemma firsts_snoc: "firsts (xs @ [x]) = add_new (firsts xs) x"
  by (simp add: firsts_def add_new_def)

lemma firsts_props [simp]: "distinct (firsts xs)" "set (firsts xs) = set xs"
  by (simp_all add: firsts_def)

lemma foldl_skip:
  "foldl (\<lambda>r raw. if skipped (trim_space raw) then r else f r (trim_space raw)) r ls =
     foldl f r (filter (\<lambda>l. \<not> skipped l) (map trim_space ls))"
  by (induction ls arbitrary: r) auto

lemma foldl_first:
  assumes "\<And>v l. f v l = (if P v then (case g l of Some x \<Rightarrow> if P x then v else x | None \<Rightarrow> v) else v)"
  shows "foldl f v ls = (if P v then first_not P v (List.map_filter g ls) else v)"
proof (induction ls arbitrary: v)
  case (Cons l ls)
  show ?case unfolding foldl_Cons Cons [of "f v l"] unfolding assms [of v l]
    by (simp add: first_not_def map_filter_simps split: option.split)
qed (simp add: first_not_def map_filter_simps)

lemma foldl_firsts: "foldl add_new (firsts xs) ys = firsts (xs @ ys)"
  by (induction ys arbitrary: xs) (simp_all flip: firsts_snoc)

lemma foldl_concat:
  "(\<And>v l. f v l = foldl h v (g l)) \<Longrightarrow> foldl f v ls = foldl h v (concat (map g ls))"
  by (induction ls arbitrary: v) simp_all

lemma map_filter_comp: "map h (List.map_filter g ls) = List.map_filter (\<lambda>l. map_option h (g l)) ls"
  by (induction ls) (simp_all add: map_filter_simps split: option.split)

lemma concat_map_filter: "concat (map (\<lambda>l. case g l of Some x \<Rightarrow> [h x] | None \<Rightarrow> []) ls) = map h (List.map_filter g ls)"
  by (induction ls) (simp_all add: map_filter_simps split: option.split)

lemma foldl_text: "foldl (\<lambda>v l. text_field e l v) [] ls = first_text e ls"
  unfolding texts_def map_filter_comp
  by (subst foldl_first [where P = "\<lambda>x. x = []"]) (auto simp: text_field_def split: option.split)

lemma foldl_date: "foldl (\<lambda>v l. date_field e l v) 0 ls = first_date e ls"
  unfolding dates_def map_filter_comp
  by (subst foldl_first [where P = "\<lambda>t. t = 0"]) (auto simp: date_field_def split: option.split)

lemma foldl_distinct:
  "(\<And>v l. f v l = (case g l of Some m \<Rightarrow> add_new v (h m) | None \<Rightarrow> v)) \<Longrightarrow>
   foldl f [] ls = firsts (map h (List.map_filter g ls))"
proof -
  assume f: "\<And>v l. f v l = (case g l of Some m \<Rightarrow> add_new v (h m) | None \<Rightarrow> v)"
  have "foldl f [] ls = foldl add_new (firsts []) (concat (map (\<lambda>l. case g l of Some x \<Rightarrow> [h x] | None \<Rightarrow> []) ls))"
    by (subst foldl_concat [where h = add_new and g = "\<lambda>l. case g l of Some x \<Rightarrow> [h x] | None \<Rightarrow> []"])
      (simp_all add: f firsts_def split: option.split)
  then show ?thesis unfolding foldl_firsts concat_map_filter by simp
qed

text \<open>The projections of a fold on records.\<close>

lemma foldl_proj: "(\<And>r l. p (f r l) = q (p r) l) \<Longrightarrow> p (foldl f r ls) = foldl q (p r) ls"
  by (induction ls arbitrary: r) simp_all

lemma domain_line_step: "domain_line r l = (if skipped (trim_space l) then r else domain_step r (trim_space l))"
  by (simp add: domain_line_def Let_def)

lemma parse_domain_fold: "parse_domain raw = foldl domain_step (empty_domain raw) (content_lines raw)"
  unfolding parse_domain_def content_lines_def foldl_skip [symmetric] domain_line_step [abs_def] ..

lemma parse_ip_fold:
  "parse_ip_reply raw =
     (let (r, email, phone) = foldl ip_step (empty_ip raw, [], []) (content_lines raw)
      in r\<lparr>i_abuse := abuse_contact email phone\<rparr>)"
  unfolding parse_ip_reply_def content_lines_def foldl_skip [symmetric] ip_line_def [abs_def] Let_def ..

lemma parse_asn_fold:
  "parse_asn_reply raw =
     (let (r, descriptions) = foldl asn_step (empty_asn raw, []) (content_lines raw)
      in if descriptions \<noteq> [] then r\<lparr>a_description := join '' / '' descriptions\<rparr> else r)"
  unfolding parse_asn_reply_def content_lines_def foldl_skip [symmetric] asn_line_def [abs_def] Let_def ..

lemma foldl_country:
  "foldl (\<lambda>v l. if v = [] then (case submatch e p l of Some m \<Rightarrow> h m | None \<Rightarrow> v) else v) [] ls =
     first_not (\<lambda>x. x = []) [] (map h (List.map_filter (submatch e p) ls))"
  unfolding map_filter_comp by (subst foldl_first [where P = "\<lambda>x. x = []"]) (auto split: option.split)

lemma foldl_org:
  "foldl (\<lambda>v l. org_field e l v) [] ls = first_not is_generic_org [] (texts e ls)"
proof -
  have g: "is_generic_org []" by (simp add: is_generic_org_def go_str trim_space_def)
  show ?thesis
    unfolding texts_def map_filter_comp
    by (subst foldl_first [where P = is_generic_org]) (auto simp: org_field_def g split: option.split)
qed

lemma foldl_keep [simp]: "foldl (\<lambda>v l. v) v ls = v"
  by (induction ls) simp_all

text \<open>A field that a step updates by itself ends as its own fold.\<close>

lemma text_proj:
  "(\<And>r l. p (f r l) = text_field e l (p r)) \<Longrightarrow> p r = [] \<Longrightarrow> p (foldl f r ls) = first_text e ls"
  by (subst foldl_proj [where p = p and q = "\<lambda>v l. text_field e l v"]) (simp_all add: foldl_text)

lemma date_proj:
  "(\<And>r l. p (f r l) = date_field e l (p r)) \<Longrightarrow> p r = 0 \<Longrightarrow> p (foldl f r ls) = first_date e ls"
  by (subst foldl_proj [where p = p and q = "\<lambda>v l. date_field e l v"]) (simp_all add: foldl_date)

lemma org_proj:
  "(\<And>r l. p (f r l) = org_field e l (p r)) \<Longrightarrow> p r = [] \<Longrightarrow>
   p (foldl f r ls) = first_not is_generic_org [] (texts e ls)"
  by (subst foldl_proj [where p = p and q = "\<lambda>v l. org_field e l v"]) (simp_all add: foldl_org)

lemma first_proj:
  "(\<And>r l. p (f r l) = (if p r = [] then (case submatch e q l of Some m \<Rightarrow> h m | None \<Rightarrow> p r) else p r)) \<Longrightarrow>
   p r = [] \<Longrightarrow> p (foldl f r ls) = first_not (\<lambda>x. x = []) [] (map h (List.map_filter (submatch e q) ls))"
  by (subst foldl_proj [where p = p and q = "\<lambda>v l. if v = [] then (case submatch e q l of Some m \<Rightarrow> h m | None \<Rightarrow> v) else v"])
    (simp_all add: foldl_country)

lemma distinct_proj:
  "(\<And>r l. p (f r l) = (case submatch e q l of Some m \<Rightarrow> add_new (p r) (h m) | None \<Rightarrow> p r)) \<Longrightarrow>
   p r = [] \<Longrightarrow> p (foldl f r ls) = firsts (map h (List.map_filter (submatch e q) ls))"
  by (subst foldl_proj [where p = p and q = "\<lambda>v l. case submatch e q l of Some m \<Rightarrow> add_new v (h m) | None \<Rightarrow> v"])
    (simp_all add: foldl_distinct [where g = "submatch e q" and h = h])

lemmas field_projs = text_proj date_proj org_proj

lemma texts_Cons: "texts e (l # ls) = texts e [l] @ texts e ls"
  by (simp add: texts_def map_filter_simps split: option.split)

lemma foldl_descriptions:
  "foldl (\<lambda>v l. case submatch e any_rest l of
       Some m \<Rightarrow> (if trim_space m \<noteq> [] then add_new v (trim_space m) else v) | None \<Rightarrow> v) [] ls =
     firsts (filter (\<lambda>x. x \<noteq> []) (texts e ls))" (is "foldl ?f [] ls = _")
proof -
  have "concat (map (\<lambda>l. filter (\<lambda>x. x \<noteq> []) (texts e [l])) ls) = filter (\<lambda>x. x \<noteq> []) (texts e ls)"
    by (induction ls) (simp add: texts_def map_filter_simps, subst texts_Cons, simp)
  moreover have "foldl ?f [] ls = foldl add_new (firsts []) (concat (map (\<lambda>l. filter (\<lambda>x. x \<noteq> []) (texts e [l])) ls))"
    by (subst foldl_concat [where f = ?f and h = add_new and g = "\<lambda>l. filter (\<lambda>x. x \<noteq> []) (texts e [l])"])
      (simp_all add: firsts_def texts_def map_filter_simps split: option.split)
  ultimately show ?thesis by (simp only: foldl_firsts append.simps)
qed

lemma foldl_routes:
  "foldl (\<lambda>v l. let ps = (case submatch e any_rest l of Some m \<Rightarrow> add_new v (trim_space m) | None \<Rightarrow> v)
             in case submatch e' any_rest l of Some m \<Rightarrow> add_new ps (trim_space m) | None \<Rightarrow> ps) [] ls =
     firsts (concat (map (\<lambda>l. texts e [l] @ texts e' [l]) ls))" (is "foldl ?f [] ls = _")
proof -
  have "foldl ?f [] ls = foldl add_new (firsts []) (concat (map (\<lambda>l. texts e [l] @ texts e' [l]) ls))"
    by (subst foldl_concat [where f = ?f and h = add_new and g = "\<lambda>l. texts e [l] @ texts e' [l]"])
      (simp_all add: firsts_def texts_def map_filter_simps Let_def split: option.split)
  then show ?thesis by (simp only: foldl_firsts append.simps)
qed

subsection \<open>Properties\<close>

text \<open>
  C34: the parser of domain replies computes what its fields promise from the lines that are neither
  blank nor comments: every text field is the first non-empty value of its label, every date the first
  that can be read, the name servers and states the values without repetitions in their order, and the
  raw text is kept.
\<close>

theorem parse_domain_fields:
  "(let ls = content_lines raw; r = parse_domain raw in
     d_domain r = first_text dp_domain ls \<and>
     d_registrar r = first_text dp_registrar ls \<and>
     d_registrarID r = first_text dp_registrar_iana ls \<and>
     d_registrant r = first_text dp_registrant_name ls \<and>
     d_organization r = first_text dp_registrant_org ls \<and>
     d_email r = first_text dp_registrant_email ls \<and>
     d_country r = first_not (\<lambda>x. x = []) [] (map to_upper (texts dp_registrant_country ls)) \<and>
     d_nameservers r = firsts (map to_lower (texts dp_nameserver ls)) \<and>
     d_status r = firsts (map (\<lambda>s. hd (split_on CHR '' '' s)) (texts dp_status ls)) \<and>
     d_created r = first_date dp_created ls \<and>
     d_updated r = first_date dp_updated ls \<and>
     d_expiry r = first_date dp_expires ls \<and>
     d_dnssec r = first_text dp_dnssec ls)"
  unfolding parse_domain_fold Let_def
proof (intro conjI)
  let ?ls = "content_lines raw" and ?r = "foldl domain_step (empty_domain raw) (content_lines raw)"
  show "d_country ?r = first_not (\<lambda>x. x = []) [] (map to_upper (texts dp_registrant_country ?ls))"
    unfolding texts_def map_map
    by (rule first_proj) (simp_all add: domain_step_def empty_domain_def split: option.split)
  show "d_nameservers ?r = firsts (map to_lower (texts dp_nameserver ?ls))"
    unfolding texts_def map_map
    by (rule distinct_proj) (simp_all add: domain_step_def empty_domain_def split: option.split)
  show "d_status ?r = firsts (map (\<lambda>s. hd (split_on CHR '' '' s)) (texts dp_status ?ls))"
    unfolding texts_def map_map
    by (rule distinct_proj) (simp_all add: domain_step_def empty_domain_def split: option.split)
qed (rule field_projs; simp add: domain_step_def empty_domain_def)+

text \<open>
  the parser of address replies: the network, the prefix and the date are the first ones, the
  organisation is the first that is not a place-holder, the origin is the string \<open>AS\<close> with the digits
  of the first line that has them, the country two upper-case letters, and the abuse contact joins the
  first e-mail and the first phone.
\<close>

theorem parse_ip_fields:
  "(let ls = content_lines raw; r = parse_ip_reply raw in
     i_network r = first_text ipp_network ls \<and>
     i_cidr r = first_text ipp_cidr ls \<and>
     i_organization r = first_not is_generic_org [] (texts ipp_organization ls) \<and>
     i_asn r = first_not (\<lambda>x. x = []) [] (map (\<lambda>d. ''AS'' @ trim_space d) (List.map_filter (submatch ipp_asn digits_rest) ls)) \<and>
     i_country r = first_not (\<lambda>x. x = []) [] (map (\<lambda>c. to_upper (trim_space c)) (List.map_filter (submatch ipp_country two_letters) ls)) \<and>
     i_allocated r = first_date ipp_allocated ls \<and>
     i_abuse r = abuse_contact (first_text ipp_abuse_email ls) (first_text ipp_abuse_phone ls) \<and>
     i_raw r = raw)"
proof -
  let ?ls = "content_lines raw"
  let ?s = "foldl ip_step (empty_ip raw, [], []) ?ls"
  have fields:
    "i_network (fst ?s) = first_text ipp_network ?ls"
    "i_cidr (fst ?s) = first_text ipp_cidr ?ls"
    "i_organization (fst ?s) = first_not is_generic_org [] (texts ipp_organization ?ls)"
    "i_allocated (fst ?s) = first_date ipp_allocated ?ls"
    "fst (snd ?s) = first_text ipp_abuse_email ?ls"
    "snd (snd ?s) = first_text ipp_abuse_phone ?ls"
    by ((rule text_proj [where p = "\<lambda>s. i_network (fst s)"] text_proj [where p = "\<lambda>s. i_cidr (fst s)"]
        org_proj [where p = "\<lambda>s. i_organization (fst s)"] date_proj [where p = "\<lambda>s. i_allocated (fst s)"]
        text_proj [where p = "\<lambda>s. fst (snd s)"] text_proj [where p = "\<lambda>s. snd (snd s)"];
        simp add: ip_step_def empty_ip_def case_prod_unfold)+)
  have asn: "i_asn (fst ?s) = first_not (\<lambda>x. x = []) [] (map (\<lambda>d. ''AS'' @ trim_space d) (List.map_filter (submatch ipp_asn digits_rest) ?ls))"
    by (rule first_proj [where p = "\<lambda>s. i_asn (fst s)"]) (simp_all add: ip_step_def empty_ip_def asn_field_def case_prod_unfold)
  have country: "i_country (fst ?s) = first_not (\<lambda>x. x = []) [] (map (\<lambda>c. to_upper (trim_space c)) (List.map_filter (submatch ipp_country two_letters) ?ls))"
    by (rule first_proj [where p = "\<lambda>s. i_country (fst s)"]) (simp_all add: ip_step_def empty_ip_def country_field_def case_prod_unfold)
  have raw: "i_raw (fst ?s) = raw"
    by (subst foldl_proj [where p = "\<lambda>s. i_raw (fst s)" and q = "\<lambda>v l. v"]) (simp_all add: ip_step_def empty_ip_def case_prod_unfold)
  show ?thesis
    by (simp add: parse_ip_fold Let_def case_prod_unfold fields asn country raw)
qed

abbreviation asn_names :: "string list \<Rightarrow> string set" where
  "asn_names ls \<equiv> set (texts ap_as_name ls) \<union> {t \<in> set (texts ap_organization ls). \<not> is_generic_org t}"

lemma org_field_cases: "org_field e l v \<in> insert v {t \<in> set (texts e [l]). \<not> is_generic_org t}"
  by (simp add: org_field_def texts_def map_filter_simps split: option.split)

lemma text_field_cases: "text_field e l v \<in> insert v (set (texts e [l]))"
  by (simp add: text_field_def texts_def map_filter_simps split: option.split)

lemma asn_step_org: "a_organization (fst (asn_step s l)) \<in> insert (a_organization (fst s)) (asn_names [l])"
  using org_field_cases [of ap_organization l "text_field ap_as_name l (a_organization (fst s))"]
    text_field_cases [of ap_as_name l "a_organization (fst s)"]
  by (auto simp: asn_step_def case_prod_unfold)

lemma asn_names_Cons: "asn_names (l # ls) = asn_names [l] \<union> asn_names ls"
  by (subst (1 2) texts_Cons) auto

lemma insert_trans: "a \<in> insert b N \<Longrightarrow> b \<in> insert c M \<Longrightarrow> a \<in> insert c (M \<union> N)"
  by blast

lemma asn_organization_source:
  "a_organization (fst (foldl asn_step s ls)) \<in> insert (a_organization (fst s)) (asn_names ls)"
proof (induction ls arbitrary: s)
  case (Cons l ls)
  show ?case
    unfolding asn_names_Cons [of l ls] foldl_Cons by (rule insert_trans [OF Cons asn_step_org])
qed simp

text \<open>
  the parser of AS replies: the number is that of the first line that has one, the organisation is
  an AS name or a name that is no place-holder, the description joins the different descriptions,
  the prefixes are those of the route and route6 lines without repetitions.
\<close>

theorem parse_asn_fields:
  "(let ls = content_lines raw; r = parse_asn_reply raw in
     a_asn r = first_not (\<lambda>x. x = []) [] (map (\<lambda>d. ''AS'' @ trim_space d) (List.map_filter (submatch ap_asn digits_rest) ls)) \<and>
     a_organization r \<in> insert [] (asn_names ls) \<and>
     a_country r = first_not (\<lambda>x. x = []) [] (map (\<lambda>c. to_upper (trim_space c)) (List.map_filter (submatch ap_country two_letters) ls)) \<and>
     a_description r = join '' / '' (firsts (filter (\<lambda>x. x \<noteq> []) (texts ap_description ls))) \<and>
     a_prefixes r = firsts (concat (map (\<lambda>l. texts ap_route [l] @ texts ap_route6 [l]) ls)) \<and>
     a_raw r = raw)"
proof -
  let ?ls = "content_lines raw"
  let ?s = "foldl asn_step (empty_asn raw, []) ?ls"
  have asn: "a_asn (fst ?s) = first_not (\<lambda>x. x = []) [] (map (\<lambda>d. ''AS'' @ trim_space d) (List.map_filter (submatch ap_asn digits_rest) ?ls))"
    by (rule first_proj [where p = "\<lambda>s. a_asn (fst s)"]) (simp_all add: asn_step_def empty_asn_def asn_field_def case_prod_unfold)
  have country: "a_country (fst ?s) = first_not (\<lambda>x. x = []) [] (map (\<lambda>c. to_upper (trim_space c)) (List.map_filter (submatch ap_country two_letters) ?ls))"
    by (rule first_proj [where p = "\<lambda>s. a_country (fst s)"]) (simp_all add: asn_step_def empty_asn_def country_field_def case_prod_unfold)
  have descr: "snd ?s = firsts (filter (\<lambda>x. x \<noteq> []) (texts ap_description ?ls))"
    unfolding foldl_descriptions [symmetric]
    by (subst foldl_proj [where p = snd]) (simp_all add: asn_step_def case_prod_unfold)
  have routes: "a_prefixes (fst ?s) = firsts (concat (map (\<lambda>l. texts ap_route [l] @ texts ap_route6 [l]) ?ls))"
    unfolding foldl_routes [symmetric]
    by (subst foldl_proj [where p = "\<lambda>s. a_prefixes (fst s)"]) (simp_all add: asn_step_def empty_asn_def case_prod_unfold)
  have raw: "a_raw (fst ?s) = raw"
    by (subst foldl_proj [where p = "\<lambda>s. a_raw (fst s)" and q = "\<lambda>v l. v"]) (simp_all add: asn_step_def empty_asn_def case_prod_unfold)
  have none: "a_description (fst ?s) = []"
    by (subst foldl_proj [where p = "\<lambda>s. a_description (fst s)" and q = "\<lambda>v l. v"]) (simp_all add: asn_step_def empty_asn_def case_prod_unfold)
  have org: "a_organization (fst ?s) \<in> insert [] (asn_names ?ls)"
    using asn_organization_source [of "(empty_asn raw, [])" ?ls] by (simp add: empty_asn_def)
  show ?thesis
    unfolding parse_asn_fold Let_def case_prod_unfold
    using asn country descr routes raw none org by (cases "snd ?s = []") simp_all
qed

subsection \<open>Reading a line\<close>

lemma rems_lit_ci: "rems (lit_ci k) (k' @ r) = [r]" if "to_lower k' = k"
  using that
proof (induction k arbitrary: k')
  case (Cons c k)
  then obtain x xs where "k' = x # xs" "lower_char x = c" "to_lower xs = k"
    by (auto simp: to_lower_def)
  with Cons show ?case by (simp add: lit_ci_def cats_def)
qed (simp add: lit_ci_def cats_def to_lower_def)

lemma rems_sps_none: "s = [] \<or> \<not> rx_space (hd s) \<Longrightarrow> rems sps s = [s]"
  by (cases s) (simp_all add: sps_def)

lemma rems_sps_blank:
  assumes "v \<noteq> []" "\<not> rx_space (hd v)" shows "rems sps (CHR '' '' # v) = [v, CHR '' '' # v]"
proof -
  have "rems sps (CHR '' '' # v) = star_iter (length v) (rems (Cls rx_space)) v @ [CHR '' '' # v]"
    by (simp add: sps_def rx_space_def)
  moreover have "star_iter n (rems (Cls rx_space)) v = [v]" for n
    using assms by (cases n; cases v) simp_all
  ultimately show ?thesis by simp
qed

lemma rx_space_is_space: "rx_space c \<Longrightarrow> is_space c"
  by (auto simp: rx_space_def is_space_def)

lemma submatch_labelled:
  assumes "to_lower l = k" "k \<noteq> []" "list_all (\<lambda>c. \<not> is_space c) k"
    and "any_rest v" "\<not> is_space (hd v)"
  shows "submatch (labelled (lit_ci k)) any_rest (l @ '': '' @ v) = Some v"
proof -
  have l: "l \<noteq> []" "\<not> rx_space (hd l)"
    using assms(1-3) rx_space_is_space [of "hd l"] by (auto simp: to_lower_def list_all_iff)
  have v: "v \<noteq> []" "\<not> rx_space (hd v)" using assms(4,5) rx_space_is_space by (auto simp: any_rest_def)
  have c: "rems (lit_ci '':'') (CHR '':'' # r) = [r]" for r
    using rems_lit_ci [of "'':''" "'':''" r] by (simp add: to_lower_def lower_char_other is_upper_def)
  show ?thesis
    using assms(4) rems_lit_ci [OF assms(1), of "'': '' @ v"] rems_sps_none [of "l @ '': '' @ v"] rems_sps_blank [OF v] l
    by (simp add: submatch_def labelled_def cats_def c)
qed

lemma clean_label:
  assumes "to_lower l = k" "list_all (\<lambda>c. \<not> is_space c) k"
  shows "c \<in> set l \<Longrightarrow> \<not> is_space c"
  using assms by (auto simp: to_lower_def list_all_iff)

lemma split_first_line:
  "CHR 0x0A \<notin> set x \<Longrightarrow> content_lines (x @ CHR 0x0A # rest) =
     (if skipped (trim_space x) then [] else [trim_space x]) @ content_lines rest"
  by (simp add: content_lines_def split_on_append)

text \<open>
  a line with the label Registrar, in any mix of capitals, gives the registrar its value, to the
  last character of the line, whatever follows in the reply.
\<close>

theorem registrar_line_read:
  assumes "to_lower l = ''registrar''" "v \<noteq> []" "\<not> is_space (hd v)" "\<not> is_space (last v)" "CHR 0x0A \<notin> set v"
  shows "d_registrar (parse_domain (l @ '': '' @ v @ CHR 0x0A # rest)) = v"
proof -
  let ?line = "l @ '': '' @ v"
  have k: "list_all (\<lambda>c. \<not> is_space c) ''registrar''" by (simp add: is_space_def)
  obtain c l' where l: "l = c # l'" "lower_char c = CHR ''r''" using assms(1) by (cases l) (auto simp: to_lower_def)
  have c: "c \<noteq> CHR ''%''" "c \<noteq> CHR ''#''" using l(2) by (auto simp: lower_char_other is_upper_def)
  have nl: "CHR 0x0A \<notin> set ?line"
    using clean_label [OF assms(1) k, of "CHR 0x0A"] assms(5) by (auto simp: is_space_def)
  have "trim_space ?line = ?line"
    unfolding trim_space_def
    by (rule trim_where_clean) (use assms clean_label [OF assms(1) k, of c] l in auto)
  moreover have "\<not> skipped ?line" using c by (simp add: skipped_def has_prefix_def l)
  ultimately have lines: "content_lines (?line @ CHR 0x0A # rest) = ?line # content_lines rest"
    using split_first_line [OF nl, of rest] by simp
  have v: "any_rest v" using assms(2,5) by (simp add: any_rest_def)
  have "trim_space v = v" unfolding trim_space_def by (rule trim_where_clean) (use assms in auto)
  then have "texts dp_registrar (?line # content_lines rest) = v # texts dp_registrar (content_lines rest)"
    using submatch_labelled [OF assms(1) _ k v assms(3)]
    by (simp add: texts_def map_filter_simps dp_registrar_def)
  then have "first_text dp_registrar (content_lines (?line @ CHR 0x0A # rest)) = v"
    unfolding lines using assms(2) by (simp add: first_not_def)
  moreover have "d_registrar (parse_domain raw) = first_text dp_registrar (content_lines raw)" for raw
    unfolding parse_domain_fold by (rule text_proj) (simp_all add: domain_step_def empty_domain_def)
  ultimately show ?thesis by simp
qed

theorem registrar_line_read_witness:
  "d_registrar (parse_domain (''REGISTRAR: Acme: Ltd.'' @ CHR 0x0A # ''Registrar: Other'')) = ''Acme: Ltd.''"
  using registrar_line_read [of "''REGISTRAR''" "''Acme: Ltd.''" "''Registrar: Other''"]
  by (simp add: to_lower_def lower_char_table is_space_def)

subsection \<open>Dates with slashes\<close>

definition slash_date :: "nat \<Rightarrow> nat \<Rightarrow> nat \<Rightarrow> string" where
  "slash_date a b y = pad 2 a @ ''/'' @ pad 2 b @ ''/'' @ pad 4 y"

lemma parse_slash_early:
  assumes "a < 100"
  shows "time_parse (Year4 # cs) (slash_date a b y) = None"
    "time_parse (Day2 # Lit ''-'' # cs) (slash_date a b y) = None"
proof -
  have "is_digit CHR ''/'' = False" by (simp add: is_digit_def)
  then show "time_parse (Year4 # cs) (slash_date a b y) = None"
    using assms by (simp add: slash_date_def time_parse_def pad2 take_numeral_eval)
  show "time_parse (Day2 # Lit ''-'' # cs) (slash_date a b y) = None"
    using get_num_pad2 [OF assms] by (simp add: slash_date_def time_parse_def)
qed

lemma parse_slash:
  assumes "a < 100" "b < 100" "y < 10000"
  shows "time_parse [Day2, Lit ''/'', Month2, Lit ''/'', Year4] (slash_date a b y) =
      (if 1 \<le> b \<and> b \<le> 12 \<and> 1 \<le> a \<and> int a \<le> month_len (leap (int y)) (int b)
       then Some (days_of (int y) (int b) (int a) * day) else None)"
    and "time_parse [Month2, Lit ''/'', Day2, Lit ''/'', Year4] (slash_date a b y) =
      (if 1 \<le> a \<and> a \<le> 12 \<and> 1 \<le> b \<and> int b \<le> month_len (leap (int y)) (int a)
       then Some (days_of (int y) (int a) (int b) * day) else None)"
  using pad4 [OF assms(3)] get_num_pad2 [OF assms(1)] get_num_pad2 [OF assms(2)]
  by (auto simp: slash_date_def time_parse_def in_range_def no_parts_def)

lemma pad_no_space: "c \<in> set (pad k n) \<Longrightarrow> \<not> is_space c"
proof -
  have "is_digit CHR ''0''" by (simp add: is_digit_def)
  then show "c \<in> set (pad k n) \<Longrightarrow> \<not> is_space c"
    using all_digits_itoa [of n] digit_not_space [of c]
    by (auto simp: pad_def all_digits_def list_all_iff split: if_splits)
qed

text \<open>
  dates with slashes are read day first. A valid date written month first is therefore read with
  day and month exchanged whenever its day could be a month, and correctly otherwise.
\<close>

theorem slash_date_day_first:
  assumes "y < 10000" "valid_date (int y) (int m) (int d)"
  shows "parse_date (slash_date d m y) = days_of (int y) (int m) (int d) * day \<and>
    parse_date (slash_date m d y) =
      (if d \<le> 12 then days_of (int y) (int d) (int m) else days_of (int y) (int m) (int d)) * day"
proof -
  note s = valid_date_small [OF assms(2)]
  have len: "int m \<le> month_len l (int d)" if "d \<le> 12" "1 \<le> d" for l
    using s that twelve [of "int d"] by (auto simp: month_len_def days_before_def)
  have d: "1 \<le> d" "int d \<le> month_len (leap (int y)) (int m)" using assms(2) by (auto simp: valid_date_def)
  have trim: "trim_space (slash_date a b y) = slash_date a b y" for a b
    by (rule trim_space_id) (auto simp: slash_date_def is_space_def dest: pad_no_space)
  have date: "parse_date (slash_date a b y) =
     parse_first [[Day2, Lit ''/'', Month2, Lit ''/'', Year4], [Month2, Lit ''/'', Day2, Lit ''/'', Year4],
       [Year4, Lit ''.'', Month2, Lit ''.'', Day2]] (slash_date a b y)" if "a < 100" for a b
    by (simp add: parse_date_def trim date_layouts_def RFC3339_def date_chunks_def parse_slash_early [OF that])
  show ?thesis
    using s d len date [of d m] date [of m d] by (simp add: parse_slash assms(1))
qed

theorem slash_date_day_first_witness:
  "parse_date (slash_date 3 4 2024) = days_of 2024 4 3 * day \<and> slash_date 3 4 2024 = ''03/04/2024''"
proof -
  have "slash_date 3 4 2024 = ''03/04/2024''" by code_simp
  moreover have "parse_date (slash_date 3 4 2024) = days_of 2024 4 3 * day"
    using slash_date_day_first [of 2024 4 3] by (simp add: valid_date_def month_len_def days_before_def)
  ultimately show ?thesis by simp
qed

end
