(* ===== verification/Lookup.thy ===== *)
theory Lookup
  imports Servers Cache RdapClient WhoisParse
begin

text \<open>
  Lookups: the unified result (\<open>src/src/whois/result.go\<close>), the TCP query and the cached WHOIS query
  (\<open>src/src/whois/whois.go\<close>) and the lookup service (\<open>src/src/whois/lookup.go\<close>). The TCP peer and
  the HTTP server are parameters, the JSON encoder is the record \<open>json_codec\<close> of the functions that
  the code calls it as, and the readings of the clock during one request are the record \<open>clock\<close>.
\<close>

subsection \<open>result.go\<close>

datatype source = SourceRDAP | SourceWHOIS

record unified_result =
  u_query :: string
  u_type :: query_type
  u_source :: source
  u_timestamp :: time
  u_whoisServer :: string
  u_rdapServer :: string
  u_registrantName :: string
  u_registrantOrg :: string
  u_registrantEmail :: string
  u_registrantCountry :: string
  u_registrar :: string
  u_registrarID :: string
  u_created :: time
  u_updated :: time
  u_expiry :: time
  u_nameservers :: "string list"
  u_status :: "string list"
  u_dnssec :: string
  u_networkName :: string
  u_networkRange :: string
  u_networkType :: string
  u_asnNumber :: "32 word"
  u_asnName :: string
  u_rir :: string
  u_rawWHOIS :: string
  u_rawRDAP :: string

text \<open>The zero value of the struct, at a time and of a type and source.\<close>

definition blank_result :: "query_type \<Rightarrow> source \<Rightarrow> time \<Rightarrow> unified_result" where
  "blank_result qt src now = \<lparr>u_query = [], u_type = qt, u_source = src, u_timestamp = now,
     u_whoisServer = [], u_rdapServer = [], u_registrantName = [], u_registrantOrg = [],
     u_registrantEmail = [], u_registrantCountry = [], u_registrar = [], u_registrarID = [],
     u_created = 0, u_updated = 0, u_expiry = 0, u_nameservers = [], u_status = [], u_dnssec = [],
     u_networkName = [], u_networkRange = [], u_networkType = [], u_asnNumber = 0, u_asnName = [],
     u_rir = [], u_rawWHOIS = [], u_rawRDAP = []\<rparr>"

definition from_rdap_domain :: "time \<Rightarrow> parsed_result \<Rightarrow> unified_result" where
  "from_rdap_domain now p = (blank_result QueryTypeDomain SourceRDAP now)\<lparr>
     u_query := pr_query p,
     u_rdapServer := pr_rdapServer p,
     u_registrantName := pr_registrantName p,
     u_registrantOrg := pr_registrantOrg p,
     u_registrantEmail := pr_registrantEmail p,
     u_registrantCountry := pr_registrantCountry p,
     u_registrar := pr_registrar p,
     u_registrarID := pr_registrarID p,
     u_created := pr_created p,
     u_updated := pr_updated p,
     u_expiry := pr_expiry p,
     u_nameservers := pr_nameservers p,
     u_status := pr_status p,
     u_dnssec := (if pr_dnssec p then ''signedDelegation'' else ''unsigned''),
     u_rir := pr_rir p,
     u_rawRDAP := pr_raw p\<rparr>"

definition from_rdap_ip :: "time \<Rightarrow> parsed_result \<Rightarrow> query_type \<Rightarrow> unified_result" where
  "from_rdap_ip now p qt = (blank_result qt SourceRDAP now)\<lparr>
     u_query := pr_query p,
     u_rdapServer := pr_rdapServer p,
     u_registrantName := pr_registrantName p,
     u_registrantOrg := pr_registrantOrg p,
     u_registrantEmail := pr_registrantEmail p,
     u_registrantCountry := pr_registrantCountry p,
     u_created := pr_created p,
     u_updated := pr_updated p,
     u_networkName := pr_networkName p,
     u_networkRange := pr_networkRange p,
     u_networkType := pr_networkType p,
     u_status := pr_status p,
     u_rir := pr_rir p,
     u_rawRDAP := pr_raw p\<rparr>"

definition from_rdap_asn :: "time \<Rightarrow> parsed_result \<Rightarrow> unified_result" where
  "from_rdap_asn now p = (blank_result QueryTypeASN SourceRDAP now)\<lparr>
     u_query := pr_query p,
     u_rdapServer := pr_rdapServer p,
     u_registrantName := pr_registrantName p,
     u_registrantOrg := pr_registrantOrg p,
     u_registrantEmail := pr_registrantEmail p,
     u_registrantCountry := pr_registrantCountry p,
     u_created := pr_created p,
     u_updated := pr_updated p,
     u_asnNumber := of_nat (pr_asnNumber p),
     u_asnName := pr_asnName p,
     u_networkType := pr_networkType p,
     u_status := pr_status p,
     u_rir := pr_rir p,
     u_rawRDAP := pr_raw p\<rparr>"

text \<open>The byte-wise lower casing and the window search of \<open>contains\<close>.\<close>

definition ascii_lower :: "string \<Rightarrow> string" where
  "ascii_lower s = map (\<lambda>c. if 65 \<le> byte c \<and> byte c \<le> 90 then char_of (byte c + 32) else c) s"

definition contains_lower :: "string \<Rightarrow> string \<Rightarrow> bool" where
  "contains_lower s sub =
     (let s' = ascii_lower s; sub' = ascii_lower sub
      in list_ex (\<lambda>i. take (length sub') (drop i s') = sub')
           (if length s' < length sub' then [] else [0..<Suc (length s' - length sub')]))"

definition contains_ci :: "string \<Rightarrow> string \<Rightarrow> bool" where
  "contains_ci s sub \<longleftrightarrow> length sub \<le> length s \<and> (s = sub \<or> 0 < length s \<and> contains_lower s sub)"

definition detect_rir_from_whois_server :: "string \<Rightarrow> string" where
  "detect_rir_from_whois_server server =
     (if contains_ci server ''arin'' then ''ARIN''
      else if contains_ci server ''ripe'' then ''RIPE''
      else if contains_ci server ''apnic'' then ''APNIC''
      else if contains_ci server ''lacnic'' then ''LACNIC''
      else if contains_ci server ''afrinic'' then ''AFRINIC''
      else '''')"

text \<open>The number in the text of an AS: a 64-bit \<open>int\<close> in the loop, cut to \<open>uint32\<close> at the end.\<close>

definition strip_as :: "string \<Rightarrow> string" where
  "strip_as s =
     (if 2 < length s \<and> (s ! 0 = CHR ''A'' \<or> s ! 0 = CHR ''a'') \<and> (s ! 1 = CHR ''S'' \<or> s ! 1 = CHR ''s'')
      then drop 2 s else s)"

definition digits_word :: "string \<Rightarrow> 64 word" where
  "digits_word s = fold (\<lambda>c n. if is_digit c then n * 10 + of_nat (digit_val c) else n) s 0"

definition asn_word :: "string \<Rightarrow> 32 word" where
  "asn_word s = (if s = [] then 0 else ucast (digits_word (strip_as s)))"

definition from_whois_domain :: "time \<Rightarrow> domain_result \<Rightarrow> string \<Rightarrow> string \<Rightarrow> unified_result" where
  "from_whois_domain now p query srv = (blank_result QueryTypeDomain SourceWHOIS now)\<lparr>
     u_query := query,
     u_whoisServer := srv,
     u_registrantName := d_registrant p,
     u_registrantOrg := d_organization p,
     u_registrantEmail := d_email p,
     u_registrantCountry := d_country p,
     u_registrar := d_registrar p,
     u_registrarID := d_registrarID p,
     u_created := d_created p,
     u_updated := d_updated p,
     u_expiry := d_expiry p,
     u_nameservers := d_nameservers p,
     u_status := d_status p,
     u_dnssec := d_dnssec p,
     u_rawWHOIS := d_raw p\<rparr>"

definition from_whois_ip :: "time \<Rightarrow> ip_result \<Rightarrow> string \<Rightarrow> string \<Rightarrow> query_type \<Rightarrow> unified_result" where
  "from_whois_ip now p query srv qt = (blank_result qt SourceWHOIS now)\<lparr>
     u_query := query,
     u_whoisServer := srv,
     u_registrantOrg := i_organization p,
     u_registrantCountry := i_country p,
     u_created := i_allocated p,
     u_networkName := i_network p,
     u_networkRange := i_cidr p,
     u_asnNumber := asn_word (i_asn p),
     u_rir := detect_rir_from_whois_server srv,
     u_rawWHOIS := i_raw p\<rparr>"

definition from_whois_asn :: "time \<Rightarrow> asn_result \<Rightarrow> string \<Rightarrow> string \<Rightarrow> unified_result" where
  "from_whois_asn now p query srv = (blank_result QueryTypeASN SourceWHOIS now)\<lparr>
     u_query := query,
     u_whoisServer := srv,
     u_registrantOrg := a_organization p,
     u_registrantCountry := a_country p,
     u_asnNumber := asn_word (a_asn p),
     u_asnName := a_description p,
     u_rir := detect_rir_from_whois_server srv,
     u_rawWHOIS := a_raw p\<rparr>"

subsection \<open>The TCP query\<close>

text \<open>
  A peer, from the address dialled and the bytes written: the dial or the write fails, or the
  successive reads return bytes and possibly an error (\<open>io.EOF\<close> has the text \<open>EOF\<close>). No read at
  all is the expired deadline.
\<close>

datatype tcp_peer =
    DialFailed string
  | WriteFailed string
  | Replies "(string \<times> string option) list"

datatype tcp_error = ConnectionFailed string | TcpWriteFailed string | TcpReadFailed string

definition crlf :: string where
  "crlf = [CHR 0x0D, CHR 0x0A]"

definition tcp_query :: "(string \<Rightarrow> string \<Rightarrow> tcp_peer) \<Rightarrow> string \<Rightarrow> string \<Rightarrow> tcp_error + string" where
  "tcp_query tcp server query =
     (case tcp server (query @ crlf) of
        DialFailed e \<Rightarrow> Inl (ConnectionFailed e)
      | WriteFailed e \<Rightarrow> Inl (TcpWriteFailed e)
      | Replies [] \<Rightarrow> Inl (TcpReadFailed ''i/o timeout'')
      | Replies ((bytes, err) # _) \<Rightarrow>
          (case err of
             Some e \<Rightarrow> if e \<noteq> ''EOF'' then Inl (TcpReadFailed e) else Inr (take 65536 bytes)
           | None \<Rightarrow> Inr (take 65536 bytes)))"

subsection \<open>Outcomes\<close>

datatype lookup_error =
    InvalidQuery
  | FailedRecently
  | NoServer
  | UnsupportedQuery
  | WhoisFailed tcp_error
  | RdapFailed rdap_error

text \<open>The last case is the death of the process in an endless recursion of \<open>itoa\<close>.\<close>

datatype 'a outcome = Ok 'a | Err lookup_error | Crash

record clock =
  at_get :: time
  at_exists :: time
  at_result :: time   \<comment> \<open>the time stamp of the result\<close>
  at_set :: time

record whois_result =
  w_query :: string
  w_type :: query_type
  w_server :: string
  w_raw :: string
  w_timestamp :: time
  w_domain :: "domain_result option"
  w_ip :: "ip_result option"
  w_asn :: "asn_result option"

record json_codec =
  marshal_domain :: "domain_response \<Rightarrow> string"
  marshal_ip :: "ip_response \<Rightarrow> string"
  marshal_asn :: "asn_response \<Rightarrow> string"
  marshal_unified :: "unified_result \<Rightarrow> string option"
  unmarshal_unified :: "string \<Rightarrow> unified_result option"
  marshal_whois :: "whois_result \<Rightarrow> string option"
  unmarshal_whois :: "string \<Rightarrow> whois_result option"

text \<open>The time to live of a result.\<close>

definition result_ttl :: "query_type \<Rightarrow> duration" where
  "result_ttl qt =
     (case qt of
        QueryTypeDomain \<Rightarrow> DomainTTL DefaultTTLs
      | QueryTypeIPv4 \<Rightarrow> IPTTL DefaultTTLs
      | QueryTypeIPv6 \<Rightarrow> IPTTL DefaultTTLs
      | QueryTypeASN \<Rightarrow> ASNTTL DefaultTTLs
      | QueryTypeUnknown \<Rightarrow> hour)"

text \<open>\<open>cache.Set\<close> on an optional cache: nothing when the cache or the encoding is missing.\<close>

definition store :: "time \<Rightarrow> string \<Rightarrow> string option \<Rightarrow> duration \<Rightarrow> any_cache option \<Rightarrow> any_cache option" where
  "store now k v ttl c =
     (case v of None \<Rightarrow> c | Some bytes \<Rightarrow> map_option (cache_set now k bytes ttl) c)"

text \<open>
  The look into the cache that both queries begin with: a result, the news of a recent failure, or
  nothing; with the cache afterwards.
\<close>

datatype 'a cached = Hit 'a | RecentFailure | Unknown

definition check_cache ::
  "(string \<Rightarrow> 'a option) \<Rightarrow> clock \<Rightarrow> string \<Rightarrow> any_cache option \<Rightarrow> 'a cached \<times> any_cache option" where
  "check_cache decode clk query c =
     (case c of
        None \<Rightarrow> (Unknown, None)
      | Some c0 \<Rightarrow>
          let (got, c1) = cache_get (at_get clk) (whois_key query) c0
          in case (case got of Inl _ \<Rightarrow> None | Inr bytes \<Rightarrow> decode bytes) of
               Some r \<Rightarrow> (Hit r, Some c1)
             | None \<Rightarrow>
                 if cache_exists (at_exists clk) (whois_failure_key query) c1
                 then (RecentFailure, Some c1) else (Unknown, Some c1))"

subsection \<open>QueryWHOISWithCache\<close>

definition build_whois_result :: "time \<Rightarrow> query_type \<Rightarrow> string \<Rightarrow> string \<Rightarrow> string \<Rightarrow> whois_result" where
  "build_whois_result now qt query srv raw =
     \<lparr>w_query = query, w_type = qt, w_server = srv, w_raw = raw, w_timestamp = now,
      w_domain = (if qt = QueryTypeDomain then Some (parse_domain raw) else None),
      w_ip = (if qt = QueryTypeIPv4 \<or> qt = QueryTypeIPv6
              then Some ((parse_ip_reply raw)\<lparr>i_ip := query\<rparr>) else None),
      w_asn = (if qt = QueryTypeASN then Some (parse_asn_reply raw) else None)\<rparr>"

definition query_whois_with_cache ::
  "json_codec \<Rightarrow> (string \<Rightarrow> string \<Rightarrow> tcp_peer) \<Rightarrow> clock \<Rightarrow> string \<Rightarrow> any_cache option \<Rightarrow>
   whois_result outcome \<times> any_cache option" where
  "query_whois_with_cache js tcp clk query c =
     (let qt = detect_query_type query
      in if qt = QueryTypeUnknown then (Err InvalidQuery, c)
         else case check_cache (unmarshal_whois js) clk query c of
           (Hit r, c1) \<Rightarrow> (Ok (r\<lparr>w_timestamp := at_result clk\<rparr>), c1)
         | (RecentFailure, c1) \<Rightarrow> (Err FailedRecently, c1)
         | (Unknown, c1) \<Rightarrow>
             let srv = select_server qt query
             in if srv = '''' then (Err NoServer, c1)
                else case tcp_query tcp srv query of
                  Inl e \<Rightarrow> (Err (WhoisFailed e),
                     store (at_set clk) (whois_failure_key query) (Some ''1'') (FailureTTL DefaultTTLs) c1)
                | Inr raw \<Rightarrow>
                    let r = build_whois_result (at_result clk) qt query srv raw
                    in (Ok r, store (at_set clk) (whois_key query) (marshal_whois js r) (result_ttl qt) c1))"

definition query_whois ::
  "json_codec \<Rightarrow> (string \<Rightarrow> string \<Rightarrow> tcp_peer) \<Rightarrow> clock \<Rightarrow> string \<Rightarrow> whois_result outcome" where
  "query_whois js tcp clk query = fst (query_whois_with_cache js tcp clk query None)"

subsection \<open>The lookup service\<close>

record lookup_service =
  ls_bootstrap :: bootstrap
  ls_cache :: "any_cache option"

definition parse_asn_number :: "string \<Rightarrow> nat" where
  "parse_asn_number query = opt_or (parse_uint 32 (trim_prefix (to_upper (trim_space query)) ''AS'')) 0"

definition crash_or :: "('a \<Rightarrow> 'b) \<Rightarrow> 'a option \<Rightarrow> 'b outcome" where
  "crash_or f p = (case p of None \<Rightarrow> Crash | Some r \<Rightarrow> Ok (f r))"

definition lookup_rdap ::
  "json_codec \<Rightarrow> codec \<Rightarrow> (string \<Rightarrow> http_answer) \<Rightarrow> time \<Rightarrow> bootstrap \<Rightarrow> string \<Rightarrow> query_type \<Rightarrow>
   unified_result outcome" where
  "lookup_rdap js cd net now b query qt =
     (case qt of
        QueryTypeDomain \<Rightarrow>
          (case query_domain cd net b query of
             Inl e \<Rightarrow> Err (RdapFailed e)
           | Inr (resp, ep) \<Rightarrow> Ok (from_rdap_domain now (parse_domain_response resp query ep (marshal_domain js resp))))
      | QueryTypeIPv4 \<Rightarrow>
          (case query_ip cd net b query False of
             Inl e \<Rightarrow> Err (RdapFailed e)
           | Inr (resp, ep) \<Rightarrow> crash_or (\<lambda>p. from_rdap_ip now p QueryTypeIPv4)
               (parse_ip_response resp query ep (marshal_ip js resp) False))
      | QueryTypeIPv6 \<Rightarrow>
          (case query_ip cd net b query True of
             Inl e \<Rightarrow> Err (RdapFailed e)
           | Inr (resp, ep) \<Rightarrow> crash_or (\<lambda>p. from_rdap_ip now p QueryTypeIPv6)
               (parse_ip_response resp query ep (marshal_ip js resp) True))
      | QueryTypeASN \<Rightarrow>
          (let asn = parse_asn_number query
           in if asn = 0 then Err (RdapFailed (InvalidASN query))
              else case query_asn cd net b asn of
                Inl e \<Rightarrow> Err (RdapFailed e)
              | Inr (resp, ep) \<Rightarrow> crash_or (from_rdap_asn now) (parse_asn_response resp asn ep (marshal_asn js resp)))
      | QueryTypeUnknown \<Rightarrow> Err (RdapFailed UnsupportedType))"

definition lookup_whois ::
  "(string \<Rightarrow> string \<Rightarrow> tcp_peer) \<Rightarrow> time \<Rightarrow> string \<Rightarrow> query_type \<Rightarrow> lookup_error + unified_result" where
  "lookup_whois tcp now query qt =
     (let srv = select_server qt query
      in if srv = '''' then Inl NoServer
         else case tcp_query tcp srv query of
           Inl e \<Rightarrow> Inl (WhoisFailed e)
         | Inr raw \<Rightarrow>
             (case qt of
                QueryTypeDomain \<Rightarrow> Inr (from_whois_domain now (parse_domain raw) query srv)
              | QueryTypeIPv4 \<Rightarrow> Inr (from_whois_ip now ((parse_ip_reply raw)\<lparr>i_ip := query\<rparr>) query srv qt)
              | QueryTypeIPv6 \<Rightarrow> Inr (from_whois_ip now ((parse_ip_reply raw)\<lparr>i_ip := query\<rparr>) query srv qt)
              | QueryTypeASN \<Rightarrow> Inr (from_whois_asn now (parse_asn_reply raw) query srv)
              | QueryTypeUnknown \<Rightarrow> Inl UnsupportedQuery))"

definition cache_result ::
  "json_codec \<Rightarrow> time \<Rightarrow> string \<Rightarrow> query_type \<Rightarrow> unified_result \<Rightarrow> any_cache option \<Rightarrow> any_cache option" where
  "cache_result js now query qt r c = store now (whois_key query) (marshal_unified js r) (result_ttl qt) c"

text \<open>The part of \<open>Lookup\<close> after the cache.\<close>

definition lookup_fresh ::
  "json_codec \<Rightarrow> codec \<Rightarrow> (string \<Rightarrow> http_answer) \<Rightarrow> (string \<Rightarrow> string \<Rightarrow> tcp_peer) \<Rightarrow> clock \<Rightarrow>
   bootstrap \<Rightarrow> string \<Rightarrow> query_type \<Rightarrow> any_cache option \<Rightarrow> unified_result outcome \<times> any_cache option" where
  "lookup_fresh js cd net tcp clk b query qt c =
     (let via_whois =
        (case lookup_whois tcp (at_result clk) query qt of
           Inl e \<Rightarrow> (Err e, store (at_set clk) (whois_failure_key query) (Some ''1'') (FailureTTL DefaultTTLs) c)
         | Inr r \<Rightarrow> (Ok r, cache_result js (at_set clk) query qt r c))
      in if has_data b then
           (case lookup_rdap js cd net (at_result clk) b query qt of
              Ok r \<Rightarrow> (Ok r, cache_result js (at_set clk) query qt r c)
            | Err _ \<Rightarrow> via_whois
            | Crash \<Rightarrow> (Crash, c))
         else via_whois)"

definition lookup ::
  "json_codec \<Rightarrow> codec \<Rightarrow> (string \<Rightarrow> http_answer) \<Rightarrow> (string \<Rightarrow> string \<Rightarrow> tcp_peer) \<Rightarrow> clock \<Rightarrow> string \<Rightarrow>
   lookup_service \<Rightarrow> unified_result outcome \<times> lookup_service" where
  "lookup js cd net tcp clk query s =
     (let qt = detect_query_type query
      in if qt = QueryTypeUnknown then (Err InvalidQuery, s)
         else case check_cache (unmarshal_unified js) clk query (ls_cache s) of
           (Hit r, c1) \<Rightarrow> (Ok (r\<lparr>u_timestamp := at_result clk\<rparr>), s\<lparr>ls_cache := c1\<rparr>)
         | (RecentFailure, c1) \<Rightarrow> (Err FailedRecently, s\<lparr>ls_cache := c1\<rparr>)
         | (Unknown, c1) \<Rightarrow>
             apsnd (\<lambda>c. s\<lparr>ls_cache := c\<rparr>) (lookup_fresh js cd net tcp clk (ls_bootstrap s) query qt c1))"

definition new_lookup_service :: "any_cache option \<Rightarrow> lookup_service" where
  "new_lookup_service c = \<lparr>ls_bootstrap = new_bootstrap, ls_cache = c\<rparr>"

definition load_bootstrap ::
  "(string \<Rightarrow> services option) \<Rightarrow> (string \<Rightarrow> file_read) \<Rightarrow> lookup_service \<Rightarrow> load_error option \<times> lookup_service" where
  "load_bootstrap decode fs s =
     apsnd (\<lambda>b. s\<lparr>ls_bootstrap := b\<rparr>) (boot_load decode fs (ls_bootstrap s))"

definition update_bootstrap ::
  "(string \<Rightarrow> services option) \<Rightarrow> bool \<Rightarrow> (string \<Rightarrow> download) \<Rightarrow> string list \<Rightarrow> disk \<Rightarrow> lookup_service \<Rightarrow>
   update_error option \<times> disk \<times> lookup_service" where
  "update_bootstrap decode mkdir_ok net names fs s =
     (case boot_update decode mkdir_ok net names fs (ls_bootstrap s) of
        (e, fs', b) \<Rightarrow> (e, fs', s\<lparr>ls_bootstrap := b\<rparr>))"

definition lookup_domain where "lookup_domain js cd net tcp clk domain s = lookup js cd net tcp clk domain s"
definition lookup_ip where "lookup_ip js cd net tcp clk ip s = lookup js cd net tcp clk ip s"
definition lookup_asn where "lookup_asn js cd net tcp clk asn s = lookup js cd net tcp clk asn s"

definition has_rdap_data :: "lookup_service \<Rightarrow> bool" where
  "has_rdap_data s = has_data (ls_bootstrap s)"

subsection \<open>The cache around a query\<close>

lemma keys_differ: "whois_key q \<noteq> whois_failure_key q"
proof
  assume "whois_key q = whois_failure_key q"
  then have "length (whois_key q) = length (whois_failure_key q)" by simp
  then show False by (simp add: whois_key_def whois_failure_key_def)
qed

lemma cache_get_memory:
  "fst (cache_get t k (MemoryBackend mc)) = fst (mc_get t k mc)"
  "snd (cache_get t k (MemoryBackend mc)) = MemoryBackend (snd (mc_get t k mc))"
  by simp_all

text \<open>\<open>check_cache\<close> on a memory cache in terms of what it shows.\<close>

lemma check_cache_memory:
  assumes "mc_inv mc"
  shows "check_cache decode clk q (Some (MemoryBackend mc)) =
    (case Option.bind (mc_view (at_get clk) mc (whois_key q)) decode of
       Some r \<Rightarrow> Hit r
     | None \<Rightarrow> if mc_view (at_exists clk) mc (whois_failure_key q) \<noteq> None then RecentFailure else Unknown,
     Some (MemoryBackend (snd (mc_get (at_get clk) (whois_key q) mc))))"
proof -
  have "mc_view (at_exists clk) (snd (mc_get (at_get clk) (whois_key q) mc)) = mc_view (at_exists clk) mc"
    using mem.view_get [OF assms, of "at_exists clk" "at_get clk" "whois_key q"] by simp
  then show ?thesis
    by (simp add: check_cache_def case_prod_unfold cache_get_memory mc_get_eq mc_exists_eq split: option.split)
qed

text \<open>What a stored failure and a stored result lead to.\<close>

lemma failure_remembered:
  assumes inv: "mc_inv mc" and miss: "Option.bind (mc_view (at_get clk) mc (whois_key q)) decode = None"
    and later: "at_get clk \<le> at_get clk'" "at_exists clk' \<le> at_set clk + FailureTTL DefaultTTLs"
  shows "fst (check_cache decode clk' q
     (store (at_set clk) (whois_failure_key q) (Some ''1'') (FailureTTL DefaultTTLs)
        (Some (MemoryBackend (snd (mc_get (at_get clk) (whois_key q) mc)))))) = RecentFailure"
proof -
  let ?m1 = "snd (mc_get (at_get clk) (whois_key q) mc)"
  let ?m2 = "mc_set (at_set clk) (whois_failure_key q) ''1'' (FailureTTL DefaultTTLs) ?m1"
  have ttl: "0 < FailureTTL DefaultTTLs" by (simp add: DefaultTTLs_def)
  have inv2: "mc_inv ?m2" using inv by (intro wf_intros)
  have stay: "mc_exists (at_exists clk') (whois_failure_key q) (snd (mc_get (at_get clk') (whois_key q) ?m2)) \<and>
      ok_of (fst (mc_get (at_get clk') (whois_key q) ?m2)) \<in> {None, ok_of (fst (mc_get (at_get clk) (whois_key q) mc))}"
    using mem.mark_stays [OF inv ttl later(2) keys_differ later(1), of q "''1''"] by simp
  then have "mc_view (at_exists clk') ?m2 (whois_failure_key q) \<noteq> None"
    using mem.view_get [OF inv2, of "at_exists clk'" "at_get clk'" "whois_key q"] by (simp add: mc_exists_eq)
  moreover have "Option.bind (mc_view (at_get clk') ?m2 (whois_key q)) decode = None"
    using stay miss inv2 inv by (auto simp: mc_get_eq ok_of_def split: option.splits)
  ultimately show ?thesis by (simp add: store_def check_cache_memory [OF inv2])
qed

lemma result_remembered:
  assumes inv: "mc_inv mc" and ttl: "0 < ttl" "at_get clk' \<le> t + ttl"
  shows "fst (check_cache decode clk' q (store t (whois_key q) (Some bytes) ttl (Some (MemoryBackend mc)))) =
    (case decode bytes of Some r \<Rightarrow> Hit r
     | None \<Rightarrow> if mc_view (at_exists clk') (mc_set t (whois_key q) bytes ttl mc) (whois_failure_key q) \<noteq> None
               then RecentFailure else Unknown)"
proof -
  have inv2: "mc_inv (mc_set t (whois_key q) bytes ttl mc)" using inv by (intro wf_intros)
  have "mc_view (at_get clk') (mc_set t (whois_key q) bytes ttl mc) (whois_key q) = Some bytes"
    by (rule mem.view_set_fresh [OF inv ttl])
  then show ?thesis by (simp add: store_def check_cache_memory [OF inv2])
qed

lemma cidr_texts_None:
  assumes "\<And>c. c \<in> set cs \<Longrightarrow> - (2 ^ 63) \<le> cidr_length c \<and> cidr_length c < 2 ^ 63" "cidr_texts cs = None"
  shows "\<exists>c\<in>set cs. cidr_length c = - (2 ^ 63)"
  using assms
proof (induction cs)
  case (Cons c cs)
  show ?case
  proof (cases "cidr_length c = - (2 ^ 63)")
    case False
    then have "rdap_itoa (cidr_length c) = Some (itoa_int (cidr_length c))"
      using Cons.prems(1) [of c] rdap_itoa_cases [of "cidr_length c"] by simp
    then have "cidr_texts cs = None"
      using Cons.prems(2) by (auto simp: Let_def split: option.splits if_splits)
    then show ?thesis using Cons.IH Cons.prems(1) by auto
  qed simp
qed simp

lemma crash_or_eq [simp]: "crash_or f p = Crash \<longleftrightarrow> p = None"
  by (simp add: crash_or_def split: option.split)

lemma parse_asn_response_total: "(parse_asn_response resp n ep raw = None) = False"
  using rdap_itoa_nonneg [of "int n"] by (simp add: parse_asn_response_def)

lemma query_ip_decoded: "query_ip cd net b q v6 = Inr (resp, ep) \<Longrightarrow> \<exists>body. dec_ip cd body = Some resp"
  unfolding query_ip_def query_all_Inr query_ip_endpoint_def by (blast dest: query_endpoint_ok)

lemma lookup_rdap_crash:
  assumes "lookup_rdap js cd net now b q qt = Crash"
  shows "\<exists>resp ep v6. query_ip cd net b q v6 = Inr (resp, ep) \<and> cidr_texts (ir_cidrs resp) = None"
proof (cases qt)
  case QueryTypeIPv4
  then obtain resp ep where "query_ip cd net b q False = Inr (resp, ep)" "cidr_texts (ir_cidrs resp) = None"
    using assms by (auto simp: lookup_rdap_def parse_ip_response_def split: sum.splits)
  then show ?thesis by blast
next
  case QueryTypeIPv6
  then obtain resp ep where "query_ip cd net b q True = Inr (resp, ep)" "cidr_texts (ir_cidrs resp) = None"
    using assms by (auto simp: lookup_rdap_def parse_ip_response_def split: sum.splits)
  then show ?thesis by blast
next
  case QueryTypeASN
  then show ?thesis
    using assms by (auto simp: lookup_rdap_def Let_def parse_asn_response_total split: sum.splits if_splits)
qed (use assms in \<open>auto simp: lookup_rdap_def split: sum.splits\<close>)

subsection \<open>What a fresh lookup reports\<close>

lemma lookup_rdap_source:
  "lookup_rdap js cd net now b q qt = Ok r \<Longrightarrow> u_source r = SourceRDAP"
  by (auto simp: lookup_rdap_def crash_or_def from_rdap_domain_def from_rdap_ip_def from_rdap_asn_def blank_result_def
      Let_def split: query_type.splits sum.splits option.splits if_splits)

lemma tcp_query_reply:
  "tcp_query tcp srv q = Inr raw \<Longrightarrow>
     \<exists>bytes err rest. tcp srv (q @ crlf) = Replies ((bytes, err) # rest) \<and> raw = take 65536 bytes"
  by (auto simp: tcp_query_def split: tcp_peer.splits list.splits option.splits if_splits)

lemma reply_raw [simp]: "d_raw (parse_domain raw) = raw" "i_raw (parse_ip_reply raw) = raw" "a_raw (parse_asn_reply raw) = raw"
proof -
  show "d_raw (parse_domain raw) = raw"
    unfolding parse_domain_fold
    by (subst foldl_proj [where p = d_raw and q = "\<lambda>v l. v"]) (simp_all add: domain_step_def empty_domain_def)
  have i: "i_raw (fst (foldl ip_step (empty_ip raw, [], []) ls)) = raw" for ls
    by (subst foldl_proj [where p = "\<lambda>s. i_raw (fst s)" and q = "\<lambda>v l. v"])
      (simp_all add: ip_step_def empty_ip_def case_prod_unfold)
  then show "i_raw (parse_ip_reply raw) = raw"
    by (simp add: parse_ip_fold Let_def case_prod_unfold)
  have a: "a_raw (fst (foldl asn_step (empty_asn raw, []) ls)) = raw" for ls
    by (subst foldl_proj [where p = "\<lambda>s. a_raw (fst s)" and q = "\<lambda>v l. v"])
      (simp_all add: asn_step_def empty_asn_def case_prod_unfold)
  then show "a_raw (parse_asn_reply raw) = raw"
    by (simp add: parse_asn_fold Let_def case_prod_unfold)
qed

lemma lookup_whois_reply:
  "lookup_whois tcp now q qt = Inr r \<Longrightarrow>
     u_source r = SourceWHOIS \<and> u_whoisServer r = select_server qt q \<and>
     (\<exists>bytes err rest. tcp (select_server qt q) (q @ crlf) = Replies ((bytes, err) # rest) \<and>
        u_rawWHOIS r = take 65536 bytes)"
  by (auto simp: lookup_whois_def Let_def from_whois_domain_def from_whois_ip_def from_whois_asn_def blank_result_def
      split: query_type.splits sum.splits if_splits dest!: tcp_query_reply)

lemma lookup_fresh_Ok:
  assumes "lookup_fresh js cd net tcp clk b q qt c = (Ok r, c')"
  shows "(has_data b \<and> lookup_rdap js cd net (at_result clk) b q qt = Ok r \<or>
          lookup_whois tcp (at_result clk) q qt = Inr r) \<and>
    c' = store (at_set clk) (whois_key q) (marshal_unified js r) (result_ttl qt) c"
  using assms by (auto simp: lookup_fresh_def cache_result_def Let_def split: if_splits outcome.splits sum.splits)

lemma lookup_fresh_Err:
  assumes "lookup_fresh js cd net tcp clk b q qt c = (Err e, c')"
  shows "lookup_whois tcp (at_result clk) q qt = Inl e \<and>
    c' = store (at_set clk) (whois_failure_key q) (Some ''1'') (FailureTTL DefaultTTLs) c"
  using assms by (auto simp: lookup_fresh_def cache_result_def Let_def split: if_splits outcome.splits sum.splits)

lemma lookup_whois_error: "lookup_whois tcp now q qt = Inl e \<Longrightarrow> e \<notin> {InvalidQuery, FailedRecently}"
  by (auto simp: lookup_whois_def Let_def split: query_type.splits sum.splits if_splits)

lemma lookup_hit:
  "detect_query_type q \<noteq> QueryTypeUnknown \<Longrightarrow>
   fst (check_cache (unmarshal_unified js) clk q (ls_cache s)) = Hit r \<Longrightarrow>
   fst (lookup js cd net tcp clk q s) = Ok (r\<lparr>u_timestamp := at_result clk\<rparr>)"
  by (auto simp: lookup_def Let_def split: prod.splits)

lemma lookup_recent_failure:
  "detect_query_type q \<noteq> QueryTypeUnknown \<Longrightarrow>
   fst (check_cache (unmarshal_unified js) clk q (ls_cache s)) = RecentFailure \<Longrightarrow>
   fst (lookup js cd net tcp clk q s) = Err FailedRecently"
  by (auto simp: lookup_def Let_def split: prod.splits)

lemma apsnd_eq: "apsnd f p = (a, b) \<longleftrightarrow> (\<exists>c. p = (a, c) \<and> b = f c)"
  by (cases p) auto

lemma lookup_miss:
  assumes "detect_query_type q \<noteq> QueryTypeUnknown" "ls_cache s = Some (MemoryBackend mc)" "mc_inv mc"
    and "lookup js cd net tcp clk q s = (out, s')" "out \<noteq> Err FailedRecently"
    and "Option.bind (mc_view (at_get clk) mc (whois_key q)) (unmarshal_unified js) = None"
  shows "\<exists>c'. lookup_fresh js cd net tcp clk (ls_bootstrap s) q (detect_query_type q)
       (Some (MemoryBackend (snd (mc_get (at_get clk) (whois_key q) mc)))) = (out, c') \<and> s' = s\<lparr>ls_cache := c'\<rparr>"
  using assms
  by (auto simp: lookup_def check_cache_memory apsnd_eq split: option.splits if_splits)

subsection \<open>Properties\<close>

text \<open>
  C5: a lookup that fails is remembered: for five minutes the same query is refused at once, whatever
  the servers would answer, and nothing is contacted.
\<close>

theorem lookup_failure_remembered:
  assumes "ls_cache s = Some (MemoryBackend mc)" "mc_inv mc"
    and "lookup js cd net tcp clk q s = (Err e, s')" "e \<notin> {InvalidQuery, FailedRecently}"
    and "at_get clk \<le> at_get clk'" "at_exists clk' \<le> at_set clk + 5 * minute"
  shows "fst (lookup js cd net' tcp' clk' q s') = Err FailedRecently"
proof -
  have qt: "detect_query_type q \<noteq> QueryTypeUnknown"
    using assms(3,4) by (auto simp: lookup_def)
  have miss: "Option.bind (mc_view (at_get clk) mc (whois_key q)) (unmarshal_unified js) = None"
    using assms(3) qt by (auto simp: lookup_def assms(1) check_cache_memory [OF assms(2)] split: option.splits)
  have "Err e \<noteq> Err FailedRecently" using assms(4) by simp
  from lookup_miss [OF qt assms(1-3) this miss]
  have s': "ls_cache s' = store (at_set clk) (whois_failure_key q) (Some ''1'') (FailureTTL DefaultTTLs)
      (Some (MemoryBackend (snd (mc_get (at_get clk) (whois_key q) mc))))"
    by (auto dest: lookup_fresh_Err)
  have "at_exists clk' \<le> at_set clk + FailureTTL DefaultTTLs" using assms(6) by (simp add: DefaultTTLs_def)
  from failure_remembered [OF assms(2) miss assms(5) this]
  show ?thesis by (intro lookup_recent_failure qt) (simp add: s')
qed

text \<open>
  A concrete service for the witnesses: an empty memory cache, no bootstrap data, a WHOIS server
  that sends one line or refuses the connection, and an encoder with one text for everything.
\<close>

definition sample_cache :: memory_cache where
  "sample_cache = new_memory_cache (\<lambda>_ m. m) 0 1000000 minute"

definition sample_service :: lookup_service where
  "sample_service = new_lookup_service (Some (MemoryBackend sample_cache))"

definition sample_clock :: "time \<Rightarrow> clock" where
  "sample_clock t = \<lparr>at_get = t, at_exists = t, at_result = t, at_set = t\<rparr>"

definition sample_unified :: unified_result where
  "sample_unified = (blank_result QueryTypeDomain SourceWHOIS 7)\<lparr>u_query := ''x.de''\<rparr>"

definition sample_json :: json_codec where
  "sample_json = \<lparr>marshal_domain = (\<lambda>_. []), marshal_ip = (\<lambda>_. []), marshal_asn = (\<lambda>_. []),
     marshal_unified = (\<lambda>_. Some ''u''), unmarshal_unified = (\<lambda>_. Some sample_unified),
     marshal_whois = (\<lambda>_. Some ''w''), unmarshal_whois = (\<lambda>_. None)\<rparr>"

definition no_codec :: codec where
  "no_codec = \<lparr>dec_domain = (\<lambda>_. None), dec_ip = (\<lambda>_. None), dec_asn = (\<lambda>_. None), dec_error = (\<lambda>_. None)\<rparr>"

abbreviation silent_net :: "string \<Rightarrow> http_answer" where "silent_net \<equiv> \<lambda>_. NoAnswer []"
abbreviation silent_peer :: "string \<Rightarrow> string \<Rightarrow> tcp_peer" where "silent_peer \<equiv> \<lambda>_ _. DialFailed []"

lemma sample_inv: "mc_inv sample_cache"
  unfolding sample_cache_def by (rule mc_inv_new) simp

lemma sample_view: "mc_view t sample_cache k = None"
  by (simp add: sample_cache_def new_memory_cache_def mc_view_def)

lemma sample_domain: "detect_query_type ''x.de'' = QueryTypeDomain"
  by (simp add: validate_evals)

lemma sample_asn: "detect_query_type ''AS7'' = QueryTypeASN"
  by (simp add: validate_evals)

lemma sample_lookup:
  "lookup sample_json no_codec net tcp clk ''AS7'' sample_service =
     apsnd (\<lambda>c. sample_service\<lparr>ls_cache := c\<rparr>) (lookup_fresh sample_json no_codec net tcp clk new_bootstrap ''AS7'' QueryTypeASN
       (Some (MemoryBackend (snd (mc_get (at_get clk) (whois_key ''AS7'') sample_cache)))))"
  by (simp add: lookup_def sample_asn sample_service_def new_lookup_service_def check_cache_memory [OF sample_inv] sample_view)

lemma iana_address: "select_server QueryTypeASN q = ''whois.iana.org:43''"
  by (simp add: select_server_def get_server_for_asn_def address_def join_host_port_def IANAServer_def mk_server_def DefaultPort_def)

lemma no_data: "\<not> has_data new_bootstrap"
  by (simp add: has_data_def new_bootstrap_def)

theorem lookup_failure_remembered_witness:
  "fst (lookup sample_json no_codec silent_net silent_peer (sample_clock (5 * minute)) ''AS7''
     (snd (lookup sample_json no_codec silent_net (\<lambda>_ _. DialFailed ''refused'') (sample_clock 0) ''AS7'' sample_service))) =
   Err FailedRecently"
proof -
  have "fst (lookup sample_json no_codec silent_net (\<lambda>_ _. DialFailed ''refused'') (sample_clock 0) ''AS7'' sample_service) =
      Err (WhoisFailed (ConnectionFailed ''refused''))"
    by (simp add: sample_lookup lookup_fresh_def no_data lookup_whois_def iana_address tcp_query_def)
  then have l: "lookup sample_json no_codec silent_net (\<lambda>_ _. DialFailed ''refused'') (sample_clock 0) ''AS7'' sample_service =
      (Err (WhoisFailed (ConnectionFailed ''refused'')),
       snd (lookup sample_json no_codec silent_net (\<lambda>_ _. DialFailed ''refused'') (sample_clock 0) ''AS7'' sample_service))"
    by (metis prod.collapse)
  show ?thesis
    by (rule lookup_failure_remembered [OF _ sample_inv l])
      (simp_all add: sample_service_def new_lookup_service_def sample_clock_def)
qed

text \<open>
  C15: a result that a lookup has obtained is served again from the cache, with a new time stamp and
  without contacting anyone, until the time to live of its type has passed.
\<close>

theorem lookup_result_remembered:
  assumes "ls_cache s = Some (MemoryBackend mc)" "mc_inv mc"
    and "Option.bind (mc_view (at_get clk) mc (whois_key q)) (unmarshal_unified js) = None"
    and "lookup js cd net tcp clk q s = (Ok r, s')"
    and codec: "marshal_unified js r = Some bytes" "unmarshal_unified js bytes = Some r"
    and "at_get clk' \<le> at_set clk + result_ttl (detect_query_type q)"
  shows "fst (lookup js cd net' tcp' clk' q s') = Ok (r\<lparr>u_timestamp := at_result clk'\<rparr>)"
proof -
  have qt: "detect_query_type q \<noteq> QueryTypeUnknown" using assms(4) by (auto simp: lookup_def)
  from lookup_miss [OF qt assms(1,2,4) _ assms(3)]
  have s': "ls_cache s' = store (at_set clk) (whois_key q) (Some bytes) (result_ttl (detect_query_type q))
      (Some (MemoryBackend (snd (mc_get (at_get clk) (whois_key q) mc))))"
    by (auto dest!: lookup_fresh_Ok simp: codec(1))
  have ttl: "0 < result_ttl (detect_query_type q)" by (simp add: result_ttl_def DefaultTTLs_def split: query_type.split)
  have "mc_inv (snd (mc_get (at_get clk) (whois_key q) mc))" by (intro wf_intros assms(2))
  from result_remembered [OF this ttl assms(7), of "unmarshal_unified js" q bytes]
  show ?thesis by (intro lookup_hit qt) (simp add: s' codec(2))
qed

definition sample_reply :: unified_result where
  "sample_reply = from_whois_asn 0 (parse_asn_reply ''as-name: X'') ''AS7'' ''whois.iana.org:43''"

abbreviation sample_peer :: "string \<Rightarrow> string \<Rightarrow> tcp_peer" where
  "sample_peer \<equiv> \<lambda>_ _. Replies [(''as-name: X'', None), (''more'', None)]"

lemma sample_answer:
  "fst (lookup_fresh js cd net sample_peer (sample_clock 0) new_bootstrap ''AS7'' QueryTypeASN c) = Ok sample_reply"
  by (simp add: lookup_fresh_def no_data lookup_whois_def iana_address tcp_query_def sample_reply_def sample_clock_def)

theorem lookup_result_remembered_witness:
  "fst (lookup (sample_json\<lparr>unmarshal_unified := (\<lambda>b. Some sample_reply)\<rparr>) no_codec silent_net silent_peer (sample_clock (7 * 24 * hour)) ''AS7''
     (snd (lookup (sample_json\<lparr>unmarshal_unified := (\<lambda>b. Some sample_reply)\<rparr>) no_codec silent_net sample_peer (sample_clock 0) ''AS7''
        sample_service))) = Ok (sample_reply\<lparr>u_timestamp := 7 * 24 * hour\<rparr>)"
proof -
  let ?js = "sample_json\<lparr>unmarshal_unified := (\<lambda>b. Some sample_reply)\<rparr>"
  let ?l = "lookup ?js no_codec silent_net sample_peer (sample_clock 0) ''AS7'' sample_service"
  have "fst ?l = Ok sample_reply"
    using sample_answer [of ?js no_codec silent_net]
    by (simp add: lookup_def sample_asn sample_service_def new_lookup_service_def check_cache_memory [OF sample_inv] sample_view)
  then have l: "?l = (Ok sample_reply, snd ?l)" by (metis prod.collapse)
  have "fst (lookup ?js no_codec silent_net silent_peer (sample_clock (7 * 24 * hour)) ''AS7'' (snd ?l)) =
      Ok (sample_reply\<lparr>u_timestamp := at_result (sample_clock (7 * 24 * hour))\<rparr>)"
    by (rule lookup_result_remembered [OF _ sample_inv _ l, where bytes = "''u''"])
      (simp_all add: sample_service_def new_lookup_service_def sample_view sample_json_def sample_asn result_ttl_def
        DefaultTTLs_def, simp_all add: sample_clock_def)
  then show ?thesis by (simp add: sample_clock_def)
qed



text \<open>
  the two entry points share the keys of the cache but not the format: after a WHOIS query whose
  encoded result also decodes as a unified result, as JSON with other field names does, the lookup
  service serves that decoding, which need not hold anything of the reply, for as long as the entry
  lives, and asks no server.
\<close>

theorem shared_key_formats:
  assumes "mc_inv mc" "mc_view (at_get clk) mc (whois_key q) = None"
    and "query_whois_with_cache js tcp clk q (Some (MemoryBackend mc)) = (Ok w, c')"
    and codec: "marshal_whois js w = Some bytes" "unmarshal_unified js bytes = Some r"
    and "ls_cache s = c'" "at_get clk' \<le> at_set clk + result_ttl (detect_query_type q)"
  shows "fst (lookup js cd net tcp' clk' q s) = Ok (r\<lparr>u_timestamp := at_result clk'\<rparr>)"
proof -
  let ?m1 = "snd (mc_get (at_get clk) (whois_key q) mc)"
  have qt: "detect_query_type q \<noteq> QueryTypeUnknown" using assms(3) by (auto simp: query_whois_with_cache_def)
  have c0: "c' = store (at_set clk) (whois_key q) (marshal_whois js w) (result_ttl (detect_query_type q)) (Some (MemoryBackend ?m1))"
    using assms(3) qt
    by (auto simp: query_whois_with_cache_def check_cache_memory [OF assms(1)] assms(2) Let_def
        split: if_splits sum.splits)
  have ttl: "0 < result_ttl (detect_query_type q)" by (simp add: result_ttl_def DefaultTTLs_def split: query_type.split)
  have "mc_inv ?m1" by (intro wf_intros assms(1))
  from result_remembered [OF this ttl assms(7), of "unmarshal_unified js" q bytes]
  show ?thesis by (intro lookup_hit qt) (simp add: assms(6) c0 codec)
qed

theorem shared_key_formats_witness:
  "fst (lookup sample_json no_codec silent_net silent_peer (sample_clock 5) ''AS7''
     (sample_service\<lparr>ls_cache := snd (query_whois_with_cache sample_json sample_peer (sample_clock 0) ''AS7''
        (Some (MemoryBackend sample_cache)))\<rparr>)) = Ok (sample_unified\<lparr>u_timestamp := 5\<rparr>) \<and>
   u_rawWHOIS sample_unified = [] \<and>
   map_option w_raw (case fst (query_whois_with_cache sample_json sample_peer (sample_clock 0) ''AS7''
        (Some (MemoryBackend sample_cache))) of Ok w \<Rightarrow> Some w | _ \<Rightarrow> None) = Some ''as-name: X''"
proof -
  let ?w = "build_whois_result 0 QueryTypeASN ''AS7'' ''whois.iana.org:43'' ''as-name: X''"
  let ?q = "query_whois_with_cache sample_json sample_peer (sample_clock 0) ''AS7'' (Some (MemoryBackend sample_cache))"
  have w: "fst ?q = Ok ?w"
    by (simp add: query_whois_with_cache_def sample_asn check_cache_memory [OF sample_inv] sample_view iana_address
        tcp_query_def sample_clock_def Let_def)
  then have q: "?q = (Ok ?w, snd ?q)" by (metis prod.collapse)
  have "fst (lookup sample_json no_codec silent_net silent_peer (sample_clock 5) ''AS7'' (sample_service\<lparr>ls_cache := snd ?q\<rparr>)) =
      Ok (sample_unified\<lparr>u_timestamp := at_result (sample_clock 5)\<rparr>)"
    by (rule shared_key_formats [OF sample_inv _ q, where bytes = "''w''"])
      (simp_all add: sample_view sample_json_def sample_asn result_ttl_def DefaultTTLs_def sample_clock_def)
  moreover have "w_raw ?w = ''as-name: X''" by (simp add: build_whois_result_def)
  ultimately show ?thesis using w by (simp add: sample_clock_def sample_unified_def blank_result_def)
qed

subsection \<open>Keys and bytes\<close>

lemma known_query_plain: "detect_query_type q \<noteq> QueryTypeUnknown \<Longrightarrow> \<forall>c\<in>set (trim_space q). plain_char c"
  using asn_plain parse_ip_plain plain_domain by (auto simp: detect_Unknown)

lemma prefix_trimmed:
  assumes "\<forall>c\<in>set p. \<not> is_space c" "p \<noteq> []"
  shows "\<exists>r. trim_space (p @ s) = p @ r"
proof -
  have h: "dropWhile is_space (p @ s) = p @ s"
    using assms by (intro dropWhile_hd) (auto simp: hd_append)
  show ?thesis
  proof (cases "\<forall>c\<in>set s. is_space c")
    case True
    then have "dropWhile is_space (rev s @ rev p) = dropWhile is_space (rev p)" by (intro dropWhile_append2) auto
    also have "\<dots> = rev p" using assms by (intro dropWhile_hd) (simp_all add: hd_rev)
    finally show ?thesis by (simp add: trim_space_def go_str h)
  next
    case False
    then obtain x where "x \<in> set (rev s)" "\<not> is_space x" by auto
    then have "dropWhile is_space (rev s @ rev p) = dropWhile is_space (rev s) @ rev p" by (rule dropWhile_append1)
    then show ?thesis by (simp add: trim_space_def go_str h)
  qed
qed

lemma in_split_on: "x \<in> set s \<Longrightarrow> x \<noteq> c \<Longrightarrow> \<exists>p\<in>set (split_on c s). x \<in> set p"
  by (induction s) (auto split: list.split)

lemma no_colon_domain: "CHR '':'' \<in> set s \<Longrightarrow> \<not> rx_full domainRegex (to_lower s)"
proof
  assume c: "CHR '':'' \<in> set s" and d: "rx_full domainRegex (to_lower s)"
  have "lower_char CHR '':'' = CHR '':''" by (simp add: str_evals)
  then have "CHR '':'' \<in> set (to_lower s)" using c by (force simp: to_lower_def)
  then obtain l where "l \<in> set (split_on CHR ''.'' (to_lower s))" "CHR '':'' \<in> set l"
    using in_split_on [of "CHR '':''" "to_lower s" "CHR ''.''"] by auto
  then have "alnum_dash CHR '':''" using d by (auto simp: rx_lang label_ok_def list_all_iff)
  then show False by (simp add: alnum_dash_def alnum_def is_lower_def is_digit_def)
qed

lemma failure_prefix_unknown: "detect_query_type (''failure:'' @ q) = QueryTypeUnknown"
proof -
  have "\<forall>c\<in>set ''failure:''. \<not> is_space c" by (simp add: is_space_def)
  from prefix_trimmed [OF this] obtain r where r: "trim_space (''failure:'' @ q) = ''failure:'' @ r" by blast
  have "\<not> rx_full asnRegex (''failure:'' @ r)"
    by (auto simp: rx_lang all_digits_def is_digit_def Cons_eq_append_conv)
  moreover have "\<not> rx_full domainRegex (to_lower (''failure:'' @ r))" by (rule no_colon_domain) simp
  moreover have "parse_ip (''failure:'' @ r) = None"
  proof -
    have "v6_loop (''failure:'' @ r) None [] = None"
      by (subst v6_loop.simps) (simp add: is_hex_def is_digit_def)
    then show ?thesis by (simp add: parse_ip_def is_addr_mark_def parse_ipv6_def has_prefix_def)
  qed
  ultimately show ?thesis unfolding detect_Unknown r by blast
qed

text \<open>
  the keys of failures and of results never meet: the key of a result of a query that any entry
  point accepts is not the failure key of any query.
\<close>

theorem failure_keys_apart:
  assumes "detect_query_type q \<noteq> QueryTypeUnknown"
  shows "whois_key q \<noteq> whois_failure_key q' \<and> whois_key q \<noteq> whois_failure_key q"
proof
  show "whois_key q \<noteq> whois_failure_key q'"
  proof
    assume "whois_key q = whois_failure_key q'"
    then have "q = ''failure:'' @ q'" by (simp add: whois_key_def whois_failure_key_def)
    then show False using assms failure_prefix_unknown by simp
  qed
qed (rule keys_differ)

theorem failure_keys_apart_witness: "whois_key ''x.de'' \<noteq> whois_failure_key ''''"
  using failure_keys_apart [of "''x.de''" "''''"] by (simp add: sample_domain)

text \<open>
  a WHOIS query for an accepted query depends on one request only, a command line: apart from
  blanks around it the text has neither white space nor control characters, so no second command can
  be smuggled in.
\<close>

theorem whois_request_one_line:
  assumes "detect_query_type q \<noteq> QueryTypeUnknown"
  shows "\<exists>a b. lookup_whois tcp now q qt = lookup_whois (\<lambda>_ _. tcp (select_server qt q) (a @ trim_space q @ b @ crlf)) now q qt \<and>
    set a \<union> set b \<subseteq> {c. is_space c} \<and> set (trim_space q) \<subseteq> {c. plain_char c \<and> \<not> is_space c}"
proof -
  define a where "a = takeWhile is_space q"
  define m where "m = dropWhile is_space q"
  define b where "b = rev (takeWhile is_space (rev m))"
  have t: "trim_space q = rev (dropWhile is_space (rev m))"
    by (simp add: trim_space_def go_str m_def)
  have "m = trim_space q @ b"
    unfolding t b_def by (metis rev_append rev_rev_ident takeWhile_dropWhile_id)
  then have q: "q = a @ trim_space q @ b"
    by (metis a_def m_def takeWhile_dropWhile_id)
  have "set a \<union> set b \<subseteq> {c. is_space c}"
    by (auto simp: a_def b_def dest: set_takeWhileD)
  moreover have "set (trim_space q) \<subseteq> {c. plain_char c \<and> \<not> is_space c}"
    using known_query_plain [OF assms] plain_not_space by auto
  moreover have line: "a @ trim_space q @ b @ crlf = q @ crlf" using q by (metis append.assoc)
  have "lookup_whois tcp now q qt = lookup_whois (\<lambda>_ _. tcp (select_server qt q) (a @ trim_space q @ b @ crlf)) now q qt"
    unfolding line by (simp add: lookup_whois_def tcp_query_def Let_def)
  ultimately show ?thesis by blast
qed

theorem whois_request_one_line_witness: "set (trim_space ''x.de'') \<subseteq> {c. plain_char c \<and> \<not> is_space c}"
proof -
  have "detect_query_type ''x.de'' \<noteq> QueryTypeUnknown" by (simp add: sample_domain)
  from whois_request_one_line [OF this] show ?thesis by blast
qed

subsection \<open>result.go: numbers and registries\<close>

lemma ascii_lower: "ascii_lower s = to_lower s"
  by (auto simp: ascii_lower_def to_lower_def lower_char_def is_upper_def)

lemma windows_contains:
  "list_ex (\<lambda>i. take (length p) (drop i s) = p) (if length s < length p then [] else [0..<Suc (length s - length p)]) \<longleftrightarrow>
   contains_sub s p"
proof
  assume "list_ex (\<lambda>i. take (length p) (drop i s) = p) (if length s < length p then [] else [0..<Suc (length s - length p)])"
  then have "\<exists>i. take (length p) (drop i s) = p" by (auto simp: list_ex_iff simp del: upt_Suc split: if_splits)
  then obtain i where "take (length p) (drop i s) = p" ..
  then have "s = take i s @ p @ drop (length p) (drop i s)" by (metis append_take_drop_id)
  then show "contains_sub s p" unfolding contains_sub_iff by blast
next
  assume "contains_sub s p"
  then obtain a b where "s = a @ p @ b" by (auto simp: contains_sub_iff)
  then have "take (length p) (drop (length a) s) = p" "length p \<le> length s" "length a < Suc (length s - length p)" by auto
  then show "list_ex (\<lambda>i. take (length p) (drop i s) = p) (if length s < length p then [] else [0..<Suc (length s - length p)])"
    unfolding list_ex_iff by (auto simp del: upt_Suc intro!: bexI [of _ "length a"])
qed

lemma contains_ci_iff: "p \<noteq> [] \<Longrightarrow> contains_ci s p \<longleftrightarrow> contains_sub (to_lower s) (to_lower p)"
proof -
  assume p: "p \<noteq> []"
  have "contains_sub (to_lower s) (to_lower p) \<Longrightarrow> length p \<le> length s"
    by (auto simp: contains_sub_iff dest: arg_cong [where f = length])
  moreover have "s = p \<Longrightarrow> contains_sub (to_lower s) (to_lower p)"
    unfolding contains_sub_iff by (metis append.right_neutral append_Nil)
  moreover have "contains_lower s p \<longleftrightarrow> contains_sub (to_lower s) (to_lower p)"
    unfolding contains_lower_def ascii_lower Let_def by (rule windows_contains)
  ultimately show ?thesis using p by (auto simp: contains_ci_def)
qed

text \<open>
  the registry of a WHOIS server, found by the hand-written search of \<open>result.go\<close>, is the one
  that the RDAP parser finds with the library's functions.
\<close>

theorem rir_detection_agrees: "detect_rir_from_whois_server srv = detect_rir_from_server srv"
  by (simp add: detect_rir_from_whois_server_def detect_rir_from_server_def detect_rir_def contains_ci_iff
      to_lower_def [of "''arin''"] to_lower_def [of "''ripe''"] to_lower_def [of "''apnic''"]
      to_lower_def [of "''lacnic''"] to_lower_def [of "''afrinic''"] lower_char_other is_upper_def)

lemma digits_word_fold:
  "fold (\<lambda>c n. if is_digit c then n * 10 + of_nat (digit_val c) else n) s (of_nat k) =
     (of_nat (foldl (\<lambda>n c. n * 10 + digit_val c) k (filter is_digit s)) :: 'a::len word)"
proof (induction s arbitrary: k)
  case (Cons c s)
  show ?case using Cons [of "k * 10 + digit_val c"] Cons [of k] by simp
qed simp

lemma dec_val_foldl: "dec_val s = foldl (\<lambda>n c. n * 10 + digit_val c) 0 s"
  by (induction s rule: rev_induct) (simp_all add: dec_val_snoc, simp add: dec_val_def)

lemma digits_word_val: "digits_word s = of_nat (dec_val (filter is_digit s))"
  using digits_word_fold [of s 0] by (simp add: digits_word_def dec_val_foldl)

lemma ucast_of_nat_64: "(ucast (of_nat n :: 64 word) :: 32 word) = of_nat n"
  by (simp add: unsigned_of_nat word_of_nat_eq_iff take_bit_take_bit)

text \<open>
  the number of a WHOIS reply is that of its digits modulo \<open>2 ^ 32\<close>, whatever their number: the
  64-bit loop may overflow too without changing that.
\<close>

theorem asn_word_mod:
  "asn_word (''AS'' @ d) = of_nat (dec_val (filter is_digit d)) \<and>
   unat (asn_word (''AS'' @ itoa_nat n)) = n mod 2 ^ 32"
proof -
  have a: "asn_word (''AS'' @ d) = of_nat (dec_val (filter is_digit d))" for d
  proof (cases "d = []")
    case True
    have "filter is_digit ''AS'' = []" by (simp add: is_digit_def)
    then have "digits_word ''AS'' = 0" by (simp add: digits_word_val dec_val_foldl)
    then show ?thesis using True by (simp add: asn_word_def strip_as_def dec_val_foldl)
  next
    case False
    then have "strip_as (''AS'' @ d) = d" by (cases d) (simp_all add: strip_as_def)
    then show ?thesis by (simp add: asn_word_def digits_word_val ucast_of_nat_64)
  qed
  have "filter is_digit (itoa_nat n) = itoa_nat n"
    using itoa_digits by (simp add: filter_id_conv)
  then show ?thesis using a by (simp add: unat_of_nat)
qed

text \<open>
  a lookup can kill the process only through an RDAP answer for an address with a prefix length of
  \<open>- (2 ^ 63)\<close>.
\<close>

theorem lookup_crash_cause:
  assumes "fst (lookup js cd net tcp clk q s) = Crash"
    and "\<And>body resp c. dec_ip cd body = Some resp \<Longrightarrow> c \<in> set (ir_cidrs resp) \<Longrightarrow>
      - (2 ^ 63) \<le> cidr_length c \<and> cidr_length c < 2 ^ 63"
  shows "\<exists>body resp c. dec_ip cd body = Some resp \<and> c \<in> set (ir_cidrs resp) \<and> cidr_length c = - (2 ^ 63)"
proof -
  from assms(1) obtain c where "fst (lookup_fresh js cd net tcp clk (ls_bootstrap s) q (detect_query_type q) c) = Crash"
    by (auto simp: lookup_def Let_def split: if_splits prod.splits cached.splits)
  then have "lookup_rdap js cd net (at_result clk) (ls_bootstrap s) q (detect_query_type q) = Crash"
    by (auto simp: lookup_fresh_def Let_def split: if_splits outcome.splits sum.splits)
  from lookup_rdap_crash [OF this] obtain resp ep v6 where
    q: "query_ip cd net (ls_bootstrap s) q v6 = Inr (resp, ep)" and n: "cidr_texts (ir_cidrs resp) = None" by blast
  from query_ip_decoded [OF q] obtain body where b: "dec_ip cd body = Some resp" by blast
  from cidr_texts_None [OF assms(2) [OF b] n] show ?thesis using b by blast
qed

definition bad_response :: ip_response where
  "bad_response = sample_ip_response\<lparr>ir_cidrs := [\<lparr>v4prefix = ''10.0.0.0'', v6prefix = [], cidr_length = - (2 ^ 63)\<rparr>]\<rparr>"

definition one_network :: bootstrap where
  "one_network = new_bootstrap\<lparr>ipv4Services := cidr_table [([''1.0.0.0/8''], [''a/''])]\<rparr>"

lemma one_network_endpoints: "get_ipv4_endpoints one_network ''1.2.3.4'' = [''a/'']"
  by (simp add: one_network_def get_ipv4_endpoints_def cidr_table_def map_filter_simps parse_cidr_def is_v4_text_def
      str_evals net_evals cidr_mask_def and_bytes_def upt_rec net_contains_def net_number_mask_def)

lemma one_network_data: "has_data one_network"
  by (simp add: one_network_def has_data_def cidr_table_def map_filter_simps parse_cidr_def is_v4_text_def
      str_evals net_evals cidr_mask_def and_bytes_def upt_rec)

theorem lookup_crash_cause_witness:
  "fst (lookup sample_json (no_codec\<lparr>dec_ip := (\<lambda>_. Some bad_response)\<rparr>) (\<lambda>_. Answer 200 (Some ''{}'')) sample_peer (sample_clock 0) ''1.2.3.4''
      \<lparr>ls_bootstrap = one_network, ls_cache = None\<rparr>) = Crash \<and>
   (\<exists>resp c. resp = bad_response \<and> c \<in> set (ir_cidrs resp) \<and> cidr_length c = - (2 ^ 63))"
  (is "?crash \<and> _")
proof -
  have d: "detect_query_type ''1.2.3.4'' = QueryTypeIPv4" by (simp add: validate_evals)
  have q: "query_ip (no_codec\<lparr>dec_ip := (\<lambda>_. Some bad_response)\<rparr>) (\<lambda>_. Answer 200 (Some ''{}'')) one_network ''1.2.3.4'' False =
      Inr (bad_response, trim_suffix ''a/'' ''/'' @ ''/ip/'' @ path_escape ''1.2.3.4'')"
    by (simp add: query_ip_def one_network_endpoints query_all_def query_ip_endpoint_def query_endpoint_def do_request_def)
  have c: "cidr_texts (ir_cidrs bad_response) = None"
    using rdap_itoa_diverges by (simp add: bad_response_def)
  have crash: ?crash
    by (simp add: lookup_def d check_cache_def lookup_fresh_def one_network_data lookup_rdap_def q parse_ip_response_def c crash_or_def)
  from lookup_crash_cause [OF crash] show ?thesis using crash by (auto simp: bad_response_def)
qed

end
