(* ===== verification/TaskStore.thy ===== *)
theory TaskStore
  imports Cron
begin

text \<open>
  Scheduled tasks and their persistent state: the types \<open>Task\<close> and \<open>RetryPolicy\<close>, the statements on
  the tables \<open>scheduler_tasks\<close>, \<open>scheduler_history\<close> and \<open>api_tokens\<close>
  (\<open>src/src/scheduler/scheduler.go\<close>, \<open>tasks.go\<close>) and the retry delays. The tables are lists of rows
  with the meaning that SQL and \<open>database/sql\<close> give to the statements; whether statements succeed,
  whether foreign keys are enforced and whether the driver returns the time columns as times are
  components of the database, because they depend on its connection and its schema.
\<close>

subsection \<open>Tasks\<close>

text \<open>A handler is named; what its calls return is given when a task runs.\<close>

datatype handler =
    TokenCleanup | LogRotation | DailyBackup | HourlyBackup | SSLRenewal | GeoIPUpdate
  | BlocklistUpdate | CVEUpdate | HealthCheck | TorHealth | WhoisRecordsRefresh | UpdateCheck
  | RDAPBootstrapUpdate | OtherHandler string

record retry_policy =
  rp_maxRetries :: int
  rp_retryDelay :: duration
  rp_backoff :: string

record task =
  t_id :: string
  t_name :: string
  t_schedule :: string
  t_handler :: handler
  t_enabled :: bool
  t_lastRun :: time
  t_lastStatus :: string
  t_lastError :: string
  t_nextRun :: time
  t_runCount :: int
  t_failCount :: int
  t_policy :: "retry_policy option"

subsection \<open>The database\<close>

record task_row =
  r_name :: string
  r_schedule :: string
  r_lastRun :: "time option"
  r_lastStatus :: "string option"
  r_lastError :: "string option"
  r_nextRun :: "time option"
  r_runCount :: int
  r_failCount :: int
  r_enabled :: bool

record history_row =
  h_id :: int
  h_task :: string
  h_started :: int              \<comment> \<open>seconds of the Unix epoch\<close>
  h_finished :: "int option"
  h_status :: string
  h_error :: "string option"
  h_duration :: "int option"    \<comment> \<open>milliseconds\<close>

record sched_db =
  db_up :: bool            \<comment> \<open>statements succeed\<close>
  db_foreign_keys :: bool  \<comment> \<open>the pragma \<open>foreign_keys\<close>\<close>
  db_times :: bool         \<comment> \<open>a stored time is scanned as a time\<close>
  db_rows :: "(string \<times> task_row) list"
  db_history :: "history_row list"
  db_nextID :: int

definition new_db :: "bool \<Rightarrow> bool \<Rightarrow> sched_db" where
  "new_db fk tm = \<lparr>db_up = True, db_foreign_keys = fk, db_times = tm, db_rows = [], db_history = [],
     db_nextID = 1\<rparr>"

datatype db_error = DbFailed | ScanFailed

text \<open>
  \<open>INSERT OR REPLACE\<close>: a row with the same key is deleted first, and with enforced foreign keys
  \<open>ON DELETE CASCADE\<close> then deletes the rows of \<open>scheduler_history\<close> that refer to it.
\<close>

definition row_of :: "task \<Rightarrow> task_row" where
  "row_of t = \<lparr>r_name = t_name t, r_schedule = t_schedule t, r_lastRun = Some (t_lastRun t),
     r_lastStatus = Some (t_lastStatus t), r_lastError = Some (t_lastError t), r_nextRun = Some (t_nextRun t),
     r_runCount = t_runCount t, r_failCount = t_failCount t, r_enabled = t_enabled t\<rparr>"

definition save_task_state :: "task \<Rightarrow> sched_db \<Rightarrow> db_error option \<times> sched_db" where
  "save_task_state t db =
     (if \<not> db_up db then (Some DbFailed, db)
      else (None, db\<lparr>db_rows := upd (t_id t) (row_of t) (db_rows db),
                     db_history := (if db_foreign_keys db \<and> t_id t \<in> set (keys (db_rows db))
                                    then filter (\<lambda>h. h_task h \<noteq> t_id t) (db_history db)
                                    else db_history db)\<rparr>))"

text \<open>
  \<open>row.Scan\<close> assigns the columns from left to right and stops at the first that does not convert: a
  time that the driver gives as a text, or \<open>NULL\<close> into a string. The times are assigned after it.
\<close>

definition scan_task :: "bool \<Rightarrow> task_row \<Rightarrow> task \<Rightarrow> db_error option \<times> task" where
  "scan_task tm r t =
     (let t1 = t\<lparr>t_name := r_name r, t_schedule := r_schedule r\<rparr>
      in if r_lastRun r \<noteq> None \<and> \<not> tm then (Some ScanFailed, t1)
         else case r_lastStatus r of
           None \<Rightarrow> (Some ScanFailed, t1)
         | Some st \<Rightarrow>
             (let t2 = t1\<lparr>t_lastStatus := st\<rparr>
              in case r_lastError r of
                None \<Rightarrow> (Some ScanFailed, t2)
              | Some e \<Rightarrow>
                  (let t3 = t2\<lparr>t_lastError := e\<rparr>
                   in if r_nextRun r \<noteq> None \<and> \<not> tm then (Some ScanFailed, t3)
                      else (None, t3\<lparr>t_runCount := r_runCount r, t_failCount := r_failCount r,
                                    t_enabled := r_enabled r,
                                    t_lastRun := opt_or (r_lastRun r) (t_lastRun t),
                                    t_nextRun := opt_or (r_nextRun r) (t_nextRun t)\<rparr>))))"

definition load_task_state :: "task \<Rightarrow> sched_db \<Rightarrow> db_error option \<times> sched_db \<times> task" where
  "load_task_state t db =
     (if \<not> db_up db then (Some DbFailed, db, t)
      else case map_of (db_rows db) (t_id t) of
        None \<Rightarrow> (let (e, db') = save_task_state t db in (e, db', t))
      | Some r \<Rightarrow> (let (e, t') = scan_task (db_times db) r t in (e, db, t')))"

definition set_row_enabled :: "string \<Rightarrow> bool \<Rightarrow> sched_db \<Rightarrow> db_error option \<times> sched_db" where
  "set_row_enabled tid b db =
     (if \<not> db_up db then (Some DbFailed, db)
      else (None, db\<lparr>db_rows := map (\<lambda>(k, r). (k, if k = tid then r\<lparr>r_enabled := b\<rparr> else r)) (db_rows db)\<rparr>))"

subsection \<open>The history\<close>

definition unix_seconds :: "time \<Rightarrow> int" where
  "unix_seconds t = t div second - 62135596800"

definition from_unix :: "int \<Rightarrow> time" where
  "from_unix n = (n + 62135596800) * second"

text \<open>The number of the new row, or 0 when the statement fails, as it does for an unknown task.\<close>

definition record_history_start :: "string \<Rightarrow> time \<Rightarrow> sched_db \<Rightarrow> int \<times> sched_db" where
  "record_history_start tid started db =
     (if \<not> db_up db \<or> db_foreign_keys db \<and> tid \<notin> set (keys (db_rows db)) then (0, db)
      else (db_nextID db,
            db\<lparr>db_history := db_history db @
                 [\<lparr>h_id = db_nextID db, h_task = tid, h_started = unix_seconds started, h_finished = None,
                   h_status = ''running'', h_error = None, h_duration = None\<rparr>],
               db_nextID := db_nextID db + 1\<rparr>))"

definition record_history_finish :: "int \<Rightarrow> string option \<Rightarrow> duration \<Rightarrow> time \<Rightarrow> sched_db \<Rightarrow> sched_db" where
  "record_history_finish hid err dur now db =
     (if hid = 0 \<or> \<not> db_up db then db
      else db\<lparr>db_history := map (\<lambda>h. if h_id h = hid then
                 h\<lparr>h_finished := Some (unix_seconds now),
                   h_status := (case err of None \<Rightarrow> ''success'' | Some _ \<Rightarrow> ''failed''),
                   h_error := err,
                   h_duration := Some (dur div 1000000)\<rparr> else h) (db_history db)\<rparr>)"

record history_entry =
  he_id :: int
  he_task :: string
  he_started :: time
  he_finished :: time
  he_status :: string
  he_error :: string
  he_duration :: int

definition entry_of :: "history_row \<Rightarrow> history_entry" where
  "entry_of h = \<lparr>he_id = h_id h, he_task = h_task h, he_started = from_unix (h_started h),
     he_finished = (case h_finished h of Some f \<Rightarrow> from_unix f | None \<Rightarrow> 0), he_status = h_status h,
     he_error = opt_or (h_error h) [], he_duration = opt_or (h_duration h) 0\<rparr>"

text \<open>Newest first; rows of the same second come in the order of the table.\<close>

definition get_task_history :: "string \<Rightarrow> int \<Rightarrow> sched_db \<Rightarrow> db_error + history_entry list" where
  "get_task_history tid limit db =
     (if \<not> db_up db then Inl DbFailed
      else Inr (map entry_of (take (nat (if limit \<le> 0 then 20 else limit))
             (sort_key (\<lambda>h. - h_started h) (filter (\<lambda>h. h_task h = tid) (db_history db))))))"

subsection \<open>Retries\<close>

text \<open>64-bit durations; the shift of a \<open>uint\<close> by 64 or more is 0, and bit 63 is the sign.\<close>

definition retry_delay_for_attempt :: "retry_policy \<Rightarrow> nat \<Rightarrow> duration" where
  "retry_delay_for_attempt p attempt =
     (let base = (if rp_retryDelay p \<le> 0 then 5 * minute else rp_retryDelay p)
      in if rp_backoff p = ''linear'' then wrap64 (base * wrap64 (int attempt + 1))
         else if rp_backoff p = ''none'' \<or> rp_backoff p = ''constant'' then base
         else wrap64 (base * wrap64 (if attempt < 64 then 2 ^ attempt else 0)))"

datatype call_result = Done | Failed string | Panicked string

fun run_handler_safely :: "call_result \<Rightarrow> string option" where
  "run_handler_safely Done = None"
| "run_handler_safely (Failed e) = Some e"
| "run_handler_safely (Panicked v) = Some (''task panic: '' @ v)"

text \<open>
  What happens around the attempts of one run: the results of the calls, the readings of the clock,
  and whether the context is cancelled during the pause after an attempt.
\<close>

record run_env =
  ev_result :: "nat \<Rightarrow> call_result"
  ev_start :: "nat \<Rightarrow> time"
  ev_duration :: "nat \<Rightarrow> duration"
  ev_finished :: "nat \<Rightarrow> time"
  ev_cancelled :: "nat \<Rightarrow> bool"

text \<open>The loop of \<open>executeTask\<close>: the last error and the number of the last attempt.\<close>

function run_attempts ::
  "retry_policy option \<Rightarrow> run_env \<Rightarrow> string \<Rightarrow> nat \<Rightarrow> sched_db \<Rightarrow> string option \<times> nat \<times> sched_db" where
  "run_attempts policy ev tid k db =
     (let (hid, db1) = record_history_start tid (ev_start ev k) db;
          err = run_handler_safely (ev_result ev k);
          db2 = record_history_finish hid err (ev_duration ev k) (ev_finished ev k) db1
      in if err = None then (err, k, db2)
         else case policy of
           None \<Rightarrow> (err, k, db2)
         | Some p \<Rightarrow>
             if rp_maxRetries p \<le> int k then (err, k, db2)
             else if ev_cancelled ev k then (err, k, db2)
             else run_attempts policy ev tid (Suc k) db2)"
  by pat_completeness auto
termination
  by (relation "measure (\<lambda>(policy, ev, tid, k, db). case policy of None \<Rightarrow> 0 | Some p \<Rightarrow> nat (rp_maxRetries p - int k))") auto

declare run_attempts.simps [simp del]

subsection \<open>Expired tokens\<close>

text \<open>SQLite orders \<open>NULL\<close> (no comparison holds), then numbers, then texts.\<close>

datatype sql_value = SNull | SInt int | SText string

fun text_less :: "string \<Rightarrow> string \<Rightarrow> bool" where
  "text_less s [] \<longleftrightarrow> False"
| "text_less [] (c # s) \<longleftrightarrow> True"
| "text_less (c # s) (d # t) \<longleftrightarrow> byte c < byte d \<or> c = d \<and> text_less s t"

fun sql_less :: "sql_value \<Rightarrow> sql_value \<Rightarrow> bool" where
  "sql_less (SInt a) (SInt b) \<longleftrightarrow> a < b"
| "sql_less (SInt a) (SText b) \<longleftrightarrow> True"
| "sql_less (SText a) (SText b) \<longleftrightarrow> text_less a b"
| "sql_less _ _ \<longleftrightarrow> False"

record token_row =
  tok_prefix :: string
  tok_revokedAt :: sql_value

text \<open>\<open>datetime('now', '-30 days')\<close> is the text \<open>limit\<close>.\<close>

definition task_token_cleanup :: "bool \<Rightarrow> string \<Rightarrow> token_row list \<Rightarrow> string option \<times> token_row list" where
  "task_token_cleanup up limit tokens =
     (if \<not> up then (Some ''failed to delete revoked tokens'', tokens)
      else (None, filter (\<lambda>t. \<not> (tok_revokedAt t \<noteq> SNull \<and> sql_less (tok_revokedAt t) (SText limit))) tokens))"

subsection \<open>Properties of the store\<close>

lemma load_after_save:
  assumes "db_up db" "t_id t0 = t_id t"
  shows "load_task_state t0 (snd (save_task_state t db)) =
    (if db_times db then
       (None, snd (save_task_state t db), t\<lparr>t_handler := t_handler t0, t_policy := t_policy t0\<rparr>)
     else (Some ScanFailed, snd (save_task_state t db), t0\<lparr>t_name := t_name t, t_schedule := t_schedule t\<rparr>))"
  using assms by (cases t; cases t0) (simp add: load_task_state_def save_task_state_def row_of_def scan_task_def)

text \<open>
  C40: saved state comes back after a restart, except for the handler and the retry policy, which the
  code supplies, when the driver scans the time columns as times. When it gives them as texts, as for
  the \<open>INTEGER\<close> columns of the production schema, only the name and the schedule come back: the last
  and next run, the counters and whether the task is enabled are lost.
\<close>

theorem task_state_roundtrip:
  assumes "db_up db" "t_id t0 = t_id t"
  shows "snd (snd (load_task_state t0 (snd (save_task_state t db)))) =
    (if db_times db then t\<lparr>t_handler := t_handler t0, t_policy := t_policy t0\<rparr>
     else t0\<lparr>t_name := t_name t, t_schedule := t_schedule t\<rparr>)"
  by (simp add: load_after_save [OF assms])

definition sample_task :: task where
  "sample_task = \<lparr>t_id = ''backup_daily'', t_name = ''Daily Backup'', t_schedule = ''0 2 * * *'',
     t_handler = DailyBackup, t_enabled = True, t_lastRun = 0, t_lastStatus = [], t_lastError = [], t_nextRun = 0,
     t_runCount = 0, t_failCount = 0,
     t_policy = Some \<lparr>rp_maxRetries = 2, rp_retryDelay = 30 * minute, rp_backoff = ''exponential''\<rparr>\<rparr>"

theorem task_state_roundtrip_witness:
  "t_enabled (snd (snd (load_task_state sample_task (snd (save_task_state (sample_task\<lparr>t_enabled := False\<rparr>) (new_db True False)))))) \<and>
   \<not> t_enabled (snd (snd (load_task_state sample_task (snd (save_task_state (sample_task\<lparr>t_enabled := False\<rparr>) (new_db True True))))))"
  using task_state_roundtrip [of "new_db True False" sample_task "sample_task\<lparr>t_enabled := False\<rparr>"]
    task_state_roundtrip [of "new_db True True" sample_task "sample_task\<lparr>t_enabled := False\<rparr>"]
  by (simp add: new_db_def sample_task_def)

lemma save_erases:
  assumes "db_up db" "t_id t \<in> set (keys (db_rows db))"
  shows "get_task_history tid limit (snd (save_task_state t db)) =
    (if db_foreign_keys db \<and> tid = t_id t then Inr [] else get_task_history tid limit db)"
proof -
  have "filter (\<lambda>h. h_task h = tid) (filter (\<lambda>h. h_task h \<noteq> t_id t) (db_history db)) =
      (if tid = t_id t then [] else filter (\<lambda>h. h_task h = tid) (db_history db))"
    by (auto intro!: filter_cong simp: filter_empty_conv)
  then show ?thesis using assms by (simp add: get_task_history_def save_task_state_def)
qed

text \<open>
  saving the state of a task that is already in the table erases its history when foreign keys are
  enforced, as the connection asks for: the statement replaces the row and the deletion cascades. The
  history of other tasks stays, and without enforcement so does its own.
\<close>

theorem save_erases_history:
  assumes "db_up db" "t_id t \<in> set (keys (db_rows db))"
  shows "get_task_history tid limit (snd (save_task_state t db)) =
    (if db_foreign_keys db \<and> tid = t_id t then Inr [] else get_task_history tid limit db)"
  by (rule save_erases [OF assms])

lemma attempt_history_other [simp]:
  "db_rows (snd (record_history_start tid s db)) = db_rows db"
  "db_up (snd (record_history_start tid s db)) = db_up db"
  "db_foreign_keys (snd (record_history_start tid s db)) = db_foreign_keys db"
  "db_times (snd (record_history_start tid s db)) = db_times db"
  "db_rows (record_history_finish hid err dur now db) = db_rows db"
  "db_up (record_history_finish hid err dur now db) = db_up db"
  "db_foreign_keys (record_history_finish hid err dur now db) = db_foreign_keys db"
  "db_times (record_history_finish hid err dur now db) = db_times db"
  "length (db_history (record_history_finish hid err dur now db)) = length (db_history db)"
  by (simp_all add: record_history_start_def record_history_finish_def)

theorem save_erases_history_witness:
  "get_task_history ''backup_daily'' 20 (snd (save_task_state sample_task
     (snd (record_history_start ''backup_daily'' 0 (snd (save_task_state sample_task (new_db True True))))))) = Inr []"
  using save_erases_history [of "snd (record_history_start ''backup_daily'' 0 (snd (save_task_state sample_task (new_db True True))))"
      sample_task "''backup_daily''" 20]
  by (simp add: save_task_state_def new_db_def sample_task_def)

subsection \<open>Properties of the retries\<close>

text \<open>
  the delays grow as the policy says as long as the product fits 63 bits: linear delays are
  multiples, exponential ones double, constant ones stay. Beyond that exponential delays wrap: with
  the default base the 26th is negative, and from the 65th on they are 0, which retries at once.
\<close>

theorem retry_delays:
  assumes "0 < rp_retryDelay p" "rp_retryDelay p * 2 ^ k < 2 ^ 63"
  shows "retry_delay_for_attempt p k =
      (if rp_backoff p = ''linear'' then rp_retryDelay p * (int k + 1)
       else if rp_backoff p = ''none'' \<or> rp_backoff p = ''constant'' then rp_retryDelay p
       else rp_retryDelay p * 2 ^ k) \<and>
    retry_delay_for_attempt \<lparr>rp_maxRetries = 99, rp_retryDelay = 0, rp_backoff = ''exponential''\<rparr> 25 < 0 \<and>
    retry_delay_for_attempt \<lparr>rp_maxRetries = 99, rp_retryDelay = 0, rp_backoff = ''exponential''\<rparr> (64 + k) = 0"
proof -
  let ?d = "rp_retryDelay p"
  have one: "(2::int) ^ k \<le> ?d * 2 ^ k" using assms(1) by simp
  then have p: "(2::int) ^ k < 2 ^ 63" using assms(2) by linarith
  then have k: "k < 63" by (rule power_less_imp_less_exp [rotated]) simp
  have lin: "int k + 1 \<le> 2 ^ k"
    using of_nat_mono [OF Suc_leI [OF less_exp [of k]], where 'a = int] by simp
  have w: "wrap64 (2 ^ k) = 2 ^ k" "wrap64 (int k + 1) = int k + 1"
    using p lin by (intro wrap64_id; linarith)+
  have "?d * (int k + 1) \<le> ?d * 2 ^ k" using assms(1) lin by (intro mult_left_mono) auto
  moreover have "0 \<le> ?d * (int k + 1)" "0 \<le> ?d * 2 ^ k" using assms(1) by simp_all
  ultimately have m: "wrap64 (?d * 2 ^ k) = ?d * 2 ^ k" "wrap64 (?d * (int k + 1)) = ?d * (int k + 1)"
    using assms(2) by (intro wrap64_id; linarith)+
  have z: "wrap64 0 = 0" by (rule wrap64_id) simp_all
  show ?thesis
  proof (intro conjI)
    show "retry_delay_for_attempt p k =
      (if rp_backoff p = ''linear'' then rp_retryDelay p * (int k + 1)
       else if rp_backoff p = ''none'' \<or> rp_backoff p = ''constant'' then rp_retryDelay p
       else rp_retryDelay p * 2 ^ k)"
      using assms(1) k by (simp add: retry_delay_for_attempt_def w m Let_def)
    show "retry_delay_for_attempt \<lparr>rp_maxRetries = 99, rp_retryDelay = 0, rp_backoff = ''exponential''\<rparr> 25 < 0"
      by (simp add: retry_delay_for_attempt_def wrap64_def)
    show "retry_delay_for_attempt \<lparr>rp_maxRetries = 99, rp_retryDelay = 0, rp_backoff = ''exponential''\<rparr> (64 + k) = 0"
      by (simp add: retry_delay_for_attempt_def z)
  qed
qed

theorem retry_delays_witness:
  "retry_delay_for_attempt \<lparr>rp_maxRetries = 5, rp_retryDelay = 1 * hour, rp_backoff = ''exponential''\<rparr> 4 = 16 * hour"
  using retry_delays [of "\<lparr>rp_maxRetries = 5, rp_retryDelay = 1 * hour, rp_backoff = ''exponential''\<rparr>" 4] by simp

lemma run_attempts_spec:
  assumes "run_attempts policy ev tid k db = (err, n, db')"
  shows "k \<le> n \<and> err = run_handler_safely (ev_result ev n) \<and>
    (\<forall>j. k \<le> j \<and> j < n \<longrightarrow> run_handler_safely (ev_result ev j) \<noteq> None \<and> \<not> ev_cancelled ev j) \<and>
    (case policy of None \<Rightarrow> n = k | Some p \<Rightarrow> int n \<le> max (int k) (rp_maxRetries p)) \<and>
    (err \<noteq> None \<longrightarrow> (case policy of None \<Rightarrow> True | Some p \<Rightarrow> rp_maxRetries p \<le> int n \<or> ev_cancelled ev n))"
  using assms
proof (induction policy ev tid k db arbitrary: err n db' rule: run_attempts.induct)
  case (1 policy ev tid k db)
  obtain hid db1 where s: "record_history_start tid (ev_start ev k) db = (hid, db1)" by fastforce
  let ?db2 = "record_history_finish hid (run_handler_safely (ev_result ev k)) (ev_duration ev k) (ev_finished ev k) db1"
  show ?case
  proof (cases "\<exists>p e. policy = Some p \<and> run_handler_safely (ev_result ev k) = Some e \<and> \<not> rp_maxRetries p \<le> int k \<and> \<not> ev_cancelled ev k")
    case False
    then have "err = run_handler_safely (ev_result ev k) \<and> n = k"
      using 1(2) by (subst (asm) run_attempts.simps) (auto simp: s Let_def split: option.splits if_splits)
    then show ?thesis using False by (auto split: option.splits)
  next
    case True
    then obtain p e where p: "policy = Some p" "run_handler_safely (ev_result ev k) = Some e" "\<not> rp_maxRetries p \<le> int k" "\<not> ev_cancelled ev k"
      by blast
    then have r: "run_attempts policy ev tid (Suc k) ?db2 = (err, n, db')"
      using 1(2) by (subst (asm) run_attempts.simps) (simp add: s Let_def)
    have ih: "Suc k \<le> n \<and> err = run_handler_safely (ev_result ev n) \<and>
      (\<forall>j. Suc k \<le> j \<and> j < n \<longrightarrow> run_handler_safely (ev_result ev j) \<noteq> None \<and> \<not> ev_cancelled ev j) \<and>
      (case policy of None \<Rightarrow> n = Suc k | Some p \<Rightarrow> int n \<le> max (int (Suc k)) (rp_maxRetries p)) \<and>
      (err \<noteq> None \<longrightarrow> (case policy of None \<Rightarrow> True | Some p \<Rightarrow> rp_maxRetries p \<le> int n \<or> ev_cancelled ev n))"
      by (rule 1(1) [OF refl _ refl refl _ p(1) p(3,4) r]) (simp_all add: s p(2))
    then have "j = k \<or> Suc k \<le> j" if "k \<le> j" for j using that by linarith
    then show ?thesis using ih p by (auto simp: Suc_le_eq)
  qed
qed

definition logged :: "string \<Rightarrow> sched_db \<Rightarrow> bool" where
  "logged tid db \<longleftrightarrow> db_up db \<and> (db_foreign_keys db \<longrightarrow> tid \<in> set (keys (db_rows db)))"

lemma start_length:
  "length (db_history (snd (record_history_start tid s db))) = length (db_history db) + (if logged tid db then 1 else 0)"
  by (auto simp: record_history_start_def logged_def)

lemma run_attempts_frame:
  assumes "run_attempts policy ev tid k db = (err, n, db')"
  shows "db_rows db' = db_rows db \<and> db_up db' = db_up db \<and> db_foreign_keys db' = db_foreign_keys db \<and>
    db_times db' = db_times db \<and>
    length (db_history db') = length (db_history db) + (if logged tid db then n - k + 1 else 0)"
  using assms
proof (induction policy ev tid k db arbitrary: err n db' rule: run_attempts.induct)
  case (1 policy ev tid k db)
  let ?s = "record_history_start tid (ev_start ev k) db"
  let ?err = "run_handler_safely (ev_result ev k)"
  let ?db2 = "record_history_finish (fst ?s) ?err (ev_duration ev k) (ev_finished ev k) (snd ?s)"
  have lg: "logged tid ?db2 = logged tid db" by (simp add: logged_def)
  show ?case
  proof (cases "\<exists>p e. policy = Some p \<and> ?err = Some e \<and> \<not> rp_maxRetries p \<le> int k \<and> \<not> ev_cancelled ev k")
    case False
    then have "n = k \<and> db' = ?db2"
      using 1(2) by (subst (asm) run_attempts.simps) (auto simp: case_prod_unfold Let_def split: option.splits if_splits)
    then show ?thesis by (simp add: start_length)
  next
    case True
    then obtain p e where p: "policy = Some p" "?err = Some e" "\<not> rp_maxRetries p \<le> int k" "\<not> ev_cancelled ev k"
      by blast
    then have r: "run_attempts policy ev tid (Suc k) ?db2 = (err, n, db')"
      using 1(2) by (subst (asm) run_attempts.simps) (simp add: case_prod_unfold Let_def)
    have ih: "db_rows db' = db_rows ?db2 \<and> db_up db' = db_up ?db2 \<and> db_foreign_keys db' = db_foreign_keys ?db2 \<and>
      db_times db' = db_times ?db2 \<and>
      length (db_history db') = length (db_history ?db2) + (if logged tid ?db2 then n - Suc k + 1 else 0)"
      by (rule 1(1) [OF refl _ refl refl _ p(1) p(3,4) r]) (simp_all add: p(2))
    have "Suc k \<le> n" using run_attempts_spec [OF r] by simp
    then have "Suc (n - Suc k) = n - k" by simp
    then show ?thesis using ih unfolding lg by (simp add: start_length)
  qed
qed

text \<open>
  a run of a task makes one attempt after another as long as they fail, at most as many retries as
  its policy allows (none without a policy), and stops early only for a success or a shut-down; the
  outcome is that of the last attempt, and each attempt has its row in the history when the task has
  one in the table.
\<close>

theorem run_attempts_bounded:
  assumes "run_attempts policy ev tid 0 db = (err, n, db')"
  shows "err = run_handler_safely (ev_result ev n) \<and>
    (\<forall>j<n. run_handler_safely (ev_result ev j) \<noteq> None \<and> \<not> ev_cancelled ev j) \<and>
    int n \<le> (case policy of None \<Rightarrow> 0 | Some p \<Rightarrow> max 0 (rp_maxRetries p)) \<and>
    (err \<noteq> None \<longrightarrow> (case policy of None \<Rightarrow> True | Some p \<Rightarrow> rp_maxRetries p \<le> int n \<or> ev_cancelled ev n)) \<and>
    length (db_history db') = length (db_history db) + (if logged tid db then n + 1 else 0)"
  using run_attempts_spec [OF assms] run_attempts_frame [OF assms] by (auto split: option.splits)

definition failing_env :: "nat \<Rightarrow> run_env" where
  "failing_env n = \<lparr>ev_result = (\<lambda>k. if k < n then Failed ''busy'' else Done), ev_start = (\<lambda>k. 0),
     ev_duration = (\<lambda>k. 0), ev_finished = (\<lambda>k. 0), ev_cancelled = (\<lambda>k. False)\<rparr>"

theorem run_attempts_bounded_witness:
  "fst (run_attempts (t_policy sample_task) (failing_env 9) ''backup_daily'' 0 (new_db False True)) = Some ''busy''"
proof -
  obtain err n db' where r: "run_attempts (t_policy sample_task) (failing_env 9) ''backup_daily'' 0 (new_db False True) = (err, n, db')"
    by (cases "run_attempts (t_policy sample_task) (failing_env 9) ''backup_daily'' 0 (new_db False True)") simp
  from run_attempts_bounded [OF r] have "n \<le> 2" "err = run_handler_safely (ev_result (failing_env 9) n)"
    by (simp_all add: sample_task_def)
  then have "err = Some ''busy''" by (simp add: failing_env_def)
  then show ?thesis by (simp add: r)
qed

subsection \<open>Properties of the token clean-up\<close>

text \<open>
  the clean-up keeps every token that is not revoked, and deletes every revoked one at once: the
  column holds a number of seconds, which SQLite sorts before every text, so the thirty days of the
  statement never matter.
\<close>

theorem token_cleanup_ignores_age:
  "(tok_revokedAt t = SNull \<longrightarrow>
      (t \<in> set (snd (task_token_cleanup True limit tokens)) \<longleftrightarrow> t \<in> set tokens)) \<and>
   (\<forall>seconds. tok_revokedAt t = SInt seconds \<longrightarrow> t \<notin> set (snd (task_token_cleanup True limit tokens))) \<and>
   task_token_cleanup False limit tokens = (Some ''failed to delete revoked tokens'', tokens)"
  by (auto simp: task_token_cleanup_def)

theorem token_cleanup_ignores_age_witness:
  "\<lparr>tok_prefix = ''new'', tok_revokedAt = SInt 99999999999\<rparr> \<notin>
     set (snd (task_token_cleanup True ''2024-01-01 00:00:00''
       [\<lparr>tok_prefix = ''live'', tok_revokedAt = SNull\<rparr>, \<lparr>tok_prefix = ''new'', tok_revokedAt = SInt 99999999999\<rparr>]))"
  using token_cleanup_ignores_age [of "\<lparr>tok_prefix = ''new'', tok_revokedAt = SInt 99999999999\<rparr>" "''2024-01-01 00:00:00''"
    "[\<lparr>tok_prefix = ''live'', tok_revokedAt = SNull\<rparr>, \<lparr>tok_prefix = ''new'', tok_revokedAt = SInt 99999999999\<rparr>]"] by simp

end
