(* ===== verification/Scheduler.thy ===== *)
theory Scheduler
  imports TaskStore
begin

text \<open>
  The scheduler: \<open>src/src/scheduler/scheduler.go\<close> and the built-in tasks of \<open>tasks.go\<close>. One operation
  is one critical section of the mutex or one run of a task; the goroutines that have been started and
  have not finished are the list \<open>sc_launched\<close>. The map of the tasks is iterated in an order that is
  a parameter, and the clock readings are parameters. A task is not registered again while it runs.
\<close>

subsection \<open>State\<close>

record scheduler =
  sc_db :: sched_db
  sc_tasks :: "(string \<times> task) list"
  sc_zone :: "time \<Rightarrow> duration"
  sc_catchUp :: duration
  sc_started :: bool
  sc_stopping :: bool
  sc_cancelled :: bool                       \<comment> \<open>the context is done\<close>
  sc_looping :: bool                         \<comment> \<open>\<open>runLoop\<close> has not returned\<close>
  sc_running :: int                          \<comment> \<open>the wait group\<close>
  sc_launched :: "(string \<times> bool) list"    \<comment> \<open>task and whether the wait group counts it\<close>

datatype sched_error = EmptyTaskID | TaskNotFound string | SchedulerStopped | StoreFailed db_error

text \<open>\<open>time.LoadLocation\<close> is the parameter \<open>locations\<close>; an unknown zone falls back to New York.\<close>

definition new_scheduler ::
  "(string \<Rightarrow> (time \<Rightarrow> duration) option) \<Rightarrow> sched_db \<Rightarrow> string \<Rightarrow> duration \<Rightarrow> scheduler" where
  "new_scheduler locations db zone window =
     \<lparr>sc_db = db, sc_tasks = [],
      sc_zone = (case locations zone of Some z \<Rightarrow> z | None \<Rightarrow> opt_or (locations ''America/New_York'') (\<lambda>_. 0)),
      sc_catchUp = window, sc_started = False, sc_stopping = False, sc_cancelled = False,
      sc_looping = False, sc_running = 0, sc_launched = []\<rparr>"

text \<open>The next run, \<open>None\<close> for a schedule with an error.\<close>

definition next_time :: "scheduler \<Rightarrow> string \<Rightarrow> time \<Rightarrow> time option" where
  "next_time s schedule now =
     (case next_scheduled_time (sc_zone s) schedule now of Some (Inr t) \<Rightarrow> Some t | _ \<Rightarrow> None)"

definition set_task :: "task \<Rightarrow> scheduler \<Rightarrow> scheduler" where
  "set_task t s = s\<lparr>sc_tasks := upd (t_id t) t (sc_tasks s)\<rparr>"

definition save_task :: "task \<Rightarrow> scheduler \<Rightarrow> scheduler" where
  "save_task t s = s\<lparr>sc_db := snd (save_task_state t (sc_db s))\<rparr>"

subsection \<open>Registration\<close>

definition scheduled_task :: "scheduler \<Rightarrow> time \<Rightarrow> task \<Rightarrow> task" where
  "scheduled_task s now t0 =
     (let t1 = (if t_schedule t0 = [] then t0\<lparr>t_schedule := ''@hourly''\<rparr> else t0);
          t2 = (if next_time s (t_schedule t1) now = None then t1\<lparr>t_schedule := ''@hourly''\<rparr> else t1)
      in if t_nextRun t2 = 0 then t2\<lparr>t_nextRun := opt_or (next_time s (t_schedule t2) now) 0\<rparr> else t2)"

definition register :: "time \<Rightarrow> task \<Rightarrow> scheduler \<Rightarrow> sched_error option \<times> scheduler" where
  "register now t s =
     (if t_id t = [] then (Some EmptyTaskID, s)
      else let (e, db, t1) = load_task_state t (sc_db s);
               s1 = s\<lparr>sc_db := db\<rparr>;
               t2 = scheduled_task s1 now t1
           in (None, save_task t2 (set_task t2 s1)))"

definition estimate_next_run :: "scheduler \<Rightarrow> string \<Rightarrow> time \<Rightarrow> time" where
  "estimate_next_run s schedule now = opt_or (next_time s schedule now) (now + hour)"

subsection \<open>Launching and the scans for due tasks\<close>

definition launch_task :: "string \<Rightarrow> scheduler \<Rightarrow> scheduler" where
  "launch_task tid s =
     (if sc_stopping s then s
      else s\<lparr>sc_running := sc_running s + (if sc_started s then 1 else 0),
             sc_launched := sc_launched s @ [(tid, sc_started s)]\<rparr>)"

definition is_due :: "time \<Rightarrow> task \<Rightarrow> bool" where
  "is_due now t \<longleftrightarrow> t_enabled t \<and> t_nextRun t \<noteq> 0 \<and> t_nextRun t \<le> now"

definition advance :: "scheduler \<Rightarrow> time \<Rightarrow> task \<Rightarrow> task" where
  "advance s now t = t\<lparr>t_nextRun := opt_or (next_time s (t_schedule t) now) (t_nextRun t)\<rparr>"

text \<open>
  The loop of both scans over the tasks: every due task gets its next deadline and is saved, and
  those for which \<open>wanted\<close> holds are to be launched.
\<close>

fun scan_due :: "time \<Rightarrow> (task \<Rightarrow> bool) \<Rightarrow> string list \<Rightarrow> scheduler \<Rightarrow> string list \<times> scheduler" where
  "scan_due now wanted [] s = ([], s)"
| "scan_due now wanted (k # ks) s =
     (case map_of (sc_tasks s) k of
        None \<Rightarrow> scan_due now wanted ks s
      | Some t \<Rightarrow>
          if \<not> is_due now t then scan_due now wanted ks s
          else let t' = advance s now t;
                   (due, s') = scan_due now wanted ks (save_task t' (set_task t' s))
               in ((if wanted t then [k] else []) @ due, s'))"

definition check_tasks :: "time \<Rightarrow> string list \<Rightarrow> scheduler \<Rightarrow> scheduler" where
  "check_tasks now order s =
     (let (due, s') = scan_due now (\<lambda>_. True) order s in fold launch_task due s')"

definition catch_up_missed_tasks :: "time \<Rightarrow> string list \<Rightarrow> scheduler \<Rightarrow> scheduler" where
  "catch_up_missed_tasks now order s =
     (let (due, s') = scan_due now (\<lambda>t. now - t_nextRun t \<le> sc_catchUp s) order s in fold launch_task due s')"

definition next_delay :: "time \<Rightarrow> scheduler \<Rightarrow> duration" where
  "next_delay now s =
     (let delay = fold (\<lambda>(k, t) d. if \<not> t_enabled t \<or> t_nextRun t = 0 then d
                                  else if t_nextRun t - now < d then t_nextRun t - now else d)
                    (sc_tasks s) minute
      in if delay < second then second else delay)"

subsection \<open>The handlers of the built-in tasks\<close>

text \<open>The hooks, \<open>None\<close> for a nil one; what the call of a hook returns is a parameter.\<close>

record hooks =
  hk_SSLRenew :: "call_result option"
  hk_BackupDaily :: "call_result option"
  hk_BackupHourly :: "call_result option"
  hk_LogRotate :: "call_result option"
  hk_GeoIPUpdate :: "call_result option"
  hk_BlocklistUpdate :: "call_result option"
  hk_CVEUpdate :: "call_result option"
  hk_UpdateCheck :: "call_result option"
  hk_TokenCleanup :: "call_result option"
  hk_HealthCheckSelf :: "call_result option"
  hk_TorHealth :: "call_result option"
  hk_WhoisRefresh :: "(string list \<Rightarrow> call_result) option"
  hk_RDAPBootstrap :: "call_result option"

definition run_hook :: "call_result option \<Rightarrow> call_result" where
  "run_hook h = (case h of None \<Rightarrow> Done | Some r \<Rightarrow> r)"

definition task_log_rotation where "task_log_rotation hk = run_hook (hk_LogRotate hk)"
definition task_hourly_backup where "task_hourly_backup hk = run_hook (hk_BackupHourly hk)"
definition task_daily_backup where "task_daily_backup hk = run_hook (hk_BackupDaily hk)"
definition task_ssl_renewal where "task_ssl_renewal hk = run_hook (hk_SSLRenew hk)"
definition task_geoip_update where "task_geoip_update hk = run_hook (hk_GeoIPUpdate hk)"
definition task_blocklist_update where "task_blocklist_update hk = run_hook (hk_BlocklistUpdate hk)"
definition task_cve_update where "task_cve_update hk = run_hook (hk_CVEUpdate hk)"
definition task_tor_health where "task_tor_health hk = run_hook (hk_TorHealth hk)"
definition task_update_check where "task_update_check hk = run_hook (hk_UpdateCheck hk)"
definition task_rdap_bootstrap_update where "task_rdap_bootstrap_update hk = run_hook (hk_RDAPBootstrap hk)"

definition task_health_check :: "string option \<Rightarrow> call_result" where
  "task_health_check ping = (case ping of None \<Rightarrow> Done | Some e \<Rightarrow> Failed (''database health check failed: '' @ e))"

text \<open>\<open>stale\<close> is \<open>records.RefreshStale\<close> for a number of days.\<close>

definition task_whois_records_refresh :: "(int \<Rightarrow> string + string list) \<Rightarrow> hooks \<Rightarrow> call_result" where
  "task_whois_records_refresh stale hk =
     (case hk_WhoisRefresh hk of None \<Rightarrow> Done
      | Some refresh \<Rightarrow>
          (case stale 30 of
             Inl e \<Rightarrow> Failed (''whois_records_refresh: find stale: '' @ e)
           | Inr [] \<Rightarrow> Done
           | Inr qs \<Rightarrow> (case refresh qs of Failed e \<Rightarrow> Failed (''whois_records_refresh: '' @ e) | r \<Rightarrow> r)))"

record task_world =
  tw_hooks :: hooks
  tw_stale :: "int \<Rightarrow> string + string list"
  tw_ping :: "string option"
  tw_cleanup :: "string option"            \<comment> \<open>the error of \<open>taskTokenCleanup\<close>\<close>
  tw_other :: "string \<Rightarrow> call_result"

fun call_handler :: "task_world \<Rightarrow> handler \<Rightarrow> call_result" where
  "call_handler w TokenCleanup = (case tw_cleanup w of None \<Rightarrow> Done | Some e \<Rightarrow> Failed e)"
| "call_handler w LogRotation = task_log_rotation (tw_hooks w)"
| "call_handler w DailyBackup = task_daily_backup (tw_hooks w)"
| "call_handler w HourlyBackup = task_hourly_backup (tw_hooks w)"
| "call_handler w SSLRenewal = task_ssl_renewal (tw_hooks w)"
| "call_handler w GeoIPUpdate = task_geoip_update (tw_hooks w)"
| "call_handler w BlocklistUpdate = task_blocklist_update (tw_hooks w)"
| "call_handler w CVEUpdate = task_cve_update (tw_hooks w)"
| "call_handler w HealthCheck = task_health_check (tw_ping w)"
| "call_handler w TorHealth = task_tor_health (tw_hooks w)"
| "call_handler w WhoisRecordsRefresh = task_whois_records_refresh (tw_stale w) (tw_hooks w)"
| "call_handler w UpdateCheck = task_update_check (tw_hooks w)"
| "call_handler w RDAPBootstrapUpdate = task_rdap_bootstrap_update (tw_hooks w)"
| "call_handler w (OtherHandler n) = tw_other w n"

subsection \<open>Running a task\<close>

definition finish_task :: "time \<Rightarrow> time \<Rightarrow> string option \<Rightarrow> scheduler \<Rightarrow> task \<Rightarrow> task" where
  "finish_task start now err s t =
     (let t1 = (case err of
                  Some e \<Rightarrow> t\<lparr>t_lastRun := start, t_lastStatus := ''failed'', t_lastError := e,
                             t_failCount := t_failCount t + 1\<rparr>
                | None \<Rightarrow> t\<lparr>t_lastRun := start, t_lastStatus := ''success'', t_lastError := [],
                           t_runCount := t_runCount t + 1\<rparr>)
      in if t_nextRun t1 = 0 \<or> t_nextRun t1 \<le> start
         then t1\<lparr>t_nextRun := estimate_next_run s (t_schedule t1) now\<rparr> else t1)"

definition execute_task ::
  "time \<Rightarrow> time \<Rightarrow> (nat \<Rightarrow> task_world) \<Rightarrow> run_env \<Rightarrow> string \<Rightarrow> scheduler \<Rightarrow> scheduler" where
  "execute_task start now w ev tid s =
     (case map_of (sc_tasks s) tid of
        None \<Rightarrow> s
      | Some t \<Rightarrow>
          let (err, n, db) = run_attempts (t_policy t) (ev\<lparr>ev_result := \<lambda>k. call_handler (w k) (t_handler t)\<rparr>) tid 0 (sc_db s);
              s1 = s\<lparr>sc_db := db\<rparr>;
              t' = finish_task start now err s1 t
          in save_task t' (set_task t' s1))"

text \<open>
  \<open>execute_task\<close> is the whole run of a task: the attempts (their handler is called in the world \<open>w k\<close>) and
  the update of the task under the lock.
\<close>

text \<open>A launched goroutine, the \<open>i\<close>-th, runs to its end.\<close>

definition complete ::
  "time \<Rightarrow> time \<Rightarrow> (nat \<Rightarrow> task_world) \<Rightarrow> run_env \<Rightarrow> nat \<Rightarrow> scheduler \<Rightarrow> scheduler" where
  "complete start now w ev i s =
     (if length (sc_launched s) \<le> i then s
      else let (tid, tracked) = sc_launched s ! i;
               s1 = execute_task start now w ev tid s
           in s1\<lparr>sc_launched := take i (sc_launched s1) @ drop (Suc i) (sc_launched s1),
                 sc_running := sc_running s1 - (if tracked then 1 else 0)\<rparr>)"

subsection \<open>Start, the loop and stop\<close>

definition sched_start :: "time \<Rightarrow> string list \<Rightarrow> scheduler \<Rightarrow> sched_error option \<times> scheduler" where
  "sched_start now order s =
     (if sc_started s then (None, s)
      else if sc_stopping s then (Some SchedulerStopped, s)
      else let s1 = s\<lparr>sc_started := True, sc_running := sc_running s + 1\<rparr>
           in (None, (catch_up_missed_tasks now order s1)\<lparr>sc_looping := True\<rparr>))"

text \<open>One round of \<open>runLoop\<close>: the scan, then the pause, which ends with a cancelled context.\<close>

definition loop_round :: "time \<Rightarrow> string list \<Rightarrow> scheduler \<Rightarrow> scheduler" where
  "loop_round now order s = (if sc_looping s then check_tasks now order s else s)"

definition loop_exit :: "scheduler \<Rightarrow> scheduler" where
  "loop_exit s =
     (if sc_looping s \<and> sc_cancelled s then s\<lparr>sc_looping := False, sc_running := sc_running s - 1\<rparr> else s)"

definition sched_stop :: "scheduler \<Rightarrow> scheduler" where
  "sched_stop s = s\<lparr>sc_cancelled := True\<rparr>"

definition is_running :: "scheduler \<Rightarrow> bool" where
  "is_running s \<longleftrightarrow> \<not> sc_cancelled s"

definition get_task :: "string \<Rightarrow> scheduler \<Rightarrow> sched_error + task" where
  "get_task tid s = (case map_of (sc_tasks s) tid of None \<Rightarrow> Inl (TaskNotFound tid) | Some t \<Rightarrow> Inr t)"

definition get_tasks :: "string list \<Rightarrow> scheduler \<Rightarrow> task list" where
  "get_tasks order s = List.map_filter (map_of (sc_tasks s)) order"

definition run_task_now :: "string \<Rightarrow> scheduler \<Rightarrow> sched_error option \<times> scheduler" where
  "run_task_now tid s =
     (case get_task tid s of Inl e \<Rightarrow> (Some e, s) | Inr _ \<Rightarrow> (None, launch_task tid s))"

definition set_enabled :: "bool \<Rightarrow> string \<Rightarrow> scheduler \<Rightarrow> sched_error option \<times> scheduler" where
  "set_enabled b tid s =
     (case map_of (sc_tasks s) tid of
        None \<Rightarrow> (Some (TaskNotFound tid), s)
      | Some t \<Rightarrow>
          let s1 = s\<lparr>sc_tasks := upd tid (t\<lparr>t_enabled := b\<rparr>) (sc_tasks s)\<rparr>;
              (e, db) = set_row_enabled tid b (sc_db s1)
          in (map_option StoreFailed e, s1\<lparr>sc_db := db\<rparr>))"

definition enable_task where "enable_task tid s = set_enabled True tid s"
definition disable_task where "disable_task tid s = set_enabled False tid s"

subsection \<open>Overrides\<close>

record task_override =
  ov_retryOnFail :: "bool option"
  ov_retryDelay :: duration
  ov_maxRetries :: int
  ov_backoff :: string

definition override_policy :: "int \<Rightarrow> duration \<Rightarrow> string \<Rightarrow> task_override \<Rightarrow> retry_policy option \<Rightarrow> retry_policy" where
  "override_policy defMax defDelay defBackoff ov old =
     (let p0 = \<lparr>rp_maxRetries = defMax, rp_retryDelay = defDelay, rp_backoff = defBackoff\<rparr>;
          p1 = (case old of None \<Rightarrow> p0 | Some p \<Rightarrow> p);
          p2 = (if 0 < ov_retryDelay ov then p1\<lparr>rp_retryDelay := ov_retryDelay ov\<rparr> else p1);
          p3 = (if 0 < ov_maxRetries ov then p2\<lparr>rp_maxRetries := ov_maxRetries ov\<rparr> else p2)
      in if ov_backoff ov \<noteq> [] then p3\<lparr>rp_backoff := ov_backoff ov\<rparr> else p3)"

definition apply_override ::
  "int \<Rightarrow> duration \<Rightarrow> string \<Rightarrow> string \<times> task_override \<Rightarrow> scheduler \<Rightarrow> scheduler" where
  "apply_override defMax defDelay defBackoff = (\<lambda>(tid, ov) s.
     (case (map_of (sc_tasks s) tid, ov_retryOnFail ov) of
        (Some t, Some b) \<Rightarrow>
          s\<lparr>sc_tasks := upd tid (t\<lparr>t_policy := (if b then Some (override_policy defMax defDelay defBackoff ov (t_policy t))
                                           else None)\<rparr>) (sc_tasks s)\<rparr>
      | _ \<Rightarrow> s))"

definition apply_task_overrides ::
  "(string \<times> task_override) list \<Rightarrow> int \<Rightarrow> duration \<Rightarrow> string \<Rightarrow> scheduler \<Rightarrow> scheduler" where
  "apply_task_overrides ovs defMax defDelay defBackoff s = fold (apply_override defMax defDelay defBackoff) ovs s"

subsection \<open>The status\<close>

record task_status =
  ts_id :: string
  ts_name :: string
  ts_schedule :: string
  ts_enabled :: bool
  ts_lastRun :: time
  ts_lastStatus :: string
  ts_lastError :: string
  ts_nextRun :: time
  ts_runCount :: int
  ts_failCount :: int

definition status_of :: "task \<Rightarrow> task_status" where
  "status_of t = \<lparr>ts_id = t_id t, ts_name = t_name t, ts_schedule = t_schedule t, ts_enabled = t_enabled t,
     ts_lastRun = t_lastRun t, ts_lastStatus = t_lastStatus t, ts_lastError = t_lastError t,
     ts_nextRun = t_nextRun t, ts_runCount = t_runCount t, ts_failCount = t_failCount t\<rparr>"

definition sched_status :: "string list \<Rightarrow> scheduler \<Rightarrow> task_status list" where
  "sched_status order s = map status_of (get_tasks order s)"

definition get_catch_up_window :: "scheduler \<Rightarrow> duration" where
  "get_catch_up_window s = sc_catchUp s"

subsection \<open>The built-in tasks\<close>

definition mk_task :: "string \<Rightarrow> string \<Rightarrow> string \<Rightarrow> bool \<Rightarrow> handler \<Rightarrow> int \<Rightarrow> duration \<Rightarrow> string \<Rightarrow> task" where
  "mk_task i name sched en h retries delay backoff =
     \<lparr>t_id = i, t_name = name, t_schedule = sched, t_handler = h, t_enabled = en, t_lastRun = 0,
      t_lastStatus = [], t_lastError = [], t_nextRun = 0, t_runCount = 0, t_failCount = 0,
      t_policy = Some \<lparr>rp_maxRetries = retries, rp_retryDelay = delay, rp_backoff = backoff\<rparr>\<rparr>"

definition builtin_daily :: "task list" where
  "builtin_daily =
    [mk_task ''token_cleanup'' ''Token Cleanup'' ''@every 15m'' True TokenCleanup 3 (1 * minute) ''linear'',
     mk_task ''log_rotation'' ''Log Rotation'' ''0 0 * * *'' True LogRotation 3 (10 * minute) ''exponential'',
     mk_task ''backup_daily'' ''Daily Backup'' ''0 2 * * *'' True DailyBackup 2 (30 * minute) ''exponential'',
     mk_task ''backup_hourly'' ''Hourly Backup'' ''@hourly'' False HourlyBackup 2 (10 * minute) ''exponential'',
     mk_task ''ssl_renewal'' ''SSL Certificate Renewal'' ''0 3 * * *'' True SSLRenewal 5 (1 * hour) ''exponential'',
     mk_task ''geoip_update'' ''GeoIP Database Update'' ''0 3 * * 0'' True GeoIPUpdate 5 (1 * hour) ''exponential'',
     mk_task ''blocklist_update'' ''Blocklist Update'' ''0 4 * * *'' True BlocklistUpdate 3 (1 * hour) ''exponential'']"

definition builtin_others :: "task list" where
  "builtin_others =
    [mk_task ''cve_update'' ''CVE Database Update'' ''0 5 * * *'' True CVEUpdate 3 (1 * hour) ''exponential'',
     mk_task ''healthcheck_self'' ''Self Health Check'' ''@every 5m'' True HealthCheck 3 (1 * minute) ''linear'',
     mk_task ''tor_health'' ''Tor Health Check'' ''@every 10m'' True TorHealth 3 (1 * minute) ''linear'',
     mk_task ''whois_records_refresh'' ''WHOIS Records Refresh'' ''0 6 * * *'' True WhoisRecordsRefresh 3 (30 * minute) ''exponential'',
     mk_task ''rdap_bootstrap_update'' ''RDAP Bootstrap Update'' ''0 4 * * 0'' True RDAPBootstrapUpdate 5 (1 * hour) ''exponential'',
     mk_task ''update_check'' ''Update Check'' ''0 6 * * *'' True UpdateCheck 3 (1 * hour) ''exponential'']"

definition builtin_tasks :: "task list" where
  "builtin_tasks = builtin_daily @ builtin_others"

lemmas builtin_defs = builtin_tasks_def builtin_daily_def builtin_others_def mk_task_def

text \<open>The first registration that fails ends the function; \<open>clock\<close> gives the reading of each.\<close>

fun register_all :: "(string \<Rightarrow> time) \<Rightarrow> task list \<Rightarrow> scheduler \<Rightarrow> string option \<times> scheduler" where
  "register_all clock [] s = (None, s)"
| "register_all clock (t # ts) s =
     (case register (clock (t_id t)) t s of
        (Some e, s') \<Rightarrow> (Some (''failed to register '' @ t_id t), s')
      | (None, s') \<Rightarrow> register_all clock ts s')"

definition register_builtin_tasks :: "(string \<Rightarrow> time) \<Rightarrow> scheduler \<Rightarrow> string option \<times> scheduler" where
  "register_builtin_tasks clock s = register_all clock builtin_tasks s"

subsection \<open>The scans\<close>

lemma next_time_cong: "sc_zone s' = sc_zone s \<Longrightarrow> next_time s' = next_time s"
  by (intro ext) (simp add: next_time_def)

lemma next_time_later: "next_time s sched now = Some t \<Longrightarrow> now < t"
  using scheduled_later by (auto simp: next_time_def split: option.splits sum.splits)

text \<open>What a scan leaves alone.\<close>

definition same_control :: "scheduler \<Rightarrow> scheduler \<Rightarrow> bool" where
  "same_control s s' \<longleftrightarrow> sc_zone s' = sc_zone s \<and> sc_catchUp s' = sc_catchUp s \<and> sc_started s' = sc_started s \<and>
     sc_stopping s' = sc_stopping s \<and> sc_cancelled s' = sc_cancelled s \<and> sc_looping s' = sc_looping s \<and>
     sc_running s' = sc_running s \<and> sc_launched s' = sc_launched s"

lemma same_control_refl [simp]: "same_control s s"
  by (simp add: same_control_def)

lemma same_control_trans: "same_control s s' \<Longrightarrow> same_control s' s'' \<Longrightarrow> same_control s s''"
  by (simp add: same_control_def)

lemma same_control_save [simp]:
  "same_control s (save_task t (set_task t s))" "same_control s (s\<lparr>sc_db := db\<rparr>)" "same_control s (s\<lparr>sc_tasks := ts\<rparr>)"
  by (simp_all add: same_control_def save_task_def set_task_def)

lemma tasks_save_set [simp]: "sc_tasks (save_task t (set_task t' s)) = upd (t_id t') t' (sc_tasks s)"
  by (simp add: save_task_def set_task_def)

definition keyed :: "scheduler \<Rightarrow> bool" where
  "keyed s \<longleftrightarrow> distinct (keys (sc_tasks s)) \<and> (\<forall>k t. map_of (sc_tasks s) k = Some t \<longrightarrow> t_id t = k)"

lemma keyed_update [simp]:
  "keyed (s\<lparr>sc_db := db\<rparr>) = keyed s" "keyed (s\<lparr>sc_started := b\<rparr>) = keyed s"
  "keyed (s\<lparr>sc_cancelled := b\<rparr>) = keyed s" "keyed (s\<lparr>sc_looping := b\<rparr>) = keyed s"
  "keyed (s\<lparr>sc_running := n\<rparr>) = keyed s" "keyed (s\<lparr>sc_launched := l\<rparr>) = keyed s"
  by (simp_all add: keyed_def)

lemma keyed_set_task [wf_intros]: "keyed s \<Longrightarrow> keyed (save_task t' (set_task t s))"
  by (auto simp: keyed_def wf_intros)

lemma advance_id [simp]: "t_id (advance s now t) = t_id t" "t_schedule (advance s now t) = t_schedule t"
  "t_enabled (advance s now t) = t_enabled t"
  by (simp_all add: advance_def)

lemma advance_cong: "sc_zone s' = sc_zone s \<Longrightarrow> advance s' = advance s"
  by (intro ext) (simp add: advance_def next_time_cong [of s' s])

lemma scan_due_spec:
  assumes "distinct order" "keyed s" "scan_due now wanted order s = (due, s')"
  shows "due = filter (\<lambda>k. \<exists>t. map_of (sc_tasks s) k = Some t \<and> is_due now t \<and> wanted t) order \<and>
    same_control s s' \<and> keyed s' \<and> set (keys (sc_tasks s')) = set (keys (sc_tasks s)) \<and>
    (\<forall>k. map_of (sc_tasks s') k = map_option (\<lambda>t. if k \<in> set order \<and> is_due now t then advance s now t else t)
           (map_of (sc_tasks s) k))"
  using assms
proof (induction order arbitrary: s due s')
  case Nil
  then show ?case by (auto simp: option.map_id0 [unfolded id_def])
next
  case (Cons k ks)
  show ?case
  proof (cases "\<exists>t. map_of (sc_tasks s) k = Some t \<and> is_due now t")
    case False
    then have "scan_due now wanted ks s = (due, s')" using Cons.prems(3) by (auto split: option.splits if_splits)
    moreover have "distinct ks" using Cons.prems(1) by simp
    ultimately have r: "due = filter (\<lambda>k. \<exists>t. map_of (sc_tasks s) k = Some t \<and> is_due now t \<and> wanted t) ks \<and>
        same_control s s' \<and> keyed s' \<and> set (keys (sc_tasks s')) = set (keys (sc_tasks s)) \<and>
        (\<forall>k. map_of (sc_tasks s') k = map_option (\<lambda>t. if k \<in> set ks \<and> is_due now t then advance s now t else t)
           (map_of (sc_tasks s) k))"
      using Cons.IH [OF _ Cons.prems(2)] by blast
    then show ?thesis using False by (auto simp: option.map_comp intro!: map_option_cong)
  next
    case True
    then obtain t where t: "map_of (sc_tasks s) k = Some t" "is_due now t" by blast
    then have i: "t_id t = k" using Cons.prems(2) by (simp add: keyed_def)
    define u where "u = save_task (advance s now t) (set_task (advance s now t) s)"
    obtain due1 where d: "scan_due now wanted ks u = (due1, s')" "due = (if wanted t then [k] else []) @ due1"
      using Cons.prems(3) t by (auto simp: u_def Let_def split: prod.splits)
    have "k \<in> set (keys (sc_tasks s))" using t(1) by (force dest: map_of_SomeD)
    then have u: "same_control s u" "keyed u" "map_of (sc_tasks u) = (map_of (sc_tasks s))(k \<mapsto> advance s now t)"
      "set (keys (sc_tasks u)) = set (keys (sc_tasks s))"
      using Cons.prems(2) t i by (simp_all add: u_def keyed_set_task insert_absorb del: set_map)
    have a: "advance u = advance s" using u(1) by (intro advance_cong) (simp add: same_control_def)
    have kk: "distinct ks" "k \<notin> set ks" using Cons.prems(1) by auto
    have f: "filter (\<lambda>k'. \<exists>t'. map_of (sc_tasks u) k' = Some t' \<and> is_due now t' \<and> wanted t') ks =
        filter (\<lambda>k'. \<exists>t'. map_of (sc_tasks s) k' = Some t' \<and> is_due now t' \<and> wanted t') ks"
      using kk(2) u(3) by (intro filter_cong) auto
    show ?thesis
      using Cons.IH [OF kk(1) u(2) d(1), unfolded a f] t d(2) kk(2) u same_control_trans [OF u(1)] by auto
  qed
qed

lemma launch_all:
  assumes "\<not> sc_stopping s"
  shows "fold launch_task due s =
    s\<lparr>sc_running := sc_running s + (if sc_started s then int (length due) else 0),
      sc_launched := sc_launched s @ map (\<lambda>k. (k, sc_started s)) due\<rparr>"
  using assms by (induction due arbitrary: s) (auto simp: launch_task_def)

text \<open>Both scans: every due task gets its next deadline, the wanted ones are launched once.\<close>

lemma scan_launch:
  fixes now :: time and order :: "string list" and s :: scheduler
  assumes "\<not> sc_stopping s" "keyed s" "distinct order" "set order = set (keys (sc_tasks s))"
    and "s' = (let (due, s1) = scan_due now wanted order s in fold launch_task due s1)"
  shows "sc_launched s' = sc_launched s @ map (\<lambda>k. (k, sc_started s))
        (filter (\<lambda>k. \<exists>t. map_of (sc_tasks s) k = Some t \<and> is_due now t \<and> wanted t) order)"
    "map_of (sc_tasks s') k = map_option (\<lambda>t. if is_due now t then advance s now t else t) (map_of (sc_tasks s) k)"
    "sc_running s' = sc_running s + (if sc_started s then int (length (sc_launched s') - length (sc_launched s)) else 0)"
    "keyed s'" "set (keys (sc_tasks s')) = set (keys (sc_tasks s))"
    "sc_zone s' = sc_zone s" "sc_started s' = sc_started s" "sc_stopping s' = sc_stopping s"
    "sc_cancelled s' = sc_cancelled s" "sc_looping s' = sc_looping s"
proof -
  obtain due s1 where d: "scan_due now wanted order s = (due, s1)" by fastforce
  note sc = scan_due_spec [OF assms(3,2) d]
  then have c: "same_control s s1" by blast
  then have s': "s' = s1\<lparr>sc_running := sc_running s1 + (if sc_started s1 then int (length due) else 0),
      sc_launched := sc_launched s1 @ map (\<lambda>k. (k, sc_started s1)) due\<rparr>"
    using assms(1,5) d launch_all [of s1 due] by (simp add: same_control_def)
  have du: "due = filter (\<lambda>k. \<exists>t. map_of (sc_tasks s) k = Some t \<and> is_due now t \<and> wanted t) order"
    and ky: "keyed s1" "set (keys (sc_tasks s1)) = set (keys (sc_tasks s))"
    and mp: "map_of (sc_tasks s1) k = map_option (\<lambda>t. if k \<in> set order \<and> is_due now t then advance s now t else t) (map_of (sc_tasks s) k)"
    using sc by blast+
  show "sc_launched s' = sc_launched s @ map (\<lambda>k. (k, sc_started s))
        (filter (\<lambda>k. \<exists>t. map_of (sc_tasks s) k = Some t \<and> is_due now t \<and> wanted t) order)"
    using c by (simp add: s' same_control_def du)
  have "map_of (sc_tasks s1) k = map_option (\<lambda>t. if is_due now t then advance s now t else t) (map_of (sc_tasks s) k)"
  proof (cases "map_of (sc_tasks s) k")
    case (Some t)
    then have "k \<in> set order" unfolding assms(4) by (force dest: map_of_SomeD)
    then show ?thesis using Some mp by simp
  qed (simp add: mp)
  then show "map_of (sc_tasks s') k = map_option (\<lambda>t. if is_due now t then advance s now t else t) (map_of (sc_tasks s) k)"
    by (simp add: s')
  show "sc_running s' = sc_running s + (if sc_started s then int (length (sc_launched s') - length (sc_launched s)) else 0)"
    using c by (simp add: s' same_control_def)
  show "keyed s'" "set (keys (sc_tasks s')) = set (keys (sc_tasks s))"
    using ky by (simp_all add: s' del: set_map)
  show "sc_zone s' = sc_zone s" "sc_started s' = sc_started s" "sc_stopping s' = sc_stopping s"
    "sc_cancelled s' = sc_cancelled s" "sc_looping s' = sc_looping s"
    using c by (simp_all add: s' same_control_def)
qed

lemma advance_not_due:
  assumes "next_time s (t_schedule t) now \<noteq> None"
  shows "\<not> is_due now (advance s now t)"
  using assms next_time_later [of s "t_schedule t" now] by (auto simp: advance_def is_due_def)

subsection \<open>Executions\<close>

text \<open>
  One step of the system: an operation of the interface, a pass or the end of the loop, the end of a
  launched run, or anything that happens to the database.
\<close>

inductive sched_step :: "scheduler \<Rightarrow> scheduler \<Rightarrow> bool" where
  Registers: "(\<forall>b. (t_id t, b) \<notin> set (sc_launched s)) \<Longrightarrow> sched_step s (snd (register now t s))"
| Starts: "distinct order \<Longrightarrow> set order = set (keys (sc_tasks s)) \<Longrightarrow> sched_step s (snd (sched_start now order s))"
| Passes: "distinct order \<Longrightarrow> set order = set (keys (sc_tasks s)) \<Longrightarrow> sched_step s (loop_round now order s)"
| LoopEnds: "sched_step s (loop_exit s)"
| Stops: "sched_step s (sched_stop s)"
| RunsNow: "sched_step s (snd (run_task_now tid s))"
| Enables: "sched_step s (snd (enable_task tid s))"
| Disables: "sched_step s (snd (disable_task tid s))"
| Overrides: "sched_step s (apply_task_overrides ovs defMax defDelay defBackoff s)"
| Completes: "i < length (sc_launched s) \<Longrightarrow> sched_step s (complete start now w ev i s)"
| DatabaseChanges: "sched_step s (s\<lparr>sc_db := db\<rparr>)"

inductive reachable :: "scheduler \<Rightarrow> bool" where
  Initial: "reachable (new_scheduler locations db zone window)"
| Step: "reachable s \<Longrightarrow> sched_step s s' \<Longrightarrow> reachable s'"

inductive_cases sched_stepE: "sched_step s s'"

definition tracked :: "scheduler \<Rightarrow> nat" where
  "tracked s = length (filter snd (sc_launched s))"

lemma tracked_update [simp]:
  "tracked (s\<lparr>sc_db := db\<rparr>) = tracked s" "tracked (s\<lparr>sc_started := b\<rparr>) = tracked s"
  "tracked (s\<lparr>sc_cancelled := b\<rparr>) = tracked s" "tracked (s\<lparr>sc_looping := b\<rparr>) = tracked s"
  "tracked (s\<lparr>sc_running := n\<rparr>) = tracked s"
  by (simp_all add: tracked_def)

definition sched_inv :: "scheduler \<Rightarrow> bool" where
  "sched_inv s \<longleftrightarrow> keyed s \<and> \<not> sc_stopping s \<and> (sc_looping s \<longrightarrow> sc_started s) \<and>
     (\<not> sc_started s \<longrightarrow> tracked s = 0) \<and> (sc_started s \<and> \<not> sc_cancelled s \<longrightarrow> sc_looping s) \<and>
     sc_running s = (if sc_looping s then 1 else 0) + int (tracked s)"

named_theorems control_simps \<open>the control state after an operation on the tasks\<close>

lemma sched_inv_control:
  assumes "same_control s s'" "keyed s'" "sched_inv s"
  shows "sched_inv s'"
  using assms by (simp add: sched_inv_def same_control_def tracked_def)

lemma keyed_change:
  "keyed s \<Longrightarrow> map_of (sc_tasks s) k = Some t \<Longrightarrow> t_id t' = t_id t \<Longrightarrow>
   keyed (s\<lparr>sc_tasks := upd k t' (sc_tasks s)\<rparr>)"
  by (auto simp: keyed_def wf_intros)

lemma load_keeps_id [simp]: "t_id (snd (snd (load_task_state t db))) = t_id t"
  by (auto simp: load_task_state_def scan_task_def Let_def case_prod_unfold split: option.splits)

lemma scheduled_task_id [simp]: "t_id (scheduled_task s now t) = t_id t"
  by (simp add: scheduled_task_def Let_def)

lemma register_control:
  "same_control s (snd (register now t s)) \<and> (keyed s \<longrightarrow> keyed (snd (register now t s)))"
proof -
  define db1 where "db1 = fst (snd (load_task_state t (sc_db s)))"
  define t2 where "t2 = scheduled_task (s\<lparr>sc_db := db1\<rparr>) now (snd (snd (load_task_state t (sc_db s))))"
  have r: "snd (register now t s) = (if t_id t = [] then s else save_task t2 (set_task t2 (s\<lparr>sc_db := db1\<rparr>)))"
    by (simp add: register_def Let_def case_prod_unfold db1_def t2_def)
  have "keyed s \<Longrightarrow> keyed (s\<lparr>sc_db := db1\<rparr>)" by (simp add: keyed_def)
  then show ?thesis
    using same_control_trans [OF same_control_save(2) same_control_save(1)] by (auto simp: r wf_intros)
qed

lemma execute_control:
  "same_control s (execute_task start now w ev tid s) \<and> (keyed s \<longrightarrow> keyed (execute_task start now w ev tid s))"
proof (cases "map_of (sc_tasks s) tid")
  case None
  then show ?thesis by (simp add: execute_task_def)
next
  case (Some t)
  define r where "r = run_attempts (t_policy t) (ev\<lparr>ev_result := \<lambda>k. call_handler (w k) (t_handler t)\<rparr>) tid 0 (sc_db s)"
  define s1 where "s1 = s\<lparr>sc_db := snd (snd r)\<rparr>"
  define t' where "t' = finish_task start now (fst r) s1 t"
  have e: "execute_task start now w ev tid s = save_task t' (set_task t' s1)"
    using Some by (simp add: execute_task_def r_def s1_def t'_def case_prod_unfold Let_def)
  have "keyed s \<Longrightarrow> keyed s1" by (simp add: s1_def)
  then show ?thesis
    using same_control_trans [OF same_control_save(2) same_control_save(1)] by (auto simp: e s1_def wf_intros)
qed

lemma override_control:
  "same_control s (apply_task_overrides ovs m d b s) \<and> (keyed s \<longrightarrow> keyed (apply_task_overrides ovs m d b s))"
proof (induction ovs arbitrary: s)
  case (Cons ov ovs)
  have 1: "same_control s (apply_override m d b ov s)"
    by (auto simp: apply_override_def split: prod.splits option.splits)
  have 2: "keyed (apply_override m d b ov s)" if "keyed s"
    using that keyed_change [OF that] by (auto simp: apply_override_def split: prod.splits option.splits)
  show ?case using Cons.IH [of "apply_override m d b ov s"] same_control_trans [OF 1] 2
    by (simp add: apply_task_overrides_def)
qed (simp add: apply_task_overrides_def)

lemma enable_control:
  "same_control s (snd (set_enabled b tid s)) \<and> (keyed s \<longrightarrow> keyed (snd (set_enabled b tid s)))"
proof (cases "map_of (sc_tasks s) tid")
  case (Some t)
  define s1 where "s1 = s\<lparr>sc_tasks := upd tid (t\<lparr>t_enabled := b\<rparr>) (sc_tasks s)\<rparr>"
  have e: "snd (set_enabled b tid s) = s1\<lparr>sc_db := snd (set_row_enabled tid b (sc_db s1))\<rparr>"
    using Some by (simp add: set_enabled_def Let_def case_prod_unfold s1_def)
  have "keyed s \<Longrightarrow> keyed s1" unfolding s1_def by (rule keyed_change [OF _ Some]) simp_all
  moreover have "same_control s (s1\<lparr>sc_db := db\<rparr>)" for db
    unfolding s1_def by (rule same_control_trans [OF same_control_save(3) same_control_save(2)])
  ultimately show ?thesis unfolding e by simp
qed (simp add: set_enabled_def)

lemma launch_inv: "sched_inv s \<Longrightarrow> sched_inv (launch_task tid s)"
  by (auto simp: sched_inv_def launch_task_def tracked_def)

lemma scan_inv:
  assumes "sched_inv s" "distinct order" "set order = set (keys (sc_tasks s))"
    and "s' = (let (due, s1) = scan_due now wanted order s in fold launch_task due s1)"
  shows "sched_inv s'"
proof -
  have "\<not> sc_stopping s" "keyed s" using assms(1) by (simp_all add: sched_inv_def)
  note r = scan_launch [OF this assms(2-4)]
  have "tracked s' = tracked s + (if sc_started s then length (sc_launched s') - length (sc_launched s) else 0)"
    by (simp add: tracked_def r(1) filter_map o_def)
  then show ?thesis using assms(1) r(3-10) by (simp add: sched_inv_def)
qed

lemma start_inv:
  assumes "sched_inv s" "distinct order" "set order = set (keys (sc_tasks s))"
  shows "sched_inv (snd (sched_start now order s))"
proof (cases "sc_started s \<or> sc_stopping s")
  case True
  then show ?thesis using assms by (auto simp: sched_start_def)
next
  case False
  define s1 where "s1 = s\<lparr>sc_started := True, sc_running := sc_running s + 1\<rparr>"
  define s2 where "s2 = catch_up_missed_tasks now order s1"
  have o: "set order = set (keys (sc_tasks s1))" "keyed s1" "\<not> sc_stopping s1"
    using assms False by (simp_all add: s1_def sched_inv_def)
  have e: "s2 = (let (due, s2) = scan_due now (\<lambda>t. now - t_nextRun t \<le> sc_catchUp s1) order s1 in fold launch_task due s2)"
    by (simp add: s2_def catch_up_missed_tasks_def)
  note r = scan_launch [OF o(3,2) assms(2) o(1) e]
  have l: "sc_launched s2 = sc_launched s1 @ map (\<lambda>k. (k, True)) (filter (\<lambda>k. \<exists>t. map_of (sc_tasks s1) k = Some t \<and>
      is_due now t \<and> now - t_nextRun t \<le> sc_catchUp s1) order)"
    using r(1) by (simp add: s1_def)
  have "tracked s2 = tracked s1 + (length (sc_launched s2) - length (sc_launched s1))"
    by (simp add: tracked_def l filter_map o_def)
  then have "sched_inv (s2\<lparr>sc_looping := True\<rparr>)"
    using r(3-10) assms(1) False by (simp add: sched_inv_def s1_def tracked_def)
  then show ?thesis using False by (simp add: sched_start_def s1_def s2_def)
qed

lemma complete_inv:
  assumes "sched_inv s" "i < length (sc_launched s)"
  shows "sched_inv (complete start now w ev i s)"
proof -
  obtain tid b where l: "sc_launched s ! i = (tid, b)" by fastforce
  define s1 where "s1 = execute_task start now w ev tid s"
  have c: "same_control s s1" "keyed s \<Longrightarrow> keyed s1" using execute_control by (simp_all add: s1_def)
  then have i1: "sched_inv s1" using assms(1) by (intro sched_inv_control [OF c(1)]) (simp_all add: sched_inv_def)
  have e: "sc_launched s1 = sc_launched s" using c(1) by (simp add: same_control_def)
  have "filter snd (sc_launched s) = filter snd (take i (sc_launched s)) @ filter snd ((tid, b) # drop (Suc i) (sc_launched s))"
    using assms(2) l by (metis Cons_nth_drop_Suc append_take_drop_id filter_append)
  then have "tracked s1 = length (filter snd (take i (sc_launched s) @ drop (Suc i) (sc_launched s))) + (if b then 1 else 0)"
    by (simp add: tracked_def e)
  then show ?thesis
    using i1 assms(2) l by (auto simp: complete_def s1_def [symmetric] sched_inv_def e tracked_def split: if_splits)
qed

lemma loop_exit_inv: "sched_inv s \<Longrightarrow> sched_inv (loop_exit s)"
  by (cases "sc_looping s"; cases "sc_cancelled s") (simp_all add: loop_exit_def sched_inv_def)

lemma step_inv:
  assumes "sched_step s s'" "sched_inv s"
  shows "sched_inv s'"
proof -
  have k: "keyed s" using assms(2) by (simp add: sched_inv_def)
  note c = sched_inv_control [OF _ _ assms(2)]
  show ?thesis using assms(1)
  proof cases
    case (Registers t now) then show ?thesis using c register_control k by blast
  next
    case (Starts order now) then show ?thesis using start_inv assms(2) by blast
  next
    case (Passes order now)
    have "sched_inv (check_tasks now order s)" by (rule scan_inv [OF assms(2) Passes(2,3)]) (simp add: check_tasks_def)
    then show ?thesis using Passes(1) assms(2) by (simp add: loop_round_def)
  next
    case LoopEnds then show ?thesis using loop_exit_inv assms(2) by blast
  next
    case Stops then show ?thesis using assms(2) by (simp add: sched_stop_def sched_inv_def)
  next
    case (RunsNow tid)
    then show ?thesis using launch_inv assms(2) by (auto simp: run_task_now_def split: sum.splits)
  next
    case (Enables tid) then show ?thesis using c enable_control k by (metis enable_task_def)
  next
    case (Disables tid) then show ?thesis using c enable_control k by (metis disable_task_def)
  next
    case (Overrides ovs m d b) then show ?thesis using c override_control k by blast
  next
    case (Completes i start now w ev) then show ?thesis using complete_inv assms(2) by blast
  next
    case (DatabaseChanges db)
    then show ?thesis using assms(2) by (simp add: sched_inv_def)
  qed
qed

lemma initial_inv: "sched_inv (new_scheduler locations db zone window)"
  by (simp add: new_scheduler_def sched_inv_def tracked_def keyed_def)

lemma reachable_inv: "reachable s \<Longrightarrow> sched_inv s"
  by (induction rule: reachable.induct) (rule initial_inv, rule step_inv)

subsection \<open>Properties\<close>

text \<open>A scheduler with one task that was due at 5, for the examples.\<close>

definition due_task :: task where
  "due_task = sample_task\<lparr>t_schedule := ''@every 15m'', t_nextRun := 5\<rparr>"

definition demo :: scheduler where
  "demo = snd (register 0 due_task (new_scheduler (\<lambda>_. None) (new_db True True) ''UTC'' hour))"

lemma every_15m: "next_scheduled_time off ''@every 15m'' now = Some (Inr (now + 15 * minute))"
  by (simp add: next_scheduled_time_def str_evals parse_duration_def duration_loop.simps
      duration_item_def is_dec_def duration_units_def)

lemma demo_reachable: "reachable demo"
  unfolding demo_def by (rule Step [OF Initial Registers]) (simp add: new_scheduler_def)

lemma demo_tasks: "sc_tasks demo = [(''backup_daily'', due_task)]" "sc_launched demo = []" "sc_started demo = False"
    "sc_catchUp demo = hour" "sc_stopping demo = False" "sc_looping demo = False"
    "sc_db demo = (new_db True True)\<lparr>db_rows := [(''backup_daily'', row_of due_task)]\<rparr>"
  by (simp_all add: demo_def register_def load_task_state_def new_scheduler_def new_db_def save_task_state_def
      scheduled_task_def next_time_def every_15m due_task_def sample_task_def save_task_def set_task_def Let_def)

text \<open>
  C13: in every reachable state the wait group counts exactly the loop and the tracked runs, so it never
  becomes negative (which would panic) and \<open>Stop\<close> stops waiting exactly when the loop has returned and
  every run launched after the start has ended.
\<close>

theorem wait_group_exact:
  assumes "reachable s"
  shows "sc_running s = (if sc_looping s then 1 else 0) + int (length (filter snd (sc_launched s))) \<and>
    (sc_running s = 0 \<longleftrightarrow> \<not> sc_looping s \<and> (\<forall>r\<in>set (sc_launched s). \<not> snd r)) \<and>
    (sc_started s \<and> \<not> sc_cancelled s \<longrightarrow> sc_looping s)"
  using reachable_inv [OF assms] by (auto simp: sched_inv_def tracked_def filter_empty_conv)

theorem wait_group_exact_witness: "sc_running demo = 0"
  using wait_group_exact [OF demo_reachable] by (simp add: demo_tasks sched_inv_def)

text \<open>
  C12: one pass of the loop launches exactly the enabled tasks whose time has come, each once and in the
  order of the scan; a second pass at the same instant launches nothing, when the schedules of these
  tasks have a next time: the deadline has moved before the task runs.
\<close>

theorem check_tasks_once:
  assumes "reachable s" "distinct order" "set order = set (keys (sc_tasks s))"
    and "\<forall>k t. map_of (sc_tasks s) k = Some t \<and> is_due now t \<longrightarrow> next_time s (t_schedule t) now \<noteq> None"
  shows "sc_launched (check_tasks now order s) = sc_launched s @ map (\<lambda>k. (k, sc_started s))
      (filter (\<lambda>k. \<exists>t. map_of (sc_tasks s) k = Some t \<and> is_due now t) order) \<and>
    sc_launched (check_tasks now order (check_tasks now order s)) = sc_launched (check_tasks now order s)"
proof
  define s1 where "s1 = check_tasks now order s"
  have e: "s1 = (let (due, s1) = scan_due now (\<lambda>_. True) order s in fold launch_task due s1)"
    by (simp add: s1_def check_tasks_def)
  have i: "\<not> sc_stopping s" "keyed s" using reachable_inv [OF assms(1)] by (simp_all add: sched_inv_def)
  note r = scan_launch [OF i assms(2,3) e]
  show "sc_launched (check_tasks now order s) = sc_launched s @ map (\<lambda>k. (k, sc_started s))
      (filter (\<lambda>k. \<exists>t. map_of (sc_tasks s) k = Some t \<and> is_due now t) order)"
    using r(1) by (simp add: s1_def)
  have "\<not> is_due now t" if t: "map_of (sc_tasks s1) k = Some t" for k t
  proof -
    obtain t0 where t0: "map_of (sc_tasks s) k = Some t0" "t = (if is_due now t0 then advance s now t0 else t0)"
      using t r(2) [of k] by auto
    show ?thesis
      using t0 assms(4) advance_not_due [of s t0 now] by (cases "is_due now t0") auto
  qed
  then have n: "filter (\<lambda>k. \<exists>t. map_of (sc_tasks s1) k = Some t \<and> is_due now t \<and> True) order = []"
    by (auto simp: filter_empty_conv)
  have "\<not> sc_stopping s1" "set order = set (keys (sc_tasks s1))" using r(5,8) i(1) assms(3) by auto
  note r2 = scan_launch(1) [OF this(1) r(4) assms(2) this(2) refl, of now "\<lambda>_. True"]
  show "sc_launched (check_tasks now order (check_tasks now order s)) = sc_launched (check_tasks now order s)"
    using r2 unfolding n s1_def [symmetric] by (simp add: check_tasks_def)
qed

theorem check_tasks_once_witness:
  "sc_launched (check_tasks 7 [''backup_daily''] demo) = [(''backup_daily'', False)]"
proof -
  have "\<forall>k t. map_of (sc_tasks demo) k = Some t \<and> is_due 7 t \<longrightarrow> next_time demo (t_schedule t) 7 \<noteq> None"
    by (simp add: demo_tasks due_task_def next_time_def every_15m)
  from check_tasks_once [OF demo_reachable _ _ this, of "[''backup_daily'']"]
  show ?thesis by (simp add: demo_tasks is_due_def due_task_def sample_task_def)
qed

text \<open>
  at start the tasks missed for longer than the window are not run, the others are launched, all
  of them get their next deadline, and the loop runs.
\<close>

theorem catch_up_window:
  assumes "reachable s" "distinct order" "set order = set (keys (sc_tasks s))" "\<not> sc_started s"
    and "sched_start now order s = (err, s')"
  shows "err = None \<and> sc_looping s' \<and> sc_launched s' = sc_launched s @ map (\<lambda>k. (k, True))
      (filter (\<lambda>k. \<exists>t. map_of (sc_tasks s) k = Some t \<and> is_due now t \<and> now - t_nextRun t \<le> sc_catchUp s) order) \<and>
    map_of (sc_tasks s') k = map_option (\<lambda>t. if is_due now t then advance s now t else t) (map_of (sc_tasks s) k)"
proof -
  define s1 where "s1 = s\<lparr>sc_started := True, sc_running := sc_running s + 1\<rparr>"
  have s': "err = None" "s' = (catch_up_missed_tasks now order s1)\<lparr>sc_looping := True\<rparr>"
    using assms(4,5) reachable_inv [OF assms(1)] by (auto simp: sched_start_def sched_inv_def s1_def Let_def)
  have o: "\<not> sc_stopping s1" "keyed s1" "set order = set (keys (sc_tasks s1))"
    using reachable_inv [OF assms(1)] assms(3) by (simp_all add: sched_inv_def s1_def)
  have adv: "advance s1 = advance s" by (rule advance_cong) (simp add: s1_def)
  note r = scan_launch(1,2) [OF o(1,2) assms(2) o(3) refl, of now "\<lambda>t. now - t_nextRun t \<le> sc_catchUp s1",
      folded catch_up_missed_tasks_def, unfolded adv]
  have f: "sc_launched s1 = sc_launched s" "sc_tasks s1 = sc_tasks s" "sc_started s1" "sc_catchUp s1 = sc_catchUp s"
    by (simp_all add: s1_def)
  show ?thesis using r(1) r(2) [of k] unfolding s' f by (simp add: f)
qed

theorem catch_up_window_witness:
  "sc_launched (snd (sched_start (2 * hour) [''backup_daily''] demo)) = [] \<and>
   sc_launched (snd (sched_start hour [''backup_daily''] demo)) = [(''backup_daily'', True)]"
  using catch_up_window [OF demo_reachable _ _ _ surjective_pairing, of "[''backup_daily'']" "2 * hour" "''backup_daily''"]
    catch_up_window [OF demo_reachable _ _ _ surjective_pairing, of "[''backup_daily'']" hour "''backup_daily''"]
  by (simp add: demo_tasks is_due_def due_task_def sample_task_def)

lemma min_insert: "finite A \<Longrightarrow> Min (insert b (insert a A)) = Min (insert (if (a::int) < b then a else b) A)"
proof (cases "A = {}")
  case False
  assume "finite A"
  then have "Min (insert b (insert a A)) = min b (min a (Min A))"
    "Min (insert (if a < b then a else b) A) = min (if a < b then a else b) (Min A)"
    using False by (simp_all del: Min_insert add: Min_insert)
  then show ?thesis unfolding min_def by auto
qed simp

lemma if_max: "(if (d::int) < c then c else d) = max c d"
  by simp

text \<open>
  the pause of the loop is the time to the next deadline of an enabled task, but at least a second
  and at most a minute: it neither spins nor oversleeps a deadline by more than a second.
\<close>

theorem next_delay_spec:
  "next_delay now s = max second (Min (insert minute
     {t_nextRun t - now | t. t \<in> snd ` set (sc_tasks s) \<and> t_enabled t \<and> t_nextRun t \<noteq> 0}))"
proof -
  let ?f = "\<lambda>kt d. if \<not> t_enabled (snd kt) \<or> t_nextRun (snd kt) = 0 then d
                    else if t_nextRun (snd kt) - now < d then t_nextRun (snd kt) - now else (d::int)"
  have f: "fold ?f ts d0 = Min (insert d0 {t_nextRun t - now | t. t \<in> snd ` set ts \<and> t_enabled t \<and> t_nextRun t \<noteq> 0})"
    for ts :: "(string \<times> task) list" and d0 :: int
  proof (induction ts arbitrary: d0)
    case (Cons kt ts)
    let ?A = "{t_nextRun t - now | t. t \<in> snd ` set ts \<and> t_enabled t \<and> t_nextRun t \<noteq> 0}"
    have fin: "finite ?A" by simp
    show ?case
    proof (cases "\<not> t_enabled (snd kt) \<or> t_nextRun (snd kt) = 0")
      case True
      then have "{t_nextRun t - now | t. t \<in> snd ` set (kt # ts) \<and> t_enabled t \<and> t_nextRun t \<noteq> 0} = ?A" by auto
      then show ?thesis using True Cons.IH by simp
    next
      case False
      then have e: "{t_nextRun t - now | t. t \<in> snd ` set (kt # ts) \<and> t_enabled t \<and> t_nextRun t \<noteq> 0} =
          insert (t_nextRun (snd kt) - now) ?A" by auto
      show ?thesis using False Cons.IH min_insert [OF fin] unfolding e by (simp add: min_def)
    qed
  qed simp
  show ?thesis
    unfolding next_delay_def case_prod_unfold f Let_def by (simp only: if_max)
qed

text \<open>
  after \<open>Stop\<close> a task can still be launched: the field that would forbid it is never set. The run
  is then not waited for.
\<close>

theorem stop_keeps_launching:
  assumes "reachable s" "get_task tid s = Inr t"
  shows "\<exists>s'. run_task_now tid (sched_stop s) = (None, s') \<and> \<not> is_running s' \<and>
    sc_launched s' = sc_launched s @ [(tid, sc_started s)] \<and> sc_running s' = sc_running s + (if sc_started s then 1 else 0)"
  using assms(2) reachable_inv [OF assms(1)]
  by (auto simp: run_task_now_def sched_stop_def get_task_def launch_task_def sched_inv_def is_running_def)

theorem stop_keeps_launching_witness:
  "sc_launched (snd (run_task_now ''backup_daily'' (sched_stop demo))) = [(''backup_daily'', False)]"
  using stop_keeps_launching [OF demo_reachable, of "''backup_daily''" due_task] by (auto simp: get_task_def demo_tasks)

text \<open>
  the name and the schedule of a registered task are those of its row when it has one, not those
  that the code gives: a changed built-in schedule never takes effect. An empty or unusable schedule
  becomes hourly. The handler and the retry policy are those of the code.
\<close>

theorem stored_schedule_wins:
  assumes "db_up (sc_db s)" "t_id t \<noteq> []" "map_of (db_rows (sc_db s)) (t_id t) = Some r"
  shows "\<exists>t'. map_of (sc_tasks (snd (register now t s))) (t_id t) = Some t' \<and> t_name t' = r_name r \<and>
    t_schedule t' = (if r_schedule r = [] \<or> next_time s (r_schedule r) now = None then ''@hourly'' else r_schedule r) \<and>
    t_handler t' = t_handler t \<and> t_policy t' = t_policy t"
proof -
  define l where "l = load_task_state t (sc_db s)"
  define t1 where "t1 = snd (snd l)"
  define s1 where "s1 = s\<lparr>sc_db := fst (snd l)\<rparr>"
  define t2 where "t2 = scheduled_task s1 now t1"
  have t1: "t_name t1 = r_name r" "t_schedule t1 = r_schedule r" "t_handler t1 = t_handler t" "t_policy t1 = t_policy t"
    "t_id t1 = t_id t"
    using assms(1,3) by (auto simp: t1_def l_def load_task_state_def scan_task_def Let_def case_prod_unfold split: option.splits)
  have r: "snd (register now t s) = save_task t2 (set_task t2 s1)"
    using assms(2) by (simp add: register_def l_def [symmetric] case_prod_unfold Let_def s1_def t1_def t2_def)
  have nt: "next_time s1 = next_time s" by (rule next_time_cong) (simp add: s1_def)
  have "t_name t2 = t_name t1 \<and> t_handler t2 = t_handler t1 \<and> t_policy t2 = t_policy t1 \<and>
      t_schedule t2 = (if t_schedule t1 = [] \<or> next_time s (t_schedule t1) now = None then ''@hourly'' else t_schedule t1)"
    by (simp add: t2_def scheduled_task_def Let_def nt)
  then show ?thesis
    using t1 by (simp add: r) (simp add: t2_def t1)
qed

theorem stored_schedule_wins_witness:
  "\<exists>t'. map_of (sc_tasks (snd (register 0 sample_task demo))) ''backup_daily'' = Some t' \<and>
    t_schedule t' = ''@every 15m'' \<and> t_schedule sample_task = ''0 2 * * *''"
  using stored_schedule_wins [of demo sample_task "row_of due_task" 0]
  by (auto simp: demo_tasks sample_task_def new_db_def row_of_def due_task_def next_time_def every_15m)


definition no_hooks :: hooks where
  "no_hooks = \<lparr>hk_SSLRenew = None, hk_BackupDaily = None, hk_BackupHourly = None, hk_LogRotate = None,
     hk_GeoIPUpdate = None, hk_BlocklistUpdate = None, hk_CVEUpdate = None, hk_UpdateCheck = None,
     hk_TokenCleanup = None, hk_HealthCheckSelf = None, hk_TorHealth = None, hk_WhoisRefresh = None,
     hk_RDAPBootstrap = None\<rparr>"

definition disk_full :: task_world where
  "disk_full = \<lparr>tw_hooks = no_hooks\<lparr>hk_BackupDaily := Some (Panicked ''disk full'')\<rparr>, tw_stale = (\<lambda>_. Inr []),
     tw_ping = None, tw_cleanup = None, tw_other = (\<lambda>_. Done)\<rparr>"


text \<open>
  a run leaves no history: the rows of its own attempts and all earlier ones are erased when the
  state of the task is saved at its end, as long as foreign keys are enforced.
\<close>

theorem run_leaves_no_history:
  assumes "map_of (sc_tasks s) tid = Some t" "t_id t = tid" "db_up (sc_db s)" "db_foreign_keys (sc_db s)"
    and "tid \<in> set (keys (db_rows (sc_db s)))"
  shows "get_task_history tid limit (sc_db (execute_task start now w ev tid s)) = Inr []"
proof -
  define ev' where "ev' = ev\<lparr>ev_result := \<lambda>k. call_handler (w k) (t_handler t)\<rparr>"
  obtain err n db where r: "run_attempts (t_policy t) ev' tid 0 (sc_db s) = (err, n, db)"
    by (cases "run_attempts (t_policy t) ev' tid 0 (sc_db s)") simp
  define t' where "t' = finish_task start now err (s\<lparr>sc_db := db\<rparr>) t"
  have i: "t_id t' = tid" using assms(2) by (simp add: t'_def finish_task_def Let_def split: option.splits)
  have "sc_db (execute_task start now w ev tid s) = snd (save_task_state t' db)"
    using assms(1) r by (simp add: execute_task_def ev'_def t'_def Let_def save_task_def set_task_def)
  moreover have "get_task_history tid limit (snd (save_task_state t' db)) = Inr []"
    using save_erases [of db t' tid limit] run_attempts_frame [OF r] assms(3-5) i by simp
  ultimately show ?thesis by simp
qed

theorem run_leaves_no_history_witness:
  "get_task_history ''backup_daily'' 20 (sc_db (execute_task 7 8 (\<lambda>_. disk_full) (failing_env 0) ''backup_daily'' demo)) = Inr []"
  by (rule run_leaves_no_history [of _ _ due_task])
    (simp_all add: demo_tasks new_db_def, simp add: due_task_def sample_task_def)

subsection \<open>The built-in tasks\<close>

lemma every_n: "next_scheduled_time off ''@every 5m'' now = Some (Inr (now + 5 * minute))"
  "next_scheduled_time off ''@every 10m'' now = Some (Inr (now + 10 * minute))"
  by (simp_all add: next_scheduled_time_def str_evals parse_duration_def duration_loop.simps
      duration_item_def is_dec_def duration_units_def)

definition cron_sundays :: "int \<Rightarrow> string \<Rightarrow> bool" where
  "cron_sundays h s \<longleftrightarrow> \<not> has_prefix (trim_space s) ''@every '' \<and>
     (case parse_cron (trim_space s) of Inr fs \<Rightarrow> sundays_at h fs | Inl e \<Rightarrow> False)"

lemma cron_sundays_next:
  "cron_sundays h s \<Longrightarrow> c mod minute = 0 \<Longrightarrow>
   \<exists>n. next_scheduled_time (\<lambda>_. c) s after = Some (Inr n) \<and> n \<le> after + 9 * day"
  using sunday_schedule [of c s _ h after] by (auto simp: cron_sundays_def split: sum.splits)

lemma builtin_cron_0: "cron_sundays 0 ''@hourly''" "cron_sundays 0 ''0 0 * * *''"
  by (simp_all add: cron_sundays_def field_evals sundays_at_def)

lemma builtin_cron_2: "cron_sundays 2 ''0 2 * * *''" "cron_sundays 3 ''0 3 * * *''"
  by (simp_all add: cron_sundays_def field_evals sundays_at_def)

lemma builtin_cron_3: "cron_sundays 3 ''0 3 * * 0''" "cron_sundays 4 ''0 4 * * 0''"
  by (simp_all add: cron_sundays_def field_evals sundays_at_def)

lemma builtin_cron_4: "cron_sundays 4 ''0 4 * * *''" "cron_sundays 5 ''0 5 * * *''"
  by (simp_all add: cron_sundays_def field_evals sundays_at_def)

lemma builtin_cron_6: "cron_sundays 6 ''0 6 * * *''"
  by (simp_all add: cron_sundays_def field_evals sundays_at_def)

lemmas builtin_crons = builtin_cron_0 builtin_cron_2 builtin_cron_3 builtin_cron_4 builtin_cron_6

definition delays_ok :: "retry_policy \<Rightarrow> bool" where
  "delays_ok p \<longleftrightarrow> 0 < rp_maxRetries p \<and> rp_maxRetries p \<le> 5 \<and>
     list_all (\<lambda>k. minute \<le> retry_delay_for_attempt p k \<and> retry_delay_for_attempt p k \<le> 16 * hour)
       [0..<nat (rp_maxRetries p)]"

lemma attempts: "[0..<nat 2] = [0, 1]" "[0..<nat 3] = [0, 1, 2]" "[0..<nat 5] = [0, 1, 2, 3, 4]"
  by (simp_all add: upt_rec numeral_eq_Suc)

lemma delays:
  "delays_ok \<lparr>rp_maxRetries = 3, rp_retryDelay = 1 * minute, rp_backoff = ''linear''\<rparr>"
  "delays_ok \<lparr>rp_maxRetries = 3, rp_retryDelay = 10 * minute, rp_backoff = ''exponential''\<rparr>"
  "delays_ok \<lparr>rp_maxRetries = 2, rp_retryDelay = 10 * minute, rp_backoff = ''exponential''\<rparr>"
  "delays_ok \<lparr>rp_maxRetries = 2, rp_retryDelay = 30 * minute, rp_backoff = ''exponential''\<rparr>"
  "delays_ok \<lparr>rp_maxRetries = 3, rp_retryDelay = 30 * minute, rp_backoff = ''exponential''\<rparr>"
  "delays_ok \<lparr>rp_maxRetries = 3, rp_retryDelay = 1 * hour, rp_backoff = ''exponential''\<rparr>"
  "delays_ok \<lparr>rp_maxRetries = 5, rp_retryDelay = 1 * hour, rp_backoff = ''exponential''\<rparr>"
  by (simp_all add: delays_ok_def attempts del: nat_numeral)
    (simp_all add: retry_delay_for_attempt_def wrap64_def)

lemma builtin_delays: "list_all (\<lambda>t. case t_policy t of None \<Rightarrow> False | Some p \<Rightarrow> delays_ok p) builtin_tasks"
  by (simp only: builtin_defs append.simps list.pred_inject task.simps option.case delays simp_thms)

text \<open>
  in a zone with a fixed offset of whole minutes every built-in schedule has a next run, at most
  nine days away, so no built-in task falls back to the hourly schedule; the names are distinct, and
  the retry delays never overflow: every retry comes after at least a minute and at most sixteen hours.
\<close>

theorem builtin_tasks_sound:
  assumes "t \<in> set builtin_tasks" "c mod minute = 0"
  shows "(\<exists>n. next_scheduled_time (\<lambda>_. c) (t_schedule t) now = Some (Inr n) \<and> now < n \<and> n \<le> now + 9 * day) \<and>
    distinct (map t_id builtin_tasks) \<and>
    (\<exists>p. t_policy t = Some p \<and> 0 < rp_maxRetries p \<and> rp_maxRetries p \<le> 5 \<and>
      (\<forall>k. int k < rp_maxRetries p \<longrightarrow>
         minute \<le> retry_delay_for_attempt p k \<and> retry_delay_for_attempt p k \<le> 16 * hour))"
proof (intro conjI)
  have "\<exists>n. next_scheduled_time (\<lambda>_. c) (t_schedule t) now = Some (Inr n) \<and> n \<le> now + 9 * day"
    using assms(1) builtin_crons [THEN cron_sundays_next [OF _ assms(2)]]
    by (auto simp: builtin_defs append.simps every_15m every_n)
  then show "\<exists>n. next_scheduled_time (\<lambda>_. c) (t_schedule t) now = Some (Inr n) \<and> now < n \<and> n \<le> now + 9 * day"
    using scheduled_later by blast
  show "distinct (map t_id builtin_tasks)" by (simp add: builtin_defs append.simps)
  obtain p where "t_policy t = Some p" "delays_ok p"
    using builtin_delays assms(1) by (auto simp: list_all_iff split: option.splits)
  then show "\<exists>p. t_policy t = Some p \<and> 0 < rp_maxRetries p \<and> rp_maxRetries p \<le> 5 \<and>
      (\<forall>k. int k < rp_maxRetries p \<longrightarrow>
         minute \<le> retry_delay_for_attempt p k \<and> retry_delay_for_attempt p k \<le> 16 * hour)"
    by (auto simp: delays_ok_def list_all_iff)
qed

theorem builtin_tasks_sound_witness:
  "\<exists>n. next_scheduled_time (\<lambda>_. hour) ''0 2 * * *'' 0 = Some (Inr n) \<and> 0 < n \<and> n \<le> 9 * day"
  using builtin_tasks_sound [of "mk_task ''backup_daily'' ''Daily Backup'' ''0 2 * * *'' True DailyBackup 2 (30 * minute) ''exponential''" hour 0]
  by (auto simp: builtin_defs append.simps)

subsection \<open>Overrides\<close>

lemma apply_override_lookup:
  "map_of (sc_tasks (apply_override m d b (k, ov) s)) tid =
     map_option (\<lambda>t. if k = tid then
        (case ov_retryOnFail ov of None \<Rightarrow> t
         | Some on \<Rightarrow> t\<lparr>t_policy := (if on then Some (override_policy m d b ov (t_policy t)) else None)\<rparr>) else t)
       (map_of (sc_tasks s) tid)"
  by (cases "map_of (sc_tasks s) tid"; cases "k = tid"; cases "map_of (sc_tasks s) k"; cases "ov_retryOnFail ov")
    (simp_all add: apply_override_def)

lemma apply_task_overrides_Cons:
  "apply_task_overrides (kv # ovs) m d b s = apply_task_overrides ovs m d b (apply_override m d b kv s)"
  by (simp add: apply_task_overrides_def)

text \<open>
  overrides change the retry policy only, and only of the registered tasks that they name and
  for which \<open>retry_on_fail\<close> is given: false removes it, true builds it from what the override sets, then
  the built-in policy, then the defaults.
\<close>

theorem task_overrides:
  assumes "distinct (keys ovs)"
  shows "map_of (sc_tasks (apply_task_overrides ovs m d b s)) tid =
     map_option (\<lambda>t. case map_of ovs tid of
         None \<Rightarrow> t
       | Some ov \<Rightarrow> (case ov_retryOnFail ov of None \<Rightarrow> t
           | Some on \<Rightarrow> t\<lparr>t_policy := (if on then Some (override_policy m d b ov (t_policy t)) else None)\<rparr>))
       (map_of (sc_tasks s) tid)"
  using assms
proof (induction ovs arbitrary: s)
  case Nil
  then show ?case by (simp add: apply_task_overrides_def option.map_id0 [unfolded id_def])
next
  case (Cons kv ovs)
  obtain k ov where kv: "kv = (k, ov)" by fastforce
  have "k \<notin> fst ` set ovs" using Cons.prems by (simp add: kv)
  then have n: "map_of ovs k = None" by (simp add: map_of_eq_None_iff)
  show ?case
    using Cons.IH [of "apply_override m d b (k, ov) s"] Cons.prems n
    by (cases "map_of (sc_tasks s) tid"; cases "k = tid") (simp_all add: apply_task_overrides_Cons apply_override_lookup kv)
qed

theorem task_overrides_witness:
  "\<exists>t. map_of (sc_tasks (apply_task_overrides [(''backup_daily'', \<lparr>ov_retryOnFail = Some False, ov_retryDelay = 0, ov_maxRetries = 0,
      ov_backoff = []\<rparr>)] 3 hour ''linear'' demo)) ''backup_daily'' = Some t \<and> t_policy t = None"
  using task_overrides [of "[(''backup_daily'', \<lparr>ov_retryOnFail = Some False, ov_retryDelay = 0, ov_maxRetries = 0,
      ov_backoff = []\<rparr>)]" 3 hour "''linear''" demo "''backup_daily''"]
  by (auto simp: demo_tasks)

end
