(* ===== verification/Paths.thy ===== *)
theory Paths
  imports Regex
begin

text \<open>
  Go's \<open>path.Clean\<close> and what rests on it: the checks of user-supplied paths
  (\<open>src/src/config/path.go\<close>) and the boolean values of the configuration
  (\<open>src/src/config/bool.go\<close>).
\<close>

subsection \<open>path.Clean\<close>

text \<open>
  The segments so far are a stack, the last one on top; \<open>..\<close> removes a name, is dropped at the root,
  and stays otherwise.
\<close>

definition clean_seg :: "bool \<Rightarrow> string \<Rightarrow> string list \<Rightarrow> string list" where
  "clean_seg rooted seg st =
     (if seg = [] \<or> seg = ''.'' then st
      else if seg = ''..'' then
        (if st \<noteq> [] \<and> hd st \<noteq> ''..'' then tl st else if rooted then st else seg # st)
      else seg # st)"

definition clean_segs :: "bool \<Rightarrow> string list \<Rightarrow> string list \<Rightarrow> string list" where
  "clean_segs rooted segs st = fold (clean_seg rooted) segs st"

definition is_abs :: "string \<Rightarrow> bool" where
  "is_abs p \<longleftrightarrow> p \<noteq> [] \<and> hd p = CHR ''/''"

definition clean_path :: "string \<Rightarrow> string" where
  "clean_path p =
     (let segs = rev (clean_segs (is_abs p) (split_on CHR ''/'' p) [])
      in if is_abs p then CHR ''/'' # join ''/'' segs
         else if segs = [] then ''.'' else join ''/'' segs)"

definition trim_slashes :: "string \<Rightarrow> string" where
  "trim_slashes = trim_where (\<lambda>c. c = CHR ''/'')"

subsection \<open>config/path.go\<close>

datatype path_error = ErrPathTraversal | ErrInvalidPath | ErrPathTooLong

definition seg_char :: "char \<Rightarrow> bool" where
  "seg_char c \<longleftrightarrow> is_lower c \<or> is_digit c \<or> c = CHR ''_'' \<or> c = CHR ''-''"

definition validPathSegment :: rx where
  "validPathSegment = Plus (Cls seg_char)"

definition normalize_path :: "string \<Rightarrow> string" where
  "normalize_path input =
     (if input = [] then []
      else let cleaned = trim_slashes (clean_path input)
           in if contains_sub cleaned ''..'' then [] else cleaned)"

definition validate_path_segment :: "string \<Rightarrow> path_error option" where
  "validate_path_segment segment =
     (if segment = [] then Some ErrInvalidPath
      else if 64 < length segment then Some ErrPathTooLong
      else if \<not> rx_full validPathSegment segment then Some ErrInvalidPath
      else if segment = ''.'' \<or> segment = ''..'' then Some ErrPathTraversal
      else None)"

fun validate_segments :: "string list \<Rightarrow> path_error option" where
  "validate_segments [] = None"
| "validate_segments (seg # segs) =
     (if seg = [] then validate_segments segs
      else case validate_path_segment seg of Some e \<Rightarrow> Some e | None \<Rightarrow> validate_segments segs)"

definition validate_path :: "string \<Rightarrow> path_error option" where
  "validate_path p =
     (if 2048 < length p then Some ErrPathTooLong
      else if contains_sub p ''..'' then Some ErrPathTraversal
      else validate_segments (split_on CHR ''/'' (trim_slashes p)))"

definition safe_path :: "string \<Rightarrow> path_error + string" where
  "safe_path input = (case validate_path input of Some e \<Rightarrow> Inl e | None \<Rightarrow> Inr (normalize_path input))"

text \<open>
  \<open>filepath.Join\<close> of two elements leaves out empty ones, \<open>filepath.Abs\<close> joins a relative path with the
  working directory \<open>cwd\<close> (\<open>None\<close> when it cannot be found).
\<close>

definition path_join :: "string \<Rightarrow> string \<Rightarrow> string" where
  "path_join a b = (let parts = filter (\<lambda>x. x \<noteq> []) [a, b] in if parts = [] then [] else clean_path (join ''/'' parts))"

definition path_abs :: "string option \<Rightarrow> string \<Rightarrow> string option" where
  "path_abs cwd p = (if is_abs p then Some (clean_path p) else map_option (\<lambda>wd. path_join wd p) cwd)"

definition safe_file_path :: "string option \<Rightarrow> string \<Rightarrow> string \<Rightarrow> path_error + string" where
  "safe_file_path cwd baseDir userPath =
     (case safe_path userPath of
        Inl e \<Rightarrow> Inl e
      | Inr safe \<Rightarrow>
          (case path_abs cwd (path_join baseDir safe) of
             None \<Rightarrow> Inl ErrInvalidPath
           | Some absPath \<Rightarrow>
               (case path_abs cwd baseDir of
                  None \<Rightarrow> Inl ErrInvalidPath
                | Some absBase \<Rightarrow>
                    if absPath \<noteq> absBase \<and> \<not> has_prefix absPath (absBase @ ''/'') then Inl ErrPathTraversal
                    else Inr absPath)))"

subsection \<open>config/bool.go\<close>

definition truthyValues :: "string list" where
  "truthyValues = [''1'', ''y'', ''t'', ''yes'', ''true'', ''on'', ''ok'', ''enable'', ''enabled'', ''yep'', ''yup'', ''yeah'',
     ''aye'', ''si'', ''oui'', ''da'', ''hai'', ''affirmative'', ''accept'', ''allow'', ''grant'', ''sure'', ''totally'']"

definition falsyValues :: "string list" where
  "falsyValues = [''0'', ''n'', ''f'', ''no'', ''false'', ''off'', ''disable'', ''disabled'', ''nope'', ''nah'', ''nay'',
     ''nein'', ''non'', ''niet'', ''iie'', ''lie'', ''negative'', ''reject'', ''block'', ''revoke'', ''deny'', ''never'', ''noway'']"

definition parse_bool :: "string \<Rightarrow> bool \<Rightarrow> string + bool" where
  "parse_bool s0 defaultVal =
     (let s = trim_space (to_lower s0)
      in if s = [] then Inr defaultVal
         else if s \<in> set truthyValues then Inr True
         else if s \<in> set falsyValues then Inr False
         else Inl (''invalid boolean value: '' @ s))"

text \<open>\<open>None\<close> is the panic.\<close>

definition must_parse_bool :: "string \<Rightarrow> bool \<Rightarrow> bool option" where
  "must_parse_bool s d = (case parse_bool s d of Inl e \<Rightarrow> None | Inr b \<Rightarrow> Some b)"

definition is_truthy :: "string \<Rightarrow> bool" where
  "is_truthy s \<longleftrightarrow> trim_space (to_lower s) \<in> set truthyValues"

definition is_falsy :: "string \<Rightarrow> bool" where
  "is_falsy s \<longleftrightarrow> trim_space (to_lower s) \<in> set falsyValues"

subsection \<open>Clean paths\<close>

definition normal_seg :: "string \<Rightarrow> bool" where
  "normal_seg s \<longleftrightarrow> s \<noteq> [] \<and> s \<noteq> ''.'' \<and> CHR ''/'' \<notin> set s"

text \<open>The stack of a clean path: no empty segment, no dot, and \<open>..\<close> only at the bottom of a relative one.\<close>

definition clean_stack :: "bool \<Rightarrow> string list \<Rightarrow> bool" where
  "clean_stack rooted st \<longleftrightarrow> list_all normal_seg st \<and> (rooted \<longrightarrow> ''..'' \<notin> set st) \<and>
     (\<exists>names ups. st = names @ ups \<and> ''..'' \<notin> set names \<and> set ups \<subseteq> {''..''})"

lemma clean_stack_Nil [simp]: "clean_stack r []"
  by (simp add: clean_stack_def)

lemma clean_stack_seg:
  assumes "clean_stack r st" "CHR ''/'' \<notin> set seg"
  shows "clean_stack r (clean_seg r seg st)"
proof -
  obtain names ups where n: "st = names @ ups" "''..'' \<notin> set names" "set ups \<subseteq> {''..''}"
    and l: "list_all normal_seg st" "r \<longrightarrow> ''..'' \<notin> set st"
    using assms(1) by (auto simp: clean_stack_def)
  show ?thesis
  proof (cases "seg = ''..''")
    case True
    show ?thesis
    proof (cases names)
      case Nil
      then have u: "set (seg # st) \<subseteq> {''..''}" "st = [] \<or> hd st = ''..''"
        using n True Nil by (cases ups; auto)+
      then have e: "clean_seg r seg st = (if r then st else seg # st)" using True by (auto simp: clean_seg_def)
      have "set (clean_seg r seg st) \<subseteq> {''..''}" unfolding e using u(1) by auto
      moreover have "list_all normal_seg (clean_seg r seg st)" "r \<longrightarrow> ''..'' \<notin> set (clean_seg r seg st)"
        unfolding e using l True by (simp_all add: normal_seg_def)
      ultimately show ?thesis unfolding clean_stack_def by (metis append_Nil empty_iff empty_set)
    next
      case (Cons a as)
      then show ?thesis using n l True by (auto simp: clean_stack_def clean_seg_def)
    qed
  next
    case False
    have "''..'' \<notin> set (seg # names)" using n(2) False by auto
    then have "\<exists>names ups. seg # st = names @ ups \<and> ''..'' \<notin> set names \<and> set ups \<subseteq> {''..''}"
      using n by (metis append_Cons)
    then have "clean_stack r (seg # st)" if "seg \<noteq> []" "seg \<noteq> ''.''"
      using that l assms(2) False by (simp add: clean_stack_def normal_seg_def)
    then show ?thesis using assms(1) False by (simp add: clean_seg_def)
  qed
qed

lemma clean_stack_segs:
  "clean_stack r st \<Longrightarrow> \<forall>s\<in>set segs. CHR ''/'' \<notin> set s \<Longrightarrow> clean_stack r (clean_segs r segs st)"
  by (induction segs arbitrary: st) (auto simp: clean_segs_def clean_stack_seg)

lemma clean_segs_append: "clean_segs r (xs @ ys) st = clean_segs r ys (clean_segs r xs st)"
  by (simp add: clean_segs_def)

lemma clean_segs_snoc: "clean_segs r (xs @ [x]) st = clean_seg r x (clean_segs r xs st)"
  by (simp add: clean_segs_def)

lemma clean_segs_names:
  "\<forall>s\<in>set ys. normal_seg s \<and> s \<noteq> ''..'' \<Longrightarrow> clean_segs r ys st = rev ys @ st"
  by (induction ys arbitrary: st) (auto simp: clean_segs_def clean_seg_def normal_seg_def)

lemma clean_segs_set: "set (clean_segs r segs st) \<subseteq> set segs \<union> set st"
proof (induction segs arbitrary: st)
  case (Cons a segs)
  have "set (clean_seg r a st) \<subseteq> insert a (set st)" by (cases st) (auto simp: clean_seg_def)
  then show ?case using Cons.IH [of "clean_seg r a st"] by (auto simp: clean_segs_def)
qed (simp add: clean_segs_def)

text \<open>A relative path may be cleaned first and then put behind another.\<close>

lemma clean_seg_rev:
  assumes "clean_stack False s"
  shows "clean_segs r (rev (clean_seg False seg s)) st = clean_seg r seg (clean_segs r (rev s) st)"
proof (cases "seg = ''..'' \<and> s \<noteq> [] \<and> hd s \<noteq> ''..''")
  case True
  then obtain n s' where s: "s = n # s'" "n \<noteq> ''..''" by (cases s) auto
  then have "normal_seg n" using assms by (simp add: clean_stack_def)
  then have "clean_seg r n t = n # t" for t using s(2) by (simp add: clean_seg_def normal_seg_def)
  moreover have "clean_seg False seg s = s'" "clean_seg r seg (n # t) = t" for t
    using True s by (simp_all add: clean_seg_def)
  ultimately show ?thesis by (simp add: s(1) clean_segs_snoc)
next
  case False
  then have "clean_seg False seg s = s \<and> (seg = [] \<or> seg = ''.'') \<or> clean_seg False seg s = seg # s"
    by (auto simp: clean_seg_def)
  then show ?thesis by (auto simp: clean_segs_snoc) (simp_all add: clean_seg_def)
qed

lemma clean_segs_rev:
  assumes "clean_stack False s" "\<forall>x\<in>set segs. CHR ''/'' \<notin> set x"
  shows "clean_segs r (rev (clean_segs False segs s)) st = clean_segs r segs (clean_segs r (rev s) st)"
  using assms
proof (induction segs arbitrary: s)
  case (Cons a segs)
  then show ?case
    using Cons.IH [of "clean_seg False a s"] clean_stack_seg [of False s a] clean_seg_rev [of s r a st]
    by (simp add: clean_segs_def)
qed (simp add: clean_segs_def)

lemma join_append: "xs \<noteq> [] \<Longrightarrow> ys \<noteq> [] \<Longrightarrow> join c (xs @ ys) = join c xs @ c @ join c ys"
proof (induction xs)
  case (Cons x xs)
  then show ?case by (cases xs; cases ys) auto
qed simp

lemma split_slash_free: "\<forall>s\<in>set (split_on CHR ''/'' p). CHR ''/'' \<notin> set s"
  using split_on_no_sep by blast

lemma is_abs_split: "is_abs p \<Longrightarrow> split_on CHR ''/'' p = [] # split_on CHR ''/'' (tl p)"
  by (cases p) (auto simp: is_abs_def)

lemma clean_segs_skip [simp]: "clean_segs r ([] # segs) st = clean_segs r segs st" "clean_segs r [] st = st"
  by (simp_all add: clean_segs_def clean_seg_def)

lemma clean_stack_of: "clean_stack r (clean_segs r (split_on CHR ''/'' p) [])"
  by (rule clean_stack_segs) (auto dest: split_on_no_sep)

lemma stack_no_slash: "clean_stack r st \<Longrightarrow> s \<in> set st \<Longrightarrow> CHR ''/'' \<notin> set s \<and> s \<noteq> []"
  by (auto simp: clean_stack_def list_all_iff normal_seg_def)

lemma abs_forms: "is_abs (c # s) \<longleftrightarrow> c = CHR ''/''" "\<not> is_abs []" "s \<noteq> [] \<Longrightarrow> is_abs s \<longleftrightarrow> hd s = CHR ''/''"
  by (auto simp: is_abs_def)

text \<open>The segments of a cleaned path are those of its stack.\<close>

lemma split_clean:
  assumes "st = clean_segs (is_abs p) (split_on CHR ''/'' p) []"
  shows "clean_segs r (split_on CHR ''/'' (clean_path p)) t = clean_segs r (rev st) t"
    and "is_abs (clean_path p) = is_abs p"
proof -
  have c: "clean_stack (is_abs p) st" unfolding assms by (rule clean_stack_of)
  have ns: "\<forall>s\<in>set (rev st). CHR ''/'' \<notin> set s" using stack_no_slash [OF c] by simp
  have h: "join ''/'' (rev st) \<noteq> [] \<and> hd (join ''/'' (rev st)) \<noteq> CHR ''/''" if ne: "st \<noteq> []"
  proof -
    obtain a as where a: "rev st = a # as" using ne by (cases "rev st") auto
    then have "a \<noteq> []" "CHR ''/'' \<notin> set a" using stack_no_slash [OF c, of a] by (metis list.set_intros(1) set_rev)+
    then show ?thesis by (cases a; cases as) (auto simp: a)
  qed
  have cp: "clean_path p = (if is_abs p then CHR ''/'' # join ''/'' (rev st)
      else if st = [] then ''.'' else join ''/'' (rev st))"
    by (simp add: clean_path_def assms [symmetric] Let_def)
  have dot: "clean_segs r [''.''] t = t" by (simp add: clean_segs_def clean_seg_def)
  show "clean_segs r (split_on CHR ''/'' (clean_path p)) t = clean_segs r (rev st) t"
  proof (cases "st = []")
    case True
    then show ?thesis using dot by (simp add: cp)
  next
    case False
    then have "split_on CHR ''/'' (join ''/'' (rev st)) = rev st" by (intro split_join ns) simp
    then show ?thesis using False by (simp add: cp)
  qed
  show "is_abs (clean_path p) = is_abs p"
    using h by (cases "st = []"; cases "is_abs p") (auto simp: cp abs_forms)
qed

lemma rooted_names: "clean_stack True st \<Longrightarrow> clean_segs r (rev st) [] = st"
  using clean_segs_names [of "rev st" r "[]"] by (auto simp: clean_stack_def list_all_iff)

lemma clean_twice:
  assumes "st = clean_segs (is_abs p) (split_on CHR ''/'' p) []"
  shows "clean_segs (is_abs p) (rev st) [] = st"
proof (cases "is_abs p")
  case True
  then show ?thesis using clean_stack_of [of True p] rooted_names [of st] by (simp add: assms)
next
  case False
  then have "clean_segs False (rev st) [] = clean_segs False (split_on CHR ''/'' p) (clean_segs False (rev []) [])"
    unfolding assms by (simp only: clean_segs_rev [OF clean_stack_Nil split_slash_free])
  then show ?thesis using False by (simp add: assms)
qed

lemma clean_path_stable: "clean_path (clean_path p) = clean_path p"
proof -
  define st where st: "st = clean_segs (is_abs p) (split_on CHR ''/'' p) []"
  have "clean_segs (is_abs p) (split_on CHR ''/'' (clean_path p)) [] = st"
    unfolding split_clean(1) [OF st] by (rule clean_twice [OF st])
  then show ?thesis
    unfolding clean_path_def [of "clean_path p"] split_clean(2) [OF st]
    by (simp add: st clean_path_def [of p])
qed

lemma no_dots_seg: "\<not> contains_sub p ''..'' \<Longrightarrow> s \<in> set (split_on CHR ''/'' p) \<Longrightarrow> \<not> contains_sub s ''..''"
proof (induction p arbitrary: s)
  case (Cons c p)
  then have p: "\<not> contains_sub p ''..''" by simp
  show ?case
  proof (cases "c = CHR ''/''")
    case True
    then show ?thesis using Cons.prems(2) Cons.IH [OF p] by auto
  next
    case False
    obtain h ts where h: "split_on CHR ''/'' p = h # ts" by (cases "split_on CHR ''/'' p") simp_all
    then have "s = c # h \<or> s \<in> set ts" using Cons.prems(2) False by auto
    moreover have "has_prefix p h" using join_split [of "CHR ''/''" p] h by (cases ts) (auto simp: has_prefix_iff)
    moreover have "\<not> contains_sub h ''..''" using Cons.IH [OF p, of h] h by simp
    ultimately show ?thesis
      using Cons.prems(1) Cons.IH [OF p, of s] h by (auto simp: has_prefix_iff)
  qed
qed simp

lemma no_dots_join:
  assumes "\<forall>s\<in>set segs. \<not> contains_sub s ''..''"
  shows "\<not> contains_sub (join ''/'' segs) ''..''"
proof
  assume "contains_sub (join ''/'' segs) ''..''"
  then obtain a b where ab: "join ''/'' segs = a @ ''..'' @ b" by (auto simp: contains_sub_iff)
  show False using assms ab
  proof (induction segs arbitrary: a)
    case (Cons x xs)
    show ?case
    proof (cases xs)
      case Nil
      then show ?thesis using Cons.prems by (auto simp: contains_sub_iff)
    next
      case (Cons y ys)
      then have e: "x @ CHR ''/'' # join ''/'' xs = a @ CHR ''.'' # CHR ''.'' # b" using Cons.prems(2) by simp
      then consider us where "a = x @ us" "us @ ''..'' @ b = CHR ''/'' # join ''/'' xs"
        | us where "x = a @ us" "us @ CHR ''/'' # join ''/'' xs = ''..'' @ b"
        by (auto simp: append_eq_append_conv2)
      then show ?thesis
      proof cases
        case 1
        then obtain us' where "us = CHR ''/'' # us'" by (cases us) auto
        then show ?thesis using 1 Cons.IH [of us'] Cons.prems(1) by simp
      next
        case 2
        then obtain c us' where u: "us = c # us'" by (cases us) auto
        have "\<not> contains_sub x ''..''" using Cons.prems(1) by simp
        then show ?thesis using 2 u by (cases us') (auto simp: contains_sub_iff)
      qed
    qed
  qed simp
qed

lemma clean_no_dots:
  assumes "\<not> contains_sub p ''..''"
  shows "\<not> contains_sub (clean_path p) ''..''"
proof -
  define st where st: "st = clean_segs (is_abs p) (split_on CHR ''/'' p) []"
  have "\<forall>s\<in>set (rev st). \<not> contains_sub s ''..''"
    using clean_segs_set [of "is_abs p" "split_on CHR ''/'' p" "[]"] no_dots_seg [OF assms] by (auto simp: st)
  then have "\<not> contains_sub (join ''/'' (rev st)) ''..''" by (rule no_dots_join)
  then show ?thesis by (simp add: clean_path_def st [symmetric] Let_def has_prefix_def)
qed

subsection \<open>Properties\<close>

subsection \<open>Properties\<close>

text \<open>
  \<open>path.Clean\<close> is idempotent, keeps a path without two adjacent dots free of them, and keeps
  absolute paths absolute.
\<close>

theorem clean_path_normal:
  "clean_path (clean_path p) = clean_path p \<and> is_abs (clean_path p) = is_abs p \<and>
   (contains_sub (clean_path p) ''..'' \<longrightarrow> contains_sub p ''..'')"
  using clean_path_stable clean_no_dots split_clean(2) [OF refl] by blast

theorem clean_path_normal_witness: "clean_path (clean_path ''/a/../b//c/.'') = ''/b/c''"
  using clean_path_normal [of "''/a/../b//c/.''"]
  by (simp add: clean_path_def clean_segs_def clean_seg_def is_abs_def Let_def)

definition path_names :: "string \<Rightarrow> string list" where
  "path_names p = filter (\<lambda>s. s \<noteq> []) (split_on CHR ''/'' p)"

lemma valid_segments_None: "validate_segments segs = None \<longleftrightarrow> (\<forall>s\<in>set segs. s = [] \<or> validate_path_segment s = None)"
  by (induction segs) (auto split: option.splits)

lemma valid_segment_None: "validate_path_segment s = None \<longleftrightarrow> s \<noteq> [] \<and> length s \<le> 64 \<and> list_all seg_char s"
  by (auto simp: validate_path_segment_def validPathSegment_def rx_full_plus seg_char_def is_lower_def is_digit_def)

lemma path_names_Cons: "path_names (CHR ''/'' # p) = path_names p"
  by (simp add: path_names_def)

lemma path_names_snoc: "path_names (p @ ''/'') = path_names p"
proof -
  have "split_on CHR ''/'' (p @ ''/'') = split_on CHR ''/'' p @ [[]]"
  proof (induction p)
    case (Cons c p)
    then show ?case by (cases "split_on CHR ''/'' p") auto
  qed simp
  then show ?thesis by (simp add: path_names_def)
qed

lemma path_names_left: "path_names (dropWhile (\<lambda>c. c = CHR ''/'') p) = path_names p"
  by (induction p) (auto simp: path_names_Cons)

lemma path_names_right: "path_names (rev (dropWhile (\<lambda>c. c = CHR ''/'') (rev p))) = path_names p"
  by (induction p rule: rev_induct) (auto simp: path_names_snoc)

lemma path_names_trim: "path_names (trim_slashes p) = path_names p"
  by (simp add: trim_slashes_def trim_where_def trim_left_where_def trim_right_where_def
      path_names_left path_names_right)

lemma seg_chars_normal: "list_all seg_char s \<Longrightarrow> s \<noteq> [] \<Longrightarrow> normal_seg s \<and> s \<noteq> ''..''"
  by (auto simp: normal_seg_def seg_char_def list_all_iff is_lower_def is_digit_def)

lemma validate_path_names:
  "validate_path p = None \<Longrightarrow> length p \<le> 2048 \<and> \<not> contains_sub p ''..'' \<and>
   (\<forall>s\<in>set (path_names p). length s \<le> 64 \<and> list_all seg_char s \<and> normal_seg s \<and> s \<noteq> ''..'')"
proof -
  assume v: "validate_path p = None"
  then have "validate_segments (split_on CHR ''/'' (trim_slashes p)) = None"
    "length p \<le> 2048" "\<not> contains_sub p ''..''"
    by (simp_all add: validate_path_def split: if_splits)
  moreover have "s \<in> set (path_names p) \<Longrightarrow> s \<in> set (split_on CHR ''/'' (trim_slashes p)) \<and> s \<noteq> []" for s
    unfolding path_names_trim [symmetric, of p] by (simp add: path_names_def)
  ultimately have "length p \<le> 2048" "\<not> contains_sub p ''..''"
    "\<forall>s\<in>set (path_names p). length s \<le> 64 \<and> list_all seg_char s \<and> s \<noteq> []"
    by (auto simp: valid_segments_None valid_segment_None)
  then show ?thesis using seg_chars_normal by blast
qed

lemma clean_segs_filter: "clean_segs r segs st = clean_segs r (filter (\<lambda>s. s \<noteq> []) segs) st"
  by (induction segs arbitrary: st) (auto simp: clean_segs_def clean_seg_def)

lemma stack_of_valid:
  assumes "\<forall>s\<in>set (path_names p). normal_seg s \<and> s \<noteq> ''..''"
  shows "clean_segs r (split_on CHR ''/'' p) st = rev (path_names p) @ st"
  unfolding clean_segs_filter [of r "split_on CHR ''/'' p"] path_names_def [symmetric]
  by (rule clean_segs_names [OF assms])

lemma trim_join_names:
  assumes "\<forall>s\<in>set segs. normal_seg s"
  shows "trim_slashes (join ''/'' segs) = join ''/'' segs" "trim_slashes (CHR ''/'' # join ''/'' segs) = join ''/'' segs"
proof -
  have ends: "join ''/'' segs \<noteq> [] \<Longrightarrow> hd (join ''/'' segs) \<noteq> CHR ''/'' \<and> last (join ''/'' segs) \<noteq> CHR ''/''"
    using assms
  proof (induction segs)
    case (Cons a as)
    then have a: "a \<noteq> []" "CHR ''/'' \<notin> set a" by (simp_all add: normal_seg_def)
    then have e: "hd a \<noteq> CHR ''/''" "last a \<noteq> CHR ''/''" by (metis hd_in_set, metis last_in_set)
    show ?case
    proof (cases as)
      case Nil
      then show ?thesis using e by simp
    next
      case as: (Cons b bs)
      have "b \<noteq> []" using Cons.prems as by (simp add: normal_seg_def)
      then have "join ''/'' as \<noteq> []" using as by (cases bs) simp_all
      then show ?thesis using Cons.IH Cons.prems(2) e a as by simp
    qed
  qed simp
  show t: "trim_slashes (join ''/'' segs) = join ''/'' segs"
  proof (cases "join ''/'' segs = []")
    case False
    then show ?thesis unfolding trim_slashes_def by (rule trim_where_clean) (use ends False in simp_all)
  qed (simp add: trim_slashes_def)
  have "trim_slashes (CHR ''/'' # x) = trim_slashes x" for x
    by (simp add: trim_slashes_def trim_where_def trim_left_where_def)
  then show "trim_slashes (CHR ''/'' # join ''/'' segs) = join ''/'' segs" using t by simp
qed

lemma safe_path_Inr:
  assumes "safe_path p = Inr r"
  shows "r = join ''/'' (path_names p) \<and> validate_path p = None"
proof -
  have v: "validate_path p = None" "r = normalize_path p" using assms by (simp_all add: safe_path_def split: option.splits)
  note names = validate_path_names [OF v(1)]
  define st where st: "st = clean_segs (is_abs p) (split_on CHR ''/'' p) []"
  have s: "rev st = path_names p" unfolding st using stack_of_valid [of p "is_abs p" "[]"] names by auto
  have nd: "\<not> contains_sub (join ''/'' (path_names p)) ''..''"
    using clean_no_dots [of p] names trim_join_names
    by (auto simp: clean_path_def st [symmetric] s Let_def has_prefix_def split: if_splits)
  show ?thesis
  proof (cases "p = []")
    case False
    have "path_names p = [] \<Longrightarrow> is_abs p"
      using False by (cases p) (auto simp: path_names_def is_abs_def split: if_splits list.splits)
    then have "trim_slashes (clean_path p) = join ''/'' (path_names p)"
      using trim_join_names [of "path_names p"] names by (auto simp: clean_path_def st [symmetric] s Let_def)
    then show ?thesis using v False nd by (simp add: normalize_path_def Let_def)
  qed (use v in \<open>simp add: normalize_path_def path_names_def\<close>)
qed

text \<open>
  what \<open>SafePath\<close> accepts: every segment has at most 64 characters of the class and the result is
  the non-empty segments in their order, without slashes at the ends.
\<close>

theorem safe_path_spec:
  assumes "safe_path p = Inr r"
  shows "r = join ''/'' (path_names p) \<and> length p \<le> 2048 \<and>
    (\<forall>s\<in>set (path_names p). length s \<le> 64 \<and> list_all seg_char s)"
  using safe_path_Inr [OF assms] validate_path_names [of p] by blast

lemma safe_path_sample: "safe_path ''/admin//x/'' = Inr ''admin/x''"
  by (simp add: safe_path_def validate_path_def validate_path_segment_def validPathSegment_def rx_full_plus seg_char_def
      normalize_path_def clean_path_def clean_segs_def clean_seg_def is_abs_def trim_slashes_def str_evals)

theorem safe_path_spec_witness: "join ''/'' (path_names ''/admin//x/'') = ''admin/x''"
  using safe_path_spec [OF safe_path_sample] by simp

subsection \<open>Files below a directory\<close>

text \<open>The segments of an absolute form.\<close>

definition abs_segs :: "string option \<Rightarrow> string \<Rightarrow> string list" where
  "abs_segs cwd p =
     (if is_abs p then split_on CHR ''/'' p
      else (case cwd of Some wd \<Rightarrow> split_on CHR ''/'' wd | None \<Rightarrow> []) @ split_on CHR ''/'' p)"

lemma split_join_two: "split_on CHR ''/'' (a @ CHR ''/'' # b) = split_on CHR ''/'' a @ split_on CHR ''/'' b"
proof (induction a)
  case (Cons c a)
  then show ?case by (cases "split_on CHR ''/'' a") auto
qed simp

lemma clean_abs:
  "is_abs p \<Longrightarrow> clean_path p = CHR ''/'' # join ''/'' (rev (clean_segs True (split_on CHR ''/'' p) []))"
  by (simp add: clean_path_def Let_def)

lemma path_join_eq:
  "path_join a b = (if a = [] \<and> b = [] then [] else if a = [] then clean_path b else if b = [] then clean_path a
     else clean_path (a @ CHR ''/'' # b))"
  by (simp add: path_join_def Let_def)

lemma path_abs_segs:
  assumes "\<forall>wd. cwd = Some wd \<longrightarrow> is_abs wd" "is_abs p \<or> cwd \<noteq> None"
  shows "path_abs cwd p = Some (CHR ''/'' # join ''/'' (rev (clean_segs True (abs_segs cwd p) [])))"
proof (cases "is_abs p")
  case True
  then show ?thesis by (simp add: path_abs_def clean_abs abs_segs_def)
next
  case False
  then obtain wd where wd: "cwd = Some wd" "is_abs wd" "wd \<noteq> []" using assms by (auto simp: is_abs_def)
  then have "is_abs (wd @ x)" for x by (cases wd) (simp_all add: is_abs_def)
  then show ?thesis
    using False wd by (simp add: path_abs_def path_join_eq clean_abs abs_segs_def split_join_two clean_segs_append clean_segs_snoc)
qed

lemma abs_segs_clean:
  "clean_segs True (abs_segs cwd (clean_path p)) [] = clean_segs True (abs_segs cwd p) []"
proof -
  define st where st: "st = clean_segs (is_abs p) (split_on CHR ''/'' p) []"
  note sc = split_clean [OF st]
  show ?thesis
  proof (cases "is_abs p")
    case True
    then show ?thesis using sc clean_twice [OF st] by (simp add: abs_segs_def st)
  next
    case False
    have "clean_segs True (rev st) t = clean_segs True (split_on CHR ''/'' p) t" for t
      using clean_segs_rev [OF clean_stack_Nil split_slash_free, of True p t] False by (simp add: st)
    then show ?thesis using False sc by (simp add: abs_segs_def clean_segs_append)
  qed
qed

text \<open>A relative path put behind another one.\<close>

lemma join_segs:
  assumes "\<not> is_abs b"
  shows "clean_segs True (abs_segs cwd (path_join a b)) [] =
    clean_segs True (split_on CHR ''/'' b) (clean_segs True (abs_segs cwd a) [])"
    and "is_abs (path_join a b) = is_abs a"
proof -
  define full where "full = (if a = [] then b else if b = [] then a else a @ CHR ''/'' # b)"
  have j: "path_join a b = (if full = [] then [] else clean_path full)" by (simp add: path_join_eq full_def)
  have af: "is_abs full = is_abs a" using assms by (cases a) (auto simp: full_def is_abs_def)
  show "is_abs (path_join a b) = is_abs a" using af split_clean(2) [OF refl, of full] by (auto simp: j is_abs_def)
  have "clean_segs True (abs_segs cwd (path_join a b)) [] = clean_segs True (abs_segs cwd full) []"
    using abs_segs_clean [of cwd full] by (cases "full = []") (simp_all add: j)
  also have "\<dots> = clean_segs True (split_on CHR ''/'' b) (clean_segs True (abs_segs cwd a) [])"
    using assms by (cases "a = []"; cases "b = []")
      (auto simp: full_def abs_segs_def split_join_two clean_segs_append is_abs_def)
  finally show "clean_segs True (abs_segs cwd (path_join a b)) [] =
    clean_segs True (split_on CHR ''/'' b) (clean_segs True (abs_segs cwd a) [])" .
qed

text \<open>The stack of an absolute form.\<close>

lemma abs_stack: "clean_stack True (clean_segs True (abs_segs cwd p) [])"
  by (rule clean_stack_segs) (auto simp: abs_segs_def dest: split_on_no_sep split: option.splits)

lemma join_names_Nil:
  assumes "\<forall>s\<in>set segs. normal_seg s"
  shows "join ''/'' segs = [] \<longleftrightarrow> segs = []"
proof
  assume "join ''/'' segs = []"
  then show "segs = []" using assms by (cases segs; cases "tl segs") (auto simp: normal_seg_def)
qed simp

lemma split_names: "segs \<noteq> [] \<Longrightarrow> \<forall>s\<in>set segs. normal_seg s \<Longrightarrow> split_on CHR ''/'' (join ''/'' segs) = segs"
  by (rule split_join) (auto simp: normal_seg_def)

lemma join_names_rel: "\<forall>s\<in>set segs. normal_seg s \<Longrightarrow> \<not> is_abs (join ''/'' segs)"
proof
  assume n: "\<forall>s\<in>set segs. normal_seg s" and a: "is_abs (join ''/'' segs)"
  then have "segs \<noteq> []" by (auto simp: is_abs_def)
  then have "[] \<in> set segs" using is_abs_split [OF a] split_names [OF _ n] by (metis list.set_intros(1))
  then show False using n by (auto simp: normal_seg_def)
qed

lemma rooted_normal: "clean_stack True S \<Longrightarrow> \<forall>s\<in>set (rev S). normal_seg s"
  by (simp add: clean_stack_def list_all_iff)

text \<open>
  C17: an accepted path stays below the directory: the result is the absolute form of the directory, a
  slash and the accepted path. Only below the root directory nothing is accepted, because the code
  compares with the prefix of two slashes.
\<close>

theorem safe_file_path_contained:
  assumes "safe_path p = Inr r" "path_abs cwd base = Some absBase" "\<forall>wd. cwd = Some wd \<longrightarrow> is_abs wd"
  shows "safe_file_path cwd base p =
    (if absBase = ''/'' \<and> r \<noteq> [] then Inl ErrPathTraversal
     else Inr (if r = [] then absBase else absBase @ ''/'' @ r))"
proof -
  have r: "r = join ''/'' (path_names p)" using safe_path_Inr [OF assms(1)] by simp
  have names: "\<forall>s\<in>set (path_names p). normal_seg s \<and> s \<noteq> ''..''"
    using safe_path_Inr [OF assms(1)] validate_path_names [of p] by blast
  have ok: "is_abs base \<or> cwd \<noteq> None" using assms(2) by (auto simp: path_abs_def split: if_splits)
  define S where "S = clean_segs True (abs_segs cwd base) []"
  have S: "clean_stack True S" unfolding S_def by (rule abs_stack)
  have base: "absBase = CHR ''/'' # join ''/'' (rev S)"
    using path_abs_segs [OF assms(3) ok] assms(2) by (simp add: S_def)
  have rel: "\<not> is_abs r" using join_names_rel names unfolding r by blast
  have r0: "r = [] \<longleftrightarrow> path_names p = []" unfolding r by (rule join_names_Nil) (use names in blast)
  have "clean_segs True (split_on CHR ''/'' r) S = rev (path_names p) @ S"
    using split_names [of "path_names p"] clean_segs_names [OF names] names r0 by (cases "r = []") (auto simp: r)
  then have "path_abs cwd (path_join base r) = Some (CHR ''/'' # join ''/'' (rev S @ path_names p))"
    using path_abs_segs [OF assms(3), of "path_join base r"] join_segs(1) [OF rel, of cwd base] join_segs(2) [OF rel, of base] ok
    by (simp add: S_def [symmetric])
  then have v: "safe_file_path cwd base p =
      (if CHR ''/'' # join ''/'' (rev S @ path_names p) \<noteq> absBase \<and>
          \<not> has_prefix (CHR ''/'' # join ''/'' (rev S @ path_names p)) (absBase @ ''/'')
       then Inl ErrPathTraversal else Inr (CHR ''/'' # join ''/'' (rev S @ path_names p)))"
    using assms(1,2) by (simp add: safe_file_path_def)
  have root: "absBase = ''/'' \<longleftrightarrow> S = []"
    using join_names_Nil [OF rooted_normal [OF S]] by (simp add: base)
  show ?thesis
  proof (cases "path_names p = []")
    case True
    then show ?thesis using r0 by (simp add: v base)
  next
    case n: False
    show ?thesis
    proof (cases "S = []")
      case True
      have "\<not> has_prefix (CHR ''/'' # r) ''//''" using rel by (cases r) (auto simp: has_prefix_iff is_abs_def)
      then show ?thesis using n True root r0 by (simp add: v r)
    next
      case nS: False
      then have "CHR ''/'' # join ''/'' (rev S @ path_names p) = absBase @ ''/'' @ r"
        using n by (simp add: base r join_append)
      then show ?thesis using n r0 nS root by (simp add: v has_prefix_iff)
    qed
  qed
qed

theorem safe_file_path_contained_witness:
  "safe_file_path (Some ''/srv'') ''data/../conf'' ''/admin//x/'' = Inr ''/srv/conf/admin/x''"
  using safe_file_path_contained [OF safe_path_sample, of "Some ''/srv''" "''data/../conf''" "''/srv/conf''"]
  by (simp add: path_abs_def path_join_eq clean_path_def clean_segs_def clean_seg_def is_abs_def Let_def)

subsection \<open>Boolean values\<close>

text \<open>
  the words for true and for false are disjoint, both readings agree with the parser, and the
  parser forgets case and surrounding space.
\<close>

theorem parse_bool_spec:
  "(parse_bool s d = Inr True \<longleftrightarrow> is_truthy s \<or> trim_space (to_lower s) = [] \<and> d) \<and>
   (parse_bool s d = Inr False \<longleftrightarrow> is_falsy s \<or> trim_space (to_lower s) = [] \<and> \<not> d) \<and>
   \<not> (is_truthy s \<and> is_falsy s) \<and> parse_bool (to_lower s) d = parse_bool s d"
proof -
  have "\<not> (v \<in> set truthyValues \<and> v \<in> set falsyValues)" for v
    unfolding truthyValues_def falsyValues_def by auto
  moreover have "[] \<notin> set truthyValues" "[] \<notin> set falsyValues"
    by (simp_all add: truthyValues_def falsyValues_def)
  ultimately show ?thesis
    by (auto simp: parse_bool_def is_truthy_def is_falsy_def Let_def)
qed

end
