(* ===== verification/Geoip.thy ===== *)
theory Geoip
  imports Net
begin

text \<open>
  The country of an address (\<open>src/src/geoip/geoip.go\<close>, \<open>download.go\<close>): the manager and its database
  readers, the look-up, the access lists of countries, loading, first download and update of the
  database files. The MMDB package is a parameter: an opened reader maps an address to a decoded record
  (\<open>None\<close> is an error), and \<open>openers\<close> maps the content of a file to a reader (\<open>None\<close> is an error).
  Coordinates, which nothing computes with, are kept as texts.
\<close>

subsection \<open>Data\<close>

record database_config =
  db_asn :: bool
  db_country :: bool
  db_city :: bool
  db_whois :: bool

record asn_info =
  an_number :: int
  an_organization :: string

record city_info =
  ci_city :: string
  ci_state1 :: string
  ci_state2 :: string
  ci_country :: string
  ci_postcode :: string
  ci_latitude :: string
  ci_longitude :: string
  ci_timezone :: string

record geo_whois =
  gw_registrant :: string
  gw_asn :: int
  gw_country :: string

record geo_result =
  gr_ip :: string
  gr_asn :: "asn_info option"
  gr_country :: "string option"
  gr_city :: "city_info option"
  gr_whois :: "geo_whois option"

record geo_manager =
  gm_dir :: string
  gm_enabled :: bool
  gm_userAgent :: string
  gm_asnDB :: "(ip \<Rightarrow> asn_info option) option"
  gm_countryDB :: "(ip \<Rightarrow> string option) option"
  gm_cityDBv4 :: "(ip \<Rightarrow> city_info option) option"
  gm_cityDBv6 :: "(ip \<Rightarrow> city_info option) option"
  gm_whoisEnabled :: bool
  gm_lastUpdate :: time

record geo_config =
  gf_enabled :: bool
  gf_dir :: string
  gf_databases :: database_config
  gf_userAgent :: string

subsection \<open>Look-up and access lists\<close>

datatype geo_error = GeoDisabled | InvalidAddress string

definition ask :: "(ip \<Rightarrow> 'r option) option \<Rightarrow> ip \<Rightarrow> 'r option" where
  "ask reader a = (case reader of Some rd \<Rightarrow> rd a | None \<Rightarrow> None)"

definition combined_whois :: "bool \<Rightarrow> asn_info option \<Rightarrow> string option \<Rightarrow> geo_whois option" where
  "combined_whois enabled a c =
     (if enabled \<and> (a \<noteq> None \<or> c \<noteq> None)
      then Some \<lparr>gw_registrant = (case a of Some i \<Rightarrow> an_organization i | None \<Rightarrow> []),
                 gw_asn = (case a of Some i \<Rightarrow> an_number i | None \<Rightarrow> 0), gw_country = opt_or c []\<rparr>
      else None)"

definition geo_lookup :: "geo_manager \<Rightarrow> string \<Rightarrow> geo_error + geo_result" where
  "geo_lookup m ipStr =
     (if \<not> gm_enabled m then Inl GeoDisabled
      else case parse_ip ipStr of
        None \<Rightarrow> Inl (InvalidAddress ipStr)
      | Some a \<Rightarrow>
          (let asn = ask (gm_asnDB m) a;
               country = ask (gm_countryDB m) a;
               city = ask (if to4 a = None then gm_cityDBv6 m else gm_cityDBv4 m) a
           in Inr \<lparr>gr_ip = ipStr, gr_asn = asn, gr_country = country, gr_city = city,
                   gr_whois = combined_whois (gm_whoisEnabled m) asn country\<rparr>))"

definition equal_fold :: "string \<Rightarrow> string \<Rightarrow> bool" where
  "equal_fold a b \<longleftrightarrow> to_lower a = to_lower b"

definition country_code :: "geo_result \<Rightarrow> string" where
  "country_code res =
     (case gr_country res of Some c \<Rightarrow> c
      | None \<Rightarrow> (case gr_city res of Some ci \<Rightarrow> ci_country ci | None \<Rightarrow> []))"

definition is_country_blocked :: "geo_manager \<Rightarrow> string \<Rightarrow> string list \<Rightarrow> string list \<Rightarrow> bool" where
  "is_country_blocked m ipStr deny allow =
     (if \<not> gm_enabled m \<or> deny = [] \<and> allow = [] then False
      else case geo_lookup m ipStr of
        Inl e \<Rightarrow> False
      | Inr res \<Rightarrow>
          (let code = country_code res
           in if code = [] then False
              else if allow \<noteq> [] then \<not> list_ex (\<lambda>c. equal_fold c code) allow
              else list_ex (\<lambda>c. equal_fold c code) deny))"

subsection \<open>Files\<close>

type_synonym files = "string \<Rightarrow> string option"

record openers =
  open_asn :: "string \<Rightarrow> (ip \<Rightarrow> asn_info option) option"
  open_country :: "string \<Rightarrow> (ip \<Rightarrow> string option) option"
  open_city :: "string \<Rightarrow> (ip \<Rightarrow> city_info option) option"

definition load_one :: "bool \<Rightarrow> (string \<Rightarrow> 'r option) \<Rightarrow> files \<Rightarrow> string \<Rightarrow> 'r option \<Rightarrow> 'r option \<times> bool" where
  "load_one wanted op fs path old =
     (if \<not> wanted then (old, True)
      else case fs path of
        None \<Rightarrow> (old, True)
      | Some d \<Rightarrow> (case op d of None \<Rightarrow> (old, False) | Some rd \<Rightarrow> (Some rd, True)))"

definition in_dir :: "string \<Rightarrow> string \<Rightarrow> string" where
  "in_dir d name = d @ ''/'' @ name"

text \<open>The second component names the databases that could not be loaded.\<close>

definition load_databases ::
    "openers \<Rightarrow> files \<Rightarrow> database_config \<Rightarrow> geo_manager \<Rightarrow> geo_manager \<times> string list" where
  "load_databases op fs cfg m =
     (let d = gm_dir m;
          (a, aok) = load_one (db_asn cfg) (open_asn op) fs (in_dir d ''asn.mmdb'') (gm_asnDB m);
          (c, cok) = load_one (db_country cfg) (open_country op) fs (in_dir d ''country.mmdb'') (gm_countryDB m);
          (v4, ok4) = load_one (db_city cfg) (open_city op) fs (in_dir d ''dbip-city-ipv4.mmdb'') (gm_cityDBv4 m);
          (v6, ok6) = load_one (db_city cfg) (open_city op) fs (in_dir d ''dbip-city-ipv6.mmdb'') (gm_cityDBv6 m)
      in (m\<lparr>gm_asnDB := a, gm_countryDB := c, gm_cityDBv4 := v4, gm_cityDBv6 := v6, gm_whoisEnabled := db_whois cfg\<rparr>,
          (if aok then [] else [''ASN'']) @ (if cok then [] else [''country'']) @
          (if ok4 then [] else [''city ipv4'']) @ (if ok6 then [] else [''city ipv6''])))"

definition geoip_download_list :: "database_config \<Rightarrow> (bool \<times> string \<times> string) list" where
  "geoip_download_list cfg =
    [(db_asn cfg, ''asn.mmdb'', ''https://cdn.jsdelivr.net/npm/@ip-location-db/asn-mmdb/asn.mmdb''),
     (db_country cfg, ''country.mmdb'',
       ''https://cdn.jsdelivr.net/npm/@ip-location-db/geo-whois-asn-country-mmdb/geo-whois-asn-country.mmdb''),
     (db_city cfg, ''dbip-city-ipv4.mmdb'',
       ''https://cdn.jsdelivr.net/npm/@ip-location-db/dbip-city-mmdb/dbip-city-ipv4.mmdb''),
     (db_city cfg, ''dbip-city-ipv6.mmdb'',
       ''https://cdn.jsdelivr.net/npm/@ip-location-db/dbip-city-mmdb/dbip-city-ipv6.mmdb'')]"

text \<open>
  What happens to one request, with the user agent it carries: \<open>mm_response\<close> is the status and the body
  (\<open>None\<close> is an error), the other components tell whether the temporary file can be created, written
  and closed, moved to the destination, and whether the destination can be moved on by the caller.
  The temporary file is in the directory for temporary files and never stays.
\<close>

record mmdb_download =
  mm_response :: "string \<Rightarrow> (int \<times> string) option"
  mm_temp_ok :: bool
  mm_copy_ok :: bool
  mm_move_ok :: bool
  mm_replace_ok :: bool

datatype mmdb_error = MmNoResponse | MmStatus int | MmTemp | MmCopy | MmMove | MmRename

definition download_database :: "mmdb_download \<Rightarrow> string \<Rightarrow> string \<Rightarrow> files \<Rightarrow> mmdb_error option \<times> files" where
  "download_database dl path userAgent fs =
     (case mm_response dl (if userAgent = [] then ''caswhois'' else userAgent) of
        None \<Rightarrow> (Some MmNoResponse, fs)
      | Some (status, body) \<Rightarrow>
          if status \<noteq> 200 then (Some (MmStatus status), fs)
          else if \<not> mm_temp_ok dl then (Some MmTemp, fs)
          else if \<not> mm_copy_ok dl then (Some MmCopy, fs)
          else if \<not> mm_move_ok dl then (Some MmMove, fs)
          else (None, fs(path \<mapsto> body)))"

definition ensure_one ::
    "(string \<Rightarrow> mmdb_download) \<Rightarrow> string \<Rightarrow> string \<Rightarrow> bool \<times> string \<times> string \<Rightarrow> files \<Rightarrow> files" where
  "ensure_one net d ua e fs =
     (case e of (enabled, name, url) \<Rightarrow>
        if \<not> enabled \<or> fs (in_dir d name) \<noteq> None then fs
        else snd (download_database (net url) (in_dir d name) ua fs))"

definition ensure_databases :: "(string \<Rightarrow> mmdb_download) \<Rightarrow> database_config \<Rightarrow> geo_manager \<Rightarrow> files \<Rightarrow> files" where
  "ensure_databases net cfg m fs = fold (ensure_one net (gm_dir m) (gm_userAgent m)) (geoip_download_list cfg) fs"

definition update_one ::
    "(string \<Rightarrow> mmdb_download) \<Rightarrow> string \<Rightarrow> string \<Rightarrow> bool \<times> string \<times> string \<Rightarrow>
     (string \<times> mmdb_error) list \<times> files \<Rightarrow> (string \<times> mmdb_error) list \<times> files" where
  "update_one net d ua e st =
     (case e of (enabled, name, url) \<Rightarrow> case st of (errs, fs) \<Rightarrow>
        if \<not> enabled then (errs, fs)
        else let path = in_dir d name; tmp = path @ ''.tmp''
        in case download_database (net url) tmp ua fs of
             (Some er, fs') \<Rightarrow> (errs @ [(name, er)], fs')
           | (None, fs') \<Rightarrow>
               if mm_replace_ok (net url) then (errs, fs'(tmp := None, path := fs' tmp))
               else (errs @ [(name, MmRename)], fs'(tmp := None)))"

definition update_databases ::
    "(string \<Rightarrow> mmdb_download) \<Rightarrow> openers \<Rightarrow> time \<Rightarrow> database_config \<Rightarrow> geo_manager \<Rightarrow> files \<Rightarrow>
     ((string \<times> mmdb_error) list \<times> string list) \<times> geo_manager \<times> files" where
  "update_databases net op now cfg m fs =
     (let (errs, fs') = fold (update_one net (gm_dir m) (gm_userAgent m)) (geoip_download_list cfg) ([], fs);
          (m', lerrs) = load_databases op fs' cfg m
      in ((errs, lerrs), m'\<lparr>gm_lastUpdate := now\<rparr>, fs'))"

text \<open>\<open>None\<close> when the directory cannot be created. Failed downloads and loads are only logged.\<close>

definition new_geoip_manager ::
    "bool \<Rightarrow> (string \<Rightarrow> mmdb_download) \<Rightarrow> openers \<Rightarrow> geo_config \<Rightarrow> files \<Rightarrow> geo_manager option \<times> files" where
  "new_geoip_manager mkdir_ok net op cfg fs =
     (let m = \<lparr>gm_dir = gf_dir cfg, gm_enabled = gf_enabled cfg, gm_userAgent = gf_userAgent cfg, gm_asnDB = None,
               gm_countryDB = None, gm_cityDBv4 = None, gm_cityDBv6 = None,
               gm_whoisEnabled = db_whois (gf_databases cfg), gm_lastUpdate = 0\<rparr>
      in if \<not> gf_enabled cfg then (Some m, fs)
         else if \<not> mkdir_ok then (None, fs)
         else let fs' = ensure_databases net (gf_databases cfg) m fs
              in (Some (fst (load_databases op fs' (gf_databases cfg) m)), fs'))"

text \<open>The number of readers whose closing failed; every reader is forgotten.\<close>

definition geo_close :: "bool \<Rightarrow> bool \<Rightarrow> bool \<Rightarrow> bool \<Rightarrow> geo_manager \<Rightarrow> nat \<times> geo_manager" where
  "geo_close a c v4 v6 m =
     ((if gm_asnDB m \<noteq> None \<and> \<not> a then 1 else 0) + (if gm_countryDB m \<noteq> None \<and> \<not> c then 1 else 0) +
      (if gm_cityDBv4 m \<noteq> None \<and> \<not> v4 then 1 else 0) + (if gm_cityDBv6 m \<noteq> None \<and> \<not> v6 then 1 else 0),
      m\<lparr>gm_asnDB := None, gm_countryDB := None, gm_cityDBv4 := None, gm_cityDBv6 := None\<rparr>)"

subsection \<open>Lemmas\<close>

lemma in_dir_eq [simp]: "in_dir d a = in_dir d b \<longleftrightarrow> a = b" "in_dir d a = in_dir d b @ s \<longleftrightarrow> a = b @ s"
  "in_dir d b @ s = in_dir d a \<longleftrightarrow> a = b @ s"
  by (auto simp: in_dir_def)

definition db_names :: "string list" where
  "db_names = [''asn.mmdb'', ''country.mmdb'', ''dbip-city-ipv4.mmdb'', ''dbip-city-ipv6.mmdb'']"

lemma download_list_names: "map (fst \<circ> snd) (geoip_download_list cfg) = db_names"
  by (simp add: geoip_download_list_def db_names_def)

lemma db_names_tmp: "n \<in> set db_names \<Longrightarrow> n' \<in> set db_names \<Longrightarrow> n \<noteq> n' @ ''.tmp''"
  by (auto simp: db_names_def)

lemma download_database_files:
  "snd (download_database dl path ua fs) q =
     (if q = path \<and> fst (download_database dl path ua fs) = None
      then map_option snd (mm_response dl (if ua = [] then ''caswhois'' else ua)) else fs q)"
  by (auto simp: download_database_def split: option.splits)

definition new_body :: "(string \<Rightarrow> mmdb_download) \<Rightarrow> string \<Rightarrow> string \<Rightarrow> string option" where
  "new_body net ua url = map_option snd (mm_response (net url) (if ua = [] then ''caswhois'' else ua))"

lemma update_one_files:
  assumes "update_one net d ua (enabled, name, url) (errs, fs) = (errs', fs')" "name \<in> set db_names" "n \<in> set db_names"
  shows "(n \<noteq> name \<longrightarrow> fs' (in_dir d n) = fs (in_dir d n)) \<and>
    (\<exists>new. errs' = errs @ new \<and> set (map fst new) \<subseteq> {name} \<and>
      fs' (in_dir d name) = (if enabled \<and> new = [] then new_body net ua url else fs (in_dir d name)))"
proof -
  obtain e gs where d: "download_database (net url) (in_dir d name @ ''.tmp'') ua fs = (e, gs)" by fastforce
  have g: "gs q = (if q = in_dir d name @ ''.tmp'' \<and> e = None then new_body net ua url else fs q)" for q
    using download_database_files [of "net url" "in_dir d name @ ''.tmp''" ua fs q] d by (simp add: new_body_def)
  have t: "n \<noteq> name @ ''.tmp''" "name \<noteq> name @ ''.tmp''" using assms(2,3) db_names_tmp by blast+
  let ?p = "in_dir d name"
  define new where "new = (if \<not> enabled then [] else case e of Some er \<Rightarrow> [(name, er)]
    | None \<Rightarrow> if mm_replace_ok (net url) then [] else [(name, MmRename)])"
  have "errs' = errs @ new" "fs' ?p = (if enabled \<and> new = [] then gs (?p @ ''.tmp'') else if enabled then gs ?p else fs ?p)"
    "n \<noteq> name \<Longrightarrow> fs' (in_dir d n) = (if enabled then gs (in_dir d n) else fs (in_dir d n))"
    using assms(1) d t by (cases enabled; cases e; cases "mm_replace_ok (net url)"; force simp: update_one_def new_def Let_def)+
  moreover have "gs ?p = fs ?p" "gs (in_dir d n) = fs (in_dir d n)" using t by (simp_all add: g)
  moreover have "new = [] \<Longrightarrow> enabled \<Longrightarrow> gs (?p @ ''.tmp'') = new_body net ua url"
    by (cases e) (simp_all add: g new_def)
  moreover have "set (map fst new) \<subseteq> {name}" by (simp add: new_def split: option.split)
  ultimately show ?thesis by auto
qed

lemma update_fold_files:
  assumes "fold (update_one net d ua) es (errs, fs) = (errs', fs')" "set (map (fst \<circ> snd) es) \<subseteq> set db_names"
    and "distinct (map (fst \<circ> snd) es)" "(enabled, name, url) \<in> set es \<or> name \<notin> set (map (fst \<circ> snd) es)" "name \<in> set db_names"
  shows "\<exists>new. errs' = errs @ new \<and> set (map fst new) \<subseteq> set (map (fst \<circ> snd) es) \<and>
    fs' (in_dir d name) = (if name \<in> set (map (fst \<circ> snd) es) \<and> enabled \<and> name \<notin> set (map fst new)
       then new_body net ua url else fs (in_dir d name))"
  using assms
proof (induction es arbitrary: errs fs)
  case (Cons e es)
  obtain en nm u where e: "e = (en, nm, u)" by (cases e) auto
  obtain er1 fs1 where u1: "update_one net d ua e (errs, fs) = (er1, fs1)" by fastforce
  have nm: "nm \<in> set db_names" "nm \<notin> set (map (fst \<circ> snd) es)" using Cons.prems e by auto
  from update_one_files [OF u1 [unfolded e] nm(1) Cons.prems(5)] obtain new1 where
    1: "name \<noteq> nm \<longrightarrow> fs1 (in_dir d name) = fs (in_dir d name)" "er1 = errs @ new1" "set (map fst new1) \<subseteq> {nm}"
      "fs1 (in_dir d nm) = (if en \<and> new1 = [] then new_body net ua u else fs (in_dir d nm))" by blast
  have c: "(enabled, name, url) \<in> set es \<or> name \<notin> set (map (fst \<circ> snd) es)"
    using Cons.prems(4) nm e by auto
  have "fold (update_one net d ua) es (er1, fs1) = (errs', fs')" using Cons.prems(1) u1 by simp
  from Cons.IH [OF this _ _ c Cons.prems(5)] Cons.prems(2,3) obtain new2 where
    2: "errs' = er1 @ new2" "set (map fst new2) \<subseteq> set (map (fst \<circ> snd) es)"
      "fs' (in_dir d name) = (if name \<in> set (map (fst \<circ> snd) es) \<and> enabled \<and> name \<notin> set (map fst new2)
         then new_body net ua url else fs1 (in_dir d name))" by auto
  show ?case
  proof (intro exI conjI)
    show "errs' = errs @ (new1 @ new2)" using 1 2 by simp
    show "set (map fst (new1 @ new2)) \<subseteq> set (map (fst \<circ> snd) (e # es))" using 1(3) 2(2) e by auto
    show "fs' (in_dir d name) = (if name \<in> set (map (fst \<circ> snd) (e # es)) \<and> enabled \<and> name \<notin> set (map fst (new1 @ new2))
       then new_body net ua url else fs (in_dir d name))"
    proof (cases "name = nm")
      case True
      have "en = enabled \<and> u = url" using True Cons.prems(4) nm e by force
      moreover have "name \<notin> set (map fst new2)" using True nm 2(2) by blast
      moreover have "name \<notin> set (map fst new1) \<longleftrightarrow> new1 = []" using 1(3) True by (cases new1) auto
      ultimately show ?thesis using True 1(4) 2(3) nm e by auto
    next
      case False
      then have "name \<notin> set (map fst new1)" using 1(3) by blast
      then show ?thesis using False 1(1) 2(3) e by auto
    qed
  qed
qed simp

subsection \<open>Properties\<close>

text \<open>
  an update replaces a database file as a whole or leaves it alone, and leaves it alone only when the
  database is not wanted or its failure is reported; a failure for one file does not keep the others
  from being replaced.
\<close>

theorem geoip_update_files:
  assumes "update_databases net op now cfg m fs = ((errs, lerrs), m', fs')"
    and "(enabled, name, url) \<in> set (geoip_download_list cfg)"
  shows "fs' (in_dir (gm_dir m) name) =
    (if enabled \<and> name \<notin> set (map fst errs)
     then map_option snd (mm_response (net url) (if gm_userAgent m = [] then ''caswhois'' else gm_userAgent m))
     else fs (in_dir (gm_dir m) name))"
proof -
  have f: "fold (update_one net (gm_dir m) (gm_userAgent m)) (geoip_download_list cfg) ([], fs) = (errs, fs')"
    using assms(1) by (auto simp: update_databases_def Let_def split: prod.splits)
  have n: "name \<in> set (map (fst \<circ> snd) (geoip_download_list cfg))" using assms(2) by force
  have d: "distinct (map (fst \<circ> snd) (geoip_download_list cfg))"
    unfolding download_list_names by (simp add: db_names_def)
  from update_fold_files [OF f _ d, of enabled name url] assms(2) n show ?thesis
    unfolding new_body_def download_list_names by auto
qed

definition sample_manager :: geo_manager where
  "sample_manager = \<lparr>gm_dir = ''geo'', gm_enabled = True, gm_userAgent = [], gm_asnDB = None,
     gm_countryDB = Some (\<lambda>_. Some []), gm_cityDBv4 = Some (\<lambda>_. Some \<lparr>ci_city = [], ci_state1 = [], ci_state2 = [],
       ci_country = ''DE'', ci_postcode = [], ci_latitude = [], ci_longitude = [], ci_timezone = []\<rparr>),
     gm_cityDBv6 = None, gm_whoisEnabled = True, gm_lastUpdate = 0\<rparr>"

definition sample_net :: "string \<Rightarrow> mmdb_download" where
  "sample_net url = \<lparr>mm_response = (\<lambda>_. Some (200, url)), mm_temp_ok = True, mm_copy_ok = True, mm_move_ok = True,
     mm_replace_ok = \<not> has_suffix url ''asn.mmdb''\<rparr>"

definition sample_openers :: openers where
  "sample_openers = \<lparr>open_asn = (\<lambda>_. None), open_country = (\<lambda>c. Some (\<lambda>_. Some c)), open_city = (\<lambda>_. None)\<rparr>"

lemma sample_update:
  "fst (fst (update_databases sample_net sample_openers 0 \<lparr>db_asn = False, db_country = False, db_city = True, db_whois = True\<rparr>
     sample_manager (\<lambda>_. None))) = []"
  by (simp add: update_databases_def geoip_download_list_def update_one_def sample_net_def
      download_database_def sample_manager_def has_suffix_def has_prefix_def Let_def case_prod_unfold)

theorem geoip_update_files_witness:
  "snd (snd (update_databases sample_net sample_openers 0 \<lparr>db_asn = False, db_country = False, db_city = True, db_whois = True\<rparr>
     sample_manager (\<lambda>_. None))) (in_dir ''geo'' ''dbip-city-ipv4.mmdb'') =
   Some ''https://cdn.jsdelivr.net/npm/@ip-location-db/dbip-city-mmdb/dbip-city-ipv4.mmdb''"
proof -
  let ?cfg = "\<lparr>db_asn = False, db_country = False, db_city = True, db_whois = True\<rparr>"
  obtain errs lerrs m' fs' where u: "update_databases sample_net sample_openers 0 ?cfg sample_manager (\<lambda>_. None) = ((errs, lerrs), m', fs')"
    by (metis prod.exhaust)
  have "errs = []" using sample_update by (simp add: u)
  then show ?thesis
    using geoip_update_files [OF u, of True "''dbip-city-ipv4.mmdb''"
        "''https://cdn.jsdelivr.net/npm/@ip-location-db/dbip-city-mmdb/dbip-city-ipv4.mmdb''"]
    by (simp add: u) (simp add: sample_manager_def sample_net_def geoip_download_list_def)
qed

text \<open>
  an address is turned away exactly when its country is known and the allow list is not empty and does
  not name it, or the allow list is empty and the deny list names it. The city database is asked only
  when the country database gives no record: a record without a country lets the address through.
\<close>

theorem country_decision:
  assumes "gm_enabled m" "parse_ip s = Some a"
  shows "is_country_blocked m s deny allow \<longleftrightarrow>
    (\<exists>code. code \<noteq> [] \<and>
       (ask (gm_countryDB m) a = Some code \<or> ask (gm_countryDB m) a = None \<and>
          (\<exists>ci. ask (if to4 a = None then gm_cityDBv6 m else gm_cityDBv4 m) a = Some ci \<and> ci_country ci = code)) \<and>
       (if allow = [] then to_lower code \<in> to_lower ` set deny else to_lower code \<notin> to_lower ` set allow))"
  using assms
  by (auto simp: is_country_blocked_def geo_lookup_def country_code_def equal_fold_def list_ex_iff Let_def image_iff
      split: option.splits if_splits) metis+

theorem country_decision_witness: "\<not> is_country_blocked sample_manager ''203.0.113.9'' [] [''FR'']"
proof -
  have "parse_ip ''203.0.113.9'' = Some (v4in6 @ [203, 0, 113, 9])" by (simp add: str_evals net_evals)
  from country_decision [OF _ this, of sample_manager] show ?thesis
    by (auto simp: sample_manager_def ask_def)
qed

end
