(* ===== verification/HttpGuard.thy ===== *)
theory HttpGuard
  imports Paths RateLimit Geoip Rdap
begin

text \<open>
  What stands between a request and its handler: the middleware chain
  (\<open>src/src/server/middleware.go\<close>, \<open>middleware_i18n.go\<close>, \<open>setupMiddleware\<close> of \<open>server.go\<close>), the trusted
  proxies and the addresses built from a request (\<open>urlvars.go\<close>), the protection against forged requests
  (\<open>csrf.go\<close>), the bearer token (\<open>token_auth.go\<close>) and the error answers (\<open>errors.go\<close>). A handler maps a
  request, what has been written to the response header so far, and a state to a response and a state;
  a middleware maps handlers to handlers. Bodies are given by their content, not their encoding.
\<close>

subsection \<open>Requests and responses\<close>

text \<open>
  \<open>cookie n\<close> is the value of the cookie \<open>n\<close>, \<open>form\<close> and \<open>query\<close> the first values of form fields and of
  the query string; the last three components are the values that middleware puts into the context.
\<close>

record http_request = request +
  rq_method :: string
  rq_path :: string
  rq_rawPath :: string
  rq_rawQuery :: string
  rq_host :: string
  rq_tls :: bool
  rq_cookie :: "string \<Rightarrow> string option"
  rq_form :: "string \<Rightarrow> string"
  rq_query :: "string \<Rightarrow> string"
  ctx_requestID :: string
  ctx_secGPC :: bool
  ctx_lang :: string

datatype same_site = SameSiteLax | SameSiteStrict

record cookie =
  ck_name :: string
  ck_value :: string
  ck_maxAge :: "int option"
  ck_httpOnly :: bool
  ck_secure :: bool
  ck_sameSite :: same_site

record writer =
  w_head :: "(string \<times> string) list"
  w_cookies :: "cookie list"

text \<open>A template is given by its name and the values put into it.\<close>

datatype body =
    NoBody | Text string | JsonError string string | RedirectPage | Page string
  | JsonData json | XmlData "(string \<times> string) list" | Template string "(string \<times> string) list"

record response =
  rs_status :: int
  rs_writer :: writer
  rs_body :: body

type_synonym 's handler = "http_request \<Rightarrow> writer \<Rightarrow> 's \<Rightarrow> response \<times> 's"

definition set_head :: "string \<Rightarrow> string \<Rightarrow> writer \<Rightarrow> writer" where
  "set_head k v w = w\<lparr>w_head := upd k v (w_head w)\<rparr>"

definition get_head :: "string \<Rightarrow> writer \<Rightarrow> string option" where
  "get_head k w = map_of (w_head w) k"

definition set_cookie :: "cookie \<Rightarrow> writer \<Rightarrow> writer" where
  "set_cookie c w = w\<lparr>w_cookies := w_cookies w @ [c]\<rparr>"

text \<open>\<open>http.Error\<close>.\<close>

definition http_error :: "string \<Rightarrow> int \<Rightarrow> writer \<Rightarrow> response" where
  "http_error msg code w =
     \<lparr>rs_status = code,
      rs_writer = set_head ''X-Content-Type-Options'' ''nosniff'' (set_head ''Content-Type'' ''text/plain; charset=utf-8'' w),
      rs_body = Text msg\<rparr>"

subsection \<open>Error answers\<close>

definition map_error_code_to_status :: "string \<Rightarrow> int" where
  "map_error_code_to_status code =
     (if code = ''BAD_REQUEST'' \<or> code = ''VALIDATION_FAILED'' then 400
      else if code = ''UNAUTHORIZED'' \<or> code = ''TOKEN_EXPIRED'' \<or> code = ''TOKEN_INVALID'' then 401
      else if code = ''FORBIDDEN'' \<or> code = ''CSRF_FAILED'' then 403
      else if code = ''NOT_FOUND'' then 404
      else if code = ''METHOD_NOT_ALLOWED'' then 405
      else if code = ''CONFLICT'' then 409
      else if code = ''RATE_LIMITED'' then 429
      else if code = ''MAINTENANCE'' then 503
      else 500)"

definition status_to_error_code :: "int \<Rightarrow> string" where
  "status_to_error_code status =
     (if status = 400 then ''BAD_REQUEST''
      else if status = 401 then ''UNAUTHORIZED''
      else if status = 403 then ''FORBIDDEN''
      else if status = 404 then ''NOT_FOUND''
      else if status = 405 then ''METHOD_NOT_ALLOWED''
      else if status = 409 then ''CONFLICT''
      else if status = 429 then ''RATE_LIMITED''
      else if status = 503 then ''MAINTENANCE''
      else ''SERVER_ERROR'')"

definition send_error :: "string \<Rightarrow> string \<Rightarrow> writer \<Rightarrow> response" where
  "send_error code message w =
     (let status = map_error_code_to_status code;
          w1 = (if status = 429 then set_head ''Retry-After'' ''60'' w else w)
      in \<lparr>rs_status = status, rs_writer = set_head ''Content-Type'' ''application/json'' w1,
          rs_body = JsonError code message\<rparr>)"

definition handle_not_found :: "'s handler" where
  "handle_not_found r w s =
     (if has_prefix (rq_path r) ''/api'' then (send_error ''NOT_FOUND'' ''not found'' w, s)
      else (\<lparr>rs_status = 404, rs_writer = set_head ''Content-Type'' ''text/html; charset=utf-8'' w,
             rs_body = Page ''404 - page not found''\<rparr>, s))"

subsection \<open>Redirects\<close>

text \<open>
  \<open>http.Redirect\<close> leaves a URL with a host (or one that \<open>url.Parse\<close> refuses) alone and cleans the path of
  any other; \<open>url_parses\<close> is the part of \<open>url.Parse\<close> that matters for URLs without a host that start with
  a slash.
\<close>

definition before :: "char \<Rightarrow> string \<Rightarrow> string" where
  "before c s = takeWhile (\<lambda>x. x \<noteq> c) s"

definition after_last :: "char \<Rightarrow> string \<Rightarrow> string" where
  "after_last c s = rev (takeWhile (\<lambda>x. x \<noteq> c) (rev s))"

fun pct_ok :: "string \<Rightarrow> bool" where
  "pct_ok [] \<longleftrightarrow> True"
| "pct_ok (c # s) \<longleftrightarrow>
     (if c = CHR ''%'' then (case s of a # b # t \<Rightarrow> is_hex a \<and> is_hex b \<and> pct_ok t | _ \<Rightarrow> False) else pct_ok s)"

definition url_authority :: "string \<Rightarrow> string" where
  "url_authority url =
     (if has_prefix url ''//'' \<and> \<not> has_prefix url ''///''
      then before CHR ''/'' (before CHR ''?'' (before CHR ''#'' (drop 2 url))) else [])"

definition url_host :: "string \<Rightarrow> string" where
  "url_host url = after_last CHR ''@'' (url_authority url)"

definition userinfo_char :: "char \<Rightarrow> bool" where
  "userinfo_char c \<longleftrightarrow> is_upper c \<or> is_lower c \<or> is_digit c \<or> c \<in> set ''-._:~!$&()*+,;=%@'' \<or> byte c = 39"

definition url_parses :: "string \<Rightarrow> bool" where
  "url_parses url \<longleftrightarrow> list_all (\<lambda>c. 32 \<le> byte c \<and> byte c \<noteq> 127) url \<and>
     pct_ok (before CHR ''?'' (before CHR ''#'' url)) \<and> pct_ok (drop 1 (dropWhile (\<lambda>c. c \<noteq> CHR ''#'') url)) \<and>
     list_all userinfo_char (url_authority url)"

definition hex_escape_non_ascii :: "string \<Rightarrow> string" where
  "hex_escape_non_ascii s =
     concat (map (\<lambda>c. if byte c < 128 then [c] else [CHR ''%'', hex_low (byte c div 16), hex_low (byte c mod 16)]) s)"

definition redirect_location :: "string \<Rightarrow> string" where
  "redirect_location url =
     hex_escape_non_ascii
       (if url_host url \<noteq> [] \<or> \<not> url_parses url then url
        else let p = before CHR ''?'' url; query = dropWhile (\<lambda>c. c \<noteq> CHR ''?'') url; cleaned = clean_path p
             in (if has_suffix p ''/'' \<and> \<not> has_suffix cleaned ''/'' then cleaned @ ''/'' else cleaned) @ query)"

definition http_redirect :: "string \<Rightarrow> int \<Rightarrow> writer \<Rightarrow> response" where
  "http_redirect url code w =
     \<lparr>rs_status = code, rs_writer = set_head ''Location'' (redirect_location url) w, rs_body = RedirectPage\<rparr>"

definition url_normalize :: "'s handler \<Rightarrow> 's handler" where
  "url_normalize next r w s =
     (let path = rq_path r
      in if path = ''/'' then next r w s
         else if has_suffix path ''/'' \<and> CHR ''.'' \<notin> set (CHR ''/'' # after_last CHR ''/'' path) then
           (http_redirect (trim_suffix path ''/'' @ (if rq_rawQuery r \<noteq> [] then ''?'' @ rq_rawQuery r else [])) 301 w, s)
         else next r w s)"

subsection \<open>Request number and path\<close>

text \<open>\<open>random\<close> is the hexadecimal text of 16 random bytes, \<open>None\<close> when there are none.\<close>

definition request_id :: "string option \<Rightarrow> 's handler \<Rightarrow> 's handler" where
  "request_id random next r w s =
     (let given = header r ''X-Request-ID'';
          rid = (if given = [] then opt_or random ''unknown'' else given)
      in next (r\<lparr>ctx_requestID := rid\<rparr>) (set_head ''X-Request-ID'' rid w) s)"

definition path_security :: "'s handler \<Rightarrow> 's handler" where
  "path_security next r w s =
     (let original = rq_path r; rawPath = rq_rawPath r; lower = to_lower rawPath
      in if contains_sub original ''..'' then (http_error ''Invalid path'' 400 w, s)
         else if rawPath \<noteq> [] \<and> (contains_sub lower ''%2e%2e'' \<or> contains_sub lower ''%2e.'' \<or> contains_sub lower ''.%2e'')
         then (http_error ''Invalid path'' 400 w, s)
         else let cleaned = clean_path original
         in if cleaned \<noteq> original then
              next (r\<lparr>rq_path := cleaned, rq_rawPath := (if rawPath \<noteq> [] then clean_path rawPath else rawPath)\<rparr>) w s
            else next r w s)"

definition allowlist :: "'s handler \<Rightarrow> 's handler" where
  "allowlist next r w s = next r w s"

definition blocklist :: "'s handler \<Rightarrow> 's handler" where
  "blocklist next r w s = next r w s"

definition auth_middleware :: "'s handler \<Rightarrow> 's handler" where
  "auth_middleware next r w s = next r w s"

subsection \<open>Trusted proxies\<close>

definition alwaysTrustedCIDRs :: "string list" where
  "alwaysTrustedCIDRs = [''127.0.0.0/8'', ''::1/128'', ''10.0.0.0/8'', ''172.16.0.0/12'', ''192.168.0.0/16'',
     ''fc00::/7'', ''169.254.0.0/16'', ''fe80::/10'']"

definition cidr_has :: "ip \<Rightarrow> string \<Rightarrow> bool" where
  "cidr_has ip cidr = (case parse_cidr cidr of None \<Rightarrow> False | Some n \<Rightarrow> net_contains n ip)"

text \<open>\<open>ip.Equal\<close> on parsed addresses, which always have 16 bytes.\<close>

definition entry_has :: "ip \<Rightarrow> string \<Rightarrow> bool" where
  "entry_has ip entry0 =
     (let entry = trim_space entry0
      in if entry = [] then False
         else if CHR ''/'' \<in> set entry then cidr_has ip entry
         else parse_ip entry = Some ip)"

definition is_trusted_peer :: "string \<Rightarrow> string list \<Rightarrow> bool" where
  "is_trusted_peer peerIP additional =
     (case parse_ip peerIP of None \<Rightarrow> False
      | Some ip \<Rightarrow> list_ex (cidr_has ip) alwaysTrustedCIDRs \<or> list_ex (entry_has ip) additional)"

definition peer_host :: "string \<Rightarrow> string" where
  "peer_host addr = (case split_host_port addr of Some (h, p) \<Rightarrow> h | None \<Rightarrow> addr)"

definition extract_client_ip :: "http_request \<Rightarrow> string list \<Rightarrow> string" where
  "extract_client_ip r additional =
     (let peerHost = peer_host (RemoteAddr r);
          xff = header r ''X-Forwarded-For''; ip = trim_space (before CHR '','' xff);
          xri = header r ''X-Real-IP''
      in if \<not> is_trusted_peer peerHost additional then peerHost
         else if xff \<noteq> [] \<and> parse_ip ip \<noteq> None then ip
         else if xri \<noteq> [] \<and> parse_ip xri \<noteq> None then xri
         else peerHost)"

text \<open>\<open>None\<close> is the missing manager.\<close>

definition geoip_middleware ::
    "geo_manager option \<Rightarrow> string list \<Rightarrow> string list \<Rightarrow> string list \<Rightarrow> 's handler \<Rightarrow> 's handler" where
  "geoip_middleware mgr deny allowed additional next r w s =
     (case mgr of
        None \<Rightarrow> next r w s
      | Some m \<Rightarrow>
          if gm_enabled m \<and> is_country_blocked m (extract_client_ip r additional) deny allowed
          then (http_error ''Access denied'' 403 w, s) else next r w s)"

subsection \<open>Security headers\<close>

definition permissionsPolicy :: string where
  "permissionsPolicy = ''accelerometer=(), ambient-light-sensor=(), battery=(), camera=(), '' @
     ''display-capture=(), geolocation=(), gyroscope=(), hid=(), idle-detection=(), '' @
     ''magnetometer=(), microphone=(), midi=(), screen-wake-lock=(), serial=(), usb=(), '' @
     ''xr-spatial-tracking=(), attribution-reporting=(), browsing-topics=(), '' @
     ''interest-cohort=(), autoplay=(self), encrypted-media=(self), fullscreen=(self), '' @
     ''payment=(self), picture-in-picture=(self), publickey-credentials-get=(self), '' @
     ''storage-access=(self), web-share=(self)''"

definition dquote :: string where
  "dquote = [CHR 0x22]"

definition squoted :: "string \<Rightarrow> string" where
  "squoted s = [CHR 0x27] @ s @ [CHR 0x27]"

definition csp_directive :: "string \<Rightarrow> string" where
  "csp_directive reportURI =
     ''default-src '' @ squoted ''self'' @ ''; script-src '' @ squoted ''self'' @
     ''; style-src '' @ squoted ''self'' @ '' '' @ squoted ''unsafe-inline'' @
     ''; img-src '' @ squoted ''self'' @ '' data: blob: https:; font-src '' @ squoted ''self'' @
     '' https:; connect-src '' @ squoted ''self'' @ ''; media-src '' @ squoted ''self'' @
     '' blob:; worker-src '' @ squoted ''self'' @ '' blob:; manifest-src '' @ squoted ''self'' @
     ''; frame-src '' @ squoted ''self'' @ ''; frame-ancestors '' @ squoted ''self'' @
     ''; base-uri '' @ squoted ''self'' @ ''; form-action '' @ squoted ''self'' @
     ''; object-src '' @ squoted ''none'' @ ''; upgrade-insecure-requests'' @
     (if reportURI \<noteq> [] then ''; report-to default; report-uri '' @ reportURI else [])"

definition fixed_headers :: "(string \<times> string) list" where
  "fixed_headers =
    [(''X-Content-Type-Options'', ''nosniff''), (''X-Frame-Options'', ''SAMEORIGIN''),
     (''X-XSS-Protection'', ''1; mode=block''), (''Referrer-Policy'', ''strict-origin-when-cross-origin''),
     (''X-Permitted-Cross-Domain-Policies'', ''none''), (''Origin-Agent-Cluster'', ''?1''),
     (''Cross-Origin-Opener-Policy'', ''unsafe-none''), (''Cross-Origin-Embedder-Policy'', ''unsafe-none''),
     (''Cross-Origin-Resource-Policy'', ''cross-origin'')]"

definition security_header_list :: "string \<Rightarrow> string \<Rightarrow> bool \<Rightarrow> bool \<Rightarrow> (string \<times> string) list" where
  "security_header_list fqdn apiVersion sslEnabled debugMode =
     (let report = (if fqdn \<noteq> [] then ''https://'' @ fqdn @ ''/api/'' @ apiVersion @ ''/server/reports'' else [])
      in fixed_headers @
         [(if debugMode then ''Content-Security-Policy-Report-Only'' else ''Content-Security-Policy'',
           csp_directive (if fqdn \<noteq> [] then report @ ''/csp'' else [])),
          (''Permissions-Policy'', permissionsPolicy)] @
         (if fqdn \<noteq> [] then
            [(''Reporting-Endpoints'', ''default='' @ dquote @ report @ ''/default'' @ dquote),
             (''Report-To'', ''{'' @ dquote @ ''group'' @ dquote @ '':'' @ dquote @ ''default'' @ dquote @ '','' @ dquote @ ''max_age'' @ dquote @
                '':10886400,'' @ dquote @ ''endpoints'' @ dquote @ '':[{'' @ dquote @ ''url'' @ dquote @ '':'' @ dquote @ report @ ''/default'' @ dquote @ ''}]}''),
             (''NEL'', ''{'' @ dquote @ ''report_to'' @ dquote @ '':'' @ dquote @ ''default'' @ dquote @ '','' @ dquote @ ''max_age'' @ dquote @
                '':2592000,'' @ dquote @ ''include_subdomains'' @ dquote @ '':true}'')]
          else []) @
         (if sslEnabled then [(''Strict-Transport-Security'', ''max-age=63072000; includeSubDomains; preload'')] else []))"

definition security_headers :: "string \<Rightarrow> string \<Rightarrow> bool \<Rightarrow> bool \<Rightarrow> 's handler \<Rightarrow> 's handler" where
  "security_headers fqdn apiVersion sslEnabled debugMode next r w s =
     next (if header r ''Sec-GPC'' = ''1'' then r\<lparr>ctx_secGPC := True\<rparr> else r)
       (fold (\<lambda>(k, v). set_head k v) (security_header_list fqdn apiVersion sslEnabled debugMode) w) s"

definition state_changing :: "string \<Rightarrow> bool" where
  "state_changing m \<longleftrightarrow> m \<in> set [''POST'', ''PUT'', ''PATCH'', ''DELETE'']"

definition sec_fetch_validation :: "'s handler \<Rightarrow> 's handler" where
  "sec_fetch_validation next r w s =
     (if state_changing (rq_method r) then
        (if header r ''Sec-Fetch-Site'' = ''cross-site'' \<and> \<not> has_prefix (header r ''Authorization'') ''Bearer ''
         then (send_error ''FORBIDDEN'' ''Cross-site request rejected'' w, s)
         else if header r ''Sec-Fetch-Mode'' = ''navigate'' \<and> has_prefix (rq_path r) ''/api/''
         then (send_error ''FORBIDDEN'' ''Form navigation to API endpoint rejected'' w, s)
         else next r w s)
      else next r w s)"

subsection \<open>Rate limiting\<close>

text \<open>
  The state is the limiter, \<open>None\<close> for nil; the configured limit and window only reach the headers of
  a refusal.
\<close>

definition rate_limit_middleware :: "time \<Rightarrow> int \<Rightarrow> int \<Rightarrow> limiter option handler \<Rightarrow> limiter option handler" where
  "rate_limit_middleware now limit win next r w s =
     (case s of
        None \<Rightarrow> next r w s
      | Some l \<Rightarrow>
          (case allow now (get_key (request.truncate r)) l of
             (True, l') \<Rightarrow> next r w (Some l')
           | (False, l') \<Rightarrow>
               (send_error ''RATE_LIMITED'' ''Too many requests''
                  (set_head ''Retry-After'' (itoa_int win)
                    (set_head ''X-RateLimit-Window'' (itoa_int win) (set_head ''X-RateLimit-Limit'' (itoa_int limit) w))),
                Some l')))"

subsection \<open>Cross-origin requests\<close>

record cors_config =
  AllowedOrigins :: "string list"
  AllowCredentials :: bool
  MaxAge :: int

definition corsAllowedHeaders :: string where
  "corsAllowedHeaders = ''Content-Type, Accept, X-Requested-With, Authorization, '' @
     ''X-API-Key, X-Api-Key, API-Key, ApiKey, X-Auth-Token, X-Access-Token, '' @
     ''X-Token, Token, X-CSRF-Token, X-XSRF-Token, X-Session-ID, '' @
     ''X-Service-Token, X-Internal-Token''"

text \<open>\<open>domain\<close> is the environment variable. \<open>None\<close> is the wildcard.\<close>

definition resolve_cors_allow_list :: "cors_config \<Rightarrow> string \<Rightarrow> string list \<Rightarrow> http_request \<Rightarrow> string list option" where
  "resolve_cors_allow_list cfg domain trusted r =
     (if list_ex (\<lambda>o1. trim_space o1 = ''*'') (AllowedOrigins cfg) then None
      else let explicit = filter (\<lambda>o1. o1 \<noteq> []) (map trim_space (AllowedOrigins cfg));
               env = (if domain = [] then []
                      else map (\<lambda>d. ''https://'' @ d) (filter (\<lambda>d. d \<noteq> []) (map trim_space (split_on CHR '','' domain))));
               peerHost = fst (opt_or (split_host_port (RemoteAddr r)) ([], []));
               fwdHost = trim_space (header r ''X-Forwarded-Host'');
               learned = (if is_trusted_peer peerHost trusted \<and> fwdHost \<noteq> []
                          then [''https://'' @ fwdHost, ''http://'' @ fwdHost] else []);
               origins = explicit @ env @ learned
           in if origins = [] then None else Some origins)"

definition cors_path :: "string \<Rightarrow> bool" where
  "cors_path p \<longleftrightarrow> has_prefix p ''/api/'' \<or> has_prefix p ''/metrics'' \<or> has_prefix p ''/debug/''"

definition cors_headers :: "cors_config \<Rightarrow> string \<Rightarrow> string list \<Rightarrow> http_request \<Rightarrow> writer \<Rightarrow> writer" where
  "cors_headers cfg domain trusted r w =
     (let origin = header r ''Origin'';
          w1 = (case resolve_cors_allow_list cfg domain trusted r of
                  None \<Rightarrow> set_head ''Access-Control-Allow-Origin'' ''*'' w
                | Some origins \<Rightarrow>
                    if origin \<in> set origins then
                      let w0 = set_head ''Access-Control-Allow-Origin'' origin w
                      in if AllowCredentials cfg then set_head ''Access-Control-Allow-Credentials'' ''true'' w0 else w0
                    else w)
      in set_head ''Access-Control-Max-Age'' (itoa_int (if MaxAge cfg \<le> 0 then 86400 else MaxAge cfg))
           (set_head ''Access-Control-Allow-Headers'' corsAllowedHeaders
             (set_head ''Access-Control-Allow-Methods'' ''GET, POST, PUT, PATCH, DELETE, OPTIONS'' w1)))"

definition cors_middleware :: "cors_config \<Rightarrow> string \<Rightarrow> string list \<Rightarrow> 's handler \<Rightarrow> 's handler" where
  "cors_middleware cfg domain trusted next r w s =
     (if AllowedOrigins cfg = [[]] \<or> \<not> cors_path (rq_path r) then next r w s
      else let w1 = cors_headers cfg domain trusted r w
           in if rq_method r = ''OPTIONS'' then (\<lparr>rs_status = 204, rs_writer = w1, rs_body = NoBody\<rparr>, s)
              else next r w1 s)"

subsection \<open>The language\<close>

definition supported :: "string list" where
  "supported = [''en'', ''es'', ''zh'', ''fr'', ''ar'', ''de'', ''ja'']"

definition is_supported :: "string \<Rightarrow> bool" where
  "is_supported l \<longleftrightarrow> l \<in> set supported"

definition accept_segment :: "string \<Rightarrow> string option" where
  "accept_segment seg0 =
     (let seg = trim_space seg0; lower = to_lower (trim_space (before CHR '';'' seg)); base = before CHR ''-'' lower
      in if seg = [] then None
         else if is_supported lower then Some lower
         else if is_supported base then Some base else None)"

definition parse_accept_language :: "string \<Rightarrow> string" where
  "parse_accept_language h =
     (if h = [] then ''en''
      else (case List.map_filter accept_segment (split_on CHR '','' h) of [] \<Rightarrow> ''en'' | l # _ \<Rightarrow> l))"

definition language_middleware :: "'s handler \<Rightarrow> 's handler" where
  "language_middleware next r w s =
     (let q = rq_query r ''lang'';
          chosen = q \<noteq> [] \<and> is_supported q;
          w1 = (if chosen then set_cookie \<lparr>ck_name = ''lang'', ck_value = q, ck_maxAge = Some (365 * 24 * 60 * 60),
                  ck_httpOnly = True, ck_secure = rq_tls r, ck_sameSite = SameSiteLax\<rparr> w else w);
          lang1 = (if chosen then q else []);
          lang2 = (if lang1 = [] then (case rq_cookie r ''lang'' of Some c \<Rightarrow> if is_supported c then c else [] | None \<Rightarrow> []) else lang1);
          lang3 = (if lang2 = [] then parse_accept_language (header r ''Accept-Language'') else lang2);
          lang4 = (if lang3 = [] then ''en'' else lang3)
      in next (r\<lparr>ctx_lang := lang4\<rparr>) w1 s)"

subsection \<open>The chain\<close>

record guard_config =
  gc_random :: "string option"
  gc_cors :: cors_config
  gc_domain :: string
  gc_trusted :: "string list"
  gc_fqdn :: string
  gc_apiVersion :: string
  gc_tls :: bool
  gc_debug :: bool
  gc_limit :: int
  gc_window :: int
  gc_geoip :: "geo_manager option"
  gc_deny :: "string list"
  gc_allow :: "string list"

text \<open>The innermost middleware records statistics, logs and metrics and is left out.\<close>

definition setup_middleware :: "guard_config \<Rightarrow> time \<Rightarrow> limiter option handler \<Rightarrow> limiter option handler" where
  "setup_middleware gc now h =
     (url_normalize \<circ> request_id (gc_random gc) \<circ> path_security \<circ>
      cors_middleware (gc_cors gc) (gc_domain gc) (gc_trusted gc) \<circ>
      security_headers (gc_fqdn gc) (gc_apiVersion gc) (gc_tls gc) (gc_debug gc) \<circ>
      sec_fetch_validation \<circ> language_middleware \<circ> allowlist \<circ> blocklist \<circ>
      rate_limit_middleware now (gc_limit gc) (gc_window gc) \<circ>
      geoip_middleware (gc_geoip gc) (gc_deny gc) (gc_allow gc) (gc_trusted gc) \<circ>
      auth_middleware) h"

subsection \<open>Tokens against forged requests\<close>

record csrf_config =
  cs_enabled :: bool
  cs_cookieName :: string
  cs_headerName :: string
  cs_tokenLength :: int
  cs_secure :: string
  cs_exemptPaths :: "string list"

definition csrf_cookie_name :: "csrf_config \<Rightarrow> string" where
  "csrf_cookie_name cfg = (if cs_cookieName cfg = [] then ''csrf_token'' else cs_cookieName cfg)"

definition csrf_cookie_secure :: "string \<Rightarrow> http_request \<Rightarrow> bool" where
  "csrf_cookie_secure mode r =
     (if to_lower mode = ''true'' then True else if to_lower mode = ''false'' then False
      else rq_tls r \<or> header r ''X-Forwarded-Proto'' = ''https'')"

text \<open>\<open>random n\<close> is \<open>n\<close> random bytes, \<open>None\<close> when there are none.\<close>

definition generate_csrf_token :: "(nat \<Rightarrow> string option) \<Rightarrow> nat \<Rightarrow> string" where
  "generate_csrf_token random n = hex_encode (opt_or (random n) ''insecure-fallback-token-do-not-use'')"

definition csrf_token :: "csrf_config \<Rightarrow> (nat \<Rightarrow> string option) \<Rightarrow> http_request \<Rightarrow> writer \<Rightarrow> string \<times> writer" where
  "csrf_token cfg random r w =
     (case rq_cookie r (csrf_cookie_name cfg) of
        Some v \<Rightarrow> if v \<noteq> [] then (v, w)
                  else let t = generate_csrf_token random (nat (if cs_tokenLength cfg \<le> 0 then 32 else cs_tokenLength cfg))
                       in (t, set_cookie \<lparr>ck_name = csrf_cookie_name cfg, ck_value = t, ck_maxAge = None, ck_httpOnly = False,
                             ck_secure = csrf_cookie_secure (cs_secure cfg) r, ck_sameSite = SameSiteStrict\<rparr> w)
      | None \<Rightarrow> let t = generate_csrf_token random (nat (if cs_tokenLength cfg \<le> 0 then 32 else cs_tokenLength cfg))
                in (t, set_cookie \<lparr>ck_name = csrf_cookie_name cfg, ck_value = t, ck_maxAge = None, ck_httpOnly = False,
                      ck_secure = csrf_cookie_secure (cs_secure cfg) r, ck_sameSite = SameSiteStrict\<rparr> w))"

definition csrf_bearer_present :: "http_request \<Rightarrow> bool" where
  "csrf_bearer_present r \<longleftrightarrow> has_prefix (header r ''Authorization'') ''Bearer '' \<or> header r ''X-API-Token'' \<noteq> []"

text \<open>\<open>glob\<close> is \<open>path.Match\<close>; a malformed pattern matches nothing.\<close>

definition csrf_exempt :: "(string \<Rightarrow> string \<Rightarrow> bool) \<Rightarrow> csrf_config \<Rightarrow> http_request \<Rightarrow> bool" where
  "csrf_exempt glob cfg r \<longleftrightarrow> list_ex (\<lambda>p. glob p (rq_path r)) (cs_exemptPaths cfg)"

definition csrf_required :: "(string \<Rightarrow> string \<Rightarrow> bool) \<Rightarrow> csrf_config \<Rightarrow> http_request \<Rightarrow> bool" where
  "csrf_required glob cfg r \<longleftrightarrow>
     cs_enabled cfg \<and> state_changing (rq_method r) \<and> to_lower (header r ''Upgrade'') \<noteq> ''websocket'' \<and>
     \<not> csrf_bearer_present r \<and> \<not> csrf_exempt glob cfg r"

definition csrf_valid :: "csrf_config \<Rightarrow> http_request \<Rightarrow> bool" where
  "csrf_valid cfg r \<longleftrightarrow>
     (let headerName = (if cs_headerName cfg = [] then ''X-CSRF-Token'' else cs_headerName cfg);
          submitted = (if header r headerName = [] then rq_form r ''csrf_token'' else header r headerName)
      in case rq_cookie r (csrf_cookie_name cfg) of
           None \<Rightarrow> False
         | Some v \<Rightarrow> v \<noteq> [] \<and> submitted \<noteq> [] \<and> v = submitted)"

definition require_csrf :: "(string \<Rightarrow> string \<Rightarrow> bool) \<Rightarrow> csrf_config \<Rightarrow> 's handler \<Rightarrow> 's handler" where
  "require_csrf glob cfg next r w s =
     (if csrf_required glob cfg r \<and> \<not> csrf_valid cfg r
      then (send_error ''CSRF_FAILED'' ''CSRF token validation failed'' w, s) else next r w s)"

subsection \<open>The bearer token\<close>

definition extract_bearer_token :: "http_request \<Rightarrow> string" where
  "extract_bearer_token r =
     (let auth = header r ''Authorization''
      in if has_prefix auth ''Bearer '' then trim_prefix auth ''Bearer '' else [])"

text \<open>\<open>sha\<close> is SHA-256.\<close>

definition require_token :: "(string \<Rightarrow> string) \<Rightarrow> string \<Rightarrow> 's handler \<Rightarrow> 's handler" where
  "require_token sha serverToken next r w s =
     (let token = extract_bearer_token r;
          w1 = set_head ''WWW-Authenticate'' (''Bearer realm='' @ dquote @ ''caswhois'' @ dquote) w
      in if token = [] then (send_error ''UNAUTHORIZED'' ''Authorization required'' w1, s)
         else if sha token \<noteq> sha serverToken then (send_error ''UNAUTHORIZED'' ''Invalid token'' w1, s)
         else next r w s)"

definition token_hash :: "(string \<Rightarrow> string) \<Rightarrow> string \<Rightarrow> string" where
  "token_hash sha raw = hex_encode (sha raw)"

definition token_prefix :: "string \<Rightarrow> string" where
  "token_prefix raw = take 12 raw"

subsection \<open>Addresses built from a request\<close>

record url_config =
  uc_trusted :: "string list"
  uc_onion :: string
  uc_fqdn :: string
  uc_tls :: bool

definition split_fqdn :: "string \<Rightarrow> string \<times> string" where
  "split_fqdn f = (if CHR '':'' \<in> set f then opt_or (split_host_port f) (f, []) else (f, []))"

definition get_url_vars :: "url_config \<Rightarrow> http_request \<Rightarrow> string \<times> string \<times> string" where
  "get_url_vars cfg r =
     (let peerHost = fst (opt_or (split_host_port (RemoteAddr r)) ([], []));
          trusted = is_trusted_peer peerHost (uc_trusted cfg);
          host = peer_host (rq_host r)
      in if uc_onion cfg \<noteq> [] \<and> host = uc_onion cfg then (''http'', uc_onion cfg, [])
         else
          let f0 = (if \<not> trusted then []
                    else if header r ''X-Forwarded-Host'' \<noteq> [] then trim_space (before CHR '','' (header r ''X-Forwarded-Host''))
                    else if header r ''X-Real-Host'' \<noteq> [] then trim_space (header r ''X-Real-Host'')
                    else trim_space (header r ''X-Original-Host''));
              (f1, port0) = split_fqdn (if f0 = [] then rq_host r else f0);
              fqdn = (if f1 = [] then uc_fqdn cfg else f1);
              p0 = (if \<not> trusted then []
                    else if header r ''X-Forwarded-Proto'' \<noteq> [] then to_lower (trim_space (before CHR '','' (header r ''X-Forwarded-Proto'')))
                    else if header r ''X-Forwarded-Ssl'' = ''on'' then ''https''
                    else to_lower (trim_space (header r ''X-Url-Scheme'')));
              proto = (if p0 = [] then (if uc_tls cfg then ''https'' else ''http'') else p0);
              port1 = (if port0 = [] \<and> trusted then trim_space (header r ''X-Forwarded-Port'') else port0);
              port = (if port1 = ''80'' \<or> port1 = ''443'' then [] else port1)
          in (proto, fqdn, port))"

definition build_url :: "url_config \<Rightarrow> http_request \<Rightarrow> string \<Rightarrow> string" where
  "build_url cfg r urlPath =
     (let (proto, fqdn, port) = get_url_vars cfg r
      in proto @ ''://'' @ fqdn @ (if port = [] then [] else '':'' @ port) @ urlPath)"

subsection \<open>What reaches a handler\<close>

text \<open>Two handlers answer alike on the requests for which \<open>P\<close> holds.\<close>

definition agree :: "(http_request \<Rightarrow> writer \<Rightarrow> bool) \<Rightarrow> 's handler \<Rightarrow> 's handler \<Rightarrow> bool" where
  "agree P h h' \<longleftrightarrow> (\<forall>r w s. P r w \<longrightarrow> h r w s = h' r w s)"

definition path_safe :: "http_request \<Rightarrow> bool" where
  "path_safe r \<longleftrightarrow> \<not> contains_sub (rq_path r) ''..'' \<and> clean_path (rq_path r) = rq_path r"

definition fetch_safe :: "http_request \<Rightarrow> bool" where
  "fetch_safe r \<longleftrightarrow> \<not> (state_changing (rq_method r) \<and>
     (header r ''Sec-Fetch-Site'' = ''cross-site'' \<and> \<not> has_prefix (header r ''Authorization'') ''Bearer '' \<or>
      header r ''Sec-Fetch-Mode'' = ''navigate'' \<and> has_prefix (rq_path r) ''/api/''))"

definition heads_safe :: "writer \<Rightarrow> bool" where
  "heads_safe w \<longleftrightarrow> (\<forall>kv\<in>set fixed_headers. get_head (fst kv) w = Some (snd kv))"

definition guarded :: "http_request \<Rightarrow> writer \<Rightarrow> bool" where
  "guarded r w \<longleftrightarrow> path_safe r \<and> fetch_safe r \<and> heads_safe w \<and> is_supported (ctx_lang r)"

lemma get_set_head [simp]: "get_head k (set_head k' v w) = (if k = k' then Some v else get_head k w)"
  by (simp add: get_head_def set_head_def)

lemma get_set_cookie [simp]: "get_head k (set_cookie c w) = get_head k w"
  by (simp add: get_head_def set_cookie_def)

lemma get_fold_head:
  "distinct (map fst kvs) \<Longrightarrow> get_head k (fold (\<lambda>(k, v). set_head k v) kvs w) =
    (case map_of kvs k of Some v \<Rightarrow> Some v | None \<Rightarrow> get_head k w)"
proof (induction kvs arbitrary: w)
  case (Cons kv kvs)
  obtain k' v where kv: "kv = (k', v)" by fastforce
  show ?case
  proof (cases "k = k'")
    case True
    then have "map_of kvs k = None" using Cons.prems by (auto simp: kv map_of_eq_None_iff image_iff)
    then show ?thesis using Cons True by (simp add: kv)
  next
    case False
    then show ?thesis using Cons by (simp add: kv split: option.split)
  qed
qed simp

lemma security_distinct: "distinct (map fst (security_header_list f a t d))"
  by (cases "f = []"; cases t; cases d) (simp_all add: security_header_list_def fixed_headers_def Let_def)

lemma fixed_mem: "distinct (map fst (xs @ ys)) \<Longrightarrow> kv \<in> set xs \<Longrightarrow> map_of (xs @ ys) (fst kv) = Some (snd kv)"
  by (metis Un_iff map_of_is_SomeI prod.collapse set_append)

lemma security_heads: "heads_safe (fold (\<lambda>(k, v). set_head k v) (security_header_list f a t d) w)"
  unfolding heads_safe_def get_fold_head [OF security_distinct]
  using fixed_mem security_distinct [of f a t d] by (fastforce simp: security_header_list_def Let_def)

lemma accept_supported: "is_supported (parse_accept_language h)"
proof -
  have "accept_segment s = Some l \<Longrightarrow> is_supported l" for s l
    by (auto simp: accept_segment_def Let_def split: if_splits)
  then have "l \<in> set (List.map_filter accept_segment ss) \<Longrightarrow> is_supported l" for l ss
    by (auto simp: List.map_filter_def)
  moreover have "is_supported ''en''" by (simp add: is_supported_def supported_def)
  ultimately show ?thesis by (auto simp: parse_accept_language_def split: list.split) (metis list.set_intros(1))
qed

lemma agree_comp: "agree P h h' \<Longrightarrow> (\<And>h h'. agree P h h' \<Longrightarrow> agree Q (m h) (m h')) \<Longrightarrow> agree Q (m h) (m h')"
  by blast

lemma agree_auth: "agree P h h' \<Longrightarrow> agree P (auth_middleware h) (auth_middleware h')"
  by (simp add: agree_def auth_middleware_def)

lemma agree_geoip: "agree P h h' \<Longrightarrow> agree P (geoip_middleware b d al t h) (geoip_middleware b d al t h')"
  by (simp add: agree_def geoip_middleware_def split: option.split)

lemma agree_limit: "agree P h h' \<Longrightarrow> agree P (rate_limit_middleware n l wi h) (rate_limit_middleware n l wi h')"
  by (simp add: agree_def rate_limit_middleware_def split: option.split prod.split bool.split)

lemma agree_lists: "agree P h h' \<Longrightarrow> agree P (allowlist h) (allowlist h')"
  "agree P h h' \<Longrightarrow> agree P (blocklist h) (blocklist h')"
  by (simp_all add: agree_def allowlist_def blocklist_def)

lemma agree_language:
  "agree guarded h h' \<Longrightarrow> agree (\<lambda>r w. path_safe r \<and> fetch_safe r \<and> heads_safe w) (language_middleware h) (language_middleware h')"
proof -
  assume a: "agree guarded h h'"
  have "is_supported (ctx_lang r') \<Longrightarrow> path_safe r' \<Longrightarrow> fetch_safe r' \<Longrightarrow> heads_safe w' \<Longrightarrow> h r' w' s = h' r' w' s" for r' w' s
    using a by (simp add: agree_def guarded_def)
  moreover have "is_supported ''en''" "\<not> is_supported []" by (simp_all add: is_supported_def supported_def)
  ultimately show ?thesis
    using accept_supported
    by (auto simp: agree_def language_middleware_def Let_def path_safe_def fetch_safe_def heads_safe_def split: option.split)
qed

lemma agree_fetch:
  "agree (\<lambda>r w. path_safe r \<and> fetch_safe r \<and> heads_safe w) h h' \<Longrightarrow>
   agree (\<lambda>r w. path_safe r \<and> heads_safe w) (sec_fetch_validation h) (sec_fetch_validation h')"
  by (auto simp: agree_def sec_fetch_validation_def fetch_safe_def)

lemma agree_security:
  "agree (\<lambda>r w. path_safe r \<and> heads_safe w) h h' \<Longrightarrow>
   agree (\<lambda>r w. path_safe r) (security_headers f a t d h) (security_headers f a t d h')"
  using security_heads by (auto simp: agree_def security_headers_def path_safe_def)

lemma agree_cors:
  "agree (\<lambda>r w. path_safe r) h h' \<Longrightarrow> agree (\<lambda>r w. path_safe r) (cors_middleware c dm t h) (cors_middleware c dm t h')"
  by (auto simp: agree_def cors_middleware_def Let_def)

lemma agree_path:
  "agree (\<lambda>r w. path_safe r) h h' \<Longrightarrow> agree (\<lambda>_ _. True) (path_security h) (path_security h')"
  using clean_path_stable clean_no_dots by (auto simp: agree_def path_security_def Let_def path_safe_def)

lemma agree_outer:
  "agree (\<lambda>_ _. True) h h' \<Longrightarrow> agree (\<lambda>_ _. True) (request_id rnd h) (request_id rnd h')"
  "agree (\<lambda>_ _. True) h h' \<Longrightarrow> agree (\<lambda>_ _. True) (url_normalize h) (url_normalize h')"
  by (auto simp: agree_def request_id_def url_normalize_def Let_def)

text \<open>
  C7: whatever handler the chain protects, it is only called with a clean path without two adjacent
  dots, never for a forged cross-site request that changes state, with the security headers in place,
  and with a supported language: two handlers that agree on such calls give the same server.
\<close>

theorem chain_guards:
  assumes "\<forall>r w s. guarded r w \<longrightarrow> h r w s = h' r w s"
  shows "setup_middleware gc now h = setup_middleware gc now h'"
proof -
  have "agree guarded h h'" using assms by (simp add: agree_def)
  then have "agree (\<lambda>_ _. True) (setup_middleware gc now h) (setup_middleware gc now h')"
    unfolding setup_middleware_def comp_def
    by (intro agree_outer agree_path agree_cors agree_security agree_fetch agree_language agree_lists
        agree_limit agree_geoip agree_auth)
  then show ?thesis by (simp add: agree_def fun_eq_iff)
qed

definition sample_config :: guard_config where
  "sample_config = \<lparr>gc_random = Some ''00'', gc_cors = \<lparr>AllowedOrigins = [''https://a''], AllowCredentials = True, MaxAge = 0\<rparr>,
     gc_domain = [], gc_trusted = [], gc_fqdn = ''whois.example'', gc_apiVersion = ''v1'', gc_tls = True, gc_debug = False,
     gc_limit = 5, gc_window = 30, gc_geoip = Some sample_manager, gc_deny = [''FR''], gc_allow = []\<rparr>"

definition plain_writer :: writer where
  "plain_writer = \<lparr>w_head = [], w_cookies = []\<rparr>"

definition serve :: "limiter option handler" where
  "serve r w s = (\<lparr>rs_status = 200, rs_writer = w, rs_body = Page (rq_path r)\<rparr>, s)"

theorem chain_guards_witness:
  "setup_middleware sample_config 0 (\<lambda>r w s. if contains_sub (rq_path r) ''..'' then (http_error ''read'' 200 w, s) else serve r w s) =
   setup_middleware sample_config 0 serve"
  by (rule chain_guards) (simp add: guarded_def path_safe_def)

definition plain_request :: http_request where
  "plain_request = \<lparr>header = (\<lambda>_. []), RemoteAddr = ''203.0.113.9:4711'', rq_method = ''GET'', rq_path = ''/'', rq_rawPath = [],
     rq_rawQuery = [], rq_host = ''whois.example:8080'', rq_tls = False, rq_cookie = (\<lambda>_. None), rq_form = (\<lambda>_. []), rq_query = (\<lambda>_. []),
     ctx_requestID = [], ctx_secGPC = False, ctx_lang = []\<rparr>"

text \<open>
  a refused request does not reach the handler and says that a retry is due in 60 seconds whatever
  the configuration: \<open>SendError\<close> overwrites the configured window in \<open>Retry-After\<close>.
\<close>

theorem rate_limited_reply:
  assumes "allow now (get_key (request.truncate r)) l = (False, l')"
  shows "\<exists>resp. rate_limit_middleware now limit win h r w (Some l) = (resp, Some l') \<and> rs_status resp = 429 \<and>
    get_head ''Retry-After'' (rs_writer resp) = Some ''60'' \<and>
    get_head ''X-RateLimit-Window'' (rs_writer resp) = Some (itoa_int win)"
  using assms by (simp add: rate_limit_middleware_def send_error_def map_error_code_to_status_def Let_def)

theorem rate_limited_reply_witness:
  "get_head ''Retry-After'' (rs_writer (fst (rate_limit_middleware 0 0 30 serve plain_request plain_writer
     (Some (snd (allow 0 ''203.0.113.9'' (new_limiter 1 30))))))) = Some ''60''"
proof -
  have k: "get_key (request.truncate plain_request) = ''203.0.113.9''"
    by (simp add: get_key_def get_client_ip_def plain_request_def request.truncate_def split_host_port_def Let_def)
  have "allow 0 (get_key (request.truncate plain_request)) (snd (allow 0 ''203.0.113.9'' (new_limiter 1 30))) =
      (False, snd (allow 0 ''203.0.113.9'' (new_limiter 1 30)))"
    by (simp add: k allow_def new_limiter_def Let_def)
  from rate_limited_reply [OF this, of 0 30 serve plain_writer] show ?thesis by auto
qed

text \<open>
  the address of the client is that of the peer, or, for a trusted peer only, one that the proxy
  headers name and that is an address; of an untrusted peer the headers are not read.
\<close>

theorem client_ip_of_untrusted_peer:
  "extract_client_ip r additional = peer_host (RemoteAddr r) \<or>
   is_trusted_peer (peer_host (RemoteAddr r)) additional \<and> parse_ip (extract_client_ip r additional) \<noteq> None"
  by (auto simp: extract_client_ip_def Let_def)

lemma and_255: "(b::nat) < 256 \<Longrightarrow> b AND 255 = b"
proof -
  have m: "(255::nat) = mask 8" by (simp add: mask_eq_exp_minus_1)
  have "b AND mask 8 = b mod 2 ^ 8" by (simp only: take_bit_eq_mask [symmetric] take_bit_eq_mod)
  then have "b AND 255 = b mod 256" unfolding m by simp
  moreover assume "b < 256"
  ultimately show ?thesis by simp
qed

lemma and_240: "(b::nat) < 256 \<Longrightarrow> (b AND 240 = 16) \<longleftrightarrow> 16 \<le> b \<and> b \<le> 31"
proof -
  have m: "(240::nat) = push_bit 4 (mask 4)" by (simp add: push_bit_eq_mult mask_eq_exp_minus_1)
  have "b AND 240 = push_bit 4 (take_bit 4 (drop_bit 4 b))"
    unfolding m by (rule bit_eqI) (auto simp: bit_simps)
  then have "b AND 240 = (b div 16) mod 16 * 16"
    by (simp add: push_bit_eq_mult take_bit_eq_mod drop_bit_eq_div)
  moreover assume "b < 256"
  then have "b div 16 mod 16 = b div 16" by (simp add: less_mult_imp_div_less)
  ultimately have "(b AND 240 = 16) \<longleftrightarrow> b div 16 = 1" by simp
  also have "\<dots> \<longleftrightarrow> 16 \<le> b \<and> b \<le> 31" by linarith
  finally show ?thesis .
qed

lemma trusted_cidrs:
  "parse_cidr ''127.0.0.0/8'' = Some ([127, 0, 0, 0], [255, 0, 0, 0])"
  "parse_cidr ''10.0.0.0/8'' = Some ([10, 0, 0, 0], [255, 0, 0, 0])"
  "parse_cidr ''172.16.0.0/12'' = Some ([172, 16, 0, 0], [255, 240, 0, 0])"
  "parse_cidr ''192.168.0.0/16'' = Some ([192, 168, 0, 0], [255, 255, 0, 0])"
  "parse_cidr ''169.254.0.0/16'' = Some ([169, 254, 0, 0], [255, 255, 0, 0])"
  by (simp_all add: parse_cidr_def is_v4_text_def str_evals net_evals cidr_mask_def and_bytes_def upt_rec)

lemma trusted_v6_cidrs:
  "parse_cidr ''::1/128'' = Some ([0, 0, 0, 0, 0, 0, 0, 0, 0, 0, 0, 0, 0, 0, 0, 1], replicate 16 255)"
  "parse_cidr ''fc00::/7'' = Some (252 # replicate 15 0, 254 # replicate 15 0)"
  "parse_cidr ''fe80::/10'' = Some ([254, 128] @ replicate 14 0, [255, 192] @ replicate 14 0)"
  by (simp_all add: parse_cidr_def is_v4_text_def str_evals net_evals cidr_mask_def and_bytes_def upt_rec)

lemma contains_v4:
  assumes "length num = 4" "length m = 4" "length f = 4"
  shows "net_contains (num, m) (v4in6 @ f) \<longleftrightarrow> and_bytes num m = and_bytes f m"
  using assms by (simp add: net_contains_def net_number_mask_def to4_def)

lemma contains_v6_net:
  assumes "length num = 16" "length m = 16" "take 12 num \<noteq> v4in6" "length f = 4"
  shows "\<not> net_contains (num, m) (v4in6 @ f)"
  using assms by (simp add: net_contains_def net_number_mask_def to4_def)

lemma v6_nets_no_v4:
  assumes "length f = 4"
  shows "\<not> cidr_has (v4in6 @ f) ''::1/128''" "\<not> cidr_has (v4in6 @ f) ''fc00::/7''" "\<not> cidr_has (v4in6 @ f) ''fe80::/10''"
  unfolding cidr_has_def trusted_v6_cidrs option.case
  by (rule contains_v6_net; simp add: assms v4in6_def replicate_numeral_eval)+

lemma trusted_v4:
  assumes "parse_ip peer = Some (v4in6 @ [a, b, c, d])"
  shows "is_trusted_peer peer [] \<longleftrightarrow>
    a = 127 \<or> a = 10 \<or> a = 172 \<and> 16 \<le> b \<and> b \<le> 31 \<or> a = 192 \<and> b = 168 \<or> a = 169 \<and> b = 254"
proof -
  have v: "a < 256" "b < 256" using parse_ip_bytes [OF assms] by simp_all
  have h: "cidr_has (v4in6 @ [a, b, c, d]) s \<longleftrightarrow> and_bytes num m = and_bytes [a, b, c, d] m"
    if "parse_cidr s = Some (num, m)" "length num = 4" "length m = 4" for s num m
    using that by (simp add: cidr_has_def contains_v4)
  have "cidr_has (v4in6 @ [a, b, c, d]) ''127.0.0.0/8'' \<longleftrightarrow> a = 127"
    "cidr_has (v4in6 @ [a, b, c, d]) ''10.0.0.0/8'' \<longleftrightarrow> a = 10"
    "cidr_has (v4in6 @ [a, b, c, d]) ''172.16.0.0/12'' \<longleftrightarrow> a = 172 \<and> 16 \<le> b \<and> b \<le> 31"
    "cidr_has (v4in6 @ [a, b, c, d]) ''192.168.0.0/16'' \<longleftrightarrow> a = 192 \<and> b = 168"
    "cidr_has (v4in6 @ [a, b, c, d]) ''169.254.0.0/16'' \<longleftrightarrow> a = 169 \<and> b = 254"
    using h [OF trusted_cidrs(1)] h [OF trusted_cidrs(2)] h [OF trusted_cidrs(3)] h [OF trusted_cidrs(4)]
      h [OF trusted_cidrs(5)] and_255 [OF v(1)] and_255 [OF v(2)] and_240 [OF v(2)]
    by (auto simp: and_bytes_def)
  then show ?thesis
    using v6_nets_no_v4 [of "[a, b, c, d]"] assms by (simp add: is_trusted_peer_def alwaysTrustedCIDRs_def)
qed

text \<open>
  the IPv4 peers that are trusted without configuration are exactly those of the loopback, private
  and link-local ranges.
\<close>

theorem trusted_v4_ranges:
  assumes "parse_ip peer = Some (v4in6 @ [a, b, c, d])"
  shows "is_trusted_peer peer [] \<longleftrightarrow>
    a = 127 \<or> a = 10 \<or> a = 172 \<and> 16 \<le> b \<and> b \<le> 31 \<or> a = 192 \<and> b = 168 \<or> a = 169 \<and> b = 254"
  by (rule trusted_v4 [OF assms])

theorem trusted_v4_ranges_witness: "is_trusted_peer ''172.20.0.1'' [] \<and> \<not> is_trusted_peer ''172.32.0.1'' []"
proof -
  have "parse_ip ''172.20.0.1'' = Some (v4in6 @ [172, 20, 0, 1])" "parse_ip ''172.32.0.1'' = Some (v4in6 @ [172, 32, 0, 1])"
    by (simp_all add: str_evals net_evals)
  from this [THEN trusted_v4_ranges] show ?thesis by simp
qed

text \<open>
  credentials are allowed only together with the very origin of the request, which is on the
  explicit list, and never with the wildcard.
\<close>

theorem cors_credentials_explicit:
  assumes "get_head ''Access-Control-Allow-Credentials'' w = None"
  shows "get_head ''Access-Control-Allow-Credentials'' (cors_headers cfg domain trusted r w) =
      (case resolve_cors_allow_list cfg domain trusted r of
         Some origins \<Rightarrow> if AllowCredentials cfg \<and> header r ''Origin'' \<in> set origins then Some ''true'' else None
       | None \<Rightarrow> None) \<and>
    (get_head ''Access-Control-Allow-Credentials'' (cors_headers cfg domain trusted r w) \<noteq> None \<longrightarrow>
     get_head ''Access-Control-Allow-Origin'' (cors_headers cfg domain trusted r w) = Some (header r ''Origin''))"
  using assms by (auto simp: cors_headers_def Let_def split: option.splits)

theorem cors_credentials_explicit_witness:
  "get_head ''Access-Control-Allow-Credentials'' (cors_headers (gc_cors sample_config) [] []
     (plain_request\<lparr>header := (\<lambda>n. if n = ''Origin'' then ''https://a'' else [])\<rparr>) plain_writer) = Some ''true''"
  using cors_credentials_explicit [of plain_writer "gc_cors sample_config" "[]" "[]"
      "plain_request\<lparr>header := (\<lambda>n. if n = ''Origin'' then ''https://a'' else [])\<rparr>"]
  by (simp add: plain_writer_def get_head_def resolve_cors_allow_list_def sample_config_def str_evals is_trusted_peer_def)

text \<open>
  a browser that sends back the token it was given, as cookie and in the form, passes the check,
  and no request passes it with a cookie and a submitted value that differ.
\<close>

theorem csrf_roundtrip:
  assumes "csrf_token cfg random r w = (t, w')" "random (nat (if cs_tokenLength cfg \<le> 0 then 32 else cs_tokenLength cfg)) \<noteq> Some []"
    and "header r' (if cs_headerName cfg = [] then ''X-CSRF-Token'' else cs_headerName cfg) = []"
    and "rq_cookie r' (csrf_cookie_name cfg) = Some t"
  shows "csrf_valid cfg r' \<longleftrightarrow> rq_form r' ''csrf_token'' = t"
proof -
  have "hex_encode s \<noteq> []" if "s \<noteq> []" for s using that by (cases s) (simp_all add: hex_encode_def)
  then have "generate_csrf_token random n \<noteq> []" if "random n \<noteq> Some []" for n
    using that by (cases "random n") (auto simp: generate_csrf_token_def)
  then have "t \<noteq> []" using assms(1,2)
    by (auto simp: csrf_token_def Let_def split: option.splits if_split_asm)
  then show ?thesis using assms(3,4) by (auto simp: csrf_valid_def Let_def)
qed

definition sample_csrf :: csrf_config where
  "sample_csrf = \<lparr>cs_enabled = True, cs_cookieName = [], cs_headerName = [], cs_tokenLength = 1, cs_secure = ''auto'', cs_exemptPaths = []\<rparr>"

theorem csrf_roundtrip_witness:
  "csrf_valid sample_csrf (plain_request\<lparr>rq_method := ''POST'', rq_cookie := (\<lambda>_. Some ''61''), rq_form := (\<lambda>_. ''61'')\<rparr>)"
proof -
  have "csrf_token sample_csrf (\<lambda>_. Some ''a'') plain_request plain_writer =
      (''61'', snd (csrf_token sample_csrf (\<lambda>_. Some ''a'') plain_request plain_writer))"
    by (simp add: csrf_token_def sample_csrf_def plain_request_def generate_csrf_token_def hex_encode_def hex_low_def Let_def char_of_eq_iff)
  from csrf_roundtrip [OF this, of "plain_request\<lparr>rq_method := ''POST'', rq_cookie := (\<lambda>_. Some ''61''), rq_form := (\<lambda>_. ''61'')\<rparr>"]
  show ?thesis by (simp add: plain_request_def)
qed

text \<open>
  for a peer that is not trusted the proxy headers do not matter for the addresses that are built,
  and the standard ports never appear in them.
\<close>

theorem url_vars_untrusted:
  assumes "\<not> is_trusted_peer (fst (opt_or (split_host_port (RemoteAddr r)) ([], []))) (uc_trusted cfg)"
  shows "build_url cfg (r\<lparr>header := f\<rparr>) p = build_url cfg r p \<and>
    snd (snd (get_url_vars cfg r)) \<noteq> ''80'' \<and> snd (snd (get_url_vars cfg r)) \<noteq> ''443''"
  using assms by (simp add: build_url_def get_url_vars_def Let_def case_prod_unfold)

definition sample_urls :: url_config where
  "sample_urls = \<lparr>uc_trusted = [], uc_onion = [], uc_fqdn = ''whois.example'', uc_tls = False\<rparr>"

theorem url_vars_untrusted_witness:
  "build_url sample_urls (plain_request\<lparr>header := (\<lambda>_. ''evil'')\<rparr>) ''/x'' = ''http://whois.example:8080/x''"
proof -
  have "\<not> is_trusted_peer (fst (opt_or (split_host_port (RemoteAddr plain_request)) ([], []))) (uc_trusted sample_urls)"
  proof -
    have "fst (opt_or (split_host_port (RemoteAddr plain_request)) ([], [])) = ''203.0.113.9''"
      by (simp add: plain_request_def split_host_port_def Let_def)
    moreover have "parse_ip ''203.0.113.9'' = Some (v4in6 @ [203, 0, 113, 9])" by (simp add: str_evals net_evals)
    moreover have "\<not> is_trusted_peer ''203.0.113.9'' []" using trusted_v4 [OF calculation(2)] by simp
    ultimately show ?thesis by (simp add: sample_urls_def)
  qed
  from url_vars_untrusted [OF this, of "\<lambda>_. ''evil''" "''/x''"] show ?thesis
    using \<open>\<not> _\<close> by (simp add: build_url_def get_url_vars_def Let_def)
      (simp add: plain_request_def sample_urls_def split_fqdn_def split_host_port_def Let_def)
qed

definition host_char :: "char \<Rightarrow> bool" where
  "host_char c \<longleftrightarrow> is_lower c \<or> is_digit c \<or> c = CHR ''.'' \<or> c = CHR ''-''"

lemma host_chars:
  "host_char c \<Longrightarrow> c \<noteq> CHR ''/'' \<and> c \<noteq> CHR ''?'' \<and> c \<noteq> CHR ''#'' \<and> c \<noteq> CHR ''@'' \<and> byte c < 128"
  by (auto simp: host_char_def is_lower_def is_digit_def)

lemma takeWhile_all_eq: "list_all p s \<Longrightarrow> takeWhile p s = s"
  by (induction s) auto

text \<open>
  the redirect that removes a trailing slash sends \<open>//host/\<close> to \<open>//host\<close>, which a browser takes for
  another server: the path is not cleaned before.
\<close>

theorem open_redirect:
  assumes "h \<noteq> []" "list_all host_char h" "rq_path r = ''//'' @ h @ ''/''" "rq_rawQuery r = []"
  shows "url_normalize next r w s = (\<lparr>rs_status = 301, rs_writer = set_head ''Location'' (''//'' @ h) w, rs_body = RedirectPage\<rparr>, s)"
proof -
  have c: "list_all (\<lambda>c. c \<noteq> CHR ''/'' \<and> c \<noteq> CHR ''?'' \<and> c \<noteq> CHR ''#'' \<and> c \<noteq> CHR ''@'' \<and> byte c < 128) h"
    using assms(2) host_chars by (auto simp: list_all_iff)
  have "hd h \<noteq> CHR ''/''" using c assms(1) by (cases h) auto
  then have "\<not> has_prefix (''//'' @ h) ''///''" using assms(1) by (cases h) (auto simp: has_prefix_iff)
  moreover have "before CHR ''/'' h = h" "before CHR ''?'' h = h" "before CHR ''#'' h = h"
    unfolding before_def by (intro takeWhile_all_eq; use c in \<open>auto simp: list_all_iff\<close>)+
  ultimately have "url_authority (''//'' @ h) = h"
    by (simp add: url_authority_def has_prefix_iff)
  moreover have "after_last CHR ''@'' h = h"
    unfolding after_last_def using c by (subst takeWhile_all_eq) (auto simp: list_all_iff)
  ultimately have host: "url_host (''//'' @ h) = h" by (simp add: url_host_def)
  have "concat (map (\<lambda>c. if byte c < 128 then [c] else [CHR ''%'', hex_low (byte c div 16), hex_low (byte c mod 16)]) h) = h"
    using c by (induction h) auto
  then have "redirect_location (''//'' @ h) = ''//'' @ h"
    using host assms(1) by (simp add: redirect_location_def hex_escape_non_ascii_def)
  moreover have "trim_suffix (''//'' @ h @ ''/'') ''/'' = ''//'' @ h" "has_suffix (''//'' @ h @ ''/'') ''/''"
    by (simp_all add: trim_suffix_def has_suffix_def has_prefix_def)
  moreover have "after_last CHR ''/'' (''//'' @ h @ ''/'') = []" by (simp add: after_last_def)
  ultimately show ?thesis
    using assms(3,4) by (simp add: url_normalize_def http_redirect_def)
qed

theorem open_redirect_witness:
  "url_normalize serve (plain_request\<lparr>rq_path := ''//evil.example/''\<rparr>) plain_writer None =
     (\<lparr>rs_status = 301, rs_writer = set_head ''Location'' ''//evil.example'' plain_writer, rs_body = RedirectPage\<rparr>, None)"
  using open_redirect [of "''evil.example''" "plain_request\<lparr>rq_path := ''//evil.example/''\<rparr>" serve plain_writer None]
  by (simp add: host_char_def is_lower_def plain_request_def)

lemma code_status:
  "map_error_code_to_status ''BAD_REQUEST'' = 400" "map_error_code_to_status ''UNAUTHORIZED'' = 401"
  "map_error_code_to_status ''FORBIDDEN'' = 403" "map_error_code_to_status ''NOT_FOUND'' = 404"
  "map_error_code_to_status ''METHOD_NOT_ALLOWED'' = 405" "map_error_code_to_status ''CONFLICT'' = 409"
  "map_error_code_to_status ''RATE_LIMITED'' = 429" "map_error_code_to_status ''MAINTENANCE'' = 503"
  "map_error_code_to_status ''SERVER_ERROR'' = 500"
  by (simp_all add: map_error_code_to_status_def)

lemma status_code:
  "status_to_error_code 400 = ''BAD_REQUEST''" "status_to_error_code 401 = ''UNAUTHORIZED''"
  "status_to_error_code 403 = ''FORBIDDEN''" "status_to_error_code 404 = ''NOT_FOUND''"
  "status_to_error_code 405 = ''METHOD_NOT_ALLOWED''" "status_to_error_code 409 = ''CONFLICT''"
  "status_to_error_code 429 = ''RATE_LIMITED''" "status_to_error_code 503 = ''MAINTENANCE''"
  "status_to_error_code 500 = ''SERVER_ERROR''"
  by (simp_all add: status_to_error_code_def)

text \<open>error codes and statuses are translated consistently in both directions.\<close>

theorem error_codes_roundtrip:
  "status_to_error_code (map_error_code_to_status (status_to_error_code n)) = status_to_error_code n \<and>
   map_error_code_to_status (status_to_error_code (map_error_code_to_status code)) = map_error_code_to_status code"
proof -
  have "status_to_error_code n \<in> set [''BAD_REQUEST'', ''UNAUTHORIZED'', ''FORBIDDEN'', ''NOT_FOUND'', ''METHOD_NOT_ALLOWED'',
      ''CONFLICT'', ''RATE_LIMITED'', ''MAINTENANCE'', ''SERVER_ERROR'']"
    by (simp add: status_to_error_code_def)
  moreover have "map_error_code_to_status code \<in> set [400, 401, 403, 404, 405, 409, 429, 503, 500]"
    by (simp add: map_error_code_to_status_def)
  ultimately show ?thesis
    by (auto simp: code_status status_code)
qed

end
