(* ===== verification/Disk.thy ===== *)
theory Disk
  imports Paths "HOL-Library.Sublist"
begin

text \<open>
  A disk as a tree, for the components that create, read and copy files. Names are absolute paths as the
  Go code builds them; their non-empty segments lead from the root. Links and other special files are
  not part of the model, and access rights only as contents that cannot be read.
\<close>

subsection \<open>Trees\<close>

text \<open>The content of a file is \<open>None\<close> when it cannot be opened or read.\<close>

datatype node = File "string option" | Dir "(string \<times> node) list"

text \<open>Every listing names a file once, and by what can be a segment of a path.\<close>

definition name_ok :: "string \<Rightarrow> bool" where
  "name_ok n \<longleftrightarrow> normal_seg n \<and> n \<noteq> ''..''"

fun tree_ok :: "node \<Rightarrow> bool" where
  "tree_ok (File c) \<longleftrightarrow> True"
| "tree_ok (Dir ns) \<longleftrightarrow> distinct (keys ns) \<and> list_all (\<lambda>(n, t). name_ok n \<and> tree_ok t) ns"

fun node_at :: "node \<Rightarrow> string list \<Rightarrow> node option" where
  "node_at t [] = Some t"
| "node_at (File c) (n # p) = None"
| "node_at (Dir ns) (n # p) = (case map_of ns n of None \<Rightarrow> None | Some t \<Rightarrow> node_at t p)"

definition file_at :: "node \<Rightarrow> string list \<Rightarrow> string option option" where
  "file_at t p = (case node_at t p of Some (File c) \<Rightarrow> Some c | _ \<Rightarrow> None)"

definition dir_at :: "node \<Rightarrow> string list \<Rightarrow> bool" where
  "dir_at t p \<longleftrightarrow> (case node_at t p of Some (Dir ns) \<Rightarrow> True | _ \<Rightarrow> False)"

text \<open>\<open>os.MkdirAll\<close>: fails where a file is in the way.\<close>

fun mkdirs :: "string list \<Rightarrow> node \<Rightarrow> node option" where
  "mkdirs p (File c) = None"
| "mkdirs [] (Dir ns) = Some (Dir ns)"
| "mkdirs (n # p) (Dir ns) =
     map_option (\<lambda>t. Dir (upd n t ns)) (mkdirs p (opt_or (map_of ns n) (Dir [])))"

text \<open>\<open>os.MkdirAll\<close> of the parent directory and \<open>os.Create\<close>: an existing file is replaced.\<close>

fun put_file :: "string list \<Rightarrow> string option \<Rightarrow> node \<Rightarrow> node option" where
  "put_file [] c t = None"
| "put_file (n # p) c (File d) = None"
| "put_file (n # p) c (Dir ns) =
     (if p = [] then
        (case map_of ns n of Some (Dir ms) \<Rightarrow> None | _ \<Rightarrow> Some (Dir (upd n (File c) ns)))
      else map_option (\<lambda>t. Dir (upd n t ns)) (put_file p c (opt_or (map_of ns n) (Dir []))))"

text \<open>\<open>filepath.Walk\<close>: directories come before what is in them; \<open>None\<close> stands for a directory.\<close>

type_synonym walked = "(string list \<times> string option option) list"

lemma size_child [termination_simp]: "(n, t) \<in> set ns \<Longrightarrow> size t < Suc (size_list (size_prod (\<lambda>x. 0) size) ns)"
  by (induction ns) auto

text \<open>\<open>os.RemoveAll\<close> below the root.\<close>

fun remove_all :: "string list \<Rightarrow> node \<Rightarrow> node" where
  "remove_all [] t = t"
| "remove_all (n # p) (File c) = File c"
| "remove_all (n # p) (Dir ns) =
     (case map_of ns n of None \<Rightarrow> Dir ns
      | Some t \<Rightarrow> if p = [] then Dir (del n ns) else Dir (upd n (remove_all p t) ns))"

text \<open>Files and directories are put in place in the order of a walk; the first failure ends it.\<close>

fun place :: "walked \<Rightarrow> node \<Rightarrow> node option \<times> node" where
  "place [] t = (Some t, t)"
| "place ((p, e) # es) t =
     (case (case e of None \<Rightarrow> mkdirs p t | Some c \<Rightarrow> put_file p c t) of
        None \<Rightarrow> (None, t)
      | Some u \<Rightarrow> place es u)"

fun walk :: "string list \<Rightarrow> node \<Rightarrow> walked" where
  "walk p (File c) = [(p, Some c)]"
| "walk p (Dir ns) = (p, None) # concat (map (\<lambda>(n, t). walk (p @ [n]) t) ns)"

subsection \<open>Laws\<close>

lemma node_at_append: "node_at t (p @ q) = (case node_at t p of None \<Rightarrow> None | Some u \<Rightarrow> node_at u q)"
  by (induction t p rule: node_at.induct) (auto split: option.split simp: node_at.simps)

lemma node_at_File [simp]: "node_at (File c) p = (if p = [] then Some (File c) else None)"
  by (cases p) simp_all

lemma file_at_simps [simp]:
  "file_at (File c) [] = Some c" "file_at (File c) (n # p) = None" "file_at (Dir ns) [] = None"
  "file_at (Dir ns) (n # p) = (case map_of ns n of None \<Rightarrow> None | Some t \<Rightarrow> file_at t p)"
  by (simp_all add: file_at_def split: option.split)

lemma dir_at_simps [simp]:
  "\<not> dir_at (File c) p" "dir_at (Dir ns) []"
  "dir_at (Dir ns) (n # p) \<longleftrightarrow> (case map_of ns n of None \<Rightarrow> False | Some t \<Rightarrow> dir_at t p)"
  by (cases p; simp add: dir_at_def) (simp_all add: dir_at_def split: option.split)

text \<open>What a step that makes directories or writes a file changes.\<close>

lemma no_file_below: "file_at (Dir []) r = None" "file_at (File c) r = (if r = [] then Some c else None)"
  by (cases r; simp)+

lemma no_dir_below: "dir_at (Dir []) r \<longleftrightarrow> r = []"
  by (cases r) simp_all

lemma mkdirs_frame:
  "mkdirs p t = Some t' \<Longrightarrow> file_at t' q = file_at t q \<and> (dir_at t' q \<longleftrightarrow> dir_at t q \<or> prefix q p)"
proof (induction p t arbitrary: t' q rule: mkdirs.induct)
  case (3 n p ns)
  then obtain u where u: "mkdirs p (opt_or (map_of ns n) (Dir [])) = Some u" "t' = Dir (upd n u ns)" by auto
  note IH = "3.IH" [OF u(1)]
  show ?case
  proof (cases q)
    case (Cons m r)
    then show ?thesis using IH [of r] u(2) no_file_below(1) [of r] no_dir_below [of r] by (cases "map_of ns m") auto
  qed (simp add: u)
qed auto

lemma put_file_frame:
  "put_file p c t = Some t' \<Longrightarrow>
   file_at t' q = (if q = p then Some c else file_at t q) \<and> (dir_at t' q \<longleftrightarrow> dir_at t q \<or> strict_prefix q p)"
proof (induction p c t arbitrary: t' q rule: put_file.induct)
  case (3 n p c ns)
  show ?case
  proof (cases "p = []")
    case True
    have old: "map_of ns n = None \<or> (\<exists>d. map_of ns n = Some (File d))" and t': "t' = Dir (upd n (File c) ns)"
      using "3.prems" True by (auto split: option.splits node.splits)
    show ?thesis
    proof (cases q)
      case (Cons m r)
      then show ?thesis using old True no_file_below(2) [of c r]
        by (cases "m = n"; cases r) (auto simp: t' strict_prefix_simps)
    qed (simp add: t')
  next
    case False
    then obtain u where u: "put_file p c (opt_or (map_of ns n) (Dir [])) = Some u" "t' = Dir (upd n u ns)" using 3 by auto
    note IH = "3.IH" [OF False u(1)]
    show ?thesis
    proof (cases q)
      case (Cons m r)
      then show ?thesis using IH [of r] u(2) no_file_below(1) [of r] no_dir_below [of r] False
        by (cases "map_of ns m") (auto simp: strict_prefix_simps neq_Nil_conv)
    qed (simp add: u)
  qed
qed auto

text \<open>When such a step succeeds.\<close>

lemma file_at_child: "file_at (opt_or (map_of ns n) (Dir [])) r = file_at (Dir ns) (n # r)"
  by (cases "map_of ns n") (simp_all add: no_file_below)

lemma dir_at_child: "r \<noteq> [] \<Longrightarrow> dir_at (opt_or (map_of ns n) (Dir [])) r = dir_at (Dir ns) (n # r)"
  by (cases "map_of ns n") (simp_all add: no_dir_below)

lemma mkdirs_success: "mkdirs p t \<noteq> None \<longleftrightarrow> (\<forall>q. prefix q p \<longrightarrow> file_at t q = None)"
proof (induction p t rule: mkdirs.induct)
  case (1 p c)
  then show ?case by (metis file_at_simps(1) mkdirs.simps(1) option.distinct(1) prefix_bot.bot_least)
next
  case (3 n p ns)
  have "(\<forall>q. prefix q (n # p) \<longrightarrow> file_at (Dir ns) q = None) \<longleftrightarrow> (\<forall>r. prefix r p \<longrightarrow> file_at (Dir ns) (n # r) = None)"
    by (metis file_at_simps(3) prefix_Cons)
  then show ?case using 3 unfolding file_at_child by simp
qed simp

lemma put_file_success:
  "put_file p c t \<noteq> None \<longleftrightarrow> p \<noteq> [] \<and> (\<forall>q. strict_prefix q p \<longrightarrow> file_at t q = None) \<and> \<not> dir_at t p"
proof (induction p c t rule: put_file.induct)
  case (2 n p c d)
  have "strict_prefix [] (n # p)" "file_at (File d) [] \<noteq> None" by simp_all
  then show ?case by (metis put_file.simps(2))
next
  case (3 n p c ns)
  have f: "(\<forall>q. strict_prefix q (n # p) \<longrightarrow> file_at (Dir ns) q = None) \<longleftrightarrow>
      (\<forall>r. strict_prefix r p \<longrightarrow> file_at (Dir ns) (n # r) = None)"
  proof (intro iffI allI impI)
    fix q assume a: "\<forall>r. strict_prefix r p \<longrightarrow> file_at (Dir ns) (n # r) = None" "strict_prefix q (n # p)"
    then show "file_at (Dir ns) q = None" by (cases q) auto
  next
    fix r assume "\<forall>q. strict_prefix q (n # p) \<longrightarrow> file_at (Dir ns) q = None" "strict_prefix r p"
    then show "file_at (Dir ns) (n # r) = None" by (metis strict_prefix_simps(3))
  qed
  show ?case
  proof (cases "p = []")
    case True
    then show ?thesis unfolding f by (auto split: option.splits node.splits)
  next
    case False
    then show ?thesis using 3 unfolding f file_at_child dir_at_child [OF False] by simp
  qed
qed simp

lemma remove_all_frame:
  "p \<noteq> [] \<Longrightarrow> file_at (remove_all p t) q = (if prefix p q then None else file_at t q) \<and>
    (dir_at (remove_all p t) q \<longleftrightarrow> \<not> prefix p q \<and> dir_at t q)"
proof (induction p t arbitrary: q rule: remove_all.induct)
  case (3 n p ns)
  show ?case
  proof (cases q)
    case q: (Cons m r)
    show ?thesis
    proof (cases "map_of ns n")
      case None
      then show ?thesis by (auto simp: q)
    next
      case (Some t)
      then show ?thesis using "3.IH" [OF Some, of r] by (cases "p = []") (auto simp: q)
    qed
  qed (auto split: option.split)
qed (auto simp: no_file_below)

text \<open>
  A list of files and directories has room on a disk when no file stands where a directory is needed
  and no directory where a file is; it is clash free when its own files stand in nobody's way.
\<close>

definition roomy :: "walked \<Rightarrow> node \<Rightarrow> bool" where
  "roomy es t \<longleftrightarrow> (\<forall>(p, e)\<in>set es. (\<forall>r. strict_prefix r p \<longrightarrow> file_at t r = None) \<and>
     (if e = None then file_at t p = None else p \<noteq> [] \<and> \<not> dir_at t p))"

definition clash_free :: "walked \<Rightarrow> bool" where
  "clash_free es \<longleftrightarrow> (\<forall>(p, e)\<in>set es. \<forall>(p', e')\<in>set es. e \<noteq> None \<longrightarrow> \<not> strict_prefix p p' \<and> (p = p' \<longrightarrow> e' \<noteq> None))"

lemma clash_free_subset: "clash_free es \<Longrightarrow> set es' \<subseteq> set es \<Longrightarrow> clash_free es'"
  unfolding clash_free_def by blast

fun last_write :: "walked \<Rightarrow> string list \<Rightarrow> string option option" where
  "last_write [] q = None"
| "last_write ((p, e) # es) q =
     (case last_write es q of Some c \<Rightarrow> Some c | None \<Rightarrow> if p = q then e else None)"

lemma last_write_mem: "last_write es q = Some c \<Longrightarrow> (q, Some c) \<in> set es"
  by (induction es) (auto split: option.splits if_splits)

lemma last_write_None: "last_write es q = None \<Longrightarrow> (q, Some c) \<notin> set es"
  by (induction es) (auto split: option.splits if_splits)

lemma place_frame:
  "place es t = (Some u, v) \<Longrightarrow> v = u \<and>
   file_at u q = (case last_write es q of Some c \<Rightarrow> Some c | None \<Rightarrow> file_at t q) \<and>
   (dir_at u q \<longleftrightarrow> dir_at t q \<or> (\<exists>(p, e)\<in>set es. if e = None then prefix q p else strict_prefix q p))"
proof (induction es t rule: place.induct)
  case (2 p e es t)
  then obtain t' where t': "(case e of None \<Rightarrow> mkdirs p t | Some c \<Rightarrow> put_file p c t) = Some t'" "place es t' = (Some u, v)"
    by (auto split: option.splits)
  have "file_at t' q = (if p = q \<and> e \<noteq> None then e else file_at t q) \<and>
    (dir_at t' q \<longleftrightarrow> dir_at t q \<or> (if e = None then prefix q p else strict_prefix q p))"
    using t'(1) mkdirs_frame [of p t t' q] put_file_frame [of p _ t t' q] by (auto split: option.splits)
  then show ?case using "2.IH" [OF t'] by (cases "last_write es q"; cases e) auto
qed simp

lemma place_success:
  "roomy es t \<Longrightarrow> clash_free es \<Longrightarrow> \<exists>u. place es t = (Some u, u)"
proof (induction es t rule: place.induct)
  case (2 p e es t)
  have r: "\<forall>r. strict_prefix r p \<longrightarrow> file_at t r = None" "if e = None then file_at t p = None else p \<noteq> [] \<and> \<not> dir_at t p"
    using 2(2) by (simp_all add: roomy_def)
  have "(case e of None \<Rightarrow> mkdirs p t | Some c \<Rightarrow> put_file p c t) \<noteq> None"
  proof (cases e)
    case None
    have "prefix q p \<Longrightarrow> file_at t q = None" for q using r None by (cases "q = p") (auto simp: strict_prefix_def)
    then show ?thesis using None mkdirs_success [of p t] by simp
  next
    case (Some c)
    then show ?thesis using r put_file_success [of p c t] by simp
  qed
  then obtain t' where t': "(case e of None \<Rightarrow> mkdirs p t | Some c \<Rightarrow> put_file p c t) = Some t'" by blast
  have fr: "file_at t' q = (if p = q \<and> e \<noteq> None then e else file_at t q)"
    "dir_at t' q \<longleftrightarrow> dir_at t q \<or> (if e = None then prefix q p else strict_prefix q p)" for q
    using t' mkdirs_frame [of p t t' q] put_file_frame [of p _ t t' q] by (auto split: option.splits)
  have c: "e \<noteq> None \<Longrightarrow> (p', e') \<in> set es \<Longrightarrow> \<not> strict_prefix p p' \<and> (p = p' \<longrightarrow> e' \<noteq> None)"
    "e' \<noteq> None \<Longrightarrow> (p', e') \<in> set es \<Longrightarrow> \<not> strict_prefix p' p \<and> (p = p' \<longrightarrow> e \<noteq> None)" for p' e'
    using 2(3) by (auto simp: clash_free_def)
  have "roomy es t'"
    unfolding roomy_def
  proof (clarify, intro conjI)
    fix p' e' assume m: "(p', e') \<in> set es"
    then have o: "\<forall>r. strict_prefix r p' \<longrightarrow> file_at t r = None" "if e' = None then file_at t p' = None else p' \<noteq> [] \<and> \<not> dir_at t p'"
      using 2(2) by (auto simp: roomy_def)
    show "\<forall>r. strict_prefix r p' \<longrightarrow> file_at t' r = None" using o(1) c(1) [OF _ m] by (auto simp: fr)
    show "if e' = None then file_at t' p' = None else p' \<noteq> [] \<and> \<not> dir_at t' p'"
      using o(2) c(1) [OF _ m] c(2) [OF _ m] by (auto simp: fr strict_prefix_def split: if_splits)
  qed
  moreover have "clash_free es" using clash_free_subset [OF 2(3), of es] by auto
  ultimately show ?case using 2(1) [OF t'] t' by simp
qed simp

text \<open>A walk visits every file and directory below its start once.\<close>

lemma walk_mem:
  "tree_ok t \<Longrightarrow> (q, e) \<in> set (walk p t) \<longleftrightarrow>
    (\<exists>r. q = p @ r \<and> (case e of None \<Rightarrow> dir_at t r | Some c \<Rightarrow> file_at t r = Some c))"
proof (induction p t arbitrary: q rule: walk.induct)
  case (1 p c)
  show ?case by (cases e) (auto simp: no_file_below split: if_splits)
next
  case (2 p ns)
  have k: "distinct (keys ns)" using 2(2) by simp
  have IH: "(n, t) \<in> set ns \<Longrightarrow> (q, e) \<in> set (walk (p @ [n]) t) \<longleftrightarrow>
      (\<exists>r. q = p @ n # r \<and> (case e of None \<Rightarrow> dir_at t r | Some c \<Rightarrow> file_at t r = Some c))" for n t
    using 2(1) [of "(n, t)" n t q] 2(2) by (auto simp: list_all_iff)
  have "(q, e) \<in> set (walk p (Dir ns)) \<longleftrightarrow> (q = p \<and> e = None) \<or>
      (\<exists>(n, t)\<in>set ns. \<exists>r. q = p @ n # r \<and> (case e of None \<Rightarrow> dir_at t r | Some c \<Rightarrow> file_at t r = Some c))"
    using IH by (auto; force)
  also have "\<dots> \<longleftrightarrow> (\<exists>r. q = p @ r \<and> (case e of None \<Rightarrow> dir_at (Dir ns) r | Some c \<Rightarrow> file_at (Dir ns) r = Some c))"
    (is "?l \<longleftrightarrow> ?r")
  proof
    assume ?l
    then show ?r
    proof
      assume "\<exists>(n, t)\<in>set ns. \<exists>r. q = p @ n # r \<and> (case e of None \<Rightarrow> dir_at t r | Some c \<Rightarrow> file_at t r = Some c)"
      then obtain n t r where h: "(n, t) \<in> set ns" "q = p @ n # r" "case e of None \<Rightarrow> dir_at t r | Some c \<Rightarrow> file_at t r = Some c"
        by blast
      then have "map_of ns n = Some t" using k by simp
      then show ?r using h(2,3) by (intro exI [of _ "n # r"]) (cases e; simp)
    qed auto
  next
    assume ?r
    then obtain r where r: "q = p @ r" "case e of None \<Rightarrow> dir_at (Dir ns) r | Some c \<Rightarrow> file_at (Dir ns) r = Some c" by blast
    show ?l
    proof (cases r)
      case Nil
      then show ?thesis using r by (cases e) simp_all
    next
      case (Cons n s)
      then obtain t where t: "map_of ns n = Some t" "case e of None \<Rightarrow> dir_at t s | Some c \<Rightarrow> file_at t s = Some c"
        using r(2) by (cases e; cases "map_of ns n") auto
      then show ?thesis using r(1) Cons map_of_SomeD [OF t(1)] by blast
    qed
  qed
  finally show ?case .
qed

text \<open>Names stay well formed.\<close>

lemma set_upd: "x \<in> set (upd k v m) \<Longrightarrow> x = (k, v) \<or> x \<in> set m"
  by (induction k v m rule: upd.induct) (auto split: if_splits)

lemma tree_ok_upd: "tree_ok (Dir ns) \<Longrightarrow> tree_ok t \<Longrightarrow> name_ok n \<Longrightarrow> tree_ok (Dir (upd n t ns))"
  by (auto simp: list_all_iff distinct_upd dest!: set_upd)

lemma tree_ok_child: "tree_ok (Dir ns) \<Longrightarrow> tree_ok (opt_or (map_of ns n) (Dir []))"
  by (cases "map_of ns n") (auto simp: list_all_iff dest: map_of_SomeD)

lemma mkdirs_ok: "mkdirs p t = Some t' \<Longrightarrow> tree_ok t \<Longrightarrow> \<forall>n\<in>set p. name_ok n \<Longrightarrow> tree_ok t'"
proof (induction p t arbitrary: t' rule: mkdirs.induct)
  case (3 n p ns)
  then obtain u where u: "mkdirs p (opt_or (map_of ns n) (Dir [])) = Some u" "t' = Dir (upd n u ns)" by auto
  have "tree_ok u" using "3.IH" [OF u(1)] 3 tree_ok_child [of ns n] by auto
  then show ?case using tree_ok_upd [of ns u n] 3 u(2) by simp
qed auto

lemma put_file_ok: "put_file p c t = Some t' \<Longrightarrow> tree_ok t \<Longrightarrow> \<forall>n\<in>set p. name_ok n \<Longrightarrow> tree_ok t'"
proof (induction p c t arbitrary: t' rule: put_file.induct)
  case (3 n p c ns)
  show ?case
  proof (cases "p = []")
    case True
    then have "t' = Dir (upd n (File c) ns)" using 3 by (auto split: option.splits node.splits)
    then show ?thesis using tree_ok_upd [of ns "File c" n] 3 by simp
  next
    case False
    then obtain u where u: "put_file p c (opt_or (map_of ns n) (Dir [])) = Some u" "t' = Dir (upd n u ns)" using 3 by auto
    have "tree_ok u" using "3.IH" [OF False u(1)] 3 tree_ok_child [of ns n] by auto
    then show ?thesis using tree_ok_upd [of ns u n] 3 u(2) by simp
  qed
qed auto

lemma tree_ok_del: "tree_ok (Dir ns) \<Longrightarrow> tree_ok (Dir (del n ns))"
  by (auto simp: list_all_iff del_def intro: distinct_filter_keys)

lemma remove_all_ok: "tree_ok t \<Longrightarrow> tree_ok (remove_all p t)"
proof (induction p t rule: remove_all.induct)
  case (3 n p ns)
  show ?case
  proof (cases "map_of ns n")
    case (Some t)
    then have m: "(n, t) \<in> set ns" by (rule map_of_SomeD)
    then have n: "name_ok n" "tree_ok t" using 3(2) by (auto simp: list_all_iff)
    show ?thesis using 3 Some n tree_ok_upd [of ns "remove_all p t" n] tree_ok_del [of ns n] by auto
  qed (use 3 in simp)
qed simp_all

lemma tree_ok_node_at: "tree_ok t \<Longrightarrow> node_at t p = Some u \<Longrightarrow> tree_ok u"
proof (induction t p rule: node_at.induct)
  case (3 ns n p)
  then show ?case by (auto simp: list_all_iff split: option.splits dest: map_of_SomeD)
qed auto

lemma file_at_node: "node_at t p = Some u \<Longrightarrow> file_at t (p @ q) = file_at u q \<and> dir_at t (p @ q) = dir_at u q"
  by (simp add: file_at_def dir_at_def node_at_append)

lemma node_at_cases: "node_at t p \<noteq> None \<longleftrightarrow> file_at t p \<noteq> None \<or> dir_at t p"
  by (auto simp: file_at_def dir_at_def split: option.split node.split)

lemma file_not_dir: "file_at t p = Some c \<Longrightarrow> \<not> dir_at t p"
  by (auto simp: file_at_def dir_at_def split: option.splits node.splits)

text \<open>Above a file or a directory there are only directories.\<close>

lemma above_dir: "node_at t (p @ q) \<noteq> None \<Longrightarrow> q \<noteq> [] \<Longrightarrow> dir_at t p \<and> file_at t p = None"
  by (auto simp: node_at_append dir_at_def file_at_def split: option.splits node.splits)

lemma above_strict: "node_at t q \<noteq> None \<Longrightarrow> strict_prefix p q \<Longrightarrow> dir_at t p \<and> file_at t p = None"
  using above_dir [of t p] by (auto simp: strict_prefix_def prefix_def)

lemma place_ok:
  "place es t = (Some u, v) \<Longrightarrow> tree_ok t \<Longrightarrow> \<forall>pe\<in>set es. \<forall>s\<in>set (fst pe). name_ok s \<Longrightarrow> tree_ok u"
proof (induction es t rule: place.induct)
  case (2 p e es t)
  then obtain t' where t': "(case e of None \<Rightarrow> mkdirs p t | Some c \<Rightarrow> put_file p c t) = Some t'" "place es t' = (Some u, v)"
    by (auto split: option.splits)
  then have "tree_ok t'" using 2(3,4) mkdirs_ok [of p t t'] put_file_ok [of p _ t t'] by (auto split: option.splits)
  then show ?case using "2.IH" [OF t'] 2(4) by simp
qed simp

text \<open>A file can be written in two steps: the directories above it, and the file.\<close>

lemma upd_upd: "upd k v (upd k w m) = upd k v m"
  by (induction k w m rule: upd.induct) auto

lemma put_file_steps: "put_file p c t = Some u \<Longrightarrow> \<exists>t'. mkdirs (butlast p) t = Some t' \<and> put_file p c t' = Some u"
proof (induction p c t arbitrary: u rule: put_file.induct)
  case (3 n p c ns)
  show ?case
  proof (cases "p = []")
    case False
    then obtain v where v: "put_file p c (opt_or (map_of ns n) (Dir [])) = Some v" "u = Dir (upd n v ns)" using 3 by auto
    then obtain t' where "mkdirs (butlast p) (opt_or (map_of ns n) (Dir [])) = Some t'" "put_file p c t' = Some v"
      using "3.IH" [OF False] by blast
    then show ?thesis using False v(2) by (simp add: upd_upd)
  qed (use 3 in simp)
qed auto

lemma butlast_prefix: "prefix q (butlast p) \<Longrightarrow> prefix q p"
  by (metis butlast.simps(1) append_butlast_last_id prefix_prefix)

text \<open>What stands elsewhere stays, with everything below it.\<close>

lemma mkdirs_parallel: "mkdirs p t = Some t' \<Longrightarrow> p \<parallel> q \<Longrightarrow> node_at t' q = node_at t q"
proof (induction p t arbitrary: t' q rule: mkdirs.induct)
  case (3 n p ns)
  then obtain u where u: "mkdirs p (opt_or (map_of ns n) (Dir [])) = Some u" "t' = Dir (upd n u ns)" by auto
  obtain m r where q: "q = m # r" using 3(3) by (cases q) auto
  show ?case
  proof (cases "m = n")
    case True
    then have pr: "p \<parallel> r" using 3(3) q by (auto simp: parallel_def)
    then have "node_at (Dir []) r = None" by (cases r) auto
    then show ?thesis using "3.IH" [OF u(1) pr] True by (cases "map_of ns n") (auto simp: q u(2))
  qed (simp add: q u(2))
qed auto

lemma put_file_parallel: "put_file p c t = Some t' \<Longrightarrow> p \<parallel> q \<Longrightarrow> node_at t' q = node_at t q"
proof (induction p c t arbitrary: t' q rule: put_file.induct)
  case (3 n p c ns)
  obtain m r where q: "q = m # r" using 3(3) by (cases q) auto
  show ?case
  proof (cases "p = []")
    case True
    then show ?thesis using 3 q by (auto simp: parallel_def split: option.splits node.splits)
  next
    case False
    then obtain u where u: "put_file p c (opt_or (map_of ns n) (Dir [])) = Some u" "t' = Dir (upd n u ns)" using 3 by auto
    show ?thesis
    proof (cases "m = n")
      case True
      then have pr: "p \<parallel> r" using 3(3) q by (auto simp: parallel_def)
      then have "node_at (Dir []) r = None" by (cases r) auto
      then show ?thesis using "3.IH" [OF False u(1) pr] True by (cases "map_of ns n") (auto simp: q u(2))
    qed (simp add: q u(2))
  qed
qed auto

lemma place_parallel:
  "place es t = (Some u, v) \<Longrightarrow> \<forall>pe\<in>set es. fst pe \<parallel> q \<Longrightarrow> node_at u q = node_at t q"
proof (induction es t rule: place.induct)
  case (2 p e es t)
  then obtain t' where t': "(case e of None \<Rightarrow> mkdirs p t | Some c \<Rightarrow> put_file p c t) = Some t'" "place es t' = (Some u, v)"
    by (auto split: option.splits)
  have "node_at t' q = node_at t q"
    using t'(1) 2(3) mkdirs_parallel [of p t t' q] put_file_parallel [of p _ t t' q] by (auto split: option.splits)
  then show ?case using "2.IH" [OF t'] 2(3) by simp
qed simp

lemma place_append: "place (xs @ ys) t = (case place xs t of (Some u, v) \<Rightarrow> place ys u | (None, v) \<Rightarrow> (None, v))"
  by (induction xs t rule: place.induct) (auto split: option.split)

text \<open>Two disks with the same files and directories, possibly only outside of a directory.\<close>

definition same_disk :: "node \<Rightarrow> node \<Rightarrow> bool" where
  "same_disk t t' \<longleftrightarrow> (\<forall>p. file_at t' p = file_at t p \<and> dir_at t' p = dir_at t p)"

definition same_outside :: "string list \<Rightarrow> node \<Rightarrow> node \<Rightarrow> bool" where
  "same_outside d t t' \<longleftrightarrow> (\<forall>p. \<not> prefix d p \<longrightarrow> file_at t' p = file_at t p \<and> dir_at t' p = dir_at t p)"

lemma same_disk_refl [simp]: "same_disk t t" "same_outside d t t"
  by (simp_all add: same_disk_def same_outside_def)

lemma same_disk_trans: "same_disk t u \<Longrightarrow> same_disk u v \<Longrightarrow> same_disk t v"
  by (simp add: same_disk_def)

lemma same_outside_trans: "same_outside d t u \<Longrightarrow> same_outside d u v \<Longrightarrow> same_outside d t v"
  by (simp add: same_outside_def)

text \<open>The list of a walk is distinct, moves with its start and is free of clashes.\<close>

lemma walk_shift: "walk (a @ p) t = map (apfst ((@) a)) (walk p t)"
proof (induction p t rule: walk.induct)
  case (2 p ns)
  have "concat (map (\<lambda>(n, t). walk ((a @ p) @ [n]) t) ns) = concat (map (\<lambda>(n, t). map (apfst ((@) a)) (walk (p @ [n]) t)) ns)"
    using 2 by (intro arg_cong [where f = concat] map_cong) auto
  then show ?case by (simp add: map_concat comp_def case_prod_unfold)
qed simp

lemma distinct_walk: "tree_ok t \<Longrightarrow> distinct (keys (walk p t))"
proof (induction p t rule: walk.induct)
  case (2 p ns)
  have below: "(n, t) \<in> set ns \<Longrightarrow> q \<in> set (keys (walk (p @ [n]) t)) \<Longrightarrow> \<exists>r. q = p @ n # r" for n t q
  proof -
    assume "(n, t) \<in> set ns" "q \<in> set (keys (walk (p @ [n]) t))"
    then obtain e where "tree_ok t" "(q, e) \<in> set (walk (p @ [n]) t)" using 2(2) by (auto simp: list_all_iff)
    then show "\<exists>r. q = p @ n # r" using walk_mem by fastforce
  qed
  have "distinct (concat (map (\<lambda>(n, t). keys (walk (p @ [n]) t)) ns))"
    using 2
  proof (induction ns)
    case (Cons nt ns)
    obtain n t where nt: "nt = (n, t)" by fastforce
    have "distinct (keys (walk (p @ [n]) t))" using Cons.prems nt by auto
    moreover have "distinct (concat (map (\<lambda>(n, t). keys (walk (p @ [n]) t)) ns))"
      using Cons.prems by (intro Cons.IH) auto
    moreover have "q \<notin> set (keys (walk (p @ [n']) t'))" if "q \<in> set (keys (walk (p @ [n]) t))" "(n', t') \<in> set ns" for q n' t'
    proof -
      have ok: "tree_ok t" "tree_ok t'" "n \<noteq> n'" using Cons.prems(2) nt that(2) by (force simp: list_all_iff)+
      then show ?thesis using that walk_mem [of t q _ "p @ [n]"] walk_mem [of t' q _ "p @ [n']"] by auto
    qed
    ultimately show ?case by (auto simp: nt)
  qed simp
  moreover have "p \<notin> set (concat (map (\<lambda>(n, t). keys (walk (p @ [n]) t)) ns))"
    using below by fastforce
  ultimately show ?case by (simp add: map_concat comp_def case_prod_unfold)
qed simp

lemma clash_free_walk: "tree_ok t \<Longrightarrow> clash_free (walk p t)"
  unfolding clash_free_def
proof (clarify, intro conjI impI notI)
  fix q c q' e' assume t: "tree_ok t" and q: "(q, Some c) \<in> set (walk p t)" and q': "(q', e') \<in> set (walk p t)"
  obtain r r' where r: "q = p @ r" "file_at t r = Some c" "q' = p @ r'" "case e' of None \<Rightarrow> dir_at t r' | Some c \<Rightarrow> file_at t r' = Some c"
    using q q' walk_mem [OF t] by fastforce
  { assume "strict_prefix q q'"
    then have "strict_prefix r r'" by (auto simp: r(1,3) strict_prefix_def prefix_def)
    moreover have "node_at t r' \<noteq> None" using r(4) node_at_cases by (cases e') auto
    ultimately show False using above_strict [of t r' r] r(2) by simp }
  { assume "q = q'" "e' = None"
    then show False using r file_not_dir by fastforce }
qed

lemma last_write_unique:
  assumes "distinct (keys es)"
  shows "last_write es q = (case map_of es q of Some e \<Rightarrow> e | None \<Rightarrow> None)"
  using assms
proof (induction es)
  case (Cons pe es)
  then show ?case
    by (cases pe) (auto split: option.splits simp: map_of_eq_None_iff image_iff dest: last_write_mem)
qed simp

lemma last_write_walk:
  assumes "tree_ok t"
  shows "last_write (walk p t) (p @ q) = file_at t q" "\<not> prefix p r \<Longrightarrow> last_write (walk p t) r = None"
proof -
  show "last_write (walk p t) (p @ q) = file_at t q"
  proof (cases "last_write (walk p t) (p @ q)")
    case None
    then have "\<forall>c. file_at t q \<noteq> Some c" using last_write_None [OF None] walk_mem [OF assms] by fastforce
    then show ?thesis using None by (cases "file_at t q") auto
  next
    case (Some c)
    then show ?thesis using last_write_mem [OF Some] walk_mem [OF assms] by auto
  qed
  assume np: "\<not> prefix p r"
  show "last_write (walk p t) r = None"
  proof (cases "last_write (walk p t) r")
    case (Some c)
    then show ?thesis using last_write_mem [OF Some] walk_mem [OF assms] np by (auto simp: prefix_def)
  qed simp
qed

end
