(* ===== verification/Backup.thy ===== *)
theory Backup
  imports Disk GoTime TimeParse
begin

text \<open>
  Back-up and restore (\<open>src/src/backup/backup.go\<close>, \<open>restore.go\<close>): the entries of an archive, its manifest
  and checksum, encryption, verification, extraction and the copies of a restore. The packages for
  gzip, tar, JSON, SHA-256, Argon2id and AES-GCM are the functions of a \<open>codec\<close>. Disks are those of
  \<open>Disk\<close>; modes, owners and time stamps of files are left out.
\<close>

subsection \<open>Data\<close>

datatype entry_type = TypeReg | TypeDir | TypeOther

record tar_entry =
  te_name :: string
  te_type :: entry_type
  te_data :: string

record bk_manifest =
  mf_version :: string
  mf_createdAt :: time
  mf_createdBy :: string
  mf_appVersion :: string
  mf_contents :: "string list"
  mf_encrypted :: bool
  mf_method :: string
  mf_checksum :: string

record backup_options =
  bo_configDir :: string
  bo_dataDir :: string
  bo_outputFile :: string
  bo_password :: string
  bo_includeSSL :: bool
  bo_includeData :: bool
  bo_adminUser :: string
  bo_appVersion :: string

record restore_options =
  ro_backupFile :: string
  ro_password :: string
  ro_configDir :: string
  ro_dataDir :: string

text \<open>
  \<open>cd_read\<close> gives the entries up to the end or up to an error (\<open>False\<close>), \<open>None\<close> when the data does not
  begin as gzip does. \<open>cd_open\<close> is \<open>None\<close> when the authentication fails.
\<close>

record codec =
  cd_write :: "tar_entry list \<Rightarrow> string"
  cd_read :: "string \<Rightarrow> (tar_entry list \<times> bool) option"
  cd_marshal :: "bk_manifest \<Rightarrow> string option"
  cd_unmarshal :: "string \<Rightarrow> bk_manifest option"
  cd_sha :: "string \<Rightarrow> string"
  cd_kdf :: "string \<Rightarrow> string \<Rightarrow> string"
  cd_seal :: "string \<Rightarrow> string \<Rightarrow> string \<Rightarrow> string"
  cd_open :: "string \<Rightarrow> string \<Rightarrow> string \<Rightarrow> string option"

datatype backup_error =
    OpenFailed string | ReadFailed string | NoRandom | MarshalFailed | Restream | WriteFailed
  | NotFound | EmptyFile | NoPassword | TooShort | DecryptFailed | BadArchive | IllegalPath string
  | ExtractFailed string | NoManifest | ChecksumMismatch string string | BadDatabase string | RestoreFailed string
  | TempFailed

subsection \<open>Files\<close>

text \<open>A name is resolved against the working directory \<open>cwd\<close>.\<close>

definition os_path :: "string \<Rightarrow> string \<Rightarrow> string list" where
  "os_path cwd p = path_names (if is_abs p then clean_path p else clean_path (cwd @ ''/'' @ p))"

definition file_exists :: "string \<Rightarrow> node \<Rightarrow> string \<Rightarrow> bool" where
  "file_exists cwd fs p \<longleftrightarrow> file_at fs (os_path cwd p) \<noteq> None"

definition dir_exists :: "string \<Rightarrow> node \<Rightarrow> string \<Rightarrow> bool" where
  "dir_exists cwd fs p \<longleftrightarrow> dir_at fs (os_path cwd p)"

definition read_at :: "string \<Rightarrow> node \<Rightarrow> string \<Rightarrow> string option" where
  "read_at cwd fs p = (case file_at fs (os_path cwd p) of Some c \<Rightarrow> c | None \<Rightarrow> None)"

text \<open>\<open>os.WriteFile\<close> does not make directories.\<close>

definition write_file :: "string \<Rightarrow> string \<Rightarrow> string \<Rightarrow> node \<Rightarrow> node option" where
  "write_file cwd p d fs =
     (let q = os_path cwd p in if q \<noteq> [] \<and> dir_at fs (butlast q) then put_file q (Some d) fs else None)"

text \<open>\<open>os.MkdirTemp\<close> makes a directory with a new name, \<open>None\<close> when it cannot.\<close>

definition mkdir_temp :: "string option \<Rightarrow> node \<Rightarrow> node option" where
  "mkdir_temp tmp fs = (case tmp of None \<Rightarrow> None | Some p \<Rightarrow> mkdirs (path_names p) fs)"

subsection \<open>Archives\<close>

definition add_path_to_tar :: "string \<Rightarrow> node \<Rightarrow> string \<Rightarrow> string \<Rightarrow> backup_error + tar_entry list" where
  "add_path_to_tar cwd fs baseDir relPath =
     (if node_at fs (os_path cwd (path_join baseDir relPath)) = None then Inl (OpenFailed relPath)
      else case read_at cwd fs (path_join baseDir relPath) of
        None \<Rightarrow> Inl (ReadFailed relPath)
      | Some d \<Rightarrow> Inr [\<lparr>te_name = relPath, te_type = TypeReg, te_data = d\<rparr>])"

text \<open>The name of the file that a walk finds at the segments \<open>p\<close> below its start.\<close>

definition tar_name :: "string \<Rightarrow> string list \<Rightarrow> string" where
  "tar_name tarPath p = path_join tarPath (if p = [] then ''.'' else join ''/'' p)"

fun dir_entries :: "string \<Rightarrow> walked \<Rightarrow> backup_error + tar_entry list" where
  "dir_entries tarPath [] = Inr []"
| "dir_entries tarPath ((p, e) # es) =
     (case e of
        Some None \<Rightarrow> Inl (ReadFailed (tar_name tarPath p))
      | _ \<Rightarrow>
         (case dir_entries tarPath es of
            Inl er \<Rightarrow> Inl er
          | Inr ts \<Rightarrow>
              Inr ((case e of
                      None \<Rightarrow> \<lparr>te_name = tar_name tarPath p, te_type = TypeDir, te_data = []\<rparr>
                    | Some d \<Rightarrow> \<lparr>te_name = tar_name tarPath p, te_type = TypeReg, te_data = opt_or d []\<rparr>) # ts)))"

definition add_dir_to_tar :: "string \<Rightarrow> node \<Rightarrow> string \<Rightarrow> string \<Rightarrow> backup_error + tar_entry list" where
  "add_dir_to_tar cwd fs srcDir tarPath =
     (case node_at fs (os_path cwd srcDir) of
        None \<Rightarrow> Inl (ReadFailed srcDir)
      | Some t \<Rightarrow> dir_entries tarPath (walk [] t))"

fun in_turn :: "(backup_error + tar_entry list) list \<Rightarrow> backup_error + tar_entry list" where
  "in_turn [] = Inr []"
| "in_turn (r # rs) =
     (case r of Inl e \<Rightarrow> Inl e | Inr ts \<Rightarrow> (case in_turn rs of Inl e \<Rightarrow> Inl e | Inr us \<Rightarrow> Inr (ts @ us)))"

definition only_if :: "bool \<Rightarrow> (backup_error + tar_entry list) \<Rightarrow> backup_error + tar_entry list" where
  "only_if b r = (if b then r else Inr [])"

definition build_content_entries :: "string \<Rightarrow> node \<Rightarrow> backup_options \<Rightarrow> backup_error + tar_entry list" where
  "build_content_entries cwd fs opts =
     (let c = bo_configDir opts; d = bo_dataDir opts;
          usersDB = path_join d ''users.db'';
          templatesDir = path_join c ''template''; themesDir = path_join c ''theme''; sslDir = path_join c ''ssl''
      in in_turn
        [add_path_to_tar cwd fs c ''server.yml'',
         add_path_to_tar cwd fs d ''server.db'',
         only_if (file_exists cwd fs usersDB) (add_path_to_tar cwd fs d ''users.db''),
         only_if (dir_exists cwd fs templatesDir) (add_dir_to_tar cwd fs templatesDir ''template''),
         only_if (dir_exists cwd fs themesDir) (add_dir_to_tar cwd fs themesDir ''theme''),
         only_if (bo_includeSSL opts \<and> dir_exists cwd fs sslDir) (add_dir_to_tar cwd fs sslDir ''ssl''),
         only_if (bo_includeData opts \<and> dir_exists cwd fs d) (add_dir_to_tar cwd fs d ''data'')])"

definition content_names :: "tar_entry list \<Rightarrow> string list" where
  "content_names es = map te_name (filter (\<lambda>e. te_type e = TypeReg) es)"

text \<open>The bytes of the archive without manifest, and the manifest with the names of its files.\<close>

definition build_content_archive ::
    "codec \<Rightarrow> string \<Rightarrow> node \<Rightarrow> backup_options \<Rightarrow> bk_manifest \<Rightarrow> backup_error + string \<times> bk_manifest" where
  "build_content_archive cd cwd fs opts m =
     (case build_content_entries cwd fs opts of
        Inl e \<Rightarrow> Inl e
      | Inr es \<Rightarrow> Inr (cd_write cd es, m\<lparr>mf_contents := mf_contents m @ content_names es\<rparr>))"

definition build_final_archive :: "codec \<Rightarrow> bk_manifest \<Rightarrow> string \<Rightarrow> backup_error + string" where
  "build_final_archive cd m content =
     (case cd_marshal cd m of
        None \<Rightarrow> Inl MarshalFailed
      | Some j \<Rightarrow>
          (case cd_read cd content of
             Some (es, True) \<Rightarrow>
               Inr (cd_write cd (\<lparr>te_name = ''manifest.json'', te_type = TypeReg, te_data = j\<rparr> # es))
           | _ \<Rightarrow> Inl Restream))"

definition checksum_of :: "codec \<Rightarrow> string \<Rightarrow> string" where
  "checksum_of cd content = ''sha256:'' @ hex_encode (cd_sha cd content)"

definition create_backup_archive ::
    "codec \<Rightarrow> string \<Rightarrow> node \<Rightarrow> time \<Rightarrow> backup_options \<Rightarrow> backup_error + string \<times> bk_manifest" where
  "create_backup_archive cd cwd fs now opts =
     (let m0 = \<lparr>mf_version = ''1.0.0'', mf_createdAt = now, mf_createdBy = bo_adminUser opts,
                mf_appVersion = bo_appVersion opts, mf_contents = [], mf_encrypted = False, mf_method = [], mf_checksum = []\<rparr>
      in case build_content_archive cd cwd fs opts m0 of
           Inl e \<Rightarrow> Inl e
         | Inr (content, m1) \<Rightarrow>
             (let m2 = m1\<lparr>mf_checksum := checksum_of cd content\<rparr>
              in case build_final_archive cd m2 content of Inl e \<Rightarrow> Inl e | Inr final \<Rightarrow> Inr (final, m2)))"

text \<open>\<open>salt\<close> and \<open>nonce\<close> are random bytes, \<open>None\<close> when there are none.\<close>

definition encrypt_backup :: "codec \<Rightarrow> string option \<Rightarrow> string option \<Rightarrow> string \<Rightarrow> string \<Rightarrow> backup_error + string" where
  "encrypt_backup cd salt nonce d password =
     (case (salt, nonce) of
        (Some s, Some n) \<Rightarrow> Inr (s @ n @ cd_seal cd (cd_kdf cd password s) n d)
      | _ \<Rightarrow> Inl NoRandom)"

text \<open>The time is that of the clock in a zone with the offset function \<open>off\<close>.\<close>

definition backup_stamp :: "(time \<Rightarrow> duration) \<Rightarrow> time \<Rightarrow> string" where
  "backup_stamp off now =
     (let l = local off now; s = nat (l mod day div second)
      in case date_of (l div day) of
           (y, m, d) \<Rightarrow>
             iso_date (nat y) (nat m) (nat d) @ ''_'' @ pad 2 (s div 3600) @ pad 2 (s mod 3600 div 60) @ pad 2 (s mod 60))"

definition default_output :: "(time \<Rightarrow> duration) \<Rightarrow> time \<Rightarrow> backup_options \<Rightarrow> string" where
  "default_output off now opts =
     ''caswhois_backup_'' @ backup_stamp off now @ (if bo_password opts \<noteq> [] then ''.tar.gz.enc'' else ''.tar.gz'')"

text \<open>The options with the file written, and the disk.\<close>

definition create_backup ::
    "codec \<Rightarrow> string \<Rightarrow> (time \<Rightarrow> duration) \<Rightarrow> time \<Rightarrow> time \<Rightarrow> string option \<Rightarrow> string option \<Rightarrow> backup_options \<Rightarrow> node \<Rightarrow>
     backup_error option \<times> backup_options \<times> node" where
  "create_backup cd cwd off stamp now salt nonce opts0 fs =
     (let opts = (if bo_outputFile opts0 = [] then opts0\<lparr>bo_outputFile := default_output off stamp opts0\<rparr> else opts0)
      in case create_backup_archive cd cwd fs now opts of
           Inl e \<Rightarrow> (Some e, opts, fs)
         | Inr (archive, m) \<Rightarrow>
             (case (if bo_password opts \<noteq> [] then encrypt_backup cd salt nonce archive (bo_password opts) else Inr archive) of
                Inl e \<Rightarrow> (Some e, opts, fs)
              | Inr final \<Rightarrow>
                  (case write_file cwd (bo_outputFile opts) final fs of
                     None \<Rightarrow> (Some WriteFailed, opts, fs)
                   | Some fs' \<Rightarrow> (None, opts, fs'))))"

definition create_incremental ::
    "codec \<Rightarrow> string \<Rightarrow> (time \<Rightarrow> duration) \<Rightarrow> time \<Rightarrow> time \<Rightarrow> string option \<Rightarrow> string option \<Rightarrow> string \<Rightarrow> backup_options \<Rightarrow> node \<Rightarrow>
     backup_error option \<times> backup_options \<times> node" where
  "create_incremental cd cwd off stamp now salt nonce backupType opts fs =
     create_backup cd cwd off stamp now salt nonce
       (opts\<lparr>bo_outputFile := ''caswhois-'' @ backupType @ (if bo_password opts \<noteq> [] then ''.tar.gz.enc'' else ''.tar.gz'')\<rparr>) fs"

subsection \<open>Verification\<close>

definition decrypt_backup_data :: "codec \<Rightarrow> string \<Rightarrow> string \<Rightarrow> backup_error + string" where
  "decrypt_backup_data cd d password =
     (if length d < 32 then Inl TooShort
      else let salt = take 32 d; ciphertext = drop 32 d
      in if length ciphertext < 12 then Inl TooShort
         else case cd_open cd (cd_kdf cd password salt) (take 12 ciphertext) (drop 12 ciphertext) of
                None \<Rightarrow> Inl DecryptFailed
              | Some plain \<Rightarrow> Inr plain)"

text \<open>\<open>filepath.IsLocal\<close>.\<close>

definition is_local :: "string \<Rightarrow> bool" where
  "is_local p \<longleftrightarrow> p \<noteq> [] \<and> \<not> is_abs p \<and>
     (let q = (if list_ex (\<lambda>s. s = ''.'' \<or> s = ''..'') (split_on CHR ''/'' p) then clean_path p else p)
      in q \<noteq> ''..'' \<and> \<not> has_prefix q ''../'')"

text \<open>\<open>os.MkdirAll\<close> of the directory above a file and the file itself, with the disk when either fails.\<close>

definition make_file :: "string list \<Rightarrow> string \<Rightarrow> node \<Rightarrow> node option \<times> node" where
  "make_file p d fs =
     (case mkdirs (butlast p) fs of
        None \<Rightarrow> (None, fs)
      | Some fs' \<Rightarrow> (put_file p (Some d) fs', fs'))"

text \<open>An entry is put at its target; \<open>written old d\<close> is what the file holds afterwards.\<close>

definition extract_entry ::
    "(string \<Rightarrow> string \<Rightarrow> string) \<Rightarrow> string \<Rightarrow> tar_entry \<Rightarrow> node \<Rightarrow> backup_error option \<times> node" where
  "extract_entry written target e fs =
     (let p = path_names target; old = opt_or (opt_or (file_at fs p) None) []
      in case (case te_type e of
                 TypeDir \<Rightarrow> (mkdirs p fs, fs)
               | TypeReg \<Rightarrow> make_file p (written old (te_data e)) fs
               | TypeOther \<Rightarrow> (Some fs, fs)) of
           (None, fs') \<Rightarrow> (Some (ExtractFailed target), fs')
         | (Some fs', _) \<Rightarrow> (None, fs'))"

fun extract_entries ::
    "(tar_entry \<Rightarrow> node \<Rightarrow> backup_error option \<times> node) \<Rightarrow> tar_entry list \<Rightarrow> node \<Rightarrow> backup_error option \<times> node" where
  "extract_entries ex [] fs = (None, fs)"
| "extract_entries ex (e # es) fs =
     (case ex e fs of (Some er, fs') \<Rightarrow> (Some er, fs') | (None, fs') \<Rightarrow> extract_entries ex es fs')"

definition extract_archive ::
    "codec \<Rightarrow> (tar_entry \<Rightarrow> node \<Rightarrow> backup_error option \<times> node) \<Rightarrow> string \<Rightarrow> node \<Rightarrow> backup_error option \<times> node" where
  "extract_archive cd ex d fs =
     (case cd_read cd d of
        None \<Rightarrow> (Some BadArchive, fs)
      | Some (es, ok) \<Rightarrow>
          (case extract_entries ex es fs of
             (Some er, fs') \<Rightarrow> (Some er, fs')
           | (None, fs') \<Rightarrow> (if ok then None else Some BadArchive, fs')))"

definition extract_tar_gz :: "codec \<Rightarrow> string \<Rightarrow> string \<Rightarrow> node \<Rightarrow> backup_error option \<times> node" where
  "extract_tar_gz cd d dest fs =
     extract_archive cd
       (\<lambda>e fs. if \<not> is_local (te_name e) then (Some (IllegalPath (te_name e)), fs)
               else extract_entry (\<lambda>old new. new) (path_join dest (te_name e)) e fs) d fs"

definition rebuild_content_archive :: "codec \<Rightarrow> string \<Rightarrow> backup_error + string" where
  "rebuild_content_archive cd d =
     (case cd_read cd d of
        Some (es, True) \<Rightarrow> Inr (cd_write cd (filter (\<lambda>e. te_name e \<noteq> ''manifest.json'') es))
      | _ \<Rightarrow> Inl BadArchive)"

definition load_manifest :: "codec \<Rightarrow> string \<Rightarrow> string \<Rightarrow> node \<Rightarrow> backup_error + bk_manifest" where
  "load_manifest cd cwd dir fs =
     (case read_at cwd fs (path_join dir ''manifest.json'') of
        None \<Rightarrow> Inl NoManifest
      | Some j \<Rightarrow> (case cd_unmarshal cd j of None \<Rightarrow> Inl NoManifest | Some m \<Rightarrow> Inr m))"

definition check_checksum :: "codec \<Rightarrow> bk_manifest \<Rightarrow> string \<Rightarrow> backup_error option" where
  "check_checksum cd m d =
     (case rebuild_content_archive cd d of
        Inl e \<Rightarrow> Some e
      | Inr content \<Rightarrow>
          if mf_checksum m \<noteq> checksum_of cd content then Some (ChecksumMismatch (mf_checksum m) (checksum_of cd content)) else None)"

text \<open>A file shorter than the header is compared as if zeros followed.\<close>

definition sqlite_magic :: string where
  "sqlite_magic = ''SQLite format 3'' @ [CHR 0x00]"

definition verify_database_integrity :: "string option \<Rightarrow> bool" where
  "verify_database_integrity c =
     (case c of None \<Rightarrow> False | Some d \<Rightarrow> d \<noteq> [] \<and> take 16 (d @ replicate 16 (CHR 0x00)) = sqlite_magic)"

definition check_database :: "string \<Rightarrow> string \<Rightarrow> string \<Rightarrow> node \<Rightarrow> backup_error option" where
  "check_database cwd dir name fs =
     (let p = path_join dir name
      in if file_exists cwd fs p \<and> \<not> verify_database_integrity (read_at cwd fs p) then Some (BadDatabase name) else None)"

definition file_ext :: "string \<Rightarrow> string" where
  "file_ext p =
     (let b = rev (takeWhile (\<lambda>c. c \<noteq> CHR ''/'') (rev p))
      in if CHR ''.'' \<in> set b then CHR ''.'' # rev (takeWhile (\<lambda>c. c \<noteq> CHR ''.'') (rev b)) else [])"

text \<open>What is checked once the archive is extracted to \<open>tmp\<close>.\<close>

definition check_extracted :: "codec \<Rightarrow> string \<Rightarrow> string \<Rightarrow> string \<Rightarrow> node \<Rightarrow> backup_error option" where
  "check_extracted cd cwd tmp archive fs =
     (case load_manifest cd cwd tmp fs of
        Inl e \<Rightarrow> Some e
      | Inr m \<Rightarrow>
          (case check_checksum cd m archive of
             Some e \<Rightarrow> Some e
           | None \<Rightarrow>
               (case check_database cwd tmp ''server.db'' fs of
                  Some e \<Rightarrow> Some e
                | None \<Rightarrow> check_database cwd tmp ''users.db'' fs)))"

definition verify_backup ::
    "codec \<Rightarrow> string \<Rightarrow> string option \<Rightarrow> string \<Rightarrow> string \<Rightarrow> node \<Rightarrow> backup_error option \<times> node" where
  "verify_backup cd cwd tmp backupFile password fs =
     (if node_at fs (os_path cwd backupFile) = None then (Some NotFound, fs)
      else if read_at cwd fs backupFile = Some [] then (Some EmptyFile, fs)
      else case read_at cwd fs backupFile of
        None \<Rightarrow> (Some (ReadFailed backupFile), fs)
      | Some d \<Rightarrow>
          let encrypted = (file_ext backupFile = ''.enc'')
          in if encrypted \<and> password = [] then (Some NoPassword, fs)
             else case (if encrypted then decrypt_backup_data cd d password else Inr d) of
               Inl e \<Rightarrow> (Some e, fs)
             | Inr archive \<Rightarrow>
                 (case mkdir_temp tmp fs of
                    None \<Rightarrow> (Some TempFailed, fs)
                  | Some fs1 \<Rightarrow>
                      (case extract_tar_gz cd archive (opt_or tmp []) fs1 of
                         (Some e, fs2) \<Rightarrow> (Some e, remove_all (path_names (opt_or tmp [])) fs2)
                       | (None, fs2) \<Rightarrow>
                           (check_extracted cd cwd (opt_or tmp []) archive fs2,
                            remove_all (path_names (opt_or tmp [])) fs2))))"

subsection \<open>Restore\<close>

definition decrypt_backup :: "codec \<Rightarrow> string \<Rightarrow> string \<Rightarrow> backup_error + string" where
  "decrypt_backup cd d password =
     (if length d < 32 then Inl TooShort
      else let salt = take 32 d; ciphertext = drop 32 d
      in if length ciphertext < 12 then Inl TooShort
         else case cd_open cd (cd_kdf cd password salt) (take 12 ciphertext) (drop 12 ciphertext) of
                None \<Rightarrow> Inl DecryptFailed
              | Some plain \<Rightarrow> Inr plain)"

definition verify_backup_integrity ::
    "codec \<Rightarrow> string \<Rightarrow> string option \<Rightarrow> string \<Rightarrow> node \<Rightarrow> backup_error option \<times> node" where
  "verify_backup_integrity cd cwd tmp d fs =
     (case mkdir_temp tmp fs of
        None \<Rightarrow> (Some TempFailed, fs)
      | Some fs1 \<Rightarrow>
          (case extract_tar_gz cd d (opt_or tmp []) fs1 of
             (Some e, fs2) \<Rightarrow> (Some e, remove_all (path_names (opt_or tmp [])) fs2)
           | (None, fs2) \<Rightarrow>
               ((case load_manifest cd cwd (opt_or tmp []) fs2 of
                   Inl e \<Rightarrow> Some e
                 | Inr m \<Rightarrow> check_checksum cd m d),
                remove_all (path_names (opt_or tmp [])) fs2)))"

text \<open>Opened without truncation: what is longer than the new content stays behind it.\<close>

definition extract_backup :: "codec \<Rightarrow> string \<Rightarrow> string \<Rightarrow> node \<Rightarrow> backup_error option \<times> node" where
  "extract_backup cd d destDir fs =
     extract_archive cd
       (\<lambda>e fs. let target = path_join destDir (te_name e)
               in if \<not> has_prefix target (clean_path destDir @ ''/'') then (Some (IllegalPath (te_name e)), fs)
                  else extract_entry (\<lambda>old new. new @ drop (length new) old) target e fs) d fs"

definition copy_content :: "string option \<Rightarrow> string list \<Rightarrow> node \<Rightarrow> backup_error option \<times> node" where
  "copy_content c dst fs =
     (case mkdirs (butlast dst) fs of
        None \<Rightarrow> (Some (RestoreFailed (join ''/'' dst)), fs)
      | Some fs1 \<Rightarrow>
          (case c of
             None \<Rightarrow> (Some (RestoreFailed (join ''/'' dst)), fs1)
           | Some d \<Rightarrow>
               (case put_file dst (Some d) fs1 of
                  None \<Rightarrow> (Some (RestoreFailed (join ''/'' dst)), fs1)
                | Some fs2 \<Rightarrow> (None, fs2))))"

definition copy_file :: "string list \<Rightarrow> string list \<Rightarrow> node \<Rightarrow> backup_error option \<times> node" where
  "copy_file src dst fs = copy_content (opt_or (file_at fs src) None) dst fs"

fun copy_walk :: "string list \<Rightarrow> walked \<Rightarrow> node \<Rightarrow> backup_error option \<times> node" where
  "copy_walk dst [] fs = (None, fs)"
| "copy_walk dst ((r, e) # es) fs =
     (case (case e of
              None \<Rightarrow>
                (case mkdirs (dst @ r) fs of
                   None \<Rightarrow> (Some (RestoreFailed (join ''/'' (dst @ r))), fs)
                 | Some fs' \<Rightarrow> (None, fs'))
            | Some c \<Rightarrow> copy_content c (dst @ r) fs) of
        (Some er, fs') \<Rightarrow> (Some er, fs')
      | (None, fs') \<Rightarrow> copy_walk dst es fs')"

definition copy_dir :: "string list \<Rightarrow> string list \<Rightarrow> node \<Rightarrow> backup_error option \<times> node" where
  "copy_dir src dst fs =
     (case mkdirs dst fs of
        None \<Rightarrow> (Some (RestoreFailed (join ''/'' dst)), fs)
      | Some fs' \<Rightarrow>
          (case node_at fs' src of
             None \<Rightarrow> (Some (RestoreFailed (join ''/'' src)), fs')
           | Some t \<Rightarrow> copy_walk dst (walk [] t) fs'))"

fun run_steps :: "(node \<Rightarrow> backup_error option \<times> node) list \<Rightarrow> node \<Rightarrow> backup_error option \<times> node" where
  "run_steps [] fs = (None, fs)"
| "run_steps (st # sts) fs = (case st fs of (Some e, fs') \<Rightarrow> (Some e, fs') | (None, fs') \<Rightarrow> run_steps sts fs')"

definition restore_file :: "string \<Rightarrow> string \<Rightarrow> string \<Rightarrow> string \<Rightarrow> node \<Rightarrow> backup_error option \<times> node" where
  "restore_file cwd backupDir name destDir fs =
     (let src = path_join backupDir name
      in if file_exists cwd fs src then copy_file (os_path cwd src) (os_path cwd (path_join destDir name)) fs else (None, fs))"

definition restore_dir :: "string \<Rightarrow> string \<Rightarrow> string \<Rightarrow> string \<Rightarrow> node \<Rightarrow> backup_error option \<times> node" where
  "restore_dir cwd backupDir name dest fs =
     (let src = path_join backupDir name
      in if dir_exists cwd fs src then copy_dir (os_path cwd src) (os_path cwd dest) fs else (None, fs))"

definition perform_restore :: "string \<Rightarrow> string \<Rightarrow> restore_options \<Rightarrow> node \<Rightarrow> backup_error option \<times> node" where
  "perform_restore cwd backupDir opts =
     (let c = ro_configDir opts; d = ro_dataDir opts
      in run_steps
        [restore_file cwd backupDir ''server.yml'' c,
         restore_file cwd backupDir ''server.db'' d,
         restore_file cwd backupDir ''users.db'' d,
         restore_dir cwd backupDir ''template'' (path_join c ''template''),
         restore_dir cwd backupDir ''theme'' (path_join c ''theme''),
         restore_dir cwd backupDir ''ssl'' (path_join c ''ssl''),
         restore_dir cwd backupDir ''data'' d])"

text \<open>The two temporary directories have the names \<open>tmp1\<close> and \<open>tmp2\<close>.\<close>

definition restore_extracted ::
    "codec \<Rightarrow> string \<Rightarrow> string option \<Rightarrow> string \<Rightarrow> restore_options \<Rightarrow> node \<Rightarrow> backup_error option \<times> node" where
  "restore_extracted cd cwd tmp archive opts fs =
     (case mkdir_temp tmp fs of
        None \<Rightarrow> (Some TempFailed, fs)
      | Some fs1 \<Rightarrow>
          (case (case extract_backup cd archive (opt_or tmp []) fs1 of
                   (Some e, fs2) \<Rightarrow> (Some e, fs2)
                 | (None, fs2) \<Rightarrow>
                     (case load_manifest cd cwd (opt_or tmp []) fs2 of
                        Inl e \<Rightarrow> (Some e, fs2)
                      | Inr m \<Rightarrow> perform_restore cwd (opt_or tmp []) opts fs2)) of
             (r, fs3) \<Rightarrow> (r, remove_all (path_names (opt_or tmp [])) fs3)))"

definition restore_backup ::
    "codec \<Rightarrow> string \<Rightarrow> string option \<Rightarrow> string option \<Rightarrow> restore_options \<Rightarrow> node \<Rightarrow> backup_error option \<times> node" where
  "restore_backup cd cwd tmp1 tmp2 opts fs =
     (if \<not> file_exists cwd fs (ro_backupFile opts) then (Some NotFound, fs)
      else case read_at cwd fs (ro_backupFile opts) of
        None \<Rightarrow> (Some (ReadFailed (ro_backupFile opts)), fs)
      | Some d \<Rightarrow>
          let encrypted = has_suffix (ro_backupFile opts) ''.enc''
          in if encrypted \<and> ro_password opts = [] then (Some NoPassword, fs)
             else case (if encrypted then decrypt_backup cd d (ro_password opts) else Inr d) of
               Inl e \<Rightarrow> (Some e, fs)
             | Inr archive \<Rightarrow>
                 (case verify_backup_integrity cd cwd tmp1 archive fs of
                    (Some e, fs') \<Rightarrow> (Some e, fs')
                  | (None, fs') \<Rightarrow> restore_extracted cd cwd tmp2 archive opts fs'))"

subsection \<open>Names and segments\<close>

lemma name_ok_normal: "\<forall>s\<in>set p. name_ok s \<Longrightarrow> \<forall>s\<in>set p. normal_seg s \<and> s \<noteq> ''..''"
  by (simp add: name_ok_def)

lemma path_names_rooted: "\<forall>s\<in>set segs. normal_seg s \<Longrightarrow> path_names (CHR ''/'' # join ''/'' segs) = segs"
proof (cases "segs = []")
  case False
  assume n: "\<forall>s\<in>set segs. normal_seg s"
  then have "filter (\<lambda>s. s \<noteq> []) segs = segs" by (auto simp: normal_seg_def filter_id_conv)
  then show ?thesis using split_names [OF False n] by (simp add: path_names_def)
qed (simp add: path_names_def)

lemma os_path_stack:
  assumes "is_abs cwd"
  shows "os_path cwd p = rev (clean_segs True (abs_segs (Some cwd) p) [])"
proof -
  have n: "\<forall>s\<in>set (rev (clean_segs True (abs_segs (Some cwd) p) [])). normal_seg s"
    by (rule rooted_normal [OF abs_stack])
  have a: "is_abs (cwd @ x)" for x using assms by (cases cwd) (auto simp: is_abs_def)
  have "os_path cwd p = path_names (CHR ''/'' # join ''/'' (rev (clean_segs True (abs_segs (Some cwd) p) [])))"
    using a [of "CHR ''/'' # p"] by (simp add: os_path_def clean_abs abs_segs_def split_join_two)
  then show ?thesis using path_names_rooted [OF n] by simp
qed

lemma os_path_names: "is_abs cwd \<Longrightarrow> \<forall>s\<in>set (os_path cwd p). name_ok s"
  using abs_stack [of "Some cwd" p] by (auto simp: os_path_stack clean_stack_def list_all_iff name_ok_def)

lemma name_rel: "name_ok n \<Longrightarrow> \<not> is_abs n \<and> split_on CHR ''/'' n = [n]"
  by (cases n) (auto simp: name_ok_def normal_seg_def is_abs_def split_on_absent)

lemma os_path_join:
  assumes "is_abs cwd" "name_ok n"
  shows "os_path cwd (path_join a n) = os_path cwd a @ [n]"
  using name_rel [OF assms(2)] join_segs(1) [of n "Some cwd" a] assms
  by (simp add: os_path_stack clean_segs_def clean_seg_def name_ok_def normal_seg_def)

text \<open>The name of a temporary directory: absolute, clean, and not the root.\<close>

definition temp_name :: "string \<Rightarrow> bool" where
  "temp_name d \<longleftrightarrow> is_abs d \<and> clean_path d = d \<and> d \<noteq> ''/''"

lemma temp_stack:
  assumes "temp_name d"
  shows "d = CHR ''/'' # join ''/'' (path_names d)" "path_names d \<noteq> []" "\<forall>s\<in>set (path_names d). name_ok s"
    "clean_segs True (split_on CHR ''/'' d) [] = rev (path_names d)" "os_path cwd d = path_names d"
proof -
  define S where "S = clean_segs True (split_on CHR ''/'' d) []"
  have c: "clean_stack True S" unfolding S_def using assms clean_stack_of [of True d] by simp
  have d: "d = CHR ''/'' # join ''/'' (rev S)" using assms clean_abs [of d] by (simp add: temp_name_def S_def)
  then have p: "path_names d = rev S" using path_names_rooted [OF rooted_normal [OF c]] by metis
  show "d = CHR ''/'' # join ''/'' (path_names d)" unfolding p by (rule d)
  show "path_names d \<noteq> []"
  proof
    assume "path_names d = []"
    then have "d = ''/''" using d unfolding p by simp
    then show False using assms by (simp add: temp_name_def)
  qed
  show "\<forall>s\<in>set (path_names d). name_ok s"
    using c by (auto simp: p clean_stack_def list_all_iff name_ok_def)
  show "clean_segs True (split_on CHR ''/'' d) [] = rev (path_names d)" by (simp add: p S_def)
  show "os_path cwd d = path_names d" using assms by (simp add: os_path_def temp_name_def)
qed

lemma target_names:
  assumes "temp_name d" "\<not> is_abs b"
  shows "path_names (path_join d b) = rev (clean_segs True (split_on CHR ''/'' b) (rev (path_names d)))"
proof -
  have d: "is_abs d" "d \<noteq> []" using assms(1) by (auto simp: temp_name_def is_abs_def)
  have j: "path_join d b = clean_path (path_join d b)" using d by (simp add: path_join_eq clean_path_stable)
  have a: "is_abs (path_join d b)" using join_segs(2) [OF assms(2)] d by simp
  have "path_names (path_join d b) = os_path ''/'' (path_join d b)" using j a by (simp add: os_path_def)
  also have "\<dots> = rev (clean_segs True (abs_segs (Some ''/'') (path_join d b)) [])"
    by (rule os_path_stack) (simp add: is_abs_def)
  also have "\<dots> = rev (clean_segs True (split_on CHR ''/'' b) (clean_segs True (abs_segs (Some ''/'') d) []))"
    by (simp add: join_segs(1) [OF assms(2)])
  finally show ?thesis using temp_stack(4) [OF assms(1)] d by (simp add: abs_segs_def)
qed

lemma first_segment: "has_prefix q (s @ ''/'') \<Longrightarrow> CHR ''/'' \<notin> set s \<Longrightarrow> hd (split_on CHR ''/'' q) = s"
  by (auto simp: has_prefix_iff split_on_append)

lemma dots_first: "clean_stack False st \<Longrightarrow> ''..'' \<in> set st \<Longrightarrow> hd (rev st) = ''..''"
proof -
  assume "clean_stack False st" "''..'' \<in> set st"
  then obtain names ups where u: "st = names @ ups" "''..'' \<notin> set names" "set ups \<subseteq> {''..''}" by (auto simp: clean_stack_def)
  then have "ups \<noteq> []" using \<open>''..'' \<in> set st\<close> by auto
  then show ?thesis using u by (cases ups rule: rev_cases) auto
qed

text \<open>A local name stays below the directory it is joined to.\<close>

lemma local_target:
  assumes "temp_name d" "is_local b"
  shows "\<exists>r. path_names (path_join d b) = path_names d @ r"
proof -
  have rel: "\<not> is_abs b" "b \<noteq> []" using assms(2) by (simp_all add: is_local_def)
  define st where "st = clean_segs False (split_on CHR ''/'' b) []"
  have c: "clean_stack False st" unfolding st_def by (rule clean_stack_of)
  have nd: "''..'' \<notin> set st"
  proof
    assume m: "''..'' \<in> set st"
    then have "''..'' \<in> set (split_on CHR ''/'' b)" using clean_segs_set [of False "split_on CHR ''/'' b" "[]"] by (auto simp: st_def)
    then have "list_ex (\<lambda>s. s = ''.'' \<or> s = ''..'') (split_on CHR ''/'' b)" by (auto simp: list_ex_iff)
    moreover have "clean_path b = join ''/'' (rev st)" using m rel by (auto simp: clean_path_def st_def Let_def)
    moreover obtain t where "rev st = ''..'' # t" using dots_first [OF c m] m by (cases "rev st") auto
    ultimately show False using assms(2) by (cases t) (auto simp: is_local_def has_prefix_iff)
  qed
  have "clean_segs True (split_on CHR ''/'' b) (rev (path_names d)) = clean_segs True (rev st) (rev (path_names d))"
    using clean_segs_rev [OF clean_stack_Nil split_slash_free, of True b "rev (path_names d)"] by (simp add: st_def)
  also have "\<dots> = st @ rev (path_names d)"
    using clean_segs_names [of "rev st"] c nd by (auto simp: clean_stack_def list_all_iff)
  finally show ?thesis using target_names [OF assms(1) rel(1)] by simp
qed

lemma prefix_target:
  assumes "temp_name d" "has_prefix p (clean_path d @ ''/'')"
  shows "\<exists>r. path_names p = path_names d @ r"
proof -
  obtain r where "p = d @ CHR ''/'' # r" using assms by (auto simp: temp_name_def has_prefix_iff)
  then show ?thesis by (simp add: path_names_def split_join_two)
qed

text \<open>Joined names.\<close>

lemma plain_join:
  assumes "p \<noteq> []" "\<forall>s\<in>set p. name_ok s"
  shows "split_on CHR ''/'' (join ''/'' p) = p" "\<not> is_abs (join ''/'' p)" "is_local (join ''/'' p)"
proof -
  have n: "\<forall>s\<in>set p. normal_seg s" using assms(2) by (simp add: name_ok_def)
  show s: "split_on CHR ''/'' (join ''/'' p) = p" by (rule split_names [OF assms(1) n])
  show a: "\<not> is_abs (join ''/'' p)" by (rule join_names_rel [OF n])
  have d: "s \<in> set p \<Longrightarrow> s \<noteq> ''.'' \<and> s \<noteq> ''..''" for s using assms(2) by (auto simp: name_ok_def normal_seg_def)
  have "join ''/'' p \<noteq> []" using join_names_Nil [OF n] assms(1) by simp
  moreover have "join ''/'' p \<noteq> ''..''"
  proof
    assume "join ''/'' p = ''..''"
    then have "p = [''..'']" using s by simp
    then show False using d by simp
  qed
  moreover have "\<not> has_prefix (join ''/'' p) ''../''"
    using first_segment [of "join ''/'' p" "''..''"] s d assms(1) hd_in_set by fastforce
  ultimately show "is_local (join ''/'' p)" using a s d by (auto simp: is_local_def list_ex_iff)
qed

lemma plain_target:
  assumes "temp_name d" "p \<noteq> []" "\<forall>s\<in>set p. name_ok s"
  shows "path_names (path_join d (join ''/'' p)) = path_names d @ p"
    and "has_prefix (path_join d (join ''/'' p)) (clean_path d @ ''/'')"
proof -
  have e: "clean_segs True p (rev (path_names d)) = rev p @ rev (path_names d)"
    using clean_segs_names [of p] assms(3) by (simp add: name_ok_def)
  show "path_names (path_join d (join ''/'' p)) = path_names d @ p"
    using target_names [OF assms(1) plain_join(2) [OF assms(2,3)]] plain_join(1) [OF assms(2,3)] e by simp
  have d: "is_abs d" "d \<noteq> []" "clean_path d = d" using assms(1) by (auto simp: temp_name_def is_abs_def)
  have j: "join ''/'' p \<noteq> []" using plain_join(3) [OF assms(2,3)] by (simp add: is_local_def)
  have "is_abs (d @ x)" for x using d by (cases d) (auto simp: is_abs_def)
  then have "path_join d (join ''/'' p) = CHR ''/'' # join ''/'' (rev (clean_segs True (split_on CHR ''/'' d @ p) []))"
    using d j plain_join(1) [OF assms(2,3)] by (simp add: path_join_eq clean_abs split_join_two)
  also have "\<dots> = CHR ''/'' # join ''/'' (path_names d @ p)"
    using e temp_stack(4) [OF assms(1)] by (simp add: clean_segs_append)
  also have "\<dots> = d @ ''/'' @ join ''/'' p"
    using join_append [OF temp_stack(2) [OF assms(1)] assms(2), of "''/''"] temp_stack(1) [OF assms(1)] by simp
  finally show "has_prefix (path_join d (join ''/'' p)) (clean_path d @ ''/'')" using d by (simp add: has_prefix_iff)
qed

lemma tar_name_plain:
  assumes "name_ok n" "\<forall>s\<in>set p. name_ok s"
  shows "tar_name n p = join ''/'' (n # p)"
proof -
  have n: "n \<noteq> []" "\<not> is_abs n" "split_on CHR ''/'' n = [n]" using assms(1) name_rel by (auto simp: name_ok_def normal_seg_def)
  have "is_abs (n @ x) = False" for x using n by (cases n) (auto simp: is_abs_def)
  moreover have "clean_segs False (n # p) [] = rev (n # p)"
    using clean_segs_names [of "n # p" False "[]"] assms by (simp add: name_ok_def)
  moreover have "clean_segs False [n, ''.''] [] = [n]"
    using assms(1) by (simp add: clean_segs_def clean_seg_def name_ok_def normal_seg_def)
  moreover have "p \<noteq> [] \<Longrightarrow> join ''/'' p \<noteq> [] \<and> split_on CHR ''/'' (join ''/'' p) = p"
    using plain_join [of p] assms(2) by (auto simp: is_local_def)
  moreover have "n @ CHR ''/'' # x = n @ ''/'' @ x" for x by simp
  ultimately show ?thesis using n
    by (cases p) (auto simp: tar_name_def path_join_eq clean_path_def split_join_two Let_def)
qed

subsection \<open>Extraction stays below its directory\<close>

definition confined :: "string list \<Rightarrow> (node \<Rightarrow> backup_error option \<times> node) \<Rightarrow> bool" where
  "confined d step \<longleftrightarrow> (\<forall>fs. dir_at fs d \<longrightarrow> same_outside d fs (snd (step fs)) \<and> dir_at (snd (step fs)) d)"

lemma dirs_above: "dir_at fs d \<Longrightarrow> strict_prefix p d \<Longrightarrow> dir_at fs p"
  using above_strict [of fs d p] node_at_cases [of fs d] by blast

lemma extract_entry_confined:
  assumes "path_names target = d @ r"
  shows "confined d (extract_entry w target e)"
  unfolding confined_def
proof (intro allI impI)
  fix fs assume d: "dir_at fs d"
  have up: "dir_at fs p" if "prefix p (d @ r)" "\<not> prefix d p" for p
    using that dirs_above [OF d] by (metis prefixI prefix_order.order_iff_strict prefix_same_cases)
  show "same_outside d fs (snd (extract_entry w target e fs)) \<and> dir_at (snd (extract_entry w target e fs)) d"
  proof (cases "te_type e")
    case TypeReg
    have m: "same_outside d fs u \<and> dir_at u d" if "mkdirs (butlast (d @ r)) fs = Some u" for u
      using mkdirs_frame [OF that] d up butlast_prefix by (auto simp: same_outside_def)
    have p: "same_outside d fs v \<and> dir_at v d" if "mkdirs (butlast (d @ r)) fs = Some u" "put_file (d @ r) c u = Some v" for u v c
      using m [OF that(1)] put_file_frame [OF that(2)] up by (auto simp: same_outside_def strict_prefix_def)
    show ?thesis using d m p assms TypeReg
      by (auto simp: extract_entry_def make_file_def Let_def split: option.split)
  next
    case TypeDir
    then show ?thesis using assms d up mkdirs_frame by (auto simp: extract_entry_def same_outside_def Let_def split: option.splits; blast)
  qed (simp add: extract_entry_def d)
qed

lemma confined_fail: "confined d (\<lambda>fs. (Some er, fs))"
  by (simp add: confined_def)

lemma confined_entries:
  "\<forall>e\<in>set es. confined d (ex e) \<Longrightarrow> confined d (extract_entries ex es)"
proof (induction es)
  case (Cons e es)
  show ?case
    unfolding confined_def
  proof (intro allI impI)
    fix fs assume d: "dir_at fs d"
    obtain r fs' where x: "ex e fs = (r, fs')" by fastforce
    have s: "same_outside d fs fs'" "dir_at fs' d" using Cons.prems d x by (force simp: confined_def)+
    have "confined d (extract_entries ex es)" using Cons by simp
    then show "same_outside d fs (snd (extract_entries ex (e # es) fs)) \<and> dir_at (snd (extract_entries ex (e # es) fs)) d"
      using s x by (cases r) (auto simp: confined_def intro: same_outside_trans)
  qed
qed (simp add: confined_def)

lemma confined_archive:
  assumes "\<And>e. confined d (ex e)"
  shows "confined d (extract_archive cd ex archive)"
  using confined_entries [of _ d ex] assms
  by (auto simp: confined_def extract_archive_def split: option.split prod.split) (metis snd_conv)+

lemma extract_tar_gz_confined: "temp_name dest \<Longrightarrow> confined (path_names dest) (extract_tar_gz cd archive dest)"
proof -
  assume t: "temp_name dest"
  have "confined (path_names dest) (\<lambda>fs. if \<not> is_local (te_name e) then (Some (IllegalPath (te_name e)), fs)
               else extract_entry (\<lambda>old new. new) (path_join dest (te_name e)) e fs)" for e
    using local_target [OF t, of "te_name e"] extract_entry_confined confined_fail by (cases "is_local (te_name e)") auto
  from confined_archive [OF this] show ?thesis by (simp add: confined_def extract_tar_gz_def)
qed

lemma extract_backup_confined: "temp_name dest \<Longrightarrow> confined (path_names dest) (extract_backup cd archive dest)"
proof -
  assume t: "temp_name dest"
  have "confined (path_names dest) (\<lambda>fs. let target = path_join dest (te_name e)
               in if \<not> has_prefix target (clean_path dest @ ''/'') then (Some (IllegalPath (te_name e)), fs)
                  else extract_entry (\<lambda>old new. new @ drop (length new) old) target e fs)" for e
    using prefix_target [OF t, of "path_join dest (te_name e)"] extract_entry_confined confined_fail
    by (cases "has_prefix (path_join dest (te_name e)) (clean_path dest @ ''/'')") (auto simp: Let_def)
  from confined_archive [OF this] show ?thesis by (simp add: confined_def extract_backup_def)
qed

text \<open>
  C21: whatever an archive holds, extracting it changes nothing outside of the directory that it is
  extracted to: neither names with dots nor absolute names lead out of it.
\<close>

theorem extraction_confined:
  assumes "temp_name dest" "dir_at fs (path_names dest)"
  shows "same_outside (path_names dest) fs (snd (extract_tar_gz cd archive dest fs)) \<and>
    same_outside (path_names dest) fs (snd (extract_backup cd archive dest fs))"
  using extract_tar_gz_confined [OF assms(1)] extract_backup_confined [OF assms(1)] assms(2)
  by (simp add: confined_def)

definition sample_codec :: codec where
  "sample_codec = \<lparr>cd_write = (\<lambda>es. ''zip''),
     cd_read = (\<lambda>d. if d = ''evil'' then Some ([\<lparr>te_name = ''../etc/passwd'', te_type = TypeReg, te_data = ''x''\<rparr>], True) else None),
     cd_marshal = (\<lambda>m. Some ''m''), cd_unmarshal = (\<lambda>j. None), cd_sha = (\<lambda>d. d), cd_kdf = (\<lambda>p s. p @ s),
     cd_seal = (\<lambda>k n d. d), cd_open = (\<lambda>k n d. Some d)\<rparr>"

lemma sample_temp: "temp_name ''/tmp/r'' \<and> path_names ''/tmp/r'' = [''tmp'', ''r'']"
  by (simp add: temp_name_def is_abs_def clean_path_def clean_segs_def clean_seg_def path_names_def Let_def)

theorem extraction_confined_witness:
  "same_outside [''tmp'', ''r''] (Dir [(''tmp'', Dir [(''r'', Dir [])])])
     (snd (extract_tar_gz sample_codec ''evil'' ''/tmp/r'' (Dir [(''tmp'', Dir [(''r'', Dir [])])])))"
  using extraction_confined [of "''/tmp/r''" "Dir [(''tmp'', Dir [(''r'', Dir [])])]" sample_codec "''evil''"] sample_temp
  by simp

subsection \<open>Temporary directories\<close>

definition fresh_temp :: "node \<Rightarrow> string \<Rightarrow> bool" where
  "fresh_temp fs tmp \<longleftrightarrow> temp_name tmp \<and> node_at fs (path_names tmp) = None \<and> dir_at fs (butlast (path_names tmp))"

lemma nothing_below: "node_at fs d = None \<Longrightarrow> prefix d p \<Longrightarrow> file_at fs p = None \<and> \<not> dir_at fs p"
  by (auto simp: prefix_def file_at_def dir_at_def node_at_append)

lemma fresh_temp_same: "same_disk fs fs' \<Longrightarrow> fresh_temp fs tmp \<Longrightarrow> fresh_temp fs' tmp"
  using node_at_cases [of fs "path_names tmp"] node_at_cases [of fs' "path_names tmp"]
  by (auto simp: fresh_temp_def same_disk_def)

lemma up_to_butlast: "p \<noteq> [] \<Longrightarrow> prefix q p \<Longrightarrow> q \<noteq> p \<Longrightarrow> prefix q (butlast p)"
  by (metis append_butlast_last_id prefix_snoc)

lemma make_temp:
  assumes "fresh_temp fs tmp"
  shows "\<exists>fs1. mkdir_temp (Some tmp) fs = Some fs1 \<and> same_outside (path_names tmp) fs fs1 \<and>
    (\<forall>q. file_at fs1 (path_names tmp @ q) = None \<and> (dir_at fs1 (path_names tmp @ q) \<longleftrightarrow> q = [])) \<and>
    (tree_ok fs \<longrightarrow> tree_ok fs1)"
proof -
  let ?d = "path_names tmp"
  have t: "temp_name tmp" "node_at fs ?d = None" "dir_at fs (butlast ?d)" using assms by (simp_all add: fresh_temp_def)
  have ne: "?d \<noteq> []" by (rule temp_stack(2) [OF t(1)])
  have above: "dir_at fs q" if "prefix q ?d" "q \<noteq> ?d" for q
    using up_to_butlast [OF ne that] dirs_above [OF t(3)] t(3) by (metis prefix_order.order_iff_strict)
  have "\<forall>q. prefix q ?d \<longrightarrow> file_at fs q = None"
    using above nothing_below [OF t(2)] file_not_dir by (metis not_None_eq prefix_order.order_refl)
  then obtain fs1 where m: "mkdirs ?d fs = Some fs1" using mkdirs_success by fastforce
  have "same_outside ?d fs fs1"
    using mkdirs_frame [OF m] above by (auto simp: same_outside_def)
  moreover have "file_at fs1 (?d @ q) = None \<and> (dir_at fs1 (?d @ q) \<longleftrightarrow> q = [])" for q
    using mkdirs_frame [OF m, of "?d @ q"] nothing_below [OF t(2), of "?d @ q"] by auto
  moreover have "tree_ok fs \<longrightarrow> tree_ok fs1" using mkdirs_ok [OF m] temp_stack(3) [OF t(1)] by blast
  ultimately show ?thesis using m by (auto simp: mkdir_temp_def)
qed

lemma clear_temp:
  assumes "fresh_temp fs tmp" "same_outside (path_names tmp) fs fs2"
  shows "same_disk fs (remove_all (path_names tmp) fs2)"
proof -
  have "path_names tmp \<noteq> []" "node_at fs (path_names tmp) = None"
    using assms(1) temp_stack(2) by (auto simp: fresh_temp_def)
  then show ?thesis
    using assms(2) nothing_below by (auto simp: same_disk_def same_outside_def remove_all_frame)
qed

lemma verify_integrity_disk:
  assumes "fresh_temp fs tmp"
  shows "same_disk fs (snd (verify_backup_integrity cd cwd (Some tmp) d fs))"
proof -
  obtain fs1 where m: "mkdir_temp (Some tmp) fs = Some fs1" "same_outside (path_names tmp) fs fs1" "dir_at fs1 (path_names tmp)"
    using make_temp [OF assms] by (metis append_Nil2)
  obtain r fs2 where x: "extract_tar_gz cd d tmp fs1 = (r, fs2)" by fastforce
  have "same_outside (path_names tmp) fs1 fs2"
    using extract_tar_gz_confined [of tmp cd d] assms m(3) x by (auto simp: confined_def fresh_temp_def)
  then have "same_disk fs (remove_all (path_names tmp) fs2)"
    using clear_temp [OF assms] m(2) same_outside_trans by blast
  then show ?thesis using m(1) x by (cases r) (auto simp: verify_backup_integrity_def)
qed

text \<open>
  verifying a back-up leaves the disk as it was, whatever the file holds.
\<close>

theorem verify_leaves_disk:
  assumes "fresh_temp fs tmp"
  shows "same_disk fs (snd (verify_backup cd cwd (Some tmp) backupFile password fs))"
proof -
  obtain fs1 where m: "mkdir_temp (Some tmp) fs = Some fs1" "same_outside (path_names tmp) fs fs1" "dir_at fs1 (path_names tmp)"
    using make_temp [OF assms] by (metis append_Nil2)
  have "same_disk fs (remove_all (path_names tmp) (snd (extract_tar_gz cd a tmp fs1)))" for a
    using clear_temp [OF assms] same_outside_trans [OF m(2)] extract_tar_gz_confined [of tmp cd a] assms m(3)
    by (auto simp: confined_def fresh_temp_def)
  then show ?thesis
    using m(1) by (auto simp: verify_backup_def Let_def split: option.split sum.split prod.split) (metis snd_conv)+
qed

definition sample_disk :: node where
  "sample_disk = Dir [(''tmp'', Dir []), (''b'', Dir [(''x.tar.gz'', File (Some ''evil''))])]"

lemma sample_fresh: "fresh_temp sample_disk ''/tmp/r''"
  using sample_temp by (simp add: fresh_temp_def sample_disk_def)

theorem verify_leaves_disk_witness:
  "same_disk sample_disk (snd (verify_backup sample_codec ''/'' (Some ''/tmp/r'') ''/b/x.tar.gz'' [] sample_disk))"
  by (rule verify_leaves_disk [OF sample_fresh])

subsection \<open>What an archive holds\<close>

text \<open>
  The parts of a back-up with their names in the archive and their places on the disk; together they
  are one tree, whose walk gives the entries.
\<close>

definition content_parts :: "string \<Rightarrow> node \<Rightarrow> backup_options \<Rightarrow> (bool \<times> string \<times> string list) list" where
  "content_parts cwd fs opts =
     (let c = os_path cwd (bo_configDir opts); d = os_path cwd (bo_dataDir opts)
      in [(True, ''server.yml'', c @ [''server.yml'']),
          (True, ''server.db'', d @ [''server.db'']),
          (file_at fs (d @ [''users.db'']) \<noteq> None, ''users.db'', d @ [''users.db'']),
          (dir_at fs (c @ [''template'']), ''template'', c @ [''template'']),
          (dir_at fs (c @ [''theme'']), ''theme'', c @ [''theme'']),
          (bo_includeSSL opts \<and> dir_at fs (c @ [''ssl'']), ''ssl'', c @ [''ssl'']),
          (bo_includeData opts \<and> dir_at fs d, ''data'', d)])"

definition node_there :: "node \<Rightarrow> string list \<Rightarrow> node" where
  "node_there fs p = opt_or (node_at fs p) (Dir [])"

definition content_listing :: "string \<Rightarrow> node \<Rightarrow> backup_options \<Rightarrow> (string \<times> node) list" where
  "content_listing cwd fs opts = map (\<lambda>(b, n, p). (n, node_there fs p)) (filter fst (content_parts cwd fs opts))"

definition parts_of :: "node \<Rightarrow> walked" where
  "parts_of t = tl (walk [] t)"

definition tar_entry_of :: "string list \<times> string option option \<Rightarrow> tar_entry" where
  "tar_entry_of pe = \<lparr>te_name = join ''/'' (fst pe), te_type = (case snd pe of None \<Rightarrow> TypeDir | Some _ \<Rightarrow> TypeReg),
     te_data = opt_or (opt_or (snd pe) None) []\<rparr>"

definition readable :: "walked \<Rightarrow> bool" where
  "readable es \<longleftrightarrow> list_all (\<lambda>pe. snd pe \<noteq> Some None) es"

lemma dir_entries_Inr:
  assumes "dir_entries n es = Inr ts" "name_ok n" "\<forall>pe\<in>set es. \<forall>s\<in>set (fst pe). name_ok s"
  shows "ts = map (\<lambda>pe. tar_entry_of (n # fst pe, snd pe)) es \<and> readable es"
  using assms
proof (induction es arbitrary: ts)
  case (Cons pe es)
  obtain p e where pe: "pe = (p, e)" by fastforce
  obtain us where us: "dir_entries n es = Inr us" "e \<noteq> Some None"
    using Cons.prems(1) pe by (auto split: option.splits sum.splits)
  have "us = map (\<lambda>pe. tar_entry_of (n # fst pe, snd pe)) es \<and> readable es" using Cons us by auto
  then show ?case using Cons.prems us tar_name_plain [OF Cons.prems(2), of p]
    by (auto simp: pe tar_entry_of_def readable_def split: option.splits)
qed (simp add: readable_def)

lemma node_names: "tree_ok t \<Longrightarrow> node_at t p \<noteq> None \<Longrightarrow> \<forall>s\<in>set p. name_ok s"
proof (induction t p rule: node_at.induct)
  case (3 ns n p)
  then obtain t where t: "map_of ns n = Some t" by (auto split: option.splits)
  then have "name_ok n" "tree_ok t" using 3(2) map_of_SomeD [OF t] by (auto simp: list_all_iff)
  then show ?case using 3 t by auto
qed auto

lemma walk_names:
  assumes "tree_ok t"
  shows "\<forall>pe\<in>set (walk [] t). \<forall>s\<in>set (fst pe). name_ok s"
proof
  fix pe assume m: "pe \<in> set (walk [] t)"
  obtain p e where pe: "pe = (p, e)" by fastforce
  have "case e of None \<Rightarrow> dir_at t p | Some c \<Rightarrow> file_at t p = Some c"
    using m walk_mem [OF assms, of p e "[]"] by (simp add: pe)
  then have "node_at t p \<noteq> None" using node_at_cases [of t p] by (cases e) auto
  then show "\<forall>s\<in>set (fst pe). name_ok s" using node_names [OF assms] by (simp add: pe)
qed

lemma walk_under: "walk [n] t = map (\<lambda>pe. (n # fst pe, snd pe)) (walk [] t)"
  using walk_shift [of "[n]" "[]" t] by (simp add: apfst_def map_prod_def case_prod_unfold)

lemma readable_simps [simp]: "readable (xs @ ys) \<longleftrightarrow> readable xs \<and> readable ys" "readable []"
  "readable (map (\<lambda>pe. (g (fst pe), snd pe)) es) = readable es"
  by (auto simp: readable_def list_all_iff)

lemma readable_under [simp]: "readable (walk [n] t) \<longleftrightarrow> readable (walk [] t)"
  by (simp add: readable_def walk_under list_all_iff)

lemma in_turn_Cons: "in_turn (r # rs) = Inr es \<longleftrightarrow> (\<exists>ts us. r = Inr ts \<and> in_turn rs = Inr us \<and> es = ts @ us)"
  by (auto split: sum.splits)

lemma add_path_Inr:
  assumes "add_path_to_tar cwd fs a n = Inr ts" "is_abs cwd" "name_ok n"
  shows "ts = map tar_entry_of (walk [n] (node_there fs (os_path cwd a @ [n]))) \<and>
    readable (walk [n] (node_there fs (os_path cwd a @ [n])))"
proof -
  obtain d where "file_at fs (os_path cwd a @ [n]) = Some (Some d)" "ts = [\<lparr>te_name = n, te_type = TypeReg, te_data = d\<rparr>]"
    using assms os_path_join [OF assms(2,3), of a]
    by (auto simp: add_path_to_tar_def read_at_def split: if_splits option.splits)
  then show ?thesis
    by (auto simp: node_there_def file_at_def tar_entry_of_def readable_def split: option.splits node.splits)
qed

lemma add_dir_Inr:
  assumes "add_dir_to_tar cwd fs src n = Inr ts" "tree_ok fs" "name_ok n"
  shows "ts = map tar_entry_of (walk [n] (node_there fs (os_path cwd src))) \<and> readable (walk [n] (node_there fs (os_path cwd src)))"
proof -
  obtain t where t: "node_at fs (os_path cwd src) = Some t" "dir_entries n (walk [] t) = Inr ts"
    using assms(1) by (auto simp: add_dir_to_tar_def split: option.splits)
  have "tree_ok t" by (rule tree_ok_node_at [OF assms(2) t(1)])
  then show ?thesis
    using dir_entries_Inr [OF t(2) assms(3)] walk_names t(1) by (simp add: node_there_def walk_under comp_def)
qed

definition part_entries :: "bool \<Rightarrow> string \<Rightarrow> node \<Rightarrow> walked" where
  "part_entries b n t = (if b then walk [n] t else [])"

lemma part_file:
  assumes "only_if b (add_path_to_tar cwd fs a n) = Inr ts" "is_abs cwd" "name_ok n"
  shows "ts = map tar_entry_of (part_entries b n (node_there fs (os_path cwd a @ [n]))) \<and>
    readable (part_entries b n (node_there fs (os_path cwd a @ [n])))"
  using assms add_path_Inr [of cwd fs a n ts] by (auto simp: only_if_def part_entries_def split: if_splits)

lemma part_dir:
  assumes "only_if b (add_dir_to_tar cwd fs src n) = Inr ts" "tree_ok fs" "name_ok n" "os_path cwd src = p"
  shows "ts = map tar_entry_of (part_entries b n (node_there fs p)) \<and> readable (part_entries b n (node_there fs p))"
  using assms add_dir_Inr [of cwd fs src n ts] by (auto simp: only_if_def part_entries_def split: if_splits)

lemma names_evals: "name_ok ''server.yml''" "name_ok ''server.db''" "name_ok ''users.db''" "name_ok ''template''"
  "name_ok ''theme''" "name_ok ''ssl''" "name_ok ''data''" "name_ok ''manifest.json''"
  by (simp_all add: name_ok_def normal_seg_def)

lemma walk_listing: "parts_of (Dir ns) = concat (map (\<lambda>(n, t). walk [n] t) ns)"
  by (simp add: parts_of_def)

lemma walk_filter:
  "concat (map (\<lambda>(n, t). walk [n] t) (map (\<lambda>(b, n, p). (n, f p)) (filter fst ps))) =
   concat (map (\<lambda>(b, n, p). part_entries b n (f p)) ps)"
  by (induction ps) (auto simp: part_entries_def)

text \<open>The entries of an archive are those of the walk of its tree, and every file could be read.\<close>

lemma content_entries:
  assumes "build_content_entries cwd fs opts = Inr es" "is_abs cwd" "tree_ok fs"
  shows "es = map tar_entry_of (parts_of (Dir (content_listing cwd fs opts))) \<and>
    readable (parts_of (Dir (content_listing cwd fs opts)))"
proof -
  let ?c = "bo_configDir opts" and ?d = "bo_dataDir opts"
  note j = os_path_join [OF assms(2)] names_evals
  note fil = part_file [OF _ assms(2)] and dr = part_dir [OF _ assms(3)]
  have one: "only_if True r = r" for r by (simp add: only_if_def)
  obtain e1 e2 e3 e4 e5 e6 e7 where e:
    "only_if True (add_path_to_tar cwd fs ?c ''server.yml'') = Inr e1" "only_if True (add_path_to_tar cwd fs ?d ''server.db'') = Inr e2"
    "only_if (file_exists cwd fs (path_join ?d ''users.db'')) (add_path_to_tar cwd fs ?d ''users.db'') = Inr e3"
    "only_if (dir_exists cwd fs (path_join ?c ''template'')) (add_dir_to_tar cwd fs (path_join ?c ''template'') ''template'') = Inr e4"
    "only_if (dir_exists cwd fs (path_join ?c ''theme'')) (add_dir_to_tar cwd fs (path_join ?c ''theme'') ''theme'') = Inr e5"
    "only_if (bo_includeSSL opts \<and> dir_exists cwd fs (path_join ?c ''ssl'')) (add_dir_to_tar cwd fs (path_join ?c ''ssl'') ''ssl'') = Inr e6"
    "only_if (bo_includeData opts \<and> dir_exists cwd fs ?d) (add_dir_to_tar cwd fs ?d ''data'') = Inr e7"
    and es: "es = e1 @ e2 @ e3 @ e4 @ e5 @ e6 @ e7"
    using assms(1) unfolding build_content_entries_def Let_def in_turn_Cons one by auto
  have conds: "file_exists cwd fs (path_join ?d ''users.db'') \<longleftrightarrow> file_at fs (os_path cwd ?d @ [''users.db'']) \<noteq> None"
    "dir_exists cwd fs (path_join ?c ''template'') = dir_at fs (os_path cwd ?c @ [''template''])"
    "dir_exists cwd fs (path_join ?c ''theme'') = dir_at fs (os_path cwd ?c @ [''theme''])"
    "dir_exists cwd fs (path_join ?c ''ssl'') = dir_at fs (os_path cwd ?c @ [''ssl''])"
    "dir_exists cwd fs ?d = dir_at fs (os_path cwd ?d)"
    by (simp_all add: file_exists_def dir_exists_def j)
  show ?thesis
    unfolding walk_listing content_listing_def walk_filter es content_parts_def Let_def
    using fil [OF e(1) names_evals(1)] fil [OF e(2) names_evals(2)] fil [OF e(3) names_evals(3)]
      dr [OF e(4) names_evals(4) j(1) [OF names_evals(4)]] dr [OF e(5) names_evals(5) j(1) [OF names_evals(5)]]
      dr [OF e(6) names_evals(6) j(1) [OF names_evals(6)]] dr [OF e(7) names_evals(7) refl]
    unfolding conds by simp
qed

lemma content_tree_ok: "tree_ok fs \<Longrightarrow> tree_ok (Dir (content_listing cwd fs opts))"
proof -
  assume ok: "tree_ok fs"
  have "tree_ok (node_there fs p)" for p using tree_ok_node_at [OF ok] by (cases "node_at fs p") (auto simp: node_there_def)
  moreover have "name_ok n" if "(b, n, p) \<in> set (content_parts cwd fs opts)" for b n p
    using that names_evals by (auto simp: content_parts_def Let_def)
  moreover have "distinct (map (\<lambda>(b, n, p). n) (content_parts cwd fs opts))"
    by (simp add: content_parts_def Let_def)
  then have "distinct (map (\<lambda>(b, n, p). n) (filter fst (content_parts cwd fs opts)))" by (rule distinct_map_filter)
  then have "distinct (keys (content_listing cwd fs opts))" by (simp add: content_listing_def comp_def case_prod_unfold)
  ultimately show ?thesis by (auto simp: content_listing_def list_all_iff)
qed

subsection \<open>Archives of a tree\<close>

definition below :: "string list \<Rightarrow> walked \<Rightarrow> walked" where
  "below d es = map (\<lambda>pe. (d @ fst pe, snd pe)) es"

lemma make_file_put: "put_file p (Some d) fs = Some u \<Longrightarrow> \<exists>fs'. make_file p d fs = (Some u, fs')"
  using put_file_steps by (fastforce simp: make_file_def)

lemma extract_place:
  assumes "place (below (path_names d) es) fs = (Some u, u)" "temp_name d" "distinct (keys es)" "readable es"
    and "\<forall>pe\<in>set es. fst pe \<noteq> [] \<and> (\<forall>s\<in>set (fst pe). name_ok s) \<and> file_at fs (path_names d @ fst pe) = None"
    and "\<And>pe. pe \<in> set es \<Longrightarrow> ex (tar_entry_of pe) = extract_entry w (path_join d (join ''/'' (fst pe))) (tar_entry_of pe)"
    and "\<And>x. w [] x = x"
  shows "extract_entries ex (map tar_entry_of es) fs = (None, u)"
  using assms(1,3-6)
proof (induction es arbitrary: fs)
  case (Cons pe es)
  obtain p e where pe: "pe = (p, e)" by fastforce
  have n: "path_names (path_join d (join ''/'' p)) = path_names d @ p"
    using plain_target(1) [OF assms(2), of p] Cons.prems(4) by (simp add: pe)
  obtain fs' where fs': "(case e of None \<Rightarrow> mkdirs (path_names d @ p) fs | Some c \<Rightarrow> put_file (path_names d @ p) c fs) = Some fs'"
    "place (below (path_names d) es) fs' = (Some u, u)"
    using Cons.prems(1) by (auto simp: below_def pe split: option.splits)
  have "file_at fs (path_names d @ p) = None" using Cons.prems(4) by (simp add: pe)
  then have x: "ex (tar_entry_of pe) fs = (None, fs')"
    using fs'(1) Cons.prems(3) Cons.prems(5) [of pe] n assms(7)
    by (auto simp: pe extract_entry_def tar_entry_of_def readable_def Let_def split: option.splits dest!: make_file_put)
  have "file_at fs' (path_names d @ fst pe') = None" if "pe' \<in> set es" for pe'
  proof -
    have "fst pe' \<noteq> p" using that Cons.prems(2) by (auto simp: pe)
    then show ?thesis
      using fs'(1) that Cons.prems(4) mkdirs_frame [of "path_names d @ p" fs fs' "path_names d @ fst pe'"]
        put_file_frame [of "path_names d @ p" _ fs fs' "path_names d @ fst pe'"] by (auto split: option.splits)
  qed
  then have "extract_entries ex (map tar_entry_of es) fs' = (None, u)"
    using Cons.IH [OF fs'(2)] Cons.prems by (auto simp: readable_def)
  then show ?case using x by simp
qed (simp add: below_def)

lemma below_walk: "below d (walk [] t) = walk d t"
  using walk_shift [of d "[]" t] by (simp add: below_def apfst_def map_prod_def case_prod_unfold)

lemma roomy_empty:
  assumes "dir_at fs d" "\<forall>q. file_at fs (d @ q) = None \<and> (dir_at fs (d @ q) \<longleftrightarrow> q = [])"
    and "\<forall>pe\<in>set es. fst pe \<noteq> []"
  shows "roomy (below d es) fs"
  unfolding roomy_def
proof (clarify, intro conjI allI impI)
  fix p e assume m: "(p, e) \<in> set (below d es)"
  then obtain q where q: "p = d @ q" "q \<noteq> []" using assms(3) by (auto simp: below_def)
  show "if e = None then file_at fs p = None else p \<noteq> [] \<and> \<not> dir_at fs p" using assms(2) q by auto
  fix r assume r: "strict_prefix r p"
  show "file_at fs r = None"
  proof (cases "prefix d r")
    case True
    then show ?thesis using assms(2) by (auto simp: prefix_def)
  next
    case False
    then have "strict_prefix r d" using r q by (metis prefixI prefix_order.less_imp_le prefix_order.order_iff_strict prefix_same_cases)
    then show ?thesis using assms(1) above_strict [of fs d r] node_at_cases [of fs d] by blast
  qed
qed

lemma parts_walk:
  assumes "tree_ok (Dir ns)"
  shows "walk d (Dir ns) = (d, None) # below d (parts_of (Dir ns))" "distinct (keys (parts_of (Dir ns)))"
    "[] \<notin> set (keys (parts_of (Dir ns)))" "pe \<in> set (parts_of (Dir ns)) \<Longrightarrow> \<forall>s\<in>set (fst pe). name_ok s"
proof -
  have w: "walk [] (Dir ns) = ([], None) # parts_of (Dir ns)" by (simp add: parts_of_def)
  show "walk d (Dir ns) = (d, None) # below d (parts_of (Dir ns))"
    using below_walk [of d "Dir ns"] unfolding w by (simp add: below_def)
  show "distinct (keys (parts_of (Dir ns)))" "[] \<notin> set (keys (parts_of (Dir ns)))"
    using distinct_walk [OF assms, of "[]"] unfolding w by simp_all
  show "pe \<in> set (parts_of (Dir ns)) \<Longrightarrow> \<forall>s\<in>set (fst pe). name_ok s"
    using walk_names [OF assms] unfolding w by simp
qed

lemma parts_mem:
  assumes "tree_ok (Dir ns)"
  shows "(r, e) \<in> set (parts_of (Dir ns)) \<longleftrightarrow>
    (case e of None \<Rightarrow> r \<noteq> [] \<and> dir_at (Dir ns) r | Some c \<Rightarrow> file_at (Dir ns) r = Some c)"
proof -
  have "(r, e) \<in> set (walk [] (Dir ns)) \<longleftrightarrow> (case e of None \<Rightarrow> dir_at (Dir ns) r | Some c \<Rightarrow> file_at (Dir ns) r = Some c)"
    using walk_mem [OF assms, of r e "[]"] by simp
  moreover have "walk [] (Dir ns) = ([], None) # parts_of (Dir ns)" by (simp add: parts_of_def)
  moreover have "r \<noteq> []" if "(r, e) \<in> set (parts_of (Dir ns))" using that parts_walk(3) [OF assms] by force
  ultimately show ?thesis by (cases e) (auto simp del: walk.simps)
qed

lemma strict_below [simp]: "strict_prefix (d @ q) (d @ r) = strict_prefix q r"
  by (auto simp: strict_prefix_def)

lemma place_tree_dirs:
  assumes "tree_ok (Dir ns)" "place (below d (parts_of (Dir ns))) fs = (Some u, u)"
    and "\<forall>q. dir_at fs (d @ q) \<longleftrightarrow> q = []"
  shows "dir_at u (d @ q) = dir_at (Dir ns) q"
proof -
  note fr = place_frame [OF assms(2), of "d @ q", THEN conjunct2, THEN conjunct2]
  show ?thesis
  proof
    assume "dir_at u (d @ q)"
    then consider "q = []" | r e where "(r, e) \<in> set (parts_of (Dir ns))" "e = None \<and> prefix q r \<or> strict_prefix q r"
      using fr assms(3) by (auto simp: below_def split: if_splits)
    then show "dir_at (Dir ns) q"
    proof cases
      case 2
      then have c: "case e of None \<Rightarrow> dir_at (Dir ns) r | Some c \<Rightarrow> file_at (Dir ns) r = Some c"
        using parts_mem [OF assms(1)] by (cases e) auto
      then have "node_at (Dir ns) r \<noteq> None" using node_at_cases [of "Dir ns" r] by (cases e) auto
      then show ?thesis using 2(2) c above_strict [of "Dir ns" r q] by (cases e; cases "q = r") (auto simp: strict_prefix_def)
    qed simp
  next
    assume a: "dir_at (Dir ns) q"
    show "dir_at u (d @ q)"
    proof (cases "q = []")
      case False
      then have "(q, None) \<in> set (parts_of (Dir ns))" using parts_mem [OF assms(1), of q None] a by simp
      then have "(d @ q, None) \<in> set (below d (parts_of (Dir ns)))" by (force simp: below_def)
      then show ?thesis using fr by fastforce
    qed (use fr assms(3) in blast)
  qed
qed

text \<open>Below an empty directory the parts of a tree can be placed, and give the tree.\<close>

lemma place_tree:
  assumes "tree_ok (Dir ns)" "\<forall>q. file_at fs (d @ q) = None \<and> (dir_at fs (d @ q) \<longleftrightarrow> q = [])" "\<forall>s\<in>set d. name_ok s"
  shows "\<exists>u. place (below d (parts_of (Dir ns))) fs = (Some u, u) \<and>
    (\<forall>q. file_at u (d @ q) = file_at (Dir ns) q \<and> dir_at u (d @ q) = dir_at (Dir ns) q) \<and> (tree_ok fs \<longrightarrow> tree_ok u)"
proof -
  note w = parts_walk [OF assms(1)]
  have dD: "dir_at fs d" using assms(2) by (metis append_Nil2)
  have "roomy (below d (parts_of (Dir ns))) fs"
    by (rule roomy_empty [OF dD assms(2)]) (use w(3) in force)
  moreover have "clash_free (below d (parts_of (Dir ns)))"
    using clash_free_subset [OF clash_free_walk [OF assms(1), of d]] w(1) [of d] by (metis set_subset_Cons)
  ultimately obtain u where u: "place (below d (parts_of (Dir ns))) fs = (Some u, u)" using place_success by blast
  have "file_at u (d @ q) = file_at (Dir ns) q" for q
  proof -
    have "last_write (below d (parts_of (Dir ns))) (d @ q) = last_write (walk d (Dir ns)) (d @ q)"
      unfolding w(1) [of d] by (auto split: option.split)
    then show ?thesis using place_frame [OF u, of "d @ q"] last_write_walk(1) [OF assms(1), of d q] assms(2) by (auto split: option.splits)
  qed
  moreover have "dir_at u (d @ q) = dir_at (Dir ns) q" for q using place_tree_dirs [OF assms(1) u] assms(2) by blast
  moreover have "\<forall>pe\<in>set (below d (parts_of (Dir ns))). \<forall>s\<in>set (fst pe). name_ok s"
    using w(4) assms(3) by (auto simp: below_def)
  then have "tree_ok fs \<longrightarrow> tree_ok u" using place_ok [OF u] by blast
  ultimately show ?thesis using u by blast
qed

text \<open>
  The entries of a tree, extracted to an empty directory, give the tree, by either of the two
  functions.
\<close>

lemma extract_tree:
  assumes "temp_name d" "tree_ok (Dir ns)" "readable (parts_of (Dir ns))"
    and "\<forall>q. file_at fs (path_names d @ q) = None \<and> (dir_at fs (path_names d @ q) \<longleftrightarrow> q = [])"
    and "cd_read cd archive = Some (map tar_entry_of (parts_of (Dir ns)), True)"
  shows "\<exists>u. extract_tar_gz cd archive d fs = (None, u) \<and> extract_backup cd archive d fs = (None, u) \<and>
    (\<forall>q. file_at u (path_names d @ q) = file_at (Dir ns) q \<and> dir_at u (path_names d @ q) = dir_at (Dir ns) q) \<and>
    (tree_ok fs \<longrightarrow> tree_ok u)"
proof -
  define es where "es = parts_of (Dir ns)"
  note w = parts_walk [OF assms(2), folded es_def]
  obtain u where u: "place (below (path_names d) es) fs = (Some u, u)" and
    v: "\<forall>q. file_at u (path_names d @ q) = file_at (Dir ns) q \<and> dir_at u (path_names d @ q) = dir_at (Dir ns) q"
      "tree_ok fs \<longrightarrow> tree_ok u"
    using place_tree [OF assms(2,4) temp_stack(3) [OF assms(1)]] by (auto simp: es_def)
  have ok: "\<forall>pe\<in>set es. fst pe \<noteq> [] \<and> (\<forall>s\<in>set (fst pe). name_ok s) \<and> file_at fs (path_names d @ fst pe) = None"
    using w(3,4) assms(4) by force
  note x = extract_place [OF u assms(1) w(2) assms(3) [folded es_def] ok]
  have nm: "te_name (tar_entry_of pe) = join ''/'' (fst pe)" for pe by (simp add: tar_entry_of_def)
  have pl: "pe \<in> set es \<Longrightarrow> is_local (join ''/'' (fst pe)) \<and> has_prefix (path_join d (join ''/'' (fst pe))) (clean_path d @ ''/'')" for pe
    using plain_join(3) [of "fst pe"] plain_target(2) [OF assms(1), of "fst pe"] ok by blast
  have "extract_tar_gz cd archive d fs = (None, u)"
    unfolding extract_tar_gz_def extract_archive_def assms(5) es_def [symmetric]
    by (simp, subst x [where w = "\<lambda>old new. new"]) (use pl nm in auto)
  moreover have "extract_backup cd archive d fs = (None, u)"
    unfolding extract_backup_def extract_archive_def assms(5) es_def [symmetric]
    by (simp, subst x [where w = "\<lambda>old new. new @ drop (length new) old"]) (use pl nm in \<open>auto simp: Let_def\<close>)
  ultimately show ?thesis using v by blast
qed

subsection \<open>The copies of a restore\<close>

lemma copy_content_put: "put_file p (Some d) fs = Some u \<Longrightarrow> copy_content (Some d) p fs = (None, u)"
  using put_file_steps by (fastforce simp: copy_content_def)

lemma copy_file_place:
  "file_at fs src = Some (Some c) \<Longrightarrow> place (below dst (walk [] (File (Some c)))) fs = (Some u, u) \<Longrightarrow>
   copy_file src dst fs = (None, u)"
  by (auto simp: copy_file_def below_def copy_content_put split: option.splits)

lemma copy_walk_place:
  "place (below dst es) fs = (Some u, u) \<Longrightarrow> readable es \<Longrightarrow> copy_walk dst es fs = (None, u)"
  by (induction dst es fs rule: copy_walk.induct) (auto simp: below_def readable_def copy_content_put split: option.splits)

lemma mkdirs_again: "mkdirs p t = Some t' \<Longrightarrow> mkdirs p t' = Some t'"
proof (induction p t arbitrary: t' rule: mkdirs.induct)
  case (3 n p ns)
  then obtain u where u: "mkdirs p (opt_or (map_of ns n) (Dir [])) = Some u" "t' = Dir (upd n u ns)" by auto
  then show ?case using "3.IH" [OF u(1)] by (simp add: upd_upd)
qed auto

lemma copy_dir_place:
  assumes "node_at fs src = Some t" "tree_ok t" "dst \<parallel> src" "readable (walk [] t)" "t = Dir ns"
    and "place (below dst (walk [] t)) fs = (Some u, u)"
  shows "copy_dir src dst fs = (None, u)"
proof -
  obtain fs' where fs': "mkdirs dst fs = Some fs'" using assms(5,6) by (auto simp: below_def split: option.splits)
  have "node_at fs' src = Some t" using mkdirs_parallel [OF fs' assms(3)] assms(1) by simp
  moreover have "place (below dst (walk [] t)) fs' = (Some u, u)"
    using assms(5,6) fs' mkdirs_again [OF fs'] by (simp add: below_def)
  ultimately show ?thesis using fs' copy_walk_place [OF _ assms(4)] by (simp add: copy_dir_def)
qed

text \<open>
  Where the parts of an extracted archive go, and the list of all that is put in place when the parts
  are those of the tree \<open>a\<close>.
\<close>

definition restore_targets :: "string \<Rightarrow> restore_options \<Rightarrow> (string \<times> string list) list" where
  "restore_targets cwd ro =
     (let c = os_path cwd (ro_configDir ro); d = os_path cwd (ro_dataDir ro)
      in [(''server.yml'', c @ [''server.yml'']), (''server.db'', d @ [''server.db'']), (''users.db'', d @ [''users.db'']),
          (''template'', c @ [''template'']), (''theme'', c @ [''theme'']), (''ssl'', c @ [''ssl'']), (''data'', d)])"

definition target_part :: "node \<Rightarrow> string \<times> string list \<Rightarrow> walked" where
  "target_part a nd = (case node_at a [fst nd] of None \<Rightarrow> [] | Some t \<Rightarrow> below (snd nd) (walk [] t))"

definition restore_plan :: "string \<Rightarrow> restore_options \<Rightarrow> node \<Rightarrow> walked" where
  "restore_plan cwd ro a = concat (map (target_part a) (restore_targets cwd ro))"

lemma target_part_mem:
  assumes "tree_ok a"
  shows "(q, e) \<in> set (target_part a (n, d)) \<longleftrightarrow>
    (\<exists>p. q = d @ p \<and> (case e of None \<Rightarrow> dir_at a (n # p) | Some c \<Rightarrow> file_at a (n # p) = Some c))"
proof (cases "node_at a [n]")
  case None
  then have "node_at a (n # p) = None" for p using node_at_append [of a "[n]" p] by simp
  then have "file_at a (n # p) = None" "\<not> dir_at a (n # p)" for p by (simp_all add: file_at_def dir_at_def)
  then show ?thesis using None by (cases e) (auto simp: target_part_def)
next
  case (Some t)
  note nt = file_at_node [OF Some]
  have "tree_ok t" by (rule tree_ok_node_at [OF assms Some])
  then have "(q, e) \<in> set (below d (walk [] t)) \<longleftrightarrow> (\<exists>p. q = d @ p \<and> (case e of None \<Rightarrow> dir_at t p | Some c \<Rightarrow> file_at t p = Some c))"
    using walk_mem [of t q e d] by (simp add: below_walk)
  then show ?thesis using Some nt by (simp add: target_part_def split: option.split)
qed

lemma run_steps_place:
  assumes "\<forall>x\<in>set sts. \<forall>fs' u. node_at fs' (D @ [fst (snd x)]) = node_at a [fst (snd x)] \<longrightarrow>
      place (target_part a (snd x)) fs' = (Some u, u) \<longrightarrow> fst x fs' = (None, u)"
    and "place (concat (map (target_part a) (map snd sts))) fs = (Some u, u)"
    and "\<forall>x\<in>set sts. snd (snd x) \<parallel> D" "\<forall>n. node_at fs (D @ [n]) = node_at a [n]"
  shows "run_steps (map fst sts) fs = (None, u)"
  using assms
proof (induction sts arbitrary: fs)
  case (Cons x sts)
  obtain st nd where x: "x = (st, nd)" by (cases x)
  obtain v where v: "place (target_part a nd) fs = (Some v, v)" "place (concat (map (target_part a) (map snd sts))) v = (Some u, u)"
    using Cons.prems(2) place_frame [of "target_part a nd" fs] by (auto simp: x place_append split: prod.splits option.splits)
  have "fst pe \<parallel> D @ [n]" if "pe \<in> set (target_part a nd)" for pe n
    using that Cons.prems(3) by (auto simp: x target_part_def below_def intro: parallel_append split: option.splits)
  then have "\<forall>n. node_at v (D @ [n]) = node_at a [n]" using place_parallel [OF v(1)] Cons.prems(4) by metis
  then have "run_steps (map fst sts) v = (None, u)"
    using Cons.prems by (intro Cons.IH [OF _ v(2)]) auto
  then show ?case using Cons.prems(1,4) v(1) by (simp add: x)
qed simp

lemma restore_file_step:
  assumes "is_abs cwd" "temp_name tmp" "name_ok n" "node_at fs (path_names tmp @ [n]) = node_at a [n]"
    and "node_at a [n] = None \<or> (\<exists>x. node_at a [n] = Some (File (Some x)))"
    and "place (target_part a (n, os_path cwd c @ [n])) fs = (Some u, u)"
  shows "restore_file cwd tmp n c fs = (None, u)"
proof -
  have p: "os_path cwd (path_join tmp n) = path_names tmp @ [n]" "os_path cwd (path_join c n) = os_path cwd c @ [n]"
    using os_path_join [OF assms(1,3)] temp_stack(5) [OF assms(2)] by simp_all
  show ?thesis
  proof (cases "node_at a [n]")
    case None
    then show ?thesis using assms(4,6) p by (simp add: restore_file_def file_exists_def file_at_def target_part_def)
  next
    case (Some t)
    then obtain x where t: "t = File (Some x)" using assms(5) by auto
    have f: "file_at fs (path_names tmp @ [n]) = Some (Some x)" using Some assms(4) by (simp add: file_at_def t)
    have "place (below (os_path cwd c @ [n]) (walk [] (File (Some x)))) fs = (Some u, u)"
      using assms(6) Some by (simp add: target_part_def t)
    then show ?thesis using copy_file_place [OF f] f p by (simp add: restore_file_def file_exists_def)
  qed
qed

lemma restore_dir_step:
  assumes "is_abs cwd" "temp_name tmp" "name_ok n" "node_at fs (path_names tmp @ [n]) = node_at a [n]"
    and "node_at a [n] = None \<or> (\<exists>ns. node_at a [n] = Some (Dir ns) \<and> readable (walk [] (Dir ns)))" "tree_ok a"
    and "os_path cwd dest \<parallel> path_names tmp"
    and "place (target_part a (n, os_path cwd dest)) fs = (Some u, u)"
  shows "restore_dir cwd tmp n dest fs = (None, u)"
proof -
  have p: "os_path cwd (path_join tmp n) = path_names tmp @ [n]"
    using os_path_join [OF assms(1,3)] temp_stack(5) [OF assms(2)] by simp
  show ?thesis
  proof (cases "node_at a [n]")
    case None
    then show ?thesis using assms(4,8) p by (simp add: restore_dir_def dir_exists_def dir_at_def target_part_def)
  next
    case (Some t)
    then obtain ns where t: "t = Dir ns" "readable (walk [] t)" using assms(5) by auto
    have "os_path cwd dest \<parallel> path_names tmp @ [n]" using parallel_append [OF assms(7), of "[]" "[n]"] by simp
    moreover have "place (below (os_path cwd dest) (walk [] t)) fs = (Some u, u)"
      using assms(8) Some by (simp add: target_part_def)
    ultimately have "copy_dir (path_names tmp @ [n]) (os_path cwd dest) fs = (None, u)"
      using copy_dir_place [OF _ tree_ok_node_at [OF assms(6) Some] _ t(2) t(1)] assms(4) Some by simp
    moreover have "dir_at fs (path_names tmp @ [n])" using assms(4) Some by (simp add: dir_at_def t(1))
    ultimately show ?thesis using p by (simp add: restore_dir_def dir_exists_def)
  qed
qed

text \<open>A restore puts its plan in place.\<close>

definition restorable :: "node \<Rightarrow> bool" where
  "restorable a \<longleftrightarrow> tree_ok a \<and> (\<forall>q. file_at a q \<noteq> Some None) \<and>
     (\<forall>n\<in>{''server.yml'', ''server.db'', ''users.db''}. \<not> dir_at a [n]) \<and>
     (\<forall>n\<in>{''template'', ''theme'', ''ssl'', ''data''}. file_at a [n] = None)"

lemma readable_iff: "readable es \<longleftrightarrow> (\<forall>q. (q, Some None) \<notin> set es)"
  by (auto simp: readable_def list_all_iff)

lemma readable_walk: "tree_ok t \<Longrightarrow> readable (walk [] t) \<longleftrightarrow> (\<forall>q. file_at t q \<noteq> Some None)"
  by (simp add: readable_iff walk_mem)

lemma restorable_parts:
  assumes "restorable a"
  shows "n \<in> {''server.yml'', ''server.db'', ''users.db''} \<Longrightarrow> node_at a [n] = None \<or> (\<exists>x. node_at a [n] = Some (File (Some x)))"
    and "n \<in> {''template'', ''theme'', ''ssl'', ''data''} \<Longrightarrow>
      node_at a [n] = None \<or> (\<exists>ns. node_at a [n] = Some (Dir ns) \<and> readable (walk [] (Dir ns)))"
proof -
  have a: "tree_ok a" "file_at a q \<noteq> Some None" for q using assms unfolding restorable_def by blast+
  show "n \<in> {''server.yml'', ''server.db'', ''users.db''} \<Longrightarrow> node_at a [n] = None \<or> (\<exists>x. node_at a [n] = Some (File (Some x)))"
  proof -
    assume "n \<in> {''server.yml'', ''server.db'', ''users.db''}"
    then have "\<not> dir_at a [n]" using assms unfolding restorable_def by blast
    then show ?thesis using a(2) [of "[n]"] by (auto simp: file_at_def dir_at_def split: option.splits node.splits)
  qed
  assume n: "n \<in> {''template'', ''theme'', ''ssl'', ''data''}"
  show "node_at a [n] = None \<or> (\<exists>ns. node_at a [n] = Some (Dir ns) \<and> readable (walk [] (Dir ns)))"
  proof (cases "node_at a [n]")
    case (Some t)
    have "\<forall>n\<in>{''template'', ''theme'', ''ssl'', ''data''}. file_at a [n] = None"
      using assms unfolding restorable_def by (elim conjE)
    then have "file_at a [n] = None" using n by (rule bspec)
    then obtain ns where t: "t = Dir ns" using Some by (cases t) (auto simp: file_at_def)
    have "file_at t q \<noteq> Some None" for q using file_at_node [OF Some, of q] a(2) [of "n # q"] by simp
    then have "readable (walk [] t)" using readable_walk [OF tree_ok_node_at [OF a(1) Some]] by blast
    then show ?thesis using Some unfolding t by blast
  qed simp
qed

lemma perform_restore_place:
  assumes "is_abs cwd" "temp_name tmp" "restorable a" "\<forall>n. node_at fs (path_names tmp @ [n]) = node_at a [n]"
    and "os_path cwd (ro_configDir ro) \<parallel> path_names tmp" "os_path cwd (ro_dataDir ro) \<parallel> path_names tmp"
    and "place (restore_plan cwd ro a) fs = (Some u, u)"
  shows "perform_restore cwd tmp ro fs = (None, u)"
proof -
  let ?c = "ro_configDir ro" and ?d = "ro_dataDir ro"
  let ?steps = "[restore_file cwd tmp ''server.yml'' ?c, restore_file cwd tmp ''server.db'' ?d, restore_file cwd tmp ''users.db'' ?d,
    restore_dir cwd tmp ''template'' (path_join ?c ''template''), restore_dir cwd tmp ''theme'' (path_join ?c ''theme''),
    restore_dir cwd tmp ''ssl'' (path_join ?c ''ssl''), restore_dir cwd tmp ''data'' ?d]"
  let ?sts = "zip ?steps (restore_targets cwd ro)"
  note j = os_path_join [OF assms(1)] names_evals
  have cd: "os_path cwd ?c @ x \<parallel> path_names tmp" "os_path cwd ?d @ x \<parallel> path_names tmp" for x
    using parallel_append [OF assms(5), of x "[]"] parallel_append [OF assms(6), of x "[]"] by simp_all
  have a: "tree_ok a" using assms(3) by (simp add: restorable_def)
  have nok1: "name_ok n" if "n \<in> {''server.yml'', ''server.db'', ''users.db''}" for n using that names_evals by blast
  have nok2: "name_ok n" if "n \<in> {''template'', ''theme'', ''ssl'', ''data''}" for n using that names_evals by blast
  have fil: "restore_file cwd tmp n e fs' = (None, u)"
    if "n \<in> {''server.yml'', ''server.db'', ''users.db''}" "node_at fs' (path_names tmp @ [n]) = node_at a [n]"
      "place (target_part a (n, os_path cwd e @ [n])) fs' = (Some u, u)" for n e fs' u
    by (rule restore_file_step [OF assms(1,2) nok1 [OF that(1)] that(2) restorable_parts(1) [OF assms(3) that(1)] that(3)])
  have dir: "restore_dir cwd tmp n e fs' = (None, u)"
    if "n \<in> {''template'', ''theme'', ''ssl'', ''data''}" "node_at fs' (path_names tmp @ [n]) = node_at a [n]"
      "place (target_part a (n, os_path cwd e)) fs' = (Some u, u)" "os_path cwd e \<parallel> path_names tmp" for n e fs' u
    by (rule restore_dir_step [OF assms(1,2) nok2 [OF that(1)] that(2) restorable_parts(2) [OF assms(3) that(1)] a that(4,3)])
  have "run_steps (map fst ?sts) fs = (None, u)"
  proof (rule run_steps_place [where D = "path_names tmp" and a = a])
    show "\<forall>x\<in>set ?sts. \<forall>fs' u. node_at fs' (path_names tmp @ [fst (snd x)]) = node_at a [fst (snd x)] \<longrightarrow>
      place (target_part a (snd x)) fs' = (Some u, u) \<longrightarrow> fst x fs' = (None, u)"
      by (simp add: restore_targets_def Let_def j cd fil dir assms(6))
  next
    show "place (concat (map (target_part a) (map snd ?sts))) fs = (Some u, u)"
      using assms(7) by (simp add: restore_plan_def restore_targets_def Let_def)
    show "\<forall>x\<in>set ?sts. snd (snd x) \<parallel> path_names tmp"
      using cd assms(6) by (simp add: restore_targets_def Let_def)
  qed (rule assms(4))
  then show ?thesis by (simp add: perform_restore_def restore_targets_def Let_def)
qed

end
