(* ===== verification/Restore.thy ===== *)
theory Restore
  imports Backup
begin

text \<open>
  What a back-up promises: an archive that was created is verified, and restoring it brings back every
  file it was made of and touches nothing else. The laws of the packages are those of \<open>codec_ok\<close>.
\<close>

subsection \<open>Laws of the packages\<close>

definition tar_name_ok :: "string \<Rightarrow> bool" where
  "tar_name_ok n \<longleftrightarrow> n \<noteq> [] \<and> last n \<noteq> CHR ''/'' \<and> CHR 0x00 \<notin> set n"

definition ascii :: "string \<Rightarrow> bool" where
  "ascii s \<longleftrightarrow> list_all (\<lambda>c. (of_char c :: nat) < 128) s"

text \<open>
  Archives are read back as they were written (a name that ends in a slash would come back as that of a
  directory), no data is not an archive, JSON keeps texts of ASCII, and AES-GCM opens what it sealed with
  the same key and a nonce of its size.
\<close>

definition codec_ok :: "codec \<Rightarrow> bool" where
  "codec_ok cd \<longleftrightarrow>
     (\<forall>es. list_all (\<lambda>e. tar_name_ok (te_name e)) es \<longrightarrow> cd_read cd (cd_write cd es) = Some (es, True)) \<and>
     cd_read cd [] = None \<and>
     (\<forall>m j. cd_marshal cd m = Some j \<longrightarrow> ascii (mf_checksum m) \<longrightarrow>
        (\<exists>m'. cd_unmarshal cd j = Some m' \<and> mf_checksum m' = mf_checksum m)) \<and>
     (\<forall>k n d. length n = 12 \<longrightarrow> cd_open cd k n (cd_seal cd k n d) = Some d)"

lemma hex_low_ascii: "n < 16 \<Longrightarrow> byte (hex_low n) < 128"
  by (simp add: hex_low_def)

lemma ascii_hex: "ascii (checksum_of cd d)"
proof -
  have "byte c div 16 < 16" for c using byte_bound [of c] by linarith
  then have "ascii (hex_encode s)" for s
    by (induction s) (simp_all add: hex_encode_def ascii_def hex_low_ascii)
  then show ?thesis by (simp add: ascii_def checksum_of_def)
qed

subsection \<open>The archive of a disk\<close>

text \<open>No name on the disk holds a zero byte, as no name on a real one does.\<close>

fun nul_free :: "node \<Rightarrow> bool" where
  "nul_free (File c) \<longleftrightarrow> True"
| "nul_free (Dir ns) \<longleftrightarrow> list_all (\<lambda>(n, t). CHR 0x00 \<notin> set n \<and> nul_free t) ns"

lemma nul_free_node_at: "nul_free t \<Longrightarrow> node_at t p = Some u \<Longrightarrow> nul_free u \<and> (\<forall>s\<in>set p. CHR 0x00 \<notin> set s)"
proof (induction t p rule: node_at.induct)
  case (3 ns n p)
  then show ?case by (auto simp: list_all_iff split: option.splits dest: map_of_SomeD)
qed auto

lemma join_last: "p \<noteq> [] \<Longrightarrow> last p \<noteq> [] \<Longrightarrow> join ''/'' p \<noteq> [] \<and> last (join ''/'' p) = last (last p)"
  by (induction "''/''" p rule: join.induct) (auto simp: last_append)

lemma set_join: "set (join sep p) \<subseteq> set sep \<union> \<Union> (set ` set p)"
  by (induction sep p rule: join.induct) auto

lemma tar_names:
  assumes "p \<noteq> []" "\<forall>s\<in>set p. name_ok s" "\<forall>s\<in>set p. CHR 0x00 \<notin> set s"
  shows "tar_name_ok (join ''/'' p)"
proof -
  have l: "last p \<noteq> []" "CHR ''/'' \<notin> set (last p)" using assms(1,2) by (auto simp: name_ok_def normal_seg_def)
  then have "last (join ''/'' p) \<noteq> CHR ''/''" using join_last [OF assms(1) l(1)] last_in_set [OF l(1)] by metis
  moreover have "join ''/'' p \<noteq> []" using join_last [OF assms(1) l(1)] by blast
  moreover have "CHR 0x00 \<notin> set (join ''/'' p)" using assms(3) set_join [of "''/''" p] by auto
  ultimately show ?thesis by (simp add: tar_name_ok_def)
qed

text \<open>The tree of an archive: its manifest and its content.\<close>

definition archive_tree :: "string \<Rightarrow> node \<Rightarrow> backup_options \<Rightarrow> string \<Rightarrow> node" where
  "archive_tree cwd fs opts j = Dir ((''manifest.json'', File (Some j)) # content_listing cwd fs opts)"

lemma content_listing_names: "n \<in> set (keys (content_listing cwd fs opts)) \<Longrightarrow>
    n \<in> {''server.yml'', ''server.db'', ''users.db'', ''template'', ''theme'', ''ssl'', ''data''}"
proof -
  assume "n \<in> set (keys (content_listing cwd fs opts))"
  then obtain b p where "(b, n, p) \<in> set (content_parts cwd fs opts)" by (auto simp: content_listing_def)
  then show ?thesis by (auto simp: content_parts_def Let_def)
qed

lemma no_manifest_part: "''manifest.json'' \<notin> set (keys (content_listing cwd fs opts))"
  using content_listing_names by fastforce

lemma archive_tree_ok: "tree_ok fs \<Longrightarrow> tree_ok (archive_tree cwd fs opts j)"
  using content_tree_ok [of fs cwd opts] no_manifest_part [of cwd fs opts] names_evals(8)
  by (simp add: archive_tree_def)

lemma archive_parts:
  "parts_of (archive_tree cwd fs opts j) = ([''manifest.json''], Some (Some j)) # parts_of (Dir (content_listing cwd fs opts))"
  by (simp add: archive_tree_def walk_listing)

lemma content_nul_free: "nul_free fs \<Longrightarrow> nul_free (Dir (content_listing cwd fs opts))"
proof -
  assume f: "nul_free fs"
  have "nul_free (node_there fs p)" for p using nul_free_node_at [OF f] by (cases "node_at fs p") (auto simp: node_there_def)
  moreover have "CHR 0x00 \<notin> set n" if "(b, n, p) \<in> set (content_parts cwd fs opts)" for b n p
    using that by (auto simp: content_parts_def Let_def)
  ultimately show ?thesis by (auto simp: content_listing_def list_all_iff)
qed

lemma content_entry_names:
  assumes "tree_ok fs" "nul_free fs" "pe \<in> set (parts_of (Dir (content_listing cwd fs opts)))"
  shows "tar_name_ok (te_name (tar_entry_of pe))" "te_name (tar_entry_of pe) \<noteq> ''manifest.json''"
proof -
  let ?T = "Dir (content_listing cwd fs opts)"
  obtain p e where pe: "pe = (p, e)" by fastforce
  note ok = content_tree_ok [OF assms(1), of cwd opts]
  have ne: "p \<noteq> []" using parts_walk(3) [OF ok] assms(3) pe by force
  have nm: "\<forall>s\<in>set p. name_ok s" using parts_walk(4) [OF ok assms(3)] by (simp add: pe)
  have "case e of None \<Rightarrow> p \<noteq> [] \<and> dir_at ?T p | Some c \<Rightarrow> file_at ?T p = Some c"
    using assms(3) parts_mem [OF ok, of p e] by (simp add: pe)
  then obtain u where u: "node_at ?T p = Some u" using node_at_cases [of ?T p] by (cases e) auto
  then have "\<forall>s\<in>set p. CHR 0x00 \<notin> set s" using nul_free_node_at [OF content_nul_free [OF assms(2)]] by blast
  then show "tar_name_ok (te_name (tar_entry_of pe))" using tar_names [OF ne nm] by (simp add: tar_entry_of_def pe)
  show "te_name (tar_entry_of pe) \<noteq> ''manifest.json''"
  proof
    assume "te_name (tar_entry_of pe) = ''manifest.json''"
    then have "p = [''manifest.json'']" using plain_join(1) [OF ne nm] by (simp add: tar_entry_of_def pe)
    then have "''manifest.json'' \<in> set (keys (content_listing cwd fs opts))"
      using u by (auto split: option.splits dest!: map_of_SomeD simp: image_iff) force
    then show False using no_manifest_part by blast
  qed
qed

lemma add_path_read: "add_path_to_tar cwd fs a n = Inr ts \<Longrightarrow> read_at cwd fs (path_join a n) \<noteq> None"
  by (auto simp: add_path_to_tar_def split: if_splits option.splits)

text \<open>What is always part of a back-up could be read.\<close>

lemma content_required:
  assumes "build_content_entries cwd fs opts = Inr es" "is_abs cwd"
  shows "\<exists>x. file_at fs (os_path cwd (bo_configDir opts) @ [''server.yml'']) = Some (Some x)"
    and "\<exists>x. file_at fs (os_path cwd (bo_dataDir opts) @ [''server.db'']) = Some (Some x)"
proof -
  have "read_at cwd fs (path_join (bo_configDir opts) ''server.yml'') \<noteq> None \<and>
      read_at cwd fs (path_join (bo_dataDir opts) ''server.db'') \<noteq> None"
    using assms(1) unfolding build_content_entries_def Let_def in_turn_Cons by (auto dest: add_path_read)
  then show "\<exists>x. file_at fs (os_path cwd (bo_configDir opts) @ [''server.yml'']) = Some (Some x)"
    "\<exists>x. file_at fs (os_path cwd (bo_dataDir opts) @ [''server.db'']) = Some (Some x)"
    by (auto simp: read_at_def os_path_join [OF assms(2)] names_evals split: option.splits)
qed

text \<open>The archive that is created, read back.\<close>

lemma create_archive:
  assumes "create_backup_archive cd cwd fs now opts = Inr (archive, m)" "codec_ok cd" "is_abs cwd" "tree_ok fs" "nul_free fs"
  obtains j where "cd_read cd archive = Some (map tar_entry_of (parts_of (archive_tree cwd fs opts j)), True)"
    "readable (parts_of (archive_tree cwd fs opts j))"
    "cd_marshal cd m = Some j" "mf_checksum m = checksum_of cd (cd_write cd (map tar_entry_of (parts_of (Dir (content_listing cwd fs opts)))))"
    "build_content_entries cwd fs opts = Inr (map tar_entry_of (parts_of (Dir (content_listing cwd fs opts))))"
proof -
  define es where "es = map tar_entry_of (parts_of (Dir (content_listing cwd fs opts)))"
  have b: "build_content_entries cwd fs opts = Inr es \<and> readable (parts_of (Dir (content_listing cwd fs opts)))"
    using assms(1) content_entries [OF _ assms(3,4), of opts]
    by (cases "build_content_entries cwd fs opts") (auto simp: create_backup_archive_def build_content_archive_def es_def)
  have names: "list_all (\<lambda>e. tar_name_ok (te_name e)) es"
    using content_entry_names(1) [OF assms(4,5)] by (auto simp: es_def list_all_iff)
  then have r: "cd_read cd (cd_write cd es) = Some (es, True)" using assms(2) by (simp add: codec_ok_def)
  obtain j where j: "cd_marshal cd m = Some j"
    "archive = cd_write cd (\<lparr>te_name = ''manifest.json'', te_type = TypeReg, te_data = j\<rparr> # es)" "mf_checksum m = checksum_of cd (cd_write cd es)"
    using assms(1) b r
    by (auto simp: create_backup_archive_def build_content_archive_def build_final_archive_def Let_def split: option.splits)
  have "tar_name_ok ''manifest.json''" by (simp add: tar_name_ok_def)
  then have "cd_read cd archive = Some (\<lparr>te_name = ''manifest.json'', te_type = TypeReg, te_data = j\<rparr> # es, True)"
    using assms(2) names j(2) by (simp add: codec_ok_def)
  then show thesis
    using that [of j] j(1,3) b by (simp add: archive_parts es_def tar_entry_of_def readable_def)
qed

lemma rebuild_created:
  assumes "cd_read cd archive = Some (map tar_entry_of (parts_of (archive_tree cwd fs opts j)), True)" "tree_ok fs" "nul_free fs"
  shows "rebuild_content_archive cd archive = Inr (cd_write cd (map tar_entry_of (parts_of (Dir (content_listing cwd fs opts)))))"
proof -
  define es where "es = map tar_entry_of (parts_of (Dir (content_listing cwd fs opts)))"
  have "filter (\<lambda>e. te_name e \<noteq> ''manifest.json'') es = es"
    using content_entry_names(2) [OF assms(2,3), of _ cwd opts] by (auto simp: es_def filter_id_conv)
  moreover have "map tar_entry_of (parts_of (archive_tree cwd fs opts j)) = tar_entry_of ([''manifest.json''], Some (Some j)) # es"
    by (simp add: archive_parts es_def)
  ultimately show ?thesis using assms(1) by (simp add: rebuild_content_archive_def tar_entry_of_def es_def [symmetric])
qed

subsection \<open>A created archive is verified\<close>

text \<open>\<open>archive\<close> is a created archive of the disk \<open>fs0\<close>, with the manifest text \<open>j\<close>.\<close>

definition made_from :: "codec \<Rightarrow> string \<Rightarrow> backup_options \<Rightarrow> node \<Rightarrow> string \<Rightarrow> string \<Rightarrow> bool" where
  "made_from cd cwd opts fs0 j archive \<longleftrightarrow>
     tree_ok fs0 \<and> cd_read cd archive = Some (map tar_entry_of (parts_of (archive_tree cwd fs0 opts j)), True) \<and>
     readable (parts_of (archive_tree cwd fs0 opts j)) \<and>
     (\<exists>m. cd_unmarshal cd j = Some m \<and> check_checksum cd m archive = None) \<and>
     build_content_entries cwd fs0 opts = Inr (map tar_entry_of (parts_of (Dir (content_listing cwd fs0 opts))))"

lemma created_made:
  assumes "create_backup_archive cd cwd fs now opts = Inr (archive, m)" "codec_ok cd" "is_abs cwd" "tree_ok fs" "nul_free fs"
  shows "\<exists>j. made_from cd cwd opts fs j archive"
proof -
  obtain j where j: "cd_read cd archive = Some (map tar_entry_of (parts_of (archive_tree cwd fs opts j)), True)"
    "readable (parts_of (archive_tree cwd fs opts j))"
    "cd_marshal cd m = Some j" "mf_checksum m = checksum_of cd (cd_write cd (map tar_entry_of (parts_of (Dir (content_listing cwd fs opts)))))"
    "build_content_entries cwd fs opts = Inr (map tar_entry_of (parts_of (Dir (content_listing cwd fs opts))))"
    by (rule create_archive [OF assms])
  obtain m' where "cd_unmarshal cd j = Some m'" "mf_checksum m' = mf_checksum m"
    using assms(2) j(3,4) ascii_hex unfolding codec_ok_def by metis
  then show ?thesis
    using j(1,2,4,5) rebuild_created [OF j(1) assms(4,5)] assms(4) by (auto simp: made_from_def check_checksum_def)
qed

lemma temp_join:
  assumes "temp_name d"
  shows "is_abs (path_join d b)" "os_path cwd (path_join d b) = path_names (path_join d b)"
proof -
  have d: "is_abs d" "d \<noteq> []" using assms by (auto simp: temp_name_def is_abs_def)
  then have "is_abs (d @ x)" for x by (cases d) (auto simp: is_abs_def)
  then have "is_abs (path_join d b)" using d by (auto simp: path_join_eq clean_abs) (simp_all add: is_abs_def)
  moreover have "path_join d b = clean_path (path_join d b)" using d by (simp add: path_join_eq clean_path_stable)
  ultimately show "is_abs (path_join d b)" "os_path cwd (path_join d b) = path_names (path_join d b)"
    by (simp_all add: os_path_def)
qed

lemma temp_file: "temp_name tmp \<Longrightarrow> name_ok n \<Longrightarrow> os_path cwd (path_join tmp n) = path_names tmp @ [n]"
  using temp_join(2) plain_target(1) [of tmp "[n]"] by simp

lemma extracted:
  assumes "made_from cd cwd0 opts fs0 j archive" "fresh_temp fs tmp"
  obtains fs1 u m where "mkdir_temp (Some tmp) fs = Some fs1" "extract_tar_gz cd archive tmp fs1 = (None, u)"
    "extract_backup cd archive tmp fs1 = (None, u)" "same_outside (path_names tmp) fs u"
    "\<And>q. file_at u (path_names tmp @ q) = file_at (archive_tree cwd0 fs0 opts j) q"
    "\<And>q. dir_at u (path_names tmp @ q) = dir_at (archive_tree cwd0 fs0 opts j) q" "tree_ok fs \<Longrightarrow> tree_ok u"
    "\<And>cwd. load_manifest cd cwd tmp u = Inr m" "check_checksum cd m archive = None"
proof -
  have t: "temp_name tmp" using assms(2) by (simp add: fresh_temp_def)
  obtain m where m: "cd_unmarshal cd j = Some m" "check_checksum cd m archive = None" using assms(1) by (auto simp: made_from_def)
  obtain fs1 where f: "mkdir_temp (Some tmp) fs = Some fs1" "same_outside (path_names tmp) fs fs1"
    "\<forall>q. file_at fs1 (path_names tmp @ q) = None \<and> (dir_at fs1 (path_names tmp @ q) \<longleftrightarrow> q = [])" "tree_ok fs \<longrightarrow> tree_ok fs1"
    using make_temp [OF assms(2)] by blast
  have T: "tree_ok (archive_tree cwd0 fs0 opts j)" using assms(1) by (auto simp: made_from_def intro: archive_tree_ok)
  obtain u where u: "extract_tar_gz cd archive tmp fs1 = (None, u)" "extract_backup cd archive tmp fs1 = (None, u)"
    "\<forall>q. file_at u (path_names tmp @ q) = file_at (archive_tree cwd0 fs0 opts j) q \<and>
      dir_at u (path_names tmp @ q) = dir_at (archive_tree cwd0 fs0 opts j) q" "tree_ok fs1 \<longrightarrow> tree_ok u"
    using extract_tree [OF t _ _ f(3), of _ cd archive] T assms(1) unfolding made_from_def archive_tree_def by blast
  have "dir_at fs1 (path_names tmp)" using f(3) by (metis append_Nil2)
  then have "same_outside (path_names tmp) fs1 u" using extract_tar_gz_confined [OF t, of cd archive] u(1) by (auto simp: confined_def)
  moreover have "load_manifest cd cwd tmp u = Inr m" for cwd
    using temp_file [OF t names_evals(8)] u(3) m(1) by (simp add: load_manifest_def read_at_def archive_tree_def)
  ultimately show thesis using that [OF f(1) u(1,2)] f(2,4) u(3,4) m(2) same_outside_trans by blast
qed

lemma verify_integrity_made:
  assumes "made_from cd cwd0 opts fs0 j archive" "fresh_temp fs tmp" "tree_ok fs"
  shows "\<exists>fs'. verify_backup_integrity cd cwd (Some tmp) archive fs = (None, fs') \<and> same_disk fs fs' \<and> tree_ok fs'"
proof -
  obtain fs1 u m where x: "mkdir_temp (Some tmp) fs = Some fs1" "extract_tar_gz cd archive tmp fs1 = (None, u)"
    "load_manifest cd cwd tmp u = Inr m" "check_checksum cd m archive = None" "tree_ok u" "same_outside (path_names tmp) fs u"
    using extracted [OF assms(1,2)] assms(3) by metis
  then have "verify_backup_integrity cd cwd (Some tmp) archive fs = (None, remove_all (path_names tmp) u)"
    by (simp add: verify_backup_integrity_def)
  then show ?thesis using clear_temp [OF assms(2) x(6)] remove_all_ok [OF x(5)] by blast
qed

subsection \<open>The plan of a restore\<close>

text \<open>A file or, for \<open>None\<close>, a directory is there.\<close>

definition here :: "node \<Rightarrow> string option option \<Rightarrow> string list \<Rightarrow> bool" where
  "here fs e p \<longleftrightarrow> (case e of None \<Rightarrow> dir_at fs p | Some c \<Rightarrow> file_at fs p = Some c)"

lemma here_node: "node_at fs p = Some t \<Longrightarrow> here fs e (p @ q) = here t e q"
  using file_at_node [of fs p t q] by (simp add: here_def split: option.split)

lemma here_exists: "here fs e p \<Longrightarrow> node_at fs p \<noteq> None"
  using node_at_cases [of fs p] by (auto simp: here_def split: option.splits)

lemma here_above: "here fs e p \<Longrightarrow> strict_prefix q p \<Longrightarrow> dir_at fs q \<and> file_at fs q = None"
  using above_strict here_exists by blast

lemma here_unique: "here fs e p \<Longrightarrow> here fs e' p \<Longrightarrow> e = e'"
  using file_not_dir [of fs p] by (auto simp: here_def split: option.splits)

lemma content_lookup:
  assumes "(b, n, p) \<in> set (content_parts cwd fs opts)"
  shows "map_of (content_listing cwd fs opts) n = (if b then Some (node_there fs p) else None)"
proof -
  have d: "distinct (map (\<lambda>(b, n, p). n) (content_parts cwd fs opts))" by (simp add: content_parts_def Let_def)
  then have "distinct (keys (content_listing cwd fs opts))"
    using distinct_map_filter [OF d] by (simp add: content_listing_def comp_def case_prod_unfold)
  moreover have "b \<Longrightarrow> (n, node_there fs p) \<in> set (content_listing cwd fs opts)"
    using assms by (force simp: content_listing_def)
  moreover have "n \<notin> set (keys (content_listing cwd fs opts))" if "\<not> b"
  proof
    assume "n \<in> set (keys (content_listing cwd fs opts))"
    then obtain p' where m: "(True, n, p') \<in> set (content_parts cwd fs opts)" by (auto simp: content_listing_def)
    have "(True, n, p') = (b, n, p)" by (rule inj_onD [OF conjunct2 [OF d [unfolded distinct_map]] _ m assms]) simp
    then show False using that by simp
  qed
  ultimately show ?thesis by (auto simp: map_of_eq_None_iff)
qed

text \<open>The parts that are there hold what is on the disk.\<close>

lemma content_here:
  assumes "(b, n, p) \<in> set (content_parts cwd fs opts)" "b \<longrightarrow> node_at fs p \<noteq> None"
  shows "here (Dir (content_listing cwd fs opts)) e (n # r) \<longleftrightarrow> b \<and> here fs e (p @ r)"
proof -
  have l: "here (Dir ns) e (n # r) \<longleftrightarrow> (case map_of ns n of None \<Rightarrow> False | Some t \<Rightarrow> here t e r)" for ns
    by (auto simp: here_def split: option.split)
  show ?thesis
  proof (cases b)
    case True
    then obtain t where t: "node_at fs p = Some t" using assms(2) by auto
    then show ?thesis using content_lookup [OF assms(1)] True here_node [OF t] by (simp add: l node_there_def)
  qed (simp add: l content_lookup [OF assms(1)])
qed

definition config_saved :: "backup_options \<Rightarrow> string list \<Rightarrow> bool" where
  "config_saved opts p \<longleftrightarrow> p = [''server.yml''] \<or>
     2 \<le> length p \<and> (hd p = ''template'' \<or> hd p = ''theme'' \<or> hd p = ''ssl'' \<and> bo_includeSSL opts)"

definition data_saved :: "backup_options \<Rightarrow> string list \<Rightarrow> bool" where
  "data_saved opts p \<longleftrightarrow> p = [''server.db''] \<or> p = [''users.db''] \<or> bo_includeData opts"

lemma plan_mem:
  assumes "tree_ok a"
  shows "(q, e) \<in> set (restore_plan cwd ro a) \<longleftrightarrow> (\<exists>(n, d)\<in>set (restore_targets cwd ro). \<exists>r. q = d @ r \<and> here a e (n # r))"
  using target_part_mem [OF assms, of q e] by (auto simp: restore_plan_def here_def) blast+

lemma here_same: "same_disk t t' \<Longrightarrow> here t' e p = here t e p"
  by (simp add: here_def same_disk_def split: option.split)

lemma here_archive: "n \<noteq> ''manifest.json'' \<Longrightarrow> here (archive_tree cwd fs opts j) e (n # r) = here (Dir (content_listing cwd fs opts)) e (n # r)"
  by (simp add: archive_tree_def here_def split: option.split)

text \<open>The parts are there when the content of the archive could be built.\<close>

lemma parts_there:
  assumes "build_content_entries cwd fs opts = Inr es" "is_abs cwd" "(b, n, p) \<in> set (content_parts cwd fs opts)"
  shows "b \<longrightarrow> node_at fs p \<noteq> None"
  using assms(3) content_required [OF assms(1,2)] node_at_cases [of fs p] by (auto simp: content_parts_def Let_def)

text \<open>Targets and parts correspond, each below a configuration or a data directory.\<close>

definition matched :: "string \<Rightarrow> restore_options \<Rightarrow> backup_options \<Rightarrow> string list \<Rightarrow> string list \<Rightarrow> bool" where
  "matched cwd ro bo d p \<longleftrightarrow>
     (\<exists>s. d = os_path cwd (ro_configDir ro) @ s \<and> p = os_path cwd (bo_configDir bo) @ s \<or>
          d = os_path cwd (ro_dataDir ro) @ s \<and> p = os_path cwd (bo_dataDir bo) @ s)"

lemma targets_parts:
  "list_all2 (\<lambda>(n, d) (b, n', p). n' = n \<and> n \<noteq> ''manifest.json'' \<and> matched cwd ro bo d p)
     (restore_targets cwd ro) (content_parts cwd fs bo)"
  by (simp add: restore_targets_def content_parts_def Let_def matched_def ex_disj_distrib)

lemma target_part:
  assumes "(n, d) \<in> set (restore_targets cwd ro)"
  obtains b p where "(b, n, p) \<in> set (content_parts cwd fs bo)" "matched cwd ro bo d p" "n \<noteq> ''manifest.json''"
proof -
  obtain i where i: "i < length (restore_targets cwd ro)" "restore_targets cwd ro ! i = (n, d)" using assms by (auto simp: in_set_conv_nth)
  obtain b n' p where p: "content_parts cwd fs bo ! i = (b, n', p)" by (metis prod_cases3)
  have "i < length (content_parts cwd fs bo)" using i(1) list_all2_lengthD [OF targets_parts] by metis
  then have "(b, n', p) \<in> set (content_parts cwd fs bo)" using p nth_mem by metis
  then show thesis using that [of b p] list_all2_nthD [OF targets_parts i(1), of bo fs] by (simp add: i(2) p)
qed

lemma part_target:
  assumes "(b, n, p) \<in> set (content_parts cwd fs bo)"
  obtains d where "(n, d) \<in> set (restore_targets cwd ro)" "matched cwd ro bo d p" "n \<noteq> ''manifest.json''"
proof -
  obtain i where i: "i < length (content_parts cwd fs bo)" "content_parts cwd fs bo ! i = (b, n, p)" using assms by (auto simp: in_set_conv_nth)
  obtain n' d where d: "restore_targets cwd ro ! i = (n', d)" by fastforce
  have "i < length (restore_targets cwd ro)" using i(1) list_all2_lengthD [OF targets_parts] by metis
  then have "(n', d) \<in> set (restore_targets cwd ro)" using d nth_mem by metis
  then show thesis using that [of d] list_all2_nthD2 [OF targets_parts i(1), of ro] by (simp add: i(2) d)
qed

lemma matched_append: "matched cwd ro bo d p \<Longrightarrow> matched cwd ro bo (d @ r) (p @ r)"
  unfolding matched_def by (metis append_assoc)

text \<open>The tree \<open>a\<close> is that of an archive of \<open>fs0\<close>.\<close>

definition tree_of :: "codec \<Rightarrow> string \<Rightarrow> backup_options \<Rightarrow> node \<Rightarrow> node \<Rightarrow> bool" where
  "tree_of cd cwd bo fs0 a \<longleftrightarrow> is_abs cwd \<and> tree_ok a \<and>
     (\<exists>j archive. made_from cd cwd bo fs0 j archive \<and> same_disk (archive_tree cwd fs0 bo j) a)"

lemma tree_of_part:
  assumes "tree_of cd cwd bo fs0 a" "(b, n, p) \<in> set (content_parts cwd fs0 bo)"
  shows "here a e (n # r) \<longleftrightarrow> b \<and> here fs0 e (p @ r)"
proof -
  obtain j archive where j: "made_from cd cwd bo fs0 j archive" "same_disk (archive_tree cwd fs0 bo j) a" "is_abs cwd"
    using assms(1) by (auto simp: tree_of_def)
  have "n \<noteq> ''manifest.json''" by (rule part_target [OF assms(2)])
  moreover have "b \<longrightarrow> node_at fs0 p \<noteq> None"
    using parts_there [OF _ j(3) assms(2)] j(1) unfolding made_from_def by blast
  ultimately show ?thesis
    using here_same [OF j(2)] content_here [OF assms(2), of e r] by (simp add: here_archive)
qed

lemma plan_source:
  assumes "tree_of cd cwd bo fs0 a" "(q, e) \<in> set (restore_plan cwd ro a)"
  shows "\<exists>p. matched cwd ro bo q p \<and> here fs0 e p"
proof -
  have "tree_ok a" using assms(1) by (simp add: tree_of_def)
  then obtain n d r where nd: "(n, d) \<in> set (restore_targets cwd ro)" "q = d @ r" "here a e (n # r)"
    using assms(2) plan_mem [of a q e] by blast
  obtain b p where p: "(b, n, p) \<in> set (content_parts cwd fs0 bo)" "matched cwd ro bo d p"
    by (rule target_part [OF nd(1), where fs = fs0 and bo = bo])
  then show ?thesis using tree_of_part [OF assms(1) p(1), of e r] nd(2,3) matched_append by blast
qed

lemma plan_has:
  assumes "tree_of cd cwd bo fs0 a" "(n, d) \<in> set (restore_targets cwd ro)" "(b, n, p) \<in> set (content_parts cwd fs0 bo)" "b"
    and "here fs0 e (p @ r)"
  shows "(d @ r, e) \<in> set (restore_plan cwd ro a)"
proof -
  have "tree_ok a" using assms(1) by (simp add: tree_of_def)
  then show ?thesis using plan_mem [of a "d @ r" e] assms(2,4,5) tree_of_part [OF assms(1,3), of e r] by blast
qed

lemma tree_of_required:
  assumes "tree_of cd cwd bo fs0 a"
  shows "\<exists>x. file_at fs0 (os_path cwd (bo_configDir bo) @ [''server.yml'']) = Some (Some x)"
    and "\<exists>x. file_at fs0 (os_path cwd (bo_dataDir bo) @ [''server.db'']) = Some (Some x)"
    and "dir_at fs0 (os_path cwd (bo_configDir bo))" "dir_at fs0 (os_path cwd (bo_dataDir bo))"
proof -
  have c: "is_abs cwd" "\<exists>es. build_content_entries cwd fs0 bo = Inr es" using assms unfolding tree_of_def made_from_def by blast+
  show y: "\<exists>x. file_at fs0 (os_path cwd (bo_configDir bo) @ [''server.yml'']) = Some (Some x)"
    and d: "\<exists>x. file_at fs0 (os_path cwd (bo_dataDir bo) @ [''server.db'']) = Some (Some x)"
    using c content_required by blast+
  show "dir_at fs0 (os_path cwd (bo_configDir bo))" "dir_at fs0 (os_path cwd (bo_dataDir bo))"
    using y d above_dir [of fs0 "os_path cwd (bo_configDir bo)" "[''server.yml'']"]
      above_dir [of fs0 "os_path cwd (bo_dataDir bo)" "[''server.db'']"] node_at_cases by fastforce+
qed

lemma plan_config:
  assumes "tree_of cd cwd bo fs0 a" "config_saved bo p" "file_at fs0 (os_path cwd (bo_configDir bo) @ p) = Some x"
  shows "(os_path cwd (ro_configDir ro) @ p, Some x) \<in> set (restore_plan cwd ro a)"
proof -
  have h: "here fs0 (Some x) (os_path cwd (bo_configDir bo) @ p)" using assms(3) by (simp add: here_def)
  have T: "n \<in> {''server.yml'', ''template'', ''theme'', ''ssl''} \<Longrightarrow>
      (n, os_path cwd (ro_configDir ro) @ [n]) \<in> set (restore_targets cwd ro)" for n
    by (auto simp: restore_targets_def Let_def)
  show ?thesis
  proof (cases "p = [''server.yml'']")
    case True
    have "(True, ''server.yml'', os_path cwd (bo_configDir bo) @ [''server.yml'']) \<in> set (content_parts cwd fs0 bo)"
      by (simp add: content_parts_def Let_def)
    then show ?thesis using plan_has [OF assms(1) T, of "''server.yml''" True _ "Some x" "[]"] h True by simp
  next
    case False
    then obtain n m r where p: "p = n # m # r" "n = ''template'' \<or> n = ''theme'' \<or> n = ''ssl'' \<and> bo_includeSSL bo"
      using assms(2) by (cases p; cases "tl p") (auto simp: config_saved_def)
    have "dir_at fs0 (os_path cwd (bo_configDir bo) @ [n])"
      using above_dir [of fs0 "os_path cwd (bo_configDir bo) @ [n]" "m # r"] here_exists [OF h] by (simp add: p(1))
    then have "(True, n, os_path cwd (bo_configDir bo) @ [n]) \<in> set (content_parts cwd fs0 bo)"
      using p(2) by (auto simp: content_parts_def Let_def)
    then show ?thesis using plan_has [OF assms(1) T, of n True _ "Some x" "m # r"] h p by auto
  qed
qed

lemma plan_data:
  assumes "tree_of cd cwd bo fs0 a" "data_saved bo p" "file_at fs0 (os_path cwd (bo_dataDir bo) @ p) = Some x"
  shows "(os_path cwd (ro_dataDir ro) @ p, Some x) \<in> set (restore_plan cwd ro a)"
proof -
  have h: "here fs0 (Some x) (os_path cwd (bo_dataDir bo) @ p)" using assms(3) by (simp add: here_def)
  have T: "n \<in> {''server.db'', ''users.db''} \<Longrightarrow> (n, os_path cwd (ro_dataDir ro) @ [n]) \<in> set (restore_targets cwd ro)"
    "(''data'', os_path cwd (ro_dataDir ro)) \<in> set (restore_targets cwd ro)" for n
    by (auto simp: restore_targets_def Let_def)
  show ?thesis
  proof (cases "bo_includeData bo")
    case True
    then have "(True, ''data'', os_path cwd (bo_dataDir bo)) \<in> set (content_parts cwd fs0 bo)"
      using tree_of_required(4) [OF assms(1)] by (simp add: content_parts_def Let_def)
    then show ?thesis using plan_has [OF assms(1) T(2), of True _ "Some x" p] h by simp
  next
    case False
    then obtain n where n: "p = [n]" "n \<in> {''server.db'', ''users.db''}" using assms(2) by (auto simp: data_saved_def)
    have "(True, n, os_path cwd (bo_dataDir bo) @ [n]) \<in> set (content_parts cwd fs0 bo)"
      using n assms(3) by (elim insertE) (simp_all add: content_parts_def Let_def)
    then show ?thesis using plan_has [OF assms(1) T(1) [OF n(2)], of True _ "Some x" "[]"] h n(1) by simp
  qed
qed

text \<open>
  Nothing of another kind stands where the files below \<open>b0\<close> on the disk \<open>fs0\<close> go to when they are put
  below \<open>b\<close>: no file in the place of a directory, and no directory in that of a file.
\<close>

definition fits :: "node \<Rightarrow> string list \<Rightarrow> node \<Rightarrow> string list \<Rightarrow> bool" where
  "fits fs0 b0 fs b \<longleftrightarrow> (\<forall>q. strict_prefix q b \<longrightarrow> file_at fs q = None) \<and>
     (\<forall>p. (dir_at fs0 (b0 @ p) \<longrightarrow> file_at fs (b @ p) = None) \<and> (file_at fs0 (b0 @ p) \<noteq> None \<longrightarrow> \<not> dir_at fs (b @ p)))"

lemma fits_outside:
  assumes "fits fs0 b0 fs b" "same_outside t fs fs'" "b \<parallel> t"
  shows "fits fs0 b0 fs' b"
proof -
  have "\<not> prefix t q" if "prefix q (b @ p)" for q p
    using that assms(3) by (metis parallel_def prefix_order.order_trans prefix_prefix prefix_same_cases prefixI)
  then have "file_at fs' q = file_at fs q \<and> dir_at fs' q = dir_at fs q" if "prefix q (b @ p)" for q p
    using that assms(2) by (simp add: same_outside_def)
  then show ?thesis
    using assms(1) unfolding fits_def
    by (metis append_Nil2 prefix_order.dual_order.refl prefix_order.less_imp_le)
qed

lemma fits_roomy:
  assumes "fits fs0 b0 fs b" "here fs0 e (b0 @ s)" "dir_at fs0 b0"
  shows "(\<forall>r. strict_prefix r (b @ s) \<longrightarrow> file_at fs r = None) \<and>
    (if e = None then file_at fs (b @ s) = None else b @ s \<noteq> [] \<and> \<not> dir_at fs (b @ s))"
proof (intro conjI allI impI)
  fix r assume r: "strict_prefix r (b @ s)"
  show "file_at fs r = None"
  proof (cases "strict_prefix r b")
    case True
    then show ?thesis using assms(1) by (auto simp: fits_def)
  next
    case False
    then obtain s' where s': "r = b @ s'" "strict_prefix s' s"
      using r by (metis prefixI prefix_def prefix_order.less_imp_le prefix_order.order_iff_strict prefix_same_cases strict_below)
    then have "dir_at fs0 (b0 @ s')" using here_above [OF assms(2), of "b0 @ s'"] by simp
    then show ?thesis using assms(1) s'(1) by (auto simp: fits_def)
  qed
next
  have "e \<noteq> None \<Longrightarrow> s \<noteq> []" using assms(2,3) file_not_dir [of fs0 b0] by (auto simp: here_def)
  then show "if e = None then file_at fs (b @ s) = None else b @ s \<noteq> [] \<and> \<not> dir_at fs (b @ s)"
    using assms(1,2) by (auto simp: fits_def here_def)
qed

lemma plan_roomy:
  assumes "tree_of cd cwd bo fs0 a"
    and "fits fs0 (os_path cwd (bo_configDir bo)) fs (os_path cwd (ro_configDir ro))"
    and "fits fs0 (os_path cwd (bo_dataDir bo)) fs (os_path cwd (ro_dataDir ro))"
  shows "roomy (restore_plan cwd ro a) fs"
  unfolding roomy_def
proof (clarify)
  fix q e assume "(q, e) \<in> set (restore_plan cwd ro a)"
  then obtain p where p: "matched cwd ro bo q p" "here fs0 e p" using plan_source [OF assms(1)] by blast
  then show "(\<forall>r. strict_prefix r q \<longrightarrow> file_at fs r = None) \<and> (if e = None then file_at fs q = None else q \<noteq> [] \<and> \<not> dir_at fs q)"
    using fits_roomy [OF assms(2)] fits_roomy [OF assms(3)] tree_of_required(3,4) [OF assms(1)]
    unfolding matched_def by blast
qed

text \<open>The same place comes from the same source.\<close>

lemma matched_apart:
  assumes "os_path cwd (ro_configDir ro) \<parallel> os_path cwd (ro_dataDir ro)" "matched cwd ro bo q p" "matched cwd ro bo q' p'" "prefix q q'"
  shows "\<exists>r. q' = q @ r \<and> p' = p @ r"
proof -
  have "\<not> prefix (b @ s) (b' @ s')" if "b \<parallel> b'" for b b' s s' :: "string list"
    using parallel_append [OF that] by (auto simp: parallel_def)
  then show ?thesis using assms parallel_commute unfolding matched_def prefix_def by (smt (verit) append_assoc same_append_eq)
qed

lemma plan_clash_free:
  assumes "tree_of cd cwd bo fs0 a" "os_path cwd (ro_configDir ro) \<parallel> os_path cwd (ro_dataDir ro)"
  shows "clash_free (restore_plan cwd ro a)"
  unfolding clash_free_def
proof (clarify, intro conjI impI notI)
  fix q c q' e' assume m: "(q, Some c) \<in> set (restore_plan cwd ro a)" "(q', e') \<in> set (restore_plan cwd ro a)"
  obtain p p' where p: "matched cwd ro bo q p" "here fs0 (Some c) p" "matched cwd ro bo q' p'" "here fs0 e' p'"
    using plan_source [OF assms(1)] m by blast
  { assume s: "strict_prefix q q'"
    then obtain r where "q' = q @ r" "p' = p @ r" using matched_apart [OF assms(2) p(1,3)] by (auto simp: strict_prefix_def)
    then have "strict_prefix p p'" using s by (auto simp: strict_prefix_def)
    then show False using here_above [OF p(4)] p(2) by (auto simp: here_def) }
  { assume "q = q'" "e' = None"
    then have "p' = p" using matched_apart [OF assms(2) p(1,3)] by auto
    then show False using p(2,4) here_unique \<open>e' = None\<close> by blast }
qed

text \<open>The extracted archive is a tree that a restore can copy.\<close>

lemma extracted_tree:
  assumes "made_from cd cwd bo fs0 j archive" "is_abs cwd" "tree_ok u"
    and "\<And>q. file_at u (d @ q) = file_at (archive_tree cwd fs0 bo j) q" "\<And>q. dir_at u (d @ q) = dir_at (archive_tree cwd fs0 bo j) q"
  shows "\<exists>a. node_at u d = Some a \<and> tree_of cd cwd bo fs0 a \<and> restorable a"
proof -
  let ?T = "archive_tree cwd fs0 bo j"
  have "dir_at u d" using assms(5) [of "[]"] by (simp add: archive_tree_def)
  then obtain a where a: "node_at u d = Some a" by (auto simp: dir_at_def split: option.splits)
  have s: "same_disk ?T a" using file_at_node [OF a] assms(4,5) by (simp add: same_disk_def)
  have ok: "tree_ok a" by (rule tree_ok_node_at [OF assms(3) a])
  have t: "tree_of cd cwd bo fs0 a" using assms(1,2) s ok by (auto simp: tree_of_def)
  have rd: "file_at a q \<noteq> Some None" for q
  proof -
    obtain ns where T: "?T = Dir ns" by (simp add: archive_tree_def)
    have o: "tree_ok (Dir ns)" "readable (parts_of (Dir ns))"
      using assms(1) archive_tree_ok [of fs0 cwd bo j] unfolding made_from_def T by blast+
    have "(q, Some None) \<notin> set (parts_of (Dir ns))" using o(2) by (auto simp: readable_iff)
    then show ?thesis using parts_mem [OF o(1), of q "Some None"] s T by (simp add: same_disk_def)
  qed
  have part: "here a e [n] \<longleftrightarrow> b \<and> here fs0 e p" if "(b, n, p) \<in> set (content_parts cwd fs0 bo)" for b n p e
    using tree_of_part [OF t that, of e "[]"] by simp
  let ?c = "os_path cwd (bo_configDir bo)" and ?d = "os_path cwd (bo_dataDir bo)"
  have parts: "(True, ''server.yml'', ?c @ [''server.yml'']) \<in> set (content_parts cwd fs0 bo)"
    "(True, ''server.db'', ?d @ [''server.db'']) \<in> set (content_parts cwd fs0 bo)"
    "(file_at fs0 (?d @ [''users.db'']) \<noteq> None, ''users.db'', ?d @ [''users.db'']) \<in> set (content_parts cwd fs0 bo)"
    "(dir_at fs0 (?c @ [''template'']), ''template'', ?c @ [''template'']) \<in> set (content_parts cwd fs0 bo)"
    "(dir_at fs0 (?c @ [''theme'']), ''theme'', ?c @ [''theme'']) \<in> set (content_parts cwd fs0 bo)"
    "(bo_includeSSL bo \<and> dir_at fs0 (?c @ [''ssl'']), ''ssl'', ?c @ [''ssl'']) \<in> set (content_parts cwd fs0 bo)"
    "(bo_includeData bo \<and> dir_at fs0 ?d, ''data'', ?d) \<in> set (content_parts cwd fs0 bo)"
    by (simp_all add: content_parts_def Let_def)
  have fil: "\<not> dir_at a [n]" if "(b, n, p) \<in> set (content_parts cwd fs0 bo)" "b \<longrightarrow> file_at fs0 p \<noteq> None" for b n p
    using part [OF that(1), of None] that(2) file_not_dir [of fs0 p] by (auto simp: here_def)
  have dir: "file_at a [n] = None" if "(b, n, p) \<in> set (content_parts cwd fs0 bo)" "b \<longrightarrow> dir_at fs0 p" for b n p
    using part [OF that(1), of "Some _"] that(2) file_not_dir [of fs0 p] by (cases "file_at a [n]") (auto simp: here_def)
  have "\<not> dir_at a [''server.yml'']" "\<not> dir_at a [''server.db'']" "\<not> dir_at a [''users.db'']"
    using fil [OF parts(1)] fil [OF parts(2)] fil [OF parts(3)] tree_of_required(1,2) [OF t] by auto
  moreover have "file_at a [''template''] = None" "file_at a [''theme''] = None" "file_at a [''ssl''] = None" "file_at a [''data''] = None"
    using dir [OF parts(4)] dir [OF parts(5)] dir [OF parts(6)] dir [OF parts(7)] by simp_all
  ultimately have "restorable a" using ok rd unfolding restorable_def by (intro conjI) simp_all
  then show ?thesis using a t by blast
qed

lemma restored:
  assumes "made_from cd cwd bo fs0 j archive" "is_abs cwd" "tree_ok fs" "fresh_temp fs tmp"
    and par: "os_path cwd (ro_configDir ro) \<parallel> os_path cwd (ro_dataDir ro)"
      "os_path cwd (ro_configDir ro) \<parallel> path_names tmp" "os_path cwd (ro_dataDir ro) \<parallel> path_names tmp"
    and fit: "fits fs0 (os_path cwd (bo_configDir bo)) fs (os_path cwd (ro_configDir ro))"
      "fits fs0 (os_path cwd (bo_dataDir bo)) fs (os_path cwd (ro_dataDir ro))"
  shows "\<exists>a v. restore_extracted cd cwd (Some tmp) archive ro fs = (None, v) \<and> tree_of cd cwd bo fs0 a \<and>
    (\<forall>q. \<not> prefix (path_names tmp) q \<longrightarrow>
      file_at v q = (case last_write (restore_plan cwd ro a) q of Some c \<Rightarrow> Some c | None \<Rightarrow> file_at fs q)) \<and>
    (\<forall>q. prefix (path_names tmp) q \<longrightarrow> file_at v q = None)"
proof -
  obtain fs1 u m where x: "mkdir_temp (Some tmp) fs = Some fs1" "extract_backup cd archive tmp fs1 = (None, u)"
    "same_outside (path_names tmp) fs u" "load_manifest cd cwd tmp u = Inr m" "tree_ok u"
    "\<And>q. file_at u (path_names tmp @ q) = file_at (archive_tree cwd fs0 bo j) q"
    "\<And>q. dir_at u (path_names tmp @ q) = dir_at (archive_tree cwd fs0 bo j) q"
    using extracted [OF assms(1,4)] assms(3) by metis
  have t: "temp_name tmp" using assms(4) by (simp add: fresh_temp_def)
  obtain a where a: "node_at u (path_names tmp) = Some a" "tree_of cd cwd bo fs0 a" "restorable a"
    using extracted_tree [OF assms(1,2) x(5) x(6,7)] by blast
  have "roomy (restore_plan cwd ro a) u"
    by (rule plan_roomy [OF a(2) fits_outside [OF fit(1) x(3) par(2)] fits_outside [OF fit(2) x(3) par(3)]])
  then obtain w where w: "place (restore_plan cwd ro a) u = (Some w, w)"
    using place_success plan_clash_free [OF a(2) par(1)] by blast
  have "perform_restore cwd tmp ro u = (None, w)"
    by (rule perform_restore_place [OF assms(2) t a(3) _ par(2,3) w]) (simp add: node_at_append a(1))
  then have r: "restore_extracted cd cwd (Some tmp) archive ro fs = (None, remove_all (path_names tmp) w)"
    using x(1,2,4) by (simp add: restore_extracted_def)
  have "file_at (remove_all (path_names tmp) w) q =
      (if prefix (path_names tmp) q then None
       else case last_write (restore_plan cwd ro a) q of Some c \<Rightarrow> Some c | None \<Rightarrow> file_at fs q)" for q
    using remove_all_frame [OF temp_stack(2) [OF t], of w q, THEN conjunct1]
      place_frame [OF w, of q, THEN conjunct2, THEN conjunct1] x(3) by (simp add: same_outside_def split: option.split)
  then show ?thesis using r a(2) by auto
qed

lemma plan_functional:
  assumes "tree_of cd cwd bo fs0 a" "os_path cwd (ro_configDir ro) \<parallel> os_path cwd (ro_dataDir ro)"
    and "(q, e) \<in> set (restore_plan cwd ro a)" "(q, e') \<in> set (restore_plan cwd ro a)"
  shows "e = e'"
proof -
  obtain p p' where p: "matched cwd ro bo q p" "here fs0 e p" "matched cwd ro bo q p'" "here fs0 e' p'"
    using plan_source [OF assms(1)] assms(3,4) by blast
  then have "p' = p" using matched_apart [OF assms(2) p(1,3)] by auto
  then show ?thesis using p(2,4) here_unique by blast
qed

lemma plan_last:
  assumes "tree_of cd cwd bo fs0 a" "os_path cwd (ro_configDir ro) \<parallel> os_path cwd (ro_dataDir ro)"
    and "(q, Some c) \<in> set (restore_plan cwd ro a)"
  shows "last_write (restore_plan cwd ro a) q = Some c"
proof (cases "last_write (restore_plan cwd ro a) q")
  case None
  then show ?thesis using last_write_None [OF None] assms(3) by blast
next
  case (Some x)
  then show ?thesis using plan_functional [OF assms last_write_mem [OF Some]] by simp
qed

lemma plan_outside:
  assumes "tree_of cd cwd bo fs0 a" "\<not> prefix (os_path cwd (ro_configDir ro)) q" "\<not> prefix (os_path cwd (ro_dataDir ro)) q"
  shows "last_write (restore_plan cwd ro a) q = None"
proof (cases "last_write (restore_plan cwd ro a) q")
  case (Some c)
  then show ?thesis using plan_source [OF assms(1) last_write_mem [OF Some]] assms(2,3) by (auto simp: matched_def)
qed

lemma parallel_not_below: "b \<parallel> t \<Longrightarrow> \<not> prefix t (b @ p)"
  using parallel_append [of b t p "[]"] by (auto simp: parallel_def)

subsection \<open>From a back-up to the restored files\<close>

lemma decrypt_encrypted:
  assumes "codec_ok cd" "encrypt_backup cd (Some salt) (Some nonce) d pw = Inr x" "length salt = 32" "length nonce = 12"
  shows "decrypt_backup cd x pw = Inr d" "decrypt_backup_data cd x pw = Inr d" "x \<noteq> []"
proof -
  have x: "x = salt @ nonce @ cd_seal cd (cd_kdf cd pw salt) nonce d" using assms(2) by (simp add: encrypt_backup_def)
  have "cd_open cd (cd_kdf cd pw salt) nonce (cd_seal cd (cd_kdf cd pw salt) nonce d) = Some d"
    using assms(1,4) by (simp add: codec_ok_def)
  then show "decrypt_backup cd x pw = Inr d" "decrypt_backup_data cd x pw = Inr d"
    using assms(3,4) by (simp_all add: x decrypt_backup_def decrypt_backup_data_def)
  show "x \<noteq> []" using assms(3) x by auto
qed

text \<open>What the written file holds.\<close>

lemma created_file:
  assumes "create_backup cd cwd off stamp now (Some salt) (Some nonce) bo0 fs0 = (None, bo, fs0')"
  obtains archive m x where "create_backup_archive cd cwd fs0 now bo = Inr (archive, m)" "read_at cwd fs0' (bo_outputFile bo) = Some x"
    "if bo_password bo \<noteq> [] then encrypt_backup cd (Some salt) (Some nonce) archive (bo_password bo) = Inr x else x = archive"
proof -
  obtain archive m x where c: "create_backup_archive cd cwd fs0 now bo = Inr (archive, m)"
    "write_file cwd (bo_outputFile bo) x fs0 = Some fs0'"
    "(if bo_password bo \<noteq> [] then encrypt_backup cd (Some salt) (Some nonce) archive (bo_password bo) else Inr archive) = Inr x"
    using assms by (auto simp: create_backup_def Let_def split: sum.splits prod.splits option.splits if_splits)
  have "read_at cwd fs0' (bo_outputFile bo) = Some x"
    using c(2) put_file_frame [of "os_path cwd (bo_outputFile bo)" "Some x" fs0 fs0' "os_path cwd (bo_outputFile bo)"]
    by (auto simp: write_file_def read_at_def Let_def split: if_splits)
  then show thesis using that [OF c(1)] c(3) by (auto split: if_splits)
qed


text \<open>Packages for which the laws hold: texts are written with a mark before each byte.\<close>

definition enc :: "string \<Rightarrow> string" where
  "enc s = concat (map (\<lambda>c. [CHR ''x'', c]) s) @ ''.''"

fun dec :: "string \<Rightarrow> string \<times> string" where
  "dec [] = ([], [])"
| "dec [c] = ([], [])"
| "dec (c # d # r) = (if c = CHR ''.'' then ([], d # r) else apfst (Cons d) (dec r))"

lemma dec_enc: "r \<noteq> [] \<Longrightarrow> dec (enc s @ r) = (s, r)"
  by (induction s) (auto simp: enc_def neq_Nil_conv)

definition enc_entry :: "tar_entry \<Rightarrow> string" where
  "enc_entry e = (case te_type e of TypeReg \<Rightarrow> ''f'' | TypeDir \<Rightarrow> ''d'' | TypeOther \<Rightarrow> ''o'') @ enc (te_name e) @ enc (te_data e)"

fun dec_entries :: "nat \<Rightarrow> string \<Rightarrow> tar_entry list" where
  "dec_entries 0 s = []"
| "dec_entries (Suc n) s =
     (case dec (tl s) of (a, r) \<Rightarrow>
        (case dec r of (b, t) \<Rightarrow>
           \<lparr>te_name = a, te_type = (if hd s = CHR ''f'' then TypeReg else if hd s = CHR ''d'' then TypeDir else TypeOther), te_data = b\<rparr>
           # dec_entries n t))"

lemma dec_enc_entries: "r \<noteq> [] \<Longrightarrow> dec_entries (length es) (concat (map enc_entry es) @ r) = es"
proof (induction es)
  case (Cons e es)
  have "enc s \<noteq> []" for s by (simp add: enc_def)
  moreover have "enc_entry e @ x = hd (enc_entry e) # enc (te_name e) @ enc (te_data e) @ x" for x
    by (simp add: enc_entry_def split: entry_type.split)
  moreover have "hd (enc_entry e) = (case te_type e of TypeReg \<Rightarrow> CHR ''f'' | TypeDir \<Rightarrow> CHR ''d'' | TypeOther \<Rightarrow> CHR ''o'')"
    by (simp add: enc_entry_def split: entry_type.split)
  ultimately show ?case using Cons by (cases e; cases "te_type e") (simp_all add: dec_enc)
qed simp

definition plain_codec :: codec where
  "plain_codec = \<lparr>
     cd_write = (\<lambda>es. replicate (length es) (CHR ''1'') @ ''.'' @ concat (map enc_entry es) @ ''.''),
     cd_read = (\<lambda>d. if d = [] then None
                    else let n = length (takeWhile (\<lambda>c. c = CHR ''1'') d) in Some (dec_entries n (drop (Suc n) d), True)),
     cd_marshal = (\<lambda>m. Some (mf_checksum m)),
     cd_unmarshal = (\<lambda>j. Some \<lparr>mf_version = [], mf_createdAt = 0, mf_createdBy = [], mf_appVersion = [], mf_contents = [],
                                mf_encrypted = False, mf_method = [], mf_checksum = j\<rparr>),
     cd_sha = (\<lambda>d. []), cd_kdf = (\<lambda>p s. p @ s), cd_seal = (\<lambda>k n d. d), cd_open = (\<lambda>k n d. Some d)\<rparr>"

lemma plain_codec_ok: "codec_ok plain_codec"
proof -
  have "takeWhile (\<lambda>c. c = CHR ''1'') (replicate n (CHR ''1'') @ CHR ''.'' # r) = replicate n (CHR ''1'')" for n r
    by (induction n) simp_all
  then show ?thesis
    by (simp add: codec_ok_def plain_codec_def Let_def dec_enc_entries)
qed

lemma fits_in_place:
  assumes "node_at fs0 b0 = Some t" "node_at fs b = Some t"
  shows "fits fs0 b0 fs b"
proof -
  have "dir_at t p \<Longrightarrow> file_at t p = None" for p using file_not_dir [of t p] by (cases "file_at t p") auto
  then show ?thesis
    using above_strict [of fs b] assms file_at_node [OF assms(1)] file_at_node [OF assms(2)] by (auto simp: fits_def)
qed

definition demo_disk :: "(string \<times> node) list \<Rightarrow> node" where
  "demo_disk ns = Dir ([(''c'', Dir [(''server.yml'', File (Some ''port: 80''))]),
     (''d'', Dir [(''server.db'', File (Some ''rows''))]), (''t'', Dir [])] @ ns)"

definition demo_backup :: backup_options where
  "demo_backup = \<lparr>bo_configDir = ''/c'', bo_dataDir = ''/d'', bo_outputFile = ''/b.enc'', bo_password = ''pw'',
     bo_includeSSL = False, bo_includeData = False, bo_adminUser = [], bo_appVersion = []\<rparr>"

definition demo_restore :: restore_options where
  "demo_restore = \<lparr>ro_backupFile = ''/b.enc'', ro_password = ''pw'', ro_configDir = ''/c'', ro_dataDir = ''/d''\<rparr>"

definition demo_salt :: string where "demo_salt = replicate 32 (CHR ''s'')"
definition demo_nonce :: string where "demo_nonce = replicate 12 (CHR ''n'')"

lemma demo_paths: "os_path ''/'' ''/c'' = [''c'']" "os_path ''/'' ''/d'' = [''d'']" "os_path ''/'' ''/b.enc'' = [''b.enc'']"
  "temp_name ''/t/1'' \<and> path_names ''/t/1'' = [''t'', ''1'']" "temp_name ''/t/2'' \<and> path_names ''/t/2'' = [''t'', ''2'']"
  by (simp_all add: temp_name_def os_path_def is_abs_def clean_path_def clean_segs_def clean_seg_def path_names_def Let_def)

lemma demo_created: "\<exists>x. create_backup plain_codec ''/'' (\<lambda>t. 0) 0 0 (Some demo_salt) (Some demo_nonce) demo_backup (demo_disk []) =
    (None, demo_backup, demo_disk [(''b.enc'', File (Some x))])"
proof -
  have a: "is_abs ''/''" by (simp add: is_abs_def)
  note p = demo_paths os_path_join [OF a] names_evals
  have entries: "build_content_entries ''/'' (demo_disk []) demo_backup =
      Inr [\<lparr>te_name = ''server.yml'', te_type = TypeReg, te_data = ''port: 80''\<rparr>, \<lparr>te_name = ''server.db'', te_type = TypeReg, te_data = ''rows''\<rparr>]"
    by (simp add: build_content_entries_def demo_backup_def add_path_to_tar_def read_at_def file_exists_def dir_exists_def
        only_if_def p demo_disk_def)
  have read: "cd_read plain_codec (cd_write plain_codec es) = Some (es, True)" if "list_all (\<lambda>e. tar_name_ok (te_name e)) es" for es
    using plain_codec_ok that by (simp add: codec_ok_def)
  have "cd_marshal plain_codec m = Some (mf_checksum m)" for m by (simp add: plain_codec_def)
  then obtain y m where y: "create_backup_archive plain_codec ''/'' (demo_disk []) 0 demo_backup = Inr (y, m)"
    using entries read by (simp add: create_backup_archive_def build_content_archive_def build_final_archive_def tar_name_ok_def)
  have "bo_outputFile demo_backup = ''/b.enc''" "bo_password demo_backup = ''pw''" by (simp_all add: demo_backup_def)
  then show ?thesis
    using y by (simp add: create_backup_def encrypt_backup_def write_file_def p demo_disk_def)
qed


subsection \<open>What a restore can change\<close>

definition only_below :: "string list set \<Rightarrow> (node \<Rightarrow> backup_error option \<times> node) \<Rightarrow> bool" where
  "only_below B step \<longleftrightarrow> (\<forall>fs q. (\<forall>b\<in>B. \<not> prefix b q) \<longrightarrow> file_at (snd (step fs)) q = file_at fs q)"

lemma only_below_content: "b \<in> B \<Longrightarrow> only_below B (copy_content c (b @ r))"
  unfolding only_below_def
proof (intro allI impI)
  fix fs q assume b: "b \<in> B" "\<forall>b\<in>B. \<not> prefix b q"
  have m: "mkdirs p t = Some t' \<Longrightarrow> file_at t' q = file_at t q" for p t t' using mkdirs_frame by blast
  have "q \<noteq> b @ r" using b by (metis prefixI)
  then have "put_file (b @ r) d t = Some t' \<Longrightarrow> file_at t' q = file_at t q" for d t t' using put_file_frame [of "b @ r" d t t' q] by simp
  then show "file_at (snd (copy_content c (b @ r) fs)) q = file_at fs q"
    using m by (auto simp: copy_content_def split: option.split)
qed

lemma only_below_walk: "b \<in> B \<Longrightarrow> only_below B (copy_walk (b @ r) es)"
proof (induction es)
  case (Cons pe es)
  obtain p e where pe: "pe = (p, e)" by fastforce
  have "file_at (snd (copy_content c (b @ r @ p) fs)) q = file_at fs q" if "\<forall>b\<in>B. \<not> prefix b q" for c fs q
    using only_below_content [OF Cons.prems, of c "r @ p"] that by (simp add: only_below_def)
  moreover have "mkdirs d fs = Some fs' \<Longrightarrow> file_at fs' q = file_at fs q" for d fs fs' q using mkdirs_frame by blast
  ultimately show ?case
    using Cons.IH [OF Cons.prems] by (auto simp: pe only_below_def split: option.split prod.split) (metis snd_conv)+
qed (simp add: only_below_def)

lemma only_below_steps: "\<forall>st\<in>set sts. only_below B st \<Longrightarrow> only_below B (run_steps sts)"
proof (induction sts)
  case (Cons st sts)
  then show ?case by (auto simp: only_below_def split: prod.split option.split) (metis snd_conv)+
qed (simp add: only_below_def)

lemma only_below_file:
  "is_abs cwd \<Longrightarrow> name_ok n \<Longrightarrow> os_path cwd d \<in> B \<Longrightarrow> only_below B (restore_file cwd tmp n d)"
  using only_below_content [of "os_path cwd d" B _ "[n]"]
  by (simp add: restore_file_def copy_file_def only_below_def os_path_join Let_def)

lemma only_below_dir: "os_path cwd d = b @ r \<Longrightarrow> b \<in> B \<Longrightarrow> only_below B (restore_dir cwd tmp n d)"
proof -
  assume b: "os_path cwd d = b @ r" "b \<in> B"
  have "mkdirs d fs = Some fs' \<Longrightarrow> file_at fs' q = file_at fs q" for d fs fs' q using mkdirs_frame by blast
  then show ?thesis
    using only_below_walk [OF b(2), of r] b(1)
    by (simp add: restore_dir_def copy_dir_def only_below_def Let_def split: option.split)
qed

lemma only_below_perform:
  "is_abs cwd \<Longrightarrow> only_below {os_path cwd (ro_configDir ro), os_path cwd (ro_dataDir ro)} (perform_restore cwd tmp ro)"
proof -
  assume a: "is_abs cwd"
  let ?B = "{os_path cwd (ro_configDir ro), os_path cwd (ro_dataDir ro)}"
  have "only_below ?B (restore_dir cwd tmp n (path_join (ro_configDir ro) n))" if "name_ok n" for n
    using only_below_dir [OF os_path_join [OF a that]] by simp
  moreover have "only_below ?B (restore_dir cwd tmp n (ro_dataDir ro))" for n
    using only_below_dir [of cwd "ro_dataDir ro" _ "[]"] by simp
  ultimately show ?thesis
    unfolding perform_restore_def Let_def by (intro only_below_steps) (simp add: only_below_file [OF a] names_evals)
qed

text \<open>
  C8: whatever the file of a back-up holds, restoring it leaves every file outside of the configuration and
  the data directory as it was, also when the restore fails on its way.
\<close>

theorem restore_confined:
  assumes "is_abs cwd" "fresh_temp fs tmp1" "fresh_temp fs tmp2"
    and "\<not> prefix (os_path cwd (ro_configDir ro)) q" "\<not> prefix (os_path cwd (ro_dataDir ro)) q"
  shows "file_at (snd (restore_backup cd cwd (Some tmp1) (Some tmp2) ro fs)) q = file_at fs q"
proof -
  have x: "file_at (snd (restore_extracted cd cwd (Some tmp2) archive ro fs')) q = file_at fs' q" if s: "same_disk fs fs'" for archive fs'
  proof -
    note fr = fresh_temp_same [OF s assms(3)]
    have t: "temp_name tmp2" "node_at fs' (path_names tmp2) = None" using fr by (simp_all add: fresh_temp_def)
    obtain fs1 where m: "mkdir_temp (Some tmp2) fs' = Some fs1" "same_outside (path_names tmp2) fs' fs1" "dir_at fs1 (path_names tmp2)"
      using make_temp [OF fr] by (metis append_Nil2)
    obtain r fs2 where e: "extract_backup cd archive tmp2 fs1 = (r, fs2)" by fastforce
    have "same_outside (path_names tmp2) fs1 fs2"
      using extract_backup_confined [OF t(1), of cd archive] m(3) e by (auto simp: confined_def)
    then have o: "same_outside (path_names tmp2) fs' fs2" using m(2) same_outside_trans by blast
    have p: "file_at (snd (perform_restore cwd tmp2 ro fs2)) q = file_at fs2 q"
      using only_below_perform [OF assms(1), of ro tmp2] assms(4,5) by (simp add: only_below_def)
    have "file_at (remove_all (path_names tmp2) v) q = file_at fs' q" if "file_at v q = file_at fs2 q" for v
      using that o remove_all_frame [OF temp_stack(2) [OF t(1)], of v q] nothing_below [OF t(2), of q]
      by (auto simp: same_outside_def)
    then show ?thesis
      using m(1) e p by (auto simp: restore_extracted_def split: option.split sum.split prod.split)
  qed
  have v: "same_disk fs (snd (verify_backup_integrity cd cwd (Some tmp1) archive fs))" for archive
    by (rule verify_integrity_disk [OF assms(2)])
  then have "file_at (snd (verify_backup_integrity cd cwd (Some tmp1) archive fs)) q = file_at fs q" for archive
    by (simp add: same_disk_def)
  then show ?thesis
    using x v by (auto simp: restore_backup_def Let_def split: option.split sum.split prod.split) (metis snd_conv)+
qed

theorem restore_confined_witness:
  "file_at (snd (restore_backup sample_codec ''/'' (Some ''/t/1'') (Some ''/t/2'') demo_restore
     (demo_disk [(''b.enc'', File (Some ''evil''))]))) [''t'', ''x''] = None"
proof -
  have fresh: "fresh_temp (demo_disk [(''b.enc'', File (Some ''evil''))]) ''/t/1''"
    "fresh_temp (demo_disk [(''b.enc'', File (Some ''evil''))]) ''/t/2''"
    using demo_paths by (simp_all add: fresh_temp_def demo_disk_def)
  have "os_path ''/'' (ro_configDir demo_restore) = [''c'']" "os_path ''/'' (ro_dataDir demo_restore) = [''d'']"
    using demo_paths by (simp_all add: demo_restore_def)
  then show ?thesis
    using restore_confined [OF _ fresh, of "''/''" demo_restore "[''t'', ''x'']" sample_codec] by (simp add: is_abs_def demo_disk_def)
qed

subsection \<open>Verifying a created back-up\<close>

lemma archive_database:
  assumes "made_from cd cwd bo fs0 j archive" "is_abs cwd" "n = ''server.db'' \<or> n = ''users.db''"
  shows "file_at (archive_tree cwd fs0 bo j) [n] = file_at fs0 (os_path cwd (bo_dataDir bo) @ [n])"
proof -
  let ?d = "os_path cwd (bo_dataDir bo)"
  obtain es where es: "build_content_entries cwd fs0 bo = Inr es" using assms(1) by (auto simp: made_from_def)
  define b where "b = (n = ''server.db'' \<or> file_at fs0 (?d @ [n]) \<noteq> None)"
  have b: "(b, n, ?d @ [n]) \<in> set (content_parts cwd fs0 bo)"
    using assms(3) unfolding b_def by (elim disjE) (simp_all add: content_parts_def Let_def)
  have "n \<noteq> ''manifest.json''" using assms(3) by auto
  then have "here (archive_tree cwd fs0 bo j) (Some c) [n] \<longleftrightarrow> b \<and> here fs0 (Some c) (?d @ [n])" for c
    using content_here [OF b parts_there [OF es assms(2) b], of "Some c" "[]"] by (simp add: here_archive)
  then have "file_at (archive_tree cwd fs0 bo j) [n] = Some c \<longleftrightarrow> file_at fs0 (?d @ [n]) = Some c" for c
    by (auto simp: here_def b_def)
  then show ?thesis by (metis not_Some_eq)
qed

definition database_sound :: "node \<Rightarrow> string list \<Rightarrow> bool" where
  "database_sound fs p \<longleftrightarrow> (file_at fs p \<noteq> None \<longrightarrow> verify_database_integrity (opt_or (file_at fs p) None))"

lemma check_database_sound:
  assumes "temp_name tmp" "name_ok n"
  shows "check_database cwd tmp n u = (if database_sound u (path_names tmp @ [n]) then None else Some (BadDatabase n))"
  using temp_file [OF assms]
  by (auto simp: check_database_def file_exists_def read_at_def database_sound_def split: option.splits)

text \<open>
  a back-up that was created without error passes the verification, with the same password, exactly when
  the databases that were saved begin as those of SQLite do.
\<close>

theorem created_backup_verifies:
  assumes "codec_ok cd" "is_abs cwd" "tree_ok fs0" "nul_free fs0"
    and "create_backup cd cwd off stamp now (Some salt) (Some nonce) bo0 fs0 = (None, bo, fs0')"
    and "length salt = 32" "length nonce = 12"
    and "tree_ok fs" "read_at cwd fs backupFile = read_at cwd fs0' (bo_outputFile bo)"
    and "file_ext backupFile = ''.enc'' \<longleftrightarrow> bo_password bo \<noteq> []" "fresh_temp fs tmp"
  shows "fst (verify_backup cd cwd (Some tmp) backupFile (bo_password bo) fs) = None \<longleftrightarrow>
    database_sound fs0 (os_path cwd (bo_dataDir bo) @ [''server.db'']) \<and>
    database_sound fs0 (os_path cwd (bo_dataDir bo) @ [''users.db''])"
proof -
  obtain archive m x where c: "create_backup_archive cd cwd fs0 now bo = Inr (archive, m)" "read_at cwd fs backupFile = Some x"
    "if bo_password bo \<noteq> [] then encrypt_backup cd (Some salt) (Some nonce) archive (bo_password bo) = Inr x else x = archive"
    using created_file [OF assms(5)] assms(9) by metis
  obtain j where j: "made_from cd cwd bo fs0 j archive" using created_made [OF c(1) assms(1-4)] by blast
  have t: "temp_name tmp" using assms(11) by (simp add: fresh_temp_def)
  obtain fs1 u m' where e: "mkdir_temp (Some tmp) fs = Some fs1" "extract_tar_gz cd archive tmp fs1 = (None, u)"
    "load_manifest cd cwd tmp u = Inr m'" "check_checksum cd m' archive = None"
    "\<And>q. file_at u (path_names tmp @ q) = file_at (archive_tree cwd fs0 bo j) q"
    using extracted [OF j assms(11)] by metis
  have "archive \<noteq> []" using j assms(1) by (auto simp: made_from_def codec_ok_def)
  then have x: "x \<noteq> []" using c(3) decrypt_encrypted(3) [OF assms(1) _ assms(6,7)] by (auto split: if_splits)
  have "(if bo_password bo \<noteq> [] then decrypt_backup_data cd x (bo_password bo) else Inr x) = Inr archive"
    using c(3) decrypt_encrypted(2) [OF assms(1) _ assms(6,7)] by (auto split: if_splits)
  moreover have "node_at fs (os_path cwd backupFile) \<noteq> None"
    using c(2) by (auto simp: read_at_def file_at_def split: option.splits)
  ultimately have "fst (verify_backup cd cwd (Some tmp) backupFile (bo_password bo) fs) = check_extracted cd cwd tmp archive u"
    using c(2) x e(1,2) assms(10) by (auto simp: verify_backup_def Let_def)
  moreover have "database_sound u (path_names tmp @ [n]) = database_sound fs0 (os_path cwd (bo_dataDir bo) @ [n])"
    if "n = ''server.db'' \<or> n = ''users.db''" for n
    using archive_database [OF j assms(2) that] e(5) by (simp add: database_sound_def)
  ultimately show ?thesis
    using e(3,4) by (simp add: check_extracted_def check_database_sound [OF t] names_evals)
qed

theorem created_backup_verifies_witness:
  "\<exists>x. fst (verify_backup plain_codec ''/'' (Some ''/t/1'') ''/b.enc'' ''pw'' (demo_disk [(''b.enc'', File (Some x))])) \<noteq> None"
proof -
  obtain x where c: "create_backup plain_codec ''/'' (\<lambda>t. 0) 0 0 (Some demo_salt) (Some demo_nonce) demo_backup (demo_disk []) =
    (None, demo_backup, demo_disk [(''b.enc'', File (Some x))])" using demo_created by blast
  let ?fs = "demo_disk [(''b.enc'', File (Some x))]"
  have ok: "tree_ok (demo_disk [])" "nul_free (demo_disk [])" "tree_ok ?fs"
    by (simp_all add: demo_disk_def name_ok_def normal_seg_def)
  have fields: "bo_dataDir demo_backup = ''/d''" "bo_password demo_backup = ''pw''" "bo_outputFile demo_backup = ''/b.enc''"
    by (simp_all add: demo_backup_def)
  have fresh: "fresh_temp ?fs ''/t/1''" using demo_paths by (simp add: fresh_temp_def demo_disk_def)
  have len: "length demo_salt = 32" "length demo_nonce = 12" "is_abs ''/''" "file_ext ''/b.enc'' = ''.enc''"
    by (simp_all add: demo_salt_def demo_nonce_def is_abs_def file_ext_def Let_def)
  have "\<not> database_sound (demo_disk []) [''d'', ''server.db'']"
    by (simp add: database_sound_def demo_disk_def verify_database_integrity_def sqlite_magic_def)
  then show ?thesis
    using created_backup_verifies [OF plain_codec_ok len(3) ok(1,2) c len(1,2) ok(3), of "''/b.enc''" "''/t/1''"]
      fields demo_paths fresh len(4) by auto
qed

subsection \<open>Disks stay well formed\<close>

definition keeps_ok :: "(node \<Rightarrow> backup_error option \<times> node) \<Rightarrow> bool" where
  "keeps_ok step \<longleftrightarrow> (\<forall>fs. tree_ok fs \<longrightarrow> tree_ok (snd (step fs)))"

lemma mkdirs_keeps: "mkdirs p t = Some t' \<Longrightarrow> \<forall>n\<in>set p. name_ok n \<Longrightarrow> tree_ok t \<Longrightarrow> tree_ok t'"
  using mkdirs_ok by blast

lemma butlast_names: "\<forall>n\<in>set p. name_ok n \<Longrightarrow> \<forall>n\<in>set (butlast p). name_ok n"
  by (auto dest: in_set_butlastD)

lemma make_file_ok: "make_file p d fs = (r, fs') \<Longrightarrow> \<forall>n\<in>set p. name_ok n \<Longrightarrow> tree_ok fs \<Longrightarrow> tree_ok fs' \<and> (\<forall>u. r = Some u \<longrightarrow> tree_ok u)"
  using butlast_names mkdirs_ok put_file_ok by (fastforce simp: make_file_def split: option.splits)

lemma keeps_entry: "\<forall>n\<in>set (path_names target). name_ok n \<Longrightarrow> keeps_ok (extract_entry w target e)"
  unfolding keeps_ok_def
proof (intro allI impI)
  fix fs assume n: "\<forall>n\<in>set (path_names target). name_ok n" "tree_ok fs"
  obtain r fs' where m: "make_file (path_names target) (w (opt_or (opt_or (file_at fs (path_names target)) None) []) (te_data e)) fs = (r, fs')"
    by fastforce
  show "tree_ok (snd (extract_entry w target e fs))"
    using n make_file_ok [OF m n] m mkdirs_ok [OF _ n(2,1)]
    by (cases "te_type e") (auto simp: extract_entry_def Let_def split: option.split)
qed

lemma keeps_entries: "\<forall>e. keeps_ok (ex e) \<Longrightarrow> keeps_ok (extract_entries ex es)"
proof (induction es)
  case (Cons e es)
  then show ?case by (auto simp: keeps_ok_def split: prod.split option.split) (metis snd_conv)+
qed (simp add: keeps_ok_def)

lemma keeps_archive: "\<forall>e. keeps_ok (ex e) \<Longrightarrow> keeps_ok (extract_archive cd ex archive)"
  using keeps_entries [of ex] by (auto simp: keeps_ok_def extract_archive_def split: option.split prod.split) (metis snd_conv)+

lemma join_names_ok: "temp_name d \<Longrightarrow> \<forall>n\<in>set (path_names (path_join d b)). name_ok n"
  using temp_join(2) [of d "''/''" b] os_path_names [of "''/''" "path_join d b"] by (simp add: is_abs_def)

lemma keeps_extract: "temp_name d \<Longrightarrow> keeps_ok (extract_tar_gz cd archive d)" "temp_name d \<Longrightarrow> keeps_ok (extract_backup cd archive d)"
proof -
  assume t: "temp_name d"
  have e: "keeps_ok (extract_entry w (path_join d b) e)" for w b e by (rule keeps_entry [OF join_names_ok [OF t]])
  have "keeps_ok (\<lambda>fs. if \<not> is_local (te_name e) then (Some (IllegalPath (te_name e)), fs)
               else extract_entry (\<lambda>old new. new) (path_join d (te_name e)) e fs)" for e
    using e by (simp add: keeps_ok_def)
  then show "keeps_ok (extract_tar_gz cd archive d)" using keeps_archive by (simp add: keeps_ok_def extract_tar_gz_def)
  have "keeps_ok (\<lambda>fs. let target = path_join d (te_name e)
               in if \<not> has_prefix target (clean_path d @ ''/'') then (Some (IllegalPath (te_name e)), fs)
                  else extract_entry (\<lambda>old new. new @ drop (length new) old) target e fs)" for e
    using e by (simp add: keeps_ok_def Let_def)
  then show "keeps_ok (extract_backup cd archive d)" using keeps_archive by (simp add: keeps_ok_def extract_backup_def)
qed

lemma keeps_content: "\<forall>n\<in>set dst. name_ok n \<Longrightarrow> keeps_ok (copy_content c dst)"
  using butlast_names mkdirs_ok put_file_ok unfolding keeps_ok_def copy_content_def by (fastforce split: option.split)

lemma keeps_walk: "\<forall>n\<in>set dst. name_ok n \<Longrightarrow> \<forall>pe\<in>set es. \<forall>n\<in>set (fst pe). name_ok n \<Longrightarrow> keeps_ok (copy_walk dst es)"
proof (induction es)
  case (Cons pe es)
  obtain p e where pe: "pe = (p, e)" by fastforce
  have n: "\<forall>n\<in>set (dst @ p). name_ok n" using Cons.prems pe by auto
  have "keeps_ok (copy_walk dst es)" using Cons by simp
  then show ?case
    using mkdirs_ok [of "dst @ p"] keeps_content [OF n] n
    by (auto simp: pe keeps_ok_def split: option.split prod.split) (metis snd_conv)+
qed (simp add: keeps_ok_def)

lemma keeps_dir: "\<forall>n\<in>set dst. name_ok n \<Longrightarrow> keeps_ok (copy_dir src dst)"
  unfolding keeps_ok_def
proof (intro allI impI)
  fix fs assume n: "\<forall>n\<in>set dst. name_ok n" "tree_ok fs"
  show "tree_ok (snd (copy_dir src dst fs))"
  proof (cases "mkdirs dst fs")
    case (Some fs')
    have ok: "tree_ok fs'" by (rule mkdirs_ok [OF Some n(2,1)])
    have "keeps_ok (copy_walk dst (walk [] t))" if "node_at fs' src = Some t" for t
      using keeps_walk [OF n(1) walk_names [OF tree_ok_node_at [OF ok that]]] .
    then show ?thesis using Some ok by (simp add: copy_dir_def keeps_ok_def split: option.split)
  qed (simp add: copy_dir_def n)
qed

lemma keeps_steps: "\<forall>st\<in>set sts. keeps_ok st \<Longrightarrow> keeps_ok (run_steps sts)"
proof (induction sts)
  case (Cons st sts)
  then show ?case by (auto simp: keeps_ok_def split: prod.split option.split)
qed (simp add: keeps_ok_def)

lemma keeps_perform: "is_abs cwd \<Longrightarrow> keeps_ok (perform_restore cwd tmp ro)"
proof -
  assume a: "is_abs cwd"
  have "keeps_ok (restore_file cwd tmp n d)" for n d
    using keeps_content [OF os_path_names [OF a]] by (simp add: keeps_ok_def restore_file_def copy_file_def Let_def)
  moreover have "keeps_ok (restore_dir cwd tmp n d)" for n d
    using keeps_dir [OF os_path_names [OF a]] by (simp add: keeps_ok_def restore_dir_def Let_def)
  ultimately show ?thesis unfolding perform_restore_def Let_def by (intro keeps_steps) simp
qed

lemma keeps_write: "is_abs cwd \<Longrightarrow> write_file cwd p d fs = Some fs' \<Longrightarrow> tree_ok fs \<Longrightarrow> tree_ok fs'"
  using put_file_ok os_path_names by (auto simp: write_file_def Let_def split: if_splits)

lemma keeps_integrity: "temp_name tmp \<Longrightarrow> keeps_ok (verify_backup_integrity cd cwd (Some tmp) d)"
  using keeps_extract(1) [of tmp cd d] mkdirs_ok temp_stack(3) [of tmp] remove_all_ok
  by (auto simp: keeps_ok_def verify_backup_integrity_def mkdir_temp_def split: option.split prod.split) (metis snd_conv)+

lemma keeps_verify: "temp_name tmp \<Longrightarrow> keeps_ok (verify_backup cd cwd (Some tmp) backupFile password)"
  using keeps_extract(1) [of tmp cd] mkdirs_ok temp_stack(3) [of tmp] remove_all_ok
  by (auto simp: keeps_ok_def verify_backup_def mkdir_temp_def Let_def split: option.split prod.split sum.split) (metis snd_conv)+

lemma keeps_extracted: "is_abs cwd \<Longrightarrow> temp_name tmp \<Longrightarrow> keeps_ok (restore_extracted cd cwd (Some tmp) archive ro)"
  unfolding keeps_ok_def
proof (intro allI impI)
  fix fs assume a: "is_abs cwd" "temp_name tmp" "tree_ok fs"
  show "tree_ok (snd (restore_extracted cd cwd (Some tmp) archive ro fs))"
  proof (cases "mkdir_temp (Some tmp) fs")
    case (Some fs1)
    then have ok: "tree_ok fs1" using mkdirs_ok a temp_stack(3) by (auto simp: mkdir_temp_def)
    obtain r fs2 where e: "extract_backup cd archive tmp fs1 = (r, fs2)" by fastforce
    have ok2: "tree_ok fs2" using keeps_extract(2) [OF a(2), of cd archive] ok e by (auto simp: keeps_ok_def)
    have "tree_ok (snd (perform_restore cwd tmp ro fs2))" using keeps_perform [OF a(1)] ok2 by (simp add: keeps_ok_def)
    then show ?thesis
      using Some e ok2 remove_all_ok by (cases "perform_restore cwd tmp ro fs2") (auto simp: restore_extracted_def split: option.split sum.split)
  qed (simp add: restore_extracted_def a(3))
qed



end
