(* ===== verification/Retention.thy ===== *)
theory Retention
  imports Restore Cron Validate "HOL-Library.Multiset"
begin

text \<open>
  The deletion of old back-ups (\<open>ApplyRetentionPolicy\<close> and \<open>enforceSizeCap\<close> of
  \<open>src/src/backup/backup.go\<close>). A directory is the list of its entries in the order of \<open>os.ReadDir\<close>, by
  name, with sizes and times of modification. Floating-point numbers and the size of the device are
  parameters; the name of the directory has no characters of patterns.
\<close>

subsection \<open>Data\<close>

record dir_file =
  df_name :: string
  df_size :: int
  df_mod :: time
  df_isDir :: bool

record retained =
  rt_name :: string
  rt_date :: time
  rt_keep :: bool

datatype retention_error = RemoveFailed string | BadCap string

text \<open>
  \<open>sz_float t m\<close> is the number \<open>t\<close> times \<open>m\<close> as a 64-bit integer, \<open>None\<close> when \<open>t\<close> is not a number;
  \<open>sz_percent\<close> gives the bytes of a share of the device, \<open>None\<close> on any error.
\<close>

record size_units =
  sz_float :: "string \<Rightarrow> int \<Rightarrow> int option"
  sz_percent :: "string \<Rightarrow> int option"

subsection \<open>Old back-ups\<close>

definition has_substring :: "string \<Rightarrow> string \<Rightarrow> bool" where
  "has_substring s sub =
     list_ex (\<lambda>i. take (length sub) (drop i s) = sub) (if length s < length sub then [] else [0..<Suc (length s - length sub)])"

definition contains_str :: "string \<Rightarrow> string \<Rightarrow> bool" where
  "contains_str s sub \<longleftrightarrow> length sub \<le> length s \<and> has_substring s sub"

text \<open>The pattern of full back-ups.\<close>

definition glob_backup :: "string \<Rightarrow> bool" where
  "glob_backup n \<longleftrightarrow> has_prefix n ''caswhois_backup_'' \<and> contains_sub (drop 16 n) ''.tar.gz''"

definition backup_date :: "string \<Rightarrow> time option" where
  "backup_date base =
     (if contains_str base ''-daily'' \<or> contains_str base ''-hourly'' then None
      else if length base < 28 then None
      else time_parse date_chunks (take 10 (drop 17 base)))"

fun candidates :: "dir_file list \<Rightarrow> retained list" where
  "candidates [] = []"
| "candidates (f # fs) =
     (if glob_backup (df_name f) then
        (case backup_date (df_name f) of
           None \<Rightarrow> candidates fs
         | Some d \<Rightarrow> \<lparr>rt_name = df_name f, rt_date = d, rt_keep = False\<rparr> # candidates fs)
      else candidates fs)"

text \<open>The two nested loops that exchange elements: the inner one for the first place.\<close>

fun exchange_pass :: "('a \<Rightarrow> 'a \<Rightarrow> bool) \<Rightarrow> 'a \<Rightarrow> 'a list \<Rightarrow> 'a \<times> 'a list" where
  "exchange_pass lt x [] = (x, [])"
| "exchange_pass lt x (y # ys) =
     (if lt x y then (case exchange_pass lt y ys of (m, zs) \<Rightarrow> (m, x # zs))
      else (case exchange_pass lt x ys of (m, zs) \<Rightarrow> (m, y # zs)))"

lemma exchange_pass_mset: "exchange_pass lt x ys = (m, zs) \<Longrightarrow> add_mset m (mset zs) = add_mset x (mset ys)"
  by (induction lt x ys arbitrary: m zs rule: exchange_pass.induct) (auto split: if_splits prod.splits simp: add_mset_commute; metis add_mset_commute)+

lemma exchange_pass_length: "exchange_pass lt x ys = (m, zs) \<Longrightarrow> length zs = length ys"
  using exchange_pass_mset [of lt x ys m zs] by (metis add_mset_add_single size_add_mset size_mset Suc_inject)

function exchange_sort :: "('a \<Rightarrow> 'a \<Rightarrow> bool) \<Rightarrow> 'a list \<Rightarrow> 'a list" where
  "exchange_sort lt [] = []"
| "exchange_sort lt (x # xs) = (case exchange_pass lt x xs of (m, ys) \<Rightarrow> m # exchange_sort lt ys)"
  by pat_completeness auto
termination
  by (relation "measure (\<lambda>(lt, xs). length xs)") (auto dest: exchange_pass_length [OF sym])

text \<open>The first \<open>n\<close> of the selected are marked; \<open>c\<close> counts them.\<close>

fun mark_slots :: "(retained \<Rightarrow> bool) \<Rightarrow> int \<Rightarrow> int \<Rightarrow> retained list \<Rightarrow> retained list" where
  "mark_slots sel n c [] = []"
| "mark_slots sel n c (b # bs) =
     (if sel b \<and> c < n then b\<lparr>rt_keep := True\<rparr> # mark_slots sel n (c + 1) bs else b # mark_slots sel n c bs)"

definition rt_day :: "retained \<Rightarrow> int" where
  "rt_day b = (case date_of (rt_date b div day) of (y, m, d) \<Rightarrow> d)"

definition rt_month :: "retained \<Rightarrow> int" where
  "rt_month b = (case date_of (rt_date b div day) of (y, m, d) \<Rightarrow> m)"

definition mark_retained :: "int \<Rightarrow> int \<Rightarrow> int \<Rightarrow> int \<Rightarrow> retained list \<Rightarrow> retained list" where
  "mark_retained maxBackups keepWeekly keepMonthly keepYearly bs =
     (let yearly = mark_slots (\<lambda>b. rt_month b = 1 \<and> rt_day b = 1) keepYearly 0 bs;
          monthly = mark_slots (\<lambda>b. \<not> rt_keep b \<and> rt_day b = 1) keepMonthly 0 yearly;
          weekly = mark_slots (\<lambda>b. \<not> rt_keep b \<and> weekday (rt_date b div day) = 0) keepWeekly 0 monthly
      in mark_slots (\<lambda>b. \<not> rt_keep b) maxBackups 0 weekly)"

text \<open>\<open>removable\<close> tells which files can be removed.\<close>

definition remove_file :: "string \<Rightarrow> dir_file list \<Rightarrow> dir_file list" where
  "remove_file n = filter (\<lambda>f. df_name f \<noteq> n)"

fun remove_unmarked :: "(string \<Rightarrow> bool) \<Rightarrow> retained list \<Rightarrow> dir_file list \<Rightarrow> retention_error option \<times> dir_file list" where
  "remove_unmarked removable [] fs = (None, fs)"
| "remove_unmarked removable (b # bs) fs =
     (if rt_keep b then remove_unmarked removable bs fs
      else if removable (rt_name b) then remove_unmarked removable bs (remove_file (rt_name b) fs)
      else (Some (RemoveFailed (rt_name b)), fs))"

subsection \<open>The size cap\<close>

definition size_suffixes :: "(string \<times> int) list" where
  "size_suffixes = [(''TB'', 2 ^ 40), (''GB'', 2 ^ 30), (''MB'', 2 ^ 20), (''KB'', 2 ^ 10),
     (''T'', 2 ^ 40), (''G'', 2 ^ 30), (''M'', 2 ^ 20), (''K'', 2 ^ 10), (''B'', 1)]"

definition parse_size_cap :: "size_units \<Rightarrow> string \<Rightarrow> retention_error + int" where
  "parse_size_cap u cap0 =
     (let cap = trim_space cap0; upper = to_upper cap
      in if cap = [] \<or> cap = ''0'' then Inr 0
         else if has_suffix cap ''%'' then
           (case sz_percent u (trim_suffix cap ''%'') of None \<Rightarrow> Inl (BadCap cap) | Some n \<Rightarrow> Inr n)
         else case find (\<lambda>(s, m). has_suffix upper s) size_suffixes of
           Some (s, m) \<Rightarrow>
             (case sz_float u (trim_space (take (length upper - length s) upper)) m of
                None \<Rightarrow> Inl (BadCap cap) | Some n \<Rightarrow> Inr n)
         | None \<Rightarrow> (case atoi cap of None \<Rightarrow> Inl (BadCap cap) | Some n \<Rightarrow> Inr n))"

definition sized_files :: "dir_file list \<Rightarrow> dir_file list" where
  "sized_files = filter (\<lambda>f. \<not> df_isDir f \<and> has_prefix (df_name f) ''caswhois_backup_'')"

definition total_size :: "dir_file list \<Rightarrow> int" where
  "total_size fs = sum_list (map df_size fs)"

fun shrink :: "(string \<Rightarrow> bool) \<Rightarrow> int \<Rightarrow> int \<Rightarrow> dir_file list \<Rightarrow> dir_file list \<Rightarrow> retention_error option \<times> dir_file list" where
  "shrink removable cap tb [] fs = (None, fs)"
| "shrink removable cap tb (f # old) fs =
     (if tb \<le> cap then (None, fs)
      else if removable (df_name f) then shrink removable cap (tb - df_size f) old (remove_file (df_name f) fs)
      else (Some (RemoveFailed (df_name f)), fs))"

definition enforce_size_cap :: "size_units \<Rightarrow> (string \<Rightarrow> bool) \<Rightarrow> string \<Rightarrow> dir_file list \<Rightarrow> retention_error option \<times> dir_file list" where
  "enforce_size_cap u removable cap fs =
     (case parse_size_cap u cap of
        Inl e \<Rightarrow> (Some e, fs)
      | Inr n \<Rightarrow>
          if n = 0 then (None, fs)
          else let files = sized_files fs
               in if total_size files \<le> n then (None, fs)
                  else shrink removable n (total_size files) (exchange_sort (\<lambda>x y. df_mod y < df_mod x) files) fs)"

definition apply_retention_policy ::
    "size_units \<Rightarrow> (string \<Rightarrow> bool) \<Rightarrow> int \<Rightarrow> int \<Rightarrow> int \<Rightarrow> int \<Rightarrow> string \<Rightarrow> dir_file list \<Rightarrow> retention_error option \<times> dir_file list" where
  "apply_retention_policy u removable maxBackups keepWeekly keepMonthly keepYearly maxTotalSize fs =
     (let marked = mark_retained maxBackups keepWeekly keepMonthly keepYearly
                     (exchange_sort (\<lambda>x y. rt_date x < rt_date y) (candidates fs))
      in case remove_unmarked removable marked fs of
           (Some e, fs') \<Rightarrow> (Some e, fs')
         | (None, fs') \<Rightarrow>
             if maxTotalSize \<noteq> [] \<and> maxTotalSize \<noteq> ''0'' then enforce_size_cap u removable maxTotalSize fs' else (None, fs'))"

subsection \<open>Sorting and marking\<close>

lemma exchange_pass_max:
  "exchange_pass (\<lambda>x y. k x < (k y :: int)) x ys = (m, zs) \<Longrightarrow> k x \<le> k m \<and> (\<forall>z\<in>set zs. k z \<le> k m)"
  by (induction "\<lambda>x y. k x < k y" x ys arbitrary: m zs rule: exchange_pass.induct) (force split: if_splits prod.splits)+

lemma exchange_sort_mset [simp]: "mset (exchange_sort lt xs) = mset xs"
proof (induction lt xs rule: exchange_sort.induct)
  case (2 lt x xs)
  obtain m ys where p: "exchange_pass lt x xs = (m, ys)" by fastforce
  then show ?case using 2 exchange_pass_mset [OF p] by simp
qed simp

lemma exchange_sort_sorted: "sorted_wrt (\<lambda>x y. k y \<le> k x) (exchange_sort (\<lambda>x y. k x < (k y :: int)) xs)"
proof (induction "\<lambda>x y. k x < k y" xs rule: exchange_sort.induct)
  case (2 x xs)
  obtain m ys where p: "exchange_pass (\<lambda>x y. k x < k y) x xs = (m, ys)" by fastforce
  have "set (exchange_sort (\<lambda>x y. k x < k y) ys) = set ys" by (metis exchange_sort_mset mset_eq_setD)
  then show ?case using 2 p exchange_pass_max [OF p] by simp
qed simp

lemma mark_slots_names: "map rt_name (mark_slots sel n c bs) = map rt_name bs \<and> map rt_date (mark_slots sel n c bs) = map rt_date bs"
  by (induction sel n c bs rule: mark_slots.induct) simp_all

lemma mark_slots_length [simp]: "length (mark_slots sel n c bs) = length bs"
  by (induction sel n c bs rule: mark_slots.induct) simp_all

text \<open>Marks stay, and at most the number of free slots are added.\<close>

definition kept :: "retained list \<Rightarrow> int" where
  "kept bs = int (length (filter rt_keep bs))"

lemma mark_slots_kept: "kept (mark_slots sel n c bs) \<le> kept bs + max 0 (n - c)"
proof (induction sel n c bs rule: mark_slots.induct)
  case (2 sel n c b bs)
  then show ?case by (cases "sel b \<and> c < n"; cases "rt_keep b") (auto simp: kept_def)
qed (simp add: kept_def)

lemma mark_slots_first: "i < length bs \<Longrightarrow> c + int i < n \<Longrightarrow> rt_keep (mark_slots (\<lambda>b. \<not> rt_keep b) n c bs ! i)"
proof (induction bs arbitrary: i c)
  case (Cons b bs)
  then show ?case by (cases i) (auto simp: algebra_simps)
qed simp

lemma mark_retained_names: "map rt_name (mark_retained d w m y bs) = map rt_name bs"
  by (simp add: mark_retained_def Let_def mark_slots_names)

lemma mark_retained_kept: "kept bs = 0 \<Longrightarrow> kept (mark_retained d w m y bs) \<le> max 0 d + max 0 w + max 0 m + max 0 y"
proof -
  assume k: "kept bs = 0"
  define y1 where "y1 = mark_slots (\<lambda>b. rt_month b = 1 \<and> rt_day b = 1) y 0 bs"
  define m1 where "m1 = mark_slots (\<lambda>b. \<not> rt_keep b \<and> rt_day b = 1) m 0 y1"
  define w1 where "w1 = mark_slots (\<lambda>b. \<not> rt_keep b \<and> weekday (rt_date b div day) = 0) w 0 m1"
  have "kept y1 \<le> kept bs + max 0 y" "kept m1 \<le> kept y1 + max 0 m" "kept w1 \<le> kept m1 + max 0 w"
    "kept (mark_slots (\<lambda>b. \<not> rt_keep b) d 0 w1) \<le> kept w1 + max 0 d"
    unfolding y1_def m1_def w1_def using mark_slots_kept [where c = 0] by simp_all
  then show ?thesis using k by (simp add: mark_retained_def Let_def y1_def m1_def w1_def)
qed

lemma mark_retained_first: "i < length bs \<Longrightarrow> int i < d \<Longrightarrow> rt_keep (mark_retained d w m y bs ! i)"
  by (simp add: mark_retained_def Let_def mark_slots_first)

subsection \<open>What is removed\<close>

definition unkept :: "retained list \<Rightarrow> string set" where
  "unkept bs = rt_name ` {b \<in> set bs. \<not> rt_keep b}"

lemma unkept_simps [simp]: "unkept [] = {}" "rt_keep b \<Longrightarrow> unkept (b # bs) = unkept bs"
  "\<not> rt_keep b \<Longrightarrow> unkept (b # bs) = insert (rt_name b) (unkept bs)"
  by (auto simp: unkept_def)

lemma remove_file_filter: "filter (\<lambda>f. df_name f \<notin> N) (remove_file n fs) = filter (\<lambda>f. df_name f \<notin> insert n N) fs"
  by (simp add: remove_file_def conj_commute)

lemma remove_unmarked_filter:
  "\<exists>N. N \<subseteq> unkept bs \<and> snd (remove_unmarked removable bs fs) = filter (\<lambda>f. df_name f \<notin> N) fs \<and>
     (fst (remove_unmarked removable bs fs) = None \<longrightarrow> N = unkept bs)"
proof (induction removable bs fs rule: remove_unmarked.induct)
  case (2 removable b bs fs)
  consider "rt_keep b" | "\<not> rt_keep b" "removable (rt_name b)" | "\<not> rt_keep b" "\<not> removable (rt_name b)" by blast
  then show ?case
  proof cases
    case 1
    then show ?thesis using 2(1) by simp
  next
    case c: 2
    then obtain N where N: "N \<subseteq> unkept bs"
      "snd (remove_unmarked removable bs (remove_file (rt_name b) fs)) = filter (\<lambda>f. df_name f \<notin> N) (remove_file (rt_name b) fs)"
      "fst (remove_unmarked removable bs (remove_file (rt_name b) fs)) = None \<longrightarrow> N = unkept bs"
      using 2(2) [OF c] by (elim exE conjE)
    have "insert (rt_name b) N \<subseteq> unkept (b # bs)" using N(1) c(1) by auto
    moreover have "snd (remove_unmarked removable (b # bs) fs) = filter (\<lambda>f. df_name f \<notin> insert (rt_name b) N) fs"
      using c N(2) unfolding remove_file_filter by simp
    moreover have "fst (remove_unmarked removable (b # bs) fs) = None \<longrightarrow> insert (rt_name b) N = unkept (b # bs)"
      using c N(3) by simp
    ultimately show ?thesis by (intro exI [of _ "insert (rt_name b) N"] conjI)
  next
    case 3
    then show ?thesis by (intro exI [of _ "{}"]) simp
  qed
qed simp

lemma candidates_mem: "b \<in> set (candidates fs) \<longleftrightarrow>
    (\<exists>f\<in>set fs. glob_backup (df_name f) \<and> backup_date (df_name f) = Some (rt_date b) \<and> rt_name b = df_name f \<and> \<not> rt_keep b)"
  by (induction fs rule: candidates.induct) (auto split: option.split)

lemma candidates_distinct: "distinct (map df_name fs) \<Longrightarrow> distinct (map rt_name (candidates fs))"
proof (induction fs rule: candidates.induct)
  case (2 f fs)
  have "df_name f \<notin> rt_name ` set (candidates fs)"
  proof
    assume "df_name f \<in> rt_name ` set (candidates fs)"
    then obtain b where "b \<in> set (candidates fs)" "rt_name b = df_name f" by auto
    then show False using "2.prems" by (force simp: candidates_mem)
  qed
  then show ?case using 2 by (auto split: option.split)
qed simp

lemma candidates_filter: "candidates (filter (\<lambda>f. P (df_name f)) fs) = filter (\<lambda>b. P (rt_name b)) (candidates fs)"
  by (induction fs) (auto split: option.split)

lemma candidates_count:
  "length (filter Q (candidates fs)) =
   length (filter (\<lambda>f. glob_backup (df_name f) \<and>
     (\<exists>d. backup_date (df_name f) = Some d \<and> Q \<lparr>rt_name = df_name f, rt_date = d, rt_keep = False\<rparr>)) fs)"
  by (induction fs) (auto split: option.split)

text \<open>The candidates in the order of the marks, and the directory afterwards.\<close>

definition newest_first :: "dir_file list \<Rightarrow> retained list" where
  "newest_first fs = exchange_sort (\<lambda>x y. rt_date x < rt_date y) (candidates fs)"

lemma newest_first_props:
  "mset (newest_first fs) = mset (candidates fs)" "set (newest_first fs) = set (candidates fs)"
  "sorted_wrt (\<lambda>x y. rt_date y \<le> rt_date x) (newest_first fs)" "kept (newest_first fs) = 0"
proof -
  show m: "mset (newest_first fs) = mset (candidates fs)" by (simp add: newest_first_def)
  show s: "set (newest_first fs) = set (candidates fs)" by (rule mset_eq_setD [OF m])
  show "sorted_wrt (\<lambda>x y. rt_date y \<le> rt_date x) (newest_first fs)"
    unfolding newest_first_def by (rule exchange_sort_sorted)
  have "\<forall>b\<in>set (newest_first fs). \<not> rt_keep b" using s by (auto simp: candidates_mem)
  then show "kept (newest_first fs) = 0" by (simp add: kept_def filter_empty_conv)
qed

lemma newest_first_distinct: "distinct (map df_name fs) \<Longrightarrow> distinct (map rt_name (newest_first fs))"
  using candidates_distinct [of fs] newest_first_props(1) [of fs] by (metis mset_eq_imp_distinct_iff mset_map)

lemma apply_retention_uncapped:
  assumes "cap = [] \<or> cap = ''0''"
  shows "apply_retention_policy u removable d w m y cap fs = remove_unmarked removable (mark_retained d w m y (newest_first fs)) fs"
  using assms by (auto simp: apply_retention_policy_def newest_first_def Let_def split: prod.split option.split)

lemma filter_length_mono: "(\<And>x. x \<in> set xs \<Longrightarrow> P x \<Longrightarrow> Q x) \<Longrightarrow> length (filter P xs) \<le> length (filter Q xs)"
  by (induction xs) (auto simp: le_SucI)

lemma distinct_mapD: "distinct (map f xs) \<Longrightarrow> distinct xs"
  by (simp add: distinct_map)

lemma rank_bound:
  assumes "distinct bs" "sorted_wrt (\<lambda>x y. rt_date y \<le> rt_date x) bs" "i < length bs"
  shows "i \<le> length (filter (\<lambda>c. c \<noteq> bs ! i \<and> rt_date (bs ! i) \<le> rt_date c) bs)"
proof -
  let ?P = "\<lambda>c. c \<noteq> bs ! i \<and> rt_date (bs ! i) \<le> rt_date c"
  have "?P (bs ! j)" if "j < i" for j
    using that assms(3) sorted_wrt_nth_less [OF assms(2) that assms(3)] nth_eq_iff_index_eq [OF assms(1), of j i] by simp
  then have "\<forall>c\<in>set (take i bs). ?P c" using assms(3) by (auto simp: in_set_conv_nth)
  then have "filter ?P (take i bs) = take i bs" by (simp add: filter_id_conv)
  moreover have "filter P xs = filter P (take i xs) @ filter P (drop i xs)" for P :: "'b \<Rightarrow> bool" and xs
    by (simp flip: filter_append)
  then have "length (filter ?P bs) = length (filter ?P (take i bs)) + length (filter ?P (drop i bs))"
    by (metis length_append)
  ultimately show ?thesis using assms(3) by simp
qed


definition demo_dir :: "dir_file list" where
  "demo_dir = [\<lparr>df_name = ''caswhois_backup__2025-01-14_010203.tar.gz'', df_size = 5, df_mod = 1, df_isDir = False\<rparr>,
     \<lparr>df_name = ''caswhois_backup__2025-01-15_010203.tar.gz'', df_size = 7, df_mod = 2, df_isDir = False\<rparr>]"

definition demo_units :: size_units where
  "demo_units = \<lparr>sz_float = (\<lambda>t m. None), sz_percent = (\<lambda>t. None)\<rparr>"

lemma demo_dates:
  "backup_date ''caswhois_backup__2025-01-14_010203.tar.gz'' = Some (days_of 2025 1 14 * day)"
  "backup_date ''caswhois_backup__2025-01-15_010203.tar.gz'' = Some (days_of 2025 1 15 * day)"
  by code_simp+

lemma demo_globs: "glob_backup ''caswhois_backup__2025-01-14_010203.tar.gz''" "glob_backup ''caswhois_backup__2025-01-15_010203.tar.gz''"
  by (simp_all add: glob_backup_def has_prefix_def)


text \<open>
  when every deletion succeeds, at most as many full back-ups are left as the four limits allow together,
  and nothing but full back-ups with a date in their name is deleted.
\<close>

theorem retention_bound:
  assumes "distinct (map df_name fs)" "cap = [] \<or> cap = ''0''"
    and "apply_retention_policy u removable maxBackups w m y cap fs = (None, fs')"
    and "0 \<le> maxBackups" "0 \<le> w" "0 \<le> m" "0 \<le> y"
  shows "int (length (candidates fs')) \<le> maxBackups + w + m + y \<and>
    (\<forall>f\<in>set fs. f \<notin> set fs' \<longrightarrow> glob_backup (df_name f) \<and> backup_date (df_name f) \<noteq> None)"
proof
  define s where "s = newest_first fs"
  define M where "M = mark_retained maxBackups w m y s"
  have names: "map rt_name M = map rt_name s" by (simp add: M_def mark_retained_names)
  obtain N where N: "N = unkept M" "fs' = filter (\<lambda>f. df_name f \<notin> N) fs"
    using remove_unmarked_filter [of M removable fs] assms(3) unfolding apply_retention_uncapped [OF assms(2)] M_def s_def by auto
  have "length (candidates fs') = length (filter (\<lambda>b. rt_name b \<notin> N) (candidates fs))"
    unfolding N(2) by (subst candidates_filter) simp
  also have "\<dots> = length (filter (\<lambda>b. rt_name b \<notin> N) s)"
    using newest_first_props(1) [of fs] by (metis mset_filter s_def size_mset)
  also have "\<dots> = length (filter (\<lambda>n. n \<notin> N) (map rt_name s))" by (simp add: filter_map comp_def)
  also have "\<dots> = length (filter (\<lambda>b. rt_name b \<notin> N) M)" unfolding names [symmetric] by (simp add: filter_map comp_def)
  also have "\<dots> \<le> length (filter rt_keep M)"
    by (rule filter_length_mono) (auto simp: N(1) unkept_def)
  finally have "int (length (candidates fs')) \<le> kept M" by (simp add: kept_def)
  then show "int (length (candidates fs')) \<le> maxBackups + w + m + y"
    using mark_retained_kept [of s maxBackups w m y] newest_first_props(4) [of fs] assms(4-7) by (simp add: M_def s_def)
  have "N \<subseteq> rt_name ` set (candidates fs)"
  proof -
    have "N \<subseteq> set (map rt_name M)" by (auto simp: N(1) unkept_def)
    then show ?thesis unfolding names using newest_first_props(2) [of fs] by (simp add: s_def)
  qed
  then show "\<forall>f\<in>set fs. f \<notin> set fs' \<longrightarrow> glob_backup (df_name f) \<and> backup_date (df_name f) \<noteq> None"
    unfolding N(2) by (force simp: candidates_mem)
qed

theorem retention_bound_witness:
  "int (length (candidates (snd (apply_retention_policy demo_units (\<lambda>n. True) 1 0 0 0 [] demo_dir)))) \<le> 1"
proof -
  have e: "fst (apply_retention_policy demo_units (\<lambda>n. True) 1 0 0 0 [] demo_dir) = None" by code_simp
  then show ?thesis
    using retention_bound [of demo_dir "[]" demo_units "\<lambda>n. True" 1 0 0 0 "snd (apply_retention_policy demo_units (\<lambda>n. True) 1 0 0 0 [] demo_dir)"]
    by (cases "apply_retention_policy demo_units (\<lambda>n. True) 1 0 0 0 [] demo_dir") (auto simp: demo_dir_def)
qed

subsection \<open>The names that back-ups are given\<close>

lemma created_name_no_date:
  assumes "0 \<le> fst (date_of (local off t div day))" "fst (date_of (local off t div day)) < 10000"
  shows "backup_date (default_output off t opts) = None"
proof -
  obtain y m d where ymd: "date_of (local off t div day) = (y, m, d)" by (metis prod_cases3)
  have "nat y < 10000" using assms unfolding ymd by simp
  note p = pad4 [OF this]
  obtain a b c e where q: "pad 4 (nat y) = [a, b, c, e]" using p by (auto simp: numeral_eq_Suc length_Suc_conv)
  define r where "r = drop 17 (default_output off t opts)"
  have "take 4 r = [b, c, e, CHR ''-'']"
    unfolding r_def default_output_def backup_stamp_def Let_def ymd by (simp add: iso_date_def q)
  then have "take 4 (take 10 r) = [b, c, e, CHR ''-'']" by (simp add: min_def)
  then have "time_parse date_chunks (take 10 r) = None" by (simp add: time_parse_def date_chunks_def is_digit_def)
  then show ?thesis by (simp add: backup_date_def r_def)
qed

text \<open>
  the retention has no effect on the back-ups that \<open>Create\<close> names itself: the date is looked for one byte
  too late, so no name has one, and nothing is ever deleted.
\<close>

theorem retention_ignores_created:
  assumes "\<forall>f\<in>set fs. \<exists>t opts. df_name f = default_output off t opts \<and>
      0 \<le> fst (date_of (local off t div day)) \<and> fst (date_of (local off t div day)) < 10000"
    and "cap = [] \<or> cap = ''0''"
  shows "apply_retention_policy u removable maxBackups w m y cap fs = (None, fs)"
proof -
  have n: "\<forall>f\<in>set fs. backup_date (df_name f) = None" using assms(1) created_name_no_date by metis
  have "candidates fs = []"
  proof (rule ccontr)
    assume "candidates fs \<noteq> []"
    then obtain b where "b \<in> set (candidates fs)" by (cases "candidates fs") auto
    then show False using n by (auto simp: candidates_mem)
  qed
  then show ?thesis
    unfolding apply_retention_uncapped [OF assms(2)] by (simp add: newest_first_def mark_retained_def Let_def)
qed

theorem retention_ignores_created_witness:
  "apply_retention_policy demo_units (\<lambda>n. True) 1 0 0 0 []
     [\<lparr>df_name = default_output (\<lambda>t. 0) 0 demo_backup, df_size = 1, df_mod = 0, df_isDir = False\<rparr>] =
   (None, [\<lparr>df_name = default_output (\<lambda>t. 0) 0 demo_backup, df_size = 1, df_mod = 0, df_isDir = False\<rparr>])"
proof -
  have "date_of 0 = (1, 1, 1)" by code_simp
  then have d: "date_of (local (\<lambda>t. 0) 0 div day) = (1, 1, 1)" by (simp add: local_def)
  show ?thesis by (rule retention_ignores_created [where off = "\<lambda>t. 0"]) (use d in auto)
qed

subsection \<open>What the size cap leaves\<close>

lemma shrink_prefix:
  assumes "shrink removable cap tb old fs = (None, fs')"
  shows "\<exists>k\<le>length old. fs' = filter (\<lambda>f. df_name f \<notin> df_name ` set (take k old)) fs \<and>
    (k = length old \<or> tb - total_size (take k old) \<le> cap)"
  using assms
proof (induction removable cap tb old fs rule: shrink.induct)
  case (2 removable cap tb f old fs)
  show ?case
  proof (cases "tb \<le> cap")
    case True
    then show ?thesis using 2(2) by (intro exI [of _ 0]) (simp add: total_size_def)
  next
    case False
    then have r: "removable (df_name f)" "shrink removable cap (tb - df_size f) old (remove_file (df_name f) fs) = (None, fs')"
      using 2(2) by (auto split: if_splits)
    obtain k where k: "k \<le> length old" "fs' = filter (\<lambda>f. df_name f \<notin> df_name ` set (take k old)) (remove_file (df_name f) fs)"
      "k = length old \<or> tb - df_size f - total_size (take k old) \<le> cap" using 2(1) [OF False r] by blast
    have "fs' = filter (\<lambda>g. df_name g \<notin> df_name ` set (take (Suc k) (f # old))) fs"
      unfolding k(2) remove_file_filter by simp
    then show ?thesis using k(1,3) by (intro exI [of _ "Suc k"]) (simp add: total_size_def algebra_simps)
  qed
qed (simp add: total_size_def)

lemma total_size_mset: "mset xs = mset ys \<Longrightarrow> total_size xs = total_size ys"
  unfolding total_size_def by (metis mset_map sum_mset_sum_list)

lemma filter_names_drop:
  assumes "distinct (map df_name old)"
  shows "filter (\<lambda>f. df_name f \<notin> df_name ` set (take k old)) old = drop k old"
proof -
  have "filter (\<lambda>f. df_name f \<notin> df_name ` set (take k old)) (take k old) = []" by (simp add: filter_empty_conv)
  moreover have "filter (\<lambda>f. df_name f \<notin> df_name ` set (take k old)) (drop k old) = drop k old"
  proof -
    have "distinct (map df_name (take k old) @ map df_name (drop k old))"
      using assms by (metis append_take_drop_id map_append)
    then show ?thesis by (auto simp: filter_id_conv)
  qed
  ultimately show ?thesis by (metis append_Nil append_take_drop_id filter_append)
qed

lemma enforce_prefix:
  assumes "distinct (map df_name fs)" "parse_size_cap u cap = Inr n" "n \<noteq> 0"
    and "enforce_size_cap u removable cap fs = (None, fs')"
  obtains gone left where "mset (sized_files fs) = mset (gone @ left)" "mset (sized_files fs') = mset left"
    "fs' = filter (\<lambda>f. df_name f \<notin> df_name ` set gone) fs" "left = [] \<or> total_size left \<le> n"
    "\<forall>g\<in>set gone. \<forall>h\<in>set left. df_mod g \<le> df_mod h"
proof (cases "total_size (sized_files fs) \<le> n")
  case True
  then show thesis using that [of "[]" "sized_files fs"] assms(2-4) by (simp add: enforce_size_cap_def Let_def)
next
  case False
  define old where "old = exchange_sort (\<lambda>x y. df_mod y < df_mod x) (sized_files fs)"
  have m: "mset old = mset (sized_files fs)" by (simp add: old_def)
  have "shrink removable n (total_size (sized_files fs)) old fs = (None, fs')"
    using False assms(2-4) by (simp add: enforce_size_cap_def old_def Let_def)
  then obtain k where k: "fs' = filter (\<lambda>f. df_name f \<notin> df_name ` set (take k old)) fs"
    "k = length old \<or> total_size (sized_files fs) - total_size (take k old) \<le> n" using shrink_prefix by blast
  have "distinct (map df_name (sized_files fs))" using assms(1) by (simp add: sized_files_def distinct_map_filter)
  then have d: "distinct (map df_name old)" using m by (metis mset_eq_imp_distinct_iff mset_map)
  have "sized_files fs' = filter (\<lambda>f. df_name f \<notin> df_name ` set (take k old)) (sized_files fs)"
    by (simp add: k(1) sized_files_def conj_commute)
  then have l: "mset (sized_files fs') = mset (drop k old)"
    using filter_names_drop [OF d, of k] m by (metis mset_filter)
  have "total_size (sized_files fs) = total_size (take k old) + total_size (drop k old)"
    using total_size_mset [OF m] by (metis append_take_drop_id map_append sum_list_append total_size_def)
  then have t: "drop k old = [] \<or> total_size (drop k old) \<le> n" using k(2) by auto
  have "sorted_wrt (\<lambda>x y. - df_mod y \<le> - df_mod x) old"
    using exchange_sort_sorted [of "\<lambda>x. - df_mod x" "sized_files fs"] by (simp add: old_def)
  then have "\<forall>g\<in>set (take k old). \<forall>h\<in>set (drop k old). df_mod g \<le> df_mod h"
    by (metis append_take_drop_id neg_le_iff_le sorted_wrt_append)
  then show thesis using that [of "take k old" "drop k old"] m l k(1) t by simp
qed

text \<open>
  when the size cap has been enforced without error, what is left of the back-ups is within it, unless
  nothing is left; what was deleted is not newer than anything that was kept, and no other file is touched.
\<close>

theorem size_cap_enforced:
  assumes "distinct (map df_name fs)" "parse_size_cap u cap = Inr n" "n \<noteq> 0"
    and "enforce_size_cap u removable cap fs = (None, fs')"
  shows "(sized_files fs' = [] \<or> total_size (sized_files fs') \<le> n) \<and>
    (\<forall>g\<in>set fs. g \<notin> set fs' \<longrightarrow> g \<in> set (sized_files fs) \<and> (\<forall>h\<in>set (sized_files fs'). df_mod g \<le> df_mod h))"
proof -
  obtain gone left where g: "mset (sized_files fs) = mset (gone @ left)" "mset (sized_files fs') = mset left"
    "fs' = filter (\<lambda>f. df_name f \<notin> df_name ` set gone) fs" "left = [] \<or> total_size left \<le> n"
    "\<forall>g\<in>set gone. \<forall>h\<in>set left. df_mod g \<le> df_mod h" by (rule enforce_prefix [OF assms])
  have s: "set (sized_files fs) = set gone \<union> set left" "set (sized_files fs') = set left"
    using mset_eq_setD [OF g(1)] mset_eq_setD [OF g(2)] by simp_all
  have t: "sized_files fs' = [] \<or> total_size (sized_files fs') \<le> n" using g(4) total_size_mset [OF g(2)] g(2) by auto
  have "x \<in> set gone" if x: "x \<in> set fs" "x \<notin> set fs'" for x
  proof -
    obtain z where z: "z \<in> set gone" "df_name z = df_name x" using x g(3) by auto
    then have "z \<in> set fs" using s(1) by (auto simp: sized_files_def)
    then show ?thesis using z inj_onD [of df_name "set fs" z x] assms(1) x(1) by (simp add: distinct_map)
  qed
  then show ?thesis using t g(5) s by blast
qed

theorem size_cap_enforced_witness:
  "sized_files (snd (enforce_size_cap demo_units (\<lambda>n. True) ''8'' demo_dir)) = [] \<or>
   total_size (sized_files (snd (enforce_size_cap demo_units (\<lambda>n. True) ''8'' demo_dir))) \<le> 8"
proof -
  have p: "parse_size_cap demo_units ''8'' = Inr 8" by code_simp
  have e: "fst (enforce_size_cap demo_units (\<lambda>n. True) ''8'' demo_dir) = None" by code_simp
  show ?thesis
    using size_cap_enforced [OF _ p, of demo_dir "\<lambda>n. True"] e
    by (cases "enforce_size_cap demo_units (\<lambda>n. True) ''8'' demo_dir") (auto simp: demo_dir_def)
qed

text \<open>A negative number as cap.\<close>

lemma shrink_all: "\<forall>n. removable n \<Longrightarrow> fst (shrink removable cap tb old fs) = None"
  by (induction removable cap tb old fs rule: shrink.induct) simp_all

lemma digit_suffix: "is_digit d \<Longrightarrow> has_suffix (s @ [d]) p \<Longrightarrow> p = [] \<or> is_digit (last p)"
  by (cases p rule: rev_cases) (auto simp: has_suffix_def has_prefix_def)

lemma parse_negative_cap:
  assumes "0 < k" "k \<le> 2 ^ 63"
  shows "parse_size_cap u (''-'' @ itoa_nat k) = Inr (- int k)"
proof -
  let ?c = "''-'' @ itoa_nat k"
  have a: "all_digits (itoa_nat k)" by (rule all_digits_itoa)
  have "\<forall>c\<in>set ?c. \<not> is_space c" using a digit_not_space by (auto simp: all_digits_def list_all_iff is_space_def)
  then have t: "trim_space ?c = ?c" by (rule trim_space_id)
  have up: "to_upper ?c = ?c" using to_upper_digits [OF a] by (simp add: to_upper_def upper_char_def is_lower_def)
  obtain s d where d: "itoa_nat k = s @ [d]" "is_digit d"
    using a by (cases "itoa_nat k" rule: rev_cases) (auto simp: all_digits_def)
  have suf: "\<not> has_suffix ?c p" if "p \<noteq> []" "\<not> is_digit (last p)" for p
    using digit_suffix [OF d(2), of "''-'' @ s" p] that d(1) by auto
  have "\<forall>(p, m)\<in>set size_suffixes. p \<noteq> [] \<and> \<not> is_digit (last p)" by (simp add: size_suffixes_def is_digit_def)
  then have "find (\<lambda>(s, m). has_suffix (to_upper ?c) s) size_suffixes = None"
    unfolding up find_None_iff using suf by blast
  moreover have "\<not> has_suffix ?c ''%''" using suf [of "''%''"] by (simp add: is_digit_def)
  moreover have "atoi ?c = Some (- int k)" using a assms by (simp add: atoi_def has_prefix_def dec_val_itoa)
  ultimately show ?thesis unfolding parse_size_cap_def Let_def t by simp
qed

text \<open>
  a negative number of bytes as the size cap deletes every back-up, the one just made included, and does
  not report anything.
\<close>

theorem negative_cap_deletes_all:
  assumes "distinct (map df_name fs)" "\<forall>f\<in>set fs. 0 \<le> df_size f" "\<forall>n. removable n" "0 < k" "k \<le> 2 ^ 63"
  shows "fst (enforce_size_cap u removable (''-'' @ itoa_nat k) fs) = None \<and>
    sized_files (snd (enforce_size_cap u removable (''-'' @ itoa_nat k) fs)) = []"
proof -
  note p = parse_negative_cap [OF assms(4,5), of u]
  have e: "fst (enforce_size_cap u removable (''-'' @ itoa_nat k) fs) = None"
    unfolding enforce_size_cap_def p using shrink_all [OF assms(3)] by (simp add: Let_def)
  then have "enforce_size_cap u removable (''-'' @ itoa_nat k) fs = (None, snd (enforce_size_cap u removable (''-'' @ itoa_nat k) fs))"
    by (metis prod.collapse)
  then obtain gone left where g: "mset (sized_files fs) = mset (gone @ left)" "left = [] \<or> total_size left \<le> - int k"
    "mset (sized_files (snd (enforce_size_cap u removable (''-'' @ itoa_nat k) fs))) = mset left"
    using enforce_prefix [OF assms(1) p] assms(4) by (metis neg_0_equal_iff_equal of_nat_0_less_iff order_less_irrefl)
  have "\<forall>f\<in>set left. 0 \<le> df_size f" using mset_eq_setD [OF g(1)] assms(2) by (auto simp: sized_files_def)
  then have "0 \<le> total_size left" unfolding total_size_def by (intro sum_list_nonneg) auto
  then have "left = []" using g(2) assms(4) by auto
  then show ?thesis using e g(3) by simp
qed

theorem negative_cap_deletes_all_witness:
  "sized_files (snd (enforce_size_cap demo_units (\<lambda>n. True) ''-5'' demo_dir)) = []"
proof -
  have "''-'' @ itoa_nat 5 = ''-5''" by code_simp
  then show ?thesis using negative_cap_deletes_all [of demo_dir "\<lambda>n. True" 5 demo_units] by (simp add: demo_dir_def)
qed

end
