(* ===== verification/Update.thy ===== *)
theory Update
  imports GoTime
begin

text \<open>
  Self-update (\<open>src/src/update/update.go\<close>, \<open>update_unix.go\<close>): the releases and their checksums, the order
  of versions, the choice of an update, the replacement of the executable and the channel in the
  configuration file. HTTP, JSON, SHA-256, the platform and the success of each operation on files are
  parameters; files are a map from names to contents.
\<close>

subsection \<open>Data\<close>

record asset =
  as_name :: string
  as_url :: string
  as_size :: int

record release =
  rl_tag :: string
  rl_name :: string
  rl_prerelease :: bool
  rl_published :: time
  rl_assets :: "asset list"

record update_info =
  ui_available :: bool
  ui_current :: string
  ui_latest :: string
  ui_notes :: string
  ui_url :: string
  ui_checksum :: string

record cli_binary =
  cb_version :: string
  cb_sha256 :: string

record autodiscover =
  ad_baseURL :: string
  ad_cliVersions :: "(string \<times> cli_binary) list"

text \<open>
  \<open>ue_get\<close> gives the status, the body and whether the body is complete; \<open>None\<close> is an error.
\<close>

record update_env =
  ue_get :: "string \<Rightarrow> (int \<times> string \<times> bool) option"
  ue_release :: "string \<Rightarrow> release option"
  ue_releases :: "string \<Rightarrow> release list option"
  ue_autodiscover :: "string \<Rightarrow> autodiscover option"
  ue_sha :: "string \<Rightarrow> string"
  ue_os :: string
  ue_arch :: string

datatype update_error =
    NoResponse | BadStatus int | BadJson | NoReleases | NoBinary string | NoChecksums | NoChecksumEntry string
  | UpToDate | TempFile | BodyBroken | Executable | Mismatch string string | StatFailed | BackupFailed | ReplaceFailed
  | PermissionFailed | ExecFailed | BadChannel string | ConfigRead | ConfigWrite

subsection \<open>Versions\<close>

text \<open>\<open>strings.SplitN(s, sep, 3)\<close>.\<close>

definition split_three :: "string \<Rightarrow> string list" where
  "split_three s =
     (let p = split_on CHR ''.'' s in if length p \<le> 3 then p else [p ! 0, p ! 1, join ''.'' (drop 2 p)])"

fun version_loop :: "int \<Rightarrow> string \<Rightarrow> int" where
  "version_loop n [] = n"
| "version_loop n (c # cs) = (if \<not> is_digit c then -1 else version_loop (wrap64 (wrap64 (n * 10) + int (digit_val c))) cs)"

definition parse_version_segment :: "string \<Rightarrow> int" where
  "parse_version_segment s = version_loop 0 s"

definition pad_three :: "string list \<Rightarrow> string list" where
  "pad_three p = p @ replicate (3 - length p) ''0''"

fun first_difference :: "int list \<Rightarrow> int list \<Rightarrow> bool" where
  "first_difference (a # as) (b # bs) = (if a \<noteq> b then a > b else first_difference as bs)"
| "first_difference _ _ = False"

definition semver_greater :: "string \<Rightarrow> string \<Rightarrow> bool" where
  "semver_greater a b =
     first_difference (map parse_version_segment (pad_three (split_three a))) (map parse_version_segment (pad_three (split_three b)))"

definition is_newer :: "string \<Rightarrow> string \<Rightarrow> bool" where
  "is_newer latest0 current0 =
     (let latest = trim_prefix latest0 ''v''; current = trim_prefix current0 ''v''
      in if latest = current then False else semver_greater latest current)"

subsection \<open>Releases\<close>

definition http_ok :: "update_env \<Rightarrow> string \<Rightarrow> update_error + string \<times> bool" where
  "http_ok env url =
     (case ue_get env url of
        None \<Rightarrow> Inl NoResponse
      | Some (status, body, whole) \<Rightarrow> if status \<noteq> 200 then Inl (BadStatus status) else Inr (body, whole))"

definition releases_url :: string where
  "releases_url = ''https://api.github.com/repos/apimgr/whois/releases''"

definition get_latest_release :: "update_env \<Rightarrow> string \<Rightarrow> update_error + release" where
  "get_latest_release env channel =
     (let url = releases_url @ (if channel = ''stable'' then ''/latest''
                                else if channel = ''beta'' \<or> channel = ''daily'' then ''?per_page=1'' else [])
      in case http_ok env url of
           Inl e \<Rightarrow> Inl e
         | Inr (body, _) \<Rightarrow>
             if channel = ''stable'' then (case ue_release env body of None \<Rightarrow> Inl BadJson | Some r \<Rightarrow> Inr r)
             else case ue_releases env body of
               None \<Rightarrow> Inl BadJson
             | Some [] \<Rightarrow> Inl NoReleases
             | Some (r # rs) \<Rightarrow> Inr r)"

definition get_recent_releases :: "update_env \<Rightarrow> string \<Rightarrow> update_error + release list" where
  "get_recent_releases env channel =
     (case http_ok env (releases_url @ ''?per_page=20'') of
        Inl e \<Rightarrow> Inl e
      | Inr (body, _) \<Rightarrow>
          (case ue_releases env body of
             None \<Rightarrow> Inl BadJson
           | Some rs \<Rightarrow> Inr (filter (\<lambda>r. \<not> (channel = ''stable'' \<and> rl_prerelease r)) rs)))"

definition get_binary_name :: "update_env \<Rightarrow> string" where
  "get_binary_name env = ''caswhois-'' @ ue_os env @ ''-'' @ ue_arch env"

definition platform_asset :: "update_env \<Rightarrow> release \<Rightarrow> asset option" where
  "platform_asset env r = find (\<lambda>a. contains_sub (as_name a) (get_binary_name env)) (rl_assets r)"

text \<open>The digest in the lines of \<open>checksums.txt\<close>.\<close>

fun checksum_line :: "string \<Rightarrow> string list \<Rightarrow> string option" where
  "checksum_line name [] = None"
| "checksum_line name (l # ls) =
     (case str_fields l of
        [digest, f] \<Rightarrow> if trim_prefix f ''*'' = name then Some digest else checksum_line name ls
      | _ \<Rightarrow> checksum_line name ls)"

definition fetch_expected_checksum :: "update_env \<Rightarrow> release \<Rightarrow> string \<Rightarrow> update_error + string" where
  "fetch_expected_checksum env r assetName =
     (case find (\<lambda>a. as_name a = ''checksums.txt'') (rl_assets r) of
        None \<Rightarrow> Inl NoChecksums
      | Some a \<Rightarrow>
          if as_url a = [] then Inl NoChecksums
          else case http_ok env (as_url a) of
            Inl e \<Rightarrow> Inl e
          | Inr (body, whole) \<Rightarrow>
              if \<not> whole then Inl BodyBroken
              else case checksum_line assetName (split_on CHR 0x0A body) of
                None \<Rightarrow> Inl (NoChecksumEntry assetName)
              | Some d \<Rightarrow> Inr d)"

definition check_for_updates :: "update_env \<Rightarrow> string \<Rightarrow> string \<Rightarrow> update_error + update_info" where
  "check_for_updates env currentVersion channel =
     (case get_latest_release env channel of
        Inl e \<Rightarrow> Inl e
      | Inr r \<Rightarrow>
          (case platform_asset env r of
             None \<Rightarrow> Inl (NoBinary (get_binary_name env))
           | Some a \<Rightarrow>
               if as_url a = [] then Inl (NoBinary (get_binary_name env))
               else case fetch_expected_checksum env r (as_name a) of
                 Inl e \<Rightarrow> Inl e
               | Inr d \<Rightarrow>
                   Inr \<lparr>ui_available = is_newer (rl_tag r) currentVersion, ui_current = currentVersion, ui_latest = rl_tag r,
                        ui_notes = rl_name r, ui_url = as_url a, ui_checksum = d\<rparr>))"

text \<open>\<open>time.Since\<close> is cut to 64 bits, the product of the days wraps.\<close>

definition since :: "time \<Rightarrow> time \<Rightarrow> duration" where
  "since now t = max (- (2 ^ 63)) (min (2 ^ 63 - 1) (now - t))"

definition is_eligible_for_auto_update :: "time \<Rightarrow> time \<Rightarrow> int \<Rightarrow> bool" where
  "is_eligible_for_auto_update now publishedAt deferDays \<longleftrightarrow>
     deferDays \<le> 0 \<or> wrap64 (deferDays * day) \<le> since now publishedAt"

definition no_update :: "string \<Rightarrow> update_info" where
  "no_update currentVersion =
     \<lparr>ui_available = False, ui_current = currentVersion, ui_latest = [], ui_notes = [], ui_url = [], ui_checksum = []\<rparr>"

fun scan_releases :: "update_env \<Rightarrow> time \<Rightarrow> string \<Rightarrow> int \<Rightarrow> release list \<Rightarrow> update_error + update_info" where
  "scan_releases env now currentVersion deferDays [] = Inr (no_update currentVersion)"
| "scan_releases env now currentVersion deferDays (r # rs) =
     (if \<not> is_newer (rl_tag r) currentVersion then scan_releases env now currentVersion deferDays rs
      else if \<not> is_eligible_for_auto_update now (rl_published r) deferDays then scan_releases env now currentVersion deferDays rs
      else case platform_asset env r of
        None \<Rightarrow> scan_releases env now currentVersion deferDays rs
      | Some a \<Rightarrow>
          if as_url a = [] then scan_releases env now currentVersion deferDays rs
          else case fetch_expected_checksum env r (as_name a) of
            Inl e \<Rightarrow> Inl e
          | Inr d \<Rightarrow>
              Inr \<lparr>ui_available = True, ui_current = currentVersion, ui_latest = rl_tag r,
                   ui_notes = rl_name r, ui_url = as_url a, ui_checksum = d\<rparr>)"

definition check_for_updates_scheduled :: "update_env \<Rightarrow> time \<Rightarrow> string \<Rightarrow> string \<Rightarrow> int \<Rightarrow> update_error + update_info" where
  "check_for_updates_scheduled env now currentVersion channel deferDays =
     (case get_recent_releases env channel of
        Inl e \<Rightarrow> Inl e
      | Inr rs \<Rightarrow> scan_releases env now currentVersion deferDays rs)"

definition check_cli_updates :: "update_env \<Rightarrow> string \<Rightarrow> string \<Rightarrow> update_error + update_info" where
  "check_cli_updates env serverURL currentVersion =
     (case http_ok env (trim_suffix serverURL ''/'' @ ''/api/autodiscover'') of
        Inl e \<Rightarrow> Inl e
      | Inr (body, _) \<Rightarrow>
          (case ue_autodiscover env body of
             None \<Rightarrow> Inl BadJson
           | Some ad \<Rightarrow>
               (let key = ue_os env @ ''-'' @ ue_arch env
                in case map_of (ad_cliVersions ad) key of
                     None \<Rightarrow> Inl (NoBinary key)
                   | Some b \<Rightarrow>
                       if cb_version b = [] then Inl (NoBinary key)
                       else Inr \<lparr>ui_available = is_newer (cb_version b) currentVersion, ui_current = currentVersion,
                                 ui_latest = cb_version b, ui_notes = [],
                                 ui_url = trim_suffix (ad_baseURL ad) ''/'' @ ''/cli/binaries/caswhois-cli-'' @ key,
                                 ui_checksum = cb_sha256 b\<rparr>)))"

subsection \<open>Installation\<close>

type_synonym disk_files = "string \<Rightarrow> string option"

text \<open>
  The name of the executable and of the temporary file (\<open>None\<close> when there is none), and which operations
  on files succeed.
\<close>

record install_env =
  in_exe :: "string option"
  in_temp :: "string option"
  in_temp_chmod :: bool
  in_rename :: "string \<Rightarrow> string \<Rightarrow> bool"
  in_chmod :: bool
  in_remove :: bool
  in_exec :: bool

definition download_binary :: "update_env \<Rightarrow> install_env \<Rightarrow> string \<Rightarrow> disk_files \<Rightarrow> (update_error + string) \<times> disk_files" where
  "download_binary env inst url fs =
     (case in_temp inst of
        None \<Rightarrow> (Inl TempFile, fs)
      | Some tmp \<Rightarrow>
          (case http_ok env url of
             Inl e \<Rightarrow> (Inl e, fs(tmp := None))
           | Inr (body, whole) \<Rightarrow>
               if \<not> whole then (Inl BodyBroken, fs(tmp := None))
               else if \<not> in_temp_chmod inst then (Inl TempFile, fs(tmp := None))
               else (Inr tmp, fs(tmp \<mapsto> body))))"

definition verify_checksum :: "update_env \<Rightarrow> disk_files \<Rightarrow> string \<Rightarrow> string \<Rightarrow> update_error option" where
  "verify_checksum env fs path expected =
     (case fs path of
        None \<Rightarrow> Some TempFile
      | Some d \<Rightarrow> if hex_encode (ue_sha env d) \<noteq> expected then Some (Mismatch expected (hex_encode (ue_sha env d))) else None)"

definition rename_file :: "string \<Rightarrow> string \<Rightarrow> disk_files \<Rightarrow> disk_files" where
  "rename_file a b fs = fs(b := fs a, a := None)"

definition replace_binary :: "install_env \<Rightarrow> string \<Rightarrow> string \<Rightarrow> disk_files \<Rightarrow> update_error option \<times> disk_files" where
  "replace_binary inst currentPath newPath fs =
     (let backupPath = currentPath @ ''.old''
      in if fs currentPath = None then (Some StatFailed, fs)
         else if \<not> in_rename inst currentPath backupPath then (Some BackupFailed, fs)
         else let fs1 = rename_file currentPath backupPath fs
         in if \<not> in_rename inst newPath currentPath then
              (Some ReplaceFailed, if in_rename inst backupPath currentPath then rename_file backupPath currentPath fs1 else fs1)
            else let fs2 = rename_file newPath currentPath fs1
            in if \<not> in_chmod inst then (Some PermissionFailed, fs2)
               else (None, if in_remove inst then fs2(backupPath := None) else fs2))"

text \<open>What both kinds of update share: \<open>check\<close> tells whether the digest is compared.\<close>

definition install_checked ::
    "bool \<Rightarrow> update_env \<Rightarrow> install_env \<Rightarrow> update_info \<Rightarrow> disk_files \<Rightarrow> update_error option \<times> disk_files" where
  "install_checked check env inst info fs =
     (case download_binary env inst (ui_url info) fs of
        (Inl e, fs1) \<Rightarrow> (Some e, fs1)
      | (Inr tmp, fs1) \<Rightarrow>
          (case (if check then verify_checksum env fs1 tmp (ui_checksum info) else None) of
             Some e \<Rightarrow> (Some e, fs1(tmp := None))
           | None \<Rightarrow>
               (case in_exe inst of
                  None \<Rightarrow> (Some Executable, fs1(tmp := None))
                | Some exe \<Rightarrow>
                    (case replace_binary inst exe tmp fs1 of
                       (Some e, fs2) \<Rightarrow> (Some e, fs2(tmp := None))
                     | (None, fs2) \<Rightarrow> (if in_exec inst then None else Some ExecFailed, fs2(tmp := None))))))"

definition install_update :: "update_env \<Rightarrow> install_env \<Rightarrow> update_info \<Rightarrow> disk_files \<Rightarrow> update_error option \<times> disk_files" where
  "install_update = install_checked True"

definition perform_update :: "update_env \<Rightarrow> install_env \<Rightarrow> string \<Rightarrow> string \<Rightarrow> disk_files \<Rightarrow> update_error option \<times> disk_files" where
  "perform_update env inst currentVersion channel fs =
     (case check_for_updates env currentVersion channel of
        Inl e \<Rightarrow> (Some e, fs)
      | Inr info \<Rightarrow> if \<not> ui_available info then (Some UpToDate, fs) else install_update env inst info fs)"

definition perform_cli_update :: "update_env \<Rightarrow> install_env \<Rightarrow> string \<Rightarrow> string \<Rightarrow> disk_files \<Rightarrow> update_error option \<times> disk_files" where
  "perform_cli_update env inst serverURL currentVersion fs =
     (case check_cli_updates env serverURL currentVersion of
        Inl e \<Rightarrow> (Some e, fs)
      | Inr info \<Rightarrow>
          if \<not> ui_available info then (Some UpToDate, fs)
          else install_checked (ui_checksum info \<noteq> []) env inst info fs)"

subsection \<open>The channel\<close>

definition indent_of :: "string \<Rightarrow> nat" where
  "indent_of l = length l - length (dropWhile (\<lambda>c. c = CHR '' '' \<or> c = CHR 0x09) l)"

text \<open>\<open>None\<close> when no line was found.\<close>

fun channel_scan :: "string \<Rightarrow> bool \<Rightarrow> string list \<Rightarrow> string list option" where
  "channel_scan b inBlock [] = None"
| "channel_scan b inBlock (l # ls) =
     (let t = trim_space l
      in if t = ''update:'' \<and> indent_of l = 0 then map_option (Cons l) (channel_scan b True ls)
         else if inBlock \<and> indent_of l = 0 \<and> t \<noteq> [] then Some (b # l # ls)
         else if inBlock \<and> has_prefix t ''branch:'' then Some (b # ls)
         else map_option (Cons l) (channel_scan b inBlock ls))"

definition channel_line :: "string \<Rightarrow> string" where
  "channel_line channel = ''  branch: '' @ channel"

definition set_channel_lines :: "string \<Rightarrow> string list \<Rightarrow> string list" where
  "set_channel_lines channel ls =
     (case channel_scan (channel_line channel) False ls of
        Some ls' \<Rightarrow> ls'
      | None \<Rightarrow> ls @ [''update:'', channel_line channel])"

definition newline :: string where "newline = [CHR 0x0A]"

definition set_update_channel :: "bool \<Rightarrow> string \<Rightarrow> string \<Rightarrow> disk_files \<Rightarrow> update_error option \<times> disk_files" where
  "set_update_channel writable channel configFile fs =
     (if channel \<notin> {''stable'', ''beta'', ''daily''} then (Some (BadChannel channel), fs)
      else case fs configFile of
        None \<Rightarrow> (Some ConfigRead, fs)
      | Some d \<Rightarrow>
          if \<not> writable then (Some ConfigWrite, fs)
          else (None, fs(configFile \<mapsto> join newline (set_channel_lines channel (split_on CHR 0x0A d)))))"

subsection \<open>What is installed\<close>

lemma replace_binary_files:
  assumes "replace_binary inst exe tmp fs = (r, fs')" "tmp \<noteq> exe" "tmp \<noteq> exe @ ''.old''" "fs exe = Some old"
  shows "fs' exe = fs exe \<or> fs' exe = fs tmp \<or> fs' exe = None \<and> fs' (exe @ ''.old'') = Some old"
  using assms by (auto simp: replace_binary_def rename_file_def Let_def split: if_splits)

lemma install_checked_files:
  assumes "install_checked check env inst info fs = (r, fs')" "in_exe inst = Some exe" "in_temp inst \<noteq> Some exe"
    "in_temp inst \<noteq> Some (exe @ ''.old'')" "fs exe = Some old"
  shows "fs' exe = Some old \<or> fs' exe = None \<and> fs' (exe @ ''.old'') = Some old \<or>
    (\<exists>new. fs' exe = Some new \<and> http_ok env (ui_url info) = Inr (new, True) \<and>
       (check \<longrightarrow> hex_encode (ue_sha env new) = ui_checksum info))"
proof (cases "download_binary env inst (ui_url info) fs")
  case (Pair d fs1)
  show ?thesis
  proof (cases d)
    case (Inl e)
    then show ?thesis using Pair assms by (auto simp: install_checked_def download_binary_def split: option.splits sum.splits if_splits)
  next
    case (Inr tmp)
    obtain new where n: "in_temp inst = Some tmp" "http_ok env (ui_url info) = Inr (new, True)" "fs1 = fs(tmp \<mapsto> new)"
      using Pair Inr by (auto simp: download_binary_def split: option.splits sum.splits prod.splits if_splits)
    have ne: "tmp \<noteq> exe" "tmp \<noteq> exe @ ''.old''" using n(1) assms(3,4) by auto
    show ?thesis
    proof (cases "check \<and> hex_encode (ue_sha env new) \<noteq> ui_checksum info")
      case True
      then show ?thesis using assms Pair Inr n ne by (auto simp: install_checked_def verify_checksum_def)
    next
      case False
      then have v: "(if check then verify_checksum env fs1 tmp (ui_checksum info) else None) = None"
        by (auto simp: verify_checksum_def n(3))
      obtain r2 fs2 where rb: "replace_binary inst exe tmp fs1 = (r2, fs2)" by fastforce
      have "fs' = fs2(tmp := None)"
        using assms(1,2) Pair Inr v rb by (auto simp: install_checked_def split: option.splits)
      moreover have "fs1 exe = Some old" "fs1 tmp = Some new" using n(3) ne assms(5) by simp_all
      ultimately show ?thesis using replace_binary_files [OF rb ne] False n(2) ne by auto
    qed
  qed
qed

text \<open>
  C22: whatever the network answers and whichever operation on files fails, a self-update leaves the executable
  as it was, or replaces it by a complete download whose digest is the one that \<open>checksums.txt\<close> of the
  release names for that file, of a release newer than the running one; if even the way back fails, the
  old executable is kept beside it.
\<close>

theorem perform_update_verified:
  assumes "perform_update env inst currentVersion channel fs = (r, fs')" "in_exe inst = Some exe"
    "in_temp inst \<noteq> Some exe" "in_temp inst \<noteq> Some (exe @ ''.old'')" "fs exe = Some old"
  shows "fs' exe = Some old \<or> fs' exe = None \<and> fs' (exe @ ''.old'') = Some old \<or>
    (\<exists>new rel a. fs' exe = Some new \<and> get_latest_release env channel = Inr rel \<and> is_newer (rl_tag rel) currentVersion \<and>
       a \<in> set (rl_assets rel) \<and> contains_sub (as_name a) (get_binary_name env) \<and>
       http_ok env (as_url a) = Inr (new, True) \<and>
       fetch_expected_checksum env rel (as_name a) = Inr (hex_encode (ue_sha env new)))"
proof (cases "check_for_updates env currentVersion channel")
  case (Inl e)
  then show ?thesis using assms by (simp add: perform_update_def)
next
  case (Inr info)
  obtain rel a where c: "get_latest_release env channel = Inr rel" "platform_asset env rel = Some a"
    "fetch_expected_checksum env rel (as_name a) = Inr (ui_checksum info)" "ui_url info = as_url a"
    "ui_available info = is_newer (rl_tag rel) currentVersion"
    using Inr by (auto simp: check_for_updates_def split: sum.splits option.splits if_splits)
  have a: "a \<in> set (rl_assets rel)" "contains_sub (as_name a) (get_binary_name env)"
    using c(2) by (auto simp: platform_asset_def find_Some_iff)
  show ?thesis
  proof (cases "ui_available info")
    case True
    then have i: "install_checked True env inst info fs = (r, fs')" using assms(1) Inr by (simp add: perform_update_def install_update_def)
    then show ?thesis using install_checked_files [OF i assms(2-5)] a c True by metis
  qed (use assms Inr in \<open>simp add: perform_update_def\<close>)
qed

subsection \<open>The order of versions\<close>

lemma version_loop_digits:
  "list_all is_digit s \<Longrightarrow> foldl (\<lambda>n c. 10 * n + digit_val c) n s < 2 ^ 63 \<Longrightarrow>
   version_loop (int n) s = int (foldl (\<lambda>n c. 10 * n + digit_val c) n s)"
proof (induction s arbitrary: n)
  case (Cons c s)
  have mono: "m \<le> foldl (\<lambda>n c. 10 * n + digit_val c) m s" for m
  proof (induction s arbitrary: m)
    case (Cons d s)
    show ?case using Cons.IH [of "10 * m + digit_val d"] by simp
  qed simp
  have b: "10 * n + digit_val c < 2 ^ 63" using mono [of "10 * n + digit_val c"] Cons.prems(2) by simp
  then have "wrap64 (int n * 10) = int n * 10" "wrap64 (int n * 10 + int (digit_val c)) = int (10 * n + digit_val c)"
    by (simp_all add: wrap64_id)
  then show ?case using Cons.IH [of "10 * n + digit_val c"] Cons.prems by simp
qed simp

lemma parse_segment_itoa: "n < 2 ^ 63 \<Longrightarrow> parse_version_segment (itoa_nat n) = int n"
  using version_loop_digits [of "itoa_nat n" 0] all_digits_itoa [of n] dec_val_itoa [of n]
  by (simp add: parse_version_segment_def all_digits_def dec_val_def)

lemma parse_segment_other: "\<not> list_all is_digit s \<Longrightarrow> parse_version_segment s = -1"
proof -
  have "\<not> list_all is_digit s \<Longrightarrow> version_loop n s = -1" for n by (induction s arbitrary: n) auto
  then show "\<not> list_all is_digit s \<Longrightarrow> parse_version_segment s = -1" by (simp add: parse_version_segment_def)
qed

lemma itoa_plain: "CHR ''.'' \<notin> set (itoa_nat n)" "itoa_nat n \<noteq> []" "hd (itoa_nat n) \<noteq> CHR ''v''"
proof -
  have d: "list_all is_digit (itoa_nat n)" "itoa_nat n \<noteq> []" using all_digits_itoa [of n] by (simp_all add: all_digits_def)
  show "CHR ''.'' \<notin> set (itoa_nat n)" using d(1) by (auto simp: list_all_iff is_digit_def)
  show "itoa_nat n \<noteq> []" by (rule d(2))
  have "is_digit (hd (itoa_nat n))" using d hd_in_set [OF d(2)] by (simp add: list_all_iff)
  then show "hd (itoa_nat n) \<noteq> CHR ''v''" by (auto simp: is_digit_def)
qed

definition version_text :: "nat \<Rightarrow> nat \<Rightarrow> string \<Rightarrow> string" where
  "version_text a b t = itoa_nat a @ ''.'' @ itoa_nat b @ ''.'' @ t"

lemma split_version: "split_three (version_text a b t) = [itoa_nat a, itoa_nat b, t]"
proof -
  have j: "split_on CHR ''.'' (version_text a b t) = itoa_nat a # itoa_nat b # split_on CHR ''.'' t"
    using split_on_append [OF itoa_plain(1) [of a]] split_on_append [OF itoa_plain(1) [of b]] by (simp add: version_text_def)
  show ?thesis
  proof (cases "CHR ''.'' \<in> set t")
    case True
    then have "2 \<le> length (split_on CHR ''.'' t)" by (induction t) (auto split: list.split simp: Suc_le_eq)
    then show ?thesis unfolding split_three_def j by (simp add: Let_def)
  next
    case False
    then show ?thesis unfolding split_three_def j by (simp add: split_on_absent Let_def)
  qed
qed

lemma trim_version: "p = [] \<or> p = ''v'' \<Longrightarrow> trim_prefix (p @ version_text a b t) ''v'' = version_text a b t"
  using itoa_plain(2,3) [of a] by (cases "itoa_nat a") (auto simp: trim_prefix_def has_prefix_def version_text_def)

lemma newer_parts:
  assumes "p = [] \<or> p = ''v''" "q = [] \<or> q = ''v''" "a < 2 ^ 63" "b < 2 ^ 63" "x < 2 ^ 63" "y < 2 ^ 63"
  shows "is_newer (p @ version_text a b t) (q @ version_text x y u) \<longleftrightarrow>
    version_text a b t \<noteq> version_text x y u \<and>
    (x < a \<or> x = a \<and> (y < b \<or> y = b \<and> parse_version_segment u < parse_version_segment t))"
  unfolding is_newer_def Let_def trim_version [OF assms(1)] trim_version [OF assms(2)]
  by (auto simp: semver_greater_def split_version pad_three_def parse_segment_itoa [OF assms(3)] parse_segment_itoa [OF assms(4)]
      parse_segment_itoa [OF assms(5)] parse_segment_itoa [OF assms(6)])

text \<open>
  versions of three numbers are ordered as triples, with or without the leading letter.
\<close>

theorem is_newer_spec:
  assumes "p = [] \<or> p = ''v''" "q = [] \<or> q = ''v''" "a < 2 ^ 63" "b < 2 ^ 63" "c < 2 ^ 63" "x < 2 ^ 63" "y < 2 ^ 63" "z < 2 ^ 63"
  shows "is_newer (p @ version_text a b (itoa_nat c)) (q @ version_text x y (itoa_nat z)) \<longleftrightarrow>
    x < a \<or> x = a \<and> (y < b \<or> y = b \<and> z < c)"
proof -
  have "version_text a b (itoa_nat c) = version_text x y (itoa_nat z) \<Longrightarrow> x = a \<and> y = b \<and> z = c"
    by (metis dec_val_itoa list.inject split_version)
  then show ?thesis
    using newer_parts [OF assms(1,2,3,4,6,7), of "itoa_nat c" "itoa_nat z"] parse_segment_itoa [OF assms(5)] parse_segment_itoa [OF assms(8)]
    by auto
qed

theorem is_newer_spec_witness:
  "is_newer (''v'' @ version_text 1 10 (itoa_nat 0)) (version_text 1 9 (itoa_nat 0))"
  using is_newer_spec [of "''v''" "[]" 1 10 0 1 9 0] by simp

text \<open>
  a tag whose third part is not a number, as that of a release candidate, is never newer than any other
  release of the same minor version, the one before included: the beta channel does not offer it.
\<close>

theorem prerelease_never_newer:
  assumes "p = [] \<or> p = ''v''" "q = [] \<or> q = ''v''" "a < 2 ^ 63" "b < 2 ^ 63" "z < 2 ^ 63" "\<not> list_all is_digit t"
  shows "\<not> is_newer (p @ version_text a b t) (q @ version_text a b (itoa_nat z))"
  using newer_parts [OF assms(1,2,3,4,3,4), of t "itoa_nat z"] parse_segment_itoa [OF assms(5)]
    parse_segment_other [OF assms(6)] by simp

theorem prerelease_never_newer_witness:
  "\<not> is_newer (''v'' @ version_text 1 3 ''1-rc1'') (''v'' @ version_text 1 3 (itoa_nat 0))"
  using prerelease_never_newer [of "''v''" "''v''" 1 3 0 "''1-rc1''"] by (simp add: is_digit_def)

subsection \<open>The scheduled check\<close>

text \<open>What a scan of releases passes over.\<close>

definition skipped_release :: "update_env \<Rightarrow> time \<Rightarrow> string \<Rightarrow> int \<Rightarrow> release \<Rightarrow> bool" where
  "skipped_release env now currentVersion deferDays r \<longleftrightarrow>
     \<not> is_newer (rl_tag r) currentVersion \<or> \<not> is_eligible_for_auto_update now (rl_published r) deferDays \<or>
     (case platform_asset env r of None \<Rightarrow> True | Some a \<Rightarrow> as_url a = [])"

lemma scan_releases_spec:
  "scan_releases env now cur d rs =
   (case dropWhile (skipped_release env now cur d) rs of
      [] \<Rightarrow> Inr (no_update cur)
    | r # _ \<Rightarrow>
        (case platform_asset env r of
           None \<Rightarrow> Inr (no_update cur)
         | Some a \<Rightarrow>
             (case fetch_expected_checksum env r (as_name a) of
                Inl e \<Rightarrow> Inl e
              | Inr c \<Rightarrow> Inr \<lparr>ui_available = True, ui_current = cur, ui_latest = rl_tag r, ui_notes = rl_name r,
                             ui_url = as_url a, ui_checksum = c\<rparr>)))"
  by (induction rs) (auto simp: skipped_release_def split: option.split sum.split)

text \<open>
  the scheduled check offers the first release of the list that is newer than the running one, was
  published at least the given days ago and has a file for the platform, with the digest that its
  \<open>checksums.txt\<close> names; every release before it fails one of these. On the stable channel it is no
  pre-release.
\<close>

theorem scheduled_update_first:
  assumes "check_for_updates_scheduled env now cur channel deferDays = Inr info" "ui_available info"
    and "0 < deferDays" "deferDays \<le> 106751"
  shows "\<exists>rs pre r post a. get_recent_releases env channel = Inr rs \<and> rs = pre @ r # post \<and>
    (\<forall>q\<in>set pre. skipped_release env now cur deferDays q) \<and>
    is_newer (rl_tag r) cur \<and> deferDays * day \<le> now - rl_published r \<and>
    (channel = ''stable'' \<longrightarrow> \<not> rl_prerelease r) \<and>
    a \<in> set (rl_assets r) \<and> contains_sub (as_name a) (get_binary_name env) \<and> ui_url info = as_url a \<and>
    ui_latest info = rl_tag r \<and> fetch_expected_checksum env r (as_name a) = Inr (ui_checksum info)"
proof -
  obtain rs where rs: "get_recent_releases env channel = Inr rs" "scan_releases env now cur deferDays rs = Inr info"
    using assms(1) by (auto simp: check_for_updates_scheduled_def split: sum.splits)
  let ?P = "skipped_release env now cur deferDays"
  obtain r post where r: "dropWhile ?P rs = r # post"
    using rs(2) assms(2) by (cases "dropWhile ?P rs") (auto simp: scan_releases_spec no_update_def)
  have split: "rs = takeWhile ?P rs @ r # post" using r by (metis takeWhile_dropWhile_id)
  have np: "\<not> ?P r" using r by (metis hd_dropWhile list.distinct(1) list.sel(1))
  obtain a where a: "platform_asset env r = Some a" "as_url a \<noteq> []" "is_newer (rl_tag r) cur"
    "is_eligible_for_auto_update now (rl_published r) deferDays"
    using np by (auto simp: skipped_release_def split: option.splits)
  have info: "fetch_expected_checksum env r (as_name a) = Inr (ui_checksum info)" "ui_url info = as_url a" "ui_latest info = rl_tag r"
    using rs(2) r a(1) by (auto simp: scan_releases_spec split: sum.splits)
  have "wrap64 (deferDays * day) = deferDays * day" using assms(3,4) by (intro wrap64_id) simp_all
  then have "deferDays * day \<le> now - rl_published r" using a(4) assms(3,4) by (auto simp: is_eligible_for_auto_update_def since_def)
  moreover have "r \<in> set rs" using split by (metis in_set_conv_decomp)
  then have "channel = ''stable'' \<longrightarrow> \<not> rl_prerelease r"
    using rs(1) by (auto simp: get_recent_releases_def split: sum.splits option.splits)
  moreover have "a \<in> set (rl_assets r)" "contains_sub (as_name a) (get_binary_name env)"
    using a(1) by (auto simp: platform_asset_def find_Some_iff)
  moreover have "\<forall>q\<in>set (takeWhile ?P rs). ?P q" by (auto dest: set_takeWhileD)
  ultimately show ?thesis using rs(1) split a(3) info by blast
qed

subsection \<open>The command-line client\<close>

text \<open>
  an update of the client whose digest the server leaves out is installed without any check: the
  executable becomes whatever the address answers.
\<close>

theorem cli_update_unverified:
  assumes "check_cli_updates env serverURL cur = Inr info" "ui_available info" "ui_checksum info = []"
    and "http_ok env (ui_url info) = Inr (new, True)"
    and "in_exe inst = Some exe" "in_temp inst = Some tmp" "tmp \<noteq> exe" "tmp \<noteq> exe @ ''.old''" "fs exe \<noteq> None"
    and "\<forall>a b. in_rename inst a b" "in_temp_chmod inst" "in_chmod inst" "in_remove inst" "in_exec inst"
  shows "\<exists>fs'. perform_cli_update env inst serverURL cur fs = (None, fs') \<and> fs' exe = Some new"
  using assms by (auto simp: perform_cli_update_def install_checked_def download_binary_def replace_binary_def rename_file_def Let_def)

subsection \<open>The channel in the configuration\<close>

definition top_update :: "string \<Rightarrow> bool" where
  "top_update l \<longleftrightarrow> trim_space l = ''update:'' \<and> indent_of l = 0"

lemma scan_outside: "\<forall>l\<in>set ls. \<not> top_update l \<Longrightarrow> channel_scan b False (ls @ ms) = map_option ((@) ls) (channel_scan b False ms)"
proof (induction ls)
  case Nil
  show ?case by (cases "channel_scan b False ms") simp_all
next
  case (Cons l ls)
  then show ?case by (cases "channel_scan b False ms") (auto simp: top_update_def Let_def)
qed

lemma update_line: "top_update ''update:''" "trim_space ''update:'' = ''update:''" "indent_of ''update:'' = 0"
  by (simp_all add: top_update_def trim_space_id is_space_def indent_of_def)

lemma branch_line:
  assumes "c = ''stable'' \<or> c = ''beta'' \<or> c = ''daily''"
  shows "trim_space (channel_line c) = ''branch: '' @ c"
proof -
  have "trim_space (channel_line ''stable'') = ''branch: stable'' \<and> trim_space (channel_line ''beta'') = ''branch: beta'' \<and>
      trim_space (channel_line ''daily'') = ''branch: daily''" by code_simp
  then show ?thesis using assms by auto
qed

lemma scan_own_block:
  assumes "c = ''stable'' \<or> c = ''beta'' \<or> c = ''daily''"
  shows "channel_scan b False [''update:'', channel_line c] = Some [''update:'', b]"
proof -
  have "indent_of (channel_line c) = 2" by (simp add: indent_of_def channel_line_def)
  then show ?thesis
    unfolding channel_scan.simps Let_def branch_line [OF assms] by (simp add: update_line has_prefix_def)
qed

text \<open>
  in a file without a line \<open>update:\<close> at the margin, as every file has whose settings are under \<open>server:\<close>
  where they are read from, setting the channel changes no line: it appends a block of its own, which a
  later call finds and changes. The channel that is read does not change.
\<close>

theorem channel_appended:
  assumes "\<forall>l\<in>set ls. \<not> top_update l" "c = ''stable'' \<or> c = ''beta'' \<or> c = ''daily''"
  shows "set_channel_lines c ls = ls @ [''update:'', channel_line c] \<and>
    set_channel_lines c' (set_channel_lines c ls) = ls @ [''update:'', channel_line c']"
proof
  show a: "set_channel_lines c ls = ls @ [''update:'', channel_line c]"
    using scan_outside [OF assms(1), of _ "[]"] by (simp add: set_channel_lines_def)
  show "set_channel_lines c' (set_channel_lines c ls) = ls @ [''update:'', channel_line c']"
    unfolding a unfolding set_channel_lines_def scan_outside [OF assms(1)] scan_own_block [OF assms(2)] by simp
qed

theorem channel_appended_witness:
  "set_channel_lines ''beta'' [''server:'', ''  update:'', ''    branch: stable''] =
     [''server:'', ''  update:'', ''    branch: stable'', ''update:'', ''  branch: beta'']"
proof -
  have "\<forall>l\<in>set [''server:'', ''  update:'', ''    branch: stable'']. \<not> top_update l" by code_simp
  from channel_appended [OF this, of "''beta''"] show ?thesis by (simp add: channel_line_def)
qed

subsection \<open>A release\<close>

definition demo_asset :: asset where
  "demo_asset = \<lparr>as_name = ''caswhois-linux-amd64'', as_url = ''u'', as_size = 1\<rparr>"

definition demo_release :: release where
  "demo_release = \<lparr>rl_tag = ''v2.0.0'', rl_name = ''two'', rl_prerelease = False, rl_published = 0,
     rl_assets = [demo_asset, \<lparr>as_name = ''checksums.txt'', as_url = ''c'', as_size = 1\<rparr>]\<rparr>"

definition demo_env :: update_env where
  "demo_env = \<lparr>ue_get = (\<lambda>u. Some (200, if u = ''u'' then ''new'' else ''6e6577  *caswhois-linux-amd64'', True)),
     ue_release = (\<lambda>d. Some demo_release), ue_releases = (\<lambda>d. Some [demo_release]),
     ue_autodiscover = (\<lambda>d. Some \<lparr>ad_baseURL = ''b'', ad_cliVersions = [(''linux-amd64'', \<lparr>cb_version = ''2.0.0'', cb_sha256 = []\<rparr>)]\<rparr>),
     ue_sha = (\<lambda>d. d), ue_os = ''linux'', ue_arch = ''amd64''\<rparr>"

definition demo_inst :: install_env where
  "demo_inst = \<lparr>in_exe = Some ''exe'', in_temp = Some ''tmp'', in_temp_chmod = True, in_rename = (\<lambda>a b. True), in_chmod = True,
     in_remove = True, in_exec = True\<rparr>"

lemma demo_updates:
  "fst (perform_update demo_env demo_inst ''1.0.0'' ''stable'' [''exe'' \<mapsto> ''old'']) = None"
  "snd (perform_update demo_env demo_inst ''1.0.0'' ''stable'' [''exe'' \<mapsto> ''old'']) ''exe'' = Some ''new''"
proof -
  have c: "check_for_updates demo_env ''1.0.0'' ''stable'' = Inr \<lparr>ui_available = True, ui_current = ''1.0.0'', ui_latest = ''v2.0.0'',
      ui_notes = ''two'', ui_url = ''u'', ui_checksum = ''6e6577''\<rparr>" by code_simp
  have h: "http_ok demo_env ''u'' = Inr (''new'', True)" "ue_sha demo_env ''new'' = ''new''" by (simp_all add: http_ok_def demo_env_def)
  have x: "hex_encode ''new'' = ''6e6577''" by code_simp
  show "fst (perform_update demo_env demo_inst ''1.0.0'' ''stable'' [''exe'' \<mapsto> ''old'']) = None"
    "snd (perform_update demo_env demo_inst ''1.0.0'' ''stable'' [''exe'' \<mapsto> ''old'']) ''exe'' = Some ''new''"
    by (simp_all add: perform_update_def install_update_def install_checked_def download_binary_def verify_checksum_def
        replace_binary_def rename_file_def Let_def c h x demo_inst_def)
qed

lemma pair_with: "fst x = a \<Longrightarrow> x = (a, snd x)"
  by auto

theorem perform_update_verified_witness:
  "\<exists>new rel. snd (perform_update demo_env demo_inst ''1.0.0'' ''stable'' [''exe'' \<mapsto> ''old'']) ''exe'' = Some new \<and>
     get_latest_release demo_env ''stable'' = Inr rel \<and> is_newer (rl_tag rel) ''1.0.0''"
proof -
  define u where "u = snd (perform_update demo_env demo_inst ''1.0.0'' ''stable'' [''exe'' \<mapsto> ''old''])"
  have p: "perform_update demo_env demo_inst ''1.0.0'' ''stable'' [''exe'' \<mapsto> ''old''] = (None, u)"
    unfolding u_def by (rule pair_with [OF demo_updates(1)])
  have i: "in_exe demo_inst = Some ''exe''" "in_temp demo_inst \<noteq> Some ''exe''" "in_temp demo_inst \<noteq> Some (''exe'' @ ''.old'')"
    by (simp_all add: demo_inst_def)
  have o: "([''exe'' \<mapsto> ''old''] :: disk_files) ''exe'' = Some ''old''" by simp
  have n: "u ''exe'' = Some ''new''" using demo_updates(2) by (simp only: u_def)
  have "\<exists>new rel a. u ''exe'' = Some new \<and> get_latest_release demo_env ''stable'' = Inr rel \<and> is_newer (rl_tag rel) ''1.0.0'' \<and>
      a \<in> set (rl_assets rel)"
    using perform_update_verified [OF p i o] n by (elim disjE) (simp_all, blast)
  then obtain rel where "get_latest_release demo_env ''stable'' = Inr rel" "is_newer (rl_tag rel) ''1.0.0''" by blast
  then show ?thesis unfolding u_def [symmetric] using n by blast
qed

theorem scheduled_update_first_witness:
  "\<exists>r. is_newer (rl_tag r) ''1.0.0'' \<and> 3 * day \<le> 5 * day - rl_published r \<and>
     get_recent_releases demo_env ''stable'' = Inr [r]"
proof -
  let ?i = "\<lparr>ui_available = True, ui_current = ''1.0.0'', ui_latest = ''v2.0.0'', ui_notes = ''two'', ui_url = ''u'', ui_checksum = ''6e6577''\<rparr>"
  have c: "check_for_updates_scheduled demo_env (5 * day) ''1.0.0'' ''stable'' 3 = Inr ?i" by code_simp
  have g: "get_recent_releases demo_env ''stable'' = Inr [demo_release]"
    by (simp add: get_recent_releases_def http_ok_def demo_env_def demo_release_def)
  have "[demo_release] = pre @ r # post \<Longrightarrow> r = demo_release" for pre r post by (cases pre) auto
  moreover have pr: "ui_available ?i" "0 < (3::int)" "(3::int) \<le> 106751" by simp_all
  obtain rs pre r post where r: "get_recent_releases demo_env ''stable'' = Inr rs" "rs = pre @ r # post"
    "is_newer (rl_tag r) ''1.0.0''" "3 * day \<le> 5 * day - rl_published r"
    using scheduled_update_first [OF c pr] by blast
  ultimately have "r = demo_release" using g by simp
  then show ?thesis using g r(3,4) by blast
qed

theorem cli_update_unverified_witness:
  "\<exists>fs'. perform_cli_update demo_env demo_inst ''s'' ''1.0.0'' [''exe'' \<mapsto> ''old''] = (None, fs') \<and> fs' ''exe'' \<noteq> Some ''old''"
proof -
  let ?i = "\<lparr>ui_available = True, ui_current = ''1.0.0'', ui_latest = ''2.0.0'', ui_notes = [],
    ui_url = ''b/cli/binaries/caswhois-cli-linux-amd64'', ui_checksum = []\<rparr>"
  have c: "check_cli_updates demo_env ''s'' ''1.0.0'' = Inr ?i" by code_simp
  have h: "http_ok demo_env (ui_url ?i) = Inr (''6e6577  *caswhois-linux-amd64'', True)"
    by (simp add: http_ok_def demo_env_def)
  have i: "in_exe demo_inst = Some ''exe''" "in_temp demo_inst = Some ''tmp''" by (simp_all add: demo_inst_def)
  have "\<exists>fs'. perform_cli_update demo_env demo_inst ''s'' ''1.0.0'' [''exe'' \<mapsto> ''old''] = (None, fs') \<and>
      fs' ''exe'' = Some ''6e6577  *caswhois-linux-amd64''"
    by (rule cli_update_unverified [OF c _ _ h i]) (simp_all add: demo_inst_def)
  then show ?thesis by auto
qed

end
