(* ===== verification/Records.thy ===== *)
theory Records
  imports Lookup "HOL-Library.Multiset"
begin

text \<open>
  The permanent records of WHOIS queries (\<open>src/src/whois/records/records.go\<close>), the providers of reverse
  searches (\<open>src/src/whois/reverse/reverse.go\<close>), and the search for owners and the refreshing of records
  in \<open>src/src/server\<close>. The table is the list of its rows; the order in which the database reads
  them (it decides between rows with equal \<open>last_seen\<close>), whether it answers, JSON and HTTP are parameters. \<open>LOWER\<close> and \<open>LIKE\<close> are those of SQLite,
  for ASCII.
\<close>

subsection \<open>Rows\<close>

record record_row =
  rr_query :: string
  rr_type :: string
  rr_name :: "string option"
  rr_org :: "string option"
  rr_email :: "string option"
  rr_country :: "string option"
  rr_registrar :: "string option"
  rr_created :: "string option"
  rr_expiry :: "string option"
  rr_nameservers :: "string option"
  rr_status :: "string option"
  rr_server :: "string option"
  rr_raw :: "string option"
  rr_first :: int
  rr_last :: int
  rr_updated :: int

record whois_record =
  wr_query :: string
  wr_type :: string
  wr_name :: string
  wr_org :: string
  wr_email :: string
  wr_country :: string
  wr_registrar :: string
  wr_created :: string
  wr_expiry :: string
  wr_nameservers :: "string list"
  wr_status :: "string list"
  wr_server :: string
  wr_raw :: string
  wr_first :: int
  wr_last :: int
  wr_updated :: int

record records_env =
  re_up :: bool
  re_scan :: "record_row list \<Rightarrow> record_row list"
  re_marshal :: "string list \<Rightarrow> string option"
  re_unmarshal :: "string \<Rightarrow> string list option"

datatype records_error = EmptyOwner | DatabaseFailed

subsection \<open>Storing\<close>

definition nullable_string :: "string \<Rightarrow> string option" where
  "nullable_string s = (if s = [] then None else Some s)"

text \<open>RFC 3339 in UTC, to the second.\<close>

definition rfc3339_text :: "time \<Rightarrow> string" where
  "rfc3339_text t =
     (let s = nat (t mod day div second)
      in case date_of (t div day) of
           (y, m, d) \<Rightarrow>
             iso_date (nat y) (nat m) (nat d) @ ''T'' @ iso_clock (s div 3600) (s mod 3600 div 60) (s mod 60) @ ''Z'')"

definition nullable_time :: "time \<Rightarrow> string option" where
  "nullable_time t = (if t = 0 then None else Some (rfc3339_text t))"

definition nullable_json :: "records_env \<Rightarrow> string list \<Rightarrow> string option" where
  "nullable_json env v = (if v = [] then None else re_marshal env v)"

definition decode_json :: "records_env \<Rightarrow> string \<Rightarrow> string list" where
  "decode_json env s = (if trim_space s = [] then [] else opt_or (re_unmarshal env s) [])"

text \<open>Seconds since 1970.\<close>

definition unix_epoch :: int where "unix_epoch = 62135596800"

definition unix_of :: "time \<Rightarrow> int" where
  "unix_of t = t div second - unix_epoch"

definition time_of_unix :: "int \<Rightarrow> time" where
  "time_of_unix n = (n + unix_epoch) * second"

text \<open>\<open>INSERT ... ON CONFLICT(query) DO UPDATE\<close>: \<open>first_seen\<close> of an existing row stays.\<close>

definition new_row :: "records_env \<Rightarrow> time \<Rightarrow> string \<Rightarrow> string \<Rightarrow> domain_result \<Rightarrow> record_row" where
  "new_row env now query queryType r =
     \<lparr>rr_query = to_lower (trim_space query), rr_type = queryType, rr_name = nullable_string (d_registrant r),
      rr_org = nullable_string (d_organization r), rr_email = nullable_string (d_email r),
      rr_country = nullable_string (d_country r), rr_registrar = nullable_string (d_registrar r),
      rr_created = nullable_time (d_created r), rr_expiry = nullable_time (d_expiry r),
      rr_nameservers = nullable_json env (d_nameservers r), rr_status = nullable_json env (d_status r),
      rr_server = None, rr_raw = nullable_string (d_raw r),
      rr_first = unix_of now, rr_last = unix_of now, rr_updated = unix_of now\<rparr>"

fun insert_row :: "record_row \<Rightarrow> record_row list \<Rightarrow> record_row list" where
  "insert_row n [] = [n]"
| "insert_row n (r # rs) = (if rr_query r = rr_query n then n\<lparr>rr_first := rr_first r\<rparr> # rs else r # insert_row n rs)"

definition upsert_record ::
    "records_env \<Rightarrow> time \<Rightarrow> string \<Rightarrow> string \<Rightarrow> domain_result option \<Rightarrow> record_row list \<Rightarrow>
     records_error option \<times> record_row list" where
  "upsert_record env now query queryType result rows =
     (case result of
        None \<Rightarrow> (None, rows)
      | Some r \<Rightarrow>
          if \<not> re_up env then (Some DatabaseFailed, rows)
          else (None, insert_row (new_row env now query queryType r) rows))"

subsection \<open>Searching\<close>

text \<open>\<open>LIKE\<close>: a percent sign stands for any text, an underscore for one character, case does not matter.\<close>

function sql_like :: "string \<Rightarrow> string \<Rightarrow> bool" where
  "sql_like [] t \<longleftrightarrow> t = []"
| "sql_like (p # ps) [] \<longleftrightarrow> p = CHR ''%'' \<and> sql_like ps []"
| "sql_like (p # ps) (c # t) \<longleftrightarrow>
     (if p = CHR ''%'' then sql_like ps (c # t) \<or> sql_like (p # ps) t
      else (p = CHR ''_'' \<or> lower_char p = lower_char c) \<and> sql_like ps t)"
  by pat_completeness auto
termination by (relation "measure (\<lambda>(p, t). length p + length t)") auto

definition like_field :: "string option \<Rightarrow> string \<Rightarrow> bool" where
  "like_field f p = (case f of None \<Rightarrow> False | Some s \<Rightarrow> sql_like p (to_lower s))"

definition owner_pattern :: "string \<Rightarrow> string" where
  "owner_pattern owner = ''%'' @ to_lower (trim_space owner) @ ''%''"

definition owner_match :: "string \<Rightarrow> record_row \<Rightarrow> bool" where
  "owner_match owner r \<longleftrightarrow>
     like_field (rr_name r) (owner_pattern owner) \<or> like_field (rr_org r) (owner_pattern owner) \<or>
     like_field (rr_email r) (owner_pattern owner)"

definition scan_record :: "records_env \<Rightarrow> record_row \<Rightarrow> whois_record" where
  "scan_record env r =
     \<lparr>wr_query = rr_query r, wr_type = rr_type r, wr_name = opt_or (rr_name r) [], wr_org = opt_or (rr_org r) [],
      wr_email = opt_or (rr_email r) [], wr_country = opt_or (rr_country r) [], wr_registrar = opt_or (rr_registrar r) [],
      wr_created = opt_or (rr_created r) [], wr_expiry = opt_or (rr_expiry r) [],
      wr_nameservers = decode_json env (opt_or (rr_nameservers r) []), wr_status = decode_json env (opt_or (rr_status r) []),
      wr_server = opt_or (rr_server r) [], wr_raw = [],
      wr_first = rr_first r, wr_last = rr_last r, wr_updated = rr_updated r\<rparr>"

definition owner_matches :: "records_env \<Rightarrow> string \<Rightarrow> record_row list \<Rightarrow> record_row list" where
  "owner_matches env owner rows = sort_key (\<lambda>r. - rr_last r) (re_scan env (filter (owner_match owner) rows))"

definition search_by_owner :: "records_env \<Rightarrow> string \<Rightarrow> int \<Rightarrow> int \<Rightarrow> record_row list \<Rightarrow> records_error + whois_record list" where
  "search_by_owner env owner limit0 offset0 rows =
     (if trim_space owner = [] then Inl EmptyOwner
      else if \<not> re_up env then Inl DatabaseFailed
      else let limit = (if limit0 \<le> 0 \<or> 500 < limit0 then 100 else limit0); offset = (if offset0 < 0 then 0 else offset0)
      in Inr (map (scan_record env) (take (nat limit) (drop (nat offset) (owner_matches env owner rows)))))"

definition count_by_owner :: "records_env \<Rightarrow> string \<Rightarrow> record_row list \<Rightarrow> records_error + int" where
  "count_by_owner env owner rows =
     (if trim_space owner = [] then Inl EmptyOwner
      else if \<not> re_up env then Inl DatabaseFailed
      else Inr (int (length (filter (owner_match owner) rows))))"

definition refresh_stale :: "records_env \<Rightarrow> time \<Rightarrow> int \<Rightarrow> record_row list \<Rightarrow> records_error + string list" where
  "refresh_stale env now maxAgeDays0 rows =
     (let maxAgeDays = (if maxAgeDays0 \<le> 0 then 30 else maxAgeDays0);
          cutoff = unix_of (now + wrap64 (wrap64 (- maxAgeDays * 24) * hour))
      in if \<not> re_up env then Inl DatabaseFailed
         else Inr (map rr_query (sort_key rr_updated (re_scan env (filter (\<lambda>r. rr_updated r < cutoff) rows)))))"

text \<open>The refresh hook of the scheduler: \<open>ask\<close> is the cached query.\<close>

fun refresh_records ::
    "records_env \<Rightarrow> time \<Rightarrow> (string \<Rightarrow> (query_type \<times> domain_result option) option) \<Rightarrow> string list \<Rightarrow> record_row list \<Rightarrow>
     records_error option \<times> record_row list" where
  "refresh_records env now ask [] rows = (None, rows)"
| "refresh_records env now ask (q # qs) rows =
     (case ask q of
        None \<Rightarrow> refresh_records env now ask qs rows
      | Some (qt, None) \<Rightarrow> refresh_records env now ask qs rows
      | Some (qt, Some r) \<Rightarrow>
          (case upsert_record env now q (query_type_string qt) (Some r) rows of
             (Some e, rows') \<Rightarrow> (Some e, rows')
           | (None, rows') \<Rightarrow> refresh_records env now ask qs rows'))"

subsection \<open>Lemmas: one row per query\<close>

lemma rr_query_first [simp]: "rr_query (n\<lparr>rr_first := x\<rparr>) = rr_query n"
  by (cases n) simp

lemma insert_row_queries:
  "map rr_query (insert_row n rows) =
     map rr_query rows @ (if rr_query n \<in> rr_query ` set rows then [] else [rr_query n])"
  by (induction rows) auto

lemma insert_row_distinct:
  "distinct (map rr_query rows) \<Longrightarrow> distinct (map rr_query (insert_row n rows))"
  by (simp only: insert_row_queries) auto

lemma insert_row_others:
  "rr_query r \<noteq> rr_query n \<Longrightarrow> r \<in> set (insert_row n rows) \<longleftrightarrow> r \<in> set rows"
  by (induction rows) auto

definition first_seen_of :: "string \<Rightarrow> record_row list \<Rightarrow> int option" where
  "first_seen_of q rows = map_option rr_first (List.find (\<lambda>r. rr_query r = q) rows)"

lemma insert_row_content:
  assumes "distinct (map rr_query rows)"
  shows "n\<lparr>rr_first := opt_or (first_seen_of (rr_query n) rows) (rr_first n)\<rparr> \<in> set (insert_row n rows)"
  using assms by (induction rows) (auto simp: first_seen_of_def opt_or_def)

lemma insert_row_only:
  assumes "distinct (map rr_query rows)"
  shows "r \<in> set (insert_row n rows) \<and> rr_query r = rr_query n \<longleftrightarrow>
         r = n\<lparr>rr_first := opt_or (first_seen_of (rr_query n) rows) (rr_first n)\<rparr>" (is "_ \<longleftrightarrow> r = ?new")
proof
  have "inj_on rr_query (set (insert_row n rows))"
    using insert_row_distinct [OF assms] by (simp add: distinct_map)
  moreover assume "r \<in> set (insert_row n rows) \<and> rr_query r = rr_query n"
  ultimately show "r = ?new"
    using insert_row_content [OF assms, of n] by (simp add: inj_on_def)
next
  assume "r = ?new"
  then show "r \<in> set (insert_row n rows) \<and> rr_query r = rr_query n"
    using insert_row_content [OF assms, of n] by simp
qed

subsection \<open>Lemmas: LIKE\<close>

lemma sql_like_percent: "sql_like (CHR ''%'' # p) t \<longleftrightarrow> (\<exists>a b. t = a @ b \<and> sql_like p b)"
proof (induction t)
  case (Cons c t)
  have "(\<exists>a b. c # t = a @ b \<and> sql_like p b) \<longleftrightarrow> sql_like p (c # t) \<or> (\<exists>a b. t = a @ b \<and> sql_like p b)"
    by (auto simp: Cons_eq_append_conv)
  with Cons show ?case by simp
qed simp

lemma sql_like_all: "sql_like ''%'' t"
  by (induction t) simp_all

definition no_wildcards :: "string \<Rightarrow> bool" where
  "no_wildcards p \<longleftrightarrow> CHR ''%'' \<notin> set p \<and> CHR ''_'' \<notin> set p"

lemma to_lower_Cons: "to_lower (x # p) = lower_char x # to_lower p"
  by (simp add: to_lower_def)

lemma cons_split_lower:
  "(\<exists>a b. c # t = a @ b \<and> to_lower a = x # p) \<longleftrightarrow> x = lower_char c \<and> (\<exists>a b. t = a @ b \<and> to_lower a = p)"
  (is "?l \<longleftrightarrow> ?r")
proof
  assume ?l
  then obtain a b where ab: "c # t = a @ b" "to_lower a = x # p" by blast
  then obtain a' where "a = c # a'" by (cases a) (simp_all add: to_lower_def)
  with ab show ?r by (auto simp: to_lower_Cons)
next
  assume ?r
  then obtain a b where "x = lower_char c" "t = a @ b" "to_lower a = p" by blast
  then show ?l by (intro exI [of _ "c # a"] exI [of _ b]) (simp add: to_lower_Cons)
qed

lemma sql_like_plain:
  "no_wildcards p \<Longrightarrow> sql_like (p @ ''%'') t \<longleftrightarrow> (\<exists>a b. t = a @ b \<and> to_lower a = to_lower p)"
proof (induction p arbitrary: t)
  case Nil
  then show ?case using sql_like_all by (auto simp: to_lower_def)
next
  case (Cons x p)
  then have p: "no_wildcards p" "x \<noteq> CHR ''%''" "x \<noteq> CHR ''_''"
    by (auto simp: no_wildcards_def)
  show ?case
  proof (cases t)
    case Nil
    with p show ?thesis by (simp add: to_lower_def)
  next
    case t: (Cons c t')
    have "sql_like ((x # p) @ ''%'') t \<longleftrightarrow> lower_char x = lower_char c \<and> sql_like (p @ ''%'') t'"
      using p t by simp
    also have "\<dots> \<longleftrightarrow> lower_char x = lower_char c \<and> (\<exists>a b. t' = a @ b \<and> to_lower a = to_lower p)"
      using Cons.IH [OF p(1)] by simp
    also have "\<dots> \<longleftrightarrow> (\<exists>a b. t = a @ b \<and> to_lower a = to_lower (x # p))"
      unfolding t to_lower_Cons by (rule cons_split_lower [symmetric])
    finally show ?thesis .
  qed
qed

lemma lower_char_mark:
  assumes "byte c \<notin> {65..90}" "byte c \<notin> {97..122}"
  shows "lower_char d = c \<longleftrightarrow> d = c"
proof (cases "is_upper d")
  case True
  then have "byte (lower_char d) \<in> {97..122}" "byte d \<in> {65..90}"
    by (auto simp: byte_lower_char is_upper_def)
  with assms show ?thesis by blast
next
  case False
  then show ?thesis by (simp add: lower_char_other)
qed

lemma set_to_lower_mark:
  assumes "byte c \<notin> {65..90}" "byte c \<notin> {97..122}"
  shows "c \<in> set (to_lower p) \<longleftrightarrow> c \<in> set p"
proof -
  have "c = lower_char d \<longleftrightarrow> d = c" for d
    using lower_char_mark [OF assms, of d] by (simp add: eq_commute)
  then show ?thesis by (simp add: to_lower_def image_iff)
qed

lemma no_wildcards_lower: "no_wildcards (to_lower p) = no_wildcards p"
proof -
  have b: "byte (CHR ''%'') = 37" "byte (CHR ''_'') = 95"
    by simp_all
  have "CHR ''%'' \<in> set (to_lower p) \<longleftrightarrow> CHR ''%'' \<in> set p"
    by (rule set_to_lower_mark) (simp_all only: b, simp_all)
  moreover have "CHR ''_'' \<in> set (to_lower p) \<longleftrightarrow> CHR ''_'' \<in> set p"
    by (rule set_to_lower_mark) (simp_all only: b, simp_all)
  ultimately show ?thesis unfolding no_wildcards_def by blast
qed

lemma to_lower_part:
  assumes "to_lower s = a @ x @ b"
  shows "to_lower x = x"
proof -
  have "\<forall>c\<in>set (to_lower s). lower_char c = c"
    by (simp add: to_lower_def)
  then have "\<forall>c\<in>set x. lower_char c = c"
    unfolding assms by simp
  then show ?thesis unfolding to_lower_def by (intro map_idI) blast
qed

lemma like_contains:
  assumes "no_wildcards p"
  shows "sql_like (''%'' @ to_lower p @ ''%'') (to_lower s) \<longleftrightarrow> contains_sub (to_lower s) (to_lower p)"
proof -
  have "sql_like (''%'' @ to_lower p @ ''%'') (to_lower s) \<longleftrightarrow>
        (\<exists>a x b. to_lower s = a @ x @ b \<and> to_lower x = to_lower p)"
    using assms by (auto simp: sql_like_percent sql_like_plain no_wildcards_lower)
  also have "\<dots> \<longleftrightarrow> (\<exists>a b. to_lower s = a @ to_lower p @ b)"
    by (metis to_lower_part to_lower_idem)
  finally show ?thesis by (simp add: contains_sub_iff)
qed

subsection \<open>The refresh task\<close>

definition whois_records_refresh ::
    "records_env \<Rightarrow> time \<Rightarrow> (string \<Rightarrow> (query_type \<times> domain_result option) option) \<Rightarrow> record_row list \<Rightarrow>
     records_error option \<times> record_row list" where
  "whois_records_refresh env now ask rows =
     (case refresh_stale env now 30 rows of
        Inl e \<Rightarrow> (Some e, rows)
      | Inr queries \<Rightarrow> if queries = [] then (None, rows) else refresh_records env now ask queries rows)"

definition norm_query :: "string \<Rightarrow> string" where
  "norm_query q = to_lower (trim_space q)"

definition answered :: "(string \<Rightarrow> (query_type \<times> domain_result option) option) \<Rightarrow> string \<Rightarrow> bool" where
  "answered ask q \<longleftrightarrow> (case ask q of Some (_, Some _) \<Rightarrow> True | _ \<Rightarrow> False)"

text \<open>The tables the operations build: one row per query, every query in its normal form.\<close>

definition records_ok :: "record_row list \<Rightarrow> bool" where
  "records_ok rows \<longleftrightarrow> distinct (map rr_query rows) \<and> (\<forall>r\<in>set rows. norm_query (rr_query r) = rr_query r)"

lemma answered_cases:
  "(answered ask q \<Longrightarrow> \<exists>qt r. ask q = Some (qt, Some r))"
  "(\<not> answered ask q \<Longrightarrow> ask q = None \<or> (\<exists>qt. ask q = Some (qt, None)))"
  by (auto simp: answered_def split: option.splits)

lemma trim_where_lower_space: "trim_where is_space (to_lower s) = to_lower (trim_where is_space s)"
  unfolding go_str by (simp add: dropWhile_map o_def rev_map)

lemma norm_query_idem [simp]: "norm_query (norm_query q) = norm_query q"
  unfolding norm_query_def trim_space_def by (simp add: trim_where_lower_space)

lemma new_row_simps [simp]:
  "rr_query (new_row env now q t r) = norm_query q" "rr_updated (new_row env now q t r) = unix_of now"
  "rr_last (new_row env now q t r) = unix_of now" "rr_first (new_row env now q t r) = unix_of now"
  by (simp_all add: new_row_def norm_query_def)

lemma insert_row_ok:
  assumes "records_ok rows" "norm_query (rr_query n) = rr_query n"
  shows "records_ok (insert_row n rows)"
proof -
  have "rr_query ` set (insert_row n rows) = insert (rr_query n) (rr_query ` set rows)"
    using arg_cong [OF insert_row_queries [of n rows], of set] by auto
  moreover have "\<forall>q\<in>insert (rr_query n) (rr_query ` set rows). norm_query q = q"
    using assms by (auto simp: records_ok_def)
  ultimately have "\<forall>q\<in>rr_query ` set (insert_row n rows). norm_query q = q" by simp
  then show ?thesis
    using insert_row_distinct assms(1) by (simp add: records_ok_def)
qed

lemma upsert_step:
  assumes "upsert_record env now q qt (Some r) rows = (None, rows1)"
  shows "rows1 = insert_row (new_row env now q qt r) rows"
  using assms by (simp add: upsert_record_def split: if_splits)

lemma refresh_unanswered: "\<not> answered ask q \<Longrightarrow> refresh_records env now ask (q # qs) rows = refresh_records env now ask qs rows"
  using answered_cases(2) [of ask q] by auto

lemma refresh_answered:
  assumes "answered ask q" "refresh_records env now ask (q # qs) rows = (None, rows')"
  obtains n where "rr_query n = norm_query q" "rr_updated n = unix_of now"
    "refresh_records env now ask qs (insert_row n rows) = (None, rows')"
proof -
  obtain qt r where a: "ask q = Some (qt, Some r)" using answered_cases(1) [OF assms(1)] by blast
  obtain e rows1 where u: "upsert_record env now q (query_type_string qt) (Some r) rows = (e, rows1)"
    by (cases "upsert_record env now q (query_type_string qt) (Some r) rows")
  with a assms(2) have "e = None" "refresh_records env now ask qs rows1 = (None, rows')"
    by (simp_all split: option.splits)
  with u show ?thesis using upsert_step [of env now q] new_row_simps by (intro that) auto
qed

lemma refresh_rows:
  assumes "refresh_records env now ask qs rows = (None, rows')" "records_ok rows" "\<forall>q\<in>set qs. norm_query q = q"
  shows "(r \<in> set rows' \<longrightarrow> (if rr_query r \<in> set qs \<and> answered ask (rr_query r) then rr_updated r = unix_of now else r \<in> set rows))
    \<and> (r \<in> set rows \<longrightarrow> \<not> (rr_query r \<in> set qs \<and> answered ask (rr_query r)) \<longrightarrow> r \<in> set rows')"
  using assms
proof (induction qs arbitrary: rows)
  case (Cons q qs)
  have q: "norm_query q = q" "\<forall>q\<in>set qs. norm_query q = q" using Cons.prems(3) by simp_all
  show ?case
  proof (cases "answered ask q")
    case False
    have "refresh_records env now ask qs rows = (None, rows')"
      using refresh_unanswered [OF False] Cons.prems(1) by simp
    note IH = Cons.IH [OF this Cons.prems(2) q(2)]
    from False have "rr_query r \<in> set (q # qs) \<and> answered ask (rr_query r) \<longleftrightarrow>
        rr_query r \<in> set qs \<and> answered ask (rr_query r)" by auto
    with IH show ?thesis by simp
  next
    case True
    then obtain n where n: "rr_query n = q" "rr_updated n = unix_of now"
      and rest: "refresh_records env now ask qs (insert_row n rows) = (None, rows')"
      using refresh_answered [OF True Cons.prems(1)] q(1) by metis
    note IH = Cons.IH [OF rest insert_row_ok [OF Cons.prems(2)] q(2)]
    show ?thesis
    proof (cases "rr_query r = q")
      case rq: True
      have "rr_updated r = unix_of now" if "r \<in> set (insert_row n rows)"
        using insert_row_only [of rows r n] that n rq Cons.prems(2) by (simp add: records_ok_def)
      with IH n q True rq show ?thesis by (auto split: if_splits)
    next
      case rq: False
      with IH n q show ?thesis by (auto simp: insert_row_others split: if_splits)
    qed
  qed
qed simp

subsection \<open>Properties\<close>

text \<open>
  C30: Storing an answer leaves one row per query: the row of this query holds the new answer with the
  time of its first sight kept, and every other row is as it was.
\<close>
theorem upsert_keeps_one_row:
  assumes "records_ok rows" "upsert_record env now q qt (Some r) rows = (None, rows')"
  shows "records_ok rows' \<and>
    (\<forall>n. n \<in> set rows' \<and> rr_query n = norm_query q \<longleftrightarrow>
       n = (new_row env now q qt r)\<lparr>rr_first := opt_or (first_seen_of (norm_query q) rows) (unix_of now)\<rparr>) \<and>
    (\<forall>n. rr_query n \<noteq> norm_query q \<longrightarrow> n \<in> set rows' \<longleftrightarrow> n \<in> set rows)"
proof -
  have d: "distinct (map rr_query rows)" using assms(1) by (simp add: records_ok_def)
  have eq: "rows' = insert_row (new_row env now q qt r) rows" by (rule upsert_step [OF assms(2)])
  show ?thesis
    unfolding eq using insert_row_ok [OF assms(1), of "new_row env now q qt r"]
      insert_row_only [OF d, of _ "new_row env now q qt r"]
      insert_row_others [of _ "new_row env now q qt r" rows]
    by simp
qed

text \<open>
  A search finds the rows whose registrant, organisation or address contains the owner, letters of
  both cases being equal, when the owner has neither a percent sign nor an underscore.
\<close>
theorem owner_match_substring:
  assumes "no_wildcards owner"
  shows "owner_match owner r \<longleftrightarrow>
    (\<exists>s. Some s \<in> {rr_name r, rr_org r, rr_email r} \<and> contains_sub (to_lower s) (to_lower (trim_space owner)))"
proof -
  have nw: "no_wildcards (trim_space owner)"
    using assms set_trim_space [of owner] by (auto simp: no_wildcards_def)
  have "like_field f (owner_pattern owner) \<longleftrightarrow>
        (\<exists>s. Some s = f \<and> contains_sub (to_lower s) (to_lower (trim_space owner)))" for f
    using like_contains [OF nw] by (cases f) (simp_all add: like_field_def owner_pattern_def)
  then show ?thesis unfolding owner_match_def by blast
qed

text \<open>An underscore matches every row that has a registrant at all.\<close>

theorem underscore_matches_all:
  assumes "rr_name r = Some s" "s \<noteq> []"
  shows "owner_match ''_'' r"
proof -
  obtain c t where s: "s = c # t" using assms(2) by (cases s) simp_all
  have "sql_like (''_'' @ ''%'') (lower_char c # to_lower t)" using sql_like_all by simp
  then have "\<exists>a b. to_lower s = a @ b \<and> sql_like (''_'' @ ''%'') b"
    unfolding s to_lower_Cons by (metis append_Nil)
  then have "sql_like (CHR ''%'' # ''_'' @ ''%'') (to_lower s)"
    unfolding sql_like_percent .
  moreover have "owner_pattern ''_'' = CHR ''%'' # ''_'' @ ''%''" by code_simp
  ultimately show ?thesis using assms(1) by (simp add: owner_match_def like_field_def)
qed

text \<open>
  C31: A run of the refresh task that ends without an error leaves stale exactly the queries that were
  stale and could not be answered with a domain.
\<close>
theorem refresh_leaves_unanswered:
  assumes ok: "records_ok rows" and scan: "\<forall>xs. mset (re_scan env xs) = mset xs"
    and stale: "refresh_stale env now 30 rows = Inr qs"
    and run: "whois_records_refresh env now ask rows = (None, rows')"
    and after: "refresh_stale env now 30 rows' = Inr qs'"
  shows "set qs' = {q \<in> set qs. \<not> answered ask q}"
proof -
  have sets: "set (re_scan env xs) = set xs" for xs
    using scan by (metis set_mset_mset)
  define old where "old = (\<lambda>r :: record_row. rr_updated r < unix_of (now + wrap64 (wrap64 (- 30 * 24) * hour)))"
  have "now + wrap64 (wrap64 (- 30 * 24) * hour) \<le> now"
    by (simp add: wrap64_def)
  then have new: "\<not> old r" if "rr_updated r = unix_of now" for r
    using that by (simp add: old_def unix_of_def zdiv_mono1)
  have qs: "set qs = rr_query ` {r \<in> set rows. old r}" and qs': "set qs' = rr_query ` {r \<in> set rows'. old r}"
    using stale after by (auto simp: refresh_stale_def Let_def old_def sets split: if_splits)
  have norm: "\<forall>q\<in>set qs. norm_query q = q" using ok by (auto simp: qs records_ok_def)
  have rr: "refresh_records env now ask qs rows = (None, rows')"
    using run stale by (auto simp: whois_records_refresh_def split: if_splits)
  note rows = refresh_rows [OF rr ok norm]
  have "old r \<and> r \<in> set rows' \<longleftrightarrow> old r \<and> r \<in> set rows \<and> \<not> answered ask (rr_query r)" for r
    using rows [of r] new [of r] by (auto simp: qs split: if_splits)
  then have "{r \<in> set rows'. old r} = {r \<in> set rows. old r \<and> \<not> answered ask (rr_query r)}" by blast
  then show ?thesis unfolding qs qs' by (auto simp: image_iff)
qed

subsection \<open>Witnesses\<close>

definition sample_env :: records_env where
  "sample_env = \<lparr>re_up = True, re_scan = (\<lambda>rows. rows), re_marshal = (\<lambda>_. None), re_unmarshal = (\<lambda>_. None)\<rparr>"

definition sample_row :: "string \<Rightarrow> record_row" where
  "sample_row q =
     \<lparr>rr_query = q, rr_type = ''domain'', rr_name = Some ''Jane Doe'', rr_org = Some ''ACME Corp'', rr_email = None,
      rr_country = None, rr_registrar = None, rr_created = None, rr_expiry = None, rr_nameservers = None,
      rr_status = None, rr_server = None, rr_raw = None, rr_first = 5, rr_last = 5, rr_updated = 5\<rparr>"

definition sample_answer :: domain_result where
  "sample_answer = (empty_domain '''')\<lparr>d_registrant := ''Jane Doe''\<rparr>"

definition sample_ask :: "string \<Rightarrow> (query_type \<times> domain_result option) option" where
  "sample_ask q = (if q = ''a.com'' then Some (QueryTypeDomain, Some sample_answer) else None)"

abbreviation (input) sample_rows :: "record_row list" where
  "sample_rows \<equiv> [sample_row ''a.com'', sample_row ''b.com'']"

lemma sample_rows_ok: "records_ok sample_rows"
  by code_simp

theorem upsert_keeps_one_row_witness:
  "sample_row ''b.com'' \<in> set (snd (upsert_record sample_env 0 '' A.com'' ''domain'' (Some sample_answer) sample_rows))"
proof -
  have "upsert_record sample_env 0 '' A.com'' ''domain'' (Some sample_answer) sample_rows =
        (None, insert_row (new_row sample_env 0 '' A.com'' ''domain'' sample_answer) sample_rows)"
    by (simp add: upsert_record_def sample_env_def)
  note p = upsert_keeps_one_row [OF sample_rows_ok this]
  have "rr_query (sample_row ''b.com'') \<noteq> norm_query '' A.com''" by code_simp
  with p show ?thesis by (simp add: upsert_record_def sample_env_def)
qed

theorem owner_match_substring_witness: "owner_match '' acme '' (sample_row ''a.com'')"
proof -
  have "no_wildcards '' acme ''" by code_simp
  note p = owner_match_substring [OF this, of "sample_row ''a.com''"]
  have "contains_sub (to_lower ''ACME Corp'') (to_lower (trim_space '' acme ''))" by code_simp
  then show ?thesis unfolding p by (auto simp: sample_row_def)
qed

theorem refresh_leaves_unanswered_witness:
  "refresh_stale sample_env ((unix_epoch + 40 * 86400) * second) 30 sample_rows = Inr [''a.com'', ''b.com''] \<and>
   {q \<in> {''a.com'', ''b.com''}. \<not> answered sample_ask q} = {''b.com''}"
proof -
  let ?now = "(unix_epoch + 40 * 86400) * second"
  have scan: "\<forall>xs. mset (re_scan sample_env xs) = mset xs" by (simp add: sample_env_def)
  have stale: "refresh_stale sample_env ?now 30 sample_rows = Inr [''a.com'', ''b.com'']"
    by code_simp
  define rows' where "rows' = snd (whois_records_refresh sample_env ?now sample_ask sample_rows)"
  have run: "whois_records_refresh sample_env ?now sample_ask sample_rows = (None, rows')"
    unfolding rows'_def by code_simp
  have after: "refresh_stale sample_env ?now 30 rows' = Inr [''b.com'']"
    unfolding rows'_def by code_simp
  have "{q \<in> {''a.com'', ''b.com''}. \<not> answered sample_ask q} = {''b.com''}"
    using refresh_leaves_unanswered [OF sample_rows_ok scan stale run after, symmetric] unfolding list.set .
  with stale show ?thesis by (intro conjI)
qed

end
