(* ===== verification/Texts.thy ===== *)
theory Texts
  imports GoTime
begin

text \<open>
  Further functions of the packages \<open>strings\<close>, \<open>fmt\<close> and \<open>net\<close> of the library of Go: cutting at a
  separator, replacing every occurrence, scanning integers with \<open>%d\<close>, host and port.
\<close>

subsection \<open>Cutting and replacing\<close>

text \<open>The text before and after the first occurrence of a separator.\<close>

fun cut_at :: "string \<Rightarrow> string \<Rightarrow> (string \<times> string) option" where
  "cut_at sep [] = (if sep = [] then Some ([], []) else None)"
| "cut_at sep (c # s) =
     (if has_prefix (c # s) sep then Some ([], drop (length sep) (c # s))
      else map_option (\<lambda>(a, b). (c # a, b)) (cut_at sep s))"

text \<open>\<open>strings.ReplaceAll\<close> for a text to replace that is not empty.\<close>

function replace_all :: "string \<Rightarrow> string \<Rightarrow> string \<Rightarrow> string" where
  "replace_all old new [] = []"
| "replace_all old new (c # s) =
     (if old \<noteq> [] \<and> has_prefix (c # s) old then new @ replace_all old new (drop (length old) (c # s))
      else c # replace_all old new s)"
  by pat_completeness auto
termination by (relation "measure (\<lambda>(old, new, s). length s)") auto

lemma cut_at_Some: "cut_at sep s = Some (a, b) \<Longrightarrow> s = a @ sep @ b"
proof (induction s arbitrary: a)
  case (Cons c s)
  show ?case
  proof (cases "has_prefix (c # s) sep")
    case True
    then have "c # s = sep @ drop (length sep) (c # s)"
      by (metis append_take_drop_id has_prefix_def)
    with True Cons.prems show ?thesis by simp
  next
    case False
    with Cons.prems obtain a' where "cut_at sep s = Some (a', b)" "a = c # a'" by auto
    with Cons.IH show ?thesis by simp
  qed
qed (simp split: if_splits)

lemma cut_at_head:
  assumes "sep = x # xs" "x \<notin> set a"
  shows "cut_at sep (a @ sep @ b) = Some (a, b)"
  using assms(2)
proof (induction a)
  case Nil
  then show ?case using assms(1) by (simp add: has_prefix_def)
next
  case (Cons c a)
  then have "\<not> has_prefix (c # a @ sep @ b) sep" using assms(1) by (auto simp: has_prefix_def)
  with Cons show ?case by simp
qed

lemma replace_skip: "x \<notin> set a \<Longrightarrow> replace_all (x # xs) new (a @ s) = a @ replace_all (x # xs) new s"
proof (induction a)
  case (Cons c a)
  then have "\<not> has_prefix ((c # a) @ s) (x # xs)" by (auto simp: has_prefix_def)
  with Cons show ?case by simp
qed simp

lemma replace_hit: "old \<noteq> [] \<Longrightarrow> replace_all old new (old @ s) = new @ replace_all old new s"
  by (cases old) (simp_all add: has_prefix_def)

subsection \<open>Scanning with the verb d\<close>

definition scan_skip :: "string \<Rightarrow> string option" where
  "scan_skip s =
     (let r = dropWhile (\<lambda>c. is_space c \<and> c \<noteq> CHR 0x0A) s
      in if r = [] \<or> hd r = CHR 0x0A then None else Some r)"

definition scan_digits :: "string \<Rightarrow> (nat \<times> string) option" where
  "scan_digits s =
     (let ds = takeWhile is_digit s in if ds = [] then None else Some (dec_val ds, drop (length ds) s))"

text \<open>The value must fit a signed, respectively an unsigned, integer of the width.\<close>

definition scan_int :: "nat \<Rightarrow> string \<Rightarrow> (int \<times> string) option" where
  "scan_int w s =
     (case scan_skip s of
        None \<Rightarrow> None
      | Some r \<Rightarrow>
          (let neg = has_prefix r ''-''; t = (if neg \<or> has_prefix r ''+'' then tl r else r)
           in case scan_digits t of
                None \<Rightarrow> None
              | Some (n, rest) \<Rightarrow>
                  let v = (if neg then - int n else int n)
                  in if - (2 ^ (w - 1)) \<le> v \<and> v < 2 ^ (w - 1) then Some (v, rest) else None))"

definition scan_uint :: "nat \<Rightarrow> string \<Rightarrow> (nat \<times> string) option" where
  "scan_uint w s =
     (case scan_skip s of
        None \<Rightarrow> None
      | Some r \<Rightarrow>
          (case scan_digits r of
             None \<Rightarrow> None
           | Some (n, rest) \<Rightarrow> if n < 2 ^ w then Some (n, rest) else None))"

definition scan_text :: "string \<Rightarrow> string \<Rightarrow> string option" where
  "scan_text p s = (if has_prefix s p then Some (drop (length p) s) else None)"

subsection \<open>net.JoinHostPort\<close>

definition join_host_port :: "string \<Rightarrow> string \<Rightarrow> string" where
  "join_host_port host port =
     (if CHR '':'' \<in> set host then ''['' @ host @ '']:'' @ port else host @ '':'' @ port)"

subsection \<open>Lists of strings as one text\<close>

text \<open>A codec for lists of strings: every character is marked, every string ended.\<close>

definition mark_string :: "string \<Rightarrow> string" where
  "mark_string s = concat (map (\<lambda>c. [CHR ''x'', c]) s) @ ''.''"

fun unmark :: "string \<Rightarrow> string \<Rightarrow> string list" where
  "unmark acc [] = []"
| "unmark acc [a] = (if a = CHR ''.'' then [rev acc] else [])"
| "unmark acc (a # c # r) = (if a = CHR ''.'' then rev acc # unmark [] (c # r) else unmark (c # acc) r)"

lemma unmark_end: "unmark acc (''.'' @ r) = rev acc # unmark [] r"
  by (cases r) simp_all

lemma unmark_mark: "unmark acc (mark_string s @ r) = (rev acc @ s) # unmark [] r"
proof (induction s arbitrary: acc)
  case Nil
  then show ?case using unmark_end [of acc r] by (simp add: mark_string_def)
qed (simp add: mark_string_def)

lemma unmark_all: "unmark [] (concat (map mark_string v)) = v"
  by (induction v) (simp_all add: unmark_mark)

end
