(* ===== verification/OwnerSearch.thy ===== *)
theory OwnerSearch
  imports Records Texts
begin

text \<open>
  Searching for the records of an owner: the clients of the reverse-lookup services
  (\<open>src/src/whois/reverse/reverse.go\<close>) and the handler of \<open>/whois/search\<close>
  (\<open>src/src/server/whois_handlers.go\<close>), which asks them when the records hold nothing. The network, the
  decoding of the answers and the quoting of JSON strings are parameters.
\<close>

subsection \<open>url.QueryEscape\<close>

definition query_plain :: "char \<Rightarrow> bool" where
  "query_plain c \<longleftrightarrow> is_digit c \<or> is_upper c \<or> is_lower c \<or> c \<in> set ''-_.~''"

definition query_escape :: "string \<Rightarrow> string" where
  "query_escape s =
     concat (map (\<lambda>c. if query_plain c then [c]
                       else if c = CHR '' '' then ''+''
                       else [CHR ''%'', hex_char (byte c div 16), hex_char (byte c mod 16)]) s)"

subsection \<open>Services\<close>

record http_request =
  hr_method :: string
  hr_url :: string
  hr_headers :: "(string \<times> string) list"
  hr_body :: string

record ext_result =
  er_domain :: string
  er_provider :: string

record reverse_codec =
  rv_quote :: "string \<Rightarrow> string"                         \<comment> \<open>a string as JSON text\<close>
  rv_securitytrails :: "string \<Rightarrow> string list option"   \<comment> \<open>the host names of an answer\<close>
  rv_whoxy :: "string \<Rightarrow> string list option"
  rv_viewdns :: "string \<Rightarrow> string list option"

datatype reverse_error =
    RevKeyRequired string
  | RevRequestFailed string
  | RevInvalidKey string
  | RevStatus string nat
  | RevDecode string
  | RevUnknownProvider string

fun take_names :: "int \<Rightarrow> int \<Rightarrow> string \<Rightarrow> string list \<Rightarrow> ext_result list" where
  "take_names i maxResults provider [] = []"
| "take_names i maxResults provider (n # ns) =
     (if maxResults \<le> i then []
      else if n \<noteq> [] then \<lparr>er_domain = n, er_provider = provider\<rparr> # take_names (i + 1) maxResults provider ns
      else take_names (i + 1) maxResults provider ns)"

definition decode_names ::
    "(string \<Rightarrow> string list option) \<Rightarrow> string \<Rightarrow> int \<Rightarrow> string \<Rightarrow> reverse_error + ext_result list" where
  "decode_names dec provider maxResults body =
     (case dec body of
        None \<Rightarrow> Inl (RevDecode provider)
      | Some ns \<Rightarrow> Inr (take_names 0 maxResults provider ns))"

definition owner_is_email :: "string \<Rightarrow> bool" where
  "owner_is_email owner \<longleftrightarrow> contains_sub owner ''@''"

definition securitytrails_request :: "reverse_codec \<Rightarrow> string \<Rightarrow> string \<Rightarrow> http_request" where
  "securitytrails_request cd apiKey owner =
     \<lparr>hr_method = ''POST'', hr_url = ''https://api.securitytrails.com/v1/domains/list'',
      hr_headers = [(''Content-Type'', ''application/json''), (''APIKEY'', apiKey)],
      hr_body =
        ''{'' @ rv_quote cd ''filter'' @ '':{'' @
        rv_quote cd (if owner_is_email owner then ''registrant_email'' else ''registrant_organization'') @
        '':{'' @ rv_quote cd ''value'' @ '':'' @ rv_quote cd owner @ ''}}}''\<rparr>"

definition search_security_trails ::
    "reverse_codec \<Rightarrow> (http_request \<Rightarrow> (nat \<times> string) option) \<Rightarrow> string \<Rightarrow> string \<Rightarrow> int \<Rightarrow> reverse_error + ext_result list" where
  "search_security_trails cd net apiKey owner maxResults =
     (if apiKey = [] then Inl (RevKeyRequired ''securitytrails'')
      else case net (securitytrails_request cd apiKey owner) of
             None \<Rightarrow> Inl (RevRequestFailed ''securitytrails'')
           | Some (status, body) \<Rightarrow>
               if status = 401 then Inl (RevInvalidKey ''securitytrails'')
               else if status \<noteq> 200 then Inl (RevStatus ''securitytrails'' status)
               else decode_names (rv_securitytrails cd) ''securitytrails'' maxResults body)"

definition whoxy_request :: "string \<Rightarrow> string \<Rightarrow> http_request" where
  "whoxy_request apiKey owner =
     \<lparr>hr_method = ''GET'',
      hr_url = ''https://api.whoxy.com/?key='' @ query_escape apiKey @ ''&reverse=whois&'' @
        (if owner_is_email owner then ''email'' else ''company'') @ ''='' @ query_escape owner @ ''&mode=micro&page=1'',
      hr_headers = [], hr_body = []\<rparr>"

definition search_whoxy ::
    "reverse_codec \<Rightarrow> (http_request \<Rightarrow> (nat \<times> string) option) \<Rightarrow> string \<Rightarrow> string \<Rightarrow> int \<Rightarrow> reverse_error + ext_result list" where
  "search_whoxy cd net apiKey owner maxResults =
     (if apiKey = [] then Inl (RevKeyRequired ''whoxy'')
      else case net (whoxy_request apiKey owner) of
             None \<Rightarrow> Inl (RevRequestFailed ''whoxy'')
           | Some (status, body) \<Rightarrow>
               if status \<noteq> 200 then Inl (RevStatus ''whoxy'' status)
               else decode_names (rv_whoxy cd) ''whoxy'' maxResults body)"

definition viewdns_request :: "string \<Rightarrow> string \<Rightarrow> http_request" where
  "viewdns_request apiKey owner =
     \<lparr>hr_method = ''GET'',
      hr_url = ''https://api.viewdns.info/reversewhois/?q='' @ query_escape owner @ ''&apikey='' @
        query_escape apiKey @ ''&output=json'',
      hr_headers = [], hr_body = []\<rparr>"

definition search_view_dns ::
    "reverse_codec \<Rightarrow> (http_request \<Rightarrow> (nat \<times> string) option) \<Rightarrow> string \<Rightarrow> string \<Rightarrow> int \<Rightarrow> reverse_error + ext_result list" where
  "search_view_dns cd net apiKey owner maxResults =
     (if apiKey = [] then Inl (RevKeyRequired ''viewdns'')
      else case net (viewdns_request apiKey owner) of
             None \<Rightarrow> Inl (RevRequestFailed ''viewdns'')
           | Some (status, body) \<Rightarrow>
               if status \<noteq> 200 then Inl (RevStatus ''viewdns'' status)
               else decode_names (rv_viewdns cd) ''viewdns'' maxResults body)"

definition search_provider ::
    "reverse_codec \<Rightarrow> (http_request \<Rightarrow> (nat \<times> string) option) \<Rightarrow> string \<Rightarrow> string \<Rightarrow> string \<Rightarrow> int \<Rightarrow>
     reverse_error + ext_result list" where
  "search_provider cd net provider apiKey owner maxResults0 =
     (let maxResults = (if maxResults0 \<le> 0 then 100 else maxResults0);
          p = to_lower (trim_space provider)
      in if p = ''securitytrails'' then search_security_trails cd net apiKey owner maxResults
         else if p = ''whoxy'' then search_whoxy cd net apiKey owner maxResults
         else if p = ''viewdns'' then search_view_dns cd net apiKey owner maxResults
         else if p = '''' \<or> p = ''none'' then Inr []
         else Inl (RevUnknownProvider provider))"

subsection \<open>The handler\<close>

record reverse_config =
  rw_provider :: string
  rw_api_key :: string
  rw_max :: int

record owner_request =
  oq_owner :: string
  oq_limit :: string
  oq_page :: string
  oq_provider :: string    \<comment> \<open>X-Provider-Name\<close>
  oq_key :: string         \<comment> \<open>X-Provider-Key\<close>

record owner_result =
  ow_domain :: string
  ow_source :: string
  ow_name :: string
  ow_org :: string
  ow_email :: string
  ow_registrar :: string
  ow_expiry :: string
  ow_first :: string
  ow_last :: string

record owner_page =
  op_owner :: string
  op_data :: "owner_result list"
  op_page :: int
  op_limit :: int
  op_total :: int
  op_pages :: int

datatype owner_response = OwnerMissing | OwnerFailed records_error | OwnerOk owner_page

definition local_result :: "whois_record \<Rightarrow> owner_result" where
  "local_result rec =
     \<lparr>ow_domain = wr_query rec, ow_source = ''local'', ow_name = wr_name rec, ow_org = wr_org rec,
      ow_email = wr_email rec, ow_registrar = wr_registrar rec, ow_expiry = wr_expiry rec,
      ow_first = rfc3339_text (time_of_unix (wr_first rec)), ow_last = rfc3339_text (time_of_unix (wr_last rec))\<rparr>"

definition external_result :: "ext_result \<Rightarrow> owner_result" where
  "external_result er =
     \<lparr>ow_domain = er_domain er, ow_source = er_provider er, ow_name = [], ow_org = [], ow_email = [],
      ow_registrar = [], ow_expiry = [], ow_first = [], ow_last = []\<rparr>"

definition owner_limit :: "string \<Rightarrow> int" where
  "owner_limit l = (case atoi l of Some n \<Rightarrow> if 0 < n \<and> n \<le> 500 then n else 100 | None \<Rightarrow> 100)"

definition owner_page_number :: "string \<Rightarrow> int" where
  "owner_page_number p = (case atoi p of Some n \<Rightarrow> if 0 < n then n else 1 | None \<Rightarrow> 1)"

definition header_or :: "string \<Rightarrow> string \<Rightarrow> string" where
  "header_or h d = (if trim_space h = [] then d else trim_space h)"

definition handle_owner_search ::
    "records_env \<Rightarrow> reverse_codec \<Rightarrow> (http_request \<Rightarrow> (nat \<times> string) option) \<Rightarrow> reverse_config \<Rightarrow> record_row list \<Rightarrow>
     owner_request \<Rightarrow> owner_response" where
  "handle_owner_search env cd net cfg rows rq =
     (let owner = trim_space (oq_owner rq)
      in if owner = [] then OwnerMissing
         else
           let limit = owner_limit (oq_limit rq);
               page = owner_page_number (oq_page rq);
               offset = wrap64 ((page - 1) * limit)
           in case search_by_owner env owner limit offset rows of
                Inl e \<Rightarrow> OwnerFailed e
              | Inr localRecords \<Rightarrow>
                  let results = map local_result localRecords;
                      providerName = header_or (oq_provider rq) (rw_provider cfg);
                      providerKey = header_or (oq_key rq) (rw_api_key cfg);
                      maxExt = (if rw_max cfg \<le> 0 then 100 else rw_max cfg);
                      count = (case count_by_owner env owner rows of Inr n \<Rightarrow> n | Inl _ \<Rightarrow> int (length results));
                      (results', count') =
                        (if results = [] \<and> page = 1 \<and> providerName \<noteq> [] \<and> providerKey \<noteq> [] then
                           case search_provider cd net providerName providerKey owner maxExt of
                             Inr ers \<Rightarrow> (map external_result ers, int (length ers))
                           | Inl _ \<Rightarrow> (results, count)
                         else (results, count))
                  in OwnerOk \<lparr>op_owner = owner, op_data = results', op_page = page, op_limit = limit, op_total = count',
                              op_pages = (if 0 < limit then (count' + limit - 1) div limit else 0)\<rparr>)"

subsection \<open>Lemmas\<close>

lemma take_names_eq:
  "take_names i m p ns =
     map (\<lambda>n. \<lparr>er_domain = n, er_provider = p\<rparr>) (filter (\<lambda>n. n \<noteq> []) (take (nat (m - i)) ns))"
proof (induction ns arbitrary: i)
  case (Cons n ns)
  show ?case
  proof (cases "i < m")
    case True
    then have "nat (m - i) = Suc (nat (m - (i + 1)))" by simp
    with True show ?thesis by (simp add: Cons.IH)
  qed simp
qed simp

lemma atoi_itoa: "int n < 2 ^ 63 \<Longrightarrow> atoi (itoa_nat n) = Some (int n)"
proof -
  assume n: "int n < 2 ^ 63"
  obtain c cs where c: "itoa_nat n = c # cs" by (meson itoa_ne neq_Nil_conv)
  then have "is_digit c" using all_digits_itoa [of n] by (simp add: all_digits_def)
  then have "\<not> has_prefix (itoa_nat n) ''-''" "\<not> has_prefix (itoa_nat n) ''+''"
    unfolding c by (auto simp: has_prefix_def is_digit_def)
  with n show ?thesis by (simp add: atoi_def Let_def)
qed

text \<open>Pages of \<open>k\<close> elements.\<close>

lemma concat_pages: "concat (map (\<lambda>p. take k (drop (p * k) xs)) [0..<n]) = take (n * k) xs"
proof (induction n)
  case (Suc n)
  then show ?case by (simp add: take_add add.commute [of k])
qed simp

lemma pages_cover: "0 < k \<Longrightarrow> length xs \<le> ((length xs + k - 1) div k) * k"
proof -
  assume k: "0 < k"
  have "(length xs + k - 1) div k * k + (length xs + k - 1) mod k = length xs + k - 1"
    by simp
  moreover have "(length xs + k - 1) mod k < k" using k by simp
  ultimately show ?thesis by linarith
qed

lemma page_starts:
  assumes "0 < k" "p < (length xs + k - 1) div k"
  shows "p * k < length xs"
proof -
  have "(p + 1) * k \<le> (length xs + k - 1) div k * k"
    using assms(2) by (intro mult_le_mono1) simp
  also have "\<dots> \<le> length xs + k - 1" by simp
  finally show ?thesis using assms(1) by (simp add: algebra_simps)
qed

lemma count_by_owner_eq:
  assumes "\<forall>xs. mset (re_scan env xs) = mset xs" "re_up env" "trim_space owner \<noteq> []"
  shows "count_by_owner env owner rows = Inr (int (length (owner_matches env owner rows)))"
  using assms by (simp add: count_by_owner_def owner_matches_def) (metis size_mset)

lemma search_by_owner_page:
  assumes "re_up env" "trim_space owner \<noteq> []" "0 < limit" "limit \<le> 500"
  shows "search_by_owner env owner limit offset rows =
    Inr (map (scan_record env) (take (nat limit) (drop (nat offset) (owner_matches env owner rows))))"
  using assms by (simp add: search_by_owner_def Let_def)

text \<open>A page that shows records is not changed by the services.\<close>

lemma handle_local:
  assumes "re_up env" "trim_space (oq_owner rq) \<noteq> []" "\<forall>xs. mset (re_scan env xs) = mset xs"
    and limit: "owner_limit (oq_limit rq) = limit" and page: "owner_page_number (oq_page rq) = page"
    and recs: "rs = map (local_result \<circ> scan_record env)
                     (take (nat limit) (drop (nat (wrap64 ((page - 1) * limit))) (owner_matches env (trim_space (oq_owner rq)) rows)))"
    and some: "rs \<noteq> []" and bound: "0 < limit" "limit \<le> 500"
  shows "handle_owner_search env cd net cfg rows rq =
    OwnerOk \<lparr>op_owner = trim_space (oq_owner rq), op_data = rs, op_page = page, op_limit = limit,
             op_total = int (length (owner_matches env (trim_space (oq_owner rq)) rows)),
             op_pages = (int (length (owner_matches env (trim_space (oq_owner rq)) rows)) + limit - 1) div limit\<rparr>"
proof -
  let ?owner = "trim_space (oq_owner rq)"
  have ne: "trim_space ?owner \<noteq> []" using assms(2) by simp
  note s = search_by_owner_page [OF assms(1) ne bound]
  note c = count_by_owner_eq [OF assms(3,1) ne]
  have rs: "map local_result (map (scan_record env) (take (nat limit) (drop (nat (wrap64 ((page - 1) * limit)))
      (owner_matches env ?owner rows)))) = rs"
    by (simp add: recs)
  show ?thesis
    using assms(2) some bound unfolding handle_owner_search_def Let_def limit page s c sum.case rs by simp
qed

lemma owner_limit_of: "atoi l = Some n \<Longrightarrow> 0 < n \<Longrightarrow> n \<le> 500 \<Longrightarrow> owner_limit l = n"
  by (simp add: owner_limit_def)

lemma owner_page_of: "atoi p = Some n \<Longrightarrow> 0 < n \<Longrightarrow> owner_page_number p = n"
  by (simp add: owner_page_number_def)

definition page_data :: "owner_response \<Rightarrow> owner_result list" where
  "page_data r = (case r of OwnerOk pg \<Rightarrow> op_data pg | _ \<Rightarrow> [])"

definition paged :: "string \<Rightarrow> string \<Rightarrow> string \<Rightarrow> nat \<Rightarrow> nat \<Rightarrow> owner_request" where
  "paged owner name key k p =
     \<lparr>oq_owner = owner, oq_limit = itoa_nat k, oq_page = itoa_nat p, oq_provider = name, oq_key = key\<rparr>"

lemma page_of_matches:
  assumes "re_up env" "trim_space owner \<noteq> []" "\<forall>xs. mset (re_scan env xs) = mset xs" "0 < k" "k \<le> 500"
    and m: "m = owner_matches env (trim_space owner) rows" and size: "int (length m) < 2 ^ 62"
    and p: "p < (length m + k - 1) div k"
  shows "handle_owner_search env cd net cfg rows (paged owner name key k (p + 1)) =
    OwnerOk \<lparr>op_owner = trim_space owner, op_data = map (local_result \<circ> scan_record env) (take k (drop (p * k) m)),
             op_page = int p + 1, op_limit = int k, op_total = int (length m),
             op_pages = int ((length m + k - 1) div k)\<rparr>"
proof -
  let ?rq = "paged owner name key k (p + 1)"
  have start: "p * k < length m" by (rule page_starts [OF assms(4) p])
  then have lt: "int p * int k < 2 ^ 62" using size by (simp add: of_nat_mult [symmetric] del: of_nat_mult)
  have "int p \<le> int p * int k" using assms(4) by (simp add: mult_le_cancel_left1)
  then have "int p < 2 ^ 62" using lt by linarith
  then have page: "owner_page_number (oq_page ?rq) = int p + 1"
    using atoi_itoa [of "p + 1"] by (intro owner_page_of) (simp_all add: paged_def)
  have limit: "owner_limit (oq_limit ?rq) = int k"
    using atoi_itoa [of k] assms(4,5) by (intro owner_limit_of) (simp_all add: paged_def)
  have "wrap64 (int (p * k)) = int (p * k)"
  proof (rule wrap64_id)
    show "- (2 ^ 63) \<le> int (p * k)" by (rule order_trans [of _ 0]) simp_all
    show "int (p * k) < 2 ^ 63" using lt by simp
  qed
  then have w: "wrap64 ((int p + 1 - 1) * int k) = int (p * k)" by simp
  have own: "oq_owner ?rq = owner" by (simp add: paged_def)
  have "drop (p * k) m \<noteq> []" using start by simp
  then have some: "map (local_result \<circ> scan_record env) (take k (drop (p * k) m)) \<noteq> []"
    using assms(4) by simp
  have pages: "int ((length m + k - 1) div k) = (int (length m) + int k - 1) div int k"
    using assms(4) by (simp add: zdiv_int of_nat_diff)
  have "map (local_result \<circ> scan_record env) (take k (drop (p * k) m)) =
      map (local_result \<circ> scan_record env)
        (take (nat (int k)) (drop (nat (wrap64 ((int p + 1 - 1) * int k))) (owner_matches env (trim_space (oq_owner ?rq)) rows)))"
    unfolding w own m nat_int ..
  from handle_local [OF assms(1) _ assms(3) limit page this some, of cd net cfg] show ?thesis
    unfolding own m [symmetric] pages using assms(2,4,5) by simp
qed

subsection \<open>Properties\<close>


text \<open>
  No service outside learns of a search whose page shows records, of a later page, or of a search for which no
  service or no key is known: the answer is the same whatever the services do.
\<close>
theorem services_asked_last:
  assumes "owner_page_number (oq_page rq) \<noteq> 1 \<or> header_or (oq_provider rq) (rw_provider cfg) = [] \<or>
    header_or (oq_key rq) (rw_api_key cfg) = [] \<or>
    (\<exists>recs. search_by_owner env (trim_space (oq_owner rq)) (owner_limit (oq_limit rq)) 0 rows = Inr recs \<and> recs \<noteq> [])"
  shows "handle_owner_search env cd net cfg rows rq = handle_owner_search env cd net' cfg rows rq"
proof -
  let ?o = "trim_space (oq_owner rq)" and ?l = "owner_limit (oq_limit rq)" and ?p = "owner_page_number (oq_page rq)"
  show ?thesis
  proof (cases "search_by_owner env ?o ?l (wrap64 ((?p - 1) * ?l)) rows")
    case (Inl e)
    then show ?thesis by (simp add: handle_owner_search_def Let_def)
  next
    case (Inr recs)
    have "wrap64 0 = 0" by (simp add: wrap64_def)
    then have "recs \<noteq> [] \<or> ?p \<noteq> 1 \<or> header_or (oq_provider rq) (rw_provider cfg) = [] \<or>
        header_or (oq_key rq) (rw_api_key cfg) = []"
      using assms Inr by (cases "?p = 1") auto
    then show ?thesis
      using Inr unfolding handle_owner_search_def Let_def by (elim disjE) (simp_all del: split_paired_All)
  qed
qed

text \<open>
  A service yields at most as many domains as asked for, 100 when no number is given; none of them is
  empty, and each carries the name of the service.
\<close>
theorem provider_results_bounded:
  assumes "search_provider cd net provider apiKey owner n = Inr ers"
  shows "int (length ers) \<le> (if n \<le> 0 then 100 else n) \<and>
    (\<forall>e\<in>set ers. er_domain e \<noteq> [] \<and> er_provider e = to_lower (trim_space provider))"
proof -
  define m where "m = (if n \<le> 0 then 100 else n)"
  have m: "0 < m" by (simp add: m_def)
  have names: "int (length es) \<le> m \<and> (\<forall>e\<in>set es. er_domain e \<noteq> [] \<and> er_provider e = p)"
    if "decode_names dec p m body = Inr es" for dec p body es
  proof -
    have "\<exists>ns. es = take_names 0 m p ns"
      using that by (cases "dec body") (auto simp: decode_names_def)
    then obtain ns where es: "es = take_names 0 m p ns" by blast
    have "length (filter (\<lambda>n. n \<noteq> []) (take (nat m) ns)) \<le> nat m"
      using length_filter_le [of "\<lambda>n. n \<noteq> []" "take (nat m) ns"] by simp
    then show ?thesis using m by (auto simp: es take_names_eq)
  qed
  have "ers = [] \<or> (\<exists>dec body. decode_names dec (to_lower (trim_space provider)) m body = Inr ers)"
    using assms unfolding search_provider_def search_security_trails_def search_whoxy_def search_view_dns_def m_def
    by (auto simp: Let_def split: if_splits option.splits prod.splits)
  then show ?thesis
    using names m by (auto simp: m_def [symmetric])
qed

text \<open>
  An answer that was stored is found again by any part of the name of its organisation, with all its
  texts, lists and servers as they were.
\<close>
theorem stored_owner_found:
  assumes ok: "records_ok rows" and up: "upsert_record env now q qt (Some r) rows = (None, rows')"
    and env: "\<forall>xs. mset (re_scan env xs) = mset xs"
      "\<forall>v. v \<noteq> [] \<longrightarrow> (\<exists>s. re_marshal env v = Some s \<and> trim_space s \<noteq> [] \<and> re_unmarshal env s = Some v)"
    and owner: "trim_space owner \<noteq> []" "no_wildcards owner" "contains_sub (to_lower (d_organization r)) (to_lower (trim_space owner))"
    and few: "length (owner_matches env owner rows') \<le> 500"
  shows "\<exists>recs. search_by_owner env owner 500 0 rows' = Inr recs \<and>
    (\<exists>w\<in>set recs. wr_query w = norm_query q \<and> wr_type w = qt \<and> wr_name w = d_registrant r \<and>
       wr_org w = d_organization r \<and> wr_email w = d_email r \<and> wr_country w = d_country r \<and>
       wr_registrar w = d_registrar r \<and> wr_nameservers w = d_nameservers r \<and> wr_status w = d_status r \<and>
       wr_last w = unix_of now)"
proof -
  have is_up: "re_up env" using up by (simp add: upsert_record_def split: if_splits)
  define row where
    "row = (new_row env now q qt r)\<lparr>rr_first := opt_or (first_seen_of (norm_query q) rows) (unix_of now)\<rparr>"
  have "distinct (map rr_query rows)" using ok by (simp add: records_ok_def)
  from insert_row_content [OF this, of "new_row env now q qt r"]
  have row_in: "row \<in> set rows'" unfolding row_def upsert_step [OF up] by simp
  have "d_organization r \<noteq> []"
  proof
    assume "d_organization r = []"
    with owner(3) have "to_lower (trim_space owner) = []" by (simp add: to_lower_def)
    then show False using owner(1) by (simp add: to_lower_def)
  qed
  then have org: "rr_org row = Some (d_organization r)" by (simp add: row_def new_row_def nullable_string_def)
  have nw: "no_wildcards (trim_space owner)"
    using owner(2) set_trim_space [of owner] by (auto simp: no_wildcards_def)
  have "owner_match owner row"
    unfolding owner_match_def org using like_contains [OF nw] owner(3) by (simp add: like_field_def owner_pattern_def)
  then have "row \<in> set (filter (owner_match owner) rows')" using row_in by simp
  moreover have "set (owner_matches env owner rows') = set (filter (owner_match owner) rows')"
    using env(1) unfolding owner_matches_def set_sort by (metis set_mset_mset)
  ultimately have found: "row \<in> set (owner_matches env owner rows')" by blast
  have "take 500 (owner_matches env owner rows') = owner_matches env owner rows'" using few by simp
  then have search: "search_by_owner env owner 500 0 rows' = Inr (map (scan_record env) (owner_matches env owner rows'))"
    using search_by_owner_page [OF is_up owner(1), of 500 0 rows'] by simp
  have list: "decode_json env (opt_or (nullable_json env v) []) = v" for v
    using env(2) [rule_format, of v] by (cases "v = []") (auto simp: nullable_json_def decode_json_def opt_or_def trim_space_def)
  have strs: "opt_or (nullable_string s) [] = s" for s by (simp add: nullable_string_def opt_or_def)
  have "wr_query (scan_record env row) = norm_query q \<and> wr_type (scan_record env row) = qt \<and>
      wr_name (scan_record env row) = d_registrant r \<and> wr_org (scan_record env row) = d_organization r \<and>
      wr_email (scan_record env row) = d_email r \<and> wr_country (scan_record env row) = d_country r \<and>
      wr_registrar (scan_record env row) = d_registrar r \<and> wr_nameservers (scan_record env row) = d_nameservers r \<and>
      wr_status (scan_record env row) = d_status r \<and> wr_last (scan_record env row) = unix_of now"
    by (simp add: scan_record_def row_def new_row_def norm_query_def strs list)
  with search found show ?thesis by auto
qed

text \<open>The key of the operator goes to the service that the client names.\<close>

theorem operator_key_forwarded:
  assumes none: "search_by_owner env owner 100 0 [] = Inr []" and owner: "trim_space owner = owner"
    and key: "rw_api_key cfg \<noteq> []" "rw_max cfg = 1" and cd: "rv_whoxy cd ''b'' = Some [''x.com'']"
  shows "page_data (handle_owner_search env cd
      (\<lambda>rq. if rq = whoxy_request (rw_api_key cfg) owner then Some (200, ''b'') else None) cfg []
      \<lparr>oq_owner = owner, oq_limit = '''', oq_page = '''', oq_provider = ''whoxy'', oq_key = ''''\<rparr>) =
    [external_result \<lparr>er_domain = ''x.com'', er_provider = ''whoxy''\<rparr>]"
proof -
  have h: "header_or ''whoxy'' d = ''whoxy''" "header_or '''' k = k" for d k
    by code_simp (simp add: header_or_def trim_space_def)
  have n: "owner_limit '''' = 100" "owner_page_number '''' = 1" "wrap64 ((1 - 1) * 100) = 0" by code_simp+
  have p: "to_lower (trim_space ''whoxy'') = ''whoxy''" by code_simp
  have "owner \<noteq> []" using none owner by (auto simp: search_by_owner_def)
  then show ?thesis
    using key none cd
    by (simp add: handle_owner_search_def Let_def h n [simplified] owner page_data_def search_provider_def p search_whoxy_def decode_names_def)
qed

text \<open>A page far behind the last shows the first: the offset wraps around.\<close>

theorem huge_page_is_first:
  assumes "oq_limit rq = ''8''" "search_by_owner env (trim_space (oq_owner rq)) 8 0 rows = Inr recs" "recs \<noteq> []"
  shows "page_data (handle_owner_search env cd net cfg rows (rq\<lparr>oq_page := ''2305843009213693953''\<rparr>)) =
    page_data (handle_owner_search env cd net cfg rows (rq\<lparr>oq_page := ''1''\<rparr>))"
proof -
  have n: "owner_limit ''8'' = 8" "owner_page_number ''1'' = 1" "wrap64 0 = 0" "wrap64 18446744073709551616 = 0"
    by code_simp+
  have "owner_page_number ''2305843009213693953'' = 2305843009213693953"
    by (simp add: owner_page_number_def atoi_def has_prefix_def all_digits_def dec_val_def is_digit_def digit_val_def)
  note n = n this
  show ?thesis using assms by (simp add: handle_owner_search_def Let_def n page_data_def)
qed

subsection \<open>Witnesses\<close>

lemma sample_scan: "\<forall>xs. mset (re_scan sample_env xs) = mset xs"
  by (simp add: sample_env_def)

definition sample_services :: reverse_codec where
  "sample_services = \<lparr>rv_quote = (\<lambda>s. s), rv_securitytrails = (\<lambda>_. None), rv_whoxy = (\<lambda>_. Some [''x.com'', '''', ''y.com'']),
     rv_viewdns = (\<lambda>_. None)\<rparr>"

definition sample_config :: reverse_config where
  "sample_config = \<lparr>rw_provider = ''none'', rw_api_key = '''', rw_max = 10\<rparr>"


theorem services_asked_last_witness:
  "handle_owner_search sample_env sample_services (\<lambda>_. None) sample_config sample_rows (paged ''nobody'' ''whoxy'' ''key'' 10 2) =
   handle_owner_search sample_env sample_services (\<lambda>_. Some (200, ''{}'')) sample_config sample_rows (paged ''nobody'' ''whoxy'' ''key'' 10 2)"
proof (rule services_asked_last)
  have "owner_page_number (oq_page (paged ''nobody'' ''whoxy'' ''key'' 10 2)) \<noteq> 1" by code_simp
  then show "owner_page_number (oq_page (paged ''nobody'' ''whoxy'' ''key'' 10 2)) \<noteq> 1 \<or>
      header_or (oq_provider (paged ''nobody'' ''whoxy'' ''key'' 10 2)) (rw_provider sample_config) = [] \<or>
      header_or (oq_key (paged ''nobody'' ''whoxy'' ''key'' 10 2)) (rw_api_key sample_config) = [] \<or>
      (\<exists>recs. search_by_owner sample_env (trim_space (oq_owner (paged ''nobody'' ''whoxy'' ''key'' 10 2)))
        (owner_limit (oq_limit (paged ''nobody'' ''whoxy'' ''key'' 10 2))) 0 sample_rows = Inr recs \<and> recs \<noteq> [])"
    by (rule disjI1)
qed

theorem provider_results_bounded_witness:
  "search_provider sample_services (\<lambda>_. Some (200, '''')) '' Whoxy'' ''key'' ''acme'' 2 =
     Inr [\<lparr>er_domain = ''x.com'', er_provider = ''whoxy''\<rparr>] \<and> (1::int) \<le> 2"
proof -
  have s: "search_provider sample_services (\<lambda>_. Some (200, '''')) '' Whoxy'' ''key'' ''acme'' 2 =
     Inr [\<lparr>er_domain = ''x.com'', er_provider = ''whoxy''\<rparr>]"
    by code_simp
  from provider_results_bounded [OF this] s show ?thesis by simp
qed

lemma trim_space_blank: "trim_space s = [] \<Longrightarrow> \<forall>c\<in>set s. is_space c"
  unfolding trim_space_def go_str by (simp add: dropWhile_eq_Nil_conv) (metis hd_dropWhile list.set_sel(1) dropWhile_eq_Nil_conv)

definition marking_env :: records_env where
  "marking_env = \<lparr>re_up = True, re_scan = rev, re_marshal = (\<lambda>v. Some (concat (map mark_string v))),
     re_unmarshal = (\<lambda>s. Some (unmark [] s))\<rparr>"

lemma marking_env_ok:
  "\<forall>xs. mset (re_scan marking_env xs) = mset xs"
  "\<forall>v. v \<noteq> [] \<longrightarrow> (\<exists>s. re_marshal marking_env v = Some s \<and> trim_space s \<noteq> [] \<and> re_unmarshal marking_env s = Some v)"
proof -
  show "\<forall>xs. mset (re_scan marking_env xs) = mset xs" by (simp add: marking_env_def)
  have "trim_space (concat (map mark_string v)) \<noteq> []" if v: "v \<noteq> []" for v
  proof
    assume "trim_space (concat (map mark_string v)) = []"
    then have "\<forall>c\<in>set (mark_string (hd v)). is_space c" using trim_space_blank v by fastforce
    then have "is_space CHR ''.''" by (simp add: mark_string_def)
    moreover have "\<not> is_space CHR ''.''" by code_simp
    ultimately show False by simp
  qed
  then show "\<forall>v. v \<noteq> [] \<longrightarrow>
      (\<exists>s. re_marshal marking_env v = Some s \<and> trim_space s \<noteq> [] \<and> re_unmarshal marking_env s = Some v)"
    by (simp add: marking_env_def unmark_all)
qed

definition acme_answer :: domain_result where
  "acme_answer = (empty_domain '''')\<lparr>d_organization := ''Acme Inc.'', d_nameservers := [''ns1.a.com'', ''ns2.a.com'']\<rparr>"

theorem stored_owner_found_witness:
  "\<exists>recs. search_by_owner marking_env '' acme'' 500 0 (snd (upsert_record marking_env 0 ''C.com'' ''domain'' (Some acme_answer) sample_rows)) = Inr recs \<and>
     (\<exists>w\<in>set recs. wr_query w = ''c.com'' \<and> wr_nameservers w = [''ns1.a.com'', ''ns2.a.com''])"
proof -
  define rows where "rows = snd (upsert_record marking_env 0 ''C.com'' ''domain'' (Some acme_answer) sample_rows)"
  have up: "upsert_record marking_env 0 ''C.com'' ''domain'' (Some acme_answer) sample_rows = (None, rows)"
    by (simp add: rows_def upsert_record_def marking_env_def)
  have c: "trim_space '' acme'' \<noteq> []" "no_wildcards '' acme''"
    "contains_sub (to_lower (d_organization acme_answer)) (to_lower (trim_space '' acme''))"
    by code_simp+
  have few: "length (owner_matches marking_env '' acme'' rows) \<le> 500" unfolding rows_def by code_simp
  have "norm_query ''C.com'' = ''c.com''" "d_nameservers acme_answer = [''ns1.a.com'', ''ns2.a.com'']" by code_simp+
  with stored_owner_found [OF sample_rows_ok up marking_env_ok c few] show ?thesis
    unfolding rows_def by auto
qed

end
