(* ===== verification/Email.thy ===== *)
theory Email
  imports Texts Net Validate "HOL-Library.Multiset"
begin

text \<open>
  Messages by electronic mail (\<open>src/src/email/email.go\<close>) and the contact form that sends them
  (\<open>src/src/server/standard_pages.go\<close>). A mail server is a function of the commands sent so far; the
  client of \<open>net/smtp\<close> refuses a line with a line break in it, and a password on a connection
  without encryption to a host that is not the local one. The environment, the files of templates, the order in
  which a Go map is walked and the routing table are parameters.
\<close>

subsection \<open>The manager\<close>

record email_manager =
  em_configDir :: string
  em_enabled :: bool
  em_host :: string
  em_port :: int
  em_user :: string
  em_pass :: string
  em_tls :: string
  em_fromName :: string
  em_fromEmail :: string
  em_auto :: bool

definition new_email_manager :: "string \<Rightarrow> email_manager" where
  "new_email_manager configDir =
     \<lparr>em_configDir = configDir, em_enabled = False, em_host = [], em_port = 587, em_user = [], em_pass = [],
      em_tls = ''auto'', em_fromName = [], em_fromEmail = [], em_auto = False\<rparr>"

text \<open>\<open>parseInt\<close>: what \<open>Sscanf\<close> reads; the rest of the text does not matter.\<close>

definition email_parse_int :: "string \<Rightarrow> int option" where
  "email_parse_int s = map_option fst (scan_int 64 s)"

definition env_or :: "(string \<Rightarrow> string) \<Rightarrow> string \<Rightarrow> string \<Rightarrow> string" where
  "env_or getenv name d = (if getenv name \<noteq> [] then getenv name else d)"

definition email_configure ::
    "(string \<Rightarrow> string) \<Rightarrow> string \<Rightarrow> int \<Rightarrow> string \<Rightarrow> string \<Rightarrow> string \<Rightarrow> string \<Rightarrow> string \<Rightarrow> email_manager \<Rightarrow> email_manager" where
  "email_configure getenv host port username password tlsMode fromName fromEmail em =
     em\<lparr>em_host := env_or getenv ''SMTP_HOST'' host,
        em_port := (if getenv ''SMTP_PORT'' \<noteq> [] then opt_or (email_parse_int (getenv ''SMTP_PORT'')) port else port),
        em_user := env_or getenv ''SMTP_USERNAME'' username,
        em_pass := env_or getenv ''SMTP_PASSWORD'' password,
        em_tls := env_or getenv ''SMTP_TLS'' tlsMode,
        em_fromName := env_or getenv ''SMTP_FROM_NAME'' fromName,
        em_fromEmail := env_or getenv ''SMTP_FROM_EMAIL'' fromEmail\<rparr>"

definition em_enable :: "email_manager \<Rightarrow> email_manager" where
  "em_enable em = em\<lparr>em_enabled := True\<rparr>"

definition em_disable :: "email_manager \<Rightarrow> email_manager" where
  "em_disable em = em\<lparr>em_enabled := False\<rparr>"

subsection \<open>Detection\<close>

text \<open>The lines of \<open>/proc/net/route\<close> after the first; four bytes are printed as an address.\<close>

fun unhex :: "string \<Rightarrow> nat list option" where
  "unhex [] = Some []"
| "unhex [a] = None"
| "unhex (a # b # s) =
     (if is_hex a \<and> is_hex b then map_option (\<lambda>r. (16 * hex_digit a + hex_digit b) # r) (unhex s) else None)"

text \<open>\<open>LittleEndian.PutUint32\<close> of \<open>LittleEndian.Uint32\<close>.\<close>

definition le_uint32 :: "nat list \<Rightarrow> int" where
  "le_uint32 b = int (b ! 0) + 256 * int (b ! 1) + 65536 * int (b ! 2) + 16777216 * int (b ! 3)"

definition le_put_uint32 :: "int \<Rightarrow> nat list" where
  "le_put_uint32 n = [nat (n mod 256), nat (n div 256 mod 256), nat (n div 65536 mod 256), nat (n div 16777216 mod 256)]"

fun route_gateway :: "string list \<Rightarrow> string" where
  "route_gateway [] = []"
| "route_gateway (l # ls) =
     (case str_fields l of
        iface # destination # gateway # _ \<Rightarrow>
          if iface = ''lo'' \<or> destination \<noteq> ''00000000'' then route_gateway ls
          else (case unhex gateway of
                  Some raw \<Rightarrow>
                    if length raw \<noteq> 4 then route_gateway ls
                    else (case le_put_uint32 (le_uint32 raw) of
                            [a, b, c, d] \<Rightarrow> dotted a b c d
                          | _ \<Rightarrow> [])
                | None \<Rightarrow> route_gateway ls)
      | _ \<Rightarrow> route_gateway ls)"

definition default_gateway :: "string \<Rightarrow> string list option \<Rightarrow> string" where
  "default_gateway goos table =
     (if goos \<noteq> ''linux'' then []
      else case table of None \<Rightarrow> [] | Some ls \<Rightarrow> route_gateway (tl ls))"

definition smtp_hosts :: "string \<Rightarrow> string \<Rightarrow> string \<Rightarrow> string list" where
  "smtp_hosts gateway fqdn globalIPv4 =
     [''127.0.0.1'', ''172.17.0.1''] @
     (if gateway \<noteq> [] then [gateway] else []) @
     (if fqdn \<noteq> [] \<and> fqdn \<noteq> ''localhost'' then [fqdn] else []) @
     (if globalIPv4 \<noteq> [] then [globalIPv4] else []) @
     (if fqdn \<noteq> [] \<and> fqdn \<noteq> ''localhost'' then [''mail.'' @ fqdn, ''smtp.'' @ fqdn] else [])"

definition smtp_ports :: "int list" where
  "smtp_ports = [587, 25, 465]"

fun find_host_port :: "(string \<Rightarrow> int \<Rightarrow> bool) \<Rightarrow> (string \<times> int) list \<Rightarrow> (string \<times> int) option" where
  "find_host_port probe [] = None"
| "find_host_port probe ((h, p) # hps) = (if probe h p then Some (h, p) else find_host_port probe hps)"

text \<open>\<open>probe\<close>: whether a server answers \<open>EHLO\<close> on a host and port.\<close>

definition auto_detect_smtp ::
    "(string \<Rightarrow> int \<Rightarrow> bool) \<Rightarrow> string \<Rightarrow> string \<Rightarrow> string \<Rightarrow> email_manager \<Rightarrow> bool \<times> email_manager" where
  "auto_detect_smtp probe gateway fqdn globalIPv4 em =
     (case find_host_port probe (concat (map (\<lambda>h. map (\<lambda>p. (h, p)) smtp_ports) (smtp_hosts gateway fqdn globalIPv4))) of
        Some (h, p) \<Rightarrow> (True, em\<lparr>em_host := h, em_port := p, em_auto := True, em_enabled := True\<rparr>)
      | None \<Rightarrow> (False, em))"

datatype mail_error =
    NoHost
  | ConnectFailed string int
  | TemplateMissing string
  | TemplateNoSeparator
  | TemplateNoSubject
  | UnknownTLS string
  | DialFailed
  | StartTLSFailed
  | AuthFailed
  | FromFailed
  | RcptFailed
  | DataFailed
  | WriteFailed

definition test_connection :: "(string \<Rightarrow> int \<Rightarrow> bool) \<Rightarrow> email_manager \<Rightarrow> mail_error option" where
  "test_connection probe em =
     (if em_host em = [] then Some NoHost
      else if \<not> probe (em_host em) (em_port em) then Some (ConnectFailed (em_host em) (em_port em)) else None)"

subsection \<open>Templates\<close>

record email_template =
  et_subject :: string
  et_body :: string

definition parse_template :: "string \<Rightarrow> mail_error + email_template" where
  "parse_template content =
     (case cut_at [CHR 0x0A, CHR ''-'', CHR ''-'', CHR ''-'', CHR 0x0A] content of
        None \<Rightarrow> Inl TemplateNoSeparator
      | Some (a, b) \<Rightarrow>
          let subject = trim_space (trim_prefix (trim_space a) ''Subject:'')
          in if subject = [] then Inl TemplateNoSubject
             else Inr \<lparr>et_subject = subject, et_body = trim_space b\<rparr>)"

text \<open>\<open>custom\<close> and \<open>embedded\<close>: the files of the operator and of the program.\<close>

definition load_template ::
    "(string \<Rightarrow> string option) \<Rightarrow> (string \<Rightarrow> string option) \<Rightarrow> string \<Rightarrow> mail_error + email_template" where
  "load_template custom embedded name =
     (case custom name of
        Some content \<Rightarrow> parse_template content
      | None \<Rightarrow> (case embedded name of None \<Rightarrow> Inl (TemplateMissing name) | Some content \<Rightarrow> parse_template content))"

text \<open>The pairs come in the order in which the map is walked.\<close>

definition render_template :: "string \<Rightarrow> (string \<times> string) list \<Rightarrow> string" where
  "render_template template kvs = foldl (\<lambda>result (k, v). replace_all (''{'' @ k @ ''}'') v result) template kvs"

subsection \<open>Sending\<close>

datatype smtp_cmd =
    CDial string
  | CDialTLS string string        \<comment> \<open>address, name in the certificate\<close>
  | CStartTLS string
  | CAuth string string string    \<comment> \<open>user, password, host\<close>
  | CMail string
  | CRcpt string
  | CData
  | CMessage string
  | CEnd                          \<comment> \<open>the lone dot; its answer is not looked at\<close>

record mail_server =
  ms_accepts :: "smtp_cmd list \<Rightarrow> smtp_cmd \<Rightarrow> bool"
  ms_starttls :: "smtp_cmd list \<Rightarrow> bool"

definition one_line :: "string \<Rightarrow> bool" where
  "one_line s \<longleftrightarrow> CHR 0x0A \<notin> set s \<and> CHR 0x0D \<notin> set s"

definition local_host :: "string \<Rightarrow> bool" where
  "local_host h \<longleftrightarrow> h \<in> {''localhost'', ''127.0.0.1'', ''::1''}"

text \<open>What the client of \<open>net/smtp\<close> checks itself: \<open>name\<close> is the server's, \<open>tls\<close> tells whether the connection is encrypted.\<close>

fun client_allows :: "bool \<Rightarrow> string \<Rightarrow> smtp_cmd \<Rightarrow> bool" where
  "client_allows tls name (CAuth u p h) \<longleftrightarrow> (tls \<or> local_host name) \<and> h = name"
| "client_allows tls name (CMail a) \<longleftrightarrow> one_line a"
| "client_allows tls name (CRcpt a) \<longleftrightarrow> one_line a"
| "client_allows tls name _ \<longleftrightarrow> True"

fun run_cmds ::
    "mail_server \<Rightarrow> bool \<Rightarrow> string \<Rightarrow> (smtp_cmd \<times> mail_error) list \<Rightarrow> smtp_cmd list \<Rightarrow> mail_error option \<times> smtp_cmd list" where
  "run_cmds srv tls name [] tr = (None, tr)"
| "run_cmds srv tls name ((c, e) # cs) tr =
     (if \<not> client_allows tls name c then (Some e, tr)
      else if \<not> ms_accepts srv tr c then (Some e, tr @ [c])
      else run_cmds srv tls name cs (tr @ [c]))"

definition send_with_client ::
    "mail_server \<Rightarrow> bool \<Rightarrow> string \<Rightarrow> string \<Rightarrow> string \<Rightarrow> string \<Rightarrow> string \<Rightarrow> string \<Rightarrow> string \<Rightarrow> smtp_cmd list \<Rightarrow>
     mail_error option \<times> smtp_cmd list" where
  "send_with_client srv tls name host username password sender rcpt msg tr =
     (case run_cmds srv tls name
             ((if username \<noteq> [] \<and> password \<noteq> [] then [(CAuth username password host, AuthFailed)] else []) @
              [(CMail sender, FromFailed), (CRcpt rcpt, RcptFailed), (CData, DataFailed)]) tr of
        (Some e, tr') \<Rightarrow> (Some e, tr')
      | (None, tr') \<Rightarrow>
          (case run_cmds srv tls name [(CMessage msg, WriteFailed)] tr' of
             (e, tr'') \<Rightarrow> (e, tr'' @ [CEnd])))"

definition before_colon :: "string \<Rightarrow> string" where
  "before_colon addr = hd (split_on CHR '':'' addr)"

definition send_with_tls ::
    "mail_server \<Rightarrow> string \<Rightarrow> string \<Rightarrow> string \<Rightarrow> string \<Rightarrow> string \<Rightarrow> string \<Rightarrow> mail_error option \<times> smtp_cmd list" where
  "send_with_tls srv addr username password sender rcpt msg =
     (let name = before_colon addr; c = CDialTLS addr name
      in if \<not> ms_accepts srv [] c then (Some DialFailed, [c])
         else send_with_client srv True name name username password sender rcpt msg [c])"

text \<open>The name of the server is the host of the address.\<close>

definition addr_host :: "string \<Rightarrow> string" where
  "addr_host addr = (case split_host_port addr of Some (h, _) \<Rightarrow> h | None \<Rightarrow> [])"

definition send_with_starttls ::
    "mail_server \<Rightarrow> string \<Rightarrow> string \<Rightarrow> string \<Rightarrow> string \<Rightarrow> string \<Rightarrow> string \<Rightarrow> string \<Rightarrow> mail_error option \<times> smtp_cmd list" where
  "send_with_starttls srv addr host username password sender rcpt msg =
     (let c = CDial addr; name = addr_host addr
      in if \<not> ms_accepts srv [] c then (Some DialFailed, [c])
         else if ms_starttls srv [c] then
           (if \<not> ms_accepts srv [c] (CStartTLS host) then (Some StartTLSFailed, [c, CStartTLS host])
            else send_with_client srv True name host username password sender rcpt msg [c, CStartTLS host])
         else send_with_client srv False name host username password sender rcpt msg [c])"

definition send_plain ::
    "mail_server \<Rightarrow> string \<Rightarrow> string \<Rightarrow> string \<Rightarrow> string \<Rightarrow> string \<Rightarrow> string \<Rightarrow> mail_error option \<times> smtp_cmd list" where
  "send_plain srv addr username password sender rcpt msg =
     (let c = CDial addr
      in if \<not> ms_accepts srv [] c then (Some DialFailed, [c])
         else send_with_client srv False (addr_host addr) (before_colon addr) username password sender rcpt msg [c])"

definition mail_eol :: string where
  "mail_eol = [CHR 0x0D, CHR 0x0A]"

definition sender_text :: "email_manager \<Rightarrow> string" where
  "sender_text em =
     (if em_fromName em \<noteq> [] then em_fromName em @ '' <'' @ em_fromEmail em @ ''>'' else em_fromEmail em)"

definition mail_message :: "email_manager \<Rightarrow> string \<Rightarrow> string \<Rightarrow> string \<Rightarrow> string" where
  "mail_message em rcpt subject body =
     ''From: '' @ sender_text em @ mail_eol @
     ''To: '' @ rcpt @ mail_eol @
     ''Subject: '' @ subject @ mail_eol @
     ''MIME-Version: 1.0'' @ mail_eol @
     ''Content-Type: text/plain; charset=UTF-8'' @ mail_eol @
     mail_eol @ body"

definition send_smtp ::
    "mail_server \<Rightarrow> email_manager \<Rightarrow> string \<Rightarrow> string \<Rightarrow> string \<Rightarrow> mail_error option \<times> smtp_cmd list" where
  "send_smtp srv em rcpt subject body =
     (if em_host em = [] then (Some NoHost, [])
      else let msg = mail_message em rcpt subject body;
               addr = join_host_port (em_host em) (itoa_int (em_port em));
               tls = send_with_tls srv addr (em_user em) (em_pass em) (em_fromEmail em) rcpt msg;
               starttls = send_with_starttls srv addr (em_host em) (em_user em) (em_pass em) (em_fromEmail em) rcpt msg;
               plain = send_plain srv addr (em_user em) (em_pass em) (em_fromEmail em) rcpt msg
           in if em_tls em = ''tls'' then tls
              else if em_tls em = ''starttls'' then starttls
              else if em_tls em = ''none'' then plain
              else if em_tls em = ''auto'' then
                (if em_port em = 465 then tls
                 else if em_port em = 587 \<or> em_port em = 25 then starttls
                 else plain)
              else (Some (UnknownTLS (em_tls em)), []))"

definition send_email ::
    "mail_server \<Rightarrow> (string \<Rightarrow> string option) \<Rightarrow> (string \<Rightarrow> string option) \<Rightarrow> email_manager \<Rightarrow> string \<Rightarrow> string \<Rightarrow>
     (string \<times> string) list \<Rightarrow> mail_error option \<times> smtp_cmd list" where
  "send_email srv custom embedded em rcpt templateName kvs =
     (if \<not> em_enabled em then (None, [])
      else case load_template custom embedded templateName of
             Inl e \<Rightarrow> (Some e, [])
           | Inr t \<Rightarrow> send_smtp srv em rcpt (render_template (et_subject t) kvs) (render_template (et_body t) kvs))"

definition default_from_email :: "string \<Rightarrow> string" where
  "default_from_email fqdn =
     (if fqdn = [] \<or> fqdn = ''localhost'' then ''no-reply@localhost'' else ''no-reply@'' @ fqdn)"

subsection \<open>The contact form\<close>

record contact_config =
  cc_enabled :: bool
  cc_general :: string
  cc_admin :: string
  cc_title :: string
  cc_fqdn :: string

record contact_form =
  cf_name :: string
  cf_email :: string
  cf_subject :: string
  cf_message :: string

definition internal_name :: string where "internal_name = ''caswhois''"

definition contact_data :: "contact_config \<Rightarrow> string \<Rightarrow> contact_form \<Rightarrow> (string \<times> string) list" where
  "contact_data cfg timestamp form =
     [(''subject'', trim_space (cf_subject form)), (''app_name'', if cc_title cfg = [] then internal_name else cc_title cfg),
      (''fqdn'', cc_fqdn cfg), (''app_url'', cc_fqdn cfg), (''timestamp'', timestamp),
      (''sender_name'', trim_space (cf_name form)), (''sender_email'', trim_space (cf_email form)),
      (''message'', trim_space (cf_message form))]"

definition form_complete :: "contact_form \<Rightarrow> bool" where
  "form_complete form \<longleftrightarrow>
     trim_space (cf_name form) \<noteq> [] \<and> trim_space (cf_email form) \<noteq> [] \<and>
     trim_space (cf_subject form) \<noteq> [] \<and> trim_space (cf_message form) \<noteq> []"

definition process_contact_submission ::
    "mail_server \<Rightarrow> (string \<Rightarrow> string option) \<Rightarrow> (string \<Rightarrow> string option) \<Rightarrow>
     ((string \<times> string) list \<Rightarrow> (string \<times> string) list) \<Rightarrow> contact_config \<Rightarrow> email_manager option \<Rightarrow> string \<Rightarrow>
     contact_form \<Rightarrow> smtp_cmd list" where
  "process_contact_submission srv custom embedded order cfg em timestamp form =
     (if \<not> form_complete form then []
      else let recipient = (if cc_general cfg = [] then cc_admin cfg else cc_general cfg)
           in if recipient = [] then []
              else case em of
                     None \<Rightarrow> []
                   | Some m \<Rightarrow> snd (send_email srv custom embedded m recipient ''contact'' (order (contact_data cfg timestamp form))))"

datatype contact_reply = ContactForbidden | ContactInvalid | ContactThanks

definition handle_contact_api ::
    "mail_server \<Rightarrow> (string \<Rightarrow> string option) \<Rightarrow> (string \<Rightarrow> string option) \<Rightarrow>
     ((string \<times> string) list \<Rightarrow> (string \<times> string) list) \<Rightarrow> contact_config \<Rightarrow> email_manager option \<Rightarrow> string \<Rightarrow>
     contact_form \<Rightarrow> contact_reply \<times> smtp_cmd list" where
  "handle_contact_api srv custom embedded order cfg em timestamp form =
     (if \<not> cc_enabled cfg then (ContactForbidden, [])
      else if \<not> form_complete form then (ContactInvalid, [])
      else (ContactThanks, process_contact_submission srv custom embedded order cfg em timestamp form))"

text \<open>The page: only the submission is modelled; the page is shown in every case.\<close>

definition handle_contact_page ::
    "mail_server \<Rightarrow> (string \<Rightarrow> string option) \<Rightarrow> (string \<Rightarrow> string option) \<Rightarrow>
     ((string \<times> string) list \<Rightarrow> (string \<times> string) list) \<Rightarrow> contact_config \<Rightarrow> email_manager option \<Rightarrow> string \<Rightarrow>
     string \<Rightarrow> contact_form \<Rightarrow> smtp_cmd list" where
  "handle_contact_page srv custom embedded order cfg em timestamp verb form =
     (if verb = ''POST'' then process_contact_submission srv custom embedded order cfg em timestamp form else [])"

subsection \<open>Lemmas: runs of commands\<close>

fun all_accepted :: "mail_server \<Rightarrow> smtp_cmd list \<Rightarrow> smtp_cmd list \<Rightarrow> bool" where
  "all_accepted srv pre [] \<longleftrightarrow> True"
| "all_accepted srv pre (c # cs) \<longleftrightarrow> ms_accepts srv pre c \<and> all_accepted srv (pre @ [c]) cs"

lemma all_accepted_append [simp]:
  "all_accepted srv pre (a @ b) \<longleftrightarrow> all_accepted srv pre a \<and> all_accepted srv (pre @ a) b"
  by (induction a arbitrary: pre) auto

lemma run_cmds_ok:
  "run_cmds srv tls name cs tr = (None, tr') \<Longrightarrow>
     tr' = tr @ map fst cs \<and> all_accepted srv tr (map fst cs) \<and> (\<forall>(c, e)\<in>set cs. client_allows tls name c)"
  by (induction srv tls name cs tr arbitrary: tr' rule: run_cmds.induct) (auto split: if_splits)

lemma run_cmds_extends:
  "run_cmds srv tls name cs tr = (e, tr') \<Longrightarrow> \<exists>r. tr' = tr @ r \<and> (\<forall>c\<in>set r. client_allows tls name c)"
  by (induction srv tls name cs tr arbitrary: e tr' rule: run_cmds.induct) (fastforce split: if_splits)+

definition auth_cmds :: "string \<Rightarrow> string \<Rightarrow> string \<Rightarrow> smtp_cmd list" where
  "auth_cmds u p h = (if u \<noteq> [] \<and> p \<noteq> [] then [CAuth u p h] else [])"

lemma send_with_client_ok:
  assumes "send_with_client srv tls name host u p f r m tr = (None, tr')" "all_accepted srv [] tr"
  shows "tr' = tr @ auth_cmds u p host @ [CMail f, CRcpt r, CData, CMessage m, CEnd] \<and> all_accepted srv [] (butlast tr')"
proof -
  let ?cs = "(if u \<noteq> [] \<and> p \<noteq> [] then [(CAuth u p host, AuthFailed)] else []) @
    [(CMail f, FromFailed), (CRcpt r, RcptFailed), (CData, DataFailed)]"
  obtain tr1 where run: "run_cmds srv tls name ?cs tr = (None, tr1)"
    using assms(1) unfolding send_with_client_def by (cases "run_cmds srv tls name ?cs tr") (auto split: option.splits)
  note tr1 = run_cmds_ok [OF run]
  have fsts: "map fst ?cs = auth_cmds u p host @ [CMail f, CRcpt r, CData]" by (simp add: auth_cmds_def)
  obtain tr2 where run2: "run_cmds srv tls name [(CMessage m, WriteFailed)] tr1 = (None, tr2)" and tr': "tr' = tr2 @ [CEnd]"
    using assms(1) unfolding send_with_client_def run by (auto split: prod.splits)
  note tr2 = run_cmds_ok [OF run2]
  show ?thesis using tr1 tr2 assms(2) unfolding tr' fsts by (auto simp: butlast_append)
qed

lemma send_with_client_extends:
  assumes "send_with_client srv tls name host u p f r m tr = (e, tr')"
  shows "\<exists>s. tr' = tr @ s \<and> (\<forall>c\<in>set s. client_allows tls name c)"
proof -
  let ?cs = "(if u \<noteq> [] \<and> p \<noteq> [] then [(CAuth u p host, AuthFailed)] else []) @
    [(CMail f, FromFailed), (CRcpt r, RcptFailed), (CData, DataFailed)]"
  obtain e1 tr1 where run: "run_cmds srv tls name ?cs tr = (e1, tr1)" by fastforce
  obtain s1 where s1: "tr1 = tr @ s1" "\<forall>c\<in>set s1. client_allows tls name c"
    using run_cmds_extends [OF run] by blast
  show ?thesis
  proof (cases e1)
    case (Some x)
    then show ?thesis using assms s1 unfolding send_with_client_def run by auto
  next
    case None
    obtain e2 tr2 where run2: "run_cmds srv tls name [(CMessage m, WriteFailed)] tr1 = (e2, tr2)" by fastforce
    obtain s2 where s2: "tr2 = tr1 @ s2" "\<forall>c\<in>set s2. client_allows tls name c"
      using run_cmds_extends [OF run2] by blast
    have "tr' = tr @ s1 @ s2 @ [CEnd]"
      using assms s1 s2 None run2 unfolding send_with_client_def run by (simp del: run_cmds.simps)
    then show ?thesis using s1 s2 by (intro exI [of _ "s1 @ s2 @ [CEnd]"]) auto
  qed
qed

definition smtp_addr :: "email_manager \<Rightarrow> string" where
  "smtp_addr em = join_host_port (em_host em) (itoa_int (em_port em))"

definition openings :: "email_manager \<Rightarrow> smtp_cmd list list" where
  "openings em =
     [[CDialTLS (smtp_addr em) (before_colon (smtp_addr em))],
      [CDial (smtp_addr em)],
      [CDial (smtp_addr em), CStartTLS (em_host em)]]"

text \<open>A run is an opening, after which a client of a known name, encrypted or not, sends the message.\<close>

definition opens :: "smtp_cmd \<Rightarrow> bool" where
  "opens c \<longleftrightarrow> (\<exists>a. c = CDial a) \<or> (\<exists>a n. c = CDialTLS a n) \<or> (\<exists>n. c = CStartTLS n)"

definition encrypts :: "smtp_cmd \<Rightarrow> bool" where
  "encrypts c \<longleftrightarrow> (\<exists>a n. c = CDialTLS a n) \<or> (\<exists>n. c = CStartTLS n)"

lemma opens_simps [simp]:
  "opens (CDial a)" "opens (CDialTLS a n)" "opens (CStartTLS n)" "\<not> opens (CAuth u p h)"
  "encrypts (CDialTLS a n)" "encrypts (CStartTLS n)" "\<not> encrypts (CDial a)"
  by (simp_all add: opens_def encrypts_def)

definition mail_run :: "mail_server \<Rightarrow> email_manager \<Rightarrow> string \<Rightarrow> string \<Rightarrow> mail_error option \<times> smtp_cmd list \<Rightarrow> bool" where
  "mail_run srv em rcpt m run \<longleftrightarrow>
     fst run \<noteq> None \<and> list_all opens (snd run) \<or>
     (\<exists>pre tls name host. pre \<in> set (openings em) \<and> all_accepted srv [] pre \<and> (tls \<longrightarrow> list_ex encrypts pre) \<and>
        (tls \<or> name = addr_host (smtp_addr em)) \<and>
        run = send_with_client srv tls name host (em_user em) (em_pass em) (em_fromEmail em) rcpt m pre)"

lemma mail_run_fails: "fst run \<noteq> None \<Longrightarrow> list_all opens (snd run) \<Longrightarrow> mail_run srv em rcpt m run"
  by (simp add: mail_run_def)

lemma mail_run_client:
  assumes "pre \<in> set (openings em)" "all_accepted srv [] pre" "tls \<longrightarrow> list_ex encrypts pre"
    "tls \<or> name = addr_host (smtp_addr em)"
  shows "mail_run srv em rcpt m
    (send_with_client srv tls name host (em_user em) (em_pass em) (em_fromEmail em) rcpt m pre)"
  using assms unfolding mail_run_def by blast

lemma run_tls: "mail_run srv em rcpt m (send_with_tls srv (smtp_addr em) (em_user em) (em_pass em) (em_fromEmail em) rcpt m)"
  unfolding send_with_tls_def Let_def
  by (simp add: openings_def mail_run_fails mail_run_client)

lemma run_starttls:
  "mail_run srv em rcpt m
     (send_with_starttls srv (smtp_addr em) (em_host em) (em_user em) (em_pass em) (em_fromEmail em) rcpt m)"
  unfolding send_with_starttls_def Let_def
  by (simp add: openings_def mail_run_fails mail_run_client)

lemma run_plain: "mail_run srv em rcpt m (send_plain srv (smtp_addr em) (em_user em) (em_pass em) (em_fromEmail em) rcpt m)"
  unfolding send_plain_def Let_def
  by (simp add: openings_def mail_run_fails mail_run_client)

lemma send_smtp_run: "mail_run srv em rcpt (mail_message em rcpt subject body) (send_smtp srv em rcpt subject body)"
  using run_tls [of srv em rcpt "mail_message em rcpt subject body"]
    run_starttls [of srv em rcpt "mail_message em rcpt subject body"]
    run_plain [of srv em rcpt "mail_message em rcpt subject body"]
  unfolding send_smtp_def Let_def smtp_addr_def [symmetric]
  by (simp only: mail_run_fails [of "(Some _, [])"] fst_conv snd_conv list.pred_inject option.distinct not_False_eq_True
        simp_thms split: if_split)

lemma send_email_run:
  assumes "em_enabled em" "load_template custom embedded name = Inr t"
  shows "mail_run srv em rcpt (mail_message em rcpt (render_template (et_subject t) kvs) (render_template (et_body t) kvs))
    (send_email srv custom embedded em rcpt name kvs)"
  using assms send_smtp_run by (simp add: send_email_def)

subsection \<open>Properties of sending\<close>

text \<open>
  C27: A message that is reported as sent was opened in one of the three ways, authenticated where a user
  and a password are set, and handed over as it was rendered; the server accepted every command up to the final dot.
\<close>
theorem sent_mail_accepted:
  assumes "send_email srv custom embedded em rcpt name kvs = (None, tr)" "em_enabled em"
  shows "\<exists>t pre host. load_template custom embedded name = Inr t \<and> pre \<in> set (openings em) \<and>
    tr = pre @ auth_cmds (em_user em) (em_pass em) host @
      [CMail (em_fromEmail em), CRcpt rcpt, CData,
       CMessage (mail_message em rcpt (render_template (et_subject t) kvs) (render_template (et_body t) kvs)), CEnd] \<and>
    all_accepted srv [] (butlast tr)"
proof -
  obtain t where t: "load_template custom embedded name = Inr t"
    using assms by (auto simp: send_email_def split: sum.splits)
  let ?m = "mail_message em rcpt (render_template (et_subject t) kvs) (render_template (et_body t) kvs)"
  have "mail_run srv em rcpt ?m (None, tr)" using send_email_run [OF assms(2) t, of srv rcpt kvs] assms(1) by simp
  then obtain pre tls nm host where pre: "pre \<in> set (openings em)" "all_accepted srv [] pre"
    and client: "send_with_client srv tls nm host (em_user em) (em_pass em) (em_fromEmail em) rcpt ?m pre = (None, tr)"
    unfolding mail_run_def by auto
  from send_with_client_ok [OF client pre(2)] t pre(1) show ?thesis by blast
qed

text \<open>
  C28: The password goes over the network only after the connection was encrypted, or to the local host.
\<close>
theorem password_encrypted:
  assumes "CAuth u p h \<in> set (snd (send_email srv custom embedded em rcpt name kvs))"
  shows "local_host (addr_host (smtp_addr em)) \<or>
    (\<exists>pre post. snd (send_email srv custom embedded em rcpt name kvs) = pre @ post \<and> CAuth u p h \<notin> set pre \<and> list_ex encrypts pre)"
proof -
  let ?run = "send_email srv custom embedded em rcpt name kvs"
  have "em_enabled em" using assms by (auto simp: send_email_def split: if_splits)
  moreover obtain t where "load_template custom embedded name = Inr t"
    using assms by (auto simp: send_email_def split: if_splits sum.splits)
  ultimately obtain m where run: "mail_run srv em rcpt m ?run"
    using send_email_run by blast
  have "\<not> list_all opens (snd ?run)" using assms opens_simps(4) unfolding list_all_iff by blast
  then obtain pre tls nm host where pre: "pre \<in> set (openings em)" "tls \<longrightarrow> list_ex encrypts pre"
      "tls \<or> nm = addr_host (smtp_addr em)"
    and client: "?run = send_with_client srv tls nm host (em_user em) (em_pass em) (em_fromEmail em) rcpt m pre"
    using run unfolding mail_run_def by blast
  obtain s where s: "snd ?run = pre @ s" "\<forall>c\<in>set s. client_allows tls nm c"
    using send_with_client_extends [of srv tls nm host "em_user em" "em_pass em" "em_fromEmail em" rcpt m pre "fst ?run" "snd ?run"]
      client by auto
  have "CAuth u p h \<notin> set pre" using pre(1) by (auto simp: openings_def)
  then have "client_allows tls nm (CAuth u p h)" using assms s by auto
  then show ?thesis using pre s \<open>CAuth u p h \<notin> set pre\<close> by auto
qed

subsection \<open>Rendering\<close>

text \<open>A template as a sequence of plain texts and names in braces.\<close>

datatype piece = Plain string | Hole string

definition no_braces :: "string \<Rightarrow> bool" where
  "no_braces s \<longleftrightarrow> CHR ''{'' \<notin> set s \<and> CHR ''}'' \<notin> set s"

fun piece_ok :: "piece \<Rightarrow> bool" where
  "piece_ok (Plain s) \<longleftrightarrow> no_braces s"
| "piece_ok (Hole k) \<longleftrightarrow> no_braces k"

fun piece_text :: "piece \<Rightarrow> string" where
  "piece_text (Plain s) = s"
| "piece_text (Hole k) = ''{'' @ k @ ''}''"

fun fill :: "string \<Rightarrow> string \<Rightarrow> piece \<Rightarrow> piece" where
  "fill k v (Plain s) = Plain s"
| "fill k v (Hole j) = (if j = k then Plain v else Hole j)"

definition pieces_text :: "piece list \<Rightarrow> string" where
  "pieces_text ps = concat (map piece_text ps)"

fun piece_value :: "(string \<times> string) list \<Rightarrow> piece \<Rightarrow> string" where
  "piece_value kvs (Plain s) = s"
| "piece_value kvs (Hole k) = (case map_of kvs k of Some v \<Rightarrow> v | None \<Rightarrow> ''{'' @ k @ ''}'')"

lemma hole_prefix:
  assumes "no_braces k" "no_braces j" "has_prefix (''{'' @ j @ ''}'' @ s) (''{'' @ k @ ''}'')"
  shows "j = k"
proof -
  obtain r where r: "j @ CHR ''}'' # s = k @ CHR ''}'' # r"
    using assms(3) by (auto simp: has_prefix_iff)
  have "takeWhile (\<lambda>c. c \<noteq> CHR ''}'') (j @ CHR ''}'' # s) = j"
    "takeWhile (\<lambda>c. c \<noteq> CHR ''}'') (k @ CHR ''}'' # r) = k"
    using assms(1,2) by (auto simp: no_braces_def takeWhile_append)
  with r show ?thesis by simp
qed

lemma replace_piece:
  assumes "piece_ok p" "no_braces k"
  shows "replace_all (''{'' @ k @ ''}'') v (piece_text p @ s) = piece_text (fill k v p) @ replace_all (''{'' @ k @ ''}'') v s"
proof (cases p)
  case (Plain t)
  with assms show ?thesis using replace_skip [of "CHR ''{''" t "k @ ''}''" v s] by (simp add: no_braces_def)
next
  case (Hole j)
  show ?thesis
  proof (cases "j = k")
    case True
    with Hole show ?thesis using replace_hit [of "''{'' @ k @ ''}''" v s] by simp
  next
    case False
    then have no: "\<not> has_prefix (''{'' @ j @ ''}'' @ s) (''{'' @ k @ ''}'')"
      using hole_prefix [of k j s] assms Hole by auto
    have "CHR ''{'' \<notin> set (j @ ''}'')" using assms(1) Hole by (simp add: no_braces_def)
    from replace_skip [OF this, of "k @ ''}''" v s] no False Hole show ?thesis by simp
  qed
qed

lemma replace_pieces:
  assumes "list_all piece_ok ps" "no_braces k"
  shows "replace_all (''{'' @ k @ ''}'') v (pieces_text ps) = pieces_text (map (fill k v) ps)"
  using assms by (induction ps) (simp_all add: pieces_text_def replace_piece [simplified])

lemma fill_ok: "piece_ok p \<Longrightarrow> no_braces v \<Longrightarrow> piece_ok (fill k v p)"
  by (cases p) simp_all

lemma fill_value: "piece_value kvs (fill k v p) = piece_value ((k, v) # kvs) p"
  by (cases p) simp_all

text \<open>
  A template whose braces hold names renders as its plain texts with every name replaced by its value,
  in whatever order the map of values is walked, when names and values hold no braces.
\<close>
theorem render_by_name:
  assumes "list_all piece_ok ps" "list_all (\<lambda>(k, v). no_braces k \<and> no_braces v) kvs"
    "distinct (map fst kvs)" "mset kvs = mset kvs'"
  shows "render_template (pieces_text ps) kvs' = concat (map (piece_value kvs) ps)"
proof -
  have step: "render_template (pieces_text ps) xs = concat (map (piece_value xs) ps)"
    if "list_all piece_ok ps" "list_all (\<lambda>(k, v). no_braces k \<and> no_braces v) xs" for ps xs
    using that
  proof (induction xs arbitrary: ps)
    case Nil
    have "piece_value [] = piece_text"
    proof
      show "piece_value [] p = piece_text p" for p by (cases p) simp_all
    qed
    then show ?case by (simp add: render_template_def pieces_text_def)
  next
    case (Cons kv xs)
    obtain k v where kv: "kv = (k, v)" by fastforce
    have ok: "list_all piece_ok (map (fill k v) ps)"
      using Cons.prems kv by (auto simp: list_all_iff fill_ok)
    have "render_template (pieces_text ps) (kv # xs) = render_template (pieces_text (map (fill k v) ps)) xs"
      using Cons.prems kv replace_pieces [of ps k v] by (simp add: render_template_def)
    also have "\<dots> = concat (map (piece_value xs) (map (fill k v) ps))"
      using Cons.IH [OF ok] Cons.prems by simp
    also have "\<dots> = concat (map (piece_value (kv # xs)) ps)"
      by (simp only: map_map o_def fill_value kv)
    finally show ?case .
  qed
  have "map_of kvs' = map_of kvs"
  proof (rule map_of_eqI)
    show "set (map fst kvs') = set (map fst kvs)"
      using arg_cong [OF assms(4), of set_mset] by simp
    have d: "distinct (map fst kvs')"
      using assms(3,4) by (metis mset_eq_imp_distinct_iff mset_map)
    show "\<forall>k\<in>set (map fst kvs'). map_of kvs' k = map_of kvs k"
      using assms(3) d arg_cong [OF assms(4), of set_mset]
      by (metis map_of_eq_Some_iff not_Some_eq set_mset_mset)
  qed
  then have "piece_value kvs' = piece_value kvs"
  proof (intro ext)
    show "piece_value kvs' p = piece_value kvs p" if "map_of kvs' = map_of kvs" for p
      using that by (cases p) simp_all
  qed
  moreover have "list_all (\<lambda>(k, v). no_braces k \<and> no_braces v) kvs'"
    using assms(2) arg_cong [OF assms(4), of set_mset] by (simp add: list_all_iff)
  ultimately show ?thesis using step [OF assms(1)] by simp
qed

subsection \<open>Headers\<close>

lemma cut_at_skip: "x \<notin> set l \<Longrightarrow> cut_at (x # xs) (l @ s) = map_option (\<lambda>(a, b). (l @ a, b)) (cut_at (x # xs) s)"
proof (induction l)
  case (Cons c l)
  then have "\<not> has_prefix (c # l @ s) (x # xs)" by (auto simp: has_prefix_def)
  with Cons show ?case by (cases "cut_at (x # xs) s") auto
qed (cases "cut_at (x # xs) s"; auto)

lemma cut_at_line:
  assumes "one_line l" "x \<noteq> CHR 0x0D"
  shows "cut_at (mail_eol @ mail_eol) (l @ mail_eol @ x # s) =
    map_option (\<lambda>(a, b). (l @ mail_eol @ a, b)) (cut_at (mail_eol @ mail_eol) (x # s))"
proof -
  have "CHR 0x0D \<notin> set l" using assms(1) by (simp add: one_line_def)
  from cut_at_skip [OF this] show ?thesis
    using assms(2) by (simp add: mail_eol_def has_prefix_def option.map_comp o_def split_def)
qed

lemma cut_at_last: "one_line l \<Longrightarrow> cut_at (mail_eol @ mail_eol) (l @ mail_eol @ mail_eol @ s) = Some (l, s)"
  using cut_at_head [of "mail_eol @ mail_eol" "CHR 0x0D" _ l s] by (auto simp: mail_eol_def one_line_def)

definition mail_headers :: "email_manager \<Rightarrow> string \<Rightarrow> string \<Rightarrow> string list" where
  "mail_headers em rcpt subject =
     [''From: '' @ sender_text em, ''To: '' @ rcpt, ''Subject: '' @ subject, ''MIME-Version: 1.0'',
      ''Content-Type: text/plain; charset=UTF-8'']"

text \<open>
  When sender, recipient and subject are single lines, the message has the five headers and then the
  body: nothing in the body, and no value, becomes a header.
\<close>
theorem message_headers:
  assumes "one_line (sender_text em)" "one_line rcpt" "one_line subject"
  shows "cut_at (mail_eol @ mail_eol) (mail_message em rcpt subject body) =
    Some (join mail_eol (mail_headers em rcpt subject), body)"
proof -
  have l: "one_line (''From: '' @ sender_text em)" "one_line (''To: '' @ rcpt)" "one_line (''Subject: '' @ subject)"
    "one_line ''MIME-Version: 1.0''" "one_line ''Content-Type: text/plain; charset=UTF-8''"
    using assms by (simp_all add: one_line_def)
  have "mail_message em rcpt subject body =
    (''From: '' @ sender_text em) @ mail_eol @ CHR ''T'' # (''o: '' @ rcpt) @ mail_eol @
    CHR ''S'' # (''ubject: '' @ subject) @ mail_eol @ CHR ''M'' # ''IME-Version: 1.0'' @ mail_eol @
    CHR ''C'' # ''ontent-Type: text/plain; charset=UTF-8'' @ mail_eol @ mail_eol @ body"
    by (simp add: mail_message_def)
  also have "cut_at (mail_eol @ mail_eol) \<dots> = Some (join mail_eol (mail_headers em rcpt subject), body)"
    using cut_at_line [OF l(1), of "CHR ''T''"] cut_at_line [OF l(2), of "CHR ''S''"]
      cut_at_line [OF l(3), of "CHR ''M''"] cut_at_line [OF l(4), of "CHR ''C''"] cut_at_last [OF l(5), of body]
    by (simp add: mail_headers_def)
  finally show ?thesis .
qed

subsection \<open>What modelling showed\<close>

definition willing_server :: mail_server where
  "willing_server = \<lparr>ms_accepts = (\<lambda>_ _. True), ms_starttls = (\<lambda>_. False)\<rparr>"

definition contact_template :: string where
  "contact_template = ''Subject: Contact Form - {subject}'' @ [CHR 0x0A, CHR ''-'', CHR ''-'', CHR ''-'', CHR 0x0A] @ ''{message}''"

definition local_manager :: email_manager where
  "local_manager = em_enable (email_configure (\<lambda>_. []) ''localhost'' 25 '''' '''' ''starttls'' ''whois'' ''no-reply@example.com''
     (new_email_manager ''/etc''))"

definition closed_form :: contact_config where
  "closed_form = \<lparr>cc_enabled = False, cc_general = ''admin@example.com'', cc_admin = '''', cc_title = '''', cc_fqdn = ''example.com''\<rparr>"

definition hostile_form :: contact_form where
  "hostile_form = \<lparr>cf_name = ''x'', cf_email = ''x@y'', cf_subject = ''Hi'' @ mail_eol @ ''Bcc: victim@example.net'', cf_message = ''z''\<rparr>"

text \<open>A subject with a line break adds a header of the visitor's choice, and the page takes it even when the form is disabled.\<close>

theorem contact_subject_injects:
  "list_ex (\<lambda>c. case c of CMessage m \<Rightarrow> contains_sub m (mail_eol @ ''Bcc: victim@example.net'' @ mail_eol) | _ \<Rightarrow> False)
     (handle_contact_page willing_server (\<lambda>_. None) (\<lambda>_. Some contact_template) (\<lambda>d. d) closed_form (Some local_manager)
        ''now'' ''POST'' hostile_form)"
  by code_simp

text \<open>The octets of the gateway come out in the order of the table, which is the reverse of the address: this is \<open>192.168.1.1\<close>.\<close>

theorem gateway_octets_reversed:
  "default_gateway ''linux'' (Some [''Iface Destination Gateway'', ''eth0 00000000 0101A8C0 0003'']) = ''1.1.168.192''"
  by code_simp

text \<open>A server that refuses the message at the final dot is not noticed.\<close>

lemma run_cmds_no_end:
  assumes "\<forall>c\<in>set cs. fst c \<noteq> CEnd"
  shows "run_cmds (srv\<lparr>ms_accepts := \<lambda>tr c. c \<noteq> CEnd \<and> ms_accepts srv tr c\<rparr>) tls name cs tr = run_cmds srv tls name cs tr"
  using assms by (induction cs arbitrary: tr) auto

theorem final_dot_ignored:
  "send_smtp (srv\<lparr>ms_accepts := \<lambda>tr c. c \<noteq> CEnd \<and> ms_accepts srv tr c\<rparr>) em rcpt subject body =
   send_smtp srv em rcpt subject body"
proof -
  have client: "send_with_client (srv\<lparr>ms_accepts := \<lambda>tr c. c \<noteq> CEnd \<and> ms_accepts srv tr c\<rparr>) tls name host u p f r m tr =
      send_with_client srv tls name host u p f r m tr" for tls name host u p f r m tr
    unfolding send_with_client_def by (subst (1 2) run_cmds_no_end) auto
  show ?thesis
    unfolding send_smtp_def send_with_tls_def send_with_starttls_def send_plain_def Let_def client by simp
qed

text \<open>For an IPv6 address the name checked in the certificate is its beginning.\<close>

theorem ipv6_server_name: "before_colon (join_host_port ''2001:db8::1'' ''465'') = ''[2001''"
  by code_simp

subsection \<open>Witnesses\<close>

definition secret_manager :: email_manager where
  "secret_manager = local_manager\<lparr>em_host := ''mail.example.com'', em_port := 465, em_tls := ''auto'', em_user := ''u'', em_pass := ''p''\<rparr>"

theorem sent_mail_accepted_witness:
  "\<exists>t pre host. load_template (\<lambda>_. None) (\<lambda>_. Some contact_template) ''contact'' = Inr t \<and> pre \<in> set (openings local_manager) \<and>
    snd (send_email willing_server (\<lambda>_. None) (\<lambda>_. Some contact_template) local_manager ''a@b'' ''contact'' [(''subject'', ''Hi'')]) =
      pre @ auth_cmds (em_user local_manager) (em_pass local_manager) host @
      [CMail (em_fromEmail local_manager), CRcpt ''a@b'', CData,
       CMessage (mail_message local_manager ''a@b'' (render_template (et_subject t) [(''subject'', ''Hi'')])
         (render_template (et_body t) [(''subject'', ''Hi'')])), CEnd] \<and>
    all_accepted willing_server []
      (butlast (snd (send_email willing_server (\<lambda>_. None) (\<lambda>_. Some contact_template) local_manager ''a@b'' ''contact'' [(''subject'', ''Hi'')])))"
proof (rule sent_mail_accepted)
  have "fst (send_email willing_server (\<lambda>_. None) (\<lambda>_. Some contact_template) local_manager ''a@b'' ''contact'' [(''subject'', ''Hi'')]) = None"
    by code_simp
  then show "send_email willing_server (\<lambda>_. None) (\<lambda>_. Some contact_template) local_manager ''a@b'' ''contact'' [(''subject'', ''Hi'')] =
      (None, snd (send_email willing_server (\<lambda>_. None) (\<lambda>_. Some contact_template) local_manager ''a@b'' ''contact'' [(''subject'', ''Hi'')]))"
    by (simp add: prod_eq_iff)
  show "em_enabled local_manager" by code_simp
qed

theorem password_encrypted_witness:
  "\<exists>pre post. snd (send_email willing_server (\<lambda>_. None) (\<lambda>_. Some contact_template) secret_manager ''a@b'' ''contact'' []) = pre @ post \<and>
     CAuth ''u'' ''p'' ''mail.example.com'' \<notin> set pre \<and> list_ex encrypts pre"
proof -
  have "CAuth ''u'' ''p'' ''mail.example.com'' \<in>
      set (snd (send_email willing_server (\<lambda>_. None) (\<lambda>_. Some contact_template) secret_manager ''a@b'' ''contact'' []))"
    by code_simp
  from password_encrypted [OF this] have "local_host (addr_host (smtp_addr secret_manager)) \<or> ?thesis" .
  moreover have "\<not> local_host (addr_host (smtp_addr secret_manager))" by code_simp
  ultimately show ?thesis by blast
qed

theorem render_by_name_witness:
  "render_template (pieces_text [Plain ''Hello '', Hole ''name'', Plain ''!'']) [(''b'', ''x''), (''name'', ''Ann'')] = ''Hello Ann!''"
proof -
  have "list_all piece_ok [Plain ''Hello '', Hole ''name'', Plain ''!'']"
    "list_all (\<lambda>(k, v). no_braces k \<and> no_braces v) [(''name'', ''Ann''), (''b'', ''x'')]"
    "distinct (map fst [(''name'', ''Ann''), (''b'', ''x'')])"
    "mset [(''name'', ''Ann''), (''b'', ''x'')] = mset [(''b'', ''x''), (''name'', ''Ann'')]"
    by (code_simp, code_simp, code_simp, simp)
  from render_by_name [OF this] show ?thesis by simp
qed

theorem message_headers_witness:
  "cut_at (mail_eol @ mail_eol) (mail_message local_manager ''a@b'' ''Hi'' ''text'') =
     Some (join mail_eol (mail_headers local_manager ''a@b'' ''Hi''), ''text'')"
  by (rule message_headers; code_simp)

subsection \<open>Start-up\<close>

record smtp_settings =
  ss_host :: string
  ss_port :: int
  ss_user :: string
  ss_pass :: string
  ss_tls :: string
  ss_fromName :: string
  ss_fromEmail :: string

definition setup_email ::
    "(string \<Rightarrow> string) \<Rightarrow> (string \<Rightarrow> int \<Rightarrow> bool) \<Rightarrow> string \<Rightarrow> string \<Rightarrow> string \<Rightarrow> string \<Rightarrow> smtp_settings \<Rightarrow> email_manager" where
  "setup_email getenv probe gateway fqdn globalIPv4 configDir cfg =
     (let em = new_email_manager configDir
      in if ss_host cfg \<noteq> [] then
           (let em' = email_configure getenv (ss_host cfg) (ss_port cfg) (ss_user cfg) (ss_pass cfg) (ss_tls cfg)
                        (ss_fromName cfg) (ss_fromEmail cfg) em
            in case test_connection probe em' of Some e \<Rightarrow> em_disable em' | None \<Rightarrow> em_enable em')
         else
           (case auto_detect_smtp probe gateway fqdn globalIPv4 em of
              (True, em') \<Rightarrow> em_enable em'
            | (False, em') \<Rightarrow> em'))"

lemma find_host_port_probe: "find_host_port probe hps = Some (h, p) \<Longrightarrow> probe h p \<and> (h, p) \<in> set hps"
  by (induction hps) (auto split: if_splits)

text \<open>
  After the start, messages are sent only when a server answered on the host and port that are used:
  the configured one, or one of the places searched.
\<close>
theorem email_enabled_reachable:
  assumes em: "em = setup_email getenv probe gateway fqdn ip dir cfg" and on: "em_enabled em"
  shows "em_host em \<noteq> [] \<longrightarrow> probe (em_host em) (em_port em) \<and>
    (ss_host cfg = [] \<longrightarrow> em_host em \<in> set (smtp_hosts gateway fqdn ip) \<and> em_port em \<in> set smtp_ports)"
proof (cases "ss_host cfg = []")
  case True
  obtain b em' where auto: "auto_detect_smtp probe gateway fqdn ip (new_email_manager dir) = (b, em')" by fastforce
  have b: b and eq: "em = em_enable em'"
    using on True auto unfolding em
    by (auto simp: setup_email_def Let_def auto_detect_smtp_def new_email_manager_def split: option.splits bool.splits if_splits)
  obtain h p where hp: "find_host_port probe (concat (map (\<lambda>h. map (\<lambda>p. (h, p)) smtp_ports) (smtp_hosts gateway fqdn ip))) = Some (h, p)"
    "em_host em' = h" "em_port em' = p"
    using auto b by (auto simp: auto_detect_smtp_def split: option.splits)
  from find_host_port_probe [OF hp(1)] show ?thesis unfolding eq by (auto simp: em_enable_def hp)
next
  case False
  then show ?thesis
    using on unfolding em by (auto simp: setup_email_def Let_def test_connection_def em_enable_def em_disable_def split: if_splits)
qed

definition no_settings :: smtp_settings where
  "no_settings = \<lparr>ss_host = [], ss_port = 0, ss_user = [], ss_pass = [], ss_tls = [], ss_fromName = [], ss_fromEmail = []\<rparr>"

definition docker_manager :: email_manager where
  "docker_manager = setup_email (\<lambda>_. []) (\<lambda>h p. h = ''172.17.0.1'') [] [] [] ''/etc'' no_settings"

theorem email_enabled_reachable_witness:
  "em_host docker_manager = ''172.17.0.1'' \<and> em_port docker_manager \<in> set smtp_ports"
proof -
  have "em_enabled docker_manager" "em_host docker_manager \<noteq> []" "ss_host no_settings = []" by code_simp+
  with email_enabled_reachable [OF docker_manager_def] show ?thesis by simp
qed

text \<open>Without a host in the configuration the environment is not looked at.\<close>

theorem smtp_environment_ignored:
  "ss_host cfg = [] \<Longrightarrow>
   setup_email getenv probe gateway fqdn ip dir cfg = setup_email getenv' probe gateway fqdn ip dir cfg"
  by (simp add: setup_email_def)

end
