(* ===== verification/Settings.thy ===== *)
theory Settings
  imports Paths Texts "HOL-Library.Sublist"
begin

text \<open>
  The settings of the server (\<open>src/src/config/config.go\<close>, \<open>src/src/config/generate.go\<close>) and the mode it runs
  in (\<open>src/src/mode/mode.go\<close>). A value of a Go struct is the list of its fields, each with its name, its tag, whether it
  is exported, and its value; the fields of \<open>ServerConfig\<close> are those of the source. YAML, the environment, random
  texts and the outcome of every operation on files are parameters.
\<close>

subsection \<open>Values of structs\<close>

datatype go_value =
    GInt int
  | GBool bool
  | GStr string
  | GOther string    \<comment> \<open>any other value, as \<open>%v\<close> prints it\<close>
  | GStruct "(string \<times> string \<times> bool \<times> go_value) list"

type_synonym fields = "(string \<times> string \<times> bool \<times> go_value) list"

fun go_text :: "go_value \<Rightarrow> string" where
  "go_text (GInt i) = itoa_int i"
| "go_text (GBool b) = (if b then ''true'' else ''false'')"
| "go_text (GStr s) = s"
| "go_text (GOther s) = s"
| "go_text (GStruct fs) = []"

fun get_path :: "string list \<Rightarrow> fields \<Rightarrow> go_value option" where
  "get_path p [] = None"
| "get_path p ((n, t, e, v) # fs) =
     (case p of
        [] \<Rightarrow> None
      | m # q \<Rightarrow>
          if n \<noteq> m then get_path p fs
          else if q = [] then Some v
          else (case v of GStruct gs \<Rightarrow> get_path q gs | _ \<Rightarrow> None))"

fun set_path :: "string list \<Rightarrow> go_value \<Rightarrow> fields \<Rightarrow> fields" where
  "set_path p x [] = []"
| "set_path p x ((n, t, e, v) # fs) =
     (case p of
        [] \<Rightarrow> (n, t, e, v) # fs
      | m # q \<Rightarrow>
          if n \<noteq> m then (n, t, e, v) # set_path p x fs
          else if q = [] then (n, t, e, x) # fs
          else (case v of GStruct gs \<Rightarrow> (n, t, e, GStruct (set_path q x gs)) # fs | _ \<Rightarrow> (n, t, e, v) # fs))"

definition str_of :: "string list \<Rightarrow> fields \<Rightarrow> string" where
  "str_of p cfg = (case get_path p cfg of Some (GStr s) \<Rightarrow> s | _ \<Rightarrow> [])"

definition int_of :: "string list \<Rightarrow> fields \<Rightarrow> int" where
  "int_of p cfg = (case get_path p cfg of Some (GInt i) \<Rightarrow> i | _ \<Rightarrow> 0)"

definition bool_of :: "string list \<Rightarrow> fields \<Rightarrow> bool" where
  "bool_of p cfg = (case get_path p cfg of Some (GBool b) \<Rightarrow> b | _ \<Rightarrow> False)"

text \<open>The fields of \<open>ServerConfig\<close>: name, tag, and whether it is a struct.\<close>

definition server_fields :: "(string \<times> string \<times> bool) list" where
  "server_fields =
     [(''Port'', ''port'', False), (''Address'', ''address'', False), (''Mode'', ''mode'', False), (''FQDN'', ''fqdn'', False),
      (''Daemonize'', ''daemonize'', False), (''PIDFile'', ''pidfile'', False), (''APIVersion'', ''api_version'', False),
      (''User'', ''user'', False), (''Group'', ''group'', False), (''BaseURL'', ''baseurl'', False),
      (''ConfigDir'', ''config_dir'', False), (''DataDir'', ''data_dir'', False), (''LogDir'', ''log_dir'', False),
      (''CacheDir'', ''cache_dir'', False), (''Database'', ''database'', True), (''Branding'', ''branding'', True),
      (''TLS'', ''ssl'', True), (''CSRF'', ''csrf'', True), (''Cors'', ''cors'', True), (''Web'', ''-'', True),
      (''Limits'', ''limits'', True), (''Compression'', ''compression'', True), (''TrustedProxies'', ''trusted_proxies'', True),
      (''I18n'', ''i18n'', True), (''RateLimit'', ''rate_limit'', True), (''GeoIP'', ''geoip'', True),
      (''Metrics'', ''metrics'', True), (''Backup'', ''backup'', True), (''Compliance'', ''compliance'', True),
      (''Update'', ''update'', True), (''Tor'', ''tor'', True), (''Maintenance'', ''maintenance'', True),
      (''Privacy'', ''privacy'', True), (''Cache'', ''cache'', True), (''Notifications'', ''notifications'', True),
      (''Contact'', ''contact'', True), (''Tracking'', ''tracking'', True), (''Logs'', ''logs'', True),
      (''Scheduler'', ''scheduler'', True), (''Healthz'', ''healthz'', True), (''ReverseWHOIS'', ''reverse_whois'', True),
      (''Pages'', ''pages'', True), (''Debug'', ''debug'', False), (''ServerToken'', ''token'', False),
      (''InstallationSecret'', ''installation_secret'', False)]"

fun is_struct :: "go_value \<Rightarrow> bool" where
  "is_struct (GStruct fs) \<longleftrightarrow> True"
| "is_struct _ \<longleftrightarrow> False"

definition server_config :: "fields \<Rightarrow> bool" where
  "server_config cfg \<longleftrightarrow> map (\<lambda>(n, t, e, v). (n, t, e, is_struct v)) cfg = map (\<lambda>(n, t, s). (n, t, True, s)) server_fields"

subsection \<open>Validation\<close>

definition fix_int :: "string list \<Rightarrow> (int \<Rightarrow> bool) \<Rightarrow> int \<Rightarrow> fields \<Rightarrow> fields" where
  "fix_int p bad d cfg = (if bad (int_of p cfg) then set_path p (GInt d) cfg else cfg)"

definition fix_str :: "string list \<Rightarrow> (string \<Rightarrow> bool) \<Rightarrow> string \<Rightarrow> fields \<Rightarrow> fields" where
  "fix_str p bad d cfg = (if bad (str_of p cfg) then set_path p (GStr d) cfg else cfg)"

definition validate_config :: "fields \<Rightarrow> fields" where
  "validate_config cfg =
     (let cfg = fix_int [''Port''] (\<lambda>n. n < 0 \<or> 65535 < n) 0 cfg;
          cfg = fix_str [''Mode''] (\<lambda>m. m \<noteq> [] \<and> m \<noteq> ''production'' \<and> m \<noteq> ''development'') ''production'' cfg;
          cfg = fix_int [''Backup'', ''Retention'', ''MaxBackups''] (\<lambda>n. n \<le> 0) 1 cfg;
          cfg = fix_int [''Backup'', ''Retention'', ''KeepWeekly''] (\<lambda>n. n < 0) 0 cfg;
          cfg = fix_int [''Backup'', ''Retention'', ''KeepMonthly''] (\<lambda>n. n < 0) 0 cfg;
          cfg = fix_int [''Backup'', ''Retention'', ''KeepYearly''] (\<lambda>n. n < 0) 0 cfg;
          cfg = fix_str [''Update'', ''Branch''] (\<lambda>b. b \<noteq> ''stable'' \<and> b \<noteq> ''beta'' \<and> b \<noteq> ''daily'') ''stable'' cfg;
          cfg = fix_int [''Update'', ''DeferDays''] (\<lambda>n. n < 0 \<or> 365 < n) 0 cfg
      in fix_str [''APIVersion''] (\<lambda>v. v = []) ''v1'' cfg)"

subsection \<open>Loading\<close>

text \<open>The two files of the directory, and which operations succeed.\<close>

record conf_files =
  cf_yml :: "string option"
  cf_yaml :: "string option"

record conf_io =
  ci_rename :: bool
  ci_mkdir :: bool
  ci_read :: bool
  ci_write :: bool
  ci_env :: "string \<Rightarrow> string"
  ci_parse :: "string \<Rightarrow> fields option"        \<comment> \<open>the file laid over the defaults\<close>
  ci_marshal :: "fields \<Rightarrow> string option"
  ci_template :: "int \<Rightarrow> string \<Rightarrow> string \<Rightarrow> string"
  ci_port :: "int option"                     \<comment> \<open>random texts, \<open>None\<close> where the source fails\<close>
  ci_token :: "string option"
  ci_secret :: "string option"

datatype conf_error =
    NoConfigDir | MigrateFailed | GenerateFailed conf_error | ReadConfigFailed | ParseConfigFailed
  | TokenFailed | SecretFailed | MkdirConfigFailed | MarshalFailed | WriteConfigFailed

text \<open>\<open>server.yml\<close> is left alone when it is there.\<close>

definition generate_default_config :: "conf_io \<Rightarrow> conf_files \<Rightarrow> conf_error option \<times> conf_files" where
  "generate_default_config io fs =
     (if cf_yml fs \<noteq> None then (None, fs)
      else if \<not> ci_mkdir io then (Some MkdirConfigFailed, fs)
      else case ci_token io of
             None \<Rightarrow> (Some TokenFailed, fs)
           | Some tok \<Rightarrow>
               (case ci_secret io of
                  None \<Rightarrow> (Some SecretFailed, fs)
                | Some secret \<Rightarrow>
                    if \<not> ci_write io then (Some WriteConfigFailed, fs)
                    else (None, fs\<lparr>cf_yml := Some (ci_template io (opt_or (ci_port io) 64580) tok secret)\<rparr>)))"

text \<open>The list of origins is filled in when it is empty; the list is printed as \<open>[]\<close>.\<close>

definition with_origins :: "fields \<Rightarrow> fields" where
  "with_origins cfg =
     (if get_path [''Cors'', ''AllowedOrigins''] cfg = Some (GOther ''[]'')
      then set_path [''Cors'', ''AllowedOrigins''] (GOther ''[*]'') cfg else cfg)"

definition save_config :: "conf_io \<Rightarrow> string \<Rightarrow> fields \<Rightarrow> conf_files \<Rightarrow> conf_error option \<times> conf_files" where
  "save_config io configDir cfg fs =
     (let dir = (if configDir = [] then str_of [''ConfigDir''] cfg else configDir)
      in if dir = [] then (Some NoConfigDir, fs)
         else if \<not> ci_mkdir io then (Some MkdirConfigFailed, fs)
         else case ci_marshal io (with_origins cfg) of
                None \<Rightarrow> (Some MarshalFailed, fs)
              | Some d \<Rightarrow> if \<not> ci_write io then (Some WriteConfigFailed, fs) else (None, fs\<lparr>cf_yml := Some d\<rparr>))"

definition fill_secret ::
    "string \<Rightarrow> string option \<Rightarrow> conf_error \<Rightarrow> conf_io \<Rightarrow> string \<Rightarrow> fields \<times> conf_files \<Rightarrow> conf_error + fields \<times> conf_files" where
  "fill_secret field random err io configDir = (\<lambda>(cfg, fs).
     (if str_of [field] cfg \<noteq> [] then Inr (cfg, fs)
      else case random of
             None \<Rightarrow> Inl err
           | Some r \<Rightarrow>
               (let cfg' = set_path [field] (GStr r) cfg
                in Inr (cfg', snd (save_config io configDir cfg' fs)))))"

definition migrate_legacy :: "conf_io \<Rightarrow> conf_files \<Rightarrow> conf_error + conf_files" where
  "migrate_legacy io fs =
     (if cf_yml fs = None \<and> cf_yaml fs \<noteq> None then
        (if ci_rename io then Inr (fs\<lparr>cf_yml := cf_yaml fs, cf_yaml := None\<rparr>) else Inl MigrateFailed)
      else Inr fs)"

definition env_overrides :: "conf_io \<Rightarrow> string \<Rightarrow> fields \<Rightarrow> fields" where
  "env_overrides io configDir cfg =
     (let cfg = (if ci_env io ''MODE'' \<noteq> [] then set_path [''Mode''] (GStr (ci_env io ''MODE'')) cfg else cfg);
          cfg = (if ci_env io ''DEBUG'' \<in> {''1'', ''true'', ''yes''} then set_path [''Debug''] (GBool True) cfg else cfg)
      in if str_of [''ConfigDir''] cfg = [] then set_path [''ConfigDir''] (GStr configDir) cfg else cfg)"

text \<open>The result, and the files as they are afterwards.\<close>

definition load_server_config :: "conf_io \<Rightarrow> string \<Rightarrow> conf_files \<Rightarrow> (conf_error + fields) \<times> conf_files" where
  "load_server_config io configDir fs =
     (if configDir = [] then (Inl NoConfigDir, fs)
      else case migrate_legacy io fs of
             Inl e \<Rightarrow> (Inl e, fs)
           | Inr fs1 \<Rightarrow>
               (case generate_default_config io fs1 of
                  (Some e, fs2) \<Rightarrow> (Inl (GenerateFailed e), fs2)
                | (None, fs2) \<Rightarrow>
                    (case cf_yml fs2 of
                       None \<Rightarrow> (Inl ReadConfigFailed, fs2)
                     | Some d \<Rightarrow>
                         if \<not> ci_read io then (Inl ReadConfigFailed, fs2)
                         else case ci_parse io d of
                                None \<Rightarrow> (Inl ParseConfigFailed, fs2)
                              | Some cfg0 \<Rightarrow>
                                  (case fill_secret ''ServerToken'' (ci_token io) TokenFailed io configDir (env_overrides io configDir cfg0, fs2) of
                                     Inl e \<Rightarrow> (Inl e, fs2)
                                   | Inr (cfg1, fs3) \<Rightarrow>
                                       (case fill_secret ''InstallationSecret'' (ci_secret io) SecretFailed io configDir (cfg1, fs3) of
                                          Inl e \<Rightarrow> (Inl e, fs3)
                                        | Inr (cfg2, fs4) \<Rightarrow> (Inr (validate_config cfg2), fs4))))))"

subsection \<open>Laws of paths\<close>

lemma get_set_same: "get_path p c \<noteq> None \<Longrightarrow> get_path p (set_path p x c) = Some x"
  by (induction p c rule: get_path.induct) (auto split: list.splits if_splits go_value.splits)

lemma get_set_other: "p \<parallel> q \<Longrightarrow> get_path q (set_path p x c) = get_path q c"
proof (induction p x c arbitrary: q rule: set_path.induct)
  case (2 p x n t e v fs)
  show ?case
  proof (cases p)
    case (Cons m r)
    then obtain k s where q: "q = k # s" using "2.prems" by (cases q) auto
    show ?thesis
    proof (cases "n = m")
      case True
      show ?thesis
      proof (cases "k = m")
        case km: True
        then have "r \<parallel> s" using "2.prems" Cons q by (auto simp: parallel_def)
        moreover from this have "r \<noteq> []" "s \<noteq> []" by auto
        ultimately show ?thesis
          using "2.IH"(2) [OF Cons, of _ s] True km Cons q by (cases v) auto
      next
        case False
        with True Cons q show ?thesis by (cases v) auto
      qed
    next
      case False
      with "2.IH"(1) [OF Cons, of q] Cons "2.prems" q show ?thesis by auto
    qed
  qed (use "2.prems" in auto)
qed simp

lemmas path_values = str_of_def int_of_def bool_of_def

subsection \<open>Validation as a list of repairs\<close>

datatype repair = RepairInt "string list" "int \<Rightarrow> bool" int | RepairStr "string list" "string \<Rightarrow> bool" string

fun repair_path :: "repair \<Rightarrow> string list" where
  "repair_path (RepairInt p bad d) = p"
| "repair_path (RepairStr p bad d) = p"

fun apply_repair :: "repair \<Rightarrow> fields \<Rightarrow> fields" where
  "apply_repair (RepairInt p bad d) = fix_int p bad d"
| "apply_repair (RepairStr p bad d) = fix_str p bad d"

fun repair_typed :: "repair \<Rightarrow> fields \<Rightarrow> bool" where
  "repair_typed (RepairInt p bad d) c \<longleftrightarrow> (case get_path p c of Some (GInt i) \<Rightarrow> True | _ \<Rightarrow> False)"
| "repair_typed (RepairStr p bad d) c \<longleftrightarrow> (case get_path p c of Some (GStr s) \<Rightarrow> True | _ \<Rightarrow> False)"

fun repaired :: "repair \<Rightarrow> fields \<Rightarrow> bool" where
  "repaired (RepairInt p bad d) c \<longleftrightarrow> \<not> bad (int_of p c)"
| "repaired (RepairStr p bad d) c \<longleftrightarrow> \<not> bad (str_of p c)"

fun repair_sane :: "repair \<Rightarrow> bool" where
  "repair_sane (RepairInt p bad d) \<longleftrightarrow> \<not> bad d"
| "repair_sane (RepairStr p bad d) \<longleftrightarrow> \<not> bad d"

definition validate_repairs :: "repair list" where
  "validate_repairs =
     [RepairInt [''Port''] (\<lambda>n. n < 0 \<or> 65535 < n) 0,
      RepairStr [''Mode''] (\<lambda>m. m \<noteq> [] \<and> m \<noteq> ''production'' \<and> m \<noteq> ''development'') ''production'',
      RepairInt [''Backup'', ''Retention'', ''MaxBackups''] (\<lambda>n. n \<le> 0) 1,
      RepairInt [''Backup'', ''Retention'', ''KeepWeekly''] (\<lambda>n. n < 0) 0,
      RepairInt [''Backup'', ''Retention'', ''KeepMonthly''] (\<lambda>n. n < 0) 0,
      RepairInt [''Backup'', ''Retention'', ''KeepYearly''] (\<lambda>n. n < 0) 0,
      RepairStr [''Update'', ''Branch''] (\<lambda>b. b \<noteq> ''stable'' \<and> b \<noteq> ''beta'' \<and> b \<noteq> ''daily'') ''stable'',
      RepairInt [''Update'', ''DeferDays''] (\<lambda>n. n < 0 \<or> 365 < n) 0,
      RepairStr [''APIVersion''] (\<lambda>v. v = []) ''v1'']"

lemma validate_config_repairs: "validate_config cfg = foldl (\<lambda>c r. apply_repair r c) cfg validate_repairs"
  by (simp add: validate_config_def validate_repairs_def Let_def)

lemma apply_repair_other: "repair_path r \<parallel> q \<Longrightarrow> get_path q (apply_repair r c) = get_path q c"
  by (cases r) (simp_all add: fix_int_def fix_str_def get_set_other)

lemma repair_view:
  "get_path (repair_path r) c = get_path (repair_path r) c' \<Longrightarrow> repaired r c = repaired r c' \<and> repair_typed r c = repair_typed r c'"
  by (cases r) (simp_all add: path_values)

lemma apply_repair_self: "repair_typed r c \<Longrightarrow> repair_sane r \<Longrightarrow> repaired r (apply_repair r c)"
  by (cases r) (auto simp: fix_int_def fix_str_def path_values get_set_same split: option.splits go_value.splits)

lemma apply_repair_id: "repaired r c \<Longrightarrow> apply_repair r c = c"
  by (cases r) (simp_all add: fix_int_def fix_str_def)

definition parallel_paths :: "string list list \<Rightarrow> bool" where
  "parallel_paths ps \<longleftrightarrow> sorted_wrt (\<lambda>p q. p \<parallel> q) ps"

lemma repairs_other:
  "\<forall>r\<in>set rs. repair_path r \<parallel> q \<Longrightarrow> get_path q (foldl (\<lambda>c r. apply_repair r c) c rs) = get_path q c"
  by (induction rs arbitrary: c) (simp_all add: apply_repair_other)

lemma repairs_sound:
  assumes "parallel_paths (map repair_path rs)" "list_all repair_sane rs" "list_all (\<lambda>r. repair_typed r c) rs"
  shows "(\<forall>r\<in>set rs. repaired r (foldl (\<lambda>c r. apply_repair r c) c rs)) \<and>
    (\<forall>q. (\<forall>r\<in>set rs. repair_path r \<parallel> q) \<longrightarrow> get_path q (foldl (\<lambda>c r. apply_repair r c) c rs) = get_path q c)"
  using assms
proof (induction rs arbitrary: c)
  case (Cons r rs)
  let ?c = "apply_repair r c"
  have par: "\<forall>s\<in>set rs. repair_path r \<parallel> repair_path s" "parallel_paths (map repair_path rs)"
    using Cons.prems(1) by (simp_all add: parallel_paths_def)
  have "list_all (\<lambda>s. repair_typed s ?c) rs"
    using Cons.prems(3) par(1) repair_view apply_repair_other unfolding list_all_iff by (metis list.set_intros(2))
  note IH = Cons.IH [OF par(2) _ this]
  have sane: "list_all repair_sane rs" using Cons.prems(2) by simp
  have "repaired r ?c" using apply_repair_self Cons.prems(2,3) by simp
  moreover have "get_path (repair_path r) (foldl (\<lambda>c r. apply_repair r c) ?c rs) = get_path (repair_path r) ?c"
    using IH [OF sane] par(1) parallel_commute by blast
  ultimately have "repaired r (foldl (\<lambda>c r. apply_repair r c) ?c rs)" using repair_view by blast
  then show ?case using IH [OF sane] apply_repair_other by auto
qed simp

lemma repairs_id: "\<forall>r\<in>set rs. repaired r c \<Longrightarrow> foldl (\<lambda>c r. apply_repair r c) c rs = c"
  by (induction rs) (simp_all add: apply_repair_id)

lemma validate_repairs_ok: "parallel_paths (map repair_path validate_repairs)" "list_all repair_sane validate_repairs"
  by (simp_all add: parallel_paths_def validate_repairs_def parallel_def)

definition settings_typed :: "fields \<Rightarrow> bool" where
  "settings_typed cfg \<longleftrightarrow> list_all (\<lambda>r. repair_typed r cfg) validate_repairs"

definition settings_in_range :: "fields \<Rightarrow> bool" where
  "settings_in_range cfg \<longleftrightarrow>
     0 \<le> int_of [''Port''] cfg \<and> int_of [''Port''] cfg \<le> 65535 \<and>
     str_of [''Mode''] cfg \<in> {[], ''production'', ''development''} \<and>
     1 \<le> int_of [''Backup'', ''Retention'', ''MaxBackups''] cfg \<and>
     0 \<le> int_of [''Backup'', ''Retention'', ''KeepWeekly''] cfg \<and>
     0 \<le> int_of [''Backup'', ''Retention'', ''KeepMonthly''] cfg \<and>
     0 \<le> int_of [''Backup'', ''Retention'', ''KeepYearly''] cfg \<and>
     str_of [''Update'', ''Branch''] cfg \<in> {''stable'', ''beta'', ''daily''} \<and>
     0 \<le> int_of [''Update'', ''DeferDays''] cfg \<and> int_of [''Update'', ''DeferDays''] cfg \<le> 365 \<and>
     str_of [''APIVersion''] cfg \<noteq> []"

lemma in_range_repaired: "settings_in_range cfg \<longleftrightarrow> (\<forall>r\<in>set validate_repairs. repaired r cfg)"
  by (auto simp: settings_in_range_def validate_repairs_def)

subsection \<open>Properties of validation\<close>

text \<open>
  Validation brings every setting it looks at into its range, leaves a configuration in range as it is,
  and touches no other setting.
\<close>
theorem validate_config_repairs_all:
  assumes "settings_typed cfg"
  shows "settings_in_range (validate_config cfg) \<and> (settings_in_range cfg \<longrightarrow> validate_config cfg = cfg) \<and>
    (\<forall>q. (\<forall>r\<in>set validate_repairs. repair_path r \<parallel> q) \<longrightarrow> get_path q (validate_config cfg) = get_path q cfg)"
  using repairs_sound [OF validate_repairs_ok] assms repairs_id [of validate_repairs cfg]
  unfolding settings_typed_def in_range_repaired validate_config_repairs by blast

subsection \<open>Lemmas: loading\<close>

definition secrets_of :: "fields \<Rightarrow> string \<times> string" where
  "secrets_of c = (str_of [''ServerToken''] c, str_of [''InstallationSecret''] c)"

definition secrets_typed :: "fields \<Rightarrow> bool" where
  "secrets_typed c \<longleftrightarrow> (\<exists>s. get_path [''ServerToken''] c = Some (GStr s)) \<and> (\<exists>s. get_path [''InstallationSecret''] c = Some (GStr s))"

lemma other_field: "m \<noteq> n \<Longrightarrow> get_path [n] (set_path (m # q) x c) = get_path [n] c"
  by (intro get_set_other) (simp add: parallel_def)

lemma set_path_secrets:
  "m \<notin> {''ServerToken'', ''InstallationSecret''} \<Longrightarrow>
   secrets_of (set_path (m # q) x c) = secrets_of c \<and> secrets_typed (set_path (m # q) x c) = secrets_typed c"
  by (simp add: secrets_of_def secrets_typed_def str_of_def other_field)

lemma env_overrides_secrets:
  "secrets_of (env_overrides io dir c) = secrets_of c \<and> secrets_typed (env_overrides io dir c) = secrets_typed c"
  by (simp add: env_overrides_def Let_def set_path_secrets)

lemma with_origins_secrets: "secrets_of (with_origins c) = secrets_of c"
  by (simp add: with_origins_def set_path_secrets)

lemma validate_secrets: "secrets_of (validate_config c) = secrets_of c"
proof -
  have "get_path [f] (validate_config c) = get_path [f] c" if "f = ''ServerToken'' \<or> f = ''InstallationSecret''" for f
    unfolding validate_config_repairs
    by (rule repairs_other) (use that in \<open>auto simp: validate_repairs_def parallel_def\<close>)
  then show ?thesis by (simp add: secrets_of_def str_of_def)
qed

text \<open>The file holds the secrets of the configuration.\<close>

definition stored :: "conf_io \<Rightarrow> conf_files \<Rightarrow> fields \<Rightarrow> bool" where
  "stored io fs cfg \<longleftrightarrow> (\<exists>d c. cf_yml fs = Some d \<and> ci_parse io d = Some c \<and> secrets_of c = secrets_of cfg)"

text \<open>A disk that takes what is written, and a codec that reads it back.\<close>

definition io_sound :: "conf_io \<Rightarrow> bool" where
  "io_sound io \<longleftrightarrow> ci_mkdir io \<and> ci_write io \<and> ci_read io \<and>
     (\<forall>c. \<exists>d c'. ci_marshal io c = Some d \<and> ci_parse io d = Some c' \<and> secrets_of c' = secrets_of c) \<and>
     (\<forall>d c. ci_parse io d = Some c \<longrightarrow> secrets_typed c) \<and> ci_token io \<noteq> Some [] \<and> ci_secret io \<noteq> Some []"

lemma save_stored:
  assumes "io_sound io" "dir \<noteq> []"
  shows "stored io (snd (save_config io dir cfg fs)) cfg"
proof -
  obtain d c' where d: "ci_marshal io (with_origins cfg) = Some d" "ci_parse io d = Some c'"
      "secrets_of c' = secrets_of (with_origins cfg)"
    using assms(1) unfolding io_sound_def by blast
  have "cf_yml (snd (save_config io dir cfg fs)) = Some d"
    using assms d by (simp add: save_config_def io_sound_def)
  with d show ?thesis unfolding stored_def using with_origins_secrets by metis
qed

lemma fill_token:
  assumes "fill_secret ''ServerToken'' (ci_token io) e io dir (cfg, fs) = Inr (cfg', fs')"
    and "io_sound io" "dir \<noteq> []" "secrets_typed cfg" "stored io fs cfg"
  shows "fst (secrets_of cfg') \<noteq> [] \<and> secrets_typed cfg' \<and> stored io fs' cfg'"
proof (cases "str_of [''ServerToken''] cfg = []")
  case True
  then obtain t where t: "ci_token io = Some t" "cfg' = set_path [''ServerToken''] (GStr t) cfg"
      "fs' = snd (save_config io dir cfg' fs)"
    using assms(1) by (auto simp: fill_secret_def Let_def split: option.splits)
  have "get_path [''ServerToken''] cfg' = Some (GStr t)"
    unfolding t(2) using assms(4) by (intro get_set_same) (auto simp: secrets_typed_def)
  moreover have "get_path [''InstallationSecret''] cfg' = get_path [''InstallationSecret''] cfg"
    unfolding t(2) by (rule other_field) simp
  moreover have "t \<noteq> []" using assms(2) t(1) by (auto simp: io_sound_def)
  ultimately show ?thesis
    using assms(4) save_stored [OF assms(2,3)] t(3) by (auto simp: secrets_of_def secrets_typed_def str_of_def)
next
  case False
  with assms show ?thesis by (auto simp: fill_secret_def secrets_of_def)
qed

lemma fill_installation:
  assumes "fill_secret ''InstallationSecret'' (ci_secret io) e io dir (cfg, fs) = Inr (cfg', fs')"
    and "io_sound io" "dir \<noteq> []" "secrets_typed cfg" "stored io fs cfg"
  shows "snd (secrets_of cfg') \<noteq> [] \<and> fst (secrets_of cfg') = fst (secrets_of cfg) \<and> stored io fs' cfg'"
proof (cases "str_of [''InstallationSecret''] cfg = []")
  case True
  then obtain t where t: "ci_secret io = Some t" "cfg' = set_path [''InstallationSecret''] (GStr t) cfg"
      "fs' = snd (save_config io dir cfg' fs)"
    using assms(1) by (auto simp: fill_secret_def Let_def split: option.splits)
  have "get_path [''InstallationSecret''] cfg' = Some (GStr t)"
    unfolding t(2) using assms(4) by (intro get_set_same) (auto simp: secrets_typed_def)
  moreover have "get_path [''ServerToken''] cfg' = get_path [''ServerToken''] cfg"
    unfolding t(2) by (rule other_field) simp
  moreover have "t \<noteq> []" using assms(2) t(1) by (auto simp: io_sound_def)
  ultimately show ?thesis
    using save_stored [OF assms(2,3)] t(3) by (auto simp: secrets_of_def str_of_def)
next
  case False
  with assms show ?thesis by (auto simp: fill_secret_def secrets_of_def)
qed

lemma load_steps:
  assumes "load_server_config io dir fs = (Inr cfg, fs')"
  obtains d fs2 cfg0 cfg1 fs3 cfg2 where "dir \<noteq> []" "cf_yml fs2 = Some d" "ci_parse io d = Some cfg0"
    "cf_yml fs \<noteq> None \<longrightarrow> fs2 = fs"
    "fill_secret ''ServerToken'' (ci_token io) TokenFailed io dir (env_overrides io dir cfg0, fs2) = Inr (cfg1, fs3)"
    "fill_secret ''InstallationSecret'' (ci_secret io) SecretFailed io dir (cfg1, fs3) = Inr (cfg2, fs')"
    "cfg = validate_config cfg2"
proof -
  have "dir \<noteq> []" using assms by (auto simp: load_server_config_def)
  moreover obtain fs1 where m: "migrate_legacy io fs = Inr fs1"
    using assms by (auto simp: load_server_config_def split: sum.splits if_splits)
  moreover obtain fs2 where g: "generate_default_config io fs1 = (None, fs2)"
    using assms m by (auto simp: load_server_config_def split: prod.splits option.splits if_splits)
  moreover have "cf_yml fs \<noteq> None \<longrightarrow> fs2 = fs"
    using m g by (auto simp: migrate_legacy_def generate_default_config_def split: if_splits)
  ultimately show thesis
    using assms that by (auto simp: load_server_config_def split: option.splits sum.splits prod.splits if_splits)
qed

lemma load_ready:
  assumes io: "io_sound io" and dir: "dir \<noteq> []" and yml: "cf_yml fs = Some d" and parse: "ci_parse io d = Some c"
    and full: "fst (secrets_of c) \<noteq> []" "snd (secrets_of c) \<noteq> []"
  shows "load_server_config io dir fs = (Inr (validate_config (env_overrides io dir c)), fs)"
proof -
  have m: "migrate_legacy io fs = Inr fs" "generate_default_config io fs = (None, fs)" "ci_read io"
    using yml io by (simp_all add: migrate_legacy_def generate_default_config_def io_sound_def)
  have "str_of [''ServerToken''] (env_overrides io dir c) \<noteq> []" "str_of [''InstallationSecret''] (env_overrides io dir c) \<noteq> []"
    using full env_overrides_secrets [of io dir c] by (simp_all add: secrets_of_def)
  then show ?thesis by (simp add: load_server_config_def dir m yml parse fill_secret_def)
qed

subsection \<open>Properties of loading\<close>

text \<open>
  C19: The token and the installation secret of a configuration that was loaded are neither empty nor lost: when
  files can be written, the next start finds the same two, whatever its environment and random numbers are, and writes nothing.
\<close>
theorem secrets_survive_restart:
  assumes io: "io_sound io" and load: "load_server_config io dir fs = (Inr cfg, fs')"
    and io': "io_sound io'" "ci_parse io' = ci_parse io"
  shows "str_of [''ServerToken''] cfg \<noteq> [] \<and> str_of [''InstallationSecret''] cfg \<noteq> [] \<and>
    (\<exists>cfg'. load_server_config io' dir fs' = (Inr cfg', fs') \<and>
       str_of [''ServerToken''] cfg' = str_of [''ServerToken''] cfg \<and>
       str_of [''InstallationSecret''] cfg' = str_of [''InstallationSecret''] cfg)"
proof -
  obtain d fs2 cfg0 cfg1 fs3 cfg2 where s: "dir \<noteq> []" "cf_yml fs2 = Some d" "ci_parse io d = Some cfg0"
    "fill_secret ''ServerToken'' (ci_token io) TokenFailed io dir (env_overrides io dir cfg0, fs2) = Inr (cfg1, fs3)"
    "fill_secret ''InstallationSecret'' (ci_secret io) SecretFailed io dir (cfg1, fs3) = Inr (cfg2, fs')"
    "cfg = validate_config cfg2"
    using load_steps [OF load] by metis
  have typed: "secrets_typed (env_overrides io dir cfg0)"
    using io s(3) env_overrides_secrets unfolding io_sound_def by blast
  have "stored io fs2 (env_overrides io dir cfg0)"
    unfolding stored_def using s(2,3) env_overrides_secrets by metis
  note t1 = fill_token [OF s(4) io s(1) typed this]
  note t2 = fill_installation [OF s(5) io s(1)]
  have sec: "fst (secrets_of cfg2) \<noteq> []" "snd (secrets_of cfg2) \<noteq> []" "stored io fs' cfg2"
    using t1 t2 by simp_all
  obtain d' c' where d': "cf_yml fs' = Some d'" "ci_parse io d' = Some c'" "secrets_of c' = secrets_of cfg2"
    using sec(3) unfolding stored_def by blast
  have "load_server_config io' dir fs' = (Inr (validate_config (env_overrides io' dir c')), fs')"
    using load_ready [OF io'(1) s(1) d'(1)] d' sec io'(2) by simp
  moreover have "secrets_of (validate_config (env_overrides io' dir c')) = secrets_of cfg"
    by (simp add: validate_secrets env_overrides_secrets d'(3) s(6))
  moreover have "secrets_of cfg = secrets_of cfg2" by (simp add: s(6) validate_secrets)
  ultimately show ?thesis using sec by (auto simp: secrets_of_def)
qed

text \<open>A flag of the environment is written to the file together with a new token, and stays.\<close>

theorem environment_persisted:
  assumes io: "io_sound io" "ci_env io ''DEBUG'' = ''1''" "ci_env io ''MODE'' = []" "ci_token io = Some t" "dir \<noteq> []"
    and c: "cf_yml fs = Some d" "ci_parse io d = Some c" "get_path [''Debug''] c = Some (GBool False)"
      "str_of [''ServerToken''] c = []" "str_of [''InstallationSecret''] c \<noteq> []"
    and codec: "\<forall>c. \<exists>d. ci_marshal io c = Some d \<and> ci_parse io d = Some c"
  shows "\<exists>d' c'. cf_yml (snd (load_server_config io dir fs)) = Some d' \<and> ci_parse io d' = Some c' \<and> bool_of [''Debug''] c'"
proof -
  let ?e = "env_overrides io dir c"
  let ?c1 = "set_path [''ServerToken''] (GStr t) ?e"
  have m: "migrate_legacy io fs = Inr fs" "generate_default_config io fs = (None, fs)" "ci_read io"
    using c io by (simp_all add: migrate_legacy_def generate_default_config_def io_sound_def)
  have e: "str_of [''ServerToken''] ?e = []" "str_of [''InstallationSecret''] ?e \<noteq> []"
    using c env_overrides_secrets [of io dir c] by (simp_all add: secrets_of_def)
  have "get_path [''Debug''] ?e = Some (GBool True)"
    using c(3) by (simp add: env_overrides_def Let_def io get_set_same other_field)
  then have dbg: "get_path [''Debug''] (with_origins ?c1) = Some (GBool True)"
    by (simp add: with_origins_def other_field)
  have i: "str_of [''InstallationSecret''] ?c1 \<noteq> []" using e(2) by (simp add: str_of_def other_field)
  obtain d' where d': "ci_marshal io (with_origins ?c1) = Some d'" "ci_parse io d' = Some (with_origins ?c1)"
    using codec by blast
  have "cf_yml (snd (load_server_config io dir fs)) = Some d'"
    using e i io d' by (simp add: load_server_config_def m c fill_secret_def Let_def save_config_def io_sound_def)
  with d' dbg show ?thesis by (auto simp: bool_of_def)
qed

subsection \<open>Directories\<close>

text \<open>
  \<open>jn\<close> is \<open>filepath.Join\<close> of the system, \<open>home\<close> the directory of the user, if it can be found.
\<close>

record system =
  sy_os :: string
  sy_root :: bool
  sy_home :: "string option"
  sy_env :: "string \<Rightarrow> string"
  sy_dockerenv :: bool
  sy_cgroup :: "string option"

fun config_has_substring :: "nat \<Rightarrow> string \<Rightarrow> string \<Rightarrow> bool" where
  "config_has_substring 0 s p \<longleftrightarrow> take (length p) s = p"
| "config_has_substring (Suc n) s p \<longleftrightarrow> take (length p) s = p \<or> config_has_substring n (tl s) p"

definition config_contains :: "string \<Rightarrow> string \<Rightarrow> bool" where
  "config_contains s p \<longleftrightarrow>
     length p \<le> length s \<and> (s = p \<or> length p < length s \<and> config_has_substring (length s - length p) s p)"

definition is_container :: "system \<Rightarrow> bool" where
  "is_container sy \<longleftrightarrow> sy_dockerenv sy \<or>
     (case sy_cgroup sy of
        None \<Rightarrow> False
      | Some t \<Rightarrow> t \<noteq> [] \<and> (config_contains t ''docker'' \<or> config_contains t ''lxc'' \<or> config_contains t ''kubepods''))"

definition windows_program_data :: "system \<Rightarrow> string" where
  "windows_program_data sy =
     (if sy_env sy ''ProgramData'' \<noteq> [] then sy_env sy ''ProgramData'' else ''C:'' @ [CHR 0x5C] @ ''ProgramData'')"

definition windows_local_app_data :: "(string list \<Rightarrow> string) \<Rightarrow> system \<Rightarrow> string" where
  "windows_local_app_data jn sy =
     (if sy_env sy ''LocalAppData'' \<noteq> [] then sy_env sy ''LocalAppData''
      else case sy_home sy of None \<Rightarrow> ''.'' | Some h \<Rightarrow> jn [h, ''AppData'', ''Local''])"

definition bsd :: "string \<Rightarrow> bool" where
  "bsd goos \<longleftrightarrow> goos \<in> {''freebsd'', ''openbsd'', ''netbsd''}"

definition in_home :: "system \<Rightarrow> string \<Rightarrow> (string \<Rightarrow> string) \<Rightarrow> string" where
  "in_home sy fallback f = (case sy_home sy of None \<Rightarrow> fallback | Some h \<Rightarrow> f h)"

definition get_database_dir :: "(string list \<Rightarrow> string) \<Rightarrow> system \<Rightarrow> fields \<Rightarrow> string" where
  "get_database_dir jn sy cfg =
     (let id = [''apimgr'', ''caswhois'', ''db'']
      in if str_of [''Database'', ''Dir''] cfg \<noteq> [] then str_of [''Database'', ''Dir''] cfg
         else if sy_env sy ''DATABASE_DIR'' \<noteq> [] then sy_env sy ''DATABASE_DIR''
         else if is_container sy then ''/data/db/sqlite''
         else if str_of [''DataDir''] cfg \<noteq> [] then jn [str_of [''DataDir''] cfg, ''db'']
         else if sy_os sy = ''windows'' then
           jn ((if sy_root sy then windows_program_data sy else windows_local_app_data jn sy) # id)
         else if sy_os sy = ''darwin'' then
           (if sy_root sy then jn ([''/Library'', ''Application Support''] @ id)
            else in_home sy ''./db'' (\<lambda>h. jn ([h, ''Library'', ''Application Support''] @ id)))
         else if bsd (sy_os sy) then
           (if sy_root sy then jn ([''/var'', ''db''] @ id)
            else in_home sy ''./db'' (\<lambda>h. jn ([h, ''.local'', ''share''] @ id)))
         else
           (if sy_root sy then ''/var/lib/apimgr/caswhois/db''
            else in_home sy ''./db'' (\<lambda>h. jn ([h, ''.local'', ''share''] @ id))))"

definition get_backup_dir :: "(string list \<Rightarrow> string) \<Rightarrow> system \<Rightarrow> fields \<Rightarrow> string" where
  "get_backup_dir jn sy cfg =
     (let id = [''apimgr'', ''caswhois'']
      in if str_of [''Backup'', ''Dir''] cfg \<noteq> [] then str_of [''Backup'', ''Dir''] cfg
         else if is_container sy then ''/data/backups/caswhois''
         else if sy_os sy = ''windows'' then
           jn ((if sy_root sy then windows_program_data sy else windows_local_app_data jn sy) # ''Backups'' # id)
         else if sy_os sy = ''darwin'' then
           (if sy_root sy then jn ([''/Library'', ''Backups''] @ id)
            else in_home sy ''./backups'' (\<lambda>h. jn ([h, ''Library'', ''Backups''] @ id)))
         else if bsd (sy_os sy) then
           (if sy_root sy then jn ([''/var'', ''backups''] @ id)
            else in_home sy ''./backups'' (\<lambda>h. jn ([h, ''.local'', ''share'', ''Backups''] @ id)))
         else
           (if sy_root sy then ''/mnt/Backups/apimgr/caswhois''
            else in_home sy ''./backups'' (\<lambda>h. jn ([h, ''.local'', ''share'', ''Backups''] @ id))))"

definition get_log_dir :: "(string list \<Rightarrow> string) \<Rightarrow> system \<Rightarrow> fields \<Rightarrow> string" where
  "get_log_dir jn sy cfg =
     (let id = [''apimgr'', ''caswhois'']
      in if str_of [''LogDir''] cfg \<noteq> [] then str_of [''LogDir''] cfg
         else if is_container sy then ''/data/log/caswhois''
         else if sy_os sy = ''windows'' then
           jn ((if sy_root sy then windows_program_data sy else windows_local_app_data jn sy) # id @ [''logs''])
         else if sy_os sy = ''darwin'' then
           (if sy_root sy then jn ([''/Library'', ''Logs''] @ id)
            else in_home sy ''./logs'' (\<lambda>h. jn ([h, ''Library'', ''Logs''] @ id)))
         else if bsd (sy_os sy) then
           (if sy_root sy then jn ([''/var'', ''log''] @ id)
            else in_home sy ''./logs'' (\<lambda>h. jn ([h, ''.local'', ''log''] @ id)))
         else
           (if sy_root sy then ''/var/log/apimgr/caswhois''
            else in_home sy ''./logs'' (\<lambda>h. jn ([h, ''.local'', ''log''] @ id))))"

text \<open>Driver, address and directory of the database.\<close>

definition get_database_config :: "(string list \<Rightarrow> string) \<Rightarrow> system \<Rightarrow> fields \<Rightarrow> string \<times> string \<times> string" where
  "get_database_config jn sy cfg =
     (let driver_or = (\<lambda>d. if d = [] then ''libsql'' else d)
      in if sy_env sy ''DATABASE_URL'' \<noteq> [] then (driver_or (sy_env sy ''DATABASE_DRIVER''), sy_env sy ''DATABASE_URL'', [])
         else if str_of [''Database'', ''URL''] cfg \<noteq> [] then
           (driver_or (str_of [''Database'', ''Driver''] cfg), str_of [''Database'', ''URL''] cfg, [])
         else (''sqlite'', [], get_database_dir jn sy cfg))"

lemma config_has_substring_iff: "config_has_substring n s p \<longleftrightarrow> (\<exists>k\<le>n. take (length p) (drop k s) = p)"
proof (induction n arbitrary: s)
  case (Suc n)
  have "(\<exists>k\<le>Suc n. take (length p) (drop k s) = p) \<longleftrightarrow>
      take (length p) s = p \<or> (\<exists>k\<le>n. take (length p) (drop (Suc k) s) = p)"
    using Suc_le_D by (metis Suc_le_mono drop0 le0 not0_implies_Suc)
  with Suc show ?case by (simp add: drop_Suc)
qed simp

text \<open>
  The substring test that the configuration has of its own is the one of the library.
\<close>
theorem config_contains_spec: "config_contains s p = contains_sub s p"
proof
  assume "config_contains s p"
  then have "s = p \<or> (\<exists>k. take (length p) (drop k s) = p)"
    unfolding config_contains_def config_has_substring_iff by blast
  then have "\<exists>k. take (length p) (drop k s) = p" by (metis drop0 order_refl take_all)
  then show "contains_sub s p" unfolding contains_sub_iff by (metis append_take_drop_id)
next
  assume "contains_sub s p"
  then obtain a b where s: "s = a @ p @ b" unfolding contains_sub_iff by blast
  then have "length a \<le> length s - length p" "take (length p) (drop (length a) s) = p" by simp_all
  then have "config_has_substring (length s - length p) s p" unfolding config_has_substring_iff by blast
  with s show "config_contains s p" by (cases "a = [] \<and> b = []") (auto simp: config_contains_def)
qed

subsection \<open>Modes\<close>

definition config_is_debug :: "(string \<Rightarrow> string) \<Rightarrow> fields \<Rightarrow> bool" where
  "config_is_debug env cfg \<longleftrightarrow> bool_of [''Debug''] cfg \<or> env ''DEBUG'' \<in> {''1'', ''true'', ''yes''}"

definition config_is_production :: "fields \<Rightarrow> bool" where
  "config_is_production cfg \<longleftrightarrow> str_of [''Mode''] cfg \<in> {[], ''production'', ''prod''}"

definition config_is_development :: "fields \<Rightarrow> bool" where
  "config_is_development cfg \<longleftrightarrow> str_of [''Mode''] cfg \<in> {''development'', ''dev''}"

datatype app_mode = Production | Development

text \<open>The mode and whether debugging is on; with it the profiling of the run-time.\<close>

record mode_state =
  md_mode :: app_mode
  md_debug :: bool
  md_profiling :: bool

fun app_mode_string :: "app_mode \<Rightarrow> string" where
  "app_mode_string Development = ''development''"
| "app_mode_string Production = ''production''"

definition initial_mode :: mode_state where
  "initial_mode = \<lparr>md_mode = Production, md_debug = False, md_profiling = False\<rparr>"

definition update_profiling :: "mode_state \<Rightarrow> mode_state" where
  "update_profiling st = st\<lparr>md_profiling := md_debug st\<rparr>"

definition set_debug_enabled :: "bool \<Rightarrow> mode_state \<Rightarrow> mode_state" where
  "set_debug_enabled b st = update_profiling (st\<lparr>md_debug := b\<rparr>)"

definition set_app_mode :: "string \<Rightarrow> mode_state \<Rightarrow> mode_state" where
  "set_app_mode m st =
     (let l = to_lower m
      in update_profiling
           (if l \<in> {''dev'', ''devel'', ''development''} then st\<lparr>md_mode := Development\<rparr>
            else if l = ''debug'' then set_debug_enabled True (st\<lparr>md_mode := Development\<rparr>)
            else st\<lparr>md_mode := Production\<rparr>))"

definition app_mode_text :: "mode_state \<Rightarrow> string" where
  "app_mode_text st = app_mode_string (md_mode st) @ (if md_debug st then '' [debugging]'' else [])"

text \<open>The environment tells a variable that is not set from an empty one.\<close>

definition mode_from_env :: "(string \<Rightarrow> string option) \<Rightarrow> mode_state \<Rightarrow> mode_state" where
  "mode_from_env env st =
     (let st = (case env ''MODE'' of Some m \<Rightarrow> if m \<noteq> [] then set_app_mode m st else st | None \<Rightarrow> st)
      in case env ''DEBUG'' of Some v \<Rightarrow> set_debug_enabled (is_truthy v) st | None \<Rightarrow> st)"

text \<open>
  A variable \<open>DEBUG\<close> that is set decides about debugging, whatever \<open>MODE\<close> says; otherwise only
  \<open>MODE=debug\<close> turns it on. \<open>MODE\<close> alone decides about the mode, and profiling follows debugging.
\<close>
theorem mode_from_env_spec:
  "md_debug (mode_from_env env initial_mode) =
     (case env ''DEBUG'' of
        Some v \<Rightarrow> is_truthy v
      | None \<Rightarrow> (case env ''MODE'' of Some m \<Rightarrow> to_lower m = ''debug'' | None \<Rightarrow> False)) \<and>
   md_mode (mode_from_env env initial_mode) =
     (case env ''MODE'' of
        Some m \<Rightarrow> if to_lower m \<in> {''dev'', ''devel'', ''development'', ''debug''} then Development else Production
      | None \<Rightarrow> Production) \<and>
   md_profiling (mode_from_env env initial_mode) = md_debug (mode_from_env env initial_mode)"
proof -
  have e: "to_lower [] = []" by (simp add: to_lower_def)
  show ?thesis
    by (simp add: mode_from_env_def Let_def set_app_mode_def set_debug_enabled_def update_profiling_def initial_mode_def e
        split: option.split)
qed

text \<open>The short names of the development mode are known to one of the two and not to the other.\<close>

theorem mode_disagrees:
  assumes "settings_typed cfg" "str_of [''Mode''] cfg = ''dev''"
  shows "md_mode (mode_from_env (\<lambda>v. if v = ''MODE'' then Some ''dev'' else None) initial_mode) = Development \<and>
    \<not> config_is_development (validate_config cfg)"
proof -
  have "get_path [''Mode''] (validate_config cfg) = Some (GStr ''production'')"
  proof -
    let ?r = "RepairInt [''Port''] (\<lambda>n. n < 0 \<or> 65535 < n) 0"
    have "get_path [''Mode''] (apply_repair ?r cfg) = get_path [''Mode''] cfg"
      by (rule apply_repair_other) (simp add: parallel_def)
    moreover have "get_path [''Mode''] cfg = Some (GStr ''dev'')"
      using assms by (auto simp: settings_typed_def validate_repairs_def str_of_def split: option.splits go_value.splits)
    ultimately have "get_path [''Mode''] (apply_repair (validate_repairs ! 1) (apply_repair ?r cfg)) = Some (GStr ''production'')"
      by (simp add: validate_repairs_def fix_str_def str_of_def get_set_same)
    moreover have "get_path [''Mode''] (foldl (\<lambda>c r. apply_repair r c) c (drop 2 validate_repairs)) = get_path [''Mode''] c" for c
      by (rule repairs_other) (simp add: validate_repairs_def parallel_def)
    moreover have "validate_config cfg =
        foldl (\<lambda>c r. apply_repair r c) (apply_repair (validate_repairs ! 1) (apply_repair ?r cfg)) (drop 2 validate_repairs)"
      unfolding validate_config_repairs by (simp add: validate_repairs_def)
    ultimately show ?thesis by simp
  qed
  moreover have "md_mode (mode_from_env (\<lambda>v. if v = ''MODE'' then Some ''dev'' else None) initial_mode) = Development"
    by code_simp
  ultimately show ?thesis by (simp add: config_is_development_def str_of_def)
qed

subsection \<open>Witnesses\<close>

definition leaf :: "string \<Rightarrow> go_value \<Rightarrow> string \<times> string \<times> bool \<times> go_value" where
  "leaf n v = (n, to_lower n, True, v)"

definition sample_settings :: fields where
  "sample_settings =
     [leaf ''Port'' (GInt 70000), leaf ''Mode'' (GStr ''dev''), leaf ''APIVersion'' (GStr ''''), leaf ''ConfigDir'' (GStr ''''),
      leaf ''Backup'' (GStruct [leaf ''Retention'' (GStruct
        [leaf ''MaxBackups'' (GInt 0), leaf ''KeepWeekly'' (GInt 2), leaf ''KeepMonthly'' (GInt (- 1)), leaf ''KeepYearly'' (GInt 0)])]),
      leaf ''Update'' (GStruct [leaf ''Branch'' (GStr ''nightly''), leaf ''DeferDays'' (GInt 7)]),
      leaf ''Debug'' (GBool False), leaf ''ServerToken'' (GStr ''''), leaf ''InstallationSecret'' (GStr ''s'')]"

theorem validate_config_repairs_all_witness:
  "int_of [''Port''] (validate_config sample_settings) \<le> 65535 \<and>
   get_path [''Debug''] (validate_config sample_settings) = Some (GBool False)"
proof -
  have "settings_typed sample_settings" by code_simp
  from validate_config_repairs_all [OF this]
  have "settings_in_range (validate_config sample_settings)"
    "get_path [''Debug''] (validate_config sample_settings) = get_path [''Debug''] sample_settings"
    by (auto simp: validate_repairs_def parallel_def)
  moreover have "get_path [''Debug''] sample_settings = Some (GBool False)" by code_simp
  ultimately show ?thesis by (simp add: settings_in_range_def)
qed

text \<open>A codec that stores the two secrets.\<close>

definition sample_io :: conf_io where
  "sample_io =
     \<lparr>ci_rename = True, ci_mkdir = True, ci_read = True, ci_write = True, ci_env = (\<lambda>_. []),
      ci_parse = (\<lambda>d. case unmark [] d of
         [a, b] \<Rightarrow> Some (set_path [''ServerToken''] (GStr a) (set_path [''InstallationSecret''] (GStr b) sample_settings))
       | _ \<Rightarrow> None),
      ci_marshal = (\<lambda>c. Some (concat (map mark_string [fst (secrets_of c), snd (secrets_of c)]))),
      ci_template = (\<lambda>_ t s. concat (map mark_string [t, s])), ci_port = None,
      ci_token = Some ''tok'', ci_secret = Some ''sec''\<rparr>"

lemma sample_settings_secrets:
  "secrets_typed (set_path [''ServerToken''] (GStr a) (set_path [''InstallationSecret''] (GStr b) sample_settings)) \<and>
   secrets_of (set_path [''ServerToken''] (GStr a) (set_path [''InstallationSecret''] (GStr b) sample_settings)) = (a, b)"
proof -
  have p: "get_path [''ServerToken''] sample_settings \<noteq> None" "get_path [''InstallationSecret''] sample_settings \<noteq> None"
    by code_simp+
  then have "get_path [''ServerToken''] (set_path [''InstallationSecret''] (GStr b) sample_settings) \<noteq> None"
    by (simp add: other_field)
  from get_set_same [OF this, of "GStr a"] show ?thesis
    using get_set_same [OF p(2), of "GStr b"]
    by (simp add: secrets_typed_def secrets_of_def str_of_def other_field)
qed

lemma sample_io_sound: "io_sound sample_io"
proof -
  have codec: "ci_marshal sample_io c = Some (concat (map mark_string [fst (secrets_of c), snd (secrets_of c)]))" for c
    by (simp only: sample_io_def conf_io.simps)
  have "ci_parse sample_io (concat (map mark_string [a, b])) =
      Some (set_path [''ServerToken''] (GStr a) (set_path [''InstallationSecret''] (GStr b) sample_settings))" for a b
    unfolding sample_io_def conf_io.simps unmark_all by simp
  then have "\<exists>d c'. ci_marshal sample_io c = Some d \<and> ci_parse sample_io d = Some c' \<and> secrets_of c' = secrets_of c" for c
    using codec sample_settings_secrets by (metis prod.collapse)
  moreover have "secrets_typed c" if "ci_parse sample_io d = Some c" for c d
    using that sample_settings_secrets by (auto simp: sample_io_def split: list.splits)
  moreover have "ci_mkdir sample_io \<and> ci_write sample_io \<and> ci_read sample_io \<and> ci_token sample_io \<noteq> Some [] \<and> ci_secret sample_io \<noteq> Some []"
    by (simp add: sample_io_def)
  ultimately show ?thesis unfolding io_sound_def by blast
qed

theorem secrets_survive_restart_witness:
  "\<exists>cfg'. load_server_config sample_io ''/etc'' (snd (load_server_config sample_io ''/etc'' \<lparr>cf_yml = None, cf_yaml = Some (mark_string '''' @ mark_string ''s'')\<rparr>)) =
      (Inr cfg', snd (load_server_config sample_io ''/etc'' \<lparr>cf_yml = None, cf_yaml = Some (mark_string '''' @ mark_string ''s'')\<rparr>)) \<and>
     str_of [''ServerToken''] cfg' = ''tok'' \<and> str_of [''InstallationSecret''] cfg' = ''s''"
proof -
  let ?fs = "\<lparr>cf_yml = None, cf_yaml = Some (mark_string '''' @ mark_string ''s'')\<rparr>"
  define r where "r = load_server_config sample_io ''/etc'' ?fs"
  have "case fst r of Inr cfg \<Rightarrow> str_of [''ServerToken''] cfg = ''tok'' \<and> str_of [''InstallationSecret''] cfg = ''s'' | Inl e \<Rightarrow> False"
    unfolding r_def by code_simp
  then obtain cfg fs' where r: "r = (Inr cfg, fs')" "str_of [''ServerToken''] cfg = ''tok''" "str_of [''InstallationSecret''] cfg = ''s''"
    by (cases r) (auto split: sum.splits)
  from secrets_survive_restart [OF sample_io_sound r(1) [unfolded r_def] sample_io_sound refl] r(2,3)
  show ?thesis unfolding r_def [symmetric] r(1) by auto
qed

end
