(* ===== verification/Reload.thy ===== *)
theory Reload
  imports Settings GoTime "HOL-Library.Multiset"
begin

text \<open>
  Reloading of the settings while the server runs (\<open>src/src/config/reload.go\<close>): what changed is found by
  flattening two configurations to texts, and decides what is taken over and what waits for a restart. The order in
  which Go walks a map, the time stamp of the file and the result of loading it are parameters.
\<close>

subsection \<open>Flattening\<close>

definition yaml_name :: "string \<Rightarrow> string \<Rightarrow> string" where
  "yaml_name fname tag = (let n = hd (split_on CHR '','' tag) in if n = [] then to_lower fname else n)"

fun flatten_fields :: "string \<Rightarrow> fields \<Rightarrow> (string \<times> string) list \<Rightarrow> (string \<times> string) list" where
  "flatten_fields pre [] out = out"
| "flatten_fields pre ((fname, tag, exported, v) # fs) out =
     (if \<not> exported \<or> hd (split_on CHR '','' tag) = ''-'' then flatten_fields pre fs out
      else let key = (if pre = [] then yaml_name fname tag else pre @ ''.'' @ yaml_name fname tag)
           in flatten_fields pre fs
                (case v of GStruct gs \<Rightarrow> flatten_fields key gs out | _ \<Rightarrow> upd key (go_text v) out))"

definition flatten_config :: "fields \<Rightarrow> (string \<times> string) list" where
  "flatten_config cfg = flatten_fields [] cfg []"

definition compare_configs :: "(string list \<Rightarrow> string list) \<Rightarrow> fields \<Rightarrow> fields \<Rightarrow> string list" where
  "compare_configs order old new =
     order (map fst (filter (\<lambda>(k, v). map_of (flatten_config old) k \<noteq> Some v) (flatten_config new)))"

subsection \<open>What needs a restart\<close>

definition restartRequiredSettings :: "string list" where
  "restartRequiredSettings = [''address'', ''port'', ''daemonize'', ''ssl.'', ''database.'', ''tor.'']"

definition requires_restart :: "string \<Rightarrow> bool" where
  "requires_restart setting \<longleftrightarrow> list_ex (has_prefix setting) restartRequiredSettings"

fun categorize_changes :: "string list \<Rightarrow> string list \<times> string list" where
  "categorize_changes [] = ([], [])"
| "categorize_changes (s # ss) =
     (let (hot, restart) = categorize_changes ss
      in if requires_restart s then (hot, s # restart) else (s # hot, restart))"

subsection \<open>The manager\<close>

record config_manager =
  cm_modTime :: time
  cm_current :: fields
  cm_pending :: bool
  cm_settings :: "string list"

definition new_config_manager :: "time option \<Rightarrow> fields \<Rightarrow> config_manager" where
  "new_config_manager stat cfg =
     \<lparr>cm_modTime = opt_or stat 0, cm_current = cfg, cm_pending = False, cm_settings = []\<rparr>"

definition preserved_fields :: "string list" where
  "preserved_fields = [''Address'', ''Port'', ''Daemonize'', ''TLS'', ''Database'', ''Tor'']"

definition field_value :: "string \<Rightarrow> fields \<Rightarrow> go_value option" where
  "field_value n cfg = map_of (map (\<lambda>(n, t, e, v). (n, v)) cfg) n"

definition keep_fields :: "string list \<Rightarrow> fields \<Rightarrow> fields \<Rightarrow> fields" where
  "keep_fields ns old new =
     map (\<lambda>(n, t, e, v). (n, t, e, if n \<in> set ns then opt_or (field_value n old) v else v)) new"

definition apply_hot_reload_settings :: "fields \<Rightarrow> config_manager \<Rightarrow> config_manager" where
  "apply_hot_reload_settings new m = m\<lparr>cm_current := keep_fields preserved_fields (cm_current m) new\<rparr>"

definition apply_config_changes :: "(string list \<Rightarrow> string list) \<Rightarrow> fields \<Rightarrow> config_manager \<Rightarrow> config_manager" where
  "apply_config_changes order new m =
     (let changes = compare_configs order (cm_current m) new
      in if changes = [] then m
         else case categorize_changes changes of
                (hot, restart) \<Rightarrow>
                  let m1 = (if hot \<noteq> [] then apply_hot_reload_settings new m else m)
                  in if restart \<noteq> [] then m1\<lparr>cm_pending := True, cm_settings := restart\<rparr> else m1)"

definition check_file_changes ::
    "(string list \<Rightarrow> string list) \<Rightarrow> (conf_error + fields) \<Rightarrow> time option \<Rightarrow> config_manager \<Rightarrow> config_manager" where
  "check_file_changes order loaded stat m =
     (case stat of
        None \<Rightarrow> m
      | Some t \<Rightarrow>
          if t = cm_modTime m then m
          else let m1 = m\<lparr>cm_modTime := t\<rparr>
               in case loaded of Inl e \<Rightarrow> m1 | Inr new \<Rightarrow> apply_config_changes order new m1)"

definition clear_pending_restart :: "config_manager \<Rightarrow> config_manager" where
  "clear_pending_restart m = m\<lparr>cm_pending := False, cm_settings := []\<rparr>"

subsection \<open>Lemmas: keys and fields\<close>

lemma flatten_over:
  fixes dummy :: "(string \<times> string) list"
  shows "map_of (flatten_fields pre fs out) = map_of out ++ map_of (flatten_fields pre fs [])"
proof (induction pre fs dummy arbitrary: out rule: flatten_fields.induct)
  case (2 pre fname tag exported v fs dummy)
  show ?case
  proof (cases "\<not> exported \<or> hd (split_on CHR '','' tag) = ''-''")
    case True
    with "2.IH"(1) [OF True, of out] show ?thesis by simp
  next
    case False
    define key where "key = (if pre = [] then yaml_name fname tag else pre @ ''.'' @ yaml_name fname tag)"
    define own where "own = (\<lambda>out. case v of GStruct gs \<Rightarrow> flatten_fields key gs out | _ \<Rightarrow> upd key (go_text v) out)"
    have step: "flatten_fields pre ((fname, tag, exported, v) # fs) out = flatten_fields pre fs (own out)" for out
      using False unfolding flatten_fields.simps(2) Let_def key_def [symmetric] own_def by simp
    have rest: "map_of (flatten_fields pre fs out) = map_of out ++ map_of (flatten_fields pre fs [])" for out
      using "2.IH"(3) [OF False refl] by blast
    have own: "map_of (own out) = map_of out ++ map_of (own [])" for out
    proof (cases v)
      case (GStruct gs)
      then have "own out = flatten_fields key gs out" "own [] = flatten_fields key gs []" by (simp_all add: own_def)
      then show ?thesis using "2.IH"(2) [OF False key_def GStruct, of out] by argo
    qed (simp_all add: own_def)
    show ?thesis
      unfolding step rest [of "own out"] rest [of "own []"] own [of out] by (simp add: map_add_assoc)
  qed
qed simp

lemma distinct_flatten: "distinct (keys out) \<Longrightarrow> distinct (keys (flatten_fields pre fs out))"
  by (induction pre fs out rule: flatten_fields.induct)
    (auto simp: Let_def distinct_upd split: go_value.splits if_splits)

lemma flatten_keys_below:
  fixes dummy :: "(string \<times> string) list"
  shows "pre \<noteq> [] \<Longrightarrow> map_of (flatten_fields pre fs []) k \<noteq> None \<Longrightarrow> \<exists>r. k = pre @ ''.'' @ r"
proof (induction pre fs dummy arbitrary: k rule: flatten_fields.induct)
  case (2 pre fname tag exported v fs dummy)
  show ?case
  proof (cases "\<not> exported \<or> hd (split_on CHR '','' tag) = ''-''")
    case True
    with "2.IH"(1) [OF True "2.prems"(1)] "2.prems"(2) show ?thesis by simp
  next
    case False
    define key where "key = pre @ ''.'' @ yaml_name fname tag"
    have key: "key = (if pre = [] then yaml_name fname tag else pre @ ''.'' @ yaml_name fname tag)"
      using "2.prems"(1) by (simp add: key_def)
    define own where "own = (case v of GStruct gs \<Rightarrow> flatten_fields key gs [] | _ \<Rightarrow> upd key (go_text v) [])"
    have "flatten_fields pre ((fname, tag, exported, v) # fs) [] = flatten_fields pre fs own"
      using False unfolding flatten_fields.simps(2) Let_def key [symmetric] own_def by simp
    then have "map_of own k \<noteq> None \<or> map_of (flatten_fields pre fs []) k \<noteq> None"
      using "2.prems"(2) flatten_over [of pre fs own] by (auto simp: map_add_def split: option.splits)
    then show ?thesis
    proof
      assume k: "map_of own k \<noteq> None"
      show ?thesis
      proof (cases "\<exists>gs. v = GStruct gs")
        case True
        then obtain gs where "v = GStruct gs" by blast
        then have "\<exists>r. k = key @ ''.'' @ r"
          using "2.IH"(2) [OF False key, of gs k] k by (simp add: own_def key_def)
        then show ?thesis by (auto simp: key_def)
      next
        case False
        then have "own = upd key (go_text v) []" by (cases v) (auto simp: own_def)
        with k have "k = key" by (simp split: if_splits)
        then show ?thesis by (simp add: key_def)
      qed
    next
      assume "map_of (flatten_fields pre fs []) k \<noteq> None"
      then show ?thesis using "2.IH"(3) [OF False key "2.prems"(1)] by blast
    qed
  qed
qed simp

definition field_flat :: "string \<times> string \<times> bool \<times> go_value \<Rightarrow> (string \<times> string) list" where
  "field_flat f = flatten_fields [] [f] []"

lemma flatten_config_Cons: "map_of (flatten_config (f # fs)) = map_of (field_flat f) ++ map_of (flatten_config fs)"
proof (cases f)
  case (fields n t e v)
  have "flatten_fields [] (f # fs) [] = flatten_fields [] fs (field_flat f)"
    by (simp add: fields field_flat_def Let_def)
  then show ?thesis using flatten_over [of "[]" fs "field_flat f"] by (simp add: flatten_config_def)
qed

text \<open>The prefixes name exactly the fields that a reload preserves.\<close>

lemma restart_rows:
  "list_all (\<lambda>(n, t, s). \<forall>r. t \<noteq> ''-'' \<longrightarrow>
     requires_restart (if s then t @ ''.'' @ r else t) = (n \<in> set preserved_fields)) server_fields"
  by (simp add: server_fields_def requires_restart_def restartRequiredSettings_def preserved_fields_def has_prefix_def)

lemma row_names:
  "list_all (\<lambda>(n, t, s). hd (split_on CHR '','' t) = t \<and> t \<noteq> []) server_fields"
  by code_simp

definition row_ok :: "string \<times> string \<times> bool \<times> go_value \<Rightarrow> bool" where
  "row_ok f \<longleftrightarrow> (\<forall>k. map_of (field_flat f) k \<noteq> None \<longrightarrow> requires_restart k = (fst f \<in> set preserved_fields))"

lemma server_row_ok:
  assumes "(n, t, s) \<in> set server_fields" "is_struct v = s"
  shows "row_ok (n, t, True, v)"
proof -
  have r: "\<forall>r. t \<noteq> ''-'' \<longrightarrow> requires_restart (if s then t @ ''.'' @ r else t) = (n \<in> set preserved_fields)"
    "hd (split_on CHR '','' t) = t" "t \<noteq> []"
    using restart_rows row_names assms(1) by (auto simp: list_all_iff)
  then have name: "yaml_name n t = t" by (simp add: yaml_name_def)
  show ?thesis
  proof (cases "t = ''-''")
    case True
    then show ?thesis using r(2) by (simp add: row_ok_def field_flat_def)
  next
    case False
    show ?thesis
    proof (cases v)
      case (GStruct gs)
      then have "field_flat (n, t, True, v) = flatten_fields t gs []"
        using False r(2) name by (simp add: field_flat_def)
      then show ?thesis
        using flatten_keys_below [OF r(3)] r(1) False assms(2) GStruct by (fastforce simp: row_ok_def)
    qed (use False r name assms(2) in \<open>auto simp: field_flat_def row_ok_def split: if_splits\<close>)
  qed
qed

lemma server_config_rows:
  assumes "server_config cfg" "f \<in> set cfg"
  shows "row_ok f"
proof -
  obtain n t e v where f: "f = (n, t, e, v)" by (cases f)
  have "(n, t, e, is_struct v) \<in> set (map (\<lambda>(n, t, e, v). (n, t, e, is_struct v)) cfg)"
    using assms(2) f by force
  then have "(n, t, e, is_struct v) \<in> set (map (\<lambda>(n, t, s). (n, t, True, s)) server_fields)"
    using assms(1) by (simp only: server_config_def)
  then have "e" "(n, t, is_struct v) \<in> set server_fields" by auto
  then show ?thesis using server_row_ok [of n t "is_struct v" v] f by simp
qed

subsection \<open>Lemmas: one reload\<close>

definition row_head :: "string \<times> string \<times> bool \<times> go_value \<Rightarrow> string \<times> string \<times> bool" where
  "row_head f = (case f of (n, t, e, v) \<Rightarrow> (n, t, e))"

definition keep_row :: "string \<times> string \<times> bool \<times> go_value \<Rightarrow> string \<times> string \<times> bool \<times> go_value \<Rightarrow> string \<times> string \<times> bool \<times> go_value" where
  "keep_row old new = (if fst new \<in> set preserved_fields then old else new)"

lemma server_config_heads:
  assumes "server_config cfg"
  shows "map row_head cfg = map (\<lambda>(n, t, s). (n, t, True)) server_fields"
proof -
  have "map row_head cfg = map (\<lambda>(n, t, e, s). (n, t, e)) (map (\<lambda>(n, t, e, v). (n, t, e, is_struct v)) cfg)"
    by (simp add: row_head_def split_def)
  also have "\<dots> = map (\<lambda>(n, t, e, s). (n, t, e)) (map (\<lambda>(n, t, s). (n, t, True, s)) server_fields)"
    using assms by (simp only: server_config_def)
  finally show ?thesis by (simp add: split_def)
qed

lemma server_names: "distinct (map fst server_fields)"
  by code_simp

lemma config_names: "server_config cfg \<Longrightarrow> map fst cfg = map fst server_fields"
  using arg_cong [OF server_config_heads, of cfg "map fst"] by (simp add: row_head_def split_def o_def)

lemma keep_fields_rows:
  assumes "map row_head old = map row_head new" "distinct (map fst new)"
  shows "keep_fields preserved_fields old new = map2 keep_row old new"
proof (rule nth_equalityI)
  have len: "length old = length new" using assms(1) by (metis length_map)
  show "length (keep_fields preserved_fields old new) = length (map2 keep_row old new)"
    by (simp add: keep_fields_def len)
  fix i assume "i < length (keep_fields preserved_fields old new)"
  then have i: "i < length new" "i < length old" by (simp_all add: keep_fields_def len)
  obtain n t e v where new: "new ! i = (n, t, e, v)" by (cases "new ! i")
  have "row_head (old ! i) = row_head (new ! i)" using arg_cong [OF assms(1), of "\<lambda>xs. xs ! i"] i by simp
  then obtain w where old: "old ! i = (n, t, e, w)" using new by (cases "old ! i") (simp add: row_head_def)
  have names: "map fst old = map fst new"
    using arg_cong [OF assms(1), of "map fst"] by (simp add: row_head_def split_def o_def)
  have "field_value n old = Some w"
  proof -
    have "map fst (map (\<lambda>(n, t, e, v). (n, v)) old) = map fst old" by (simp add: split_def)
    then have "distinct (map fst (map (\<lambda>(n, t, e, v). (n, v)) old))" using assms(2) names by simp
    moreover have "(n, w) \<in> set (map (\<lambda>(n, t, e, v). (n, v)) old)"
      using nth_mem [OF i(2)] old by force
    ultimately show ?thesis unfolding field_value_def by (rule map_of_is_SomeI)
  qed
  then show "keep_fields preserved_fields old new ! i = map2 keep_row old new ! i"
    using i new old by (simp add: keep_fields_def keep_row_def opt_or_def)
qed

lemma flatten_kept:
  assumes "map row_head old = map row_head new" "\<forall>f\<in>set old \<union> set new. row_ok f"
  shows "map_of (flatten_config (map2 keep_row old new)) k =
    (if requires_restart k then map_of (flatten_config old) k else map_of (flatten_config new) k)"
  using assms
proof (induction old new rule: list_induct2')
  case (4 f fs g gs)
  have IH: "map_of (flatten_config (map2 keep_row fs gs)) k =
      (if requires_restart k then map_of (flatten_config fs) k else map_of (flatten_config gs) k)"
    using 4 by simp
  have names: "fst f = fst g" using "4.prems"(1) by (cases f; cases g) (simp add: row_head_def)
  have ok: "row_ok f" "row_ok g" using "4.prems"(2) by simp_all
  have none: "map_of (field_flat h) k = None" if "row_ok h" "requires_restart k \<noteq> (fst h \<in> set preserved_fields)" for h
    using that unfolding row_ok_def by blast
  have keep: "keep_row f g = (if fst g \<in> set preserved_fields then f else g)" by (simp add: keep_row_def)
  have "map_of (flatten_config (map2 keep_row (f # fs) (g # gs))) k =
      (map_of (field_flat (keep_row f g)) ++ map_of (flatten_config (map2 keep_row fs gs))) k"
    by (simp only: zip_Cons_Cons list.map prod.case flatten_config_Cons)
  also have "\<dots> = (if requires_restart k then (map_of (field_flat f) ++ map_of (flatten_config fs)) k
      else (map_of (field_flat g) ++ map_of (flatten_config gs)) k)"
    using none [OF ok(1)] none [OF ok(2)] names
    by (cases "requires_restart k"; cases "fst g \<in> set preserved_fields")
      (simp_all add: map_add_def IH keep split: option.split)
  finally show ?case by (simp only: flatten_config_Cons)
qed simp_all

lemma reload_flat:
  assumes "server_config old" "server_config new"
  shows "map_of (flatten_config (keep_fields preserved_fields old new)) k =
    (if requires_restart k then map_of (flatten_config old) k else map_of (flatten_config new) k)"
proof -
  have heads: "map row_head old = map row_head new" using assms server_config_heads by metis
  have "distinct (map fst new)" using config_names [OF assms(2)] server_names by simp
  then show ?thesis
    using flatten_kept [OF heads] assms server_config_rows unfolding keep_fields_rows [OF heads \<open>distinct _\<close>] by blast
qed

lemma categorize_filter:
  "categorize_changes ss = (filter (\<lambda>s. \<not> requires_restart s) ss, filter requires_restart ss)"
  by (induction ss) simp_all

lemma compare_set:
  assumes "\<forall>ks. mset (order ks) = mset ks"
  shows "set (compare_configs order old new) =
    {k. map_of (flatten_config new) k \<noteq> None \<and> map_of (flatten_config old) k \<noteq> map_of (flatten_config new) k}"
proof -
  have "set (order ks) = set ks" for ks using assms by (metis set_mset_mset)
  moreover have "(k, v) \<in> set (flatten_config new) \<longleftrightarrow> map_of (flatten_config new) k = Some v" for k v
    using map_of_eq_Some_iff [OF distinct_flatten [of "[]" "[]" new]] by (simp add: flatten_config_def)
  ultimately show ?thesis by (auto simp: compare_configs_def image_iff)
qed

text \<open>Two values of the same Go type have the same keys.\<close>

definition same_keys :: "fields \<Rightarrow> fields \<Rightarrow> bool" where
  "same_keys c d \<longleftrightarrow> (\<forall>k. (map_of (flatten_config c) k = None) = (map_of (flatten_config d) k = None))"

lemma apply_current:
  "cm_current (apply_config_changes order new m) =
     (if list_ex (\<lambda>s. \<not> requires_restart s) (compare_configs order (cm_current m) new)
      then keep_fields preserved_fields (cm_current m) new else cm_current m)"
  by (auto simp: apply_config_changes_def categorize_filter Let_def apply_hot_reload_settings_def filter_empty_conv list_ex_iff)

subsection \<open>Properties\<close>



text \<open>
  A restart is announced exactly when a setting that needs one differs from the file, with the list of those settings.
\<close>
theorem reload_announces:
  assumes order: "\<forall>ks. mset (order ks) = mset ks"
    and waiting: "W = {k. requires_restart k \<and> map_of (flatten_config new) k \<noteq> None \<and>
      map_of (flatten_config (cm_current m)) k \<noteq> map_of (flatten_config new) k}"
  shows "cm_pending (apply_config_changes order new m) = (cm_pending m \<or> W \<noteq> {}) \<and>
    set (cm_settings (apply_config_changes order new m)) = (if W \<noteq> {} then W else set (cm_settings m))"
proof -
  have W: "set (filter requires_restart (compare_configs order (cm_current m) new)) = W"
    using compare_set [OF order] waiting by auto
  show ?thesis
  proof (cases "W = {}")
    case True
    then have "filter requires_restart (compare_configs order (cm_current m) new) = []" using W by simp
    with True show ?thesis
      by (simp add: apply_config_changes_def categorize_filter Let_def apply_hot_reload_settings_def)
  next
    case False
    then have "filter requires_restart (compare_configs order (cm_current m) new) \<noteq> []" using W by (metis set_empty)
    with False W show ?thesis
      by (auto simp: apply_config_changes_def categorize_filter Let_def apply_hot_reload_settings_def filter_empty_conv)
  qed
qed

text \<open>A change that is taken back leaves the announcement of a restart in place.\<close>

theorem revert_keeps_announcement:
  assumes "\<forall>ks. mset (order ks) = mset ks" "cm_current m = new"
  shows "apply_config_changes order new m = m"
proof -
  have "set (compare_configs order new new) = {}" using compare_set [OF assms(1)] by simp
  then show ?thesis by (simp add: apply_config_changes_def Let_def assms(2))
qed

text \<open>A change of the section \<open>web\<close> alone is neither taken over nor announced.\<close>

theorem web_change_unseen:
  assumes "\<forall>ks. mset (order ks) = mset ks" "cm_current m = pre @ (''Web'', ''-'', e, v) # post"
  shows "apply_config_changes order (pre @ (''Web'', ''-'', e', v') # post) m = m"
proof -
  have skip: "flatten_fields p (xs @ (''Web'', ''-'', e, v) # ys) out = flatten_fields p (xs @ ys) out" for p xs ys e v out
  proof (induction xs arbitrary: out)
    case (Cons x xs)
    then show ?case by (cases x) (simp add: Let_def)
  qed simp
  then have "flatten_config (pre @ (''Web'', ''-'', e', v') # post) = flatten_config (cm_current m)"
    by (simp add: flatten_config_def assms(2))
  then have "set (compare_configs order (cm_current m) (pre @ (''Web'', ''-'', e', v') # post)) = {}"
    using compare_set [OF assms(1)] by simp
  then show ?thesis by (simp add: apply_config_changes_def Let_def)
qed

subsection \<open>Witnesses\<close>

definition sample_server :: "string \<Rightarrow> string \<Rightarrow> fields" where
  "sample_server port mode =
     map (\<lambda>(n, t, s). (n, t, True,
       if s then GStruct [(''Enabled'', ''enabled'', True, GBool True)]
       else if n = ''Port'' then GStr port else if n = ''Mode'' then GStr mode else GStr '''')) server_fields"

definition sample_manager :: config_manager where
  "sample_manager = new_config_manager None (sample_server ''80'' ''a'')"

lemma sample_server_ok: "server_config (sample_server ''80'' ''a'')" "server_config (sample_server ''81'' ''b'')"
  by code_simp+

lemma same_keysI: "set (keys (flatten_config c)) = set (keys (flatten_config d)) \<Longrightarrow> same_keys c d"
  unfolding same_keys_def map_of_eq_None_iff by simp

lemma sample_same_keys: "same_keys (sample_server ''80'' ''a'') (sample_server ''81'' ''b'')"
  by (rule same_keysI) code_simp

lemma sample_current: "cm_current sample_manager = sample_server ''80'' ''a''"
  by (simp add: sample_manager_def new_config_manager_def)

lemma sample_flat:
  "map_of (flatten_config (sample_server ''81'' ''b'')) ''mode'' = Some ''b''"
  "map_of (flatten_config (sample_server ''80'' ''a'')) ''port'' = Some ''80''"
  "map_of (flatten_config (sample_server ''81'' ''b'')) ''port'' = Some ''81''"
  by code_simp+



theorem reload_announces_witness:
  "cm_pending (apply_config_changes (\<lambda>ks. ks) (sample_server ''81'' ''b'') sample_manager)"
proof -
  let ?W = "{k. requires_restart k \<and> map_of (flatten_config (sample_server ''81'' ''b'')) k \<noteq> None \<and>
      map_of (flatten_config (cm_current sample_manager)) k \<noteq> map_of (flatten_config (sample_server ''81'' ''b'')) k}"
  have "requires_restart ''port''" by code_simp
  then have "''port'' \<in> ?W" using sample_flat(2,3) by (simp add: sample_current)
  then have "?W \<noteq> {}" by blast
  with reload_announces [of "\<lambda>ks. ks" ?W "sample_server ''81'' ''b''" sample_manager] show ?thesis by simp
qed

end
