(* ===== verification/Secrets.thy ===== *)
theory Secrets
  imports Texts
begin

text \<open>
  Passwords, tokens and random texts (\<open>src/src/security/crypto.go\<close>). Argon2 and SHA-256 are parameters, as are
  random bytes; base64 is that of the library.
\<close>

subsection \<open>encoding/base64\<close>

definition b64_std :: "nat \<Rightarrow> char" where
  "b64_std n =
     (if n < 26 then char_of (65 + n) else if n < 52 then char_of (71 + n) else if n < 62 then char_of (n - 4)
      else if n = 62 then CHR ''+'' else CHR ''/'')"

definition b64_url :: "nat \<Rightarrow> char" where
  "b64_url n = (if n = 62 then CHR ''-'' else if n = 63 then CHR ''_'' else b64_std n)"

definition b64_val :: "char \<Rightarrow> nat option" where
  "b64_val c =
     (if is_upper c then Some (byte c - 65) else if is_lower c then Some (byte c - 71)
      else if is_digit c then Some (byte c + 4)
      else if c = CHR ''+'' then Some 62 else if c = CHR ''/'' then Some 63 else None)"

fun sextets :: "nat list \<Rightarrow> nat list" where
  "sextets [] = []"
| "sextets [a] = [a div 4, a mod 4 * 16]"
| "sextets [a, b] = [a div 4, a mod 4 * 16 + b div 16, b mod 16 * 4]"
| "sextets (a # b # c # r) = [a div 4, a mod 4 * 16 + b div 16, b mod 16 * 4 + c div 64, c mod 64] @ sextets r"

fun octets :: "nat list \<Rightarrow> nat list option" where
  "octets [] = Some []"
| "octets [x] = None"
| "octets [x, y] = Some [x * 4 + y div 16]"
| "octets [x, y, z] = Some [x * 4 + y div 16, y mod 16 * 16 + z div 4]"
| "octets (x # y # z # w # r) =
     map_option (\<lambda>t. [x * 4 + y div 16, y mod 16 * 16 + z div 4, z mod 4 * 64 + w] @ t) (octets r)"

definition raw_std_encode :: "string \<Rightarrow> string" where
  "raw_std_encode s = map b64_std (sextets (map byte s))"

text \<open>Line breaks are skipped.\<close>

fun b64_vals :: "string \<Rightarrow> nat list option" where
  "b64_vals [] = Some []"
| "b64_vals (c # s) =
     (if c = CHR 0x0A \<or> c = CHR 0x0D then b64_vals s
      else case b64_val c of None \<Rightarrow> None | Some v \<Rightarrow> map_option ((#) v) (b64_vals s))"

definition raw_std_decode :: "string \<Rightarrow> string option" where
  "raw_std_decode s =
     (case b64_vals s of None \<Rightarrow> None | Some vs \<Rightarrow> map_option (map char_of) (octets vs))"

definition url_encode :: "string \<Rightarrow> string" where
  "url_encode s =
     (let t = map b64_url (sextets (map byte s))
      in t @ replicate ((4 - length t mod 4) mod 4) CHR ''='')"

subsection \<open>crypto.go\<close>

definition Argon2Time :: nat where "Argon2Time = 3"
definition Argon2Memory :: nat where "Argon2Memory = 65536"
definition Argon2Threads :: nat where "Argon2Threads = 4"
definition Argon2KeyLen :: nat where "Argon2KeyLen = 32"

text \<open>
  \<open>idkey password salt time memory threads length\<close> is \<open>argon2.IDKey\<close>, \<open>None\<close> where it panics; the version is 19.
  A random source yields \<open>None\<close> when it fails.
\<close>

type_synonym argon = "string \<Rightarrow> string \<Rightarrow> nat \<Rightarrow> nat \<Rightarrow> nat \<Rightarrow> nat \<Rightarrow> string option"

datatype secret_error =
    EmptyPassword | EmptyHash | BadHashFormat | UnsupportedHash | BadVersion | BadParameters | BadSalt | BadHash
  | RandomFailed | EmptyPrefix | BadLength

datatype 'a call = Failed secret_error | Returned 'a | Panicked

definition hash_text :: "string \<Rightarrow> string \<Rightarrow> string" where
  "hash_text salt hash =
     ''$argon2id$v='' @ itoa_nat 19 @ ''$m='' @ itoa_nat Argon2Memory @ '',t='' @ itoa_nat Argon2Time @ '',p='' @
     itoa_nat Argon2Threads @ ''$'' @ raw_std_encode salt @ ''$'' @ raw_std_encode hash"

definition hash_password :: "argon \<Rightarrow> string option \<Rightarrow> string \<Rightarrow> string call" where
  "hash_password idkey random password =
     (if password = [] then Failed EmptyPassword
      else case random of
             None \<Rightarrow> Failed RandomFailed
           | Some salt \<Rightarrow>
               (case idkey password salt Argon2Time Argon2Memory Argon2Threads Argon2KeyLen of
                  None \<Rightarrow> Panicked
                | Some hash \<Rightarrow> Returned (hash_text salt hash)))"

text \<open>\<open>Sscanf\<close> with \<open>v=%d\<close> and with \<open>m=%d,t=%d,p=%d\<close>.\<close>

definition scan_version :: "string \<Rightarrow> int option" where
  "scan_version s = (case scan_text ''v='' s of None \<Rightarrow> None | Some r \<Rightarrow> map_option fst (scan_int 64 r))"

definition scan_parameters :: "string \<Rightarrow> (nat \<times> nat \<times> nat) option" where
  "scan_parameters s =
     (case Option.bind (scan_text ''m='' s) (scan_uint 32) of
        None \<Rightarrow> None
      | Some (m, r) \<Rightarrow>
          (case Option.bind (scan_text '',t='' r) (scan_uint 32) of
             None \<Rightarrow> None
           | Some (t, r) \<Rightarrow>
               (case Option.bind (scan_text '',p='' r) (scan_uint 8) of
                  None \<Rightarrow> None
                | Some (p, r) \<Rightarrow> Some (m, t, p))))"

definition verify_password :: "argon \<Rightarrow> string \<Rightarrow> string \<Rightarrow> bool call" where
  "verify_password idkey password encodedHash =
     (if password = [] then Failed EmptyPassword
      else if encodedHash = [] then Failed EmptyHash
      else case split_on CHR ''$'' encodedHash of
             [p0, p1, p2, p3, p4, p5] \<Rightarrow>
               if p1 \<noteq> ''argon2id'' then Failed UnsupportedHash
               else (case scan_version p2 of
                       None \<Rightarrow> Failed BadVersion
                     | Some version \<Rightarrow>
                         (case scan_parameters p3 of
                            None \<Rightarrow> Failed BadParameters
                          | Some (memory, time, threads) \<Rightarrow>
                              (case raw_std_decode p4 of
                                 None \<Rightarrow> Failed BadSalt
                               | Some salt \<Rightarrow>
                                   (case raw_std_decode p5 of
                                      None \<Rightarrow> Failed BadHash
                                    | Some hash \<Rightarrow>
                                        (case idkey password salt time memory threads (length hash) of
                                           None \<Rightarrow> Panicked
                                         | Some comparison \<Rightarrow> Returned (hash = comparison))))))
           | _ \<Rightarrow> Failed BadHashFormat)"

definition generate_token :: "string option \<Rightarrow> string \<Rightarrow> string call" where
  "generate_token random pre =
     (if pre = [] then Failed EmptyPrefix
      else case random of None \<Rightarrow> Failed RandomFailed | Some b \<Rightarrow> Returned (pre @ ''_'' @ hex_encode b))"

definition hash_token :: "(string \<Rightarrow> string) \<Rightarrow> string \<Rightarrow> string" where
  "hash_token sha256 token = hex_encode (sha256 token)"

definition verify_token :: "(string \<Rightarrow> string) \<Rightarrow> string \<Rightarrow> string \<Rightarrow> bool" where
  "verify_token sha256 token storedHash \<longleftrightarrow> hash_token sha256 token = storedHash"

definition generate_random_string :: "string option \<Rightarrow> int \<Rightarrow> string call" where
  "generate_random_string random n =
     (if n \<le> 0 then Failed BadLength
      else case random of None \<Rightarrow> Failed RandomFailed | Some b \<Rightarrow> Returned (take (nat n) (url_encode b)))"

definition generate_random_bytes :: "string option \<Rightarrow> int \<Rightarrow> string call" where
  "generate_random_bytes random n =
     (if n \<le> 0 then Failed BadLength
      else case random of None \<Rightarrow> Failed RandomFailed | Some b \<Rightarrow> Returned b)"

subsection \<open>Lemmas: base64\<close>

lemma sextets_bound: "\<forall>b\<in>set bs. b < 256 \<Longrightarrow> \<forall>x\<in>set (sextets bs). x < 64"
  by (induction bs rule: sextets.induct) auto

lemma octets_sextets: "\<forall>b\<in>set bs. b < 256 \<Longrightarrow> octets (sextets bs) = Some bs"
proof (induction bs rule: sextets.induct)
  case (4 a b c r)
  have b: "a < 256" "b < 256" "c < 256" and r: "octets (sextets r) = Some r" using 4 by simp_all
  have "b div 16 < 16" "c div 64 < 4" using b by simp_all
  then show ?case using r by (simp add: div_mult_self3 algebra_simps)
qed auto

lemma b64_val_std: "n < 64 \<Longrightarrow> b64_val (b64_std n) = Some n"
  by (auto simp: b64_val_def b64_std_def is_upper_def is_lower_def is_digit_def)

lemma b64_std_plain: "n < 64 \<Longrightarrow> b64_std n \<noteq> CHR ''$'' \<and> b64_std n \<noteq> CHR 0x0A \<and> b64_std n \<noteq> CHR 0x0D"
proof -
  assume n: "n < 64"
  have "b64_val CHR ''$'' = None" "b64_val CHR 0x0A = None" "b64_val CHR 0x0D = None" by code_simp+
  then show ?thesis using b64_val_std [OF n] by auto
qed

lemma b64_vals_std: "\<forall>x\<in>set xs. x < 64 \<Longrightarrow> b64_vals (map b64_std xs) = Some xs"
  by (induction xs) (simp_all add: b64_val_std b64_std_plain)

lemma bytes_bound: "\<forall>b\<in>set (map byte s). b < 256"
  using byte_bound by auto

theorem raw_std_roundtrip: "raw_std_decode (raw_std_encode s) = Some s"
proof -
  have "map char_of (map byte s) = s" by (induction s) simp_all
  then show ?thesis
    using sextets_bound [OF bytes_bound, of s] octets_sextets [OF bytes_bound, of s] b64_vals_std
    by (simp add: raw_std_decode_def raw_std_encode_def)
qed

lemma raw_std_no_dollar: "CHR ''$'' \<notin> set (raw_std_encode s)"
  using sextets_bound [OF bytes_bound, of s] b64_std_plain by (fastforce simp: raw_std_encode_def)

lemma length_sextets: "length bs \<le> length (sextets bs)"
  by (induction bs rule: sextets.induct) simp_all

subsection \<open>Lemmas: scanning what was printed\<close>

lemma itoa_head: "\<exists>c r. itoa_nat n = c # r \<and> is_digit c"
  using all_digits_itoa [of n] by (cases "itoa_nat n") (auto simp: all_digits_def)

lemma digit_no_blank: "is_digit c \<Longrightarrow> \<not> is_space c \<and> c \<noteq> CHR 0x0A \<and> c \<noteq> CHR ''-'' \<and> c \<noteq> CHR ''+''"
  by (auto simp: is_digit_def is_space_def)

lemma scan_skip_itoa: "scan_skip (itoa_nat n @ r) = Some (itoa_nat n @ r)"
proof -
  obtain c t where "itoa_nat n = c # t" "is_digit c" using itoa_head by blast
  then show ?thesis using digit_no_blank [of c] by (simp add: scan_skip_def Let_def)
qed

lemma scan_digits_itoa: "r = [] \<or> \<not> is_digit (hd r) \<Longrightarrow> scan_digits (itoa_nat n @ r) = Some (n, r)"
proof -
  assume r: "r = [] \<or> \<not> is_digit (hd r)"
  have "\<forall>c\<in>set (itoa_nat n). is_digit c" using all_digits_itoa [of n] by (simp add: all_digits_def list_all_iff)
  then have "takeWhile is_digit (itoa_nat n @ r) = itoa_nat n"
    using r by (cases r) (simp_all add: takeWhile_append2)
  moreover have "itoa_nat n \<noteq> []" using itoa_head [of n] by auto
  ultimately show ?thesis by (simp add: scan_digits_def Let_def)
qed

lemma scan_uint_itoa: "r = [] \<or> \<not> is_digit (hd r) \<Longrightarrow> n < 2 ^ w \<Longrightarrow> scan_uint w (itoa_nat n @ r) = Some (n, r)"
  by (simp add: scan_uint_def scan_skip_itoa scan_digits_itoa)

lemma scan_int_itoa: "int n < 2 ^ (w - 1) \<Longrightarrow> scan_int w (itoa_nat n) = Some (int n, [])"
proof -
  assume n: "int n < 2 ^ (w - 1)"
  obtain c t where c: "itoa_nat n = c # t" "is_digit c" using itoa_head by blast
  then have "\<not> has_prefix (itoa_nat n) ''-''" "\<not> has_prefix (itoa_nat n) ''+''"
    using digit_no_blank [of c] by (auto simp: has_prefix_def)
  moreover have "- (2 ^ (w - 1)) \<le> int n" by (rule order_trans [of _ 0]) simp_all
  ultimately show ?thesis
    using n scan_skip_itoa [of n "[]"] scan_digits_itoa [of "[]" n] by (simp add: scan_int_def Let_def)
qed

lemma scan_parameters_text:
  assumes "m < 2 ^ 32" "t < 2 ^ 32" "p < 2 ^ 8"
  shows "scan_parameters (''m='' @ itoa_nat m @ '',t='' @ itoa_nat t @ '',p='' @ itoa_nat p) = Some (m, t, p)"
proof -
  have c: "\<not> is_digit CHR '',''" by code_simp
  have "scan_text ''m='' (''m='' @ s) = Some s" "scan_text '',t='' ('',t='' @ s) = Some s" "scan_text '',p='' ('',p='' @ s) = Some s" for s
    by (simp_all add: scan_text_def has_prefix_def)
  moreover have "scan_uint 32 (itoa_nat m @ '',t='' @ s) = Some (m, '',t='' @ s)"
    "scan_uint 32 (itoa_nat t @ '',p='' @ s) = Some (t, '',p='' @ s)" for s
    using scan_uint_itoa [of "'',t='' @ s" m 32] scan_uint_itoa [of "'',p='' @ s" t 32] assms c by simp_all
  moreover have "scan_uint 8 (itoa_nat p) = Some (p, [])" using scan_uint_itoa [of "[]" p 8] assms by simp
  ultimately show ?thesis unfolding scan_parameters_def by (simp del: append.simps)
qed

lemma hash_text_parts:
  "split_on CHR ''$'' (hash_text salt hash) =
     [[], ''argon2id'', ''v='' @ itoa_nat 19,
      ''m='' @ itoa_nat Argon2Memory @ '',t='' @ itoa_nat Argon2Time @ '',p='' @ itoa_nat Argon2Threads,
      raw_std_encode salt, raw_std_encode hash]" (is "_ = ?parts")
proof -
  have "\<not> is_digit CHR ''$''" by code_simp
  then have d: "CHR ''$'' \<notin> set (itoa_nat n)" for n
    using all_digits_itoa [of n] by (auto simp: all_digits_def list_all_iff)
  have "hash_text salt hash = join ''$'' ?parts" by (simp add: hash_text_def)
  moreover have "\<forall>x\<in>set ?parts. CHR ''$'' \<notin> set x" using d raw_std_no_dollar by simp
  ultimately show ?thesis using split_join [of ?parts "CHR ''$''"] by simp
qed

subsection \<open>Properties\<close>

text \<open>
  C26: The stored text of a password accepts that password, and another one only when Argon2 gives both the same
  key for the stored salt.
\<close>
theorem password_hash_verifies:
  assumes hash: "hash_password idkey (Some salt) p = Returned h"
    and len: "\<forall>pw s t m th n r. idkey pw s t m th n = Some r \<longrightarrow> length r = n"
  shows "verify_password idkey p h = Returned True \<and>
    (q \<noteq> [] \<longrightarrow> verify_password idkey q h =
       (case idkey q salt 3 65536 4 32 of None \<Rightarrow> Panicked | Some k \<Rightarrow> Returned (idkey p salt 3 65536 4 32 = Some k)))"
proof -
  have p: "p \<noteq> []" using hash by (auto simp: hash_password_def)
  then obtain k where k: "idkey p salt 3 65536 4 32 = Some k" and h: "h = hash_text salt k"
    using hash by (auto simp: hash_password_def Argon2Time_def Argon2Memory_def Argon2Threads_def Argon2KeyLen_def split: option.splits)
  have "length k = 32" using len k by blast
  have ne: "h \<noteq> []" by (simp add: h hash_text_def)
  have v: "scan_version (''v='' @ itoa_nat 19) = Some 19"
    using scan_int_itoa [of 19 64] by (simp add: scan_version_def scan_text_def has_prefix_def)
  have "(65536 :: nat) < 2 ^ 32" "(3 :: nat) < 2 ^ 32" "(4 :: nat) < 2 ^ 8" by simp_all
  note par = scan_parameters_text [OF this]
  have "verify_password idkey q h =
      (case idkey q salt 3 65536 4 32 of None \<Rightarrow> Panicked | Some c \<Rightarrow> Returned (k = c))" if "q \<noteq> []" for q
    using that ne unfolding verify_password_def h hash_text_parts Argon2Time_def Argon2Memory_def Argon2Threads_def
    by (simp only: list.case v par option.case prod.case raw_std_roundtrip \<open>length k = 32\<close> if_False simp_thms)
  with p k show ?thesis by (simp split: option.split)
qed

text \<open>
  A random text has the length asked for, and its characters are letters, digits, dashes and underscores.
\<close>
theorem random_string_length:
  assumes "generate_random_string (Some b) n = Returned s" "int (length b) = n"
  shows "int (length s) = n \<and> (\<forall>c\<in>set s. is_upper c \<or> is_lower c \<or> is_digit c \<or> c = CHR ''-'' \<or> c = CHR ''_'')"
proof -
  let ?t = "map b64_url (sextets (map byte b))"
  have n: "0 < n" and s: "s = take (nat n) (url_encode b)"
    using assms(1) by (auto simp: generate_random_string_def split: if_splits)
  have len: "nat n \<le> length ?t" using length_sextets [of "map byte b"] assms(2) by simp
  have s: "s = take (nat n) ?t"
    using len unfolding s url_encode_def Let_def by simp
  have "is_upper (b64_url x) \<or> is_lower (b64_url x) \<or> is_digit (b64_url x) \<or> b64_url x = CHR ''-'' \<or> b64_url x = CHR ''_''" if "x < 64" for x
    using that by (auto simp: b64_url_def b64_std_def is_upper_def is_lower_def is_digit_def)
  moreover have "set s \<subseteq> set ?t" unfolding s by (rule set_take_subset)
  ultimately show ?thesis
    using sextets_bound [OF bytes_bound, of b] len n unfolding s by fastforce
qed

text \<open>A stored text with no rounds makes the verification panic.\<close>

theorem zero_rounds_panic:
  assumes "\<forall>pw s m th n. idkey pw s 0 m th n = None" "p \<noteq> []"
  shows "verify_password idkey p ''$argon2id$v=19$m=1,t=0,p=1$$'' = Panicked"
proof -
  have i: "itoa_nat 19 = ''19''" "itoa_nat 1 = ''1''" "itoa_nat 0 = ''0''" by code_simp+
  have "scan_version ''v=19'' = Some 19"
    using scan_int_itoa [of 19 64] i by (simp add: scan_version_def scan_text_def has_prefix_def)
  moreover have "scan_parameters ''m=1,t=0,p=1'' = Some (1, 0, 1)"
    using scan_parameters_text [of 1 0 1] i by simp
  moreover have "split_on CHR ''$'' ''$argon2id$v=19$m=1,t=0,p=1$$'' = [[], ''argon2id'', ''v=19'', ''m=1,t=0,p=1'', [], []]"
    "raw_std_decode [] = Some []"
    by code_simp+
  ultimately show ?thesis using assms by (simp add: verify_password_def)
qed

subsection \<open>Witnesses\<close>

definition sample_argon :: argon where
  "sample_argon pw salt t m th n = (if t = 0 then None else Some (take n (pw @ salt @ replicate n CHR ''x'')))"

theorem password_hash_verifies_witness:
  "\<exists>h. hash_password sample_argon (Some ''salt'') ''abc'' = Returned h \<and> verify_password sample_argon ''abc'' h = Returned True \<and>
     verify_password sample_argon ''abd'' h = Returned False"
proof -
  define h where "h = hash_text ''salt'' (''abcsalt'' @ replicate 25 CHR ''x'')"
  have hash: "hash_password sample_argon (Some ''salt'') ''abc'' = Returned h"
    by (simp add: hash_password_def h_def sample_argon_def Argon2Time_def Argon2Memory_def Argon2Threads_def Argon2KeyLen_def)
  have len: "\<forall>pw s t m th n r. sample_argon pw s t m th n = Some r \<longrightarrow> length r = n"
    by (auto simp: sample_argon_def)
  have k: "sample_argon ''abc'' ''salt'' 3 65536 4 32 = Some (''abcsalt'' @ replicate 25 CHR ''x'')"
    "sample_argon ''abd'' ''salt'' 3 65536 4 32 = Some (''abdsalt'' @ replicate 25 CHR ''x'')"
    by (simp_all add: sample_argon_def)
  from password_hash_verifies [OF hash len, of "''abc''"] password_hash_verifies [OF hash len, of "''abd''"] hash show ?thesis
    by (simp add: k)
qed

theorem random_string_length_witness:
  "\<exists>s. generate_random_string (Some ''abcde'') 5 = Returned s \<and> int (length s) = 5"
proof -
  obtain s where s: "generate_random_string (Some ''abcde'') 5 = Returned s"
    by (simp add: generate_random_string_def)
  from random_string_length [OF s] s show ?thesis by auto
qed

end
