(* ===== verification/Pgp.thy ===== *)
theory Pgp
  imports Secrets Paths
begin

text \<open>
  The pair of PGP keys of the server (\<open>src/src/security/pgp.go\<close>): made, rotated, exported, imported and deleted. Files are
  texts under their names; which operations on files succeed, what a failed write leaves, OpenPGP, the key derivation
  and AES-GCM are parameters.
\<close>

subsection \<open>Keys and files\<close>

type_synonym key_files = "string \<Rightarrow> string option"

text \<open>What the code uses of an entity: its armoured texts (\<open>None\<close> when writing them fails) and its fingerprint.\<close>

record pgp_entity =
  pe_public :: "string option"
  pe_private :: "string option"
  pe_fingerprint :: string

record pgp_lib =
  pl_new :: "string \<Rightarrow> string \<Rightarrow> pgp_entity option"        \<comment> \<open>identity, address\<close>
  pl_read :: "string \<Rightarrow> pgp_entity list option"
  pl_kdf :: "string \<Rightarrow> string option"
  pl_nonce :: "string option"
  pl_seal :: "string \<Rightarrow> string \<Rightarrow> string \<Rightarrow> string"           \<comment> \<open>key, nonce, text\<close>
  pl_open :: "string \<Rightarrow> string \<Rightarrow> string \<Rightarrow> string option"

record key_io =
  ki_mkdir :: bool
  ki_write :: "string \<Rightarrow> bool"
  ki_left :: "string \<Rightarrow> string option \<Rightarrow> string option"   \<comment> \<open>the file after a write that failed\<close>
  ki_rename :: "string \<Rightarrow> string \<Rightarrow> bool"
  ki_remove :: "string \<Rightarrow> bool"
  ki_post :: "string \<Rightarrow> string \<Rightarrow> nat option"   \<comment> \<open>server, key; the status\<close>

datatype pgp_error =
    NoPgpDir | EntityFailed | PgpMkdirFailed | PublicKeyFailed | PrivateKeyFailed | ArchiveFailed string
  | ReadKeyFailed | StdoutPrivate | DecryptFailed | WriteKeyFailed | ParseRingFailed | NoKeys | RemoveFailed "string list"
  | PostFailed "string list"

definition pgp_sec_dir :: "string \<Rightarrow> string" where
  "pgp_sec_dir configDir = path_join configDir ''security''"

definition pgp_public_path :: "string \<Rightarrow> string" where
  "pgp_public_path configDir = path_join (pgp_sec_dir configDir) ''pgp.pub.asc''"

definition pgp_private_path :: "string \<Rightarrow> string" where
  "pgp_private_path configDir = path_join (pgp_sec_dir configDir) ''pgp.priv.asc.enc''"

definition pgp_keypair_exists :: "string \<Rightarrow> key_files \<Rightarrow> bool" where
  "pgp_keypair_exists configDir fs \<longleftrightarrow> fs (pgp_public_path configDir) \<noteq> None \<and> fs (pgp_private_path configDir) \<noteq> None"

subsection \<open>Encryption\<close>

definition aes_encrypt :: "pgp_lib \<Rightarrow> string \<Rightarrow> string \<Rightarrow> string option" where
  "aes_encrypt lib plaintext secret =
     (case pl_kdf lib secret of
        None \<Rightarrow> None
      | Some key \<Rightarrow> (case pl_nonce lib of None \<Rightarrow> None | Some nonce \<Rightarrow> Some (nonce @ pl_seal lib key nonce plaintext)))"

definition aes_decrypt :: "pgp_lib \<Rightarrow> string \<Rightarrow> string \<Rightarrow> string option" where
  "aes_decrypt lib ciphertext secret =
     (case pl_kdf lib secret of
        None \<Rightarrow> None
      | Some key \<Rightarrow> if length ciphertext < 12 then None else pl_open lib key (take 12 ciphertext) (drop 12 ciphertext))"

subsection \<open>Operations\<close>

definition write_key_file :: "key_io \<Rightarrow> string \<Rightarrow> string \<Rightarrow> key_files \<Rightarrow> bool \<times> key_files" where
  "write_key_file io path t fs =
     (ki_write io path, fs(path := if ki_write io path then Some t else ki_left io path (fs path)))"

definition write_public_key :: "key_io \<Rightarrow> pgp_entity \<Rightarrow> string \<Rightarrow> key_files \<Rightarrow> bool \<times> key_files" where
  "write_public_key io entity path fs =
     (case pe_public entity of None \<Rightarrow> (False, fs) | Some t \<Rightarrow> write_key_file io path t fs)"

definition write_encrypted_private_key ::
    "pgp_lib \<Rightarrow> key_io \<Rightarrow> pgp_entity \<Rightarrow> string \<Rightarrow> string \<Rightarrow> key_files \<Rightarrow> bool \<times> key_files" where
  "write_encrypted_private_key lib io entity path secret fs =
     (case pe_private entity of
        None \<Rightarrow> (False, fs)
      | Some t \<Rightarrow>
          (case aes_encrypt lib t secret of
             None \<Rightarrow> (False, fs)
           | Some encrypted \<Rightarrow> write_key_file io path encrypted fs))"

text \<open>The public key first, then the private one: the common end of making and importing a pair.\<close>

definition store_entity ::
    "pgp_lib \<Rightarrow> key_io \<Rightarrow> string \<Rightarrow> string \<Rightarrow> pgp_entity \<Rightarrow> key_files \<Rightarrow> pgp_error option \<times> key_files" where
  "store_entity lib io configDir secret entity fs =
     (if \<not> ki_mkdir io then (Some PgpMkdirFailed, fs)
      else case write_public_key io entity (pgp_public_path configDir) fs of
             (False, fs1) \<Rightarrow> (Some PublicKeyFailed, fs1)
           | (True, fs1) \<Rightarrow>
               (case write_encrypted_private_key lib io entity (pgp_private_path configDir) secret fs1 of
                  (False, fs2) \<Rightarrow> (Some PrivateKeyFailed, fs2)
                | (True, fs2) \<Rightarrow> (None, fs2)))"

definition generate_pgp_keypair ::
    "pgp_lib \<Rightarrow> key_io \<Rightarrow> string \<Rightarrow> string \<Rightarrow> string \<Rightarrow> string \<Rightarrow> key_files \<Rightarrow> pgp_error option \<times> key_files" where
  "generate_pgp_keypair lib io configDir appName contactEmail secret fs =
     (if configDir = [] then (Some NoPgpDir, fs)
      else case pl_new lib (appName @ '' Security'') (if contactEmail = [] then ''security@localhost'' else contactEmail) of
             None \<Rightarrow> (Some EntityFailed, fs)
           | Some entity \<Rightarrow> store_entity lib io configDir secret entity fs)"

text \<open>A missing file is not an error of the renaming.\<close>

fun archive_keys :: "key_io \<Rightarrow> string \<Rightarrow> string list \<Rightarrow> key_files \<Rightarrow> pgp_error option \<times> key_files" where
  "archive_keys io suffix [] fs = (None, fs)"
| "archive_keys io suffix (p # ps) fs =
     (if fs p = None then archive_keys io suffix ps fs
      else if ki_rename io p (p @ suffix) then archive_keys io suffix ps (fs(p @ suffix := fs p, p := None))
      else (Some (ArchiveFailed p), fs))"

text \<open>\<open>now\<close> in seconds since 1970.\<close>

definition rotate_pgp_keypair ::
    "pgp_lib \<Rightarrow> key_io \<Rightarrow> int \<Rightarrow> string \<Rightarrow> string \<Rightarrow> string \<Rightarrow> string \<Rightarrow> key_files \<Rightarrow> pgp_error option \<times> key_files" where
  "rotate_pgp_keypair lib io now configDir appName contactEmail secret fs =
     (if pgp_keypair_exists configDir fs then
        (case archive_keys io (''.old.'' @ itoa_int now) [pgp_public_path configDir, pgp_private_path configDir] fs of
           (Some e, fs1) \<Rightarrow> (Some e, fs1)
         | (None, fs1) \<Rightarrow> generate_pgp_keypair lib io configDir appName contactEmail secret fs1)
      else generate_pgp_keypair lib io configDir appName contactEmail secret fs)"

definition publish_pgp_key :: "key_io \<Rightarrow> string \<Rightarrow> string list \<Rightarrow> key_files \<Rightarrow> pgp_error option" where
  "publish_pgp_key io configDir keyservers fs =
     (case fs (pgp_public_path configDir) of
        None \<Rightarrow> Some ReadKeyFailed
      | Some pubKey \<Rightarrow>
          let servers = (if keyservers = [] then [''https://keys.openpgp.org/vks/v1/upload''] else keyservers);
              failed = filter (\<lambda>ks. case ki_post io ks pubKey of None \<Rightarrow> True | Some status \<Rightarrow> 400 \<le> status) servers
          in if failed = [] then None else Some (PostFailed failed))"

text \<open>The text for the standard output, the error, and the files.\<close>

definition export_pgp_public_key :: "key_io \<Rightarrow> string \<Rightarrow> string \<Rightarrow> key_files \<Rightarrow> string option \<times> pgp_error option \<times> key_files" where
  "export_pgp_public_key io configDir outPath fs =
     (case fs (pgp_public_path configDir) of
        None \<Rightarrow> (None, Some ReadKeyFailed, fs)
      | Some d \<Rightarrow>
          if outPath = [] \<or> outPath = ''-'' then (Some d, None, fs)
          else (case write_key_file io outPath d fs of
                  (False, fs1) \<Rightarrow> (None, Some WriteKeyFailed, fs1)
                | (True, fs1) \<Rightarrow> (None, None, fs1)))"

definition decrypt_private_key :: "pgp_lib \<Rightarrow> string \<Rightarrow> string \<Rightarrow> key_files \<Rightarrow> string option" where
  "decrypt_private_key lib path secret fs = Option.bind (fs path) (\<lambda>d. aes_decrypt lib d secret)"

definition export_pgp_private_key ::
    "pgp_lib \<Rightarrow> key_io \<Rightarrow> string \<Rightarrow> string \<Rightarrow> string \<Rightarrow> key_files \<Rightarrow> pgp_error option \<times> key_files" where
  "export_pgp_private_key lib io configDir outPath secret fs =
     (if outPath = [] \<or> outPath = ''-'' then (Some StdoutPrivate, fs)
      else case decrypt_private_key lib (pgp_private_path configDir) secret fs of
             None \<Rightarrow> (Some DecryptFailed, fs)
           | Some plaintext \<Rightarrow>
               (case write_key_file io outPath plaintext fs of
                  (False, fs1) \<Rightarrow> (Some WriteKeyFailed, fs1)
                | (True, fs1) \<Rightarrow> (None, fs1)))"

definition import_pgp_private_key ::
    "pgp_lib \<Rightarrow> key_io \<Rightarrow> string \<Rightarrow> string \<Rightarrow> string \<Rightarrow> key_files \<Rightarrow> pgp_error option \<times> key_files" where
  "import_pgp_private_key lib io configDir keyFile secret fs =
     (case fs keyFile of
        None \<Rightarrow> (Some ReadKeyFailed, fs)
      | Some d \<Rightarrow>
          (case pl_read lib d of
             None \<Rightarrow> (Some ParseRingFailed, fs)
           | Some [] \<Rightarrow> (Some NoKeys, fs)
           | Some (entity # _) \<Rightarrow> store_entity lib io configDir secret entity fs))"

fun delete_keys :: "key_io \<Rightarrow> string list \<Rightarrow> key_files \<Rightarrow> string list \<times> key_files" where
  "delete_keys io [] fs = ([], fs)"
| "delete_keys io (p # ps) fs =
     (if fs p = None then delete_keys io ps fs
      else if ki_remove io p then delete_keys io ps (fs(p := None))
      else case delete_keys io ps fs of (errs, fs1) \<Rightarrow> (p # errs, fs1))"

definition delete_pgp_keypair :: "key_io \<Rightarrow> string \<Rightarrow> key_files \<Rightarrow> pgp_error option \<times> key_files" where
  "delete_pgp_keypair io configDir fs =
     (case delete_keys io [pgp_public_path configDir, pgp_private_path configDir] fs of
        (errs, fs1) \<Rightarrow> (if errs = [] then None else Some (RemoveFailed errs), fs1))"

definition pgp_public_key_fingerprint :: "pgp_lib \<Rightarrow> string \<Rightarrow> key_files \<Rightarrow> string" where
  "pgp_public_key_fingerprint lib configDir fs =
     (case Option.bind (fs (pgp_public_path configDir)) (pl_read lib) of
        Some (e # _) \<Rightarrow> hex_encode (pe_fingerprint e)
      | _ \<Rightarrow> [])"

subsection \<open>The names of the files\<close>

lemma path_join_last:
  assumes "normal_seg n" "n \<noteq> ''..''"
  shows "last (split_on CHR ''/'' (path_join a n)) = n"
proof -
  have n: "n \<noteq> []" "CHR ''/'' \<notin> set n" "n \<noteq> ''.''" using assms(1) by (auto simp: normal_seg_def)
  define p where "p = (if a = [] then n else a @ CHR ''/'' # n)"
  have j: "path_join a n = clean_path p" using n by (simp add: path_join_eq p_def)
  obtain xs where xs: "split_on CHR ''/'' p = xs @ [n]"
    using n by (cases "a = []") (auto simp: p_def split_join_two split_on_absent)
  define st where "st = clean_segs (is_abs p) (split_on CHR ''/'' p) []"
  have c: "clean_stack (is_abs p) st" unfolding st_def by (rule clean_stack_of)
  obtain st0 where st: "st = n # st0"
    using n assms(2) by (auto simp: st_def xs clean_segs_snoc clean_seg_def)
  have sp: "split_on CHR ''/'' (join ''/'' (rev st)) = rev st"
    using stack_no_slash [OF c] by (intro split_join) (auto simp: st)
  have "clean_path p = (if is_abs p then CHR ''/'' # join ''/'' (rev st) else join ''/'' (rev st))"
    by (simp add: clean_path_def st_def [symmetric] Let_def st)
  then show ?thesis using sp by (simp add: j st)
qed

lemma key_names:
  "last (split_on CHR ''/'' (pgp_public_path d)) = ''pgp.pub.asc''"
  "last (split_on CHR ''/'' (pgp_private_path d)) = ''pgp.priv.asc.enc''"
  by (auto simp: pgp_public_path_def pgp_private_path_def normal_seg_def intro!: path_join_last)

lemma split_on_suffix:
  assumes "c \<notin> set s"
  shows "last (split_on c (p @ s)) = last (split_on c p) @ s"
proof -
  have "split_on c (p @ s) = butlast (split_on c p) @ [last (split_on c p) @ s]"
  proof (induction p)
    case Nil
    then show ?case using assms by (simp add: split_on_absent)
  next
    case (Cons a p)
    obtain x xs where "split_on c p = x # xs" by (cases "split_on c p") auto
    with Cons show ?case by auto
  qed
  then show ?thesis by simp
qed

lemma key_paths_differ: "pgp_public_path d \<noteq> pgp_private_path d"
proof
  assume "pgp_public_path d = pgp_private_path d"
  then show False using key_names [of d] by simp
qed

lemma archived_paths_differ:
  assumes "CHR ''/'' \<notin> set s" "s \<noteq> []"
  shows "pgp_public_path d @ s \<noteq> pgp_private_path d" "pgp_private_path d @ s \<noteq> pgp_public_path d"
    "pgp_public_path d @ s \<noteq> pgp_private_path d @ s"
proof -
  show "pgp_public_path d @ s \<noteq> pgp_private_path d"
  proof
    assume "pgp_public_path d @ s = pgp_private_path d"
    then have "''pgp.pub.asc'' @ s = ''pgp.priv.asc.enc''" using split_on_suffix [OF assms(1), of "pgp_public_path d"] key_names [of d] by simp
    then show False by simp
  qed
  show "pgp_private_path d @ s \<noteq> pgp_public_path d"
  proof
    assume "pgp_private_path d @ s = pgp_public_path d"
    then have "''pgp.priv.asc.enc'' @ s = ''pgp.pub.asc''" using split_on_suffix [OF assms(1), of "pgp_private_path d"] key_names [of d] by simp
    then show False by simp
  qed
  show "pgp_public_path d @ s \<noteq> pgp_private_path d @ s" using key_paths_differ by simp
qed

lemma suffix_plain: "CHR ''/'' \<notin> set (''.old.'' @ itoa_int now)"
  using all_digits_itoa [of "nat now"] all_digits_itoa [of "nat (- now)"]
  by (auto simp: itoa_int_def all_digits_def list_all_iff is_digit_def)

subsection \<open>Making and exchanging pairs\<close>

definition sealing_ok :: "pgp_lib \<Rightarrow> bool" where
  "sealing_ok lib \<longleftrightarrow> (\<forall>n. pl_nonce lib = Some n \<longrightarrow> length n = 12) \<and> (\<forall>k n t. pl_open lib k n (pl_seal lib k n t) = Some t)"

lemma aes_roundtrip: "sealing_ok lib \<Longrightarrow> aes_encrypt lib t secret = Some c \<Longrightarrow> aes_decrypt lib c secret = Some t"
  by (auto simp: sealing_ok_def aes_encrypt_def aes_decrypt_def split: option.splits)

lemma store_entity_frame:
  "p \<noteq> pgp_public_path d \<Longrightarrow> p \<noteq> pgp_private_path d \<Longrightarrow> snd (store_entity lib io d secret e fs) p = fs p"
  by (auto simp: store_entity_def write_public_key_def write_encrypted_private_key_def write_key_file_def
      split: option.splits bool.splits prod.splits)

lemma store_entity_stored:
  assumes "store_entity lib io d secret e fs = (None, fs1)"
  obtains t u c where "pe_public e = Some u" "pe_private e = Some t" "aes_encrypt lib t secret = Some c"
    "fs1 = fs(pgp_public_path d := Some u, pgp_private_path d := Some c)"
  using assms key_paths_differ [of d]
  by (auto simp: store_entity_def write_public_key_def write_encrypted_private_key_def write_key_file_def
      split: option.splits bool.splits prod.splits if_splits)

lemma generate_frame:
  "p \<noteq> pgp_public_path d \<Longrightarrow> p \<noteq> pgp_private_path d \<Longrightarrow>
    snd (generate_pgp_keypair lib io d app mail secret fs) p = fs p"
  by (auto simp: generate_pgp_keypair_def store_entity_frame split: option.splits)

text \<open>
  C33: A pair that was made is on the disk: the public key as it is, the private key only in a form that the secret of
  the installation opens again. No other file changes.
\<close>

theorem generated_pair_recovered:
  assumes "generate_pgp_keypair lib io d app mail secret fs = (None, fs1)" "sealing_ok lib"
  shows "\<exists>e t u. pl_new lib (app @ '' Security'') (if mail = [] then ''security@localhost'' else mail) = Some e \<and>
    pe_public e = Some u \<and> pe_private e = Some t \<and> pgp_keypair_exists d fs1 \<and> fs1 (pgp_public_path d) = Some u \<and>
    fs1 (pgp_private_path d) = aes_encrypt lib t secret \<and> decrypt_private_key lib (pgp_private_path d) secret fs1 = Some t \<and>
    (\<forall>p. p \<noteq> pgp_public_path d \<and> p \<noteq> pgp_private_path d \<longrightarrow> fs1 p = fs p)"
proof -
  obtain e where e: "pl_new lib (app @ '' Security'') (if mail = [] then ''security@localhost'' else mail) = Some e"
    and s: "store_entity lib io d secret e fs = (None, fs1)"
    using assms(1) by (auto simp: generate_pgp_keypair_def split: if_splits option.splits)
  obtain t u c where k: "pe_public e = Some u" "pe_private e = Some t" "aes_encrypt lib t secret = Some c"
    "fs1 = fs(pgp_public_path d := Some u, pgp_private_path d := Some c)" by (rule store_entity_stored [OF s])
  have "decrypt_private_key lib (pgp_private_path d) secret fs1 = Some t"
    using aes_roundtrip [OF assms(2) k(3)] by (simp add: decrypt_private_key_def k(4))
  then show ?thesis using e k key_paths_differ [of d] by (auto simp: pgp_keypair_exists_def)
qed

text \<open>
  A private key exported under one secret can be imported elsewhere under another, provided the package reads back
  what it wrote.
\<close>

theorem exported_key_imports:
  assumes ok: "sealing_ok lib"
    and stored: "decrypt_private_key lib (pgp_private_path d) secret fs = Some t"
    and exported: "export_pgp_private_key lib io d out secret fs = (None, fs1)"
    and imported: "import_pgp_private_key lib io d' out secret' fs1 = (None, fs2)"
    and reads: "\<forall>e es. pl_read lib t = Some (e # es) \<longrightarrow> pe_private e = Some t"
  shows "fs1 out = Some t \<and> decrypt_private_key lib (pgp_private_path d') secret' fs2 = Some t"
proof -
  have out: "fs1 out = Some t"
    using exported stored by (auto simp: export_pgp_private_key_def write_key_file_def split: if_splits option.splits bool.splits)
  obtain e es where r: "pl_read lib t = Some (e # es)" and s: "store_entity lib io d' secret' e fs1 = (None, fs2)"
    using imported out by (auto simp: import_pgp_private_key_def split: option.splits list.splits)
  obtain t' u c where k: "pe_public e = Some u" "pe_private e = Some t'" "aes_encrypt lib t' secret' = Some c"
    "fs2 = fs1(pgp_public_path d' := Some u, pgp_private_path d' := Some c)" by (rule store_entity_stored [OF s])
  have "t' = t" using reads r k(2) by simp
  then show ?thesis using aes_roundtrip [OF ok k(3)] out by (simp add: decrypt_private_key_def k(4))
qed

text \<open>A file whose private key cannot be written replaces the public key only: the pair no longer belongs together.\<close>

theorem import_splits_pair:
  assumes "fs f = Some d0" "pl_read lib d0 = Some [e]" "pe_public e = Some u" "pe_private e = None"
    "ki_mkdir io" "\<forall>p. ki_write io p"
  shows "import_pgp_private_key lib io d f secret fs = (Some PrivateKeyFailed, fs(pgp_public_path d := Some u))"
  using assms by (simp add: import_pgp_private_key_def store_entity_def write_public_key_def
      write_encrypted_private_key_def write_key_file_def)

subsection \<open>Rotation and deletion\<close>

lemma archive_both:
  assumes "\<forall>p q. ki_rename io p q" "pgp_keypair_exists d fs" "CHR ''/'' \<notin> set s" "s \<noteq> []"
  shows "archive_keys io s [pgp_public_path d, pgp_private_path d] fs =
    (None, fs(pgp_public_path d @ s := fs (pgp_public_path d), pgp_public_path d := None,
              pgp_private_path d @ s := fs (pgp_private_path d), pgp_private_path d := None))"
  using assms archived_paths_differ [OF assms(3,4), of d] key_paths_differ [of d]
  by (auto simp: pgp_keypair_exists_def)

text \<open>
  A rotation keeps the old pair under the names with the time, whatever becomes of the new one. When no new one can
  be made, the server is left without a pair.
\<close>

theorem rotation_keeps_old:
  assumes pair: "pgp_keypair_exists d fs" and ren: "\<forall>p q. ki_rename io p q"
    and rot: "rotate_pgp_keypair lib io now d app mail secret fs = (r, fs1)"
  shows "fs1 (pgp_public_path d @ ''.old.'' @ itoa_int now) = fs (pgp_public_path d) \<and>
    fs1 (pgp_private_path d @ ''.old.'' @ itoa_int now) = fs (pgp_private_path d) \<and>
    ((\<forall>i m. pl_new lib i m = None) \<longrightarrow> r \<noteq> None \<and> fs1 (pgp_public_path d) = None \<and> fs1 (pgp_private_path d) = None)"
proof -
  let ?s = "''.old.'' @ itoa_int now"
  let ?old = "fs(pgp_public_path d @ ?s := fs (pgp_public_path d), pgp_public_path d := None,
              pgp_private_path d @ ?s := fs (pgp_private_path d), pgp_private_path d := None)"
  have s: "CHR ''/'' \<notin> set ?s" "?s \<noteq> []" by (rule suffix_plain) simp
  have g: "generate_pgp_keypair lib io d app mail secret ?old = (r, fs1)"
    using rot archive_both [OF ren pair s] pair by (simp add: rotate_pgp_keypair_def)
  note ne = archived_paths_differ [OF s, of d] key_paths_differ [of d]
  have "fs1 p = ?old p" if "p \<noteq> pgp_public_path d" "p \<noteq> pgp_private_path d" for p
    using generate_frame [OF that, of lib io app mail secret ?old] g by simp
  from this [of "pgp_public_path d @ ?s"] this [of "pgp_private_path d @ ?s"]
  have "fs1 (pgp_public_path d @ ?s) = fs (pgp_public_path d)" "fs1 (pgp_private_path d @ ?s) = fs (pgp_private_path d)"
    using ne by auto
  moreover have "r \<noteq> None \<and> fs1 (pgp_public_path d) = None \<and> fs1 (pgp_private_path d) = None" if "\<forall>i m. pl_new lib i m = None"
    using g that ne by (auto simp: generate_pgp_keypair_def split: if_splits)
  ultimately show ?thesis by simp
qed

text \<open>A deletion without an error leaves neither file, and touches nothing else.\<close>

theorem deletion_complete:
  assumes "delete_pgp_keypair io d fs = (None, fs1)"
  shows "fs1 = fs(pgp_public_path d := None, pgp_private_path d := None)"
  using assms by (auto simp: delete_pgp_keypair_def fun_eq_iff split: if_splits prod.splits)

text \<open>Posting to the key servers goes on after a failure and reports exactly those that failed.\<close>

theorem publication_errors:
  assumes "fs (pgp_public_path d) = Some k" "servers \<noteq> []"
  shows "publish_pgp_key io d servers fs =
    (if \<forall>s\<in>set servers. \<exists>st. ki_post io s k = Some st \<and> st < 400 then None
     else Some (PostFailed (filter (\<lambda>s. \<not> (\<exists>st. ki_post io s k = Some st \<and> st < 400)) servers)))"
proof -
  have e: "(case ki_post io s k of None \<Rightarrow> True | Some status \<Rightarrow> 400 \<le> status) =
      (\<not> (\<exists>st. ki_post io s k = Some st \<and> st < 400))" for s
    by (cases "ki_post io s k") auto
  show ?thesis using assms by (auto simp: publish_pgp_key_def e filter_empty_conv Let_def)
qed

subsection \<open>Witnesses\<close>

definition sample_pgp :: pgp_lib where
  "sample_pgp = \<lparr>pl_new = (\<lambda>i m. Some \<lparr>pe_public = Some ''pub'', pe_private = Some ''priv'', pe_fingerprint = ''f''\<rparr>),
     pl_read = (\<lambda>t. Some [\<lparr>pe_public = Some ''pub'', pe_private = Some t, pe_fingerprint = ''f''\<rparr>]),
     pl_kdf = Some, pl_nonce = Some ''123456789012'', pl_seal = (\<lambda>k n t. rev t), pl_open = (\<lambda>k n c. Some (rev c))\<rparr>"

definition sample_key_io :: key_io where
  "sample_key_io = \<lparr>ki_mkdir = True, ki_write = (\<lambda>p. True), ki_left = (\<lambda>p b. b), ki_rename = (\<lambda>p q. True),
     ki_remove = (\<lambda>p. True), ki_post = (\<lambda>s k. Some 200)\<rparr>"

lemma sample_sealing: "sealing_ok sample_pgp" by (simp add: sealing_ok_def sample_pgp_def)

lemma sample_generate: "\<exists>fs1. generate_pgp_keypair sample_pgp sample_key_io ''/c'' ''a'' [] ''s'' fs = (None, fs1)"
  by (simp add: generate_pgp_keypair_def store_entity_def write_public_key_def write_encrypted_private_key_def
      write_key_file_def aes_encrypt_def sample_pgp_def sample_key_io_def)

theorem generated_pair_recovered_witness:
  "\<exists>fs1. decrypt_private_key sample_pgp (pgp_private_path ''/c'') ''s'' fs1 = Some ''priv'' \<and> pgp_keypair_exists ''/c'' fs1"
proof -
  obtain fs1 where g: "generate_pgp_keypair sample_pgp sample_key_io ''/c'' ''a'' [] ''s'' (\<lambda>p. None) = (None, fs1)"
    using sample_generate by blast
  have n: "pl_new sample_pgp i m = Some e \<Longrightarrow> pe_private e = Some ''priv''" for i m e by (auto simp: sample_pgp_def)
  from generated_pair_recovered [OF g sample_sealing] n show ?thesis by fastforce
qed

theorem rotation_keeps_old_witness:
  "\<exists>r fs1. rotate_pgp_keypair sample_pgp sample_key_io 7 ''/c'' ''a'' [] ''s'' (\<lambda>p. Some ''x'') = (r, fs1) \<and>
    fs1 (pgp_public_path ''/c'' @ ''.old.'' @ itoa_int 7) = Some ''x''"
proof -
  obtain r fs1 where r: "rotate_pgp_keypair sample_pgp sample_key_io 7 ''/c'' ''a'' [] ''s'' (\<lambda>p. Some ''x'') = (r, fs1)"
    by fastforce
  have "pgp_keypair_exists ''/c'' (\<lambda>p. Some ''x'')" "\<forall>p q. ki_rename sample_key_io p q"
    by (simp_all add: pgp_keypair_exists_def sample_key_io_def)
  from rotation_keeps_old [OF this r] r show ?thesis by blast
qed

end
