(* ===== verification/WhoisHttp.thy ===== *)
theory WhoisHttp
  imports HttpGuard Records
begin

text \<open>
  WHOIS lookups over HTTP: the handlers of \<open>src/src/server/whois_handlers.go\<close>, \<open>handleWHOIS\<close> of \<open>server.go\<close> and
  the page of \<open>public_handler.go\<close>, their routes, and the choice of a format (\<open>content.go\<close>). A handler gets the state that
  lookups share: the cache, the records and the counters. JSON objects built from Go maps have their keys in
  the order of the encoder. The goroutine that stores a record is taken to run before the answer.
\<close>

subsection \<open>Clients and formats\<close>

datatype http_client_type = ClientTypeHTML | ClientTypeJSON | ClientTypeText

definition InternalName :: string where "InternalName = ''caswhois''"

definition is_our_cli_client :: "string \<Rightarrow> bool" where
  "is_our_cli_client ua \<longleftrightarrow> has_prefix ua (InternalName @ ''-cli/'') \<or> ua = InternalName @ ''-cli''"

definition is_text_browser :: "string \<Rightarrow> bool" where
  "is_text_browser ua \<longleftrightarrow>
     list_ex (contains_sub (to_lower ua))
       [''lynx/'', ''w3m/'', ''links '', ''links/'', ''elinks/'', ''browsh/'', ''carbonyl/'', ''netsurf'']"

definition is_http_tool :: "string \<Rightarrow> bool" where
  "is_http_tool ua \<longleftrightarrow>
     list_ex (contains_sub (to_lower ua))
       [''curl/'', ''wget/'', ''httpie/'', ''libcurl/'', ''python-requests/'', ''go-http-client/'', ''axios/'', ''node-fetch/''] \<or>
     to_lower ua = []"

definition is_non_interactive_client :: "string \<Rightarrow> bool" where
  "is_non_interactive_client ua \<longleftrightarrow> \<not> is_our_cli_client ua \<and> \<not> is_text_browser ua \<and> is_http_tool ua"

definition is_browser_user_agent :: "string \<Rightarrow> bool" where
  "is_browser_user_agent ua \<longleftrightarrow>
     list_ex (contains_sub ua)
       [''Mozilla/'', ''Chrome/'', ''Safari/'', ''Edge/'', ''Firefox/'', ''Opera/'', ''MSIE'', ''Trident/'']"

definition detect_client_type :: "http_request \<Rightarrow> http_client_type" where
  "detect_client_type r =
     (let accept = header r ''Accept''; ua = header r ''User-Agent''
      in if contains_sub accept ''text/html'' then ClientTypeHTML
         else if contains_sub accept ''application/json'' then ClientTypeJSON
         else if contains_sub accept ''text/plain'' then ClientTypeText
         else if is_our_cli_client ua then ClientTypeJSON
         else if is_text_browser ua then ClientTypeHTML
         else if is_browser_user_agent ua then ClientTypeHTML
         else if is_non_interactive_client ua then ClientTypeText
         else ClientTypeHTML)"

definition determine_response_format :: "http_request \<Rightarrow> string" where
  "determine_response_format r =
     (let format = to_lower (rq_query r ''format''); accept = to_lower (header r ''Accept'')
      in if format \<in> set [''json'', ''xml'', ''text'', ''html''] then format
         else if contains_sub accept ''application/xml'' \<or> contains_sub accept ''text/xml'' then ''xml''
         else if contains_sub accept ''text/plain'' then ''text''
         else if contains_sub accept ''text/html'' then ''html''
         else ''json'')"

subsection \<open>Answers\<close>

definition answer :: "int \<Rightarrow> string \<Rightarrow> body \<Rightarrow> writer \<Rightarrow> response" where
  "answer status ctype b w = \<lparr>rs_status = status, rs_writer = set_head ''Content-Type'' ctype w, rs_body = b\<rparr>"

definition send_success :: "json \<Rightarrow> writer \<Rightarrow> response" where
  "send_success d w = answer 200 ''application/json'' (JsonData d) w"

definition text_type :: string where "text_type = ''text/plain; charset=utf-8''"
definition html_type :: string where "html_type = ''text/html; charset=utf-8''"

text \<open>\<open>template.HTMLEscapeString\<close>.\<close>

definition html_char :: "char \<Rightarrow> string" where
  "html_char c =
     (if c = CHR ''&'' then ''&amp;'' else if c = CHR ''<'' then ''&lt;'' else if c = CHR ''>'' then ''&gt;''
      else if c = CHR 0x22 then ''&#34;'' else if c = CHR 0x27 then ''&#39;''
      else if c = CHR 0x00 then [CHR 0xEF, CHR 0xBF, CHR 0xBD] else [c])"

definition html_escape :: "string \<Rightarrow> string" where
  "html_escape s = concat (map html_char s)"

text \<open>\<open>i18n.Dir\<close>.\<close>

definition text_dir :: "string \<Rightarrow> string" where
  "text_dir l = (if l = ''ar'' then ''rtl'' else ''ltr'')"

text \<open>The lines of the page; a grave accent stands for a double quote.\<close>

definition html_lines :: "string list \<Rightarrow> string" where
  "html_lines ls = map (\<lambda>c. if byte c = 96 then CHR 0x22 else c) (join [CHR 0x0A] ls)"

definition page_top :: string where
  "page_top = html_lines [
     ''<head>'',
     ''<meta charset=`UTF-8`>'',
     ''<meta name=`viewport` content=`width=device-width,initial-scale=1`>'',
     ''<title>WHOIS: '']"

definition page_nav :: string where
  "page_nav = html_lines [
     '' '' @ [CHR 0xE2, CHR 0x80, CHR 0x94] @ '' caswhois</title>'',
     ''<link rel=`stylesheet` href=`/static/css/main.css`>'',
     ''</head>'',
     ''<body>'',
     ''<nav class=`site-nav` aria-label=`Site navigation`>'',
     ''  <div class=`nav-inner`>'',
     ''    <a href=`/` class=`nav-brand` aria-label=`caswhois home`>caswhois</a>'',
     ''    <ul class=`nav-links` role=`list`>'',
     ''      <li><a href=`/about`>About</a></li>'',
     ''      <li><a href=`/docs`>API Docs</a></li>'',
     ''    </ul>'',
     ''  </div>'',
     ''</nav>'',
     ''<main id=`main-content`>'',
     ''  <div class=`container` style=`padding-top:2rem;padding-bottom:2rem`>'',
     ''    <div class=`card`>'',
     ''      <div class=`result-meta` style=`margin-bottom:1rem`>'',
     ''        <div class=`meta-item`>'',
     ''          <div class=`meta-label`>Query</div>'',
     ''          <div class=`meta-value long-string`>'']"

definition page_item :: "string \<Rightarrow> string \<Rightarrow> string \<Rightarrow> string" where
  "page_item close label start = html_lines [
     close @ ''</div>'',
     ''        </div>'',
     ''        <div class=`meta-item`>'',
     ''          <div class=`meta-label`>'' @ label @ ''</div>'',
     ''          <div class=`meta-value'' @ start]"

definition page_end :: string where
  "page_end = html_lines [
     ''</pre>'',
     ''      <p style=`margin-top:1rem`><a href=`/`>&larr; New lookup</a></p>'',
     ''    </div>'',
     ''  </div>'',
     ''</main>'',
     ''<footer class=`site-footer`>'',
     ''  <p><a href=`/`>caswhois</a> &mdash; <a href=`/about`>About</a> &middot; <a href=`/docs`>API Docs</a></p>'',
     ''</footer>'',
     ''<script src=`/static/js/main.js` defer></script>'',
     ''</body>'',
     ''</html>'']"

definition result_page :: "(time \<Rightarrow> string) \<Rightarrow> string \<Rightarrow> whois_result \<Rightarrow> string" where
  "result_page fmt l r =
     html_lines [''<!DOCTYPE html>'', ''<html lang=`''] @ l @ html_lines [''` dir=`''] @ text_dir l @
     html_lines [''`>'', []] @ page_top @ w_query r @ page_nav @ html_escape (w_query r) @
     page_item [] ''Type'' ''`><span class=`type-badge`>'' @ html_escape (query_type_string (w_type r)) @
     page_item ''</span>'' ''Server'' '' long-string`>'' @ html_escape (w_server r) @
     page_item [] ''Timestamp'' ''`>'' @ html_escape (fmt (w_timestamp r)) @
     html_lines [''</div>'', ''        </div>'', ''      </div>'', ''      <pre class=`whois-raw` aria-label=`Raw WHOIS data`>''] @
     html_escape (w_raw r) @ page_end"

definition send_html_response :: "(time \<Rightarrow> string) \<Rightarrow> http_request \<Rightarrow> whois_result \<Rightarrow> writer \<Rightarrow> response" where
  "send_html_response fmt rq r w = answer 200 html_type (Page (result_page fmt (ctx_lang rq) r)) w"

definition send_text_response :: "(time \<Rightarrow> string) \<Rightarrow> whois_result \<Rightarrow> writer \<Rightarrow> response" where
  "send_text_response fmt r w =
     answer 200 text_type
       (Text (''Query: '' @ w_query r @ [CHR 0x0A] @ ''Type: '' @ query_type_string (w_type r) @ [CHR 0x0A] @
              ''Server: '' @ w_server r @ [CHR 0x0A] @ ''Timestamp: '' @ fmt (w_timestamp r) @ [CHR 0x0A, CHR 0x0A] @ w_raw r)) w"

definition send_xml_response :: "(time \<Rightarrow> string) \<Rightarrow> whois_result \<Rightarrow> writer \<Rightarrow> response" where
  "send_xml_response fmt r w =
     answer 200 ''application/xml; charset=utf-8''
       (XmlData [(''query'', w_query r), (''type'', query_type_string (w_type r)), (''server'', w_server r),
                 (''timestamp'', fmt (w_timestamp r)), (''raw'', w_raw r)]) w"

text \<open>\<open>err.Error()\<close> of the errors that \<open>QueryWHOISWithCache\<close> returns.\<close>

fun tcp_error_text :: "tcp_error \<Rightarrow> string" where
  "tcp_error_text (ConnectionFailed e) = ''connection failed: '' @ e"
| "tcp_error_text (TcpWriteFailed e) = ''write failed: '' @ e"
| "tcp_error_text (TcpReadFailed e) = ''read failed: '' @ e"

fun whois_error_text :: "lookup_error \<Rightarrow> string" where
  "whois_error_text InvalidQuery = ''invalid query: cannot determine type''"
| "whois_error_text FailedRecently = ''WHOIS query failed recently, please try again later''"
| "whois_error_text NoServer = ''no WHOIS server available for query type''"
| "whois_error_text (WhoisFailed e) = ''WHOIS query failed: '' @ tcp_error_text e"
| "whois_error_text _ = []"

subsection \<open>The shared state\<close>

text \<open>
  \<open>we_records\<close> is \<open>None\<close> without a database; \<open>we_format\<close> writes a time by RFC 3339 in the zone of the server; the parsed parts are
  encoded by \<open>encoding/json\<close>; \<open>we_body\<close> decodes the body of a bulk request.
\<close>

record whois_env =
  we_api :: string
  we_json :: json_codec
  we_tcp :: "string \<Rightarrow> string \<Rightarrow> tcp_peer"
  we_clock :: clock
  we_records :: "records_env option"
  we_now :: time
  we_format :: "time \<Rightarrow> string"
  we_domain :: "domain_result \<Rightarrow> json"
  we_ip :: "ip_result \<Rightarrow> json"
  we_asn :: "asn_result \<Rightarrow> json"
  we_body :: "string \<Rightarrow> string list option"
  we_sha :: "string \<Rightarrow> string"
  we_token :: string

record whois_state =
  ws_cache :: "any_cache option"
  ws_rows :: "record_row list"
  ws_domain :: int
  ws_ip :: int
  ws_asn :: int

definition cached_query :: "whois_env \<Rightarrow> string \<Rightarrow> whois_state \<Rightarrow> whois_result outcome \<times> whois_state" where
  "cached_query env query s =
     (case query_whois_with_cache (we_json env) (we_tcp env) (we_clock env) query (ws_cache s) of
        (res, c) \<Rightarrow> (res, s\<lparr>ws_cache := c\<rparr>))"

definition result_data :: "whois_env \<Rightarrow> whois_result \<Rightarrow> (string \<times> json) list" where
  "result_data env r =
     [(''query'', JStr (w_query r)), (''raw'', JStr (w_raw r)), (''server'', JStr (w_server r)),
      (''timestamp'', JStr (we_format env (w_timestamp r))), (''type'', JStr (query_type_string (w_type r)))]"

text \<open>A query as the last part of the path.\<close>

definition path_query :: "whois_env \<Rightarrow> string \<Rightarrow> http_request \<Rightarrow> string" where
  "path_query env sub rq = trim_space (trim_prefix (rq_path rq) (we_api env @ sub))"

subsection \<open>Handlers\<close>

definition save_lookup :: "whois_env \<Rightarrow> string \<Rightarrow> whois_result \<Rightarrow> whois_state \<Rightarrow> whois_state" where
  "save_lookup env query r s =
     (case we_records env of
        None \<Rightarrow> s
      | Some renv \<Rightarrow>
          if w_domain r = None then s
          else s\<lparr>ws_rows := snd (upsert_record renv (we_now env) query (query_type_string (w_type r)) (w_domain r) (ws_rows s))\<rparr>)"

definition send_result :: "whois_env \<Rightarrow> http_request \<Rightarrow> whois_result \<Rightarrow> writer \<Rightarrow> response" where
  "send_result env rq r w =
     (let format = determine_response_format rq
      in if format = ''xml'' then send_xml_response (we_format env) r w
         else if format = ''text'' then send_text_response (we_format env) r w
         else if format = ''html'' then send_html_response (we_format env) rq r w
         else send_success (JObj (result_data env r)) w)"

definition lookup_failed :: "lookup_error \<Rightarrow> writer \<Rightarrow> response" where
  "lookup_failed e w = send_error ''SERVER_ERROR'' (''WHOIS lookup failed: '' @ whois_error_text e) w"

text \<open>The outcome \<open>Crash\<close> cannot arise here: see \<open>cached_query_no_crash\<close>.\<close>

definition perform_whois_lookup :: "whois_env \<Rightarrow> string \<Rightarrow> whois_state handler" where
  "perform_whois_lookup env query rq w s =
     (case validate_query query of
        Some e \<Rightarrow> (send_error ''VALIDATION_FAILED'' (''Invalid query: '' @ validation_error_text e) w, s)
      | None \<Rightarrow>
          (case cached_query env query s of
             (Ok r, s1) \<Rightarrow> (send_result env rq r w, save_lookup env query r s1)
           | (Err e, s1) \<Rightarrow> (lookup_failed e w, s1)
           | (Crash, s1) \<Rightarrow> (answer 500 [] NoBody w, s1)))"

definition typed_lookup ::
    "whois_env \<Rightarrow> string \<Rightarrow> query_type set \<Rightarrow> string \<Rightarrow> string \<Rightarrow> (whois_state \<Rightarrow> whois_state) \<Rightarrow> whois_state handler" where
  "typed_lookup env sub types missing invalid tally rq w s =
     (let query = path_query env sub rq
      in if query = [] then (send_error ''BAD_REQUEST'' missing w, s)
         else if detect_query_type query \<notin> types then (send_error ''VALIDATION_FAILED'' invalid w, s)
         else perform_whois_lookup env query rq w (tally s))"

definition handle_whois_domain_lookup :: "whois_env \<Rightarrow> whois_state handler" where
  "handle_whois_domain_lookup env =
     typed_lookup env ''/whois/domain/'' {QueryTypeDomain} ''Domain parameter required'' ''Invalid domain format''
       (\<lambda>s. s\<lparr>ws_domain := ws_domain s + 1\<rparr>)"

definition handle_whois_ip_lookup :: "whois_env \<Rightarrow> whois_state handler" where
  "handle_whois_ip_lookup env =
     typed_lookup env ''/whois/ip/'' {QueryTypeIPv4, QueryTypeIPv6} ''IP address parameter required''
       ''Invalid IP address format'' (\<lambda>s. s\<lparr>ws_ip := ws_ip s + 1\<rparr>)"

definition handle_whois_asn_lookup :: "whois_env \<Rightarrow> whois_state handler" where
  "handle_whois_asn_lookup env =
     typed_lookup env ''/whois/asn/'' {QueryTypeASN} ''ASN parameter required''
       ''Invalid ASN format (use AS prefix, e.g., AS15169)'' (\<lambda>s. s\<lparr>ws_asn := ws_asn s + 1\<rparr>)"

definition handle_whois_validate :: "whois_env \<Rightarrow> whois_state handler" where
  "handle_whois_validate env rq w s =
     (let query = path_query env ''/whois/validate/'' rq
      in if query = [] then (send_error ''BAD_REQUEST'' ''Query parameter required'' w, s)
         else (case validate_query query of
                 Some e \<Rightarrow>
                   (send_success (JObj [(''message'', JStr (validation_error_text e)), (''query'', JStr query),
                      (''type'', JStr ''unknown''), (''valid'', JBool False)]) w, s)
               | None \<Rightarrow>
                   (send_success (JObj [(''query'', JStr query), (''type'', JStr (query_type_string (detect_query_type query))),
                      (''valid'', JBool True)]) w, s)))"

definition handle_whois :: "whois_env \<Rightarrow> whois_state handler" where
  "handle_whois env rq w s =
     (let query = path_query env ''/whois/'' rq
      in if query = [] then (send_error ''BAD_REQUEST'' ''Query parameter required'' w, s)
         else (case validate_query query of
                 Some e \<Rightarrow> (send_error ''VALIDATION_FAILED'' (''Invalid query: '' @ validation_error_text e) w, s)
               | None \<Rightarrow>
                   (case cached_query env query s of
                      (Ok r, s1) \<Rightarrow>
                        (send_success (JObj (
                           (case w_asn r of None \<Rightarrow> [] | Some a \<Rightarrow> [(''asn'', we_asn env a)]) @
                           (case w_domain r of None \<Rightarrow> [] | Some d \<Rightarrow> [(''domain'', we_domain env d)]) @
                           (case w_ip r of None \<Rightarrow> [] | Some i \<Rightarrow> [(''ip'', we_ip env i)]) @ result_data env r)) w, s1)
                    | (Err e, s1) \<Rightarrow> (lookup_failed e w, s1)
                    | (Crash, s1) \<Rightarrow> (answer 500 [] NoBody w, s1))))"

text \<open>One query of a bulk request; \<open>None\<close> for a blank one.\<close>

definition bulk_error :: "string \<Rightarrow> string \<Rightarrow> json" where
  "bulk_error query msg = JObj [(''error'', JStr msg), (''query'', JStr query), (''success'', JBool False)]"

definition bulk_entry :: "whois_env \<Rightarrow> string \<Rightarrow> whois_state \<Rightarrow> json \<times> whois_state" where
  "bulk_entry env query s =
     (case validate_query query of
        Some e \<Rightarrow> (bulk_error query (validation_error_text e), s)
      | None \<Rightarrow>
          (case cached_query env query s of
             (Ok r, s1) \<Rightarrow>
               (JObj [(''query'', JStr (w_query r)), (''raw'', JStr (w_raw r)), (''server'', JStr (w_server r)),
                      (''success'', JBool True), (''timestamp'', JStr (we_format env (w_timestamp r))),
                      (''type'', JStr (query_type_string (w_type r)))], s1)
           | (Err e, s1) \<Rightarrow> (bulk_error query (whois_error_text e), s1)
           | (Crash, s1) \<Rightarrow> (JNull, s1)))"

fun bulk_lookups :: "whois_env \<Rightarrow> string list \<Rightarrow> whois_state \<Rightarrow> json list \<times> whois_state" where
  "bulk_lookups env [] s = ([], s)"
| "bulk_lookups env (q # qs) s =
     (let query = trim_space q
      in if query = [] then bulk_lookups env qs s
         else case bulk_entry env query s of
                (e, s1) \<Rightarrow> (case bulk_lookups env qs s1 of (es, s2) \<Rightarrow> (e # es, s2)))"

text \<open>The body of the request is the form field of no name.\<close>

definition handle_whois_bulk_lookup :: "whois_env \<Rightarrow> whois_state handler" where
  "handle_whois_bulk_lookup env rq w s =
     (case we_body env (rq_form rq []) of
        None \<Rightarrow> (send_error ''BAD_REQUEST'' ''Invalid request body'' w, s)
      | Some queries \<Rightarrow>
          if queries = [] then (send_error ''BAD_REQUEST'' ''Queries array required'' w, s)
          else if 100 < length queries then
            (send_error ''BAD_REQUEST'' ''Maximum 100 queries allowed per bulk request'' w, s)
          else (case bulk_lookups env queries s of
                  (results, s1) \<Rightarrow>
                    (send_success (JObj [(''count'', JNum (itoa_nat (length results))), (''results'', JArr results)]) w, s1)))"

definition handle_whois_page :: "whois_env \<Rightarrow> whois_state handler" where
  "handle_whois_page env rq w s =
     (let q = trim_space (rq_query rq ''q''); ct = detect_client_type rq; accept = header rq ''Accept''
      in if ct = ClientTypeText \<or> contains_sub accept ''text/plain'' then
           (if q = [] then (answer 400 text_type (Text (''Usage: GET /whois?q=<domain|ip|asn>'' @ [CHR 0x0A])) w, s)
            else case cached_query env q s of
                   (Ok r, s1) \<Rightarrow> (answer 200 text_type (Text (w_raw r)) w, s1)
                 | (Err e, s1) \<Rightarrow> (answer 500 text_type (Text (''WHOIS lookup failed: '' @ whois_error_text e @ [CHR 0x0A])) w, s1)
                 | (Crash, s1) \<Rightarrow> (answer 500 [] NoBody w, s1))
         else if ct = ClientTypeJSON \<or> contains_sub accept ''application/json'' then
           (if q = [] then (send_error ''BAD_REQUEST'' ''Query parameter q is required'' w, s)
            else case cached_query env q s of
                   (Ok r, s1) \<Rightarrow> (send_success (JObj (result_data env r)) w, s1)
                 | (Err e, s1) \<Rightarrow> (lookup_failed e w, s1)
                 | (Crash, s1) \<Rightarrow> (answer 500 [] NoBody w, s1))
         else if q = [] then (answer 200 html_type (Template ''whois.html'' [(''Query'', q)]) w, s)
         else (case cached_query env q s of
                 (Ok r, s1) \<Rightarrow>
                   (answer 200 html_type (Template ''whois.html''
                      [(''Query'', q), (''Result.Query'', w_query r), (''Result.Type'', query_type_string (w_type r)),
                       (''Result.Server'', w_server r), (''Result.Timestamp'', we_format env (w_timestamp r)),
                       (''Result.Raw'', w_raw r)]) w, s1)
               | (Err e, s1) \<Rightarrow>
                   (answer 200 html_type (Template ''whois.html''
                      [(''Query'', q), (''Err'', ''WHOIS lookup failed: '' @ whois_error_text e)]) w, s1)
               | (Crash, s1) \<Rightarrow> (answer 500 [] NoBody w, s1)))"

text \<open>The routes; \<open>None\<close> where another component answers. A longer fixed prefix goes before the general one.\<close>

definition whois_route :: "whois_env \<Rightarrow> http_request \<Rightarrow> whois_state handler option" where
  "whois_route env rq =
     (let p = rq_path rq; under = (\<lambda>sub. has_prefix p (we_api env @ sub))
      in if rq_method rq = ''GET'' then
           (if p = ''/whois'' then Some (handle_whois_page env)
            else if p = we_api env @ ''/whois/search'' then None
            else if under ''/whois/domain/'' then Some (handle_whois_domain_lookup env)
            else if under ''/whois/ip/'' then Some (handle_whois_ip_lookup env)
            else if under ''/whois/asn/'' then Some (handle_whois_asn_lookup env)
            else if under ''/whois/validate/'' then Some (handle_whois_validate env)
            else if under ''/whois/'' then Some (handle_whois env)
            else None)
         else if rq_method rq = ''POST'' \<and> p = we_api env @ ''/whois/bulk'' then
           Some (require_token (we_sha env) (we_token env) (handle_whois_bulk_lookup env))
         else None)"

subsection \<open>Lemmas\<close>

lemma detect_plain: "detect_query_type q \<noteq> QueryTypeUnknown \<Longrightarrow> \<forall>c\<in>set (trim_space q). plain_char c"
  using asn_plain parse_ip_plain plain_domain by (auto simp: detect_Unknown)

lemma cached_query_no_crash: "fst (cached_query env q s) \<noteq> Crash"
  by (auto simp: cached_query_def query_whois_with_cache_def Let_def split: cached.splits sum.splits prod.splits)

text \<open>What is asked of a WHOIS server: a plain query and a line break, at one of the servers of the tables.\<close>

definition asked :: "string \<Rightarrow> string \<Rightarrow> bool" where
  "asked srv line \<longleftrightarrow> srv \<in> address ` set known_servers \<and> (\<exists>q. line = q @ crlf \<and> (\<forall>c\<in>set q. plain_char c))"

lemma tcp_query_asked:
  assumes "\<forall>srv line. asked srv line \<longrightarrow> tcp srv line = tcp' srv line"
    and "srv \<in> address ` set known_servers" "\<forall>c\<in>set q. plain_char c"
  shows "tcp_query tcp srv q = tcp_query tcp' srv q"
proof -
  have "asked srv (q @ crlf)" using assms(2,3) by (auto simp: asked_def)
  then show ?thesis using assms(1) by (simp add: tcp_query_def)
qed

lemma cached_query_asked:
  assumes agree: "\<forall>srv line. asked srv line \<longrightarrow> we_tcp env srv line = tcp' srv line" and trim: "trim_space q = q"
  shows "cached_query (env\<lparr>we_tcp := tcp'\<rparr>) q s = cached_query env q s"
proof (cases "detect_query_type q = QueryTypeUnknown")
  case True
  then show ?thesis by (simp add: cached_query_def query_whois_with_cache_def)
next
  case False
  then have p: "\<forall>c\<in>set q. plain_char c" using detect_plain [of q] trim by simp
  have "select_server (detect_query_type q) q \<in> address ` set known_servers"
    using select_server_known [of "detect_query_type q" q] False by auto
  note t = tcp_query_asked [OF agree this p]
  have "query_whois_with_cache js tcp' clk q c = query_whois_with_cache js (we_tcp env) clk q c" for js clk c
    unfolding query_whois_with_cache_def Let_def t by (rule refl)
  then show ?thesis by (simp add: cached_query_def)
qed

lemma path_query_trim: "trim_space (path_query env sub rq) = path_query env sub rq"
  by (simp add: path_query_def)

lemma env_simps:
  "we_api (env\<lparr>we_tcp := t\<rparr>) = we_api env"
  "we_records (env\<lparr>we_tcp := t\<rparr>) = we_records env"
  "we_now (env\<lparr>we_tcp := t\<rparr>) = we_now env"
  "we_format (env\<lparr>we_tcp := t\<rparr>) = we_format env"
  "we_domain (env\<lparr>we_tcp := t\<rparr>) = we_domain env"
  "we_ip (env\<lparr>we_tcp := t\<rparr>) = we_ip env"
  "we_asn (env\<lparr>we_tcp := t\<rparr>) = we_asn env"
  "path_query (env\<lparr>we_tcp := t\<rparr>) sub rq = path_query env sub rq"
  "result_data (env\<lparr>we_tcp := t\<rparr>) r = result_data env r"
  "save_lookup (env\<lparr>we_tcp := t\<rparr>) q r s = save_lookup env q r s"
  "send_result (env\<lparr>we_tcp := t\<rparr>) rq r w = send_result env rq r w"
  unfolding path_query_def result_data_def save_lookup_def send_result_def by (simp_all add: Let_def split: option.splits)

text \<open>The handlers see a WHOIS server only through \<open>cached_query\<close>.\<close>

lemma perform_asked:
  assumes "\<forall>srv line. asked srv line \<longrightarrow> we_tcp env srv line = tcp' srv line" "trim_space q = q"
  shows "perform_whois_lookup (env\<lparr>we_tcp := tcp'\<rparr>) q rq w s = perform_whois_lookup env q rq w s"
  unfolding perform_whois_lookup_def cached_query_asked [OF assms] env_simps by (rule refl)

lemma typed_asked:
  assumes "\<forall>srv line. asked srv line \<longrightarrow> we_tcp env srv line = tcp' srv line"
  shows "typed_lookup (env\<lparr>we_tcp := tcp'\<rparr>) sub types m i f rq w s = typed_lookup env sub types m i f rq w s"
  unfolding typed_lookup_def Let_def env_simps perform_asked [OF assms path_query_trim] by (rule refl)

lemma whois_asked:
  assumes "\<forall>srv line. asked srv line \<longrightarrow> we_tcp env srv line = tcp' srv line"
  shows "handle_whois (env\<lparr>we_tcp := tcp'\<rparr>) rq w s = handle_whois env rq w s"
  unfolding handle_whois_def Let_def env_simps cached_query_asked [OF assms path_query_trim] by (rule refl)

lemma page_asked:
  assumes "\<forall>srv line. asked srv line \<longrightarrow> we_tcp env srv line = tcp' srv line"
  shows "handle_whois_page (env\<lparr>we_tcp := tcp'\<rparr>) rq w s = handle_whois_page env rq w s"
proof -
  note c = cached_query_asked [OF assms, of "trim_space (rq_query rq ''q'')", simplified]
  show ?thesis unfolding handle_whois_page_def Let_def env_simps c by (rule refl)
qed

lemma bulk_asked:
  assumes "\<forall>srv line. asked srv line \<longrightarrow> we_tcp env srv line = tcp' srv line"
  shows "bulk_lookups (env\<lparr>we_tcp := tcp'\<rparr>) qs s = bulk_lookups env qs s"
proof (induction qs arbitrary: s)
  case (Cons q qs)
  note c = cached_query_asked [OF assms, of "trim_space q", simplified]
  have "bulk_entry (env\<lparr>we_tcp := tcp'\<rparr>) (trim_space q) s = bulk_entry env (trim_space q) s"
    unfolding bulk_entry_def env_simps c by (rule refl)
  then show ?case by (simp add: Let_def Cons.IH)
qed simp

lemma bulk_handler_asked:
  assumes "\<forall>srv line. asked srv line \<longrightarrow> we_tcp env srv line = tcp' srv line"
  shows "handle_whois_bulk_lookup (env\<lparr>we_tcp := tcp'\<rparr>) rq w s = handle_whois_bulk_lookup env rq w s"
  by (simp add: handle_whois_bulk_lookup_def bulk_asked [OF assms] split: option.splits)

subsection \<open>Properties\<close>


subsection \<open>Bulk requests\<close>

fun json_field :: "string \<Rightarrow> json \<Rightarrow> json option" where
  "json_field k (JObj kvs) = map_of kvs k"
| "json_field k _ = None"

fun body_field :: "string \<Rightarrow> body \<Rightarrow> json option" where
  "body_field k (JsonData d) = json_field k d"
| "body_field k _ = None"

text \<open>The single requests that a bulk request stands for, one after the other.\<close>

fun single_lookups :: "whois_env \<Rightarrow> http_request \<Rightarrow> writer \<Rightarrow> string list \<Rightarrow> whois_state \<Rightarrow> response list \<times> whois_state" where
  "single_lookups env rq w [] s = ([], s)"
| "single_lookups env rq w (q # qs) s =
     (case handle_whois env (rq\<lparr>rq_path := we_api env @ ''/whois/'' @ q\<rparr>) w s of
        (r, s1) \<Rightarrow> (case single_lookups env rq w qs s1 of (rs, s2) \<Rightarrow> (r # rs, s2)))"

definition same_answer :: "json \<Rightarrow> response \<Rightarrow> bool" where
  "same_answer e r \<longleftrightarrow> (json_field ''success'' e = Some (JBool True) \<longleftrightarrow> rs_status r = 200) \<and>
     json_field ''raw'' e = body_field ''raw'' (rs_body r) \<and> json_field ''server'' e = body_field ''server'' (rs_body r)"

lemma send_error_bad: "rs_status (send_error ''BAD_REQUEST'' m w) = 400" "rs_status (send_error ''VALIDATION_FAILED'' m w) = 400"
  "rs_status (lookup_failed e w) = 500"
  by (simp_all add: send_error_def map_error_code_to_status_def lookup_failed_def)

lemma error_body: "rs_body (send_error c m w) = JsonError c m" "rs_body (lookup_failed e w) = JsonError ''SERVER_ERROR'' (''WHOIS lookup failed: '' @ whois_error_text e)"
  by (simp_all add: send_error_def lookup_failed_def Let_def)

lemma path_query_at: "path_query env sub (rq\<lparr>rq_path := we_api env @ sub @ q\<rparr>) = trim_space q"
  by (simp add: path_query_def trim_prefix_def has_prefix_def)

lemma bulk_entry_single:
  assumes "trim_space q = q" "q \<noteq> []" "bulk_entry env q s = (e, s1)"
    "handle_whois env (rq\<lparr>rq_path := we_api env @ ''/whois/'' @ q\<rparr>) w s = (r, s2)"
  shows "s1 = s2 \<and> same_answer e r"
proof (cases "validate_query q")
  case (Some v)
  then show ?thesis using assms path_query_at [of env "''/whois/''" q rq]
    by (auto simp: bulk_entry_def handle_whois_def same_answer_def bulk_error_def send_error_bad error_body)
next
  case None
  obtain res t where c: "cached_query env q s = (res, t)" by fastforce
  then have "res \<noteq> Crash" using cached_query_no_crash [of env q s] by simp
  then show ?thesis using assms path_query_at [of env "''/whois/''" q rq] None c
    by (cases res) (auto simp: bulk_entry_def handle_whois_def same_answer_def bulk_error_def send_error_bad error_body
        send_success_def answer_def result_data_def map_of_append split: option.splits)
qed

text \<open>
  C29: A bulk request gives, for its queries that are not blank and in their order, the answers that single requests
  would give one after the other, and leaves the same state; a query that fails does not stop the next.
\<close>

theorem bulk_as_singles:
  assumes "bulk_lookups env qs s = (es, s1)"
    "single_lookups env rq w (filter (\<lambda>q. q \<noteq> []) (map trim_space qs)) s = (rs, s2)"
  shows "s1 = s2 \<and> list_all2 same_answer es rs"
  using assms
proof (induction qs arbitrary: s es rs)
  case (Cons q qs)
  show ?case
  proof (cases "trim_space q = []")
    case False
    obtain e t es' where e: "bulk_entry env (trim_space q) s = (e, t)" "bulk_lookups env qs t = (es', s1)" "es = e # es'"
      using Cons.prems(1) False by (auto simp: Let_def split: prod.splits)
    obtain r t' rs' where r: "handle_whois env (rq\<lparr>rq_path := we_api env @ ''/whois/'' @ trim_space q\<rparr>) w s = (r, t')"
      "single_lookups env rq w (filter (\<lambda>q. q \<noteq> []) (map trim_space qs)) t' = (rs', s2)" "rs = r # rs'"
      using Cons.prems(2) False by (auto split: prod.splits)
    have "t = t' \<and> same_answer e r" by (rule bulk_entry_single [OF trim_space_idem False e(1) r(1)])
    with Cons.IH [OF e(2)] r(2,3) e(3) show ?thesis by simp
  qed (use Cons in simp)
qed simp

text \<open>Without the token of the server a bulk request is refused and nothing is looked up.\<close>

theorem bulk_needs_token:
  assumes "rq_method rq = ''POST''" "whois_route env rq = Some h"
    "extract_bearer_token rq = [] \<or> we_sha env (extract_bearer_token rq) \<noteq> we_sha env (we_token env)"
  shows "rs_status (fst (h rq w s)) = 401 \<and> snd (h rq w s) = s"
  using assms by (auto simp: whois_route_def Let_def require_token_def send_error_def map_error_code_to_status_def split: if_splits)

subsection \<open>Typed lookups\<close>

lemma send_result_status: "rs_status (send_result env rq r w) = 200"
  by (simp add: send_result_def send_xml_response_def send_text_response_def send_html_response_def send_success_def
      answer_def Let_def)

text \<open>
  A typed endpoint answers with data only for a valid query of its type; it counts exactly the queries of its type, and
  leaves everything else as it is when it refuses one.
\<close>

theorem typed_lookup_outcome:
  assumes "typed_lookup env sub types m i f rq w s = (r, s1)"
  shows "if path_query env sub rq = [] \<or> detect_query_type (path_query env sub rq) \<notin> types then rs_status r = 400 \<and> s1 = s
    else if validate_query (path_query env sub rq) \<noteq> None then rs_status r = 400 \<and> s1 = f s
    else rs_status r = (case fst (cached_query env (path_query env sub rq) (f s)) of Ok _ \<Rightarrow> 200 | _ \<Rightarrow> 500)"
  using assms
  by (auto simp: typed_lookup_def perform_whois_lookup_def Let_def send_error_bad send_result_status answer_def
      split: if_splits option.splits outcome.splits prod.splits)

subsection \<open>The page of a result\<close>

definition markup :: "char \<Rightarrow> bool" where
  "markup c \<longleftrightarrow> c = CHR ''<'' \<or> c = CHR ''>'' \<or> c = CHR 0x22 \<or> c = CHR 0x27"

lemma html_char_markup: "filter markup (html_char c) = []"
  unfolding html_char_def by (simp add: markup_def)

lemma html_escape_markup: "filter markup (html_escape s) = []"
  unfolding html_escape_def by (induction s) (simp_all add: html_char_markup)

lemma plain_not_markup: "plain_char c \<Longrightarrow> \<not> markup c"
proof
  assume p: "plain_char c" and m: "markup c"
  have n: "\<not> plain_char CHR ''<''" "\<not> plain_char CHR ''>''" "\<not> plain_char CHR 0x22" "\<not> plain_char CHR 0x27"
    by (simp_all add: plain_char_def)
  from m show False unfolding markup_def
  proof (elim disjE)
    assume "c = CHR ''<''" with p n(1) show False by metis
  next
    assume "c = CHR ''>''" with p n(2) show False by metis
  next
    assume "c = CHR 0x22" with p n(3) show False by metis
  next
    assume "c = CHR 0x27" with p n(4) show False by metis
  qed
qed

lemma plain_markup: "\<forall>c\<in>set s. plain_char c \<Longrightarrow> filter markup s = []"
  using plain_not_markup unfolding filter_empty_conv by blast

text \<open>
  The page of an accepted query has the markup of the template and no other, whatever the WHOIS server answered: the one
  place where the query is not escaped does no harm because of what validation accepts.
\<close>

theorem result_page_markup:
  assumes "validate_query (w_query r) = None" "validate_query (w_query r') = None"
  shows "filter markup (result_page fmt l r) = filter markup (result_page fmt l r')"
  unfolding result_page_def filter_append html_escape_markup plain_markup [OF accepted_query_plain [OF assms(1)]]
    plain_markup [OF accepted_query_plain [OF assms(2)]] by (rule refl)

text \<open>
  The page for forms and tools asks without validation: AS number 0, which the other endpoints refuse, is sent to the
  registry.
\<close>

theorem page_skips_validation:
  assumes "trim_space (rq_query rq ''q'') = ''AS0''" "detect_client_type rq = ClientTypeText" "ws_cache s = None"
    "we_tcp env (select_server QueryTypeASN ''AS0'') (''AS0'' @ crlf) = Replies [(bytes, None)]"
  shows "validate_query ''AS0'' \<noteq> None \<and>
    handle_whois_page env rq w s = (answer 200 text_type (Text (take 65536 bytes)) w, s)"
proof -
  have q: "detect_query_type ''AS0'' = QueryTypeASN" "validate_query ''AS0'' \<noteq> None"
    by (simp_all add: validate_evals)
  have sel: "select_server QueryTypeASN ''AS0'' \<noteq> ''''"
    using select_server_empty [of QueryTypeASN "''AS0''"] by simp
  have "tcp_query (we_tcp env) (select_server QueryTypeASN ''AS0'') ''AS0'' = Inr (take 65536 bytes)"
    using assms(4) by (simp add: tcp_query_def)
  then have c: "cached_query env ''AS0'' s =
      (Ok (build_whois_result (at_result (we_clock env)) QueryTypeASN ''AS0'' (select_server QueryTypeASN ''AS0'') (take 65536 bytes)), s)"
    using sel assms(3) by (simp add: cached_query_def query_whois_with_cache_def check_cache_def store_def q(1) Let_def split: option.splits)
  show ?thesis using q(2) unfolding handle_whois_page_def Let_def assms(1,2) c by (simp add: build_whois_result_def)
qed

subsection \<open>Witnesses\<close>

definition sample_whois_env :: whois_env where
  "sample_whois_env = \<lparr>we_api = ''/api/v1'', we_json = sample_json, we_tcp = (\<lambda>srv line. Replies [(''line'', None)]),
     we_clock = sample_clock 0, we_records = None, we_now = 0, we_format = (\<lambda>t. ''now''), we_domain = (\<lambda>d. JNull),
     we_ip = (\<lambda>i. JNull), we_asn = (\<lambda>a. JNull), we_body = (\<lambda>b. None), we_sha = (\<lambda>t. t), we_token = ''secret''\<rparr>"

definition sample_whois_state :: whois_state where
  "sample_whois_state = \<lparr>ws_cache = None, ws_rows = [], ws_domain = 0, ws_ip = 0, ws_asn = 0\<rparr>"

lemma evil_not_asked: "\<not> asked ''evil:43'' line"
proof -
  have "\<forall>s\<in>set known_servers. address s \<noteq> ''evil:43''"
    by code_simp
  then show ?thesis by (auto simp: asked_def)
qed


theorem bulk_as_singles_witness:
  "\<exists>es s1 rs s2. bulk_lookups sample_whois_env [''AS1'', '' '', ''nothing''] sample_whois_state = (es, s1) \<and>
     single_lookups sample_whois_env plain_request plain_writer [''AS1'', ''nothing''] sample_whois_state = (rs, s2) \<and>
     s1 = s2 \<and> list_all2 same_answer es rs"
proof -
  obtain es s1 rs s2 where r: "bulk_lookups sample_whois_env [''AS1'', '' '', ''nothing''] sample_whois_state = (es, s1)"
    "single_lookups sample_whois_env plain_request plain_writer [''AS1'', ''nothing''] sample_whois_state = (rs, s2)"
    by fastforce
  have f: "filter (\<lambda>q. q \<noteq> []) (map trim_space [''AS1'', '' '', ''nothing'']) = [''AS1'', ''nothing'']" by code_simp
  from bulk_as_singles [OF r(1), of plain_request plain_writer rs s2, unfolded f] r show ?thesis by blast
qed

theorem bulk_needs_token_witness:
  "\<exists>h. whois_route sample_whois_env (plain_request\<lparr>rq_method := ''POST'', rq_path := ''/api/v1/whois/bulk''\<rparr>) = Some h \<and>
     rs_status (fst (h (plain_request\<lparr>rq_method := ''POST'', rq_path := ''/api/v1/whois/bulk''\<rparr>) plain_writer sample_whois_state)) = 401"
proof -
  define rq where "rq = plain_request\<lparr>rq_method := ''POST'', rq_path := ''/api/v1/whois/bulk''\<rparr>"
  obtain h where h: "whois_route sample_whois_env rq = Some h"
    by (simp add: whois_route_def rq_def sample_whois_env_def)
  have "rq_method rq = ''POST''" "extract_bearer_token rq = []"
    by (simp_all add: rq_def plain_request_def extract_bearer_token_def has_prefix_def)
  with bulk_needs_token [OF _ h, of plain_writer sample_whois_state] h show ?thesis by (simp add: rq_def)
qed

theorem typed_lookup_outcome_witness:
  "\<exists>r. handle_whois_domain_lookup sample_whois_env (plain_request\<lparr>rq_path := ''/api/v1/whois/domain/''\<rparr>) plain_writer sample_whois_state = (r, sample_whois_state) \<and> rs_status r = 400"
proof -
  define rq where "rq = plain_request\<lparr>rq_path := ''/api/v1/whois/domain/''\<rparr>"
  obtain r s1 where r: "handle_whois_domain_lookup sample_whois_env rq plain_writer sample_whois_state = (r, s1)" by fastforce
  have "path_query sample_whois_env ''/whois/domain/'' rq = []"
    by (simp add: path_query_def rq_def sample_whois_env_def trim_prefix_def has_prefix_def trim_space_id)
  with typed_lookup_outcome [OF r [unfolded handle_whois_domain_lookup_def]] r show ?thesis by (auto simp: rq_def)
qed

theorem result_page_markup_witness:
  "filter markup (result_page (\<lambda>t. ''now'') ''en'' (build_whois_result 0 QueryTypeDomain ''ab-1.de'' ''x'' ''<script>'')) =
   filter markup (result_page (\<lambda>t. ''now'') ''en'' (build_whois_result 0 QueryTypeDomain ''ab-1.de'' ''x'' []))"
proof (rule result_page_markup)
  have v: "validate_query ''ab-1.de'' = None" by (simp add: validate_evals)
  then show "validate_query (w_query (build_whois_result 0 QueryTypeDomain ''ab-1.de'' ''x'' ''<script>'')) = None"
    "validate_query (w_query (build_whois_result 0 QueryTypeDomain ''ab-1.de'' ''x'' [])) = None"
    by (simp_all add: build_whois_result_def)
qed

end
