(* ===== verification/Visitor.thy ===== *)
theory Visitor
  imports OwnerSearch WhoisHttp
begin

text \<open>
  What the server remembers of a visitor in cookies: the consent to categories of cookies and the opt-out from the sale of data
  (\<open>src/src/server/consent.go\<close>), and the announcements that were dismissed (\<open>announcements.go\<close>). JSON, the host of a URL
  and the order in which a Go map is walked are parameters.
\<close>

subsection \<open>url.QueryUnescape\<close>

text \<open>\<open>None\<close> is the error for a percent sign without two hexadecimal digits.\<close>

fun query_unescape :: "string \<Rightarrow> string option" where
  "query_unescape [] = Some []"
| "query_unescape (c # s) =
     (if c = CHR ''%'' then
        (case s of
           a # b # t \<Rightarrow>
             if is_hex a \<and> is_hex b then map_option ((#) (char_of (hex_digit a * 16 + hex_digit b))) (query_unescape t) else None
         | _ \<Rightarrow> None)
      else map_option ((#) (if c = CHR ''+'' then CHR '' '' else c)) (query_unescape s))"

text \<open>The content of a cookie that was escaped; one that is not is taken as it is.\<close>

definition cookie_text :: "string \<Rightarrow> string" where
  "cookie_text v = opt_or (query_unescape v) v"

subsection \<open>Consent\<close>

definition consentCookieName :: string where "consentCookieName = ''cookie_consent''"
definition ccpaCookieName :: string where "ccpaCookieName = ''ccpa_opt_out''"

record consent =
  cc_essential :: bool
  cc_preferences :: bool
  cc_analytics :: bool
  cc_timestamp :: int

text \<open>
  \<open>ve_host\<close> is the host of a URL, \<open>None\<close> when it does not parse; \<open>ve_marshal\<close> and \<open>ve_unmarshal\<close> are \<open>encoding/json\<close> on the content of the
  cookie.
\<close>

record visitor_env =
  ve_marshal :: "consent \<Rightarrow> string option"
  ve_unmarshal :: "string \<Rightarrow> consent option"
  ve_host :: "string \<Rightarrow> string option"
  ve_secure :: string

definition consent_from_request :: "visitor_env \<Rightarrow> HttpGuard.http_request \<Rightarrow> consent option" where
  "consent_from_request env r =
     (case rq_cookie r consentCookieName of
        None \<Rightarrow> None
      | Some v \<Rightarrow> if v = [] then None else ve_unmarshal env (cookie_text v))"

definition has_consent_cookie :: "visitor_env \<Rightarrow> HttpGuard.http_request \<Rightarrow> bool" where
  "has_consent_cookie env r \<longleftrightarrow> consent_from_request env r \<noteq> None"

text \<open>The cookies last for a year; a negative age deletes one.\<close>

definition visitor_cookie :: "visitor_env \<Rightarrow> HttpGuard.http_request \<Rightarrow> string \<Rightarrow> string \<Rightarrow> int \<Rightarrow> cookie" where
  "visitor_cookie env r name v age =
     \<lparr>ck_name = name, ck_value = v, ck_maxAge = Some age, ck_httpOnly = False,
      ck_secure = csrf_cookie_secure (ve_secure env) r, ck_sameSite = SameSiteLax\<rparr>"

definition year_seconds :: int where "year_seconds = 365 * 24 * 3600"

definition write_consent_cookie :: "visitor_env \<Rightarrow> HttpGuard.http_request \<Rightarrow> consent \<Rightarrow> writer \<Rightarrow> writer" where
  "write_consent_cookie env r cc w =
     (case ve_marshal env cc of
        None \<Rightarrow> w
      | Some d \<Rightarrow> set_cookie (visitor_cookie env r consentCookieName (query_escape d) year_seconds) w)"

definition back_target :: "visitor_env \<Rightarrow> HttpGuard.http_request \<Rightarrow> string \<Rightarrow> string" where
  "back_target env r fallback =
     (let ref = header r ''Referer''
      in if ref \<noteq> [] \<and> ve_host env ref = Some (rq_host r) then ref else fallback)"

definition redirect_back :: "visitor_env \<Rightarrow> HttpGuard.http_request \<Rightarrow> string \<Rightarrow> writer \<Rightarrow> response" where
  "redirect_back env r fallback w = http_redirect (back_target env r fallback) 303 w"

definition ticked :: "string \<Rightarrow> bool" where
  "ticked v \<longleftrightarrow> v = ''on'' \<or> v = ''true''"

text \<open>\<open>now\<close> in seconds since 1970.\<close>

definition consent_of_form :: "int \<Rightarrow> HttpGuard.http_request \<Rightarrow> consent option" where
  "consent_of_form now r =
     (let choice = rq_form r ''choice'';
          cc = \<lparr>cc_essential = True, cc_preferences = False, cc_analytics = False, cc_timestamp = now\<rparr>
      in if choice = ''accept'' then Some (cc\<lparr>cc_preferences := True, cc_analytics := True\<rparr>)
         else if choice = ''decline'' then Some cc
         else if choice = ''save'' then
           Some (cc\<lparr>cc_preferences := ticked (rq_form r ''preferences''), cc_analytics := ticked (rq_form r ''analytics'')\<rparr>)
         else None)"

definition handle_consent :: "visitor_env \<Rightarrow> int \<Rightarrow> 's handler" where
  "handle_consent env now r w s =
     (case consent_of_form now r of
        None \<Rightarrow> (send_error ''BAD_REQUEST'' ''choice must be accept, decline, or save'' w, s)
      | Some cc \<Rightarrow> (redirect_back env r ''/'' (write_consent_cookie env r cc w), s))"

definition handle_ccpa :: "visitor_env \<Rightarrow> 's handler" where
  "handle_ccpa env r w s =
     (let choice = rq_form r ''choice''; back = redirect_back env r ''/server/privacy#ccpa-opt-out''
      in if choice = ''opt-out'' then (back (set_cookie (visitor_cookie env r ccpaCookieName ''true'' year_seconds) w), s)
         else if choice = ''opt-in'' then (back (set_cookie (visitor_cookie env r ccpaCookieName [] (- 1)) w), s)
         else (send_error ''BAD_REQUEST'' ''choice must be opt-out or opt-in'' w, s))"

definition ccpa_opted_out :: "HttpGuard.http_request \<Rightarrow> bool" where
  "ccpa_opted_out r \<longleftrightarrow> rq_cookie r ccpaCookieName = Some ''true''"

subsection \<open>Tracking\<close>

record tracking_config =
  tc_type :: string
  tc_url :: string
  tc_id :: string

definition check_tracking_allowed :: "visitor_env \<Rightarrow> tracking_config \<Rightarrow> HttpGuard.http_request \<Rightarrow> bool" where
  "check_tracking_allowed env t r =
     (case consent_from_request env r of None \<Rightarrow> False | Some cc \<Rightarrow> cc_analytics cc \<and> tc_type t \<noteq> [])"

text \<open>A grave accent stands for a double quote, an acute one for a single quote.\<close>

definition quoted_html :: "string \<Rightarrow> string" where
  "quoted_html s = map (\<lambda>c. if byte c = 96 then CHR 0x22 else if byte c = 126 then CHR 0x27 else c) s"

definition generate_tracking_script :: "tracking_config \<Rightarrow> string" where
  "generate_tracking_script t =
     (if tc_type t = ''umami'' then
        quoted_html ''<script async src=`'' @ html_escape (tc_url t) @ quoted_html ''` data-website-id=`'' @
        html_escape (tc_id t) @ quoted_html ''`></script>''
      else if tc_type t = ''simple'' then
        quoted_html ''<script async defer src=`https://scripts.simpleanalyticscdn.com/latest.js`></script>''
      else if tc_type t = ''cloudflare'' then
        quoted_html ''<script defer src=`https://static.cloudflareinsights.com/beacon.min.js` data-cf-beacon=~{`token`: `'' @
        html_escape (tc_id t) @ quoted_html ''`}~></script>''
      else [])"

definition tracking_script :: "visitor_env \<Rightarrow> tracking_config \<Rightarrow> HttpGuard.http_request \<Rightarrow> string" where
  "tracking_script env t r = (if check_tracking_allowed env t r then generate_tracking_script t else [])"

definition preferences_allowed :: "visitor_env \<Rightarrow> HttpGuard.http_request \<Rightarrow> bool" where
  "preferences_allowed env r = (case consent_from_request env r of None \<Rightarrow> False | Some cc \<Rightarrow> cc_preferences cc)"

subsection \<open>Announcements\<close>

record announcement_message =
  an_id :: string
  an_type :: string
  an_message :: string
  an_start :: string
  an_end :: string
  an_dismissible :: bool

record announcement_view =
  av_id :: string
  av_type :: string
  av_icon :: string
  av_role :: string
  av_message :: string
  av_dismissible :: bool
  av_csrfToken :: string
  av_dismissAria :: string

definition dismissedAnnouncementsCookieName :: string where
  "dismissedAnnouncementsCookieName = ''dismissed_announcements''"

definition announcementIcons :: "(string \<times> string) list" where
  "announcementIcons =
     [(''info'', [CHR 0xE2, CHR 0x84, CHR 0xB9]), (''warning'', [CHR 0xE2, CHR 0x9A, CHR 0xA0]),
      (''error'', [CHR 0xE2, CHR 0x9B, CHR 0x94]), (''success'', [CHR 0xE2, CHR 0x9C, CHR 0x93])]"

definition announcementRoles :: "(string \<times> string) list" where
  "announcementRoles = [(''info'', ''status''), (''warning'', ''alert''), (''error'', ''alert''), (''success'', ''status'')]"

text \<open>The set of the dismissed names, as a list.\<close>

definition split_ids :: "string \<Rightarrow> string list" where
  "split_ids raw = filter (\<lambda>i. i \<noteq> []) (map trim_space (split_on CHR '','' raw))"

definition dismissed_announcement_ids :: "HttpGuard.http_request \<Rightarrow> string list" where
  "dismissed_announcement_ids r =
     (case rq_cookie r dismissedAnnouncementsCookieName of
        None \<Rightarrow> []
      | Some v \<Rightarrow> if v = [] then [] else split_ids (cookie_text v))"

text \<open>A bound that is empty or does not parse is none.\<close>

definition in_window :: "time \<Rightarrow> announcement_message \<Rightarrow> bool" where
  "in_window now m \<longleftrightarrow>
     (case (if an_start m = [] then None else time_parse RFC3339 (an_start m)) of Some t \<Rightarrow> \<not> now < t | None \<Rightarrow> True) \<and>
     (case (if an_end m = [] then None else time_parse RFC3339 (an_end m)) of Some t \<Rightarrow> \<not> t < now | None \<Rightarrow> True)"

definition view_of :: "string \<Rightarrow> string \<Rightarrow> announcement_message \<Rightarrow> announcement_view" where
  "view_of token aria m =
     (let mtype = (if map_of announcementIcons (an_type m) = None then ''info'' else an_type m)
      in \<lparr>av_id = an_id m, av_type = mtype, av_icon = opt_or (map_of announcementIcons mtype) [],
          av_role = opt_or (map_of announcementRoles mtype) [], av_message = an_message m, av_dismissible = an_dismissible m,
          av_csrfToken = token, av_dismissAria = aria\<rparr>)"

definition active_messages ::
    "announcement_message list \<Rightarrow> time \<Rightarrow> HttpGuard.http_request \<Rightarrow> announcement_message list" where
  "active_messages messages now r =
     filter (\<lambda>m. an_id m \<noteq> [] \<and> an_id m \<notin> set (dismissed_announcement_ids r) \<and> in_window now m) messages"

text \<open>The token for the form that dismisses them may set a cookie; \<open>aria\<close> is the translated label of its button.\<close>

definition active_announcements ::
    "csrf_config \<Rightarrow> (nat \<Rightarrow> string option) \<Rightarrow> string \<Rightarrow> bool \<Rightarrow> announcement_message list \<Rightarrow> time \<Rightarrow> HttpGuard.http_request \<Rightarrow>
     writer \<Rightarrow> announcement_view list \<times> writer" where
  "active_announcements cfg random aria enabled messages now r w =
     (if \<not> enabled \<or> messages = [] then ([], w)
      else case csrf_token cfg random r w of
             (token, w1) \<Rightarrow> (map (view_of token aria) (active_messages messages now r), w1))"

text \<open>\<open>order\<close> is the order in which the set is walked.\<close>

definition handle_announcement_dismiss :: "visitor_env \<Rightarrow> (string list \<Rightarrow> string list) \<Rightarrow> 's handler" where
  "handle_announcement_dismiss env order r w s =
     (let i = trim_space (rq_form r ''id'')
      in if i = [] then (send_error ''BAD_REQUEST'' ''id is required'' w, s)
         else let ids = order (remdups (i # dismissed_announcement_ids r))
         in (redirect_back env r ''/''
               (set_cookie (visitor_cookie env r dismissedAnnouncementsCookieName (query_escape (join '','' ids)) year_seconds) w), s))"

subsection \<open>Lemmas\<close>

lemma hex_char_all: "\<forall>n\<in>set [0..<16]. is_hex (hex_char n) \<and> hex_digit (hex_char n) = n"
  by (simp add: hex_char_def is_hex_def hex_digit_def is_digit_def digit_val_def)

lemma hex_char_back: "n < 16 \<Longrightarrow> is_hex (hex_char n) \<and> hex_digit (hex_char n) = n"
  using hex_char_all by simp

lemma query_plain_special: "query_plain c \<Longrightarrow> c \<noteq> CHR ''%'' \<and> c \<noteq> CHR ''+''"
  by (auto simp: query_plain_def is_digit_def is_upper_def is_lower_def)

lemma query_unescape_escape: "query_unescape (query_escape s) = Some s"
proof (induction s)
  case (Cons c s)
  have b: "byte c < 256" by (rule byte_bound)
  then have "byte c div 16 < 16" "byte c mod 16 < 16" by (simp_all add: less_mult_imp_div_less)
  note h = hex_char_back [OF this(1)] hex_char_back [OF this(2)]
  have "char_of (byte c div 16 * 16 + byte c mod 16) = c" by simp
  with Cons h query_plain_special [of c] show ?case by (auto simp: query_escape_def)
qed (simp add: query_escape_def)

lemma cookie_text_escape: "cookie_text (query_escape s) = s"
  by (simp add: cookie_text_def query_unescape_escape)

lemma query_escape_Nil: "query_escape s = [] \<longleftrightarrow> s = []"
  using query_unescape_escape [of s] by (cases s) (auto simp: query_escape_def)

lemma redirect_keeps_cookies: "w_cookies (rs_writer (redirect_back env r fb w)) = w_cookies w"
  by (simp add: redirect_back_def http_redirect_def set_head_def)

subsection \<open>Properties\<close>

definition cookie_json_ok :: "visitor_env \<Rightarrow> bool" where
  "cookie_json_ok env \<longleftrightarrow> (\<forall>cc d. ve_marshal env cc = Some d \<longrightarrow> d \<noteq> [] \<and> ve_unmarshal env d = Some cc)"

text \<open>
  A visitor is tracked, on the requests that carry the cookie given with the last choice, exactly when that choice allowed
  it and a service is configured.
\<close>

theorem consent_decides_tracking:
  assumes "cookie_json_ok env" "consent_of_form now r = Some cc" "ve_marshal env cc \<noteq> None"
    and "handle_consent env now r w s = (resp, s')"
    and "rq_cookie r' consentCookieName = Some (ck_value (last (w_cookies (rs_writer resp))))"
  shows "check_tracking_allowed env t r' \<longleftrightarrow>
    tc_type t \<noteq> [] \<and> (rq_form r ''choice'' = ''accept'' \<or> rq_form r ''choice'' = ''save'' \<and> ticked (rq_form r ''analytics''))"
proof -
  obtain d where d: "ve_marshal env cc = Some d" "d \<noteq> []" "ve_unmarshal env d = Some cc"
    using assms(1,3) by (auto simp: cookie_json_ok_def)
  have resp: "resp = redirect_back env r ''/'' (write_consent_cookie env r cc w)"
    using assms(2,4) by (simp add: handle_consent_def)
  then have "rq_cookie r' consentCookieName = Some (query_escape d)"
    using assms(5) d(1) by (simp add: redirect_keeps_cookies write_consent_cookie_def set_cookie_def visitor_cookie_def)
  then have "consent_from_request env r' = Some cc"
    using d by (simp add: consent_from_request_def query_escape_Nil cookie_text_escape)
  moreover have "cc_analytics cc \<longleftrightarrow>
      rq_form r ''choice'' = ''accept'' \<or> rq_form r ''choice'' = ''save'' \<and> ticked (rq_form r ''analytics'')"
    using assms(2) by (auto simp: consent_of_form_def Let_def split: if_splits)
  ultimately show ?thesis by (auto simp: check_tracking_allowed_def)
qed

text \<open>The way back leads to the page named by the code or to one of the host that was asked.\<close>

theorem back_target_here:
  "back_target env r fallback = fallback \<or> ve_host env (back_target env r fallback) = Some (rq_host r)"
  by (simp add: back_target_def Let_def)

text \<open>The settings put into the script of a service cannot add markup to it.\<close>

theorem tracking_script_markup:
  "filter markup (generate_tracking_script t) = filter markup (generate_tracking_script \<lparr>tc_type = tc_type t, tc_url = [], tc_id = []\<rparr>)"
proof -
  have e: "html_escape [] = []" by (simp add: html_escape_def)
  show ?thesis
    unfolding generate_tracking_script_def if_distrib [of "filter markup"] filter_append html_escape_markup
      tracking_config.select_convs e append_Nil append_Nil2 by (simp only: append_assoc)
qed

lemma split_ids_plain: "i \<in> set (split_ids raw) \<Longrightarrow> CHR '','' \<notin> set i \<and> i \<noteq> [] \<and> trim_space i = i"
  using set_trim_space split_on_no_sep by (fastforce simp: split_ids_def)

lemma dismissed_plain: "i \<in> set (dismissed_announcement_ids r) \<Longrightarrow> CHR '','' \<notin> set i \<and> i \<noteq> [] \<and> trim_space i = i"
  using split_ids_plain by (auto simp: dismissed_announcement_ids_def split: option.splits if_splits)

lemma split_ids_join:
  assumes "\<forall>i\<in>set ids. CHR '','' \<notin> set i \<and> i \<noteq> [] \<and> trim_space i = i" "ids \<noteq> []"
  shows "split_ids (join '','' ids) = ids"
proof -
  have "split_on CHR '','' (join '','' ids) = ids" using assms by (intro split_join) auto
  moreover have "map trim_space ids = ids" using assms(1) by (intro map_idI) auto
  moreover have "filter (\<lambda>i. i \<noteq> []) ids = ids" using assms(1) by (intro filter_True) auto
  ultimately show ?thesis by (simp add: split_ids_def)
qed

text \<open>
  Dismissing an announcement hides it, on the requests that carry the cookie given for it, and no other; the ones dismissed
  before stay hidden.
\<close>

theorem dismissal_hides_one:
  assumes "\<forall>xs. set (order xs) = set xs" "i = trim_space (rq_form r ''id'')" "i \<noteq> []" "CHR '','' \<notin> set i"
    and "handle_announcement_dismiss env order r w s = (resp, s')"
    and "rq_cookie r' dismissedAnnouncementsCookieName = Some (ck_value (last (w_cookies (rs_writer resp))))"
  shows "active_messages messages now r' = filter (\<lambda>m. an_id m \<noteq> i) (active_messages messages now r)"
proof -
  define ids where "ids = order (remdups (i # dismissed_announcement_ids r))"
  have set_ids: "set ids = insert i (set (dismissed_announcement_ids r))" using assms(1) by (auto simp: ids_def)
  then have ok: "\<forall>j\<in>set ids. CHR '','' \<notin> set j \<and> j \<noteq> [] \<and> trim_space j = j" "ids \<noteq> []"
    using dismissed_plain assms(2,3,4) by auto
  have "rq_cookie r' dismissedAnnouncementsCookieName = Some (query_escape (join '','' ids))"
    using assms(3,5,6) by (auto simp: handle_announcement_dismiss_def Let_def assms(2) [symmetric] ids_def [symmetric]
        redirect_keeps_cookies set_cookie_def visitor_cookie_def simp del: remdups.simps)
  moreover have "join '','' ids \<noteq> []" using split_ids_join [OF ok] ok(2) trim_space_id [of "[]"] by (auto simp: split_ids_def)
  ultimately have "dismissed_announcement_ids r' = ids"
    using split_ids_join [OF ok] by (simp add: dismissed_announcement_ids_def query_escape_Nil cookie_text_escape)
  then show ?thesis using set_ids by (auto simp: active_messages_def intro!: filter_cong)
qed

text \<open>An announcement with a comma in its name, or a blank at one of its ends, cannot be dismissed.\<close>

theorem comma_never_dismissed:
  assumes "CHR '','' \<in> set i \<or> trim_space i \<noteq> i"
  shows "i \<notin> set (dismissed_announcement_ids r)"
  using dismissed_plain [of i r] assms by blast

subsection \<open>Witnesses\<close>

definition sample_visitor :: visitor_env where
  "sample_visitor =
     \<lparr>ve_marshal = (\<lambda>cc. Some ((if cc_essential cc then ''e'' else ''n'') @ (if cc_preferences cc then ''p'' else ''n'') @
         (if cc_analytics cc then ''a'' else ''n'') @ replicate (nat (cc_timestamp cc)) CHR ''t'' @
         (if cc_timestamp cc < 0 then CHR ''-'' # replicate (nat (- cc_timestamp cc)) CHR ''t'' else []))),
      ve_unmarshal = (\<lambda>d. Some \<lparr>cc_essential = d ! 0 = CHR ''e'', cc_preferences = d ! 1 = CHR ''p'',
         cc_analytics = d ! 2 = CHR ''a'',
         cc_timestamp = (if 3 < length d \<and> d ! 3 = CHR ''-'' then - int (length d - 4) else int (length d - 3))\<rparr>),
      ve_host = (\<lambda>u. None), ve_secure = []\<rparr>"

lemma sample_visitor_ok: "cookie_json_ok sample_visitor"
  by (auto simp: cookie_json_ok_def sample_visitor_def nth_append)

theorem consent_decides_tracking_witness:
  "\<exists>r'. check_tracking_allowed sample_visitor \<lparr>tc_type = ''simple'', tc_url = [], tc_id = []\<rparr> r'"
proof -
  define r where "r = plain_request\<lparr>rq_form := (\<lambda>n. if n = ''choice'' then ''accept'' else [])\<rparr>"
  obtain resp s' where h: "handle_consent sample_visitor 0 r plain_writer () = (resp, s')" by (metis surj_pair)
  obtain cc where c: "consent_of_form 0 r = Some cc" by (simp add: consent_of_form_def r_def)
  have m: "ve_marshal sample_visitor cc \<noteq> None" by (simp add: sample_visitor_def)
  define r' where "r' = plain_request\<lparr>rq_cookie := (\<lambda>n. Some (ck_value (last (w_cookies (rs_writer resp)))))\<rparr>"
  have "rq_cookie r' consentCookieName = Some (ck_value (last (w_cookies (rs_writer resp))))" by (simp add: r'_def)
  from consent_decides_tracking [OF sample_visitor_ok c m h this, of "\<lparr>tc_type = ''simple'', tc_url = [], tc_id = []\<rparr>"]
  show ?thesis by (auto simp: r_def)
qed

theorem dismissal_hides_one_witness:
  "\<exists>r'. active_messages [\<lparr>an_id = ''a'', an_type = [], an_message = [], an_start = [], an_end = [], an_dismissible = True\<rparr>] 0 r' = []"
proof -
  define r where "r = plain_request\<lparr>rq_form := (\<lambda>n. ''a'')\<rparr>"
  obtain resp s' where h: "handle_announcement_dismiss sample_visitor rev r plain_writer () = (resp, s')" by (metis surj_pair)
  define r' where "r' = plain_request\<lparr>rq_cookie := (\<lambda>n. Some (ck_value (last (w_cookies (rs_writer resp)))))\<rparr>"
  have c: "rq_cookie r' dismissedAnnouncementsCookieName = Some (ck_value (last (w_cookies (rs_writer resp))))" by (simp add: r'_def)
  have i: "''a'' = trim_space (rq_form r ''id'')" by (simp add: r_def trim_space_id is_space_def)
  have "\<forall>xs. set (rev xs) = set xs" "''a'' \<noteq> []" "CHR '','' \<notin> set ''a''" by simp_all
  from dismissal_hides_one [OF this(1) i this(2,3) h c,
      of "[\<lparr>an_id = ''a'', an_type = [], an_message = [], an_start = [], an_end = [], an_dismissible = True\<rparr>]" 0]
  have "active_messages [\<lparr>an_id = ''a'', an_type = [], an_message = [], an_start = [], an_end = [], an_dismissible = True\<rparr>] 0 r' = []"
    by (simp add: active_messages_def split: if_splits)
  then show ?thesis by blast
qed

end
