(* ===== verification/Counters.thy ===== *)
theory Counters
  imports HttpGuard Texts Cache
begin

text \<open>
  The counters of requests (\<open>src/src/server/stats.go\<close>), which goroutines change without a lock, one atomic operation at a
  time, and the state of health built from them (\<open>src/src/server/health.go\<close>). A day is named by its start, in seconds since
  1970 in the code and by its number here. The text of the time since the start and whether the database answers are
  parameters.
\<close>

subsection \<open>recordRequest, step by step\<close>

record server_stats =
  requestsTotal :: int
  requests24h :: int
  dayStart :: int
  activeConns :: int

definition new_server_stats :: "int \<Rightarrow> server_stats" where
  "new_server_stats d = \<lparr>requestsTotal = 0, requests24h = 0, dayStart = d, activeConns = 0\<rparr>"

definition conn_open :: "server_stats \<Rightarrow> server_stats" where
  "conn_open st = st\<lparr>activeConns := activeConns st + 1\<rparr>"

definition conn_close :: "server_stats \<Rightarrow> server_stats" where
  "conn_close st = st\<lparr>activeConns := activeConns st - 1\<rparr>"

text \<open>Undisturbed, on the day \<open>today\<close>.\<close>

definition record_request :: "int \<Rightarrow> server_stats \<Rightarrow> server_stats" where
  "record_request today st0 =
     (let st = st0\<lparr>requestsTotal := requestsTotal st0 + 1\<rparr>
      in if dayStart st \<noteq> today then st\<lparr>dayStart := today, requests24h := 1\<rparr>
         else st\<lparr>requests24h := requests24h st + 1\<rparr>)"

text \<open>Where a goroutine stands: what it does next, with its local variables.\<close>

datatype recording =
    AddTotal                \<comment> \<open>\<open>requestsTotal.Add(1)\<close>\<close>
  | ReadClock
  | LoadDay int             \<comment> \<open>\<open>today\<close>\<close>
  | SwapDay int int         \<comment> \<open>\<open>today\<close> and the different day loaded\<close>
  | StoreOne                \<comment> \<open>\<open>requests24h.Store(1)\<close>\<close>
  | AddDay                  \<comment> \<open>\<open>requests24h.Add(1)\<close>\<close>
  | Recorded

definition record_step :: "int \<Rightarrow> recording \<Rightarrow> server_stats \<Rightarrow> recording \<times> server_stats" where
  "record_step today g st =
     (case g of
        AddTotal \<Rightarrow> (ReadClock, st\<lparr>requestsTotal := requestsTotal st + 1\<rparr>)
      | ReadClock \<Rightarrow> (LoadDay today, st)
      | LoadDay d \<Rightarrow> (if dayStart st \<noteq> d then SwapDay d (dayStart st) else AddDay, st)
      | SwapDay d old \<Rightarrow> if dayStart st = old then (StoreOne, st\<lparr>dayStart := d\<rparr>) else (AddDay, st)
      | StoreOne \<Rightarrow> (Recorded, st\<lparr>requests24h := 1\<rparr>)
      | AddDay \<Rightarrow> (Recorded, st\<lparr>requests24h := requests24h st + 1\<rparr>)
      | Recorded \<Rightarrow> (Recorded, st))"

text \<open>The day, the goroutines so far, and the counters.\<close>

type_synonym stats_state = "int \<times> recording list \<times> server_stats"

inductive stats_step :: "stats_state \<Rightarrow> stats_state \<Rightarrow> bool" where
  request: "stats_step (today, gs, st) (today, gs @ [AddTotal], st)"
| midnight: "stats_step (today, gs, st) (today + 1, gs, st)"
| advance: "i < length gs \<Longrightarrow> record_step today (gs ! i) st = (g, st') \<Longrightarrow>
    stats_step (today, gs, st) (today, gs[i := g], st')"

definition stats_run :: "stats_state \<Rightarrow> stats_state \<Rightarrow> bool" where
  "stats_run = stats_step\<^sup>*\<^sup>*"

definition stats_reachable :: "stats_state \<Rightarrow> bool" where
  "stats_reachable s \<longleftrightarrow> (\<exists>today d. stats_run (today, [], new_server_stats d) s)"

subsection \<open>The state of health\<close>

record health_checks =
  hc_database :: string
  hc_cache :: string
  hc_disk :: string
  hc_scheduler :: string
  hc_tor :: string

fun worst_status :: "bool \<Rightarrow> string list \<Rightarrow> string" where
  "worst_status degraded [] = (if degraded then ''degraded'' else ''healthy'')"
| "worst_status degraded (v # vs) =
     (if v = ''error'' then ''unhealthy'' else worst_status (degraded \<or> v = ''warn'') vs)"

definition get_overall_status :: "health_checks \<Rightarrow> string" where
  "get_overall_status c =
     worst_status False ([hc_database c, hc_cache c, hc_disk c, hc_scheduler c] @ (if hc_tor c \<noteq> [] then [hc_tor c] else []))"

record tor_info =
  ti_enabled :: bool
  ti_running :: bool
  ti_status :: string
  ti_hostname :: string

text \<open>The address of the onion service, \<open>None\<close> without the service.\<close>

definition build_tor_info :: "string option \<Rightarrow> tor_info" where
  "build_tor_info tor =
     (case tor of
        None \<Rightarrow> \<lparr>ti_enabled = False, ti_running = False, ti_status = ''disabled'', ti_hostname = []\<rparr>
      | Some addr \<Rightarrow>
          let running = (addr \<noteq> [] \<and> addr \<noteq> ''.onion'')
          in \<lparr>ti_enabled = True, ti_running = running, ti_status = (if running then ''healthy'' else ''starting''),
              ti_hostname = addr\<rparr>)"

text \<open>Whether the database is there and answers; whether the scheduler exists.\<close>

definition check_server_database :: "bool option \<Rightarrow> string" where
  "check_server_database ping = (case ping of None \<Rightarrow> ''error'' | Some up \<Rightarrow> if up then ''ok'' else ''error'')"

definition check_scheduler :: "bool \<Rightarrow> string" where
  "check_scheduler exists = (if exists then ''ok'' else ''error'')"

record health_env =
  he_title :: string
  he_tagline :: string
  he_description :: string
  he_database :: "bool option"
  he_scheduler :: bool
  he_tor :: "string option"
  he_version :: string
  he_goVersion :: string
  he_commit :: string
  he_date :: string
  he_uptime :: string
  he_mode :: string
  he_timestamp :: string
  he_geoip :: bool
  he_email :: bool
  he_cache :: "int \<times> int"     \<comment> \<open>hits and misses\<close>
  he_stats :: server_stats
  he_domain :: int
  he_ip :: int
  he_asn :: int

definition health_checks_of :: "health_env \<Rightarrow> health_checks" where
  "health_checks_of e =
     (let tor = build_tor_info (he_tor e)
      in \<lparr>hc_database = check_server_database (he_database e), hc_cache = ''ok'', hc_disk = ''ok'',
          hc_scheduler = check_scheduler (he_scheduler e),
          hc_tor = (if ti_enabled tor then (if ti_running tor then ''ok'' else ''error'') else [])\<rparr>)"

definition or_default :: "string \<Rightarrow> string \<Rightarrow> string" where
  "or_default s d = (if s = [] then d else s)"

definition bool_text :: "bool \<Rightarrow> string" where
  "bool_text b = (if b then ''true'' else ''false'')"

text \<open>The answer as names and texts, in the order of the text format; the sections of that format are its title lines.\<close>

definition health_fields :: "health_env \<Rightarrow> (string \<times> (string \<times> string) list) list" where
  "health_fields e =
     (let c = health_checks_of e; t = build_tor_info (he_tor e); st = he_stats e in
      [(''# 1. Project'',
        [(''project.name'', or_default (he_title e) ''caswhois''),
         (''project.tagline'', or_default (he_tagline e) ''WHOIS Lookup Service''),
         (''project.description'', or_default (he_description e) ''Domain, IP, and ASN WHOIS lookup service'')]),
       (''# 2. Status'', [(''status'', get_overall_status c)]),
       (''# 3. Version & Build'',
        [(''version'', he_version e), (''go_version'', he_goVersion e), (''build.commit'', he_commit e),
         (''build.date'', he_date e)]),
       (''# 4. Runtime'', [(''uptime'', he_uptime e), (''mode'', he_mode e), (''timestamp'', he_timestamp e)]),
       (''# 5. Features'',
        [(''features.rate_limiting'', ''true''), (''features.caching'', ''true''),
         (''features.geoip'', bool_text (he_geoip e)), (''features.email'', bool_text (he_email e)),
         (''features.tor.enabled'', bool_text (ti_enabled t)), (''features.tor.running'', bool_text (ti_running t)),
         (''features.tor.status'', ti_status t)] @
        (if ti_hostname t \<noteq> [] then [(''features.tor.hostname'', ti_hostname t)] else [])),
       (''# 6. Checks'',
        [(''checks.database'', hc_database c), (''checks.cache'', hc_cache c), (''checks.disk'', hc_disk c),
         (''checks.scheduler'', hc_scheduler c)] @ (if hc_tor c \<noteq> [] then [(''checks.tor'', hc_tor c)] else [])),
       (''# 7. Stats'',
        [(''stats.requests_total'', itoa_int (requestsTotal st)), (''stats.requests_24h'', itoa_int (requests24h st)),
         (''stats.active_connections'', itoa_int (activeConns st)), (''stats.cache_hits'', itoa_int (fst (he_cache e))),
         (''stats.cache_misses'', itoa_int (snd (he_cache e))),
         (''stats.whois_queries'', itoa_int (he_domain e + he_ip e + he_asn e)),
         (''stats.domain_queries'', itoa_int (he_domain e)), (''stats.ip_queries'', itoa_int (he_ip e)),
         (''stats.asn_queries'', itoa_int (he_asn e))])])"

definition health_lines :: "(string \<times> (string \<times> string) list) list \<Rightarrow> string" where
  "health_lines fs =
     join [CHR 0x0A]
       (map (\<lambda>(h, kvs). concat (map (\<lambda>l. l @ [CHR 0x0A]) (h # map (\<lambda>(k, v). k @ '': '' @ v) kvs))) fs)"

text \<open>The JSON answer has the fields of the struct in their order; \<open>omitempty\<close> leaves out empty ones.\<close>

definition health_json :: "health_env \<Rightarrow> json" where
  "health_json e =
     (let c = health_checks_of e; t = build_tor_info (he_tor e); st = he_stats e; num = (\<lambda>i. JNum (itoa_int i)) in
      JObj
       [(''project'', JObj
          [(''name'', JStr (or_default (he_title e) ''caswhois'')),
           (''tagline'', JStr (or_default (he_tagline e) ''WHOIS Lookup Service'')),
           (''description'', JStr (or_default (he_description e) ''Domain, IP, and ASN WHOIS lookup service''))]),
        (''status'', JStr (get_overall_status c)), (''version'', JStr (he_version e)), (''go_version'', JStr (he_goVersion e)),
        (''build'', JObj [(''commit'', JStr (he_commit e)), (''date'', JStr (he_date e))]),
        (''uptime'', JStr (he_uptime e)), (''mode'', JStr (he_mode e)), (''timestamp'', JStr (he_timestamp e)),
        (''features'', JObj
          [(''tor'', JObj ([(''enabled'', JBool (ti_enabled t)), (''running'', JBool (ti_running t)),
              (''status'', JStr (ti_status t))] @ (if ti_hostname t \<noteq> [] then [(''hostname'', JStr (ti_hostname t))] else []))),
           (''geoip'', JBool (he_geoip e)), (''rate_limiting'', JBool True), (''caching'', JBool True),
           (''email'', JBool (he_email e))]),
        (''checks'', JObj
          ([(''database'', JStr (hc_database c)), (''cache'', JStr (hc_cache c)), (''disk'', JStr (hc_disk c)),
            (''scheduler'', JStr (hc_scheduler c))] @ (if hc_tor c \<noteq> [] then [(''tor'', JStr (hc_tor c))] else []))),
        (''stats'', JObj
          [(''requests_total'', num (requestsTotal st)), (''requests_24h'', num (requests24h st)),
           (''active_connections'', num (activeConns st)), (''cache_hits'', num (fst (he_cache e))),
           (''cache_misses'', num (snd (he_cache e))), (''whois_queries'', num (he_domain e + he_ip e + he_asn e)),
           (''domain_queries'', num (he_domain e)), (''ip_queries'', num (he_ip e)), (''asn_queries'', num (he_asn e))])])"

definition handle_health :: "health_env \<Rightarrow> 's handler" where
  "handle_health e rq w s =
     (let accept = header rq ''Accept'' in
      if contains_sub accept ''text/plain'' \<and> \<not> contains_sub accept ''application/json'' then
        (\<lparr>rs_status = 200, rs_writer = set_head ''Content-Type'' ''text/plain'' w, rs_body = Text (health_lines (health_fields e))\<rparr>, s)
      else
        (\<lparr>rs_status = 200, rs_writer = set_head ''Content-Type'' ''application/json'' w,
          rs_body = JsonData (health_json e)\<rparr>, s))"

subsection \<open>Lemmas\<close>

definition pending :: "recording \<Rightarrow> bool" where
  "pending g \<longleftrightarrow> g \<noteq> AddTotal \<and> g \<noteq> Recorded"

text \<open>How many elements of a list have a property, after one of them has changed.\<close>

lemma length_filter_update:
  "i < length xs \<Longrightarrow> int (length (filter P (xs[i := y]))) =
    int (length (filter P xs)) - (if P (xs ! i) then 1 else 0) + (if P y then 1 else 0)"
proof (induction xs arbitrary: i)
  case (Cons x xs)
  show ?case
  proof (cases i)
    case (Suc j)
    then show ?thesis using Cons.IH [of j] Cons.prems by (auto split: if_splits)
  qed simp
qed simp

definition stats_inv :: "stats_state \<Rightarrow> bool" where
  "stats_inv s \<longleftrightarrow> (case s of (today, gs, st) \<Rightarrow>
     requestsTotal st = int (length (filter (\<lambda>g. g \<noteq> AddTotal) gs)) \<and> 0 \<le> requests24h st \<and>
     requests24h st + int (length (filter pending gs)) \<le> requestsTotal st)"

lemma stats_inv_step: "stats_step s s' \<Longrightarrow> stats_inv s \<Longrightarrow> stats_inv s'"
proof (induction rule: stats_step.induct)
  case (advance i gs today st g st')
  show ?case
    using advance
    by (cases "gs ! i")
       (auto simp: stats_inv_def length_filter_update pending_def record_step_def split: if_splits)
qed (auto simp: stats_inv_def pending_def)

lemma stats_inv_reachable: "stats_reachable s \<Longrightarrow> stats_inv s"
proof -
  assume "stats_reachable s"
  then obtain today d where r: "stats_step\<^sup>*\<^sup>* (today, [], new_server_stats d) s"
    by (auto simp: stats_reachable_def stats_run_def)
  have "stats_inv (today, [], new_server_stats d)" by (simp add: stats_inv_def new_server_stats_def)
  with r show ?thesis by (induction rule: rtranclp_induct) (auto intro: stats_inv_step)
qed

lemma finished_split:
  "int (length (filter (\<lambda>g. g \<noteq> AddTotal) gs)) = int (length (filter pending gs)) + int (length (filter (\<lambda>g. g = Recorded) gs))"
  by (induction gs) (auto simp: pending_def)

subsection \<open>Properties\<close>


text \<open>Runs by their moves: a request comes in, a day ends, a goroutine takes its next step.\<close>

datatype stats_move = NewRequest | NewDay | Next nat

fun make_move :: "stats_move \<Rightarrow> stats_state \<Rightarrow> stats_state" where
  "make_move NewRequest (today, gs, st) = (today, gs @ [AddTotal], st)"
| "make_move NewDay (today, gs, st) = (today + 1, gs, st)"
| "make_move (Next i) (today, gs, st) =
     (if i < length gs then case record_step today (gs ! i) st of (g, st') \<Rightarrow> (today, gs[i := g], st') else (today, gs, st))"

lemma stats_move_run: "stats_step\<^sup>*\<^sup>* s (make_move m s)"
  by (cases "(m, s)" rule: make_move.cases) (auto intro: stats_step.intros split: prod.splits)

lemma stats_moves_run: "stats_run s (fold make_move ms s)"
  unfolding stats_run_def
proof (induction ms arbitrary: s)
  case (Cons m ms)
  then show ?case using stats_move_run [of s m] by (metis fold_simps(2) rtranclp_trans)
qed simp

lemma stats_moves_reachable: "stats_reachable (fold make_move ms (today, [], new_server_stats d))"
  unfolding stats_reachable_def using stats_moves_run by blast


text \<open>Undisturbed, the steps of a goroutine are \<open>record_request\<close>.\<close>

lemma stats_run_trans: "stats_run a b \<Longrightarrow> stats_run b c \<Longrightarrow> stats_run a c"
  by (simp add: stats_run_def)

theorem undisturbed_recording:
  "stats_run (today, gs @ [AddTotal], st) (today, gs @ [Recorded], record_request today st)"
proof -
  let ?next = "Next (length gs)"
  have "fold make_move [?next, ?next, ?next, ?next, ?next] (today, gs @ [AddTotal], st) =
      (today, gs @ [Recorded], record_request today st)"
    by (auto simp: record_step_def record_request_def Let_def)
  then show ?thesis using stats_moves_run [of "(today, gs @ [AddTotal], st)" "[?next, ?next, ?next, ?next, ?next]"] by simp
qed

lemma record_request_fields:
  "requestsTotal (record_request x st) = requestsTotal st + 1" "dayStart (record_request x st) = x"
  "requests24h (record_request x st) = (if dayStart st = x then requests24h st + 1 else 1)"
  by (simp_all add: record_request_def Let_def)

lemma sorted_last: "sorted xs \<Longrightarrow> xs \<noteq> [] \<Longrightarrow> \<forall>y\<in>set xs. y \<le> last xs"
  by (induction xs) auto

text \<open>
  One request after the other, the total counts them all and the count of the day exactly those of the day of the last
  one, provided the clock does not go back.
\<close>

theorem sequential_counts_exact:
  assumes "ds \<noteq> []" "sorted ds"
  shows "requestsTotal (fold record_request ds (new_server_stats d)) = int (length ds) \<and>
    requests24h (fold record_request ds (new_server_stats d)) = int (length (filter (\<lambda>x. x = last ds) ds))"
proof -
  let ?st = "\<lambda>ds. fold record_request ds (new_server_stats d)"
  have "requestsTotal (?st ds) = int (length ds) \<and> dayStart (?st ds) = last ds \<and>
      requests24h (?st ds) = int (length (filter (\<lambda>x. x = last ds) ds))"
    using assms
  proof (induction ds rule: rev_induct)
    case (snoc x ds)
    show ?case
    proof (cases "ds = []")
      case True
      then show ?thesis by (simp add: record_request_fields new_server_stats_def)
    next
      case False
      then have ih: "requestsTotal (?st ds) = int (length ds)" "dayStart (?st ds) = last ds"
        "requests24h (?st ds) = int (length (filter (\<lambda>x. x = last ds) ds))"
        using snoc by (auto simp: sorted_append)
      have "filter (\<lambda>y. y = x) ds = []" if "last ds \<noteq> x"
      proof -
        have "\<forall>y\<in>set ds. y \<le> last ds" using snoc.prems(2) False by (simp add: sorted_append sorted_last)
        moreover have "last ds \<le> x" using snoc.prems(2) False by (auto simp: sorted_append)
        ultimately show ?thesis using that by (auto simp: filter_empty_conv)
      qed
      with ih show ?thesis by (cases "last ds = x") (simp_all add: record_request_fields)
    qed
  qed simp
  then show ?thesis by simp
qed

text \<open>
  Two requests at once can lose one: the first claims the new day, the second finds the day claimed and counts itself, and
  then the first sets the count to one.
\<close>

theorem request_lost:
  "\<exists>st. stats_reachable (7, [Recorded, Recorded], st) \<and> requestsTotal st = 2 \<and> requests24h st = 1"
proof -
  let ?ms = "[NewRequest, NewRequest, Next 0, Next 0, Next 0, Next 0, Next 1, Next 1, Next 1, Next 1, Next 0]"
  have "fold make_move ?ms (7, [], new_server_stats 0) =
      (7, [Recorded, Recorded], (new_server_stats 0)\<lparr>requestsTotal := 2, dayStart := 7, requests24h := 1\<rparr>)"
    by (simp add: record_step_def new_server_stats_def)
  with stats_moves_reachable [of ?ms 7 0] show ?thesis by auto
qed

subsection \<open>Health\<close>

text \<open>
  The service is unhealthy exactly when the database does not answer, there is no scheduler, or an onion service is
  configured that has no address yet; it is never degraded.
\<close>

theorem overall_status_spec:
  "get_overall_status (health_checks_of e) =
    (if he_database e = Some True \<and> he_scheduler e \<and> (\<forall>a. he_tor e = Some a \<longrightarrow> a \<noteq> [] \<and> a \<noteq> ''.onion'')
     then ''healthy'' else ''unhealthy'')"
  by (cases "he_database e"; cases "he_tor e")
     (auto simp: get_overall_status_def health_checks_of_def check_server_database_def check_scheduler_def build_tor_info_def Let_def)

text \<open>The answer has status 200 whatever the state.\<close>

theorem health_always_ok: "rs_status (fst (handle_health e rq w s)) = 200"
  by (simp add: handle_health_def Let_def)

theorem sequential_counts_exact_witness:
  "requestsTotal (fold record_request [1, 1, 2] (new_server_stats 0)) = 3 \<and>
   requests24h (fold record_request [1, 1, 2] (new_server_stats 0)) = 1"
  using sequential_counts_exact [of "[1, 1, 2]" 0] by simp

end
