(* ===== verification/PidFile.thy ===== *)
theory PidFile
  imports OwnerSearch Paths
begin

text \<open>
  The file with the number of the server's process (\<open>src/src/server/pid_unix.go\<close>, \<open>getPIDFilePath\<close> of \<open>server.go\<close>), which keeps a
  second server from starting. The file is its content or missing; which processes exist, their names and the outcome
  of operations on files are parameters.
\<close>

subsection \<open>Processes\<close>

text \<open>
  \<open>pe_exe\<close> is the target of the link to the executable under \<open>/proc\<close> (\<open>None\<close> where there is none), \<open>pe_ps\<close> the output of \<open>ps\<close>;
  \<open>pe_alive\<close> whether signal 0 can be sent.
\<close>

record process_env =
  pe_alive :: "int \<Rightarrow> bool"
  pe_exe :: "int \<Rightarrow> string option"
  pe_ps :: "int \<Rightarrow> string option"
  pe_readable :: bool
  pe_mkdir :: bool
  pe_write :: bool
  pe_left :: "string option \<Rightarrow> string option"   \<comment> \<open>the file after a write that failed\<close>

datatype pid_error = PidUnreadable | AlreadyRunning int | PidDirFailed | PidWriteFailed | PidRemoveFailed

definition base_name :: "string \<Rightarrow> string" where
  "base_name p = rev (takeWhile (\<lambda>c. c \<noteq> CHR ''/'') (rev p))"

definition ours :: "string \<Rightarrow> bool" where
  "ours name \<longleftrightarrow> contains_sub name ''caswhois'' \<or> contains_sub name ''whois''"

definition is_our_process_darwin :: "process_env \<Rightarrow> int \<Rightarrow> bool" where
  "is_our_process_darwin env pid = (case pe_ps env pid of None \<Rightarrow> False | Some out \<Rightarrow> ours (to_lower out))"

definition is_our_process :: "process_env \<Rightarrow> int \<Rightarrow> bool" where
  "is_our_process env pid =
     (case pe_exe env pid of None \<Rightarrow> is_our_process_darwin env pid | Some exe \<Rightarrow> ours (base_name exe))"

subsection \<open>Operations\<close>

text \<open>A number that belongs to no server of ours is removed with its file.\<close>

definition check_pid_file :: "process_env \<Rightarrow> string option \<Rightarrow> (pid_error + int option) \<times> string option" where
  "check_pid_file env f =
     (case f of
        None \<Rightarrow> (Inr None, None)
      | Some content \<Rightarrow>
          if \<not> pe_readable env then (Inl PidUnreadable, f)
          else (case atoi (hd (split_on CHR '':'' (trim_space content))) of
                  None \<Rightarrow> (Inr None, None)
                | Some pid \<Rightarrow>
                    if \<not> pe_alive env pid then (Inr None, None)
                    else if \<not> is_our_process env pid then (Inr None, None)
                    else (Inr (Some pid), f)))"

definition pid_text :: "int \<Rightarrow> int \<Rightarrow> string" where
  "pid_text pid port = itoa_int pid @ '':'' @ itoa_int port @ [CHR 0x0A]"

text \<open>What happens after the check.\<close>

definition store_pid :: "process_env \<Rightarrow> int \<Rightarrow> int \<Rightarrow> string option \<Rightarrow> pid_error option \<times> string option" where
  "store_pid env pid port f =
     (if \<not> pe_mkdir env then (Some PidDirFailed, f)
      else if \<not> pe_write env then (Some PidWriteFailed, pe_left env f)
      else (None, Some (pid_text pid port)))"

definition write_pid_file :: "process_env \<Rightarrow> int \<Rightarrow> int \<Rightarrow> string option \<Rightarrow> pid_error option \<times> string option" where
  "write_pid_file env pid port f =
     (case check_pid_file env f of
        (Inl e, f1) \<Rightarrow> (Some e, f1)
      | (Inr (Some other), f1) \<Rightarrow> (Some (AlreadyRunning other), f1)
      | (Inr None, f1) \<Rightarrow> store_pid env pid port f1)"

definition remove_pid_file :: "bool \<Rightarrow> string option \<Rightarrow> pid_error option \<times> string option" where
  "remove_pid_file removes f = (if f = None then (None, None) else if removes then (None, None) else (Some PidRemoveFailed, f))"

definition get_pid_file_path :: "bool \<Rightarrow> string \<Rightarrow> string" where
  "get_pid_file_path privileged home =
     (if privileged then ''/var/run/apimgr/caswhois.pid''
      else path_join (path_join (path_join (path_join (path_join home ''.local'') ''share'') ''apimgr'') ''caswhois'') ''caswhois.pid'')"

subsection \<open>Lemmas\<close>

lemma trim_space_line:
  assumes "\<forall>c\<in>set s. \<not> is_space c" "s \<noteq> []"
  shows "trim_space (s @ [CHR 0x0A]) = s"
proof -
  have h: "\<not> is_space (hd s)" "\<not> is_space (last s)" using assms by simp_all
  then have "dropWhile is_space (s @ [CHR 0x0A]) = s @ [CHR 0x0A]" using assms(2) by (simp add: dropWhile_hd)
  moreover have "dropWhile is_space (rev s) = rev s" using h(2) assms(2) by (simp add: dropWhile_hd hd_rev)
  moreover have "is_space CHR 0x0A" by (simp add: is_space_def)
  ultimately show ?thesis by (simp add: trim_space_def go_str)
qed

lemma number_head: "hd (split_on CHR '':'' (trim_space (pid_text (int n) port))) = itoa_nat n"
proof -
  obtain c cs where c: "itoa_nat n = c # cs" by (meson itoa_ne neq_Nil_conv)
  have d: "\<forall>x\<in>set (itoa_nat n). is_digit x" using all_digits_itoa [of n] by (simp add: all_digits_def list_all_iff)
  then have nc: "CHR '':'' \<notin> set (itoa_nat n)" by (auto simp: is_digit_def)
  have dp: "\<forall>x\<in>set (itoa_int port). \<not> is_space x"
    using all_digits_itoa [of "nat port"] all_digits_itoa [of "nat (- port)"]
    by (auto simp: itoa_int_def all_digits_def list_all_iff is_space_def is_digit_def)
  have plain: "\<forall>x\<in>set (itoa_nat n @ '':'' @ itoa_int port). \<not> is_space x"
    using d dp by (auto simp: is_digit_def is_space_def)
  have "trim_space (pid_text (int n) port) = itoa_nat n @ '':'' @ itoa_int port"
    using trim_space_line [OF plain] c by (simp add: pid_text_def itoa_int_def)
  then show ?thesis using nc by (simp add: split_on_append)
qed

lemma check_own_file:
  assumes "int n < 2 ^ 63" "pe_readable env" "pe_alive env (int n)" "is_our_process env (int n)"
  shows "check_pid_file env (Some (pid_text (int n) port)) = (Inr (Some (int n)), Some (pid_text (int n) port))"
  using assms number_head [of n port] atoi_itoa [OF assms(1)] by (simp add: check_pid_file_def)

subsection \<open>Properties\<close>

text \<open>
  C18: As long as the process that wrote the file runs, the file names it, and no other process gets a file of its own: a second
  start is refused with the number of the first and changes nothing.
\<close>

theorem pid_file_excludes:
  assumes "write_pid_file env (int n) port f = (None, f1)" "int n < 2 ^ 63"
    and "pe_readable env'" "pe_alive env' (int n)" "is_our_process env' (int n)"
  shows "check_pid_file env' f1 = (Inr (Some (int n)), f1) \<and>
    write_pid_file env' other port' f1 = (Some (AlreadyRunning (int n)), f1)"
proof -
  have "f1 = Some (pid_text (int n) port)"
    using assms(1) by (auto simp: write_pid_file_def store_pid_def split: prod.splits sum.splits option.splits if_splits)
  then show ?thesis using check_own_file [OF assms(2-5)] by (simp add: write_pid_file_def)
qed

text \<open>
  The file of a process that is gone, or whose number another program has taken over, keeps nobody from starting, nor does one
  that cannot be read as a number.
\<close>

theorem stale_pid_file:
  assumes "f \<noteq> None \<Longrightarrow> pe_readable env"
    and "\<And>content pid. f = Some content \<Longrightarrow> atoi (hd (split_on CHR '':'' (trim_space content))) = Some pid \<Longrightarrow>
      \<not> pe_alive env pid \<or> \<not> is_our_process env pid"
    and "pe_mkdir env" "pe_write env"
  shows "write_pid_file env pid port f = (None, Some (pid_text pid port))"
proof -
  have "check_pid_file env f = (Inr None, None)"
    using assms(1,2) by (auto simp: check_pid_file_def split: option.splits)
  then show ?thesis using assms(3,4) by (simp add: write_pid_file_def store_pid_def)
qed

text \<open>
  The check and the write are two steps: of two processes that start at once both can pass the check, and then both run, with
  the file of the second.
\<close>

theorem pid_file_race:
  assumes "pe_mkdir env" "pe_write env" "check_pid_file env f = (Inr None, f1)"
  shows "\<exists>f2 f3. check_pid_file env f1 = (Inr None, f1) \<and> store_pid env a port f1 = (None, f2) \<and>
    store_pid env b port' f2 = (None, f3) \<and> f3 = Some (pid_text b port')"
proof -
  have "f1 = None"
    using assms(3) by (auto simp: check_pid_file_def split: option.splits if_splits)
  then show ?thesis using assms(1,2) by (simp add: check_pid_file_def store_pid_def)
qed

subsection \<open>Witnesses\<close>

definition sample_processes :: process_env where
  "sample_processes = \<lparr>pe_alive = (\<lambda>p. p = 7), pe_exe = (\<lambda>p. Some ''/usr/bin/caswhois''), pe_ps = (\<lambda>p. None), pe_readable = True,
     pe_mkdir = True, pe_write = True, pe_left = (\<lambda>f. f)\<rparr>"

lemma sample_ours: "is_our_process sample_processes p"
  by (simp add: is_our_process_def sample_processes_def base_name_def ours_def str_evals)

theorem pid_file_excludes_witness:
  "write_pid_file sample_processes 9 80 (Some (pid_text 7 80)) = (Some (AlreadyRunning 7), Some (pid_text 7 80))"
proof -
  have w: "write_pid_file sample_processes (int 7) 80 None = (None, Some (pid_text (int 7) 80))"
    by (simp add: write_pid_file_def check_pid_file_def store_pid_def sample_processes_def)
  have "pe_readable sample_processes" "pe_alive sample_processes (int 7)" by (simp_all add: sample_processes_def)
  from pid_file_excludes [OF w _ this sample_ours, of 9 80] show ?thesis by simp
qed

theorem stale_pid_file_witness:
  "write_pid_file sample_processes 9 80 (Some ''x'') = (None, Some (pid_text 9 80))"
proof (rule stale_pid_file)
  have t: "hd (split_on CHR '':'' (trim_space ''x'')) = ''x''" by code_simp
  have "atoi ''x'' = None" by code_simp
  then show "\<not> pe_alive sample_processes pid \<or> \<not> is_our_process sample_processes pid"
    if "Some ''x'' = Some content" "atoi (hd (split_on CHR '':'' (trim_space content))) = Some pid" for content pid
    using that t by simp
qed (simp_all add: sample_processes_def)

end
