(* ===== verification/Redis.thy ===== *)
theory Redis
  imports Cache GoTime
begin

text \<open>
  The cache on a Valkey or Redis server (\<open>src/src/cache/redis.go\<close>) and the choice of the cache from the configuration
  (\<open>factory.go\<close>, \<open>NewServer\<close>). The commands of the server and \<open>redis.ParseURL\<close> are parameters; what the documentation of
  the commands says is \<open>redis_ok\<close>. The counters are taken as changed one at a time, although the code has no lock for them.
\<close>

subsection \<open>The server\<close>

text \<open>
  The commands on a server in state \<open>'r\<close>. An answer \<open>None\<close> or \<open>False\<close> is an error of the client; \<open>Some None\<close> is \<open>redis.Nil\<close>. A
  pipeline sends all its \<open>SET\<close> commands and reports whether one has failed.
\<close>

record 'r redis_ops =
  rd_get :: "time \<Rightarrow> string \<Rightarrow> 'r \<Rightarrow> string option option"
  rd_set :: "time \<Rightarrow> string \<Rightarrow> string \<Rightarrow> duration \<Rightarrow> 'r \<Rightarrow> bool \<times> 'r"
  rd_del :: "string list \<Rightarrow> 'r \<Rightarrow> bool \<times> 'r"
  rd_flush :: "'r \<Rightarrow> bool \<times> 'r"
  rd_scan :: "string \<Rightarrow> 'r \<Rightarrow> string list \<times> bool"        \<comment> \<open>the keys met, and whether the scan ended well\<close>
  rd_exists :: "time \<Rightarrow> string \<Rightarrow> 'r \<Rightarrow> int option"
  rd_mget :: "time \<Rightarrow> string list \<Rightarrow> 'r \<Rightarrow> string option list option"
  rd_dbsize :: "'r \<Rightarrow> int option"

record 'r redis_cache =
  rc_client :: 'r
  rc_prefix :: string
  rc_start :: time
  rc_hits :: int
  rc_misses :: int
  rc_evictions :: int

datatype redis_error =
    RedisNotFound string | RedisGet | RedisSet | RedisDelete | RedisFlush | RedisScan | RedisClear | RedisExists
  | RedisMGet | RedisUrl | RedisPing | UnsupportedCache string

subsection \<open>Operations\<close>

definition redis_key :: "'r redis_cache \<Rightarrow> string \<Rightarrow> string" where
  "redis_key rc k = key_prefix (rc_prefix rc) k"

definition redis_get :: "'r redis_ops \<Rightarrow> time \<Rightarrow> string \<Rightarrow> 'r redis_cache \<Rightarrow> (redis_error + string) \<times> 'r redis_cache" where
  "redis_get ops now k rc =
     (case rd_get ops now (redis_key rc k) (rc_client rc) of
        None \<Rightarrow> (Inl RedisGet, rc)
      | Some None \<Rightarrow> (Inl (RedisNotFound k), rc\<lparr>rc_misses := rc_misses rc + 1\<rparr>)
      | Some (Some v) \<Rightarrow> (Inr v, rc\<lparr>rc_hits := rc_hits rc + 1\<rparr>))"

definition redis_ttl :: "duration \<Rightarrow> duration" where
  "redis_ttl ttl = (if ttl \<le> 0 then hour else ttl)"

definition redis_set ::
    "'r redis_ops \<Rightarrow> time \<Rightarrow> string \<Rightarrow> string \<Rightarrow> duration \<Rightarrow> 'r redis_cache \<Rightarrow> redis_error option \<times> 'r redis_cache" where
  "redis_set ops now k v ttl rc =
     (case rd_set ops now (redis_key rc k) v (redis_ttl ttl) (rc_client rc) of
        (done, c) \<Rightarrow> (if done then None else Some RedisSet, rc\<lparr>rc_client := c\<rparr>))"

definition redis_delete :: "'r redis_ops \<Rightarrow> string \<Rightarrow> 'r redis_cache \<Rightarrow> redis_error option \<times> 'r redis_cache" where
  "redis_delete ops k rc =
     (case rd_del ops [redis_key rc k] (rc_client rc) of
        (done, c) \<Rightarrow> (if done then None else Some RedisDelete, rc\<lparr>rc_client := c\<rparr>))"

definition redis_clear :: "'r redis_ops \<Rightarrow> 'r redis_cache \<Rightarrow> redis_error option \<times> 'r redis_cache" where
  "redis_clear ops rc =
     (if rc_prefix rc = [] then
        (case rd_flush ops (rc_client rc) of (done, c) \<Rightarrow> (if done then None else Some RedisFlush, rc\<lparr>rc_client := c\<rparr>))
      else case rd_scan ops (rc_prefix rc @ '':*'') (rc_client rc) of
        (ks, False) \<Rightarrow> (Some RedisScan, rc)
      | (ks, True) \<Rightarrow>
          if ks = [] then (None, rc)
          else (case rd_del ops ks (rc_client rc) of
                  (done, c) \<Rightarrow> (if done then None else Some RedisClear, rc\<lparr>rc_client := c\<rparr>)))"

definition redis_exists :: "'r redis_ops \<Rightarrow> time \<Rightarrow> string \<Rightarrow> 'r redis_cache \<Rightarrow> redis_error + bool" where
  "redis_exists ops now k rc =
     (case rd_exists ops now (redis_key rc k) (rc_client rc) of None \<Rightarrow> Inl RedisExists | Some n \<Rightarrow> Inr (0 < n))"

fun mget_fold ::
    "(string \<times> string option) list \<Rightarrow> (string \<times> string) list \<Rightarrow> 'r redis_cache \<Rightarrow> (string \<times> string) list \<times> 'r redis_cache" where
  "mget_fold [] m rc = (m, rc)"
| "mget_fold ((k, None) # r) m rc = mget_fold r m (rc\<lparr>rc_misses := rc_misses rc + 1\<rparr>)"
| "mget_fold ((k, Some v) # r) m rc = mget_fold r (upd k v m) (rc\<lparr>rc_hits := rc_hits rc + 1\<rparr>)"

definition redis_get_multi ::
    "'r redis_ops \<Rightarrow> time \<Rightarrow> string list \<Rightarrow> 'r redis_cache \<Rightarrow> (redis_error + (string \<times> string) list) \<times> 'r redis_cache" where
  "redis_get_multi ops now ks rc =
     (if ks = [] then (Inr [], rc)
      else case rd_mget ops now (map (redis_key rc) ks) (rc_client rc) of
             None \<Rightarrow> (Inl RedisMGet, rc)
           | Some vals \<Rightarrow> (case mget_fold (zip ks vals) [] rc of (m, rc1) \<Rightarrow> (Inr m, rc1)))"

fun redis_pipeline ::
    "'r redis_ops \<Rightarrow> time \<Rightarrow> duration \<Rightarrow> (string \<times> string) list \<Rightarrow> 'r redis_cache \<Rightarrow> redis_error option \<times> 'r redis_cache" where
  "redis_pipeline ops now ttl [] rc = (None, rc)"
| "redis_pipeline ops now ttl ((k, v) # kvs) rc =
     (case redis_set ops now k v ttl rc of
        (Some e, rc1) \<Rightarrow> (Some e, snd (redis_pipeline ops now ttl kvs rc1))
      | (None, rc1) \<Rightarrow> redis_pipeline ops now ttl kvs rc1)"

definition redis_set_multi ::
    "'r redis_ops \<Rightarrow> time \<Rightarrow> (string \<times> string) list \<Rightarrow> duration \<Rightarrow> 'r redis_cache \<Rightarrow> redis_error option \<times> 'r redis_cache" where
  "redis_set_multi ops now kvs ttl rc = redis_pipeline ops now (redis_ttl ttl) kvs rc"

definition redis_stats :: "'r redis_ops \<Rightarrow> time \<Rightarrow> 'r redis_cache \<Rightarrow> stats" where
  "redis_stats ops now rc =
     (let total = rc_hits rc + rc_misses rc;
          n = (if rc_prefix rc \<noteq> [] then int (length (fst (rd_scan ops (rc_prefix rc @ '':*'') (rc_client rc))))
               else opt_or (rd_dbsize ops (rc_client rc)) 0)
      in \<lparr>Hits = rc_hits rc, Misses = rc_misses rc, Evictions = rc_evictions rc, Size = 0, Keys = n,
          HitRate = (if 0 < total then of_int (rc_hits rc) / of_int total else 0), Memory = 0, AvgItemSize = 0,
          Uptime = now - rc_start rc\<rparr>)"

subsection \<open>The choice of the cache\<close>

record redis_options =
  ro_url :: string
  ro_host :: string
  ro_port :: int
  ro_username :: string
  ro_password :: string
  ro_db :: int
  ro_tls :: bool
  ro_tlsSkipVerify :: bool
  ro_poolSize :: int
  ro_minIdle :: int
  ro_timeout :: duration
  ro_prefix :: string

text \<open>The options of the client library that the code sets; timeouts are those for dialling, reading and writing.\<close>

record client_options =
  co_addr :: string
  co_username :: string
  co_password :: string
  co_db :: int
  co_poolSize :: int
  co_minIdle :: int
  co_timeouts :: "duration \<times> duration \<times> duration"
  co_tls :: "bool option"     \<comment> \<open>whether certificates go unverified\<close>

definition client_options_of :: "(string \<Rightarrow> client_options option) \<Rightarrow> redis_options \<Rightarrow> client_options option" where
  "client_options_of parse_url o1 =
     (let base = (if ro_url o1 \<noteq> [] then parse_url (ro_url o1)
                  else Some \<lparr>co_addr = ro_host o1 @ '':'' @ itoa_int (ro_port o1), co_username = ro_username o1,
                              co_password = ro_password o1, co_db = ro_db o1, co_poolSize = 0, co_minIdle = 0,
                              co_timeouts = (0, 0, 0), co_tls = None\<rparr>)
      in map_option (\<lambda>c.
           let c1 = (if 0 < ro_poolSize o1 then c\<lparr>co_poolSize := ro_poolSize o1\<rparr> else c);
               c2 = (if 0 < ro_minIdle o1 then c1\<lparr>co_minIdle := ro_minIdle o1\<rparr> else c1);
               c3 = (if 0 < ro_timeout o1 then c2\<lparr>co_timeouts := (ro_timeout o1, ro_timeout o1, ro_timeout o1)\<rparr> else c2)
           in if ro_tls o1 then c3\<lparr>co_tls := Some (ro_tlsSkipVerify o1)\<rparr> else c3) base)"

text \<open>\<open>connect\<close> gives the server that answers the ping.\<close>

definition new_redis_cache ::
    "(string \<Rightarrow> client_options option) \<Rightarrow> (client_options \<Rightarrow> 'r option) \<Rightarrow> time \<Rightarrow> redis_options \<Rightarrow> redis_error + 'r redis_cache" where
  "new_redis_cache parse_url connect now o1 =
     (case client_options_of parse_url o1 of
        None \<Rightarrow> Inl RedisUrl
      | Some c \<Rightarrow>
          (case connect c of
             None \<Rightarrow> Inl RedisPing
           | Some r \<Rightarrow> Inr \<lparr>rc_client = r, rc_prefix = ro_prefix o1, rc_start = now, rc_hits = 0, rc_misses = 0, rc_evictions = 0\<rparr>))"

record cache_config = redis_options +
  cf_type :: string
  cf_timeout :: string

datatype 'r chosen_cache = ChosenMemory memory_cache | ChosenNoop noop_cache | ChosenRedis "'r redis_cache"

definition new_cache ::
    "(string \<Rightarrow> client_options option) \<Rightarrow> (client_options \<Rightarrow> 'r option) \<Rightarrow> (time \<Rightarrow> items \<Rightarrow> items) \<Rightarrow> time \<Rightarrow> cache_config \<Rightarrow>
     redis_error + 'r chosen_cache" where
  "new_cache parse_url connect order now cfg =
     (let t = to_lower (trim_space (cf_type cfg)) in
      if t \<in> {[], ''memory''} then Inr (ChosenMemory (new_memory_cache order now (100 * 1024 * 1024) (5 * minute)))
      else if t \<in> {''valkey'', ''redis''} then
        (let timeout = (if cf_timeout cfg \<noteq> [] then opt_or (parse_duration (cf_timeout cfg)) (5 * second) else 5 * second)
         in case new_redis_cache parse_url connect now ((redis_options.truncate cfg)\<lparr>ro_timeout := timeout\<rparr>) of
              Inl e \<Rightarrow> Inl e | Inr rc \<Rightarrow> Inr (ChosenRedis rc))
      else if t = ''none'' then Inr (ChosenNoop \<lparr>noop_start = now\<rparr>)
      else Inl (UnsupportedCache (cf_type cfg)))"

text \<open>The server goes on with a cache in memory when there is an error.\<close>

definition server_cache ::
    "(string \<Rightarrow> client_options option) \<Rightarrow> (client_options \<Rightarrow> 'r option) \<Rightarrow> (time \<Rightarrow> items \<Rightarrow> items) \<Rightarrow> time \<Rightarrow> cache_config \<Rightarrow>
     'r chosen_cache" where
  "server_cache parse_url connect order now cfg =
     (case new_cache parse_url connect order now cfg of
        Inl e \<Rightarrow> ChosenMemory (new_memory_cache order now (100 * 1024 * 1024) (5 * minute))
      | Inr c \<Rightarrow> c)"

subsection \<open>What the commands do\<close>

text \<open>
  \<open>rv t r k\<close> is the value that a read of \<open>k\<close> at the time \<open>t\<close> gives. The server may drop a key at any moment, as it does when
  its memory is full; nobody else writes the keys of the cache. A pattern whose fixed part has no special characters finds
  the keys that start with it.
\<close>

definition glob_free :: "string \<Rightarrow> bool" where
  "glob_free p \<longleftrightarrow> (\<forall>c\<in>set p. c \<noteq> CHR ''*'' \<and> c \<noteq> CHR ''?'' \<and> c \<noteq> CHR ''['' \<and> byte c \<noteq> 92)"

definition redis_ok :: "'r redis_ops \<Rightarrow> (time \<Rightarrow> 'r \<Rightarrow> string \<Rightarrow> string option) \<Rightarrow> bool" where
  "redis_ok ops rv \<longleftrightarrow>
     (\<forall>t k r. rd_get ops t k r = Some (rv t r k)) \<and>
     (\<forall>t k r. rd_exists ops t k r = Some (if rv t r k = None then 0 else 1)) \<and>
     (\<forall>t k v ttl r. \<exists>r'. rd_set ops t k v ttl r = (True, r') \<and> (\<forall>t'. rv t' r' k \<in> {None, Some v}) \<and>
        (\<forall>t' k'. k' \<noteq> k \<longrightarrow> rv t' r' k' \<in> {None, rv t' r k'})) \<and>
     (\<forall>ks r. \<exists>r'. rd_del ops ks r = (True, r') \<and>
        (\<forall>t k. rv t r' k \<in> {None, if k \<in> set ks then None else rv t r k})) \<and>
     (\<forall>r. \<exists>r'. rd_flush ops r = (True, r') \<and> (\<forall>t k. rv t r' k = None)) \<and>
     (\<forall>p r. glob_free p \<longrightarrow> (\<exists>ks. rd_scan ops (p @ '':*'') r = (ks, True) \<and>
        (\<forall>k. k \<in> set ks \<longrightarrow> has_prefix k (p @ '':'')) \<and> (\<forall>t k. rv t r k \<noteq> None \<and> has_prefix k (p @ '':'') \<longrightarrow> k \<in> set ks))) \<and>
     (\<forall>t t' r k. t \<le> t' \<longrightarrow> rv t' r k \<in> {None, rv t r k})"

lemma redis_get_law:
  assumes "redis_ok ops rv"
  shows "\<forall>t k r. rd_get ops t k r = Some (rv t r k)"
  by (rule assms [unfolded redis_ok_def, THEN conjunct1])

lemma redis_exists_law:
  assumes "redis_ok ops rv"
  shows "\<forall>t k r. rd_exists ops t k r = Some (if rv t r k = None then 0 else 1)"
  by (rule assms [unfolded redis_ok_def, THEN conjunct2, THEN conjunct1])

lemma redis_set_law:
  assumes "redis_ok ops rv"
  shows "\<forall>t k v ttl r. \<exists>r'. rd_set ops t k v ttl r = (True, r') \<and> (\<forall>t'. rv t' r' k \<in> {None, Some v}) \<and>
        (\<forall>t' k'. k' \<noteq> k \<longrightarrow> rv t' r' k' \<in> {None, rv t' r k'})"
  by (rule assms [unfolded redis_ok_def, THEN conjunct2, THEN conjunct2, THEN conjunct1])

lemma redis_del_law:
  assumes "redis_ok ops rv"
  shows "\<forall>ks r. \<exists>r'. rd_del ops ks r = (True, r') \<and>
        (\<forall>t k. rv t r' k \<in> {None, if k \<in> set ks then None else rv t r k})"
  by (rule assms [unfolded redis_ok_def, THEN conjunct2, THEN conjunct2, THEN conjunct2, THEN conjunct1])

lemma redis_flush_law:
  assumes "redis_ok ops rv"
  shows "\<forall>r. \<exists>r'. rd_flush ops r = (True, r') \<and> (\<forall>t k. rv t r' k = None)"
  by (rule assms [unfolded redis_ok_def, THEN conjunct2, THEN conjunct2, THEN conjunct2, THEN conjunct2, THEN conjunct1])

lemma redis_scan_law:
  assumes "redis_ok ops rv"
  shows "\<forall>p r. glob_free p \<longrightarrow> (\<exists>ks. rd_scan ops (p @ '':*'') r = (ks, True) \<and>
        (\<forall>k. k \<in> set ks \<longrightarrow> has_prefix k (p @ '':'')) \<and> (\<forall>t k. rv t r k \<noteq> None \<and> has_prefix k (p @ '':'') \<longrightarrow> k \<in> set ks))"
  by (rule assms [unfolded redis_ok_def, THEN conjunct2, THEN conjunct2, THEN conjunct2, THEN conjunct2, THEN conjunct2, THEN conjunct1])

lemma redis_later_law:
  assumes "redis_ok ops rv"
  shows "\<forall>t t' r k. t \<le> t' \<longrightarrow> rv t' r k \<in> {None, rv t r k}"
  by (rule assms [unfolded redis_ok_def, THEN conjunct2, THEN conjunct2, THEN conjunct2, THEN conjunct2, THEN conjunct2, THEN conjunct2])

definition redis_view :: "(time \<Rightarrow> 'r \<Rightarrow> string \<Rightarrow> string option) \<Rightarrow> time \<Rightarrow> 'r redis_cache \<Rightarrow> string \<Rightarrow> string option" where
  "redis_view rv t rc k = rv t (rc_client rc) (redis_key rc k)"

lemma key_prefix_inj [simp]: "key_prefix p k = key_prefix p k' \<longleftrightarrow> k = k'"
  by (simp add: key_prefix_def)

lemma redis_key_inj: "redis_key rc k = redis_key rc k' \<longleftrightarrow> k = k'"
  by (simp add: redis_key_def)

lemma redis_get_eq:
  assumes "redis_ok ops rv"
  shows "ok_of (fst (redis_get ops t k rc)) = redis_view rv t rc k"
    "rc_client (snd (redis_get ops t k rc)) = rc_client rc" "rc_prefix (snd (redis_get ops t k rc)) = rc_prefix rc"
  using redis_get_law [OF assms] by (auto simp: redis_get_def redis_view_def split: option.splits)

lemma redis_set_eq:
  assumes "redis_ok ops rv"
  obtains r' where "redis_set ops t k v ttl rc = (None, rc\<lparr>rc_client := r'\<rparr>)"
    "\<forall>t'. rv t' r' (redis_key rc k) \<in> {None, Some v}"
    "\<forall>t' k'. k' \<noteq> redis_key rc k \<longrightarrow> rv t' r' k' \<in> {None, rv t' (rc_client rc) k'}"
proof -
  from redis_set_law [OF assms] obtain r' where "rd_set ops t (redis_key rc k) v (redis_ttl ttl) (rc_client rc) = (True, r')"
    "\<forall>t'. rv t' r' (redis_key rc k) \<in> {None, Some v}"
    "\<forall>t' k'. k' \<noteq> redis_key rc k \<longrightarrow> rv t' r' k' \<in> {None, rv t' (rc_client rc) k'}" by meson
  then show ?thesis using that by (simp add: redis_set_def)
qed

lemma redis_del_eq:
  assumes "redis_ok ops rv"
  obtains r' where "rd_del ops ks r = (True, r')" "\<forall>t k. rv t r' k \<in> {None, if k \<in> set ks then None else rv t r k}"
  using redis_del_law [OF assms] by meson

lemma redis_clear_eq:
  assumes "redis_ok ops rv" "glob_free (rc_prefix rc)"
  shows "fst (redis_clear ops rc) = None" "rc_prefix (snd (redis_clear ops rc)) = rc_prefix rc"
    "redis_view rv t (snd (redis_clear ops rc)) k = None"
proof -
  obtain r1 where r1: "rd_flush ops (rc_client rc) = (True, r1)" "\<forall>t k. rv t r1 k = None"
    using redis_flush_law [OF assms(1)] by meson
  obtain ks where ks: "rd_scan ops (rc_prefix rc @ '':*'') (rc_client rc) = (ks, True)"
    "\<forall>t k. rv t (rc_client rc) k \<noteq> None \<and> has_prefix k (rc_prefix rc @ '':'') \<longrightarrow> k \<in> set ks"
    using redis_scan_law [OF assms(1)] assms(2) by meson
  obtain r2 where r2: "rd_del ops ks (rc_client rc) = (True, r2)"
    "\<forall>t k. rv t r2 k \<in> {None, if k \<in> set ks then None else rv t (rc_client rc) k}"
    by (rule redis_del_eq [OF assms(1)])
  have p: "rc_prefix rc \<noteq> [] \<Longrightarrow> has_prefix (redis_key rc k) (rc_prefix rc @ '':'')"
    by (simp add: redis_key_def key_prefix_def has_prefix_def)
  show "fst (redis_clear ops rc) = None" "rc_prefix (snd (redis_clear ops rc)) = rc_prefix rc"
    using r1 ks r2 by (simp_all add: redis_clear_def)
  show "redis_view rv t (snd (redis_clear ops rc)) k = None"
  proof (cases "rc_prefix rc = []")
    case True
    then show ?thesis using r1 by (simp add: redis_clear_def redis_view_def)
  next
    case False
    have "rv t (rc_client rc) (redis_key rc k) \<noteq> None \<Longrightarrow> redis_key rc k \<in> set ks" using ks(2) p [OF False] by blast
    moreover have "rv t r2 (redis_key rc k) \<in> {None, if redis_key rc k \<in> set ks then None else rv t (rc_client rc) (redis_key rc k)}"
      using r2(2) by blast
    ultimately have "rv t r2 (redis_key rc k) = None" by (metis empty_iff insert_iff)
    moreover have "ks = [] \<Longrightarrow> rv t (rc_client rc) (redis_key rc k) = None" using ks(2) p [OF False] by fastforce
    ultimately show ?thesis using False ks(1) r2(1) by (auto simp: redis_clear_def redis_view_def redis_key_def)
  qed
qed

subsection \<open>The interface\<close>

text \<open>The operations as the interface has them; what a failed one returns besides the state is dropped.\<close>

abbreviation iface_get where "iface_get ops \<equiv> \<lambda>t k rc. apfst ok_of (redis_get ops t k rc)"
abbreviation iface_set where "iface_set ops \<equiv> \<lambda>t k v ttl rc. snd (redis_set ops t k v ttl rc)"
abbreviation iface_delete where "iface_delete ops \<equiv> \<lambda>k rc. snd (redis_delete ops k rc)"
abbreviation iface_clear where "iface_clear ops \<equiv> \<lambda>rc. snd (redis_clear ops rc)"
abbreviation iface_exists where "iface_exists ops \<equiv> \<lambda>t k rc. redis_exists ops t k rc = Inr True"

lemma redis_view_cong: "rc_client rc' = rc_client rc \<Longrightarrow> rc_prefix rc' = rc_prefix rc \<Longrightarrow> redis_view rv t rc' = redis_view rv t rc"
  by (rule ext) (simp add: redis_view_def redis_key_def)

lemma redis_cache_iface:
  assumes ok: "redis_ok ops rv" and p: "glob_free p"
  shows "cache_iface (iface_get ops) (iface_set ops) (iface_delete ops) (iface_clear ops) (iface_exists ops)
    (\<lambda>rc. rc_prefix rc = p) (redis_view rv)"
proof (unfold_locales, goal_cases)
  case (1 c t k)
  then show ?case by (simp add: redis_get_eq [OF ok])
next
  case (2 c t k v ttl)
  then show ?case by (simp add: redis_set_def split: prod.splits)
next
  case (3 c k)
  then show ?case by (simp add: redis_delete_def split: prod.splits)
next
  case (4 c)
  then show ?case using redis_clear_eq(2) [OF ok] p by simp
next
  case (5 c t k)
  then show ?case by (simp add: redis_get_eq [OF ok])
next
  case (6 c t k)
  then show ?case using redis_exists_law [OF ok] by (simp add: redis_exists_def redis_view_def)
next
  case (7 c t' t k)
  then show ?case using redis_get_eq(2,3) [OF ok] by (auto intro!: redis_view_cong)
next
  case (8 c t' t k v ttl)
  obtain r' where "redis_set ops t k v ttl c = (None, c\<lparr>rc_client := r'\<rparr>)" "\<forall>t'. rv t' r' (redis_key c k) \<in> {None, Some v}"
    by (rule redis_set_eq [OF ok])
  then show ?case by (simp add: redis_view_def redis_key_def)
next
  case (9 c k' k t' t v ttl)
  obtain r' where "redis_set ops t k v ttl c = (None, c\<lparr>rc_client := r'\<rparr>)"
    "\<forall>t' k'. k' \<noteq> redis_key c k \<longrightarrow> rv t' r' k' \<in> {None, rv t' (rc_client c) k'}"
    by (rule redis_set_eq [OF ok])
  moreover have "redis_key c k' \<noteq> redis_key c k" using 9 by (simp add: redis_key_inj)
  ultimately show ?case by (simp add: redis_view_def redis_key_def)
next
  case (10 c t' k k')
  obtain r' where r': "rd_del ops [redis_key c k] (rc_client c) = (True, r')"
    "\<forall>t j. rv t r' j \<in> {None, if j \<in> set [redis_key c k] then None else rv t (rc_client c) j}"
    by (rule redis_del_eq [OF ok])
  have eq: "redis_view rv t' (snd (redis_delete ops k c)) k' = rv t' r' (redis_key c k')"
    using r'(1) by (simp add: redis_delete_def redis_view_def redis_key_def)
  have mem: "redis_key c k' \<in> set [redis_key c k] \<longleftrightarrow> k' = k" by (simp add: redis_key_inj)
  have "rv t' r' (redis_key c k') \<in> {None, if k' = k then None else rv t' (rc_client c) (redis_key c k')}"
    unfolding mem [symmetric] by (rule r'(2) [rule_format])
  then show ?case unfolding eq redis_view_def [of rv t' c] .
next
  case (11 c t' k')
  then show ?case using redis_clear_eq(3) [OF ok] p by simp
next
  case (12 c t t' k)
  then show ?case using redis_later_law [OF ok] by (simp add: redis_view_def)
qed

subsection \<open>Properties\<close>

text \<open>A run of operations, the newest first.\<close>

fun redis_apply :: "'r redis_ops \<Rightarrow> time \<Rightarrow> cache_op \<Rightarrow> 'r redis_cache \<Rightarrow> 'r redis_cache" where
  "redis_apply ops t (OpGet k) rc = snd (redis_get ops t k rc)"
| "redis_apply ops t (OpSet k v ttl) rc = snd (redis_set ops t k v ttl rc)"
| "redis_apply ops t (OpDelete k) rc = snd (redis_delete ops k rc)"
| "redis_apply ops t OpClear rc = snd (redis_clear ops rc)"

fun redis_run :: "'r redis_ops \<Rightarrow> (time \<times> cache_op) list \<Rightarrow> 'r redis_cache \<Rightarrow> 'r redis_cache" where
  "redis_run ops [] rc = rc"
| "redis_run ops ((t, op) # h) rc = redis_apply ops t op (redis_run ops h rc)"

lemma redis_run_replay:
  assumes "redis_ok ops rv" "glob_free p"
  shows "redis_run ops h rc = cache_iface.replay (iface_get ops) (iface_set ops) (iface_delete ops) (iface_clear ops) h rc"
proof (induction h)
  case (Cons e h)
  obtain t op where "e = (t, op)" by (cases e)
  with Cons show ?case
    by (cases op) (simp_all add: cache_iface.replay.simps [OF redis_cache_iface [OF assms]]
        cache_iface.apply_op.simps [OF redis_cache_iface [OF assms]])
qed (simp add: cache_iface.replay.simps [OF redis_cache_iface [OF assms]])


text \<open>A server that keeps its keys in a list with the time at which they expire, and loses none before.\<close>

definition held :: "time \<Rightarrow> (string \<times> string \<times> time) list \<Rightarrow> string \<Rightarrow> string option" where
  "held t r k = (case map_of r k of None \<Rightarrow> None | Some (v, e) \<Rightarrow> if t < e then Some v else None)"

definition sample_ops :: "(string \<times> string \<times> time) list redis_ops" where
  "sample_ops =
     \<lparr>rd_get = \<lambda>t k r. Some (held t r k),
      rd_set = \<lambda>t k v ttl r. (True, upd k (v, t + ttl) r),
      rd_del = \<lambda>ks r. (True, filter (\<lambda>(k, _). k \<notin> set ks) r),
      rd_flush = \<lambda>r. (True, []),
      rd_scan = \<lambda>pat r. (filter (\<lambda>k. has_prefix k (butlast pat)) (map fst r), True),
      rd_exists = \<lambda>t k r. Some (if held t r k = None then 0 else 1),
      rd_mget = \<lambda>t ks r. Some (map (held t r) ks),
      rd_dbsize = \<lambda>r. Some (int (length r))\<rparr>"

lemma held_upd: "held t (upd k (v, e) r) k' = (if k' = k then if t < e then Some v else None else held t r k')"
  by (simp add: held_def)

lemma map_of_filter_notin: "map_of (filter (\<lambda>(k, _). k \<notin> A) r) k = (if k \<in> A then None else map_of r k)"
  by (induction r) auto

lemma held_del: "held t (filter (\<lambda>(k, _). k \<notin> A) r) k = (if k \<in> A then None else held t r k)"
  by (simp add: held_def map_of_filter_notin)

lemma held_key: "held t r k \<noteq> None \<Longrightarrow> k \<in> fst ` set r"
  by (metis held_def map_of_eq_None_iff option.case(1))

lemma held_later: "t \<le> t' \<Longrightarrow> held t' r k \<in> {None, held t r k}"
  by (auto simp: held_def split: option.splits)

lemma sample_ops_ok: "redis_ok sample_ops held"
  unfolding redis_ok_def
proof (intro conjI)
  show "\<forall>t k v ttl r. \<exists>r'. rd_set sample_ops t k v ttl r = (True, r') \<and> (\<forall>t'. held t' r' k \<in> {None, Some v}) \<and>
        (\<forall>t' k'. k' \<noteq> k \<longrightarrow> held t' r' k' \<in> {None, held t' r k'})"
    by (simp add: sample_ops_def held_upd)
  show "\<forall>ks r. \<exists>r'. rd_del sample_ops ks r = (True, r') \<and> (\<forall>t k. held t r' k \<in> {None, if k \<in> set ks then None else held t r k})"
    by (simp add: sample_ops_def held_del)
  show "\<forall>p r. glob_free p \<longrightarrow> (\<exists>ks. rd_scan sample_ops (p @ '':*'') r = (ks, True) \<and>
        (\<forall>k. k \<in> set ks \<longrightarrow> has_prefix k (p @ '':'')) \<and> (\<forall>t k. held t r k \<noteq> None \<and> has_prefix k (p @ '':'') \<longrightarrow> k \<in> set ks))"
    using held_key by (simp add: sample_ops_def butlast_append) blast
  show "\<forall>t t' r k. t \<le> t' \<longrightarrow> held t' r k \<in> {None, held t r k}" using held_later by blast
qed (simp_all add: sample_ops_def held_def)


text \<open>
  The server always has a cache: the one that is configured, and the one in memory when nothing is configured, the kind
  is unknown, or the server of the cache cannot be reached.
\<close>

theorem server_cache_spec:
  "server_cache parse_url connect order now cfg =
    (let t = to_lower (trim_space (cf_type cfg)); mem = ChosenMemory (new_memory_cache order now (100 * 1024 * 1024) (5 * minute));
         opts = (redis_options.truncate cfg)\<lparr>ro_timeout := opt_or (if cf_timeout cfg = [] then None else parse_duration (cf_timeout cfg)) (5 * second)\<rparr>
     in if t = ''none'' then ChosenNoop \<lparr>noop_start = now\<rparr>
        else if t \<noteq> ''redis'' \<and> t \<noteq> ''valkey'' then mem
        else (case Option.bind (client_options_of parse_url opts) connect of
                None \<Rightarrow> mem
              | Some r \<Rightarrow> ChosenRedis \<lparr>rc_client = r, rc_prefix = ro_prefix opts, rc_start = now, rc_hits = 0, rc_misses = 0,
                                       rc_evictions = 0\<rparr>))"
  by (auto simp: server_cache_def new_cache_def new_redis_cache_def Let_def split: option.splits)

end
