(* ===== verification/Logs.thy ===== *)
theory Logs
  imports TimeParse Paths
begin

text \<open>
  The log files (\<open>src/src/logger/logger.go\<close>): which files are open, their rotation by a program outside, and the text
  of an event. A file that was opened stays the same file when its name is given to another; the descriptors
  of the model are never used twice, as a closed \<open>os.File\<close> of Go refuses every write. An operation that
  takes the mutex is one step. In quoted texts, bytes from 128 on are taken as printable UTF-8.
\<close>

subsection \<open>Files\<close>

record log_world =
  lw_names :: "(string \<times> nat) list"    \<comment> \<open>paths and the files they name\<close>
  lw_data :: "(nat \<times> string) list"
  lw_open :: "(nat \<times> nat) list"        \<comment> \<open>open descriptors and their files\<close>
  lw_next :: nat

text \<open>\<open>os.OpenFile\<close> with \<open>O_CREATE|O_APPEND|O_WRONLY\<close>; \<open>can\<close> says which paths can be opened.\<close>

definition open_append :: "(string \<Rightarrow> bool) \<Rightarrow> string \<Rightarrow> log_world \<Rightarrow> nat option \<times> log_world" where
  "open_append can p w =
     (if \<not> can p then (None, w)
      else let n = lw_next w in
           case map_of (lw_names w) p of
             Some i \<Rightarrow> (Some n, w\<lparr>lw_open := upd n i (lw_open w), lw_next := n + 1\<rparr>)
           | None \<Rightarrow> (Some n, w\<lparr>lw_names := upd p n (lw_names w), lw_data := upd n [] (lw_data w),
                              lw_open := upd n n (lw_open w), lw_next := n + 1\<rparr>))"

definition write_fd :: "nat \<Rightarrow> string \<Rightarrow> log_world \<Rightarrow> log_world" where
  "write_fd fd d w =
     (case map_of (lw_open w) fd of
        None \<Rightarrow> w
      | Some i \<Rightarrow> w\<lparr>lw_data := upd i (opt_or (map_of (lw_data w) i) [] @ d) (lw_data w)\<rparr>)"

definition close_fd :: "nat \<Rightarrow> log_world \<Rightarrow> log_world" where
  "close_fd fd w = w\<lparr>lw_open := del fd (lw_open w)\<rparr>"

subsection \<open>The logger\<close>

datatype log_file = AccessLog | ServerLog | ErrorLog | AppLog | AuthLog | AuditLog | SecurityLog | DebugLog

text \<open>\<open>lg_server\<close> to \<open>lg_debugTo\<close> are the files of the handlers, which have no value before the files are open.\<close>

record logger =
  lg_dir :: string
  lg_debugEnabled :: bool
  lg_files :: "log_file \<Rightarrow> nat option"
  lg_server :: "nat option"
  lg_error :: "nat option"
  lg_app :: "nat option"
  lg_debugTo :: "nat option"

fun log_name :: "log_file \<Rightarrow> string" where
  "log_name AccessLog = ''access.log''"
| "log_name ServerLog = ''server.log''"
| "log_name ErrorLog = ''error.log''"
| "log_name AppLog = ''app.log''"
| "log_name AuthLog = ''auth.log''"
| "log_name AuditLog = ''audit.log''"
| "log_name SecurityLog = ''security.log''"
| "log_name DebugLog = ''debug.log''"

definition usual_logs :: "log_file list" where
  "usual_logs = [AccessLog, ServerLog, ErrorLog, AppLog, AuthLog, AuditLog, SecurityLog]"

definition empty_logger :: logger where
  "empty_logger = \<lparr>lg_dir = [], lg_debugEnabled = False, lg_files = (\<lambda>_. None), lg_server = None, lg_error = None, lg_app = None,
                   lg_debugTo = None\<rparr>"

fun open_list :: "(string \<Rightarrow> bool) \<Rightarrow> log_file list \<Rightarrow> logger \<Rightarrow> log_world \<Rightarrow> string option \<times> logger \<times> log_world" where
  "open_list can [] l w = (None, l, w)"
| "open_list can (f # fs) l w =
     (case open_append can (path_join (lg_dir l) (log_name f)) w of
        (None, w1) \<Rightarrow> (Some (path_join (lg_dir l) (log_name f)), l, w1)
      | (Some fd, w1) \<Rightarrow> open_list can fs (l\<lparr>lg_files := (lg_files l)(f := Some fd)\<rparr>) w1)"

definition set_handlers :: "logger \<Rightarrow> logger" where
  "set_handlers l =
     (let l1 = (if lg_debugEnabled l then l\<lparr>lg_debugTo := lg_files l DebugLog\<rparr> else l)
      in l1\<lparr>lg_server := lg_files l1 ServerLog, lg_error := lg_files l1 ErrorLog, lg_app := lg_files l1 AppLog\<rparr>)"

definition open_files :: "(string \<Rightarrow> bool) \<Rightarrow> logger \<Rightarrow> log_world \<Rightarrow> string option \<times> logger \<times> log_world" where
  "open_files can l w =
     (case open_list can (usual_logs @ (if lg_debugEnabled l then [DebugLog] else [])) l w of
        (Some e, l1, w1) \<Rightarrow> (Some e, l1, w1)
      | (None, l1, w1) \<Rightarrow> (None, set_handlers l1, w1))"

definition close_logger :: "logger \<Rightarrow> log_world \<Rightarrow> log_world" where
  "close_logger l =
     fold (\<lambda>f w. case lg_files l f of None \<Rightarrow> w | Some fd \<Rightarrow> close_fd fd w) (usual_logs @ [DebugLog])"

text \<open>\<open>mk\<close> says whether the directory can be made. The text of an error is that of the path that failed.\<close>

definition open_with_debug ::
    "(string \<Rightarrow> bool) \<Rightarrow> bool \<Rightarrow> string \<Rightarrow> bool \<Rightarrow> log_world \<Rightarrow> (string + logger) \<times> log_world" where
  "open_with_debug can mk dir debug w =
     (if dir = [] then (Inr empty_logger, w)
      else if \<not> mk then (Inl dir, w)
      else case open_files can (empty_logger\<lparr>lg_dir := dir, lg_debugEnabled := debug\<rparr>) w of
             (Some e, l, w1) \<Rightarrow> (Inl e, close_logger l w1)
           | (None, l, w1) \<Rightarrow> (Inr l, w1))"

definition open_logger :: "(string \<Rightarrow> bool) \<Rightarrow> bool \<Rightarrow> string \<Rightarrow> log_world \<Rightarrow> (string + logger) \<times> log_world" where
  "open_logger can mk dir w = open_with_debug can mk dir False w"

definition rotate_logs :: "(string \<Rightarrow> bool) \<Rightarrow> logger \<Rightarrow> log_world \<Rightarrow> string option \<times> logger \<times> log_world" where
  "rotate_logs can l w =
     (if lg_dir l = [] then (None, l, w)
      else open_files can (l\<lparr>lg_files := (\<lambda>_. None), lg_debugTo := None\<rparr>) (close_logger l w))"

definition logger_set_debug :: "bool \<Rightarrow> logger \<Rightarrow> logger" where
  "logger_set_debug b l = l\<lparr>lg_debugEnabled := b\<rparr>"

subsection \<open>Times\<close>

definition month_abbrevs :: "string list" where
  "month_abbrevs = [''Jan'', ''Feb'', ''Mar'', ''Apr'', ''May'', ''Jun'', ''Jul'', ''Aug'', ''Sep'', ''Oct'', ''Nov'', ''Dec'']"

definition clock_of :: "(time \<Rightarrow> duration) \<Rightarrow> time \<Rightarrow> (nat \<times> nat \<times> nat) \<times> string" where
  "clock_of off now =
     (let l = local off now; s = nat (l mod day div second)
      in case date_of (l div day) of
           (y, m, d) \<Rightarrow> ((nat y, nat m, nat d), pad 2 (s div 3600) @ '':'' @ pad 2 (s mod 3600 div 60) @ '':'' @ pad 2 (s mod 60)))"

definition zone_text :: "string \<Rightarrow> duration \<Rightarrow> string" where
  "zone_text sep z =
     (let m = nat (\<bar>z\<bar> div minute) in (if z \<le> - minute then ''-'' else ''+'') @ pad 2 (m div 60) @ sep @ pad 2 (m mod 60))"

definition rfc3339 :: "(time \<Rightarrow> duration) \<Rightarrow> time \<Rightarrow> string" where
  "rfc3339 off now =
     (case clock_of off now of
        ((y, m, d), t) \<Rightarrow> iso_date y m d @ ''T'' @ t @ (if off now = 0 then ''Z'' else zone_text '':'' (off now)))"

definition clf_time :: "(time \<Rightarrow> duration) \<Rightarrow> time \<Rightarrow> string" where
  "clf_time off now =
     (case clock_of off now of
        ((y, m, d), t) \<Rightarrow> pad 2 d @ ''/'' @ month_abbrevs ! (m - 1) @ ''/'' @ pad 4 y @ '':'' @ t @ '' '' @ zone_text [] (off now))"

definition syslog_time :: "(time \<Rightarrow> duration) \<Rightarrow> time \<Rightarrow> string" where
  "syslog_time off now =
     (case clock_of off now of
        ((y, m, d), t) \<Rightarrow> month_abbrevs ! (m - 1) @ '' '' @ (if d < 10 then '' '' else []) @ itoa_nat d @ '' '' @ t)"

subsection \<open>Lines\<close>

definition line_end :: string where "line_end = [CHR 0x0A]"

text \<open>\<open>strconv.Quote\<close>.\<close>

definition quote_char :: "char \<Rightarrow> string" where
  "quote_char c =
     (let b = byte c in
      if b = 34 \<or> b = 92 then [CHR 0x5C, c]
      else if b = 7 then CHR 0x5C # ''a'' else if b = 8 then CHR 0x5C # ''b'' else if b = 9 then CHR 0x5C # ''t''
      else if b = 10 then CHR 0x5C # ''n'' else if b = 11 then CHR 0x5C # ''v'' else if b = 12 then CHR 0x5C # ''f''
      else if b = 13 then CHR 0x5C # ''r''
      else if b < 32 \<or> b = 127 then CHR 0x5C # ''x'' @ hex_encode [c]
      else [c])"

definition quote_text :: "string \<Rightarrow> string" where
  "quote_text s = [CHR 0x22] @ concat (map quote_char s) @ [CHR 0x22]"

text \<open>The arguments after the message as texts, in pairs; a last one without a partner is dropped.\<close>

fun attr_pairs :: "string list \<Rightarrow> (string \<times> string) list" where
  "attr_pairs (k # v # r) = (k, v) # attr_pairs r"
| "attr_pairs r = []"

definition bracket_value :: "string \<Rightarrow> string" where
  "bracket_value v = (if list_ex (\<lambda>c. byte c \<in> {32, 9, 10, 61}) v then quote_text v else v)"

definition bracket_line :: "string \<Rightarrow> string \<Rightarrow> string \<Rightarrow> (string \<times> string) list \<Rightarrow> string" where
  "bracket_line stamp level msg attrs =
     stamp @ '' ['' @ level @ ''] '' @ msg @ concat (map (\<lambda>(k, v). '' '' @ k @ ''='' @ bracket_value v) attrs) @ line_end"

text \<open>The text handler of \<open>log/slog\<close>, which quotes what is empty or has a blank, a control character, \<open>=\<close> or a quote.\<close>

definition logfmt_value :: "string \<Rightarrow> string" where
  "logfmt_value v = (if v = [] \<or> list_ex (\<lambda>c. byte c \<le> 32 \<or> byte c = 34 \<or> byte c = 61) v then quote_text v else v)"

definition logfmt_line :: "string \<Rightarrow> string \<Rightarrow> string \<Rightarrow> (string \<times> string) list \<Rightarrow> string" where
  "logfmt_line stamp level msg attrs =
     join '' '' (map (\<lambda>(k, v). logfmt_value k @ ''='' @ logfmt_value v)
       ((''time'', stamp) # (''level'', level) # (''msg'', msg) # attrs)) @ line_end"

definition write_to :: "nat option \<Rightarrow> string \<Rightarrow> log_world \<Rightarrow> log_world" where
  "write_to h line w = (case h of None \<Rightarrow> w | Some fd \<Rightarrow> write_fd fd line w)"

definition log_info :: "string \<Rightarrow> string \<Rightarrow> string list \<Rightarrow> logger \<Rightarrow> log_world \<Rightarrow> log_world" where
  "log_info stamp msg args l = write_to (lg_server l) (bracket_line stamp ''INFO'' msg (attr_pairs args))"

definition log_warn :: "string \<Rightarrow> string \<Rightarrow> string list \<Rightarrow> logger \<Rightarrow> log_world \<Rightarrow> log_world" where
  "log_warn stamp msg args l = write_to (lg_server l) (bracket_line stamp ''WARN'' msg (attr_pairs args))"

text \<open>An error is written twice, each time with the time of the clock.\<close>

definition log_error :: "string \<Rightarrow> string \<Rightarrow> string \<Rightarrow> string list \<Rightarrow> logger \<Rightarrow> log_world \<Rightarrow> log_world" where
  "log_error stamp stamp' msg args l w =
     write_to (lg_server l) (bracket_line stamp' ''ERROR'' msg (attr_pairs args))
       (write_to (lg_error l) (bracket_line stamp ''ERROR'' msg (attr_pairs args)) w)"

definition log_debug :: "string \<Rightarrow> string \<Rightarrow> string list \<Rightarrow> logger \<Rightarrow> log_world \<Rightarrow> log_world" where
  "log_debug stamp msg args l = write_to (lg_debugTo l) (bracket_line stamp ''DEBUG'' msg (attr_pairs args))"

definition log_app :: "string \<Rightarrow> string \<Rightarrow> string list \<Rightarrow> logger \<Rightarrow> log_world \<Rightarrow> log_world" where
  "log_app stamp msg args l = write_to (lg_app l) (logfmt_line stamp ''INFO'' msg (attr_pairs args))"

definition log_app_warn :: "string \<Rightarrow> string \<Rightarrow> string list \<Rightarrow> logger \<Rightarrow> log_world \<Rightarrow> log_world" where
  "log_app_warn stamp msg args l = write_to (lg_app l) (logfmt_line stamp ''WARN'' msg (attr_pairs args))"

definition access_line ::
    "string \<Rightarrow> string \<Rightarrow> string \<Rightarrow> string \<Rightarrow> string \<Rightarrow> int \<Rightarrow> int \<Rightarrow> string \<Rightarrow> string \<Rightarrow> string" where
  "access_line stamp remote meth path proto status bytes referer agent =
     (let q = [CHR 0x22]; dash = (\<lambda>v. if v = [] then ''-'' else v)
      in remote @ '' - - ['' @ stamp @ ''] '' @ q @ meth @ '' '' @ path @ '' '' @ proto @ q @ '' '' @ itoa_int status @ '' '' @
         itoa_int bytes @ '' '' @ q @ dash referer @ q @ '' '' @ q @ dash agent @ q @ line_end)"

definition write_access ::
    "string \<Rightarrow> string \<Rightarrow> string \<Rightarrow> string \<Rightarrow> string \<Rightarrow> int \<Rightarrow> int \<Rightarrow> string \<Rightarrow> string \<Rightarrow> logger \<Rightarrow> log_world \<Rightarrow> log_world" where
  "write_access stamp remote meth path proto status bytes referer agent l =
     write_to (lg_files l AccessLog) (access_line stamp remote meth path proto status bytes referer agent)"

definition write_security :: "string \<Rightarrow> string \<Rightarrow> logger \<Rightarrow> log_world \<Rightarrow> log_world" where
  "write_security stamp msg l = write_to (lg_files l SecurityLog) (stamp @ '' [security] '' @ msg @ line_end)"

definition write_auth ::
    "string \<Rightarrow> string \<Rightarrow> int \<Rightarrow> string \<Rightarrow> string \<Rightarrow> string \<Rightarrow> string \<Rightarrow> logger \<Rightarrow> log_world \<Rightarrow> log_world" where
  "write_auth stamp hostname pid user ip outcome reason l =
     write_to (lg_files l AuthLog)
       (stamp @ '' '' @ hostname @ '' caswhois['' @ itoa_int pid @ '']: auth: user='' @ user @ '' ip='' @ ip @ '' result='' @ outcome @
        '' reason='' @ reason @ line_end)"

record audit_entry =
  ae_time :: string
  ae_level :: string
  ae_category :: string
  ae_action :: string
  ae_actorIP :: string
  ae_targetType :: string
  ae_targetID :: string
  ae_details :: string
  ae_success :: bool

text \<open>\<open>marshal\<close> is \<open>json.Marshal\<close> on entries.\<close>

definition write_audit :: "(audit_entry \<Rightarrow> string option) \<Rightarrow> string \<Rightarrow> audit_entry \<Rightarrow> logger \<Rightarrow> log_world \<Rightarrow> log_world" where
  "write_audit marshal stamp e l w =
     (case lg_files l AuditLog of
        None \<Rightarrow> w
      | Some fd \<Rightarrow>
          (let e1 = (if ae_time e = [] then e\<lparr>ae_time := stamp\<rparr> else e);
               e2 = (if ae_level e1 = [] then e1\<lparr>ae_level := ''INFO''\<rparr> else e1)
           in case marshal e2 of None \<Rightarrow> w | Some d \<Rightarrow> write_fd fd line_end (write_fd fd d w)))"

subsection \<open>Lemmas\<close>

definition fds_ok :: "log_world \<Rightarrow> bool" where
  "fds_ok w \<longleftrightarrow> (\<forall>fd i. map_of (lw_open w) fd = Some i \<longrightarrow> fd < lw_next w)"

text \<open>The descriptor of a log is open on the file that its path names.\<close>

definition current_log :: "log_file \<Rightarrow> logger \<Rightarrow> log_world \<Rightarrow> bool" where
  "current_log f l w \<longleftrightarrow>
     (\<exists>fd i. lg_files l f = Some fd \<and> map_of (lw_open w) fd = Some i \<and>
             map_of (lw_names w) (path_join (lg_dir l) (log_name f)) = Some i)"

definition content_at :: "string \<Rightarrow> log_world \<Rightarrow> string option" where
  "content_at p w = map_option (\<lambda>i. opt_or (map_of (lw_data w) i) []) (map_of (lw_names w) p)"

lemma open_append_ok:
  assumes "open_append can p w = (Some fd, w')" "fds_ok w"
  shows "fds_ok w'" "\<exists>i. map_of (lw_open w') fd = Some i \<and> map_of (lw_names w') p = Some i"
    "map_of (lw_open w) g = Some i \<Longrightarrow> map_of (lw_open w') g = Some i"
    "map_of (lw_names w) q = Some i \<Longrightarrow> map_of (lw_names w') q = Some i"
  using assms by (auto simp: open_append_def fds_ok_def Let_def less_Suc_eq split: if_splits option.splits)

lemma current_log_open:
  assumes "open_append can (path_join (lg_dir l) (log_name f)) w = (Some fd, w')" "fds_ok w" "g = f \<or> current_log g l w"
  shows "current_log g (l\<lparr>lg_files := (lg_files l)(f := Some fd)\<rparr>) w'"
proof (cases "g = f")
  case True
  then show ?thesis using open_append_ok(2) [OF assms(1,2)] by (auto simp: current_log_def)
next
  case False
  with assms(3) obtain h i where "lg_files l g = Some h" "map_of (lw_open w) h = Some i"
    "map_of (lw_names w) (path_join (lg_dir l) (log_name g)) = Some i" by (auto simp: current_log_def)
  with False show ?thesis
    using open_append_ok(3) [OF assms(1,2)] open_append_ok(4) [OF assms(1,2)] by (auto simp: current_log_def)
qed

lemma open_list_current:
  assumes "open_list can fs l w = (None, l', w')" "fds_ok w"
  shows "fds_ok w' \<and> lg_dir l' = lg_dir l \<and> lg_debugEnabled l' = lg_debugEnabled l \<and>
    (\<forall>g. g \<in> set fs \<or> current_log g l w \<longrightarrow> current_log g l' w')"
  using assms
proof (induction fs arbitrary: l w)
  case (Cons f fs)
  from Cons.prems(1) obtain fd w1 where o: "open_append can (path_join (lg_dir l) (log_name f)) w = (Some fd, w1)"
    and r: "open_list can fs (l\<lparr>lg_files := (lg_files l)(f := Some fd)\<rparr>) w1 = (None, l', w')"
    by (auto split: prod.splits option.splits)
  note i = Cons.IH [OF r open_append_ok(1) [OF o Cons.prems(2)]]
  with current_log_open [OF o Cons.prems(2)] show ?case by auto
qed simp

lemma open_files_current:
  assumes "open_files can l w = (None, l', w')" "fds_ok w"
  shows "fds_ok w'" "lg_dir l' = lg_dir l" "f \<noteq> DebugLog \<or> lg_debugEnabled l \<Longrightarrow> current_log f l' w'"
    "lg_server l' = lg_files l' ServerLog" "lg_error l' = lg_files l' ErrorLog" "lg_app l' = lg_files l' AppLog"
    "lg_debugEnabled l \<Longrightarrow> lg_debugTo l' = lg_files l' DebugLog"
proof -
  from assms(1) obtain l1 where o: "open_list can (usual_logs @ (if lg_debugEnabled l then [DebugLog] else [])) l w = (None, l1, w')"
    and l': "l' = set_handlers l1" by (auto simp: open_files_def split: prod.splits option.splits)
  note i = open_list_current [OF o assms(2)]
  show "fds_ok w'" "lg_dir l' = lg_dir l" "lg_server l' = lg_files l' ServerLog" "lg_error l' = lg_files l' ErrorLog"
    "lg_app l' = lg_files l' AppLog" "lg_debugEnabled l \<Longrightarrow> lg_debugTo l' = lg_files l' DebugLog"
    using i by (simp_all add: l' set_handlers_def Let_def)
  have "current_log g (set_handlers m) w' = current_log g m w'" for g m
    by (simp add: current_log_def set_handlers_def Let_def)
  then show "f \<noteq> DebugLog \<or> lg_debugEnabled l \<Longrightarrow> current_log f l' w'"
    using i by (cases f) (simp_all add: l' usual_logs_def)
qed

lemma close_list_open:
  "map_of (lw_open (fold (\<lambda>f w. case lg_files l f of None \<Rightarrow> w | Some fd \<Rightarrow> close_fd fd w) fs w)) g =
     (if Some g \<in> lg_files l ` set fs then None else map_of (lw_open w) g) \<and>
   lw_next (fold (\<lambda>f w. case lg_files l f of None \<Rightarrow> w | Some fd \<Rightarrow> close_fd fd w) fs w) = lw_next w"
proof (induction fs arbitrary: w)
  case (Cons f fs)
  then show ?case by (cases "lg_files l f") (auto simp: close_fd_def)
qed simp

lemma log_file_listed: "f \<in> set (usual_logs @ [DebugLog])"
  by (cases f) (simp_all add: usual_logs_def)

lemma close_logger_closed: "lg_files l f = Some fd \<Longrightarrow> map_of (lw_open (close_logger l w)) fd = None"
  using log_file_listed [of f] unfolding close_logger_def by (metis close_list_open imageI)

lemma fds_ok_close: "fds_ok w \<Longrightarrow> fds_ok (close_logger l w)"
  unfolding close_logger_def fds_ok_def by (metis close_list_open option.distinct(1))

lemma write_fd_content:
  assumes "map_of (lw_open w) fd = Some i" "map_of (lw_names w) p = Some i"
  shows "content_at p (write_fd fd d w) = map_option (\<lambda>c. c @ d) (content_at p w)"
    "map_of (lw_names w) q \<noteq> Some i \<Longrightarrow> content_at q (write_fd fd d w) = content_at q w"
proof -
  have e: "write_fd fd d w = w\<lparr>lw_data := upd i (opt_or (map_of (lw_data w) i) [] @ d) (lw_data w)\<rparr>"
    using assms(1) by (simp add: write_fd_def)
  show "content_at p (write_fd fd d w) = map_option (\<lambda>c. c @ d) (content_at p w)"
    using assms(2) by (simp add: e content_at_def)
  show "map_of (lw_names w) q \<noteq> Some i \<Longrightarrow> content_at q (write_fd fd d w) = content_at q w"
    by (cases "map_of (lw_names w) q") (simp_all add: e content_at_def)
qed

subsection \<open>Properties\<close>

text \<open>
  After a rotation every log is written to the file that has its name now, whatever was done to the old one, and
  an event is appended to that file only.
\<close>

theorem rotation_follows_names:
  assumes "rotate_logs can l w = (None, l', w')" "fds_ok w" "lg_dir l \<noteq> []"
  shows "f \<noteq> DebugLog \<or> lg_debugEnabled l \<Longrightarrow> current_log f l' w'"
    "content_at (path_join (lg_dir l) ''server.log'') (log_info stamp msg args l' w') =
       map_option (\<lambda>c. c @ bracket_line stamp ''INFO'' msg (attr_pairs args)) (content_at (path_join (lg_dir l) ''server.log'') w')"
    "map_of (lw_names w') q \<noteq> map_of (lw_names w') (path_join (lg_dir l) ''server.log'') \<Longrightarrow>
       content_at q (log_info stamp msg args l' w') = content_at q w'"
proof -
  from assms have o: "open_files can (l\<lparr>lg_files := (\<lambda>_. None), lg_debugTo := None\<rparr>) (close_logger l w) = (None, l', w')"
    by (simp add: rotate_logs_def)
  note c = open_files_current [OF o fds_ok_close [OF assms(2)]]
  show "f \<noteq> DebugLog \<or> lg_debugEnabled l \<Longrightarrow> current_log f l' w'" using c(3) by simp
  obtain fd i where s: "lg_server l' = Some fd" "map_of (lw_open w') fd = Some i"
    "map_of (lw_names w') (path_join (lg_dir l) ''server.log'') = Some i"
    using c(2,4) c(3) [of ServerLog] by (auto simp: current_log_def)
  then show "content_at (path_join (lg_dir l) ''server.log'') (log_info stamp msg args l' w') =
       map_option (\<lambda>c. c @ bracket_line stamp ''INFO'' msg (attr_pairs args)) (content_at (path_join (lg_dir l) ''server.log'') w')"
    "map_of (lw_names w') q \<noteq> map_of (lw_names w') (path_join (lg_dir l) ''server.log'') \<Longrightarrow>
       content_at q (log_info stamp msg args l' w') = content_at q w'"
    using write_fd_content [OF s(2,3)] by (simp_all add: log_info_def write_to_def)
qed

text \<open>
  When the first file cannot be opened again, the handlers keep the files that were closed, and events are lost without
  an error until the next rotation.
\<close>

theorem failed_rotation_mutes:
  assumes "lg_dir l \<noteq> []" "\<not> can (path_join (lg_dir l) ''access.log'')" "lg_server l = lg_files l ServerLog"
    "lg_error l = lg_files l ErrorLog"
  shows "\<exists>l' w'. rotate_logs can l w = (Some (path_join (lg_dir l) ''access.log''), l', w') \<and>
    log_info stamp msg args l' w' = w' \<and> log_error stamp stamp' msg args l' w' = w'"
proof -
  have r: "rotate_logs can l w = (Some (path_join (lg_dir l) ''access.log''), l\<lparr>lg_files := (\<lambda>_. None), lg_debugTo := None\<rparr>, close_logger l w)"
    using assms(1,2) by (simp add: rotate_logs_def open_files_def usual_logs_def open_append_def)
  have mute: "write_to (lg_files l f) d (close_logger l w) = close_logger l w" for f d
    using close_logger_closed [of l f] by (auto simp: write_to_def write_fd_def split: option.splits)
  show ?thesis by (simp add: r log_info_def log_error_def assms(3,4) mute)
qed

text \<open>The logger of the server never writes debug events, although debugging may be on.\<close>

theorem server_logger_no_debug:
  assumes "open_logger can mk dir w = (Inr l, w')"
  shows "log_debug stamp msg args l v = v"
proof -
  have n: "lg_debugTo l1 = lg_debugTo l0 \<and> lg_debugEnabled l1 = lg_debugEnabled l0" if "open_list can fs l0 w0 = (e, l1, w1)"
    for fs l0 w0 e l1 w1
    using that by (induction fs arbitrary: l0 w0) (fastforce split: prod.splits option.splits)+
  have "lg_debugTo l = None"
    using assms by (auto simp: open_logger_def open_with_debug_def open_files_def set_handlers_def Let_def empty_logger_def
        dest!: n split: if_splits prod.splits option.splits)
  then show ?thesis by (simp add: log_debug_def write_to_def)
qed

lemma quote_text_line: "CHR 0x0A \<notin> set (quote_text s)"
proof -
  have low: "hex_low n \<noteq> CHR 0x0A" if "n < 16" for n
  proof -
    have "byte (hex_low n) \<noteq> 10" using that by (simp add: hex_low_def byte_char_of)
    then show ?thesis by auto
  qed
  have "CHR 0x0A \<notin> set (quote_char c)" for c
  proof -
    have "hex_low (byte c div 16) \<noteq> CHR 0x0A" "hex_low (byte c mod 16) \<noteq> CHR 0x0A"
      using byte_bound [of c] by (intro low, arith)+
    then show ?thesis by (auto simp: quote_char_def hex_encode_def Let_def)
  qed
  then show ?thesis by (auto simp: quote_text_def)
qed

text \<open>An event is one line, unless its message or a key has a line break: the values are quoted, the rest is not.\<close>

theorem bracket_line_single:
  assumes "CHR 0x0A \<notin> set stamp \<union> set level \<union> set msg" "\<forall>(k, v)\<in>set attrs. CHR 0x0A \<notin> set k"
  shows "\<exists>t. bracket_line stamp level msg attrs = t @ line_end \<and> CHR 0x0A \<notin> set t"
proof -
  have v: "CHR 0x0A \<notin> set (bracket_value v)" for v
  proof (cases "list_ex (\<lambda>c. byte c \<in> {32, 9, 10, 61}) v")
    case False
    then show ?thesis by (auto simp: bracket_value_def list_ex_iff)
  qed (simp add: bracket_value_def quote_text_line)
  have "CHR 0x0A \<notin> set (concat (map (\<lambda>(k, v). '' '' @ k @ ''='' @ bracket_value v) attrs))"
    using assms(2) v by auto
  then show ?thesis using assms(1) by (simp add: bracket_line_def)
qed

theorem logfmt_line_single:
  "\<exists>t. logfmt_line stamp level msg attrs = t @ line_end \<and> CHR 0x0A \<notin> set t"
proof -
  have v: "CHR 0x0A \<notin> set (logfmt_value v)" for v
  proof (cases "v = [] \<or> list_ex (\<lambda>c. byte c \<le> 32 \<or> byte c = 34 \<or> byte c = 61) v")
    case False
    then show ?thesis by (auto simp: logfmt_value_def list_ex_iff)
  qed (simp add: logfmt_value_def quote_text_line)
  have j: "\<forall>x\<in>set xs. CHR 0x0A \<notin> set x \<Longrightarrow> CHR 0x0A \<notin> set (join '' '' xs)" for xs
    by (induction "'' ''" xs rule: join.induct) auto
  have "CHR 0x0A \<notin> set (join '' '' (map (\<lambda>(k, v). logfmt_value k @ ''='' @ logfmt_value v)
       ((''time'', stamp) # (''level'', level) # (''msg'', msg) # attrs)))"
    by (rule j) (use v in auto)
  then show ?thesis unfolding logfmt_line_def by blast
qed

text \<open>Lines of requests do not tell the referer from the agent when one has a quote: clients can forge these fields.\<close>

theorem access_line_ambiguous:
  "access_line st r m p pr s b (x @ [CHR 0x22] @ '' '' @ [CHR 0x22] @ y) (z @ '' '') =
   access_line st r m p pr s b x (y @ [CHR 0x22] @ '' '' @ [CHR 0x22] @ z @ '' '')" if "x \<noteq> []"
  using that by (simp add: access_line_def Let_def)

end
