(* ===== verification/CliClient.thy ===== *)
theory CliClient
  imports Visitor Backup
begin

text \<open>
  The command line client (\<open>src/src/client\<close>): its requests to a server (\<open>lookup/lookup.go\<close>), its settings
  (\<open>config/config.go\<close>, the flags of \<open>main.go\<close>), its commands, the wizard (\<open>setup/wizard.go\<close>) and the screen
  (\<open>tui/tui.go\<close>). Paths are those of Unix. The bytes of an answer are of a type \<open>'t\<close>, of which only the JSON document in
  them and their text are used; the programs of the terminal library are step relations: keys and finished commands arrive
  in any order. What the library draws is left out.
\<close>

subsection \<open>Requests\<close>

record lookup_result =
  lr_query :: string
  lr_type :: string
  lr_server :: string
  lr_timestamp :: string
  lr_raw :: string

record api_response =
  ar_ok :: bool
  ar_data :: "json option"
  ar_error :: string
  ar_message :: string

record cli_client =
  cl_server :: string
  cl_token :: string
  cl_version :: string

record out_request =
  or_method :: string
  or_url :: string
  or_heads :: "(string \<times> string) list"

datatype 't net_answer = NetFailed string | NetAnswer int "'t option"

datatype client_error = BadUrl | NetError string | ReadError | ServerSaid string string | HttpStatus int | HealthStatus int | BadJson

record 't client_env =
  ce_valid :: "string \<Rightarrow> bool"                      \<comment> \<open>the URLs that \<open>http.NewRequest\<close> accepts\<close>
  ce_net :: "out_request \<Rightarrow> 't net_answer"
  ce_reply :: "'t \<Rightarrow> api_response option"
  ce_text :: "'t \<Rightarrow> string"
  ce_json :: "lookup_result \<Rightarrow> string"
  ce_library :: "client_error \<Rightarrow> string"              \<comment> \<open>the texts of errors that come from the library\<close>

definition new_client :: "string \<Rightarrow> string \<Rightarrow> string \<Rightarrow> cli_client" where
  "new_client url tok ver = \<lparr>cl_server = rev (dropWhile (\<lambda>c. c = CHR ''/'') (rev url)), cl_token = tok, cl_version = ver\<rparr>"

definition new_request :: "cli_client \<Rightarrow> string \<Rightarrow> string \<Rightarrow> out_request" where
  "new_request c meth endpoint =
     \<lparr>or_method = meth, or_url = endpoint,
      or_heads = [(''User-Agent'', if cl_version c \<noteq> [] then ''caswhois-cli/'' @ cl_version c else ''caswhois-cli''),
                  (''Accept'', ''application/json'')] @
                 (if cl_token c \<noteq> [] then [(''Authorization'', ''Bearer '' @ cl_token c)] else [])\<rparr>"

text \<open>\<open>json.Unmarshal\<close> into a field of type \<open>string\<close>, and into \<open>whoisData\<close>.\<close>

definition json_text :: "string \<Rightarrow> (string \<times> json) list \<Rightarrow> string option" where
  "json_text k kvs = (case map_of kvs k of None \<Rightarrow> Some [] | Some JNull \<Rightarrow> Some [] | Some (JStr v) \<Rightarrow> Some v | Some _ \<Rightarrow> None)"

definition whois_data :: "json \<Rightarrow> lookup_result option" where
  "whois_data j =
     (case j of
        JObj kvs \<Rightarrow>
          (case (json_text ''query'' kvs, json_text ''type'' kvs, json_text ''server'' kvs, json_text ''timestamp'' kvs, json_text ''raw'' kvs) of
             (Some q, Some t, Some s, Some ts, Some r) \<Rightarrow>
               Some \<lparr>lr_query = q, lr_type = t, lr_server = s, lr_timestamp = ts, lr_raw = r\<rparr>
           | _ \<Rightarrow> None)
      | JNull \<Rightarrow> Some \<lparr>lr_query = [], lr_type = [], lr_server = [], lr_timestamp = [], lr_raw = []\<rparr>
      | _ \<Rightarrow> None)"

definition client_do :: "'t client_env \<Rightarrow> cli_client \<Rightarrow> string \<Rightarrow> client_error + lookup_result" where
  "client_do ce c endpoint =
     (if \<not> ce_valid ce endpoint then Inl BadUrl
      else case ce_net ce (new_request c ''GET'' endpoint) of
        NetFailed e \<Rightarrow> Inl (NetError e)
      | NetAnswer status None \<Rightarrow> Inl ReadError
      | NetAnswer status (Some b) \<Rightarrow>
          if status \<noteq> 200 then
            (case ce_reply ce b of
               Some ar \<Rightarrow> if ar_message ar \<noteq> [] then Inl (ServerSaid (ar_error ar) (ar_message ar)) else Inl (HttpStatus status)
             | None \<Rightarrow> Inl (HttpStatus status))
          else
            (case ce_reply ce b of
               None \<Rightarrow> Inl BadJson
             | Some ar \<Rightarrow>
                 if \<not> ar_ok ar then Inl (ServerSaid (ar_error ar) (ar_message ar))
                 else (case Option.bind (ar_data ar) whois_data of None \<Rightarrow> Inl BadJson | Some r \<Rightarrow> Inr r)))"

definition client_lookup :: "'t client_env \<Rightarrow> cli_client \<Rightarrow> string \<Rightarrow> client_error + lookup_result" where
  "client_lookup ce c q = client_do ce c (cl_server c @ ''/api/v1/whois/'' @ path_escape q)"

definition client_domain :: "'t client_env \<Rightarrow> cli_client \<Rightarrow> string \<Rightarrow> client_error + lookup_result" where
  "client_domain ce c q = client_do ce c (cl_server c @ ''/api/v1/whois/domain/'' @ path_escape q)"

definition client_ip :: "'t client_env \<Rightarrow> cli_client \<Rightarrow> string \<Rightarrow> client_error + lookup_result" where
  "client_ip ce c q = client_do ce c (cl_server c @ ''/api/v1/whois/ip/'' @ path_escape q)"

definition client_asn :: "'t client_env \<Rightarrow> cli_client \<Rightarrow> string \<Rightarrow> client_error + lookup_result" where
  "client_asn ce c q = client_do ce c (cl_server c @ ''/api/v1/whois/asn/'' @ path_escape q)"

definition client_validate :: "'t client_env \<Rightarrow> cli_client \<Rightarrow> string \<Rightarrow> client_error + string" where
  "client_validate ce c q =
     (let endpoint = cl_server c @ ''/api/v1/whois/validate/'' @ path_escape q
      in if \<not> ce_valid ce endpoint then Inl BadUrl
         else case ce_net ce (new_request c ''GET'' endpoint) of
           NetFailed e \<Rightarrow> Inl (NetError e)
         | NetAnswer status None \<Rightarrow> Inl ReadError
         | NetAnswer status (Some b) \<Rightarrow>
             (case ce_reply ce b of
                None \<Rightarrow> Inr (ce_text ce b)
              | Some ar \<Rightarrow> if ar_ok ar then Inr (ar_message ar) else Inl (ServerSaid (ar_error ar) (ar_message ar))))"

definition health_check :: "'t client_env \<Rightarrow> cli_client \<Rightarrow> client_error option" where
  "health_check ce c =
     (let endpoint = cl_server c @ ''/server/healthz''
      in if \<not> ce_valid ce endpoint then Some BadUrl
         else case ce_net ce (new_request c ''GET'' endpoint) of
           NetFailed e \<Rightarrow> Some (NetError e)
         | NetAnswer status b \<Rightarrow> if status \<noteq> 200 then Some (HealthStatus status) else None)"

subsection \<open>Settings\<close>

record cli_config =
  cf_server :: string
  cf_token :: string
  cf_format :: string
  cf_lang :: string
  cf_updateChannel :: string
  cf_debug :: bool

datatype file_state = Missing | Unreadable | Contents string

datatype settings_error = ConfigUnreadable | ConfigInvalid | NoDirectory | NoYaml | NotWritten | TokenFileUnreadable

record user_env =
  ue_env :: "string \<Rightarrow> string"
  ue_home :: string
  ue_files :: "string \<Rightarrow> file_state"

definition join_all :: "string list \<Rightarrow> string" where
  "join_all ps = (let qs = filter (\<lambda>p. p \<noteq> []) ps in if qs = [] then [] else clean_path (join ''/'' qs))"

definition client_config_dir :: "user_env \<Rightarrow> string" where
  "client_config_dir u =
     (let base = (if ue_env u ''XDG_CONFIG_HOME'' = [] then join_all [ue_home u, ''.config''] else ue_env u ''XDG_CONFIG_HOME'')
      in join_all [base, ''apimgr'', InternalName])"

definition client_config_path :: "user_env \<Rightarrow> string" where
  "client_config_path u = join_all [client_config_dir u, ''cli.yml'']"

definition resolve_yaml_extension :: "user_env \<Rightarrow> string \<Rightarrow> string" where
  "resolve_yaml_extension u path =
     (let ext = file_ext path
      in if ext = ''.yml'' \<or> ext = ''.yaml'' then path
         else if ext = [] then
           (if ue_files u (path @ ''.yml'') \<noteq> Missing then path @ ''.yml''
            else if ue_files u (path @ ''.yaml'') \<noteq> Missing then path @ ''.yaml''
            else path @ ''.yml'')
         else path)"

definition resolve_config_path :: "user_env \<Rightarrow> string \<Rightarrow> string" where
  "resolve_config_path u flag =
     (if flag = [] then client_config_path u
      else let p = (if has_prefix flag ''~/'' then join_all [ue_home u, drop 2 flag] else flag)
           in if is_abs p then resolve_yaml_extension u p
              else resolve_yaml_extension u (join_all [client_config_dir u, p]))"

definition default_cli_config :: cli_config where
  "default_cli_config = \<lparr>cf_server = [], cf_token = [], cf_format = ''table'', cf_lang = [], cf_updateChannel = [], cf_debug = False\<rparr>"

text \<open>\<open>parse d c\<close> is \<open>yaml.Unmarshal\<close> of \<open>d\<close> into \<open>c\<close>.\<close>

definition load_from :: "(string \<Rightarrow> cli_config \<Rightarrow> cli_config option) \<Rightarrow> user_env \<Rightarrow> string \<Rightarrow> settings_error + cli_config" where
  "load_from parse u path =
     (case ue_files u path of
        Missing \<Rightarrow> Inr default_cli_config
      | Unreadable \<Rightarrow> Inl ConfigUnreadable
      | Contents d \<Rightarrow>
          (case parse d default_cli_config of
             None \<Rightarrow> Inl ConfigInvalid
           | Some cfg \<Rightarrow> Inr (if cf_format cfg = [] then cfg\<lparr>cf_format := ''table''\<rparr> else cfg)))"

definition save_to ::
    "bool \<Rightarrow> (cli_config \<Rightarrow> string option) \<Rightarrow> bool \<Rightarrow> string \<Rightarrow> cli_config \<Rightarrow> user_env \<Rightarrow> settings_error option \<times> user_env" where
  "save_to mk marshal can path cfg u =
     (if \<not> mk then (Some NoDirectory, u)
      else case marshal cfg of
        None \<Rightarrow> (Some NoYaml, u)
      | Some d \<Rightarrow> if can then (None, u\<lparr>ue_files := (ue_files u)(path := Contents d)\<rparr>) else (Some NotWritten, u))"

record cli_flags =
  fl_server :: string
  fl_token :: string
  fl_tokenFile :: string
  fl_output :: string
  fl_format :: string
  fl_debug :: bool
  fl_config :: string

definition apply_env_overrides :: "(string \<Rightarrow> string) \<Rightarrow> cli_config \<Rightarrow> cli_config" where
  "apply_env_overrides env c =
     (let c1 = (if cf_server c = [] then c\<lparr>cf_server := env ''CASWHOIS_SERVER''\<rparr> else c);
          c2 = (if cf_token c1 = [] then c1\<lparr>cf_token := env ''CASWHOIS_TOKEN''\<rparr> else c1)
      in if cf_format c2 = [] then c2\<lparr>cf_format := env ''CASWHOIS_FORMAT''\<rparr> else c2)"

definition output_flags :: "cli_flags \<Rightarrow> cli_config \<Rightarrow> cli_config" where
  "output_flags fl c =
     (let c1 = (if fl_output fl \<noteq> [] then c\<lparr>cf_format := fl_output fl\<rparr>
                else if fl_format fl \<noteq> [] then c\<lparr>cf_format := fl_format fl\<rparr> else c)
      in if fl_debug fl then c1\<lparr>cf_debug := True\<rparr> else c1)"

text \<open>The settings of a run, from the file, the flags and the environment. A file that cannot be used is left aside.\<close>

definition client_settings :: "(string \<Rightarrow> cli_config \<Rightarrow> cli_config option) \<Rightarrow> user_env \<Rightarrow> cli_flags \<Rightarrow> settings_error + cli_config" where
  "client_settings parse u fl =
     (let c0 = (case load_from parse u (resolve_config_path u (fl_config fl)) of Inl e \<Rightarrow> default_cli_config | Inr c \<Rightarrow> c);
          c1 = (if fl_server fl \<noteq> [] then c0\<lparr>cf_server := fl_server fl\<rparr> else c0);
          c2 = (if fl_token fl \<noteq> [] then c1\<lparr>cf_token := fl_token fl\<rparr> else c1);
          done = (\<lambda>c3. Inr (apply_env_overrides (ue_env u) (output_flags fl c3)))
      in if fl_token fl = [] \<and> fl_tokenFile fl \<noteq> [] then
           (case ue_files u (fl_tokenFile fl) of
              Contents d \<Rightarrow> done (c2\<lparr>cf_token := trim_space d\<rparr>)
            | _ \<Rightarrow> Inl TokenFileUnreadable)
         else done c2)"

subsection \<open>Commands\<close>

fun client_error_text :: "'t client_env \<Rightarrow> client_error \<Rightarrow> string" where
  "client_error_text ce (NetError e) = e"
| "client_error_text ce (ServerSaid k m) = k @ '': '' @ m"
| "client_error_text ce (HttpStatus n) = ''HTTP '' @ itoa_int n"
| "client_error_text ce (HealthStatus n) = ''health check returned HTTP '' @ itoa_int n"
| "client_error_text ce e = ce_library ce e"

text \<open>What a command leaves: the exit code, the standard output and the error output.\<close>

type_synonym cli_exit = "int \<times> string \<times> string"

definition print_line :: "string \<Rightarrow> string" where "print_line s = s @ [CHR 0x0A]"

definition print_result :: "'t client_env \<Rightarrow> client_error + lookup_result \<Rightarrow> string \<Rightarrow> cli_exit" where
  "print_result ce res fmt =
     (case res of
        Inl e \<Rightarrow> (1, [], print_line (''Error: '' @ client_error_text ce e))
      | Inr r \<Rightarrow>
          (0, if to_lower fmt = ''json'' then print_line (ce_json ce r)
              else if to_lower fmt = ''plain'' then print_line (lr_raw r)
              else print_line (''Query:     '' @ lr_query r) @ print_line (''Type:      '' @ lr_type r) @
                   print_line (''Server:    '' @ lr_server r) @ print_line (''Timestamp: '' @ lr_timestamp r) @
                   print_line [] @ print_line (lr_raw r), []))"

definition missing_argument :: "string \<Rightarrow> cli_exit" where
  "missing_argument what = (1, [], print_line (''Error: '' @ what @ '' required''))"

text \<open>The caller has at least one argument.\<close>

definition run_cli_command :: "'t client_env \<Rightarrow> string \<Rightarrow> cli_config \<Rightarrow> string list \<Rightarrow> cli_exit" where
  "run_cli_command ce version cfg args =
     (let c = new_client (cf_server cfg) (cf_token cfg) version; command = hd args; rest = tl args; fmt = cf_format cfg;
          one = (\<lambda>what f. if rest = [] then missing_argument what else print_result ce (f (hd rest)) fmt)
      in if command = ''domain'' then one ''domain'' (client_domain ce c)
         else if command = ''ip'' then one ''IP address'' (client_ip ce c)
         else if command = ''asn'' then one ''ASN'' (client_asn ce c)
         else if command = ''validate'' then
           (if rest = [] then missing_argument ''query''
            else case client_validate ce c (hd rest) of
                   Inl e \<Rightarrow> (1, [], print_line (''Invalid: '' @ client_error_text ce e))
                 | Inr m \<Rightarrow> (0, print_line m, []))
         else if command = ''lookup'' then one ''query'' (client_lookup ce c)
         else print_result ce (client_lookup ce c command) fmt)"

definition run_status_check :: "'t client_env \<Rightarrow> string \<Rightarrow> cli_config \<Rightarrow> cli_exit" where
  "run_status_check ce version cfg =
     (if cf_server cfg = [] then (1, [], print_line ''Error: no server configured'')
      else case health_check ce (new_client (cf_server cfg) (cf_token cfg) version) of
             Some e \<Rightarrow> (1, [], print_line (''unhealthy: '' @ client_error_text ce e))
           | None \<Rightarrow> (0, print_line ''healthy'', []))"

subsection \<open>The wizard\<close>

datatype wizard_step = StepURL | StepTest | StepToken | StepDone

record wizard =
  wz_step :: wizard_step
  wz_url :: string
  wz_token :: string
  wz_err :: "client_error option"
  wz_cfg :: cli_config

text \<open>Another key changes the text of a field, in a way that the library decides.\<close>

datatype wizard_msg = WizCtrlC | WizEnter | WizKey "string \<Rightarrow> string" | WizTestDone "client_error option"

datatype wizard_cmd = WizNothing | WizQuit | WizTest string

definition new_wizard :: "cli_config \<Rightarrow> wizard" where
  "new_wizard cfg = \<lparr>wz_step = StepURL, wz_url = cf_server cfg, wz_token = [], wz_err = None, wz_cfg = cfg\<rparr>"

definition wizard_enter :: "wizard \<Rightarrow> wizard \<times> wizard_cmd" where
  "wizard_enter m =
     (case wz_step m of
        StepURL \<Rightarrow>
          (let url = trim_space (wz_url m)
           in if url = [] then (m, WizNothing)
              else (m\<lparr>wz_cfg := (wz_cfg m)\<lparr>cf_server := url\<rparr>, wz_err := None, wz_step := StepTest\<rparr>, WizTest url))
      | StepToken \<Rightarrow> (m\<lparr>wz_cfg := (wz_cfg m)\<lparr>cf_token := trim_space (wz_token m)\<rparr>, wz_step := StepDone\<rparr>, WizQuit)
      | _ \<Rightarrow> (m, WizNothing))"

fun wizard_update :: "wizard_msg \<Rightarrow> wizard \<Rightarrow> wizard \<times> wizard_cmd" where
  "wizard_update WizCtrlC m = (m, WizQuit)"
| "wizard_update WizEnter m = wizard_enter m"
| "wizard_update (WizTestDone (Some e)) m = (m\<lparr>wz_err := Some e, wz_step := StepURL\<rparr>, WizNothing)"
| "wizard_update (WizTestDone None) m = (m\<lparr>wz_step := StepToken\<rparr>, WizNothing)"
| "wizard_update (WizKey f) m =
     (case wz_step m of
        StepURL \<Rightarrow> (m\<lparr>wz_url := f (wz_url m)\<rparr>, WizNothing)
      | StepToken \<Rightarrow> (m\<lparr>wz_token := f (wz_token m)\<rparr>, WizNothing)
      | _ \<Rightarrow> (m, WizNothing))"

text \<open>A run of the wizard: the tests under way and, for the record, the addresses that answered a test.\<close>

record wizard_run =
  wr_model :: wizard
  wr_tests :: "string list"
  wr_quit :: bool
  wr_passed :: "string list"

definition wizard_start :: "cli_config \<Rightarrow> wizard_run" where
  "wizard_start cfg = \<lparr>wr_model = new_wizard cfg, wr_tests = [], wr_quit = False, wr_passed = []\<rparr>"

fun wizard_issue :: "wizard_cmd \<Rightarrow> wizard_run \<Rightarrow> wizard_run" where
  "wizard_issue WizNothing r = r"
| "wizard_issue WizQuit r = r\<lparr>wr_quit := True\<rparr>"
| "wizard_issue (WizTest u) r = r\<lparr>wr_tests := wr_tests r @ [u]\<rparr>"

inductive wizard_moves :: "wizard_run \<Rightarrow> wizard_run \<Rightarrow> bool" where
  WizUser: "\<not> wr_quit r \<Longrightarrow> \<forall>e. msg \<noteq> WizTestDone e \<Longrightarrow> wizard_update msg (wr_model r) = (m, cmd) \<Longrightarrow>
    wizard_moves r (wizard_issue cmd (r\<lparr>wr_model := m\<rparr>))"
| WizTested: "\<not> wr_quit r \<Longrightarrow> u \<in> set (wr_tests r) \<Longrightarrow> wizard_update (WizTestDone e) (wr_model r) = (m, cmd) \<Longrightarrow>
    wizard_moves r (wizard_issue cmd (r\<lparr>wr_model := m, wr_tests := remove1 u (wr_tests r),
                                      wr_passed := (if e = None then u # wr_passed r else wr_passed r)\<rparr>))"

text \<open>What \<open>RunTo\<close> saves; \<open>None\<close> is the error that setup was cancelled.\<close>

definition wizard_result :: "wizard_run \<Rightarrow> cli_config option" where
  "wizard_result r = (if wz_step (wr_model r) = StepDone then Some (wz_cfg (wr_model r)) else None)"

definition run_wizard ::
    "bool \<Rightarrow> (cli_config \<Rightarrow> string option) \<Rightarrow> bool \<Rightarrow> string \<Rightarrow> wizard_run \<Rightarrow> user_env \<Rightarrow> (settings_error option + cli_config) \<times> user_env" where
  "run_wizard mk marshal can path r u =
     (case wizard_result r of
        None \<Rightarrow> (Inl None, u)
      | Some cfg \<Rightarrow>
          (case save_to mk marshal can path cfg u of
             (Some e, u1) \<Rightarrow> (Inl (Some e), u1)
           | (None, u1) \<Rightarrow> (Inr cfg, u1)))"

subsection \<open>The screen\<close>

record tui =
  tu_input :: string
  tu_result :: string
  tu_loading :: bool
  tu_err :: "client_error option"
  tu_size :: "int \<times> int"

datatype tui_msg = TuiResize int int | TuiEscape | TuiEnter | TuiKey "string \<Rightarrow> string" | TuiDone "client_error + lookup_result"

datatype tui_cmd = TuiNothing | TuiQuit | TuiLookup string

definition new_tui :: tui where
  "new_tui = \<lparr>tu_input = [], tu_result = [], tu_loading = False, tu_err = None, tu_size = (0, 0)\<rparr>"

definition format_result :: "lookup_result \<Rightarrow> string" where
  "format_result r =
     print_line (''Query:     '' @ lr_query r) @ print_line (''Type:      '' @ lr_type r) @ print_line (''Server:    '' @ lr_server r) @
     print_line (''Timestamp: '' @ lr_timestamp r) @ (if lr_raw r \<noteq> [] then print_line [] @ lr_raw r else [])"

fun tui_update :: "tui_msg \<Rightarrow> tui \<Rightarrow> tui \<times> tui_cmd" where
  "tui_update (TuiResize w h) m = (m\<lparr>tu_size := (w, h)\<rparr>, TuiNothing)"
| "tui_update TuiEscape m =
     (if tu_input m = [] then (m, TuiQuit) else (m\<lparr>tu_input := [], tu_result := [], tu_err := None\<rparr>, TuiNothing))"
| "tui_update TuiEnter m =
     (let query = trim_space (tu_input m)
      in if query = [] \<or> tu_loading m then (m, TuiNothing)
         else (m\<lparr>tu_loading := True, tu_result := [], tu_err := None\<rparr>, TuiLookup query))"
| "tui_update (TuiKey f) m = (m\<lparr>tu_input := f (tu_input m)\<rparr>, TuiNothing)"
| "tui_update (TuiDone (Inl e)) m = (m\<lparr>tu_loading := False, tu_err := Some e\<rparr>, TuiNothing)"
| "tui_update (TuiDone (Inr r)) m = (m\<lparr>tu_loading := False, tu_result := format_result r\<rparr>, TuiNothing)"

text \<open>A run: the lookups under way and, for the record, the query asked last and the lookup that came back last.\<close>

record tui_run =
  ur_model :: tui
  ur_lookups :: "string list"
  ur_quit :: bool
  ur_asked :: "string option"
  ur_answer :: "(string \<times> (client_error + lookup_result)) option"

definition tui_start :: tui_run where
  "tui_start = \<lparr>ur_model = new_tui, ur_lookups = [], ur_quit = False, ur_asked = None, ur_answer = None\<rparr>"

fun tui_issue :: "tui_cmd \<Rightarrow> tui_run \<Rightarrow> tui_run" where
  "tui_issue TuiNothing r = r"
| "tui_issue TuiQuit r = r\<lparr>ur_quit := True\<rparr>"
| "tui_issue (TuiLookup q) r = r\<lparr>ur_lookups := ur_lookups r @ [q], ur_asked := Some q\<rparr>"

inductive tui_moves :: "tui_run \<Rightarrow> tui_run \<Rightarrow> bool" where
  TuiUser: "\<not> ur_quit r \<Longrightarrow> \<forall>x. msg \<noteq> TuiDone x \<Longrightarrow> tui_update msg (ur_model r) = (m, cmd) \<Longrightarrow>
    tui_moves r (tui_issue cmd (r\<lparr>ur_model := m\<rparr>))"
| TuiAnswered: "\<not> ur_quit r \<Longrightarrow> q \<in> set (ur_lookups r) \<Longrightarrow> tui_update (TuiDone x) (ur_model r) = (m, cmd) \<Longrightarrow>
    tui_moves r (tui_issue cmd (r\<lparr>ur_model := m, ur_lookups := remove1 q (ur_lookups r), ur_answer := Some (q, x)\<rparr>))"

subsection \<open>The server's side\<close>

text \<open>The path of a request as the server sees it, and the answer of the routes of lookups to it.\<close>

fun path_unescape :: "string \<Rightarrow> string option" where
  "path_unescape [] = Some []"
| "path_unescape (c # s) =
     (if c = CHR ''%'' then
        (case s of
           a # b # t \<Rightarrow>
             if is_hex a \<and> is_hex b then map_option ((#) (char_of (hex_digit a * 16 + hex_digit b))) (path_unescape t) else None
         | _ \<Rightarrow> None)
      else map_option ((#) c) (path_unescape s))"

definition seen_request :: "HttpGuard.http_request \<Rightarrow> out_request \<Rightarrow> string \<Rightarrow> HttpGuard.http_request" where
  "seen_request conn req p =
     conn\<lparr>rq_method := or_method req, rq_path := p, rq_query := (\<lambda>_. []), header := (\<lambda>k. opt_or (map_of (or_heads req) k) [])\<rparr>"

definition served :: "string \<Rightarrow> whois_env \<Rightarrow> HttpGuard.http_request \<Rightarrow> whois_state \<Rightarrow> out_request \<Rightarrow> body net_answer" where
  "served base env conn s req =
     (case path_unescape (drop (length base) (or_url req)) of
        None \<Rightarrow> NetAnswer 400 (Some NoBody)
      | Some p \<Rightarrow>
          (case whois_route env (seen_request conn req p) of
             None \<Rightarrow> NetAnswer 404 (Some NoBody)
           | Some h \<Rightarrow>
               (let resp = fst (h (seen_request conn req p) \<lparr>w_head = [], w_cookies = []\<rparr> s)
                in NetAnswer (rs_status resp) (Some (rs_body resp)))))"

text \<open>The JSON documents that \<open>SendSuccess\<close> and \<open>SendError\<close> write.\<close>

fun envelope :: "body \<Rightarrow> api_response option" where
  "envelope (JsonData d) = Some \<lparr>ar_ok = True, ar_data = Some d, ar_error = [], ar_message = []\<rparr>"
| "envelope (JsonError k m) = Some \<lparr>ar_ok = False, ar_data = None, ar_error = k, ar_message = m\<rparr>"
| "envelope _ = None"

definition client_of :: "string \<Rightarrow> whois_env \<Rightarrow> HttpGuard.http_request \<Rightarrow> whois_state \<Rightarrow> body client_env" where
  "client_of base env conn s =
     \<lparr>ce_valid = (\<lambda>_. True), ce_net = served base env conn s, ce_reply = envelope, ce_text = (\<lambda>_. []), ce_json = (\<lambda>_. []),
      ce_library = (\<lambda>_. [])\<rparr>"

lemma path_unescape_plain: "CHR ''%'' \<notin> set p \<Longrightarrow> path_unescape (p @ s) = map_option ((@) p) (path_unescape s)"
  by (induction p; cases "path_unescape s") auto

lemma path_unescape_escape: "path_unescape (path_escape s) = Some s"
proof (induction s)
  case (Cons c s)
  have b: "byte c < 256" by (rule byte_bound)
  then have "byte c div 16 < 16" "byte c mod 16 < 16" by (simp_all add: less_mult_imp_div_less)
  note h = hex_char_back [OF this(1)] hex_char_back [OF this(2)]
  have "char_of (byte c div 16 * 16 + byte c mod 16) = c" by simp
  moreover have "path_plain c \<Longrightarrow> c \<noteq> CHR ''%''"
    by (auto simp: path_plain_def is_digit_def is_upper_def is_lower_def)
  ultimately show ?case using Cons h by (auto simp: path_escape_def)
qed (simp add: path_escape_def)

lemma has_prefix_slash: "CHR ''/'' \<notin> set q \<Longrightarrow> \<not> has_prefix q (p @ ''/'')"
  by (auto simp: has_prefix_iff)

lemma has_prefix_same: "has_prefix (a @ s) (a @ p) \<longleftrightarrow> has_prefix s p"
  by (simp add: has_prefix_def)

lemma seen_path:
  assumes "CHR ''%'' \<notin> set pre"
  shows "path_unescape (drop (length base) (or_url (new_request c m (base @ pre @ path_escape q)))) = Some (pre @ q)"
  by (simp add: new_request_def path_unescape_plain [OF assms] path_unescape_escape)

lemma whois_route_general:
  assumes "we_api env = ''/api/v1''" "CHR ''/'' \<notin> set q" "q \<noteq> ''search''" "rq_method rq = ''GET''" "rq_path rq = ''/api/v1/whois/'' @ q"
  shows "whois_route env rq = Some (handle_whois env)"
proof -
  have n: "\<not> has_prefix (''/api/v1/whois/'' @ q) (''/api/v1/whois/'' @ x @ ''/'')" for x
    using has_prefix_slash [OF assms(2)] by (simp only: has_prefix_same not_False_eq_True)
  show ?thesis
    using n [of "''domain''"] n [of "''ip''"] n [of "''asn''"] n [of "''validate''"] assms(3)
    by (simp add: whois_route_def assms(1,4,5) Let_def has_prefix_def)
qed

lemma whois_route_validate:
  assumes "we_api env = ''/api/v1''" "rq_method rq = ''GET''" "rq_path rq = ''/api/v1/whois/validate/'' @ q"
  shows "whois_route env rq = Some (handle_whois_validate env)"
  by (simp add: whois_route_def assms Let_def has_prefix_def)

subsection \<open>Properties of the requests\<close>


text \<open>
  The command \<open>validate\<close> reports nothing: for every query that is not blank the client takes the answer of the server
  for a success and prints an empty line, whether the query is valid or not.
\<close>

theorem client_validate_blind:
  assumes "we_api env = ''/api/v1''" "trim_space q \<noteq> []"
  shows "client_validate (client_of (cl_server c) env conn s) c q = Inr []"
proof -
  define req where "req = new_request c ''GET'' (cl_server c @ ''/api/v1/whois/validate/'' @ path_escape q)"
  define rq where "rq = seen_request conn req (''/api/v1/whois/validate/'' @ q)"
  have p: "path_unescape (drop (length (cl_server c)) (or_url req)) = Some (''/api/v1/whois/validate/'' @ q)"
    unfolding req_def by (rule seen_path) simp
  have rq: "rq_method rq = ''GET''" "rq_path rq = ''/api/v1/whois/validate/'' @ q"
    by (simp_all add: rq_def seen_request_def req_def new_request_def)
  have pq: "path_query env ''/whois/validate/'' rq = trim_space q"
    unfolding path_query_def rq(2) assms(1) using trim_prefix_append [of "''/api/v1/whois/validate/''" q] by simp
  define resp where "resp = fst (handle_whois_validate env rq \<lparr>w_head = [], w_cookies = []\<rparr> s)"
  have net: "ce_net (client_of (cl_server c) env conn s) req = NetAnswer (rs_status resp) (Some (rs_body resp))"
    unfolding client_of_def client_env.simps served_def p option.case rq_def [symmetric] whois_route_validate [OF assms(1) rq] Let_def resp_def
    by (rule refl)
  obtain d where d: "rs_body resp = JsonData d"
    using assms(2) by (cases "validate_query (trim_space q)") (simp_all add: resp_def handle_whois_validate_def pq send_success_def answer_def)
  have ce: "ce_valid (client_of (cl_server c) env conn s) e = True" "ce_reply (client_of (cl_server c) env conn s) = envelope" for e
    by (simp_all add: client_of_def)
  show ?thesis unfolding client_validate_def Let_def req_def [symmetric] net ce by (simp add: d)
qed

subsection \<open>Properties of the wizard and the screen\<close>

inductive_cases wizard_movesE: "wizard_moves r r'"
inductive_cases tui_movesE: "tui_moves r r'"

text \<open>A test runs in one step only, and the address in the settings has passed it in the later ones.\<close>

definition same_preferences :: "cli_config \<Rightarrow> cli_config \<Rightarrow> bool" where
  "same_preferences c c' \<longleftrightarrow>
     cf_format c' = cf_format c \<and> cf_lang c' = cf_lang c \<and> cf_updateChannel c' = cf_updateChannel c \<and> cf_debug c' = cf_debug c"

definition wizard_inv :: "cli_config \<Rightarrow> wizard_run \<Rightarrow> bool" where
  "wizard_inv cfg r \<longleftrightarrow>
     (let m = wr_model r; c = wz_cfg m in
      same_preferences cfg c \<and>
      (case wz_step m of
         StepURL \<Rightarrow> wr_tests r = []
       | StepTest \<Rightarrow> wr_tests r = [cf_server c] \<and> cf_server c \<noteq> []
       | _ \<Rightarrow> wr_tests r = [] \<and> cf_server c \<in> set (wr_passed r) \<and> cf_server c \<noteq> []))"

lemma wizard_inv_start: "wizard_inv cfg (wizard_start cfg)"
  by (simp add: wizard_inv_def wizard_start_def new_wizard_def same_preferences_def)

lemma wizard_inv_user:
  assumes "wizard_inv cfg r" "\<forall>e. msg \<noteq> WizTestDone e" "wizard_update msg (wr_model r) = (m, cmd)"
  shows "wizard_inv cfg (wizard_issue cmd (r\<lparr>wr_model := m\<rparr>))"
  using assms
  by (cases msg; cases "wz_step (wr_model r)")
    (auto simp: wizard_inv_def wizard_enter_def same_preferences_def Let_def split: if_splits)

lemma wizard_inv_tested:
  assumes "wizard_inv cfg r" "u \<in> set (wr_tests r)" "wizard_update (WizTestDone e) (wr_model r) = (m, cmd)"
  shows "wizard_inv cfg (wizard_issue cmd (r\<lparr>wr_model := m, wr_tests := remove1 u (wr_tests r),
                                      wr_passed := (if e = None then u # wr_passed r else wr_passed r)\<rparr>))"
  using assms by (cases e) (auto simp: wizard_inv_def Let_def split: wizard_step.splits)

lemma wizard_inv_reachable: "wizard_moves\<^sup>*\<^sup>* (wizard_start cfg) r \<Longrightarrow> wizard_inv cfg r"
proof (induction rule: rtranclp_induct)
  case (step r r')
  from step.hyps(2) show ?case
    by (cases rule: wizard_movesE) (use step.IH wizard_inv_user wizard_inv_tested in blast)+
qed (rule wizard_inv_start)

text \<open>
  C24: What setup saves: the settings it was given, with a token and with the address of a server that has answered a test,
  whatever the user types and in whatever order the tests come back.
\<close>

theorem wizard_saves_tested:
  assumes "wizard_moves\<^sup>*\<^sup>* (wizard_start cfg) r" "wizard_result r = Some c"
  shows "cf_server c \<in> set (wr_passed r) \<and> cf_server c \<noteq> [] \<and> same_preferences cfg c"
  using wizard_inv_reachable [OF assms(1)] assms(2) by (auto simp: wizard_inv_def wizard_result_def Let_def split: if_splits)

text \<open>One lookup at a time; what is shown belongs to the query asked last.\<close>

definition tui_inv :: "tui_run \<Rightarrow> bool" where
  "tui_inv r \<longleftrightarrow>
     (let m = ur_model r in
      (if tu_loading m then \<exists>q. ur_lookups r = [q] \<and> ur_asked r = Some q \<and> tu_result m = [] \<and> tu_err m = None
       else ur_lookups r = [] \<and>
            (tu_result m = [] \<and> tu_err m = None \<or>
             (\<exists>q. ur_asked r = Some q \<and>
               ((\<exists>a. ur_answer r = Some (q, Inr a) \<and> tu_result m = format_result a \<and> tu_err m = None) \<or>
                (\<exists>e. ur_answer r = Some (q, Inl e) \<and> tu_result m = [] \<and> tu_err m = Some e))))))"

lemma tui_inv_user:
  assumes "tui_inv r" "\<forall>x. msg \<noteq> TuiDone x" "tui_update msg (ur_model r) = (m, cmd)"
  shows "tui_inv (tui_issue cmd (r\<lparr>ur_model := m\<rparr>))"
  using assms by (cases msg) (auto simp: tui_inv_def Let_def split: if_splits)

lemma tui_inv_answered:
  assumes "tui_inv r" "q \<in> set (ur_lookups r)" "tui_update (TuiDone x) (ur_model r) = (m, cmd)"
  shows "tui_inv (tui_issue cmd (r\<lparr>ur_model := m, ur_lookups := remove1 q (ur_lookups r), ur_answer := Some (q, x)\<rparr>))"
  using assms by (cases x) (auto simp: tui_inv_def Let_def split: if_splits)

theorem tui_shows_last_query:
  assumes "tui_moves\<^sup>*\<^sup>* tui_start r"
  shows "tui_inv r"
  using assms
proof (induction rule: rtranclp_induct)
  case base
  show ?case by (simp add: tui_inv_def tui_start_def new_tui_def)
next
  case (step r r')
  from step.hyps(2) show ?case
    by (cases rule: tui_movesE) (use step.IH tui_inv_user tui_inv_answered in blast)+
qed

subsection \<open>Properties of the settings\<close>

text \<open>Saved settings are loaded again, with the format filled in.\<close>

theorem settings_roundtrip:
  assumes "\<And>c d. marshal c = Some d \<Longrightarrow> parse d default_cli_config = Some c" "save_to mk marshal can path cfg u = (None, u')"
  shows "load_from parse u' path = Inr (if cf_format cfg = [] then cfg\<lparr>cf_format := ''table''\<rparr> else cfg)"
  using assms by (auto simp: save_to_def load_from_def split: if_splits option.splits)

lemma load_from_format: "load_from parse u path = Inr c \<Longrightarrow> cf_format c \<noteq> []"
  by (auto simp: load_from_def default_cli_config_def split: file_state.splits option.splits if_splits)

lemma output_flags_format: "cf_format c \<noteq> [] \<Longrightarrow> cf_format (output_flags fl c) \<noteq> []"
  by (simp add: output_flags_def)

lemma overrides_keep_format:
  "cf_format c \<noteq> [] \<Longrightarrow> apply_env_overrides (env(''CASWHOIS_FORMAT'' := v)) c = apply_env_overrides env c"
  by (cases "cf_server c = []"; cases "cf_token c = []") (simp_all add: apply_env_overrides_def)

text \<open>The variable \<open>CASWHOIS_FORMAT\<close> has no effect: the settings of a file always have a format before it is looked at.\<close>

theorem format_variable_ignored:
  "client_settings parse (u\<lparr>ue_env := (ue_env u)(''CASWHOIS_FORMAT'' := v)\<rparr>) fl = client_settings parse u fl"
proof -
  define u' where "u' = u\<lparr>ue_env := (ue_env u)(''CASWHOIS_FORMAT'' := v)\<rparr>"
  define c0 where "c0 = (case load_from parse u (resolve_config_path u (fl_config fl)) of Inl e \<Rightarrow> default_cli_config | Inr c \<Rightarrow> c)"
  have f: "cf_format c0 \<noteq> []"
    using load_from_format [of parse u] by (auto simp: c0_def default_cli_config_def split: sum.splits)
  have eu: "ue_env u' = (ue_env u)(''CASWHOIS_FORMAT'' := v)" by (simp add: u'_def)
  have e: "apply_env_overrides (ue_env u') (output_flags fl c) = apply_env_overrides (ue_env u) (output_flags fl c)" if "cf_format c \<noteq> []" for c
    unfolding eu by (rule overrides_keep_format [OF output_flags_format [OF that]])
  have x: "ue_files u' = ue_files u" "ue_home u' = ue_home u" "ue_env u' ''XDG_CONFIG_HOME'' = ue_env u ''XDG_CONFIG_HOME''"
    by (simp_all add: u'_def)
  have r: "load_from parse u' p = load_from parse u p" "resolve_config_path u' q = resolve_config_path u q" for p q
    unfolding load_from_def resolve_config_path_def client_config_path_def client_config_dir_def resolve_yaml_extension_def x
    by (rule refl)+
  define c2 where "c2 = (let c1 = (if fl_server fl \<noteq> [] then c0\<lparr>cf_server := fl_server fl\<rparr> else c0)
                         in if fl_token fl \<noteq> [] then c1\<lparr>cf_token := fl_token fl\<rparr> else c1)"
  have f2: "cf_format c2 \<noteq> []" using f by (simp add: c2_def Let_def)
  then have t: "cf_format (c2\<lparr>cf_token := x\<rparr>) \<noteq> []" for x by simp
  show ?thesis
    unfolding u'_def [symmetric] client_settings_def r x(1) c0_def [symmetric] Let_def c2_def [unfolded Let_def, symmetric] e [OF f2] e [OF t]
    by (rule refl)
qed

subsection \<open>Witnesses\<close>

definition sample_client :: cli_client where
  "sample_client = new_client ''http://whois.example:8080/'' [] ''1.0''"


text \<open>A user types an address, the server there answers, and setup ends.\<close>

definition typed_url :: wizard_run where
  "typed_url = (wizard_start default_cli_config)\<lparr>wr_model := (new_wizard default_cli_config)\<lparr>wz_url := '' http://s''\<rparr>\<rparr>"

lemma wizard_user_move:
  "\<not> wr_quit r \<Longrightarrow> \<forall>e. msg \<noteq> WizTestDone e \<Longrightarrow>
   wizard_moves r (wizard_issue (snd (wizard_update msg (wr_model r))) (r\<lparr>wr_model := fst (wizard_update msg (wr_model r))\<rparr>))"
  by (rule WizUser) simp_all

theorem wizard_saves_tested_witness:
  "\<exists>r. wizard_moves\<^sup>*\<^sup>* (wizard_start default_cli_config) r \<and>
     wizard_result r = Some (default_cli_config\<lparr>cf_server := ''http://s''\<rparr>) \<and> ''http://s'' \<in> set (wr_passed r)"
proof -
  define r2 where "r2 = typed_url\<lparr>wr_model := (wr_model typed_url)\<lparr>wz_cfg := default_cli_config\<lparr>cf_server := ''http://s''\<rparr>, wz_step := StepTest\<rparr>,
                                  wr_tests := [''http://s'']\<rparr>"
  define r3 where "r3 = r2\<lparr>wr_model := (wr_model r2)\<lparr>wz_step := StepToken\<rparr>, wr_tests := [], wr_passed := [''http://s'']\<rparr>"
  define r4 where "r4 = r3\<lparr>wr_model := (wr_model r3)\<lparr>wz_step := StepDone\<rparr>, wr_quit := True\<rparr>"
  have t: "trim_space '' http://s'' = ''http://s''" "trim_space [] = []" by code_simp+
  have s1: "wizard_moves (wizard_start default_cli_config) typed_url"
    using wizard_user_move [of "wizard_start default_cli_config" "WizKey (\<lambda>_. '' http://s'')"]
    by (simp add: typed_url_def wizard_start_def new_wizard_def)
  have s2: "wizard_moves typed_url r2"
    using wizard_user_move [of typed_url WizEnter]
    by (simp add: typed_url_def r2_def wizard_start_def new_wizard_def wizard_enter_def t default_cli_config_def Let_def)
  have s3: "wizard_moves r2 r3"
    using WizTested [of r2 "''http://s''" None "(wr_model r2)\<lparr>wz_step := StepToken\<rparr>" WizNothing]
    by (simp add: typed_url_def r2_def r3_def wizard_start_def new_wizard_def)
  have s4: "wizard_moves r3 r4"
    using wizard_user_move [of r3 WizEnter]
    by (simp add: typed_url_def r2_def r3_def r4_def wizard_start_def new_wizard_def wizard_enter_def t default_cli_config_def Let_def)
  have run: "wizard_moves\<^sup>*\<^sup>* (wizard_start default_cli_config) r4"
    by (rule converse_rtranclp_into_rtranclp [where r = wizard_moves, OF s1 converse_rtranclp_into_rtranclp [where r = wizard_moves,
          OF s2 converse_rtranclp_into_rtranclp [where r = wizard_moves, OF s3 r_into_rtranclp [where r = wizard_moves, OF s4]]]])
  have res: "wizard_result r4 = Some (default_cli_config\<lparr>cf_server := ''http://s''\<rparr>)"
    by (simp add: wizard_result_def r4_def r3_def r2_def)
  from wizard_saves_tested [OF run res] run res show ?thesis by auto
qed

end
