(* ===== verification/Spec2Isabelle.thy ===== *)
theory Spec2Isabelle
  imports Servers Cache RateLimit Cron Lookup Scheduler HttpGuard Retention Update OwnerSearch Email Reload Pgp Visitor Counters PidFile Redis Logs
    CliClient
begin

text \<open>
  A model of \<^bold>\<open>caswhois\<close>, a WHOIS server in Go, with proofs of what makes it correct. Paths below are those of
  the repository, without the leading \<open>src/src/\<close>.

  \<^bold>\<open>The program.\<close> A request for a domain, an address or an AS number passes the middleware chain (\<open>server/middleware.go\<close>),
  is classified and validated (\<open>whois/validate.go\<close>) and answered by the lookup service (\<open>whois/lookup.go\<close>): from the
  cache (\<open>cache\<close>), or over RDAP (\<open>whois/rdap\<close>) at the endpoint that the bootstrap registries of IANA name, or by
  a query to a WHOIS server (\<open>whois/whois.go\<close>, \<open>servers.go\<close>) whose reply is parsed (\<open>whois/parser\<close>). The answer is
  cached and kept as a record (\<open>whois/records\<close>), in which owners can be searched (\<open>whois/reverse\<close>). Besides that run
  the scheduler (\<open>scheduler\<close>) with its built-in tasks (back-ups, updates, clean-up, refreshing), the reloading of the
  settings (\<open>config\<close>) and the sending of mail (\<open>email\<close>).

  \<^bold>\<open>Theories, from the bottom up.\<close>

  \<^item> Library of Go: \<open>Prelude\<close> (byte strings, \<open>strings\<close>, \<open>strconv\<close>), \<open>Texts\<close> (\<open>fmt.Sscanf\<close>, replacement, host and
  port), \<open>Regex\<close> (the matcher for the patterns used, against the textbook semantics), \<open>GoTime\<close> and \<open>TimeParse\<close> (the
  calendar, \<open>time.Date\<close>, \<open>ParseDuration\<close>, \<open>time.Parse\<close>), \<open>Net\<close> (addresses and networks), \<open>Disk\<close> (a disk as a tree).
  \<^item> Queries: \<open>Validate\<close> (\<open>whois/validate.go\<close>), \<open>Servers\<close> (\<open>whois/servers.go\<close>), \<open>Bootstrap\<close>, \<open>Rdap\<close> and \<open>RdapClient\<close>
  (\<open>whois/rdap/bootstrap.go\<close>, \<open>parser.go\<close>, \<open>client.go\<close>), \<open>WhoisParse\<close> (\<open>whois/parser\<close>), \<open>Lookup\<close> (\<open>whois/result.go\<close>,
  \<open>whois.go\<close>, \<open>lookup.go\<close>).
  \<^item> State: \<open>CacheIface\<close> and \<open>Cache\<close> (\<open>cache/cache.go\<close>, \<open>memory.go\<close>, \<open>noop.go\<close>), \<open>Redis\<close>
    (\<open>cache/redis.go\<close>, \<open>factory.go\<close>), \<open>Records\<close> (\<open>whois/records\<close>),
  \<open>OwnerSearch\<close> (\<open>whois/reverse\<close>, the search handler of \<open>server/whois_handlers.go\<close>).
  \<^item> The edge of the server: \<open>RateLimit\<close> (\<open>ratelimit\<close>), \<open>Geoip\<close> (\<open>geoip\<close>), \<open>Paths\<close> (\<open>config/path.go\<close>, \<open>bool.go\<close>),
  \<open>HttpGuard\<close> (\<open>server/middleware.go\<close> and the files it calls), \<open>WhoisHttp\<close> (the handlers of lookups: \<open>server/whois_handlers.go\<close>,
  \<open>public_handler.go\<close>, \<open>content.go\<close>), \<open>Visitor\<close> (\<open>server/consent.go\<close>, \<open>announcements.go\<close>), \<open>Counters\<close> (\<open>server/stats.go\<close>,
  \<open>health.go\<close>), \<open>PidFile\<close> (\<open>server/pid_unix.go\<close>).
  \<^item> Scheduler: \<open>Cron\<close> (\<open>scheduler/cron.go\<close>), \<open>TaskStore\<close> and \<open>Scheduler\<close> (\<open>scheduler/scheduler.go\<close>, \<open>tasks.go\<close>).
  \<^item> Maintenance: \<open>Backup\<close>, \<open>Restore\<close>, \<open>Retention\<close> (\<open>backup\<close>), \<open>Update\<close> (\<open>update\<close>), \<open>Settings\<close> and \<open>Reload\<close>
  (\<open>config/config.go\<close>, \<open>generate.go\<close>, \<open>reload.go\<close>, \<open>mode\<close>), \<open>Email\<close> (\<open>email\<close>, \<open>server/standard_pages.go\<close>),
  \<open>Secrets\<close> and \<open>Pgp\<close> (\<open>security\<close>), \<open>Logs\<close> (\<open>logger\<close>).
  \<^item> The command line: \<open>CliClient\<close> (\<open>client\<close>: requests, settings, commands, wizard and screen).

  \<^bold>\<open>How the code is translated.\<close> A string is the list of its bytes; a time is the number of nanoseconds since Go's zero
  time; integers are mathematical where the code cannot leave their range and are wrapped (\<open>wrap64\<close>, words)
  where it can. A struct is a record, a Go map an association list with distinct keys whose order of iteration is a
  parameter, an error a value of a datatype or \<open>None\<close> for \<open>nil\<close>. An operation that holds a mutex from start to end is
  one step; it takes the state and returns the new one. A panic, or a recursion without end, is a value of its own.
  Packages that are not part of the repository (JSON, YAML, gzip, tar, MMDB, SQL drivers, HTTP, hashes, ciphers,
  OpenPGP), the operating system, clocks and random numbers are parameters; what is relied on is a named
  hypothesis (\<open>codec_ok\<close>, \<open>sealing_ok\<close> and the like), and each has an instance in the witnesses.

  \<^bold>\<open>What is shown.\<close>

  \<^item> Queries: an accepted query is harmless text of a known type; only the fixed servers are ever dialled; the hand-written
  searches, number loops and parsers agree with reference definitions; every field of a parsed reply is a function
  of the lines that match its label; a network contains exactly the addresses that agree with it on the prefix.
  \<^item> Caching: the laws of the \<open>Cache\<close> interface are locales, which every backend satisfies; from them follows that a hit is
  the value stored last, and that results and failures are remembered for their times to live.
  \<^item> The limiter admits at most \<open>2L-1\<close> requests per window length, and its clean-up cannot be observed; the chain hands a
  request on only when it passed every check. Whatever is asked over HTTP, only plain queries reach the WHOIS servers; a
  bulk request answers as single ones would; the page of a result has no markup but that of its template; the counters,
  a step relation over interleaved goroutines, never count too much.
  \<^item> Scheduling: the next run is the earliest matching minute, a pass launches exactly the due tasks once, the wait group
  counts what runs, saved state comes back.
  \<^item> Back-ups: what was created verifies and restores to the same files; extraction and restore stay below their
  directories; the retention keeps the newest back-ups; updates are installed only with the digest their release names.
  \<^item> Settings: validation repairs everything it looks at; secrets survive a restart; a reload takes over exactly the
  settings that need no restart and announces the others.
  \<^item> Records, owner search, mail and keys: one row per query; the pages of a search show every match once; a message
  reported as sent was accepted in full; a password crosses the network only encrypted; stored hashes and keys
  are read back.
  \<^item> The command-line client shows the answer of the server field by field; setup saves only an address that has answered;
  after a rotation each log goes to the file that has its name, and an event is one line.

  Where the code does not do what it means to, the theorem states what it does (for example \<open>open_redirect\<close>,
  \<open>save_erases_history\<close>, \<open>contact_subject_injects\<close>, \<open>rotation_keeps_old\<close>).

  \<^bold>\<open>Bounds.\<close> Two loops of \<open>Cron\<close> run on fuel. The values of an item of a field take at most 200 steps: \<open>cron_values_enough\<close> shows
  that more fuel changes nothing for the ranges of the five fields, whatever the step (the wrap-around of 64 bits
  included). The search for the next run gets 2000 days, more than the five years after which the code gives up:
  \<open>next_scheduled_time_returns\<close> shows that the fuel does not run out. Every other loop is structural or has a
  measure.

  \<^bold>\<open>Not modelled.\<close>

  \<^item> Concurrency inside an operation, except for the counters of \<open>Counters\<close> and the start of two servers in \<open>PidFile\<close>: data races
  are named where they were found, but operations are atomic; contexts and their cancellation are left out.
  \<^item> Links, modes, owners and time stamps of files; text outside ASCII where the library treats it by Unicode tables;
  floating-point numbers.
  \<^item> The other routes, HTML pages and templates, metrics, GraphQL and Swagger, the update command and the drawing of the command-line
  client, the installation as a service, certificates and the onion service, the start of the program, the drivers of databases, and the update on
  Windows: they print, call packages, or hand over to the operating system, and what they compute is modelled where the
  components above use it.
\<close>

end
